(* ===== verification/Gateway_Prelude.thy ===== *)
theory Gateway_Prelude
  imports Main "HOL-Library.Word"
begin

text \<open>
  Shared vocabulary of the development: the C integer types at their width, the byte order
  conversions every wire format of the gateway uses, and the generic list, option and word
  lemmas the component theories rely on.
  The collection \<open>byte_simps\<close> holds the facts that split a machine integer into bytes and join
  it again; \<open>gw_splits\<close> the case splits that open an error chain.
\<close>

unbundle bit_operations_syntax

named_theorems byte_simps "splitting machine integers into bytes and joining them"

section \<open>C integer types\<close>

type_synonym u8 = "8 word"
type_synonym u16 = "16 word"
type_synonym u32 = "32 word"
type_synonym u64 = "64 word"

text \<open>An address of an object the C code may pass as \<open>NULL\<close>: \<open>None\<close> is \<open>NULL\<close>, \<open>Some v\<close> a cell holding \<open>v\<close>.\<close>

type_synonym 'a ptr = "'a option"

section \<open>Bits and bytes\<close>

lemma bit_u8_high: "bit (b :: u8) n \<Longrightarrow> n < 8"
  using bit_imp_le_length [of b n] by simp

lemma not_bit_u8: "8 \<le> n \<Longrightarrow> \<not> bit (b :: u8) n"
  using bit_u8_high [of b n] by auto

lemma and_one_nonzero_iff: "c AND 1 \<noteq> (0 :: 'a::len word) \<longleftrightarrow> bit c 0"
  by (simp add: and_one_eq bit_0 odd_iff_mod_2_eq_one)

lemma bit_u8_255: "bit (0xFF :: u8) n \<longleftrightarrow> n < 8"
proof -
  have "(0xFF :: u8) = - 1" by simp
  then show ?thesis by (simp only: bit_minus_1_iff possible_bit_word) simp
qed

lemma xor_left_cancel [simp]: "a XOR b = a XOR c \<longleftrightarrow> b = c" for a b c :: "'a::len word"
  by (auto simp: bit_eq_iff bit_xor_iff)

lemma xor_right_cancel [simp]: "b XOR a = c XOR a \<longleftrightarrow> b = c" for a b c :: "'a::len word"
  by (auto simp: bit_eq_iff bit_xor_iff)

definition byte_at :: "nat \<Rightarrow> 'a::len word \<Rightarrow> u8" where
  "byte_at k w = ucast (drop_bit (8 * k) w)"

definition join16 :: "u8 \<Rightarrow> u8 \<Rightarrow> u16" where
  "join16 hi lo = push_bit 8 (ucast hi) OR ucast lo"

definition join32 :: "u8 \<Rightarrow> u8 \<Rightarrow> u8 \<Rightarrow> u8 \<Rightarrow> u32" where
  "join32 b0 b1 b2 b3 =
     ucast b0 OR push_bit 8 (ucast b1) OR push_bit 16 (ucast b2) OR push_bit 24 (ucast b3)"

lemma bit_byte_at [bit_simps]: "bit (byte_at k w) n \<longleftrightarrow> n < 8 \<and> bit w (8 * k + n)"
  by (auto simp: byte_at_def bit_simps)

lemma bit_join16: "bit (join16 hi lo) n \<longleftrightarrow> n < 16 \<and> (if n < 8 then bit lo n else bit hi (n - 8))"
  by (auto simp: join16_def bit_simps dest: bit_u8_high)

lemma bit_join32:
  "bit (join32 b0 b1 b2 b3) n \<longleftrightarrow> n < 32 \<and>
     (if n < 8 then bit b0 n else if n < 16 then bit b1 (n - 8)
      else if n < 24 then bit b2 (n - 16) else bit b3 (n - 24))"
  by (auto simp: join32_def bit_simps dest: bit_u8_high)

lemma byte_at_join16 [byte_simps]:
  "byte_at 0 (join16 hi lo) = lo" "byte_at 1 (join16 hi lo) = hi"
  "byte_at (Suc 0) (join16 hi lo) = hi"
  by (rule bit_word_eqI; auto simp: bit_byte_at bit_join16)+

lemma join16_byte_at [byte_simps]: "join16 (byte_at 1 w) (byte_at 0 w) = w"
  by (rule bit_word_eqI) (auto simp: bit_byte_at bit_join16)

lemma byte_at_join32 [byte_simps]:
  "byte_at 0 (join32 b0 b1 b2 b3) = b0" "byte_at 1 (join32 b0 b1 b2 b3) = b1"
  "byte_at (Suc 0) (join32 b0 b1 b2 b3) = b1"
  "byte_at 2 (join32 b0 b1 b2 b3) = b2" "byte_at 3 (join32 b0 b1 b2 b3) = b3"
  by (rule bit_word_eqI; auto simp: bit_byte_at bit_join32)+

lemma join32_byte_at [byte_simps]:
  "join32 (byte_at 0 w) (byte_at 1 w) (byte_at 2 w) (byte_at 3 w) = w"
  by (rule bit_word_eqI) (auto simp: bit_byte_at bit_join32)

text \<open>The little-endian byte sequences of the wire formats.\<close>

definition le16 :: "u16 \<Rightarrow> u8 list" where
  "le16 v = [byte_at 0 v, byte_at 1 v]"

definition le32 :: "u32 \<Rightarrow> u8 list" where
  "le32 v = [byte_at 0 v, byte_at 1 v, byte_at 2 v, byte_at 3 v]"

lemma length_le16 [simp]: "length (le16 v) = 2"
  by (simp add: le16_def)

lemma length_le32 [simp]: "length (le32 v) = 4"
  by (simp add: le32_def)

lemma join16_inject [simp]: "join16 a b = join16 c d \<longleftrightarrow> a = c \<and> b = d"
  using byte_at_join16 by metis

lemma join32_inject [simp]:
  "join32 a b c d = join32 a' b' c' d' \<longleftrightarrow> a = a' \<and> b = b' \<and> c = c' \<and> d = d'"
  using byte_at_join32 by metis

lemma unat_u8_less [simp]: "unat (b :: u8) < 256"
  using unsigned_less [of b, where 'a = nat] by simp

lemma unat_u16_less [simp]: "unat (b :: u16) < 65536"
  using unsigned_less [of b, where 'a = nat] by simp

lemma unat_ucast_upcast_gen:
  "LENGTH('a) \<le> LENGTH('b) \<Longrightarrow> unat (ucast (w :: 'a::len word) :: 'b::len word) = unat w"
  by (simp add: unsigned_ucast_eq take_bit_nat_eq_self_iff)
     (use unsigned_less [of w, where 'a = nat] power_increasing [of "LENGTH('a)" "LENGTH('b)" "2 :: nat"]
      in linarith)

lemma unat_ucast_u8_u16 [simp]: "unat (ucast (b :: u8) :: u16) = unat b"
  by (rule unat_ucast_upcast_gen) simp

lemma unat_ucast_u8_u32 [simp]: "unat (ucast (b :: u8) :: u32) = unat b"
  by (rule unat_ucast_upcast_gen) simp

lemma unat_ucast_u16_u32 [simp]: "unat (ucast (b :: u16) :: u32) = unat b"
  by (rule unat_ucast_upcast_gen) simp

lemma unat_of_nat_u16: "n < 65536 \<Longrightarrow> unat (of_nat n :: u16) = n"
  by (simp add: unat_of_nat)

lemma unat_of_nat_u8: "n < 256 \<Longrightarrow> unat (of_nat n :: u8) = n"
  by (simp add: unat_of_nat)

lemma unat_plus_small:
  "unat a + unat b < 2 ^ LENGTH('a) \<Longrightarrow> unat (a + b) = unat a + unat b" for a b :: "'a::len word"
  by (simp add: unat_word_ariths)

lemma unat_add_ucast_u16:
  "unat ((ucast a :: u32) + ucast b) = unat a + unat b" for a b :: u16
proof -
  have "unat a < 65536" "unat b < 65536" by simp_all
  then have "unat a + unat b < 2 ^ LENGTH(32)" by (simp del: unat_u16_less)
  then show ?thesis by (subst unat_plus_small) simp_all
qed

section \<open>Reflected CRC arithmetic\<close>

text \<open>
  All three checksum loops of the gateway (Modbus CRC-16, the CRC-32 of the configuration slots
  and of the management frames) shift the register right one bit and add the reflected
  polynomial when the bit shifted out was set. The loop body is the same for each; the facts
  below only need that the polynomial has its top bit set.
\<close>

definition crc_shift :: "'a::len word \<Rightarrow> 'a word \<Rightarrow> 'a word" where
  "crc_shift poly crc = (if crc AND 1 \<noteq> 0 then drop_bit 1 crc XOR poly else drop_bit 1 crc)"

primrec crc_shifts :: "nat \<Rightarrow> 'a::len word \<Rightarrow> 'a word \<Rightarrow> 'a word" where
  "crc_shifts 0 poly crc = crc"
| "crc_shifts (Suc n) poly crc = crc_shifts n poly (crc_shift poly crc)"

lemma bit_crc_shift:
  "bit (crc_shift poly c) n \<longleftrightarrow> (bit c (Suc n) \<noteq> (bit c 0 \<and> bit poly n))"
  for c poly :: "'a::len word"
  by (cases "n < LENGTH('a)")
     (auto simp: crc_shift_def and_one_nonzero_iff bit_simps dest: bit_imp_le_length)

lemma crc_shift_inj:
  fixes poly :: "'a::len word"
  assumes top: "bit poly (LENGTH('a) - 1)" and eq: "crc_shift poly c = crc_shift poly d"
  shows "c = d"
proof -
  have b: "(bit c (Suc n) \<noteq> (bit c 0 \<and> bit poly n)) = (bit d (Suc n) \<noteq> (bit d 0 \<and> bit poly n))" for n
    using eq bit_crc_shift by metis
  have "\<not> bit c (Suc (LENGTH('a) - 1))" "\<not> bit d (Suc (LENGTH('a) - 1))"
    by (auto dest: bit_imp_le_length)
  then have b0: "bit c 0 = bit d 0" using b [of "LENGTH('a) - 1"] top by simp
  have "bit c n = bit d n" for n
    using b b0 by (cases n) auto
  then show ?thesis by (simp add: bit_eq_iff)
qed

lemma crc_shifts_inj:
  fixes poly :: "'a::len word"
  assumes "bit poly (LENGTH('a) - 1)" "crc_shifts n poly c = crc_shifts n poly d"
  shows "c = d"
  using assms(2) by (induction n arbitrary: c d) (auto dest!: crc_shift_inj [OF assms(1)])

text \<open>
  The contract a checksum offers its clients: the register is updated byte by byte, and for a
  fixed register the update is injective in the byte, for a fixed byte in the register. That is
  enough for error detection: two messages of equal length that differ in exactly one byte never
  have the same checksum.
\<close>

locale byte_checksum =
  fixes step :: "'s \<Rightarrow> u8 \<Rightarrow> 's" and fin :: "'s \<Rightarrow> 'c" and init :: 's
    and sum_of :: "u8 list \<Rightarrow> 'c"
  assumes sum_of_fold: "sum_of xs = fin (foldl step init xs)"
    and step_state_inj: "step s b = step t b \<Longrightarrow> s = t"
    and step_byte_inj: "step s b = step s c \<Longrightarrow> b = c"
    and fin_inj: "fin s = fin t \<Longrightarrow> s = t"
begin

lemma foldl_state_inj: "foldl step s xs = foldl step t xs \<Longrightarrow> s = t"
  by (induction xs arbitrary: s t) (auto dest: step_state_inj)

lemma single_byte_detected:
  assumes "sum_of (xs @ b # ys) = sum_of (xs @ c # ys)"
  shows "b = c"
proof -
  have "foldl step (step (foldl step init xs) b) ys = foldl step (step (foldl step init xs) c) ys"
    using assms by (auto simp: sum_of_fold dest: fin_inj)
  then show ?thesis by (blast dest: foldl_state_inj step_byte_inj)
qed

lemma update_detected:
  assumes "i < length xs" "sum_of (xs[i := b]) = sum_of xs"
  shows "b = xs ! i"
proof -
  have "sum_of (take i xs @ b # drop (Suc i) xs) = sum_of (take i xs @ xs ! i # drop (Suc i) xs)"
    using assms by (simp add: upd_conv_take_nth_drop id_take_nth_drop [symmetric])
  then show ?thesis by (rule single_byte_detected)
qed

end

section \<open>Lists as C arrays\<close>

text \<open>\<open>overwrite i ys xs\<close> overwrites the cells of \<open>xs\<close> from index \<open>i\<close> with \<open>ys\<close>, as \<open>memcpy\<close> into an array does.\<close>

definition overwrite :: "nat \<Rightarrow> 'a list \<Rightarrow> 'a list \<Rightarrow> 'a list" where
  "overwrite i ys xs = take i xs @ ys @ drop (i + length ys) xs"

lemma length_overwrite [simp]:
  "i + length ys \<le> length xs \<Longrightarrow> length (overwrite i ys xs) = length xs"
  by (simp add: overwrite_def)

lemma nth_overwrite:
  "i + length ys \<le> length xs \<Longrightarrow> k < length xs \<Longrightarrow>
   overwrite i ys xs ! k = (if i \<le> k \<and> k < i + length ys then ys ! (k - i) else xs ! k)"
  by (auto simp: overwrite_def nth_append min_def)

lemma overwrite_append:
  "i + length xs \<le> length buf \<Longrightarrow> overwrite (i + length xs) ys (overwrite i xs buf) = overwrite i (xs @ ys) buf"
  by (simp add: overwrite_def ac_simps)

lemma overwrite_Nil [simp]: "overwrite i [] buf = buf"
  by (simp add: overwrite_def)

lemma take_overwrite_0 [simp]: "take (length ys) (overwrite 0 ys xs) = ys"
  by (simp add: overwrite_def)

lemma take_drop_nth_eq:
  "i + n \<le> length xs \<Longrightarrow> take n (drop i xs) = map (\<lambda>k. xs ! (i + k)) [0..<n]"
  by (rule nth_equalityI) auto

text \<open>Digits are unique in a positional notation.\<close>

lemma radix_inject:
  fixes a a' r r' k :: nat
  assumes "k * a + r = k * a' + r'" "r < k" "r' < k"
  shows "a = a' \<and> r = r'"
proof -
  have "(k * a + r) div k = a" "(k * a' + r') div k = a'" "(k * a + r) mod k = r" "(k * a' + r') mod k = r'"
    using assms(2,3) by simp_all
  then show ?thesis using assms(1) by metis
qed

end
