(* ===== verification/Configuration.thy ===== *)
theory Configuration
  imports Gateway_Prelude
begin

text \<open>
  Model of \<open>app/Configuration/include/configuration.h\<close> and \<open>app/Configuration/src/configuration.c\<close>:
  the configuration of the gateway, its defaults, its validation and its semantic comparison.
  A bounded text field is its length and its byte array, which keeps a NUL after the content. An
  \<open>ip4_addr_t\<close> is the 32-bit word lwIP stores, in network byte order on the little-endian target.
  Of the union in an endpoint address only the member its type selects is ever read; both are kept.
  mbedTLS is a parameter of the validation: the record \<open>mbedtls_api\<close> holds the calls the code makes.
\<close>

section \<open>Data\<close>

record configuration_text_t =
  text_length :: u16
  text_bytes :: "u8 list"

type_synonym ip4_addr_t = u32

record configuration_endpoint_address_t =
  endpoint_type :: u8
  endpoint_hostname :: configuration_text_t
  endpoint_ipv4 :: ip4_addr_t

record configuration_client_id_t =
  client_id_mode :: u8
  explicit_value :: configuration_text_t

record configuration_mqtt_message_t =
  message_mode :: u8
  message_topic :: configuration_text_t
  message_payload :: configuration_text_t
  message_qos :: u8
  message_retain :: u8

record configuration_network_t =
  network_mode :: u8
  ip_address :: ip4_addr_t
  subnet_mask :: ip4_addr_t
  network_gateway :: ip4_addr_t
  dns_primary :: ip4_addr_t
  dns_secondary :: ip4_addr_t

record configuration_rtu_t =
  baud_rate :: u32
  frame_format :: u8
  rtu_first_byte_timeout_ms :: u16

record configuration_mqtt_t =
  mqtt_mode :: u8
  broker_address :: configuration_text_t
  broker_port :: u16
  client_id :: configuration_client_id_t
  username :: configuration_text_t
  password :: configuration_text_t
  ca_certificate_pem :: configuration_text_t
  keep_alive_seconds :: u16
  online_message :: configuration_mqtt_message_t
  will_message :: configuration_mqtt_message_t

record configuration_collection_point_t =
  slave_address :: u8
  point_source :: u8
  point_address :: u16
  point_data_type :: u8
  poll_interval_ms :: u32
  point_first_byte_timeout_ms :: u16
  point_topic :: configuration_text_t
  point_qos :: u8

record configuration_collection_t =
  point_count :: u8
  points :: "configuration_collection_point_t list"

record configuration_t =
  network :: configuration_network_t
  rtu :: configuration_rtu_t
  listen_port :: u16
  sntp_servers :: "configuration_endpoint_address_t list"
  mqtt :: configuration_mqtt_t
  collection :: configuration_collection_t

datatype configuration_validation_result_t =
    CONFIGURATION_VALIDATION_OK
  | CONFIGURATION_VALIDATION_INVALID_ARGUMENT
  | CONFIGURATION_VALIDATION_NETWORK_INVALID
  | CONFIGURATION_VALIDATION_RTU_INVALID
  | CONFIGURATION_VALIDATION_MODBUS_TCP_INVALID
  | CONFIGURATION_VALIDATION_SNTP_INVALID
  | CONFIGURATION_VALIDATION_MQTT_INVALID
  | CONFIGURATION_VALIDATION_CERTIFICATE_INVALID
  | CONFIGURATION_VALIDATION_COLLECTION_INVALID
  | CONFIGURATION_VALIDATION_BUS_UTILIZATION_EXCEEDED
  | CONFIGURATION_VALIDATION_RESOURCE_UNAVAILABLE

abbreviation "CONFIGURATION_HOSTNAME_MAX_LENGTH \<equiv> (253 :: nat)"
abbreviation "CONFIGURATION_HOSTNAME_BUFFER_SIZE \<equiv> (256 :: nat)"
abbreviation "CONFIGURATION_CLIENT_ID_MAX_LENGTH \<equiv> (256 :: nat)"
abbreviation "CONFIGURATION_USERNAME_MAX_LENGTH \<equiv> (256 :: nat)"
abbreviation "CONFIGURATION_PASSWORD_MAX_LENGTH \<equiv> (256 :: nat)"
abbreviation "CONFIGURATION_CA_CERTIFICATE_MAX_LENGTH \<equiv> (4096 :: nat)"
abbreviation "CONFIGURATION_TOPIC_MAX_LENGTH \<equiv> (128 :: nat)"
abbreviation "CONFIGURATION_MESSAGE_PAYLOAD_MAX_LENGTH \<equiv> (128 :: nat)"
abbreviation "CONFIGURATION_COLLECTION_POINT_MAX_COUNT \<equiv> (16 :: nat)"

abbreviation "CONFIGURATION_NETWORK_MODE_DHCP \<equiv> (0 :: u8)"
abbreviation "CONFIGURATION_NETWORK_MODE_STATIC \<equiv> (1 :: u8)"
abbreviation "CONFIGURATION_FRAME_FORMAT_8N1 \<equiv> (0 :: u8)"
abbreviation "CONFIGURATION_FRAME_FORMAT_8E1 \<equiv> (1 :: u8)"
abbreviation "CONFIGURATION_FRAME_FORMAT_8O1 \<equiv> (2 :: u8)"
abbreviation "CONFIGURATION_FRAME_FORMAT_8N2 \<equiv> (3 :: u8)"
abbreviation "CONFIGURATION_ENDPOINT_ADDRESS_TYPE_HOSTNAME \<equiv> (0 :: u8)"
abbreviation "CONFIGURATION_ENDPOINT_ADDRESS_TYPE_IPV4 \<equiv> (1 :: u8)"
abbreviation "CONFIGURATION_MQTT_MODE_DISABLED \<equiv> (0 :: u8)"
abbreviation "CONFIGURATION_MQTT_MODE_ENABLED \<equiv> (1 :: u8)"
abbreviation "CONFIGURATION_CLIENT_ID_MODE_DERIVED \<equiv> (0 :: u8)"
abbreviation "CONFIGURATION_CLIENT_ID_MODE_EXPLICIT \<equiv> (1 :: u8)"
abbreviation "CONFIGURATION_MQTT_MESSAGE_MODE_DISABLED \<equiv> (0 :: u8)"
abbreviation "CONFIGURATION_MQTT_MESSAGE_MODE_CUSTOM \<equiv> (1 :: u8)"
abbreviation "CONFIGURATION_COLLECTION_SOURCE_COIL \<equiv> (0 :: u8)"
abbreviation "CONFIGURATION_COLLECTION_SOURCE_DISCRETE_INPUT \<equiv> (1 :: u8)"
abbreviation "CONFIGURATION_COLLECTION_SOURCE_HOLDING_REGISTER \<equiv> (2 :: u8)"
abbreviation "CONFIGURATION_COLLECTION_SOURCE_INPUT_REGISTER \<equiv> (3 :: u8)"
abbreviation "CONFIGURATION_DATA_TYPE_UINT16 \<equiv> (0 :: u8)"
abbreviation "CONFIGURATION_DATA_TYPE_INT16 \<equiv> (1 :: u8)"

text \<open>The content of a text field: the bytes in front of the terminating NUL.\<close>

abbreviation text_len :: "configuration_text_t \<Rightarrow> nat" where
  "text_len t \<equiv> unat (text_length t)"

definition text_content :: "configuration_text_t \<Rightarrow> u8 list" where
  "text_content t = take (text_len t) (text_bytes t)"

section \<open>IPv4 addresses\<close>

definition lwip_ntohl :: "u32 \<Rightarrow> u32" where
  "lwip_ntohl x = join32 (byte_at 3 x) (byte_at 2 x) (byte_at 1 x) (byte_at 0 x)"

definition ip4_addr1 :: "ip4_addr_t \<Rightarrow> u8" where
  "ip4_addr1 a = byte_at 0 a"

definition ip4_addr2 :: "ip4_addr_t \<Rightarrow> u8" where
  "ip4_addr2 a = byte_at 1 a"

definition ip4_addr_cmp :: "ip4_addr_t \<Rightarrow> ip4_addr_t \<Rightarrow> bool" where
  "ip4_addr_cmp a b \<longleftrightarrow> a = b"

definition ip4_addr_netcmp :: "ip4_addr_t \<Rightarrow> ip4_addr_t \<Rightarrow> ip4_addr_t \<Rightarrow> bool" where
  "ip4_addr_netcmp a b netmask \<longleftrightarrow> a AND netmask = b AND netmask"

text \<open>
  lwIP's mask check: the two loops of \<open>ip4_addr_netmask_valid\<close> walk a one-bit mask down from bit 31,
  first over the ones, then over what must be zeros. \<open>n\<close> counts the bits left.
\<close>

fun netmask_skip_ones :: "nat \<Rightarrow> u32 \<Rightarrow> nat" where
  "netmask_skip_ones 0 nm = 0"
| "netmask_skip_ones (Suc n) nm = (if nm AND push_bit n 1 = 0 then Suc n else netmask_skip_ones n nm)"

fun netmask_rest_zero :: "nat \<Rightarrow> u32 \<Rightarrow> bool" where
  "netmask_rest_zero 0 nm = True"
| "netmask_rest_zero (Suc n) nm = (if nm AND push_bit n 1 \<noteq> 0 then False else netmask_rest_zero n nm)"

definition ip4_addr_netmask_valid :: "u32 \<Rightarrow> bool" where
  "ip4_addr_netmask_valid netmask =
     (let nm = lwip_ntohl netmask in netmask_rest_zero (netmask_skip_ones 32 nm) nm)"

definition ipv4_to_u32 :: "ip4_addr_t \<Rightarrow> u32" where
  "ipv4_to_u32 address = lwip_ntohl address"

definition ipv4_is_nonzero_unicast :: "ip4_addr_t \<Rightarrow> bool" where
  "ipv4_is_nonzero_unicast address =
     (let value = ipv4_to_u32 address; first_octet = ip4_addr1 address in
      value \<noteq> 0 \<and> first_octet \<noteq> 0 \<and> first_octet < 224 \<and> first_octet \<noteq> 127 \<and>
      \<not> (first_octet = 169 \<and> ip4_addr2 address = 254))"

definition subnet_mask_is_valid :: "ip4_addr_t \<Rightarrow> bool" where
  "subnet_mask_is_valid netmask =
     (let value = ipv4_to_u32 netmask; host_mask = NOT value in
      value \<noteq> 0 \<and> host_mask > 1 \<and> ip4_addr_netmask_valid netmask)"

definition address_is_usable_in_subnet :: "ip4_addr_t \<Rightarrow> ip4_addr_t \<Rightarrow> bool" where
  "address_is_usable_in_subnet address netmask =
     (let host_mask = NOT (ipv4_to_u32 netmask); host_part = ipv4_to_u32 address AND host_mask in
      if host_mask \<le> 1 then False else host_part \<noteq> 0 \<and> host_part \<noteq> host_mask)"

section \<open>Text fields\<close>

abbreviation "CHAR_DOT \<equiv> (0x2E :: u8)"
abbreviation "CHAR_DASH \<equiv> (0x2D :: u8)"

definition ascii_is_alphabetic :: "u8 \<Rightarrow> bool" where
  "ascii_is_alphabetic v \<longleftrightarrow> v \<ge> 0x41 \<and> v \<le> 0x5A \<or> v \<ge> 0x61 \<and> v \<le> 0x7A"

definition ascii_is_alphanumeric :: "u8 \<Rightarrow> bool" where
  "ascii_is_alphanumeric v \<longleftrightarrow>
     v \<ge> 0x41 \<and> v \<le> 0x5A \<or> v \<ge> 0x61 \<and> v \<le> 0x7A \<or> v \<ge> 0x30 \<and> v \<le> 0x39"

definition ascii_to_lower :: "u8 \<Rightarrow> u8" where
  "ascii_to_lower v = (if v \<ge> 0x41 \<and> v \<le> 0x5A then v + (0x61 - 0x41) else v)"

text \<open>
  The loop of \<open>hostname_is_valid\<close> from \<open>index\<close> with \<open>n\<close> characters left: \<open>None\<close> is an early
  \<open>return false\<close>, otherwise the label start and the flag the loop ends with.
\<close>

fun hostname_loop :: "u8 list \<Rightarrow> nat \<Rightarrow> nat \<Rightarrow> nat \<Rightarrow> bool \<Rightarrow> (nat \<times> bool) option" where
  "hostname_loop bytes 0 index label_start has_alphabetic = Some (label_start, has_alphabetic)"
| "hostname_loop bytes (Suc n) index label_start has_alphabetic =
     (let value = bytes ! index in
      if value = CHAR_DOT then
        (let label_length = index - label_start in
         if label_length = 0 \<or> label_length > 63 \<or> bytes ! label_start = CHAR_DASH \<or>
            bytes ! (index - 1) = CHAR_DASH
         then None
         else hostname_loop bytes n (index + 1) (index + 1) has_alphabetic)
      else if \<not> ascii_is_alphanumeric value \<and> value \<noteq> CHAR_DASH then None
      else if ascii_is_alphabetic value then hostname_loop bytes n (index + 1) label_start True
      else hostname_loop bytes n (index + 1) label_start has_alphabetic)"

definition hostname_is_valid :: "configuration_text_t \<Rightarrow> bool" where
  "hostname_is_valid hostname =
     (let len = text_len hostname; bytes = text_bytes hostname in
      if len = 0 \<or> len > CONFIGURATION_HOSTNAME_MAX_LENGTH \<or> bytes ! len \<noteq> 0 then False
      else case hostname_loop bytes len 0 0 False of
        None \<Rightarrow> False
      | Some (label_start, has_alphabetic) \<Rightarrow>
          let final_label_length = len - label_start in
          has_alphabetic \<and> final_label_length > 0 \<and> final_label_length \<le> 63 \<and>
          bytes ! label_start \<noteq> CHAR_DASH \<and> bytes ! (len - 1) \<noteq> CHAR_DASH)"

definition hostnames_equal :: "configuration_text_t \<Rightarrow> configuration_text_t \<Rightarrow> bool" where
  "hostnames_equal left right =
     (if text_length left \<noteq> text_length right then False
      else list_all (\<lambda>i. ascii_to_lower (text_bytes left ! i) = ascii_to_lower (text_bytes right ! i))
             [0..<text_len left])"

definition endpoint_addresses_equal ::
  "configuration_endpoint_address_t \<Rightarrow> configuration_endpoint_address_t \<Rightarrow> bool" where
  "endpoint_addresses_equal left right =
     (if endpoint_type left \<noteq> endpoint_type right then False
      else if endpoint_type left = CONFIGURATION_ENDPOINT_ADDRESS_TYPE_HOSTNAME
      then hostnames_equal (endpoint_hostname left) (endpoint_hostname right)
      else ip4_addr_cmp (endpoint_ipv4 left) (endpoint_ipv4 right))"

definition endpoint_address_is_valid :: "configuration_endpoint_address_t \<Rightarrow> bool" where
  "endpoint_address_is_valid endpoint =
     (if endpoint_type endpoint = CONFIGURATION_ENDPOINT_ADDRESS_TYPE_HOSTNAME
      then hostname_is_valid (endpoint_hostname endpoint)
      else if endpoint_type endpoint = CONFIGURATION_ENDPOINT_ADDRESS_TYPE_IPV4
      then ipv4_is_nonzero_unicast (endpoint_ipv4 endpoint)
      else False)"

text \<open>The lead byte decides the number of continuation bytes, the bits it carries and the smallest code point.\<close>

definition utf8_lead :: "u8 \<Rightarrow> (nat \<times> u32 \<times> u32) option" where
  "utf8_lead first =
     (if first \<ge> 0xC2 \<and> first \<le> 0xDF then Some (1, ucast (first AND 0x1F), 0x80)
      else if first \<ge> 0xE0 \<and> first \<le> 0xEF then Some (2, ucast (first AND 0x0F), 0x800)
      else if first \<ge> 0xF0 \<and> first \<le> 0xF4 then Some (3, ucast (first AND 0x07), 0x10000)
      else None)"

fun utf8_continue :: "u8 list \<Rightarrow> u32 \<Rightarrow> u32 option" where
  "utf8_continue [] code_point = Some code_point"
| "utf8_continue (c # cs) code_point =
     (if c AND 0xC0 \<noteq> 0x80 then None
      else utf8_continue cs (push_bit 6 code_point OR ucast (c AND 0x3F)))"

text \<open>The \<open>while\<close> loop of \<open>utf8_is_valid\<close> over the bytes from \<open>index\<close> on.\<close>

function utf8_loop :: "bool \<Rightarrow> u8 list \<Rightarrow> bool" where
  "utf8_loop allow_nul [] = True"
| "utf8_loop allow_nul (first # rest) =
     (if first \<le> 0x7F then
        (if \<not> allow_nul \<and> first = 0 then False else utf8_loop allow_nul rest)
      else case utf8_lead first of
        None \<Rightarrow> False
      | Some (continuation_count, code_point0, minimum_code_point) \<Rightarrow>
          if continuation_count \<ge> length (first # rest) then False
          else case utf8_continue (take continuation_count rest) code_point0 of
            None \<Rightarrow> False
          | Some code_point \<Rightarrow>
              if code_point < minimum_code_point \<or> code_point > 0x10FFFF \<or>
                 (code_point \<ge> 0xD800 \<and> code_point \<le> 0xDFFF)
              then False
              else utf8_loop allow_nul (drop continuation_count rest))"
  by pat_completeness auto
termination
  by (relation "measure (\<lambda>(_, bs). length bs)") auto

definition utf8_is_valid :: "u8 list \<Rightarrow> nat \<Rightarrow> bool \<Rightarrow> bool" where
  "utf8_is_valid bytes len allow_nul = utf8_loop allow_nul (take len bytes)"

definition visible_ascii_is_valid :: "u8 list \<Rightarrow> nat \<Rightarrow> nat \<Rightarrow> nat \<Rightarrow> bool" where
  "visible_ascii_is_valid bytes len minimum maximum =
     (if len < minimum \<or> len > maximum \<or> bytes ! len \<noteq> 0 then False
      else list_all (\<lambda>i. \<not> (bytes ! i < 0x20 \<or> bytes ! i > 0x7E)) [0..<len])"

definition topic_is_valid :: "configuration_text_t \<Rightarrow> bool" where
  "topic_is_valid topic =
     (let len = text_len topic; bytes = text_bytes topic in
      if len = 0 \<or> len > CONFIGURATION_TOPIC_MAX_LENGTH \<or> bytes ! len \<noteq> 0 then False
      else list_all (\<lambda>i. let value = bytes ! i in
             \<not> (\<not> ascii_is_alphanumeric value \<and> value \<noteq> CHAR_DOT \<and> value \<noteq> 0x5F \<and> value \<noteq> CHAR_DASH \<and>
                value \<noteq> 0x2F \<and> value \<noteq> 0x24)) [0..<len])"

fun memcmp :: "u8 list \<Rightarrow> u8 list \<Rightarrow> nat \<Rightarrow> int" where
  "memcmp (x # xs) (y # ys) (Suc n) = (if x < y then - 1 else if x > y then 1 else memcmp xs ys n)"
| "memcmp _ _ _ = 0"

definition topic_compare :: "configuration_text_t \<Rightarrow> configuration_text_t \<Rightarrow> int" where
  "topic_compare left right =
     (let common_length = (if text_length left < text_length right then text_len left else text_len right);
          comparison = memcmp (text_bytes left) (text_bytes right) common_length in
      if comparison \<noteq> 0 then comparison
      else if text_length left < text_length right then - 1
      else if text_length left > text_length right then 1
      else 0)"

definition client_id_is_valid :: "configuration_client_id_t \<Rightarrow> bool" where
  "client_id_is_valid cid =
     (let len = text_len (explicit_value cid); bytes = text_bytes (explicit_value cid) in
      if client_id_mode cid = CONFIGURATION_CLIENT_ID_MODE_DERIVED then True
      else if client_id_mode cid \<noteq> CONFIGURATION_CLIENT_ID_MODE_EXPLICIT \<or> len = 0 \<or>
              len > CONFIGURATION_CLIENT_ID_MAX_LENGTH \<or> bytes ! len \<noteq> 0 then False
      else list_all (\<lambda>i. let value = bytes ! i in
             \<not> (\<not> ascii_is_alphanumeric value \<and> value \<noteq> 0x5F \<and> value \<noteq> CHAR_DASH)) [0..<len])"

definition mqtt_message_is_valid :: "configuration_mqtt_message_t \<Rightarrow> bool" where
  "mqtt_message_is_valid message =
     (let payload = message_payload message in
      if message_mode message = CONFIGURATION_MQTT_MESSAGE_MODE_DISABLED then True
      else if message_mode message \<noteq> CONFIGURATION_MQTT_MESSAGE_MODE_CUSTOM \<or>
              \<not> topic_is_valid (message_topic message) \<or>
              text_len payload > CONFIGURATION_MESSAGE_PAYLOAD_MAX_LENGTH \<or>
              text_len payload < 1 \<or>
              text_bytes payload ! text_len payload \<noteq> 0 \<or>
              \<not> utf8_is_valid (text_bytes payload) (text_len payload) False \<or>
              message_qos message > 2 \<or> message_retain message > 1
      then False else True)"


section \<open>The CA certificate\<close>

text \<open>
  What the code reads of a parsed certificate. The key and the signature are opaque and only handed
  back to mbedTLS; \<open>crt_next\<close> says whether the chain has a second certificate.
\<close>

record mbedtls_x509_crt =
  crt_next :: bool
  ca_istrue :: int
  subject_raw :: "u8 list"
  issuer_raw :: "u8 list"
  crt_tbs :: "u8 list"
  sig_md :: nat
  sig_pk :: nat
  crt_pk :: "u8 list"
  crt_sig :: "u8 list"

text \<open>
  The mbedTLS calls: parse a NUL-terminated PEM text, check the key usage for certificate signing,
  look a digest up, ask whether a key can do a signature type, compute a digest, verify a signature.
\<close>

record mbedtls_api =
  x509_crt_parse :: "u8 list \<Rightarrow> int \<times> mbedtls_x509_crt"
  x509_crt_check_key_cert_sign :: "mbedtls_x509_crt \<Rightarrow> int"
  md_info_from_type :: "nat \<Rightarrow> nat option"
  pk_can_do :: "u8 list \<Rightarrow> nat \<Rightarrow> bool"
  md_digest :: "nat \<Rightarrow> u8 list \<Rightarrow> int \<times> u8 list"
  pk_verify_ext :: "mbedtls_x509_crt \<Rightarrow> u8 list \<Rightarrow> int"

definition mbedtls_result_is_allocation_failure :: "int \<Rightarrow> bool" where
  "mbedtls_result_is_allocation_failure result =
     (if result \<ge> 0 then False
      else let magnitude = (word_of_int (- result) :: u32);
               high_level = magnitude AND 0xFF80; low_level = magnitude AND 0x007F in
        high_level = 0x4D80 \<or> high_level = 0x5180 \<or> high_level = 0x1180 \<or> high_level = 0x3F80 \<or>
        high_level = 0x2880 \<or> low_level = 0x006A \<or> low_level = 0x0010)"

definition x509_names_are_identical :: "u8 list \<Rightarrow> u8 list \<Rightarrow> bool" where
  "x509_names_are_identical left right \<longleftrightarrow>
     length left > 0 \<and> length left = length right \<and> memcmp left right (length left) = 0"

definition x509_self_signature_is_valid ::
  "mbedtls_api \<Rightarrow> mbedtls_x509_crt \<Rightarrow> configuration_validation_result_t" where
  "x509_self_signature_is_valid tls certificate =
     (case md_info_from_type tls (sig_md certificate) of
        None \<Rightarrow> CONFIGURATION_VALIDATION_CERTIFICATE_INVALID
      | Some digest_info \<Rightarrow>
          if \<not> pk_can_do tls (crt_pk certificate) (sig_pk certificate)
          then CONFIGURATION_VALIDATION_CERTIFICATE_INVALID
          else let (digest_result, digest) = md_digest tls digest_info (crt_tbs certificate) in
            if mbedtls_result_is_allocation_failure digest_result
            then CONFIGURATION_VALIDATION_RESOURCE_UNAVAILABLE
            else if digest_result \<noteq> 0 then CONFIGURATION_VALIDATION_CERTIFICATE_INVALID
            else let verify_result = pk_verify_ext tls certificate digest in
              if mbedtls_result_is_allocation_failure verify_result
              then CONFIGURATION_VALIDATION_RESOURCE_UNAVAILABLE
              else if verify_result = 0 then CONFIGURATION_VALIDATION_OK
              else CONFIGURATION_VALIDATION_CERTIFICATE_INVALID)"

definition ca_certificate_is_valid ::
  "mbedtls_api \<Rightarrow> configuration_text_t \<Rightarrow> configuration_validation_result_t" where
  "ca_certificate_is_valid tls certificate =
     (let len = text_len certificate; bytes = text_bytes certificate in
      if len = 0 \<or> len > CONFIGURATION_CA_CERTIFICATE_MAX_LENGTH \<or> bytes ! len \<noteq> 0 \<or>
         \<not> utf8_is_valid bytes len False
      then CONFIGURATION_VALIDATION_CERTIFICATE_INVALID
      else let (parse_result, parsed) = x509_crt_parse tls (take (len + 1) bytes) in
        if mbedtls_result_is_allocation_failure parse_result
        then CONFIGURATION_VALIDATION_RESOURCE_UNAVAILABLE
        else if parse_result \<noteq> 0 \<or> crt_next parsed \<or> ca_istrue parsed = 0 \<or>
                x509_crt_check_key_cert_sign tls parsed \<noteq> 0 \<or>
                \<not> x509_names_are_identical (subject_raw parsed) (issuer_raw parsed)
        then CONFIGURATION_VALIDATION_CERTIFICATE_INVALID
        else x509_self_signature_is_valid tls parsed)"

section \<open>Serial line and collection\<close>

definition baud_rate_is_valid :: "u32 \<Rightarrow> bool" where
  "baud_rate_is_valid rate \<longleftrightarrow>
     rate = 1200 \<or> rate = 2400 \<or> rate = 4800 \<or> rate = 9600 \<or> rate = 19200 \<or> rate = 38400 \<or>
     rate = 57600 \<or> rate = 115200"

definition frame_format_is_valid :: "u8 \<Rightarrow> bool" where
  "frame_format_is_valid format \<longleftrightarrow>
     format = CONFIGURATION_FRAME_FORMAT_8N2 \<or> format = CONFIGURATION_FRAME_FORMAT_8O1 \<or>
     format = CONFIGURATION_FRAME_FORMAT_8E1 \<or> format = CONFIGURATION_FRAME_FORMAT_8N1"

definition divide_round_up_u64 :: "u64 \<Rightarrow> u32 \<Rightarrow> u32" where
  "divide_round_up_u64 numerator denominator =
     ucast ((numerator + ucast denominator - 1) div ucast denominator)"

definition rtu_t35_us :: "u32 \<Rightarrow> u8 \<Rightarrow> u32" where
  "rtu_t35_us rate bits_per_character =
     (if rate > 19200 then 1750
      else divide_round_up_u64 (ucast bits_per_character * 3500000) rate)"

definition collection_point_is_valid :: "configuration_collection_point_t \<Rightarrow> bool" where
  "collection_point_is_valid point =
     (if slave_address point = 0 \<or> slave_address point > 247 \<or>
         poll_interval_ms point < 1000 \<or> poll_interval_ms point > 3600000 \<or>
         point_first_byte_timeout_ms point < 50 \<or> point_first_byte_timeout_ms point > 3000 \<or>
         \<not> topic_is_valid (point_topic point) \<or> point_qos point > 1 then False
      else if point_source point = CONFIGURATION_COLLECTION_SOURCE_COIL \<or>
              point_source point = CONFIGURATION_COLLECTION_SOURCE_DISCRETE_INPUT then True
      else if point_source point \<noteq> CONFIGURATION_COLLECTION_SOURCE_HOLDING_REGISTER \<and>
              point_source point \<noteq> CONFIGURATION_COLLECTION_SOURCE_INPUT_REGISTER then False
      else point_data_type point = CONFIGURATION_DATA_TYPE_UINT16 \<or>
           point_data_type point = CONFIGURATION_DATA_TYPE_INT16)"

definition point_character_count :: "configuration_collection_point_t \<Rightarrow> u32" where
  "point_character_count point =
     (if point_source point = CONFIGURATION_COLLECTION_SOURCE_COIL \<or>
         point_source point = CONFIGURATION_COLLECTION_SOURCE_DISCRETE_INPUT then 8 + 6
      else if point_source point = CONFIGURATION_COLLECTION_SOURCE_INPUT_REGISTER \<or>
         point_source point = CONFIGURATION_COLLECTION_SOURCE_HOLDING_REGISTER then 8 + 7
      else 0)"

definition point_contribution :: "u8 \<Rightarrow> u32 \<Rightarrow> u32 \<Rightarrow> configuration_collection_point_t \<Rightarrow> u32" where
  "point_contribution bits_per_character t35_us rate point =
     (let character_count = point_character_count point;
          character_time_us = divide_round_up_u64
            (ucast character_count * ucast bits_per_character * 1000000) rate;
          transaction_time_us = t35_us + t35_us + character_time_us
      in divide_round_up_u64 (ucast transaction_time_us * 1000) (poll_interval_ms point))"

fun bus_utilization_loop ::
  "u8 \<Rightarrow> u32 \<Rightarrow> u32 \<Rightarrow> configuration_collection_point_t list \<Rightarrow> u32 \<Rightarrow> bool" where
  "bus_utilization_loop bits t35_us rate [] utilization = True"
| "bus_utilization_loop bits t35_us rate (point # ps) utilization =
     (let contribution = point_contribution bits t35_us rate point in
      if contribution > 500000 - utilization then False
      else bus_utilization_loop bits t35_us rate ps (utilization + contribution))"

definition rtu_collection_bus_utilization_is_within_limit :: "configuration_t \<Rightarrow> bool" where
  "rtu_collection_bus_utilization_is_within_limit c =
     (let bits_per_character = (if frame_format (rtu c) = CONFIGURATION_FRAME_FORMAT_8N1 then 10 else 11);
          t35_us = rtu_t35_us (baud_rate (rtu c)) bits_per_character
      in bus_utilization_loop bits_per_character t35_us (baud_rate (rtu c))
           (take (unat (point_count (collection c))) (points (collection c))) 0)"

section \<open>Defaults\<close>

definition zero_text :: "nat \<Rightarrow> configuration_text_t" where
  "zero_text n = \<lparr>text_length = 0, text_bytes = replicate n 0\<rparr>"

definition zero_endpoint :: configuration_endpoint_address_t where
  "zero_endpoint = \<lparr>endpoint_type = 0, endpoint_hostname = zero_text CONFIGURATION_HOSTNAME_BUFFER_SIZE,
     endpoint_ipv4 = 0\<rparr>"

definition zero_message :: configuration_mqtt_message_t where
  "zero_message = \<lparr>message_mode = 0, message_topic = zero_text 129, message_payload = zero_text 129,
     message_qos = 0, message_retain = 0\<rparr>"

definition zero_point :: configuration_collection_point_t where
  "zero_point = \<lparr>slave_address = 0, point_source = 0, point_address = 0, point_data_type = 0,
     poll_interval_ms = 0, point_first_byte_timeout_ms = 0, point_topic = zero_text 129, point_qos = 0\<rparr>"

text \<open>What \<open>memset(configuration, 0, sizeof(*configuration))\<close> leaves.\<close>

definition zero_configuration :: configuration_t where
  "zero_configuration =
     \<lparr>network = \<lparr>network_mode = 0, ip_address = 0, subnet_mask = 0, network_gateway = 0, dns_primary = 0,
        dns_secondary = 0\<rparr>,
      rtu = \<lparr>baud_rate = 0, frame_format = 0, rtu_first_byte_timeout_ms = 0\<rparr>,
      listen_port = 0,
      sntp_servers = [zero_endpoint, zero_endpoint],
      mqtt = \<lparr>mqtt_mode = 0, broker_address = zero_text CONFIGURATION_HOSTNAME_BUFFER_SIZE, broker_port = 0,
        client_id = \<lparr>client_id_mode = 0, explicit_value = zero_text 257\<rparr>,
        username = zero_text 257, password = zero_text 257, ca_certificate_pem = zero_text 4097,
        keep_alive_seconds = 0, online_message = zero_message, will_message = zero_message\<rparr>,
      collection = \<lparr>point_count = 0, points = replicate CONFIGURATION_COLLECTION_POINT_MAX_COUNT zero_point\<rparr>\<rparr>"

definition ascii :: "string \<Rightarrow> u8 list" where
  "ascii s = map (\<lambda>c. of_nat (of_char c)) s"

definition default_sntp_server_0 :: "u8 list" where
  "default_sntp_server_0 = ascii ''ntp.aliyun.com'' @ [0]"

definition default_sntp_server_1 :: "u8 list" where
  "default_sntp_server_1 = ascii ''ntp.tencent.com'' @ [0]"

definition set_default_server :: "u8 list \<Rightarrow> configuration_endpoint_address_t \<Rightarrow> configuration_endpoint_address_t" where
  "set_default_server name e =
     e\<lparr>endpoint_type := CONFIGURATION_ENDPOINT_ADDRESS_TYPE_HOSTNAME,
       endpoint_hostname := \<lparr>text_length = of_nat (length name - 1),
         text_bytes = overwrite 0 name (text_bytes (endpoint_hostname e))\<rparr>\<rparr>"

definition configuration_set_defaults :: "configuration_t ptr \<Rightarrow> configuration_t ptr" where
  "configuration_set_defaults p =
     (case p of
        None \<Rightarrow> None
      | Some _ \<Rightarrow>
          let c = zero_configuration in
          Some (c\<lparr>network := (network c)\<lparr>network_mode := CONFIGURATION_NETWORK_MODE_DHCP\<rparr>,
             rtu := (rtu c)\<lparr>baud_rate := 9600, frame_format := CONFIGURATION_FRAME_FORMAT_8N2,
                       rtu_first_byte_timeout_ms := 1000\<rparr>,
             listen_port := 502,
             sntp_servers := (sntp_servers c)
               [0 := set_default_server default_sntp_server_0 (sntp_servers c ! 0),
                1 := set_default_server default_sntp_server_1 (sntp_servers c ! 1)],
             mqtt := (mqtt c)\<lparr>mqtt_mode := CONFIGURATION_MQTT_MODE_DISABLED\<rparr>,
             collection := (collection c)\<lparr>point_count := 0\<rparr>\<rparr>))"

section \<open>Validation\<close>

definition network_is_valid :: "configuration_network_t \<Rightarrow> bool" where
  "network_is_valid n =
     (if network_mode n = CONFIGURATION_NETWORK_MODE_STATIC then
        \<not> (\<not> ipv4_is_nonzero_unicast (ip_address n) \<or>
           \<not> subnet_mask_is_valid (subnet_mask n) \<or>
           \<not> address_is_usable_in_subnet (ip_address n) (subnet_mask n) \<or>
           \<not> ipv4_is_nonzero_unicast (network_gateway n) \<or>
           \<not> address_is_usable_in_subnet (network_gateway n) (subnet_mask n) \<or>
           \<not> ip4_addr_netcmp (ip_address n) (network_gateway n) (subnet_mask n) \<or>
           ip4_addr_cmp (ip_address n) (network_gateway n) \<or>
           \<not> ipv4_is_nonzero_unicast (dns_primary n) \<or>
           \<not> ipv4_is_nonzero_unicast (dns_secondary n) \<or>
           ip4_addr_cmp (dns_primary n) (dns_secondary n))
      else network_mode n = CONFIGURATION_NETWORK_MODE_DHCP)"

definition mqtt_fields_are_valid :: "configuration_mqtt_t \<Rightarrow> bool" where
  "mqtt_fields_are_valid m \<longleftrightarrow>
     \<not> (\<not> hostname_is_valid (broker_address m) \<or> broker_port m = 0 \<or> \<not> client_id_is_valid (client_id m) \<or>
        \<not> visible_ascii_is_valid (text_bytes (username m)) (text_len (username m)) 1 CONFIGURATION_USERNAME_MAX_LENGTH \<or>
        \<not> visible_ascii_is_valid (text_bytes (password m)) (text_len (password m)) 1 CONFIGURATION_PASSWORD_MAX_LENGTH \<or>
        keep_alive_seconds m < 30 \<or> keep_alive_seconds m > 3600 \<or>
        \<not> mqtt_message_is_valid (online_message m) \<or> \<not> mqtt_message_is_valid (will_message m))"

text \<open>The nested loops over the collection points, every failing branch of which returns the same error.\<close>

definition collection_points_are_valid :: "configuration_mqtt_t \<Rightarrow> configuration_collection_t \<Rightarrow> bool" where
  "collection_points_are_valid m c =
     (let count = unat (point_count c) in
      list_all (\<lambda>left_index.
        let point = points c ! left_index in
        collection_point_is_valid point \<and>
        \<not> (message_mode (online_message m) = CONFIGURATION_MQTT_MESSAGE_MODE_CUSTOM \<and>
           topic_compare (point_topic point) (message_topic (online_message m)) = 0 \<or>
           message_mode (will_message m) = CONFIGURATION_MQTT_MESSAGE_MODE_CUSTOM \<and>
           topic_compare (point_topic point) (message_topic (will_message m)) = 0) \<and>
        list_all (\<lambda>right_index. topic_compare (point_topic point) (point_topic (points c ! right_index)) \<noteq> 0)
          [left_index + 1..<count])
      [0..<count])"

definition collection_result :: "configuration_t \<Rightarrow> configuration_validation_result_t" where
  "collection_result c =
     (let count = unat (point_count (collection c)) in
      if mqtt_mode (mqtt c) = CONFIGURATION_MQTT_MODE_DISABLED then
        (if count = 0 then CONFIGURATION_VALIDATION_OK else CONFIGURATION_VALIDATION_COLLECTION_INVALID)
      else if count > CONFIGURATION_COLLECTION_POINT_MAX_COUNT \<or> count < 1
      then CONFIGURATION_VALIDATION_COLLECTION_INVALID
      else if \<not> collection_points_are_valid (mqtt c) (collection c)
      then CONFIGURATION_VALIDATION_COLLECTION_INVALID
      else if rtu_collection_bus_utilization_is_within_limit c then CONFIGURATION_VALIDATION_OK
      else CONFIGURATION_VALIDATION_BUS_UTILIZATION_EXCEEDED)"

definition configuration_validate ::
  "mbedtls_api \<Rightarrow> configuration_t ptr \<Rightarrow> configuration_validation_result_t" where
  "configuration_validate tls p =
     (case p of
        None \<Rightarrow> CONFIGURATION_VALIDATION_INVALID_ARGUMENT
      | Some c \<Rightarrow>
          if \<not> network_is_valid (network c) then CONFIGURATION_VALIDATION_NETWORK_INVALID
          else if \<not> baud_rate_is_valid (baud_rate (rtu c)) \<or> \<not> frame_format_is_valid (frame_format (rtu c)) \<or>
                  rtu_first_byte_timeout_ms (rtu c) < 50 \<or> rtu_first_byte_timeout_ms (rtu c) > 3000
          then CONFIGURATION_VALIDATION_RTU_INVALID
          else if listen_port c = 0 then CONFIGURATION_VALIDATION_MODBUS_TCP_INVALID
          else if \<not> endpoint_address_is_valid (sntp_servers c ! 0) \<or>
                  \<not> endpoint_address_is_valid (sntp_servers c ! 1) \<or>
                  endpoint_addresses_equal (sntp_servers c ! 0) (sntp_servers c ! 1)
          then CONFIGURATION_VALIDATION_SNTP_INVALID
          else if mqtt_mode (mqtt c) = CONFIGURATION_MQTT_MODE_ENABLED then
            (if \<not> mqtt_fields_are_valid (mqtt c) then CONFIGURATION_VALIDATION_MQTT_INVALID
             else let certificate_result = ca_certificate_is_valid tls (ca_certificate_pem (mqtt c)) in
               if certificate_result \<noteq> CONFIGURATION_VALIDATION_OK then certificate_result
               else collection_result c)
          else if mqtt_mode (mqtt c) \<noteq> CONFIGURATION_MQTT_MODE_DISABLED
          then CONFIGURATION_VALIDATION_MQTT_INVALID
          else collection_result c)"

section \<open>Comparison\<close>

definition byte_strings_equal :: "configuration_text_t \<Rightarrow> configuration_text_t \<Rightarrow> bool" where
  "byte_strings_equal left right \<longleftrightarrow>
     text_length left = text_length right \<and>
     memcmp (text_bytes left) (text_bytes right) (text_len left) = 0"

definition mqtt_messages_equal :: "configuration_mqtt_message_t \<Rightarrow> configuration_mqtt_message_t \<Rightarrow> bool" where
  "mqtt_messages_equal left right =
     (if message_mode left \<noteq> message_mode right then False
      else if message_mode left = CONFIGURATION_MQTT_MESSAGE_MODE_DISABLED then True
      else byte_strings_equal (message_topic left) (message_topic right) \<and>
           byte_strings_equal (message_payload left) (message_payload right) \<and>
           message_qos left = message_qos right \<and> message_retain left = message_retain right)"

definition collection_points_equal ::
  "configuration_collection_point_t \<Rightarrow> configuration_collection_point_t \<Rightarrow> bool" where
  "collection_points_equal left right =
     (if (point_source left = CONFIGURATION_COLLECTION_SOURCE_HOLDING_REGISTER \<or>
          point_source left = CONFIGURATION_COLLECTION_SOURCE_INPUT_REGISTER) \<and>
         point_data_type left \<noteq> point_data_type right then False
      else slave_address left = slave_address right \<and> point_source left = point_source right \<and>
           point_address left = point_address right \<and> poll_interval_ms left = poll_interval_ms right \<and>
           point_first_byte_timeout_ms left = point_first_byte_timeout_ms right \<and>
           byte_strings_equal (point_topic left) (point_topic right) \<and>
           point_qos left = point_qos right)"

definition configuration_equals :: "configuration_t \<Rightarrow> configuration_t \<Rightarrow> bool" where
  "configuration_equals left right =
     (let nl = network left; nr = network right; ml = mqtt left; mr = mqtt right;
          cl = collection left; cr = collection right in
      if network_mode nl \<noteq> network_mode nr then False
      else if network_mode nl = CONFIGURATION_NETWORK_MODE_STATIC \<and>
         (\<not> ip4_addr_cmp (ip_address nl) (ip_address nr) \<or> \<not> ip4_addr_cmp (subnet_mask nl) (subnet_mask nr) \<or>
          \<not> ip4_addr_cmp (network_gateway nl) (network_gateway nr) \<or>
          \<not> ip4_addr_cmp (dns_primary nl) (dns_primary nr) \<or>
          \<not> ip4_addr_cmp (dns_secondary nl) (dns_secondary nr)) then False
      else if baud_rate (rtu left) \<noteq> baud_rate (rtu right) \<or> frame_format (rtu left) \<noteq> frame_format (rtu right) \<or>
         rtu_first_byte_timeout_ms (rtu left) \<noteq> rtu_first_byte_timeout_ms (rtu right) then False
      else if listen_port left \<noteq> listen_port right then False
      else if \<not> list_all (\<lambda>i. endpoint_addresses_equal (sntp_servers left ! i) (sntp_servers right ! i)) [0..<2]
      then False
      else if mqtt_mode ml \<noteq> mqtt_mode mr then False
      else if mqtt_mode ml = CONFIGURATION_MQTT_MODE_ENABLED \<and>
         (\<not> hostnames_equal (broker_address ml) (broker_address mr) \<or> broker_port ml \<noteq> broker_port mr \<or>
          client_id_mode (client_id ml) \<noteq> client_id_mode (client_id mr) \<or>
          client_id_mode (client_id ml) = CONFIGURATION_CLIENT_ID_MODE_EXPLICIT \<and>
            \<not> byte_strings_equal (explicit_value (client_id ml)) (explicit_value (client_id mr)) \<or>
          \<not> byte_strings_equal (username ml) (username mr) \<or> \<not> byte_strings_equal (password ml) (password mr) \<or>
          \<not> byte_strings_equal (ca_certificate_pem ml) (ca_certificate_pem mr) \<or>
          keep_alive_seconds ml \<noteq> keep_alive_seconds mr \<or>
          \<not> mqtt_messages_equal (online_message ml) (online_message mr) \<or>
          \<not> mqtt_messages_equal (will_message ml) (will_message mr)) then False
      else if point_count cl \<noteq> point_count cr then False
      else list_all (\<lambda>i. list_ex (\<lambda>j. collection_points_equal (points cl ! i) (points cr ! j))
                          [0..<unat (point_count cr)]) [0..<unat (point_count cl)])"

section \<open>Properties\<close>

lemma default_servers_valid:
  "hostname_is_valid (endpoint_hostname (set_default_server default_sntp_server_0 zero_endpoint))"
  "hostname_is_valid (endpoint_hostname (set_default_server default_sntp_server_1 zero_endpoint))"
  "\<not> endpoint_addresses_equal (set_default_server default_sntp_server_0 zero_endpoint)
       (set_default_server default_sntp_server_1 zero_endpoint)"
  by code_simp+

lemma default_validates:
  "configuration_validate tls (configuration_set_defaults (Some c)) = CONFIGURATION_VALIDATION_OK"
  using default_servers_valid
  by (simp add: configuration_validate_def configuration_set_defaults_def zero_configuration_def Let_def
      network_is_valid_def baud_rate_is_valid_def frame_format_is_valid_def endpoint_address_is_valid_def
      set_default_server_def collection_result_def)

text \<open>
  The factory defaults are a valid configuration, whatever mbedTLS answers and whatever the
  object held before.
\<close>

theorem defaults_are_valid:
  "configuration_validate tls (configuration_set_defaults (Some c)) = CONFIGURATION_VALIDATION_OK"
  by (rule default_validates)

lemma unat_mask_u32: "h \<le> 32 \<Longrightarrow> unat (mask h :: u32) = mask h"
  by (rule bit_eqI) (auto simp: bit_unsigned_iff bit_mask_iff possible_bit_word)

lemma netmask_skip_ones_le: "netmask_skip_ones n w \<le> n"
  by (induction n) (auto intro: le_SucI)

lemma and_exp_zero: "(w AND 2 ^ n = 0) \<longleftrightarrow> \<not> bit w n" for w :: u32
  using bit_iff_and_push_bit_not_eq_0 [of w n] by simp

lemma netmask_skip_ones_bits:
  "n \<le> 32 \<Longrightarrow> (\<forall>k. netmask_skip_ones n w \<le> k \<and> k < n \<longrightarrow> bit w k) \<and>
     (0 < netmask_skip_ones n w \<longrightarrow> \<not> bit w (netmask_skip_ones n w - 1))"
proof (induction n)
  case (Suc n)
  then have n: "n < 32" by simp
  show ?case
  proof (cases "bit w n")
    case True
    then have "netmask_skip_ones (Suc n) w = netmask_skip_ones n w" by (simp add: and_exp_zero)
    then show ?thesis using Suc True by (auto simp: less_Suc_eq)
  next
    case False
    then show ?thesis by (auto simp: and_exp_zero)
  qed
qed simp

lemma netmask_rest_zero_bits:
  "n \<le> 32 \<Longrightarrow> netmask_rest_zero n w \<longleftrightarrow> (\<forall>k < n. \<not> bit w k)"
  by (induction n) (auto simp: and_exp_zero less_Suc_eq)

lemma bit_prefix_mask: "bit (NOT (2 ^ h - 1) :: u32) k \<longleftrightarrow> h \<le> k \<and> k < 32"
  by (simp add: bit_not_iff_eq  mask_eq_exp_minus_1 [symmetric] bit_mask_iff possible_bit_word) auto

text \<open>
  The subnet masks the validation accepts are exactly the prefix masks /1 to /30: p leading ones
  followed by zeros, in host byte order.
\<close>

theorem subnet_mask_exact:
  "subnet_mask_is_valid m \<longleftrightarrow> (\<exists>p. 1 \<le> p \<and> p \<le> 30 \<and> ipv4_to_u32 m = NOT (2 ^ (32 - p) - 1))"
proof -
  let ?w = "lwip_ntohl m"
  have prefix: "ip4_addr_netmask_valid m \<longleftrightarrow> (\<exists>h \<le> 32. ?w = NOT (2 ^ h - 1))"
  proof
    assume v: "ip4_addr_netmask_valid m"
    let ?h = "netmask_skip_ones 32 ?w"
    have "\<forall>k < ?h. \<not> bit ?w k"
      using v netmask_rest_zero_bits [OF netmask_skip_ones_le] by (simp add: ip4_addr_netmask_valid_def Let_def)
    then have "?w = NOT (2 ^ ?h - 1)"
      using netmask_skip_ones_bits [of 32 ?w]
      by (intro bit_word_eqI) (auto simp: bit_prefix_mask not_less)
    then show "\<exists>h \<le> 32. ?w = NOT (2 ^ h - 1)" using netmask_skip_ones_le by blast
  next
    assume "\<exists>h \<le> 32. ?w = NOT (2 ^ h - 1)"
    then obtain h where h: "h \<le> 32" "?w = NOT (2 ^ h - 1)" by blast
    let ?s = "netmask_skip_ones 32 ?w"
    have "?s \<le> h"
    proof (rule ccontr)
      assume "\<not> ?s \<le> h"
      then have "0 < ?s" "h \<le> ?s - 1" "?s - 1 < 32" using netmask_skip_ones_le [of 32 ?w] by linarith+
      then show False using netmask_skip_ones_bits [of 32 ?w] by (simp add: h(2) bit_prefix_mask)
    qed
    then have "\<forall>k < ?s. \<not> bit ?w k" using h(2) by (auto simp: bit_prefix_mask)
    then show "ip4_addr_netmask_valid m"
      using netmask_rest_zero_bits [OF netmask_skip_ones_le] by (simp add: ip4_addr_netmask_valid_def Let_def)
  qed
  have size: "?w \<noteq> 0 \<and> NOT ?w > 1 \<longleftrightarrow> 2 \<le> h \<and> h \<le> 31" if "h \<le> 32" "?w = NOT (2 ^ h - 1)" for h
  proof -
    have "bit ?w 31 \<longleftrightarrow> h \<le> 31" by (simp add: that(2) bit_prefix_mask)
    moreover have "?w = 0" if "h = 32" using that \<open>?w = NOT (2 ^ h - 1)\<close> by simp
    moreover have "\<not> bit ?w 31" if "?w = 0" using that by simp
    ultimately have "?w \<noteq> 0 \<longleftrightarrow> h \<le> 31" using that(1) by (cases "h = 32") auto
    moreover have "NOT ?w = mask h" by (simp add: that(2) mask_eq_exp_minus_1)
    then have "NOT ?w > 1 \<longleftrightarrow> 1 < (mask h :: nat)"
      using unat_mask_u32 [OF that(1)] by (simp add: word_less_nat_alt)
    moreover have "1 < (mask h :: nat) \<longleftrightarrow> 2 \<le> h"
    proof (cases "2 \<le> h")
      case True
      then have "(2 :: nat) ^ 2 \<le> 2 ^ h" by (intro power_increasing) simp_all
      then show ?thesis using True by (simp add: mask_eq_exp_minus_1)
    next
      case False
      then have "h = 0 \<or> h = 1" by auto
      then show ?thesis by (auto simp: mask_eq_exp_minus_1)
    qed
    ultimately show ?thesis by blast
  qed
  have "subnet_mask_is_valid m \<longleftrightarrow> (\<exists>h. 2 \<le> h \<and> h \<le> 31 \<and> ?w = NOT (2 ^ h - 1))"
  proof
    assume v: "subnet_mask_is_valid m"
    then obtain h where h: "h \<le> 32" "?w = NOT (2 ^ h - 1)"
      using prefix by (auto simp: subnet_mask_is_valid_def Let_def)
    moreover have "2 \<le> h \<and> h \<le> 31"
      using v size [OF h] by (simp add: subnet_mask_is_valid_def ipv4_to_u32_def Let_def)
    ultimately show "\<exists>h. 2 \<le> h \<and> h \<le> 31 \<and> ?w = NOT (2 ^ h - 1)" by blast
  next
    assume "\<exists>h. 2 \<le> h \<and> h \<le> 31 \<and> ?w = NOT (2 ^ h - 1)"
    then obtain h where h: "2 \<le> h" "h \<le> 31" "?w = NOT (2 ^ h - 1)" by blast
    moreover from h have "h \<le> 32" by simp
    ultimately show "subnet_mask_is_valid m"
      using prefix size [of h] unfolding subnet_mask_is_valid_def ipv4_to_u32_def Let_def by blast
  qed
  also have "\<dots> \<longleftrightarrow> (\<exists>p. 1 \<le> p \<and> p \<le> 30 \<and> ?w = NOT (2 ^ (32 - p) - 1))"
  proof
    assume "\<exists>h. 2 \<le> h \<and> h \<le> 31 \<and> ?w = NOT (2 ^ h - 1)"
    then obtain h where "2 \<le> h" "h \<le> 31" "?w = NOT (2 ^ h - 1)" by blast
    then show "\<exists>p. 1 \<le> p \<and> p \<le> 30 \<and> ?w = NOT (2 ^ (32 - p) - 1)" by (intro exI [of _ "32 - h"]) auto
  next
    assume "\<exists>p. 1 \<le> p \<and> p \<le> 30 \<and> ?w = NOT (2 ^ (32 - p) - 1)"
    then obtain p where "1 \<le> p" "p \<le> 30" "?w = NOT (2 ^ (32 - p) - 1)" by blast
    then show "\<exists>h. 2 \<le> h \<and> h \<le> 31 \<and> ?w = NOT (2 ^ h - 1)" by (intro exI [of _ "32 - p"]) auto
  qed
  finally show ?thesis by (simp add: ipv4_to_u32_def)
qed

section \<open>The load on the serial line\<close>

definition cdiv :: "nat \<Rightarrow> nat \<Rightarrow> nat" where
  "cdiv a b = (a + b - 1) div b"

lemma cdiv_le:
  assumes "0 < b" "a \<le> b * q"
  shows "cdiv a b \<le> q"
proof -
  have "a + b - 1 < b + b * q" using assms by linarith
  then have "a + b - 1 < Suc q * b" by (simp add: mult.commute)
  then have "(a + b - 1) div b < Suc q" by (rule less_mult_imp_div_less)
  then show ?thesis by (simp add: cdiv_def)
qed

lemma divide_round_up_unat:
  assumes "unat num < 2 ^ 40" "0 < unat den" "cdiv (unat num) (unat den) < 2 ^ 32"
  shows "unat (divide_round_up_u64 num den) = cdiv (unat num) (unat den)"
proof -
  have d: "unat den < 2 ^ 32" using unsigned_less [of den, where 'a = nat] by simp
  have ud: "unat (ucast den :: u64) = unat den" by (rule unat_ucast_upcast_gen) simp
  have s: "unat (num + ucast den) = unat num + unat den"
    using assms d by (subst unat_plus_small) (simp_all add: ud)
  have "unat (num + ucast den - 1) = unat num + unat den - 1"
    using s assms(2) by (simp add: unat_sub word_le_nat_alt)
  then have "unat ((num + ucast den - 1) div ucast den) = cdiv (unat num) (unat den)"
    by (simp add: unat_div ud cdiv_def)
  then show ?thesis using assms(3)
    by (simp add: divide_round_up_u64_def unsigned_ucast_eq take_bit_nat_eq_self)
qed

text \<open>The load of a collection point on the bus as the configuration rules define it, in exact arithmetic.\<close>

definition bits_per_character_of :: "configuration_t \<Rightarrow> nat" where
  "bits_per_character_of c = (if frame_format (rtu c) = CONFIGURATION_FRAME_FORMAT_8N1 then 10 else 11)"

definition t35_spec :: "nat \<Rightarrow> nat \<Rightarrow> nat" where
  "t35_spec rate bits = (if rate \<le> 19200 then cdiv (bits * 3500000) rate else 1750)"

definition point_load :: "nat \<Rightarrow> nat \<Rightarrow> configuration_collection_point_t \<Rightarrow> nat" where
  "point_load rate bits p =
     (let request_bytes = 8;
          response_bytes = (if point_source p \<in> {CONFIGURATION_COLLECTION_SOURCE_COIL,
            CONFIGURATION_COLLECTION_SOURCE_DISCRETE_INPUT} then 6 else 7);
          frame_time_us = cdiv ((request_bytes + response_bytes) * bits * 1000000) rate;
          transaction_time_us = 2 * t35_spec rate bits + frame_time_us
      in cdiv (transaction_time_us * 1000) (unat (poll_interval_ms p)))"

lemma baud_rate_cases:
  "baud_rate_is_valid r \<longleftrightarrow> unat r \<in> {1200, 2400, 4800, 9600, 19200, 38400, 57600, 115200}"
  by (simp add: baud_rate_is_valid_def word_unat_eq_iff) 

lemma rtu_t35_us_exact:
  assumes "baud_rate_is_valid r" "bits = 10 \<or> bits = 11"
  shows "unat (rtu_t35_us r bits) = t35_spec (unat r) (unat bits) \<and> unat (rtu_t35_us r bits) \<le> 32084"
proof -
  have b: "unat (ucast bits * 3500000 :: u64) = unat bits * 3500000" using assms(2) by auto
  have "cdiv (unat bits * 3500000) (unat r) \<le> 32084 \<and> 0 < unat r" if "unat r \<le> 19200"
    using assms that by (auto simp: baud_rate_cases cdiv_def)
  then show ?thesis
    using b assms by (auto simp: rtu_t35_us_def t35_spec_def word_less_nat_alt divide_round_up_unat)
qed

lemma point_contribution_exact:
  assumes r: "baud_rate_is_valid r" and bits: "bits = 10 \<or> bits = 11" and p: "collection_point_is_valid p"
  shows "unat (point_contribution bits (rtu_t35_us r bits) r p) = point_load (unat r) (unat bits) p"
proof -
  let ?t = "rtu_t35_us r bits"
  let ?n = "unat (point_character_count p)"
  have src: "?n = 8 + (if point_source p \<in> {CONFIGURATION_COLLECTION_SOURCE_COIL,
            CONFIGURATION_COLLECTION_SOURCE_DISCRETE_INPUT} then 6 else 7)"
    using p by (auto simp: point_character_count_def collection_point_is_valid_def split: if_splits)
  have poll: "1000 \<le> unat (poll_interval_ms p)"
    using p by (auto simp: collection_point_is_valid_def word_less_nat_alt split: if_splits)
  note t = rtu_t35_us_exact [OF r bits]
  have n: "?n \<le> 15" using src by auto
  have m: "unat (ucast (point_character_count p) * ucast bits * 1000000 :: u64) = ?n * unat bits * 1000000"
    using bits p by (auto simp: point_character_count_def collection_point_is_valid_def split: if_splits)
  have cb: "?n * unat bits * 1000000 \<le> 165000000" using n bits by auto
  have r0: "0 < unat r" "1200 \<le> unat r" using r by (auto simp: baud_rate_cases)
  have "?n * unat bits * 1000000 \<le> unat r * 137500"
    using cb mult_le_mono1 [OF r0(2), of 137500] by linarith
  then have ct: "cdiv (?n * unat bits * 1000000) (unat r) \<le> 137500" by (rule cdiv_le [OF r0(1)])
  let ?ct = "divide_round_up_u64 (ucast (point_character_count p) * ucast bits * 1000000) r"
  have uct: "unat ?ct = cdiv (?n * unat bits * 1000000) (unat r)"
    using cb ct r0 m by (subst divide_round_up_unat) simp_all
  have tt: "unat (?t + ?t + ?ct) = 2 * unat ?t + unat ?ct"
  proof -
    have "unat (?t + ?t) = unat ?t + unat ?t" using t by (intro unat_plus_small) simp
    then show ?thesis using t uct ct by (subst unat_plus_small) simp_all
  qed
  have small: "unat (?t + ?t + ?ct) \<le> 201668" using tt t uct ct by linarith
  have u: "unat (ucast (?t + ?t + ?ct) * 1000 :: u64) = unat (?t + ?t + ?ct) * 1000"
  proof -
    have "unat (ucast (?t + ?t + ?ct) :: u64) = unat (?t + ?t + ?ct)" by (rule unat_ucast_upcast_gen) simp
    then show ?thesis using small by (simp add: unat_word_ariths)
  qed
  have "cdiv (unat (?t + ?t + ?ct) * 1000) (unat (poll_interval_ms p)) \<le> 201668"
  proof (rule cdiv_le)
    have "unat (?t + ?t + ?ct) * 1000 \<le> 201668 * unat (poll_interval_ms p)"
      by (rule mult_le_mono [OF small poll])
    then show "unat (?t + ?t + ?ct) * 1000 \<le> unat (poll_interval_ms p) * 201668" by (simp only: mult.commute)
  qed (use poll in simp)
  then have "unat (point_contribution bits ?t r p) = cdiv (unat (?t + ?t + ?ct) * 1000) (unat (poll_interval_ms p))"
    unfolding point_contribution_def Let_def using u small poll by (subst divide_round_up_unat) simp_all
  then show ?thesis using tt uct t src by (simp add: point_load_def Let_def)
qed

lemma bus_utilization_loop_sum:
  "unat u \<le> 500000 \<Longrightarrow> bus_utilization_loop bits t35 r ps u \<longleftrightarrow>
     unat u + sum_list (map (\<lambda>p. unat (point_contribution bits t35 r p)) ps) \<le> 500000"
proof (induction ps arbitrary: u)
  case (Cons p ps)
  let ?c = "point_contribution bits t35 r p"
  have s: "unat (500000 - u) = 500000 - unat u" using Cons.prems by (simp add: unat_sub word_le_nat_alt)
  show ?case
  proof (cases "?c > 500000 - u")
    case True
    then have "500000 < unat u + unat ?c" using s Cons.prems by (simp add: word_less_nat_alt)
    then show ?thesis using True by simp
  next
    case False
    then have le: "unat u + unat ?c \<le> 500000" using s Cons.prems by (simp add: word_less_nat_alt)
    then have "unat (u + ?c) = unat u + unat ?c" by (intro unat_plus_small) simp
    then show ?thesis using False Cons.IH [of "u + ?c"] le by (simp add: add.assoc)
  qed
qed simp

text \<open>
  The bus utilisation check computes, without overflow at any width, the documented formula: for
  a supported baud rate and valid points it accepts exactly the point sets whose nominal load, summed
  in exact arithmetic, is at most 500000 microseconds per second.
\<close>

theorem bus_utilization_exact:
  assumes "baud_rate_is_valid (baud_rate (rtu c))"
    and "\<forall>p \<in> set (take (unat (point_count (collection c))) (points (collection c))). collection_point_is_valid p"
  shows "rtu_collection_bus_utilization_is_within_limit c \<longleftrightarrow>
    sum_list (map (point_load (unat (baud_rate (rtu c))) (bits_per_character_of c))
      (take (unat (point_count (collection c))) (points (collection c)))) \<le> 500000"
proof -
  let ?ps = "take (unat (point_count (collection c))) (points (collection c))" and ?r = "baud_rate (rtu c)"
  define bits :: u8 where "bits = (if frame_format (rtu c) = CONFIGURATION_FRAME_FORMAT_8N1 then 10 else 11)"
  have b: "bits = 10 \<or> bits = 11" "unat bits = bits_per_character_of c" by (auto simp: bits_def bits_per_character_of_def)
  have m: "map (\<lambda>p. unat (point_contribution bits (rtu_t35_us ?r bits) ?r p)) ?ps =
      map (point_load (unat ?r) (bits_per_character_of c)) ?ps"
    using assms(2) point_contribution_exact [OF assms(1) b(1)] b(2) by (intro map_cong) auto
  have "rtu_collection_bus_utilization_is_within_limit c = bus_utilization_loop bits (rtu_t35_us ?r bits) ?r ?ps 0"
    by (simp add: rtu_collection_bus_utilization_is_within_limit_def Let_def bits_def)
  also have "\<dots> \<longleftrightarrow> sum_list (map (\<lambda>p. unat (point_contribution bits (rtu_t35_us ?r bits) ?r p)) ?ps) \<le> 500000"
    by (simp add: bus_utilization_loop_sum)
  finally show ?thesis unfolding m .
qed

theorem bus_utilization_exact_witness:
  "rtu_collection_bus_utilization_is_within_limit
     (zero_configuration\<lparr>rtu := \<lparr>baud_rate = 9600, frame_format = 3, rtu_first_byte_timeout_ms = 1000\<rparr>,
        collection := \<lparr>point_count = 1, points = [zero_point\<lparr>slave_address := 1, poll_interval_ms := 1000,
          point_first_byte_timeout_ms := 100, point_topic := \<lparr>text_length = 1, text_bytes = [0x61, 0]\<rparr>\<rparr>]\<rparr>\<rparr>)
   \<longleftrightarrow> 2 * cdiv 38500000 9600 + cdiv 154000000 9600 \<le> 500000"
proof -
  let ?p = "zero_point\<lparr>slave_address := 1, poll_interval_ms := 1000,
          point_first_byte_timeout_ms := 100, point_topic := \<lparr>text_length = 1, text_bytes = [0x61, 0]\<rparr>\<rparr>"
  let ?c = "zero_configuration\<lparr>rtu := \<lparr>baud_rate = 9600, frame_format = 3, rtu_first_byte_timeout_ms = 1000\<rparr>,
        collection := \<lparr>point_count = 1, points = [?p]\<rparr>\<rparr>"
  have b: "baud_rate_is_valid (baud_rate (rtu ?c))" by (simp add: baud_rate_is_valid_def)
  have p: "collection_point_is_valid ?p" by code_simp
  have "cdiv (x * 1000) 1000 = x" for x by (simp add: cdiv_def)
  then have "point_load 9600 11 ?p = 2 * cdiv 38500000 9600 + cdiv 154000000 9600"
    by (simp add: point_load_def zero_point_def t35_spec_def)
  moreover have "bits_per_character_of ?c = 11" by (simp add: bits_per_character_of_def)
  ultimately show ?thesis using bus_utilization_exact [OF b] p by simp
qed

end
