(* ===== verification/Configuration_Log.thy ===== *)
theory Configuration_Log
  imports Configuration
begin

text \<open>
  The texts \<open>configuration_service_init\<close> (\<open>app/Configuration/src/configuration_service.c\<close>) sends to the debug log once a
  configuration has been loaded. A call of \<open>debug_log_printf\<close> is its format string and its arguments; the
  formatting itself is that of the C library, and the line ends (CR LF) are left out of the formats. The log leaves the device over a serial line, so the
  property is that it depends neither on the broker password nor on the certificate.
\<close>

section \<open>Calls of the debug log\<close>

text \<open>An argument: a number, a constant string, or the text a \<open>%.*s\<close> conversion prints, which ends at a NUL.\<close>

datatype log_argument = Number nat | Name string | Text "u8 list"

type_synonym log_call = "string \<times> log_argument list"

definition text_argument :: "configuration_text_t \<Rightarrow> log_argument" where
  "text_argument t = Text (takeWhile (\<lambda>b. b \<noteq> 0) (take (unat (text_length t)) (text_bytes t)))"

definition address_arguments :: "ip4_addr_t \<Rightarrow> log_argument list" where
  "address_arguments a = map (\<lambda>k. Number (unat (byte_at k a))) [0, 1, 2, 3]"

section \<open>Names of the enumerations\<close>

definition network_mode_name :: "u8 \<Rightarrow> string" where
  "network_mode_name mode =
     (if mode = CONFIGURATION_NETWORK_MODE_DHCP then ''dhcp''
      else if mode = CONFIGURATION_NETWORK_MODE_STATIC then ''static'' else ''unknown'')"

definition frame_format_name :: "u8 \<Rightarrow> string" where
  "frame_format_name format =
     (if format = CONFIGURATION_FRAME_FORMAT_8N1 then ''8N1''
      else if format = CONFIGURATION_FRAME_FORMAT_8E1 then ''8E1''
      else if format = CONFIGURATION_FRAME_FORMAT_8O1 then ''8O1''
      else if format = CONFIGURATION_FRAME_FORMAT_8N2 then ''8N2'' else ''unknown'')"

definition endpoint_address_type_name :: "u8 \<Rightarrow> string" where
  "endpoint_address_type_name t =
     (if t = CONFIGURATION_ENDPOINT_ADDRESS_TYPE_HOSTNAME then ''hostname''
      else if t = CONFIGURATION_ENDPOINT_ADDRESS_TYPE_IPV4 then ''ipv4'' else ''unknown'')"

definition mqtt_mode_name :: "u8 \<Rightarrow> string" where
  "mqtt_mode_name mode =
     (if mode = CONFIGURATION_MQTT_MODE_DISABLED then ''disabled''
      else if mode = CONFIGURATION_MQTT_MODE_ENABLED then ''enabled'' else ''unknown'')"

definition client_id_mode_name :: "u8 \<Rightarrow> string" where
  "client_id_mode_name mode =
     (if mode = CONFIGURATION_CLIENT_ID_MODE_DERIVED then ''derived''
      else if mode = CONFIGURATION_CLIENT_ID_MODE_EXPLICIT then ''explicit'' else ''unknown'')"

definition mqtt_message_mode_name :: "u8 \<Rightarrow> string" where
  "mqtt_message_mode_name mode =
     (if mode = CONFIGURATION_MQTT_MESSAGE_MODE_DISABLED then ''disabled''
      else if mode = CONFIGURATION_MQTT_MESSAGE_MODE_CUSTOM then ''custom'' else ''unknown'')"

definition collection_source_name :: "u8 \<Rightarrow> string" where
  "collection_source_name src =
     (if src = CONFIGURATION_COLLECTION_SOURCE_COIL then ''coil''
      else if src = CONFIGURATION_COLLECTION_SOURCE_DISCRETE_INPUT then ''discrete_input''
      else if src = CONFIGURATION_COLLECTION_SOURCE_HOLDING_REGISTER then ''holding_register''
      else if src = CONFIGURATION_COLLECTION_SOURCE_INPUT_REGISTER then ''input_register'' else ''unknown'')"

definition data_type_name :: "u8 \<Rightarrow> string" where
  "data_type_name data_type =
     (if data_type = CONFIGURATION_DATA_TYPE_UINT16 then ''uint16''
      else if data_type = CONFIGURATION_DATA_TYPE_INT16 then ''int16'' else ''unknown'')"

section \<open>The log of a configuration\<close>

definition network_log :: "configuration_network_t \<Rightarrow> log_call list" where
  "network_log n =
     [(''[configuration][network] mode=%s'', [Name (network_mode_name (network_mode n))])] @
     (if network_mode n = CONFIGURATION_NETWORK_MODE_STATIC
      then [(''[configuration][network] ip_address=%u.%u.%u.%u'', address_arguments (ip_address n)),
            (''[configuration][network] subnet_mask=%u.%u.%u.%u'', address_arguments (subnet_mask n)),
            (''[configuration][network] gateway=%u.%u.%u.%u'', address_arguments (network_gateway n)),
            (''[configuration][network] dns_primary=%u.%u.%u.%u'', address_arguments (dns_primary n)),
            (''[configuration][network] dns_secondary=%u.%u.%u.%u'', address_arguments (dns_secondary n))]
      else [])"

definition rtu_log :: "configuration_t \<Rightarrow> log_call list" where
  "rtu_log c =
     [(''[configuration][rtu] baud_rate=%u frame_format=%s first_byte_timeout_ms=%u'',
       [Number (unat (baud_rate (rtu c))), Name (frame_format_name (frame_format (rtu c))),
        Number (unat (rtu_first_byte_timeout_ms (rtu c)))]),
      (''[configuration][modbus_tcp] listen_port=%u'', [Number (unat (listen_port c))])]"

definition server_log :: "nat \<Rightarrow> configuration_endpoint_address_t \<Rightarrow> log_call list" where
  "server_log i server =
     [(''[configuration][sntp][%u] type=%s'', [Number i, Name (endpoint_address_type_name (endpoint_type server))])] @
     (if endpoint_type server = CONFIGURATION_ENDPOINT_ADDRESS_TYPE_HOSTNAME
      then [(''[configuration][sntp][%u] hostname=%.*s'', [Number i, text_argument (endpoint_hostname server)])]
      else if endpoint_type server = CONFIGURATION_ENDPOINT_ADDRESS_TYPE_IPV4
      then [(''[configuration][sntp][%u] ipv4=%u.%u.%u.%u'', Number i # address_arguments (endpoint_ipv4 server))]
      else [])"

text \<open>The online and the will message log the same lines under two tags.\<close>

definition message_log :: "string \<Rightarrow> configuration_mqtt_message_t \<Rightarrow> log_call list" where
  "message_log tag m =
     [(tag @ '' mode=%s'', [Name (mqtt_message_mode_name (message_mode m))])] @
     (if message_mode m = CONFIGURATION_MQTT_MESSAGE_MODE_CUSTOM
      then [(tag @ '' topic=%.*s'', [text_argument (message_topic m)]),
            (tag @ '' payload=%.*s'', [text_argument (message_payload m)]),
            (tag @ '' qos=%u retain=%s'',
             [Number (unat (message_qos m)), Name (if message_retain m \<noteq> 0 then ''true'' else ''false'')])]
      else [])"

definition mqtt_log :: "configuration_mqtt_t \<Rightarrow> log_call list" where
  "mqtt_log m =
     [(''[configuration][mqtt] mode=%s'', [Name (mqtt_mode_name (mqtt_mode m))])] @
     (if mqtt_mode m = CONFIGURATION_MQTT_MODE_ENABLED
      then [(''[configuration][mqtt] broker_address=%.*s broker_port=%u'',
             [text_argument (broker_address m), Number (unat (broker_port m))]),
            (''[configuration][mqtt] client_id_mode=%s'', [Name (client_id_mode_name (client_id_mode (client_id m)))])] @
           (if client_id_mode (client_id m) = CONFIGURATION_CLIENT_ID_MODE_EXPLICIT
            then [(''[configuration][mqtt] client_id=%.*s'', [text_argument (explicit_value (client_id m))])] else []) @
           [(''[configuration][mqtt] username=%.*s'', [text_argument (username m)]),
            (''[configuration][mqtt] password=<redacted> length=%u'', [Number (unat (text_length (password m)))]),
            (''[configuration][mqtt] keep_alive_seconds=%u'', [Number (unat (keep_alive_seconds m))])] @
           message_log ''[configuration][mqtt][online_message]'' (online_message m) @
           message_log ''[configuration][mqtt][will_message]'' (will_message m)
      else [])"

definition point_log :: "nat \<Rightarrow> configuration_collection_point_t \<Rightarrow> log_call list" where
  "point_log i point =
     [(''[configuration][collection][%u] slave_address=%u source=%s address=%u'',
       [Number i, Number (unat (slave_address point)), Name (collection_source_name (point_source point)),
        Number (unat (point_address point))])] @
     (if point_source point = CONFIGURATION_COLLECTION_SOURCE_HOLDING_REGISTER \<or>
         point_source point = CONFIGURATION_COLLECTION_SOURCE_INPUT_REGISTER
      then [(''[configuration][collection][%u] data_type=%s'', [Number i, Name (data_type_name (point_data_type point))])]
      else []) @
     [(''[configuration][collection][%u] poll_interval_ms=%u first_byte_timeout_ms=%u qos=%u'',
       [Number i, Number (unat (poll_interval_ms point)), Number (unat (point_first_byte_timeout_ms point)),
        Number (unat (point_qos point))]),
      (''[configuration][collection][%u] topic=%.*s'', [Number i, text_argument (point_topic point)])]"

definition configuration_log :: "configuration_t \<Rightarrow> log_call list" where
  "configuration_log c =
     [(''[configuration] begin'', [])] @ network_log (network c) @ rtu_log c @
     concat (map (\<lambda>i. server_log i (sntp_servers c ! i)) [0..<2]) @
     mqtt_log (mqtt c) @
     [(''[configuration][collection] point_count=%u'', [Number (unat (point_count (collection c)))])] @
     concat (map (\<lambda>i. point_log i (points (collection c) ! i)) [0..<unat (point_count (collection c))]) @
     [(''[configuration] end'', [])]"

section \<open>Property\<close>

text \<open>
  C31. The log keeps the secrets: two configurations that differ only in the bytes of the broker password and in
  the certificate produce the same log, call by call and argument by argument; of the password only
  its length is shown, and with MQTT disabled not even that.
\<close>

theorem log_keeps_password_secret:
  assumes "text_length secret = text_length (password (mqtt c)) \<or> mqtt_mode (mqtt c) \<noteq> CONFIGURATION_MQTT_MODE_ENABLED"
  shows "configuration_log (c\<lparr>mqtt := (mqtt c)\<lparr>password := secret, ca_certificate_pem := certificate\<rparr>\<rparr>) = configuration_log c"
  using assms by (auto simp: configuration_log_def mqtt_log_def rtu_log_def)

theorem log_keeps_password_secret_witness:
  "configuration_log (zero_configuration\<lparr>mqtt := (mqtt zero_configuration)
     \<lparr>password := \<lparr>text_length = 3, text_bytes = [1, 2, 3, 0]\<rparr>, ca_certificate_pem := zero_text 4\<rparr>\<rparr>) = configuration_log zero_configuration"
  by (rule log_keeps_password_secret) (simp add: zero_configuration_def)

end
