(* ===== verification/Internal_Flash.thy ===== *)
theory Internal_Flash
  imports Gateway_Prelude
begin

text \<open>
  Model of \<open>app/InternalFlash/src/internal_flash.c\<close> over the flash functions of the HAL.

  The device is its memory, a byte per address, and a script: what the flash controller reports at
  each wait for completion, with the bits a failed operation left undone (\<open>damage\<close>). A script that has
  run out means success. Programming clears bits (a cell becomes its old value AND the data), erasing
  sets them; an operation that fails has cleared or set any part of the bits it should have. All
  theorems hold for every script, so also for a supply failure at any point, after which nothing more
  is written. The control register is not modelled except for the outcome of the unlock sequence; the
  read caches hold no state of their own.
\<close>

section \<open>The device and the HAL\<close>

datatype HAL_StatusTypeDef = HAL_OK | HAL_ERROR | HAL_BUSY | HAL_TIMEOUT

record flash =
  mem :: "u32 \<Rightarrow> u8"
  script :: "(HAL_StatusTypeDef \<times> (u32 \<Rightarrow> u8)) list"

abbreviation "FLASH_BASE \<equiv> (0x08000000 :: u32)"
abbreviation "FLASH_END \<equiv> (0x080FFFFF :: u32)"
abbreviation "UINT32_MAX \<equiv> (0xFFFFFFFF :: nat)"
abbreviation "FLASH_SECTOR_TOTAL \<equiv> (12 :: nat)"

definition next_outcome :: "flash \<Rightarrow> HAL_StatusTypeDef \<times> (u32 \<Rightarrow> u8) \<times> flash" where
  "next_outcome d = (case script d of [] \<Rightarrow> (HAL_OK, \<lambda>_. 0, d) | (s, m) # r \<Rightarrow> (s, m, d\<lparr>script := r\<rparr>))"

text \<open>\<open>FLASH_WaitForLastOperation\<close> with nothing pending.\<close>

definition FLASH_WaitForLastOperation :: "flash \<Rightarrow> HAL_StatusTypeDef \<times> flash" where
  "FLASH_WaitForLastOperation d = (case next_outcome d of (s, _, d') \<Rightarrow> (s, d'))"

definition HAL_FLASH_Unlock :: "flash \<Rightarrow> HAL_StatusTypeDef \<times> flash" where
  "HAL_FLASH_Unlock d = (case next_outcome d of (s, _, d') \<Rightarrow> (if s = HAL_OK then HAL_OK else HAL_ERROR, d'))"

definition HAL_FLASH_Lock :: "flash \<Rightarrow> HAL_StatusTypeDef \<times> flash" where
  "HAL_FLASH_Lock d = (HAL_OK, d)"

datatype program_type = FLASH_TYPEPROGRAM_BYTE | FLASH_TYPEPROGRAM_HALFWORD | FLASH_TYPEPROGRAM_WORD

definition program_width :: "program_type \<Rightarrow> nat" where
  "program_width t = (case t of FLASH_TYPEPROGRAM_BYTE \<Rightarrow> 1 | FLASH_TYPEPROGRAM_HALFWORD \<Rightarrow> 2 | FLASH_TYPEPROGRAM_WORD \<Rightarrow> 4)"

text \<open>The cells at \<open>a\<close>, \<open>a + 1\<close>, \<dots> take \<open>bs\<close>, except for the bits of \<open>m\<close>, which stay as they are.\<close>

fun program_cells :: "(u32 \<Rightarrow> u8) \<Rightarrow> u32 \<Rightarrow> u8 list \<Rightarrow> (u32 \<Rightarrow> u8) \<Rightarrow> (u32 \<Rightarrow> u8)" where
  "program_cells m a [] f = f"
| "program_cells m a (b # bs) f = program_cells m (a + 1) bs (f(a := f a AND (b OR m a)))"

definition HAL_FLASH_Program :: "program_type \<Rightarrow> u32 \<Rightarrow> u32 \<Rightarrow> flash \<Rightarrow> HAL_StatusTypeDef \<times> flash" where
  "HAL_FLASH_Program t address data d =
     (case FLASH_WaitForLastOperation d of (status, d1) \<Rightarrow>
        if status \<noteq> HAL_OK then (status, d1)
        else (case next_outcome d1 of (status, m, d2) \<Rightarrow>
                (status, d2\<lparr>mem := program_cells (if status = HAL_OK then (\<lambda>_. 0) else m) address
                                    (map (\<lambda>k. byte_at k data) [0..<program_width t]) (mem d2)\<rparr>)))"

text \<open>The sectors of the STM32F407ZG: four of 16 KiB, one of 64 KiB, seven of 128 KiB.\<close>

definition sector_start :: "nat \<Rightarrow> nat" where
  "sector_start s = unat FLASH_BASE + (if s < 5 then s * 0x4000 else (s - 4) * 0x20000)"

definition in_sector :: "nat \<Rightarrow> u32 \<Rightarrow> bool" where
  "in_sector s a \<longleftrightarrow> sector_start s \<le> unat a \<and> unat a < sector_start (s + 1)"

fun erase_sectors :: "nat \<Rightarrow> nat \<Rightarrow> flash \<Rightarrow> HAL_StatusTypeDef \<times> nat \<times> flash" where
  "erase_sectors index 0 d = (HAL_OK, UINT32_MAX, d)"
| "erase_sectors index (Suc n) d =
     (case next_outcome d of (status, m, d1) \<Rightarrow>
        let d2 = d1\<lparr>mem := (\<lambda>a. if in_sector index a then (if status = HAL_OK then 0xFF else mem d1 a OR m a) else mem d1 a)\<rparr>
        in if status \<noteq> HAL_OK then (status, index, d2) else erase_sectors (index + 1) n d2)"

definition HAL_FLASHEx_Erase :: "nat \<Rightarrow> nat \<Rightarrow> nat \<Rightarrow> flash \<Rightarrow> HAL_StatusTypeDef \<times> nat \<times> flash" where
  "HAL_FLASHEx_Erase sector nb sector_error d =
     (case FLASH_WaitForLastOperation d of (status, d1) \<Rightarrow>
        if status \<noteq> HAL_OK then (status, sector_error, d1) else erase_sectors sector nb d1)"

section \<open>Operations\<close>

datatype internal_flash_result_t =
    INTERNAL_FLASH_RESULT_OK
  | INTERNAL_FLASH_RESULT_INVALID_ARGUMENT
  | INTERNAL_FLASH_RESULT_BUSY
  | INTERNAL_FLASH_RESULT_TIMEOUT
  | INTERNAL_FLASH_RESULT_ERROR

fun internal_flash_result_from_hal :: "HAL_StatusTypeDef \<Rightarrow> internal_flash_result_t" where
  "internal_flash_result_from_hal HAL_OK = INTERNAL_FLASH_RESULT_OK"
| "internal_flash_result_from_hal HAL_BUSY = INTERNAL_FLASH_RESULT_BUSY"
| "internal_flash_result_from_hal HAL_TIMEOUT = INTERNAL_FLASH_RESULT_TIMEOUT"
| "internal_flash_result_from_hal HAL_ERROR = INTERNAL_FLASH_RESULT_ERROR"

definition internal_flash_range_is_valid :: "u32 \<Rightarrow> u32 \<Rightarrow> bool" where
  "internal_flash_range_is_valid start_addr len \<longleftrightarrow>
     start_addr \<ge> FLASH_BASE \<and> start_addr \<le> FLASH_END \<and> len \<le> FLASH_END - start_addr + 1"

text \<open>The loop of \<open>internal_flash_program\<close>; \<open>source\<close> is the bytes still to be programmed.\<close>

function program_loop :: "u32 \<Rightarrow> u8 list \<Rightarrow> flash \<Rightarrow> HAL_StatusTypeDef \<times> flash" where
  "program_loop start_addr source d =
     (if source = [] then (HAL_OK, d)
      else
        let (program_type, program_data) =
              (if start_addr AND 3 = 0 \<and> length source \<ge> 4
               then (FLASH_TYPEPROGRAM_WORD,
                     ucast (source ! 0) OR push_bit 8 (ucast (source ! 1)) OR push_bit 16 (ucast (source ! 2)) OR
                     push_bit 24 (ucast (source ! 3)))
               else if start_addr AND 1 = 0 \<and> length source \<ge> 2
               then (FLASH_TYPEPROGRAM_HALFWORD, ucast (source ! 0) OR push_bit 8 (ucast (source ! 1)))
               else (FLASH_TYPEPROGRAM_BYTE, ucast (source ! 0)));
            program_size = program_width program_type
        in case HAL_FLASH_Program program_type start_addr program_data d of
             (hal_status, d1) \<Rightarrow>
               if hal_status \<noteq> HAL_OK then (hal_status, d1)
               else program_loop (start_addr + of_nat program_size) (drop program_size source) d1)"
  by pat_completeness auto
termination
  by (relation "measure (\<lambda>(a, source, d). length source)")
     (auto simp: program_width_def split: if_splits program_type.splits)

declare program_loop.simps [simp del]

definition internal_flash_program :: "u32 \<Rightarrow> u8 list ptr \<Rightarrow> u32 \<Rightarrow> flash \<Rightarrow> internal_flash_result_t \<times> flash" where
  "internal_flash_program start_addr source len d =
     (if source = None \<or> len = 0 \<or> \<not> internal_flash_range_is_valid start_addr len
      then (INTERNAL_FLASH_RESULT_INVALID_ARGUMENT, d)
      else (case HAL_FLASH_Unlock d of (hal_status, d1) \<Rightarrow>
        if hal_status \<noteq> HAL_OK then (internal_flash_result_from_hal hal_status, snd (HAL_FLASH_Lock d1))
        else (case program_loop start_addr (take (unat len) (the source)) d1 of (hal_status, d2) \<Rightarrow>
          if hal_status \<noteq> HAL_OK then (internal_flash_result_from_hal hal_status, snd (HAL_FLASH_Lock d2))
          else (case HAL_FLASH_Lock d2 of (lock_status, d3) \<Rightarrow> (internal_flash_result_from_hal lock_status, d3)))))"

text \<open>Memory-mapped reads: the bytes of the destination become those of the device.\<close>

definition read_cells :: "u32 \<Rightarrow> nat \<Rightarrow> flash \<Rightarrow> u8 list" where
  "read_cells a n d = map (\<lambda>k. mem d (a + of_nat k)) [0..<n]"

definition internal_flash_read :: "u32 \<Rightarrow> u8 list ptr \<Rightarrow> u32 \<Rightarrow> flash \<Rightarrow> internal_flash_result_t \<times> u8 list ptr" where
  "internal_flash_read start_addr destination len d =
     (case destination of
        Some dest \<Rightarrow>
          if len = 0 \<or> \<not> internal_flash_range_is_valid start_addr len then (INTERNAL_FLASH_RESULT_INVALID_ARGUMENT, destination)
          else (INTERNAL_FLASH_RESULT_OK, Some (overwrite 0 (read_cells start_addr (unat len) d) dest))
      | None \<Rightarrow> (INTERNAL_FLASH_RESULT_INVALID_ARGUMENT, destination))"

definition internal_flash_erase :: "nat \<Rightarrow> nat \<Rightarrow> flash \<Rightarrow> internal_flash_result_t \<times> flash" where
  "internal_flash_erase sector count d =
     (if sector \<ge> FLASH_SECTOR_TOTAL \<or> count = 0 \<or> count > FLASH_SECTOR_TOTAL - sector
      then (INTERNAL_FLASH_RESULT_INVALID_ARGUMENT, d)
      else (case HAL_FLASH_Unlock d of (hal_status, d1) \<Rightarrow>
        if hal_status \<noteq> HAL_OK then (internal_flash_result_from_hal hal_status, snd (HAL_FLASH_Lock d1))
        else (case HAL_FLASHEx_Erase sector count (UINT32_MAX) d1 of (hal_status, sector_error, d2) \<Rightarrow>
          (case HAL_FLASH_Lock d2 of (lock_status, d3) \<Rightarrow>
            if hal_status \<noteq> HAL_OK then (internal_flash_result_from_hal hal_status, d3)
            else if sector_error \<noteq> UINT32_MAX then (INTERNAL_FLASH_RESULT_ERROR, d3)
            else (internal_flash_result_from_hal lock_status, d3)))))"

text \<open>The loop of \<open>internal_flash_is_erased\<close> reads blocks of at most 64 bytes.\<close>

function is_erased_loop :: "u32 \<Rightarrow> u32 \<Rightarrow> flash \<Rightarrow> internal_flash_result_t \<times> bool" where
  "is_erased_loop start_addr len d =
     (if len = 0 then (INTERNAL_FLASH_RESULT_OK, True)
      else let count = (if len > 64 then 64 else len) in
        case internal_flash_read start_addr (Some (replicate 64 0)) count d of
          (INTERNAL_FLASH_RESULT_OK, buffer) \<Rightarrow>
            if list_ex (\<lambda>b. b \<noteq> 0xFF) (take (unat count) (the buffer)) then (INTERNAL_FLASH_RESULT_OK, False)
            else is_erased_loop (start_addr + count) (len - count) d
        | (r, _) \<Rightarrow> (r, False))"
  by pat_completeness auto
termination
proof (relation "measure (\<lambda>(a, len, d). unat len)", goal_cases)
  case (2 start_addr len d count)
  then have "count \<le> len" "0 < count" by (auto simp: word_less_nat_alt word_le_nat_alt unat_gt_0 not_less split: if_splits)
  then show ?case by (simp add: unat_sub word_le_nat_alt word_less_nat_alt)
qed simp

declare is_erased_loop.simps [simp del]

definition internal_flash_is_erased :: "u32 \<Rightarrow> u32 \<Rightarrow> bool ptr \<Rightarrow> flash \<Rightarrow> internal_flash_result_t \<times> bool ptr" where
  "internal_flash_is_erased start_addr len erased d =
     (if erased = None \<or> len = 0 \<or> \<not> internal_flash_range_is_valid start_addr len
      then (INTERNAL_FLASH_RESULT_INVALID_ARGUMENT, erased)
      else (case is_erased_loop start_addr len d of (r, e) \<Rightarrow> (r, Some e)))"

section \<open>What programming does to the memory\<close>

text \<open>Address \<open>x\<close> lies among the \<open>n\<close> cells from \<open>a\<close>.\<close>

definition in_range :: "u32 \<Rightarrow> nat \<Rightarrow> u32 \<Rightarrow> bool" where
  "in_range a n x \<longleftrightarrow> unat a \<le> unat x \<and> unat x < unat a + n"

lemma unat_plus_1: "unat (a :: u32) + 1 < 2 ^ 32 \<Longrightarrow> unat (a + 1) = unat a + 1"
  by (simp add: unat_word_ariths)

lemma unat_add_small: "unat (a :: u32) + n < 2 ^ 32 \<Longrightarrow> unat (a + of_nat n) = unat a + n"
  by (simp add: unat_word_ariths unat_of_nat take_bit_nat_eq_self)

lemma program_cells_nth:
  "unat a + length bs \<le> 2 ^ 32 \<Longrightarrow>
   program_cells m a bs f x = (if in_range a (length bs) x then f x AND (bs ! (unat x - unat a) OR m x) else f x)"
proof (induction bs arbitrary: a f)
  case (Cons b bs)
  show ?case
  proof (cases "bs = []")
    case True
    have "in_range a 1 x \<longleftrightarrow> x = a" by (auto simp: in_range_def word_unat_eq_iff)
    then show ?thesis using True by auto
  next
    case False
    then have a1: "unat (a + 1) = unat a + 1" using Cons.prems by (intro unat_plus_1) (cases bs; simp)
    have "unat (a + 1) + length bs \<le> 2 ^ 32" using Cons.prems a1 by simp
    note IH = Cons.IH [OF this]
    show ?thesis
    proof (cases "x = a")
      case True
      then show ?thesis using IH a1 by (simp add: in_range_def)
    next
      case x: False
      then have "in_range a (length (b # bs)) x \<longleftrightarrow> in_range (a + 1) (length bs) x"
        using a1 by (auto simp: in_range_def word_unat_eq_iff)
      moreover have "in_range (a + 1) (length bs) x \<Longrightarrow> unat x - unat a = Suc (unat x - unat (a + 1))"
        using a1 by (auto simp: in_range_def)
      ultimately show ?thesis using IH x by simp
    qed
  qed
qed (auto simp: in_range_def)

text \<open>
  \<open>programmed a bs d s d'\<close>: from \<open>d\<close> to \<open>d'\<close> at most bits of the cells of the range were cleared,
  only bits that are clear in \<open>bs\<close>, and all of these when the status is OK.
\<close>

definition programmed :: "u32 \<Rightarrow> u8 list \<Rightarrow> flash \<Rightarrow> HAL_StatusTypeDef \<Rightarrow> flash \<Rightarrow> bool" where
  "programmed a bs d s d' \<longleftrightarrow> (\<forall>x. if in_range a (length bs) x
     then mem d' x AND mem d x = mem d' x \<and> mem d' x OR (mem d x AND bs ! (unat x - unat a)) = mem d' x \<and>
          (s = HAL_OK \<longrightarrow> mem d' x = mem d x AND bs ! (unat x - unat a))
     else mem d' x = mem d x)"

lemma and_or_absorb: "(x AND (b OR m)) AND x = x AND (b OR m)" "(x AND (b OR m)) OR (x AND b) = x AND (b OR m)" for x b m :: u8
  by (rule bit_eqI; auto simp: bit_simps)+

lemma and_absorb: "(x AND b) AND x = x AND b" "(x AND b) OR (x AND b) = x AND b" "x AND x = x" "x OR (x AND b) = x" for x b :: u8
  by (rule bit_eqI; auto simp: bit_simps)+

lemma and_full_u8 [simp]: "(0xFF :: u8) AND b = b"
proof -
  have "(0xFF :: u8) = - 1" by simp
  then show ?thesis by (metis and.left_neutral)
qed

lemma next_outcome_mem: "next_outcome d = (s, m, d') \<Longrightarrow> mem d' = mem d"
  by (auto simp: next_outcome_def split: list.splits prod.splits)

lemma wait_mem: "FLASH_WaitForLastOperation d = (s, d') \<Longrightarrow> mem d' = mem d"
  by (auto simp: FLASH_WaitForLastOperation_def dest: next_outcome_mem split: prod.splits)

lemma unlock_mem: "HAL_FLASH_Unlock d = (s, d') \<Longrightarrow> mem d' = mem d"
  by (auto simp: HAL_FLASH_Unlock_def dest: next_outcome_mem split: prod.splits)

lemma hal_program_programmed:
  assumes "HAL_FLASH_Program t a data d = (s, d')" "unat a + program_width t \<le> 2 ^ 32"
  shows "programmed a (map (\<lambda>k. byte_at k data) [0..<program_width t]) d s d'"
  using assms
  by (auto simp: HAL_FLASH_Program_def programmed_def program_cells_nth and_or_absorb and_absorb dest!: wait_mem next_outcome_mem
      split: prod.splits if_splits)

lemma programmed_append:
  assumes 1: "programmed a bs d HAL_OK d1" and 2: "programmed (a + of_nat (length bs)) cs d1 s d2"
    and l: "unat a + length bs + length cs \<le> 2 ^ 32" and ne: "cs \<noteq> []"
  shows "programmed a (bs @ cs) d s d2"
proof -
  have u: "unat (a + of_nat (length bs)) = unat a + length bs"
    using l ne by (intro unat_add_small) (cases cs; simp)
  show ?thesis
    unfolding programmed_def
  proof
    fix x
    show "if in_range a (length (bs @ cs)) x
     then mem d2 x AND mem d x = mem d2 x \<and> mem d2 x OR (mem d x AND (bs @ cs) ! (unat x - unat a)) = mem d2 x \<and>
          (s = HAL_OK \<longrightarrow> mem d2 x = mem d x AND (bs @ cs) ! (unat x - unat a))
     else mem d2 x = mem d x"
    proof (cases "in_range a (length bs) x")
      case True
      then have "mem d1 x = mem d x AND bs ! (unat x - unat a)" "mem d2 x = mem d1 x"
        using 1 2 u by (auto simp: programmed_def in_range_def split: if_splits)
      then show ?thesis using True and_or_absorb [of "mem d x" _ 0] by (auto simp: in_range_def nth_append)
    next
      case False
      then have d1: "mem d1 x = mem d x" using 1 by (auto simp: programmed_def)
      have i: "in_range (a + of_nat (length bs)) (length cs) x \<longleftrightarrow> in_range a (length (bs @ cs)) x"
        using False u by (auto simp: in_range_def)
      show ?thesis
      proof (cases "in_range a (length (bs @ cs)) x")
        case True
        then have "(bs @ cs) ! (unat x - unat a) = cs ! (unat x - unat (a + of_nat (length bs)))"
          using False u by (auto simp: in_range_def nth_append)
        then show ?thesis using 2 [unfolded programmed_def, rule_format, of x] True i d1 by simp
      next
        case out: False
        then show ?thesis using 2 [unfolded programmed_def, rule_format, of x] i d1 by simp
      qed
    qed
  qed
qed

lemma programmed_failed:
  assumes "programmed a bs d s d'" "s \<noteq> HAL_OK"
  shows "programmed a (bs @ cs) d s d'"
  unfolding programmed_def
proof
  fix x
  show "if in_range a (length (bs @ cs)) x
     then mem d' x AND mem d x = mem d' x \<and> mem d' x OR (mem d x AND (bs @ cs) ! (unat x - unat a)) = mem d' x \<and>
          (s = HAL_OK \<longrightarrow> mem d' x = mem d x AND (bs @ cs) ! (unat x - unat a))
     else mem d' x = mem d x"
  proof (cases "in_range a (length bs) x")
    case True
    then have "in_range a (length (bs @ cs)) x" "(bs @ cs) ! (unat x - unat a) = bs ! (unat x - unat a)"
      by (auto simp: in_range_def nth_append)
    then show ?thesis using assms True unfolding programmed_def by simp
  next
    case False
    then have "mem d' x = mem d x" using assms(1) unfolding programmed_def by auto
    then show ?thesis using assms(2) by (simp add: and_absorb)
  qed
qed

lemma programmed_Nil: "programmed a [] d HAL_OK d"
  by (auto simp: programmed_def in_range_def)

lemma program_step_bytes:
  fixes source :: "u8 list" and a data :: u32
  assumes "source \<noteq> []" "(t, data) =
      (if a AND 3 = 0 \<and> length source \<ge> 4
       then (FLASH_TYPEPROGRAM_WORD,
             ucast (source ! 0) OR push_bit 8 (ucast (source ! 1)) OR push_bit 16 (ucast (source ! 2)) OR
             push_bit 24 (ucast (source ! 3)))
       else if a AND 1 = 0 \<and> length source \<ge> 2
       then (FLASH_TYPEPROGRAM_HALFWORD, ucast (source ! 0) OR push_bit 8 (ucast (source ! 1)))
       else (FLASH_TYPEPROGRAM_BYTE, ucast (source ! 0)))"
  shows "map (\<lambda>k. byte_at k data) [0..<program_width t] = take (program_width t) source"
    and "program_width t \<le> length source" and "0 < program_width t"
proof -
  have j4: "ucast a OR push_bit 8 (ucast b) OR push_bit 16 (ucast c) OR push_bit 24 (ucast d) = join32 a b c d" for a b c d :: u8
    by (simp add: join32_def)
  have j2: "ucast a OR push_bit 8 (ucast b) = join32 a b 0 0" for a b :: u8 by (simp add: join32_def)
  have j1: "ucast a = join32 a 0 0 0" for a :: u8 by (simp add: join32_def)
  have u: "[0..<4] = [0, 1, 2, 3 :: nat]" "[0..<2] = [0, 1 :: nat]" "[0..<1] = [0 :: nat]" by (simp_all add: upt_rec)
  have "map (\<lambda>k. byte_at k data) [0..<program_width t] = take (program_width t) source \<and>
    program_width t \<le> length source \<and> 0 < program_width t"
  proof (cases "a AND 3 = 0 \<and> length source \<ge> 4")
    case True
    then have "t = FLASH_TYPEPROGRAM_WORD" "data = join32 (source ! 0) (source ! 1) (source ! 2) (source ! 3)"
      using assms(2) by (simp_all only: j4 if_True simp_thms prod.inject)
    moreover have "take 4 source = [source ! 0, source ! 1, source ! 2, source ! 3]"
      using True by (intro nth_equalityI) (auto simp: less_Suc_eq numeral_eq_Suc)
    ultimately show ?thesis using True by (simp add: program_width_def u byte_simps [simplified])
  next
    case c4: False
    show ?thesis
    proof (cases "a AND 1 = 0 \<and> length source \<ge> 2")
      case True
      then have "t = FLASH_TYPEPROGRAM_HALFWORD" "data = join32 (source ! 0) (source ! 1) 0 0"
        using assms(2) c4 by (simp_all only: j2 if_True if_False simp_thms prod.inject)
      moreover have "take 2 source = [source ! 0, source ! 1]"
        using True by (intro nth_equalityI) (auto simp: less_Suc_eq numeral_eq_Suc)
      ultimately show ?thesis using True by (simp add: program_width_def u byte_simps [simplified])
    next
      case False
      then have "t = FLASH_TYPEPROGRAM_BYTE" "data = join32 (source ! 0) 0 0 0"
        using assms(2) c4 unfolding j1 [symmetric] by (simp_all only: if_False prod.inject)
      moreover have "take 1 source = [source ! 0]" using assms(1) by (cases source) auto
      ultimately show ?thesis using assms(1) by (simp add: program_width_def byte_simps [simplified] Suc_le_eq)
    qed
  qed
  then show "map (\<lambda>k. byte_at k data) [0..<program_width t] = take (program_width t) source"
    "program_width t \<le> length source" "0 < program_width t" by blast+
qed

lemma program_loop_programmed:
  "program_loop a source d = (s, d') \<Longrightarrow> unat a + length source \<le> 2 ^ 32 \<Longrightarrow> programmed a source d s d'"
proof (induction a source d arbitrary: s d' rule: program_loop.induct)
  case (1 a source d)
  show ?case
  proof (cases "source = []")
    case True
    then show ?thesis using 1(2) by (simp add: program_loop.simps programmed_Nil)
  next
    case False
    obtain t and data :: u32 where td: "(t, data) =
      (if a AND 3 = 0 \<and> length source \<ge> 4
       then (FLASH_TYPEPROGRAM_WORD,
             ucast (source ! 0) OR push_bit 8 (ucast (source ! 1)) OR push_bit 16 (ucast (source ! 2)) OR
             push_bit 24 (ucast (source ! 3)))
       else if a AND 1 = 0 \<and> length source \<ge> 2
       then (FLASH_TYPEPROGRAM_HALFWORD, ucast (source ! 0) OR push_bit 8 (ucast (source ! 1)))
       else (FLASH_TYPEPROGRAM_BYTE, ucast (source ! 0)))"
      by (metis surj_pair)
    let ?w = "program_width t"
    note b = program_step_bytes [OF False td]
    obtain s1 d1 where h: "HAL_FLASH_Program t a data d = (s1, d1)" by (metis surj_pair)
    have p: "programmed a (take ?w source) d s1 d1"
      using hal_program_programmed [OF h] 1(3) b by simp
    have e: "program_loop a source d = (if s1 \<noteq> HAL_OK then (s1, d1) else program_loop (a + of_nat ?w) (drop ?w source) d1)"
      using False unfolding program_loop.simps [of a source d] td [symmetric] by (simp add: h Let_def)
    show ?thesis
    proof (cases "s1 = HAL_OK")
      case False
      then show ?thesis using p e 1(2) programmed_failed [of a "take ?w source" d s1 d1 "drop ?w source"] by simp
    next
      case ok: True
      then have r: "program_loop (a + of_nat ?w) (drop ?w source) d1 = (s, d')" using e 1(2) by simp
      show ?thesis
      proof (cases "drop ?w source = []")
        case True
        then have "s = HAL_OK" "d' = d1" "take ?w source = source" using r by (simp_all add: program_loop.simps)
        then show ?thesis using p ok by simp
      next
        case ne: False
        then have w: "unat a + ?w < 2 ^ 32" using 1(3) by simp
        have "unat (a + of_nat ?w) + length (drop ?w source) \<le> 2 ^ 32" using unat_add_small [OF w] 1(3) b by simp
        from 1(1) [OF False td refl refl h [symmetric] _ r this] ok
        have "programmed (a + of_nat (length (take ?w source))) (drop ?w source) d1 s d'" using b(2) by (simp add: min_absorb2)
        from programmed_append [OF p [unfolded ok] this] show ?thesis using 1(3) b ne by simp
      qed
    qed
  qed
qed

section \<open>The interface of a NOR memory\<close>

text \<open>
  What a client of a flash driver relies on: programming touches only the given range, only clears
  bits, and stores \<open>old AND new\<close> when it succeeds. Cells are addressed by naturals so that the internal
  and the external flash share the interface.
\<close>

locale nor_store =
  fixes cell :: "'d \<Rightarrow> nat \<Rightarrow> u8" and prog :: "nat \<Rightarrow> u8 list \<Rightarrow> 'd \<Rightarrow> bool \<times> 'd"
  assumes prog_frame: "prog a bs d = (ok, d') \<Longrightarrow> x < a \<or> a + length bs \<le> x \<Longrightarrow> cell d' x = cell d x"
    and prog_ok: "prog a bs d = (True, d') \<Longrightarrow> i < length bs \<Longrightarrow> cell d' (a + i) = cell d (a + i) AND bs ! i"
    and prog_clears: "prog a bs d = (ok, d') \<Longrightarrow> cell d' x AND cell d x = cell d' x"
begin

lemma prog_erased:
  assumes "prog a bs d = (True, d')" "\<forall>i < length bs. cell d (a + i) = 0xFF"
  shows "map (\<lambda>i. cell d' (a + i)) [0..<length bs] = bs"
proof (rule nth_equalityI)
  have "0xFF AND b = b" for b :: u8 by (rule and_full_u8)
  then show "i < length (map (\<lambda>i. cell d' (a + i)) [0..<length bs]) \<Longrightarrow> map (\<lambda>i. cell d' (a + i)) [0..<length bs] ! i = bs ! i" for i
    using prog_ok [OF assms(1)] assms(2) by simp
qed simp

lemma prog_keeps_zero: "prog a bs d = (ok, d') \<Longrightarrow> cell d x = 0 \<Longrightarrow> cell d' x = 0"
  using prog_clears [of a bs d ok d' x] by simp

end

lemma valid_range_bound: "internal_flash_range_is_valid a n \<Longrightarrow> unat a + unat n \<le> 0x08100000"
proof -
  assume v: "internal_flash_range_is_valid a n"
  define e where "e = FLASH_END - a"
  have n: "unat n \<le> unat (e + 1)" "unat a \<le> unat FLASH_END"
    using v by (auto simp: internal_flash_range_is_valid_def word_le_nat_alt e_def)
  moreover have "unat e = unat FLASH_END - unat a"
    unfolding e_def using v by (intro unat_sub) (simp add: internal_flash_range_is_valid_def)
  moreover have "unat (e + 1) \<le> unat e + 1" by (simp add: unat_word_ariths)
  ultimately show ?thesis by simp
qed

lemma internal_program_programmed:
  assumes "internal_flash_program a (Some bs) n d = (r, d')" "unat n \<le> length bs"
  shows "programmed a (take (unat n) bs) d (if r = INTERNAL_FLASH_RESULT_OK then HAL_OK else HAL_ERROR) d' \<or>
    r = INTERNAL_FLASH_RESULT_INVALID_ARGUMENT \<and> d' = d"
proof (cases "n = 0 \<or> \<not> internal_flash_range_is_valid a n")
  case True
  then show ?thesis using assms(1) by (auto simp: internal_flash_program_def)
next
  case False
  have range: "unat a + length (take (unat n) bs) \<le> 2 ^ 32" using valid_range_bound [of a n] False by simp
  have refl: "programmed a bs' d HAL_ERROR d1" if "mem d1 = mem d" for d1 bs'
    using that by (simp add: programmed_def and_absorb)
  obtain s1 d1 where u: "HAL_FLASH_Unlock d = (s1, d1)" by (metis surj_pair)
  show ?thesis
  proof (cases "s1 = HAL_OK")
    case no: False
    then have "d' = d1" "r \<noteq> INTERNAL_FLASH_RESULT_OK"
      using assms(1) False u by (auto simp: internal_flash_program_def HAL_FLASH_Lock_def HAL_FLASH_Unlock_def split: prod.splits if_splits)
    then show ?thesis using refl unlock_mem [OF u] by simp
  next
    case True
    obtain s2 d2 where l: "program_loop a (take (unat n) bs) d1 = (s2, d2)" by (metis surj_pair)
    have p: "programmed a (take (unat n) bs) d s2 d2"
      using program_loop_programmed [OF l range] unfolding programmed_def unlock_mem [OF u] .
    have "d' = d2" "r = internal_flash_result_from_hal s2"
      using assms(1) False u l True by (auto simp: internal_flash_program_def HAL_FLASH_Lock_def split: if_splits)
    then show ?thesis using p by (cases s2) (auto simp: programmed_def)
  qed
qed

definition internal_cell :: "flash \<Rightarrow> nat \<Rightarrow> u8" where
  "internal_cell d x = (if x < 2 ^ 32 then mem d (of_nat x) else 0)"

definition internal_prog :: "nat \<Rightarrow> u8 list \<Rightarrow> flash \<Rightarrow> bool \<times> flash" where
  "internal_prog a bs d = (if a + length bs \<le> 2 ^ 32 \<and> length bs < 2 ^ 32 \<and> bs \<noteq> []
     then (case internal_flash_program (of_nat a) (Some bs) (of_nat (length bs)) d of
             (r, d') \<Rightarrow> (r = INTERNAL_FLASH_RESULT_OK, d'))
     else (bs = [], d))"

lemma internal_prog_programmed:
  assumes "internal_prog a bs d = (ok, d')"
  shows "\<exists>s. programmed (of_nat a) bs d s d' \<and> (ok \<longrightarrow> s = HAL_OK) \<and> (a + length bs \<le> 2 ^ 32 \<and> bs \<noteq> [] \<or> d' = d)"
proof -
  have same: "programmed b bs' d HAL_ERROR d" for b bs' by (simp add: programmed_def and_absorb)
  show ?thesis
  proof (cases "a + length bs \<le> 2 ^ 32 \<and> length bs < 2 ^ 32 \<and> bs \<noteq> []")
    case False
    then have "ok = (bs = [])" "d' = d" using assms by (auto simp: internal_prog_def split: if_splits)
    then show ?thesis using same programmed_Nil by (cases "bs = []") auto
  next
    case True
    obtain r where r: "internal_flash_program (of_nat a) (Some bs) (of_nat (length bs)) d = (r, d')" "ok = (r = INTERNAL_FLASH_RESULT_OK)"
      using assms True by (auto simp: internal_prog_def split: prod.splits)
    have u: "unat (of_nat (length bs) :: u32) = length bs" using True by (simp add: unat_of_nat take_bit_nat_eq_self)
    then show ?thesis using internal_program_programmed [OF r(1)] r(2) True same by auto
  qed
qed

interpretation internal: nor_store internal_cell internal_prog
proof
  fix a bs d ok d' x
  assume p: "internal_prog a bs d = (ok, d')"
  obtain s where s: "programmed (of_nat a) bs d s d'" "ok \<longrightarrow> s = HAL_OK" "a + length bs \<le> 2 ^ 32 \<and> bs \<noteq> [] \<or> d' = d"
    using internal_prog_programmed [OF p] by blast
  have ua: "unat (of_nat a :: u32) = a" if "a + length bs \<le> 2 ^ 32" "bs \<noteq> []"
  proof -
    have "0 < length bs" using that by simp
    then have "a < 2 ^ 32" using that by linarith
    then show ?thesis by (simp add: unat_of_nat take_bit_nat_eq_self)
  qed
  have ux: "unat (of_nat x :: u32) = x" if "x < 2 ^ 32" for x using that by (simp add: unat_of_nat take_bit_nat_eq_self)
  show "internal_cell d' x = internal_cell d x" if "x < a \<or> a + length bs \<le> x"
    using s(3) that ua ux [of x] s(1) [unfolded programmed_def in_range_def, rule_format, of "of_nat x"]
    unfolding internal_cell_def by (auto split: if_splits)
  show "internal_cell d' x AND internal_cell d x = internal_cell d' x"
    using s(1) [unfolded programmed_def, rule_format, of "of_nat x"]
    unfolding internal_cell_def by (auto simp: and_absorb split: if_splits)
next
  fix a bs d d' i
  assume p: "internal_prog a bs d = (True, d')" and i: "i < length bs"
  obtain s where s: "programmed (of_nat a) bs d s d'" "s = HAL_OK" using internal_prog_programmed [OF p] by blast
  have l: "a + length bs \<le> 2 ^ 32" using p i by (auto simp: internal_prog_def split: if_splits)
  have "unat (of_nat a :: u32) = a" "unat (of_nat (a + i) :: u32) = a + i"
    using l i by (simp_all add: unat_of_nat take_bit_nat_eq_self del: of_nat_add)
  then show "internal_cell d' (a + i) = internal_cell d (a + i) AND bs ! i"
    using s l i unfolding internal_cell_def programmed_def in_range_def by (simp del: of_nat_add)
qed

text \<open>Checking for an erased range.\<close>

lemma all_shift: "(\<forall>k < n - c. P (c + k)) \<longleftrightarrow> (\<forall>k. c \<le> k \<and> k < n \<longrightarrow> P k)" for c n :: nat
proof
  assume a: "\<forall>k < n - c. P (c + k)"
  show "\<forall>k. c \<le> k \<and> k < n \<longrightarrow> P k"
  proof (intro allI impI)
    fix k assume "c \<le> k \<and> k < n"
    then have "k - c < n - c" "c + (k - c) = k" by auto
    then show "P k" using a [rule_format, of "k - c"] by simp
  qed
qed simp

lemma is_erased_loop_result:
  "unat a + unat n \<le> 0x08100000 \<Longrightarrow> FLASH_BASE \<le> a \<Longrightarrow>
   is_erased_loop a n d = (INTERNAL_FLASH_RESULT_OK, \<forall>k < unat n. mem d (a + of_nat k) = 0xFF)"
proof (induction a n d rule: is_erased_loop.induct)
  case (1 a n d)
  show ?case
  proof (cases "n = 0")
    case False
    define c where "c = (if n > 64 then 64 else n)"
    have c: "c \<le> n" "c \<noteq> 0" "unat c \<le> 64" "unat c \<le> unat n"
      using False by (auto simp: c_def word_le_nat_alt word_less_nat_alt not_less)
    have v: "internal_flash_range_is_valid a c"
    proof -
      have "unat a + unat c \<le> 0x08100000" "0 < unat c" using 1(2) c by (auto simp: unat_gt_0)
      then have "unat a \<le> 0x080FFFFF" by simp
      then have le: "a \<le> FLASH_END" by (simp add: word_le_nat_alt)
      have "unat (FLASH_END - a) = unat FLASH_END - unat a" using le by (rule unat_sub)
      then have "unat (FLASH_END - a + 1) = 0x08100000 - unat a"
        using \<open>unat a \<le> 0x080FFFFF\<close> unat_plus_1 [of "FLASH_END - a"] by simp
      then show ?thesis using le 1(3) \<open>unat a + unat c \<le> 0x08100000\<close> by (simp add: internal_flash_range_is_valid_def word_le_nat_alt)
    qed
    have rd: "internal_flash_read a (Some (replicate 64 0)) c d = (INTERNAL_FLASH_RESULT_OK, Some (overwrite 0 (read_cells a (unat c) d) (replicate 64 0)))"
      using c v by (simp add: internal_flash_read_def)
    have tk: "take (unat c) (overwrite 0 (read_cells a (unat c) d) (replicate 64 0)) = read_cells a (unat c) d"
      using take_overwrite_0 [of "read_cells a (unat c) d"] by (simp add: read_cells_def)
    have un: "unat (n - c) = unat n - unat c" using c by (intro unat_sub) simp
    show ?thesis
    proof (cases "list_ex (\<lambda>b. b \<noteq> 0xFF) (read_cells a (unat c) d)")
      case True
      then obtain k where "k < unat c" "mem d (a + of_nat k) \<noteq> 0xFF" by (auto simp: list_ex_iff read_cells_def)
      then have "\<exists>k < unat n. mem d (a + of_nat k) \<noteq> 0xFF" using c(4) by (intro exI [of _ k]) simp
      then show ?thesis using False True rd tk c_def by (subst is_erased_loop.simps) (simp add: Let_def)
    next
      case all: False
      then have e: "is_erased_loop a n d = is_erased_loop (a + c) (n - c) d"
        using False rd tk c_def by (subst is_erased_loop.simps) (simp add: Let_def)
      have ffc: "\<forall>k < unat c. mem d (a + of_nat k) = 0xFF" using all by (auto simp: list_ex_iff read_cells_def)
      show ?thesis
      proof (cases "n = c")
        case True
        then show ?thesis using e ffc by (subst e) (simp add: is_erased_loop.simps)
      next
        case nc: False
        then have "unat c < unat n" using c by (simp add: word_unat_eq_iff)
        then have uac: "unat (a + c) = unat a + unat c" using 1(2) by (simp add: unat_word_ariths)
        have "is_erased_loop (a + c) (n - c) d = (INTERNAL_FLASH_RESULT_OK, \<forall>k < unat (n - c). mem d (a + c + of_nat k) = 0xFF)"
        proof (rule 1(1) [OF False c_def rd [symmetric]])
          show "\<not> list_ex (\<lambda>b. b \<noteq> 0xFF) (take (unat c) (the (Some (overwrite 0 (read_cells a (unat c) d) (replicate 64 0)))))"
            using all tk by simp
          show "unat (a + c) + unat (n - c) \<le> 0x08100000" using uac un 1(2) c by simp
          show "FLASH_BASE \<le> a + c" using 1(3) uac by (simp add: word_le_nat_alt)
        qed simp
        moreover have "(\<forall>k < unat (n - c). mem d (a + c + of_nat k) = 0xFF) \<longleftrightarrow> (\<forall>k. unat c \<le> k \<and> k < unat n \<longrightarrow> mem d (a + of_nat k) = 0xFF)"
        proof -
          have s: "a + c + of_nat k = a + of_nat (unat c + k)" for k by simp
          show ?thesis unfolding s un by (rule all_shift)
        qed
        moreover have "(\<forall>k. unat c \<le> k \<and> k < unat n \<longrightarrow> mem d (a + of_nat k) = 0xFF) \<longleftrightarrow> (\<forall>k < unat n. mem d (a + of_nat k) = 0xFF)"
          using ffc by (metis not_less)
        ultimately show ?thesis using e by simp
      qed
    qed
  qed (simp add: is_erased_loop.simps)
qed

lemma is_erased_result:
  assumes "internal_flash_range_is_valid a n" "n \<noteq> 0"
  shows "internal_flash_is_erased a n (Some e) d = (INTERNAL_FLASH_RESULT_OK, Some (\<forall>k < unat n. mem d (a + of_nat k) = 0xFF))"
  using assms is_erased_loop_result [of a n d] valid_range_bound [OF assms(1)]
  by (simp add: internal_flash_is_erased_def internal_flash_range_is_valid_def)

section \<open>Properties\<close>

text \<open>
  Programming is contained: whatever the flash controller reports at every step and whatever a
  failed step leaves behind, \<open>internal_flash_program\<close> changes no cell outside the requested range and only
  clears bits inside it; when it returns OK, every cell of the range holds its old value AND the
  source byte, whichever mix of word, half-word and byte accesses the alignment required.
\<close>

theorem internal_flash_program_effect:
  assumes "internal_flash_program a (Some bs) n d = (r, d')" "unat n \<le> length bs"
  shows "(\<forall>x. if in_range a (unat n) x
      then mem d' x AND mem d x = mem d' x \<and> (r = INTERNAL_FLASH_RESULT_OK \<longrightarrow> mem d' x = mem d x AND bs ! (unat x - unat a))
      else mem d' x = mem d x)"
proof -
  have "length (take (unat n) bs) = unat n" using assms(2) by simp
  moreover have "in_range a (unat n) x \<Longrightarrow> take (unat n) bs ! (unat x - unat a) = bs ! (unat x - unat a)" for x
    by (intro nth_take) (auto simp: in_range_def)
  ultimately show ?thesis
    using internal_program_programmed [OF assms] unfolding programmed_def by (auto simp: and_absorb)
qed

theorem internal_flash_program_effect_witness:
  "(\<forall>x. if in_range 0x08020005 (unat (1 :: u32)) x
      then mem (snd (internal_flash_program 0x08020005 (Some [1]) 1 \<lparr>mem = \<lambda>_. 0xFF, script = []\<rparr>)) x AND
             mem \<lparr>mem = \<lambda>_. 0xFF, script = []\<rparr> x =
           mem (snd (internal_flash_program 0x08020005 (Some [1]) 1 \<lparr>mem = \<lambda>_. 0xFF, script = []\<rparr>)) x \<and>
        (fst (internal_flash_program 0x08020005 (Some [1]) 1 \<lparr>mem = \<lambda>_. 0xFF, script = []\<rparr>) = INTERNAL_FLASH_RESULT_OK \<longrightarrow>
         mem (snd (internal_flash_program 0x08020005 (Some [1]) 1 \<lparr>mem = \<lambda>_. 0xFF, script = []\<rparr>)) x =
           mem \<lparr>mem = \<lambda>_. 0xFF, script = []\<rparr> x AND [1] ! (unat x - unat (0x08020005 :: u32)))
      else mem (snd (internal_flash_program 0x08020005 (Some [1]) 1 \<lparr>mem = \<lambda>_. 0xFF, script = []\<rparr>)) x = mem \<lparr>mem = \<lambda>_. 0xFF, script = []\<rparr> x)"
  by (rule internal_flash_program_effect [OF prod.collapse [symmetric]]) simp

end
