(* ===== verification/Boot_Control.thy ===== *)
theory Boot_Control
  imports Internal_Flash
begin

text \<open>
  Model of \<open>app/Boot/boot_control.c\<close>: the two application slots, their state bytes in flash, the
  order in which the boot loader tries them, the choice of the slot to overwrite, and the boot request
  in the backup register. The eight info bytes of a slot are read and written through the internal
  flash driver; \<open>info_of_bytes\<close> and \<open>bytes_of_info\<close> are the layout of the packed struct.
\<close>

section \<open>Slots\<close>

datatype boot_slot_t = BOOT_SLOT_A | BOOT_SLOT_B | BOOT_SLOT_NONE

abbreviation "BOOT_SLOT_A_ADDRESS \<equiv> (0x08020000 :: u32)"
abbreviation "BOOT_SLOT_B_ADDRESS \<equiv> (0x08080000 :: u32)"
abbreviation "BOOT_SLOT_SIZE \<equiv> (0x00060000 :: u32)"
abbreviation "BOOT_SLOT_HEADER_SIZE \<equiv> (0x00000200 :: u32)"
abbreviation "BOOT_SLOT_A_APP \<equiv> (0x08020200 :: u32)"
abbreviation "BOOT_SLOT_B_APP \<equiv> (0x08080200 :: u32)"
abbreviation "BOOT_SLOT_MAGIC \<equiv> (0x32544C53 :: u32)"
abbreviation "BOOT_FLAG_ERASED \<equiv> (0xFF :: u8)"
abbreviation "BOOT_FLAG_SET \<equiv> (0x01 :: u8)"
abbreviation "BOOT_REQUEST_VALUE \<equiv> (1 :: u32)"

record boot_slot_info_t =
  magic :: u32
  generation :: u8
  write_done :: u8
  boot_attempted :: u8
  boot_success :: u8

datatype boot_slot_state_t = BOOT_SLOT_INVALID | BOOT_SLOT_PENDING | BOOT_SLOT_CONFIRMED | BOOT_SLOT_UNCONFIRMED

record boot_candidate_t =
  candidate_slot :: boot_slot_t
  candidate_state :: boot_slot_state_t

datatype boot_control_result_t =
    BOOT_CONTROL_OK
  | BOOT_CONTROL_ARGUMENT
  | BOOT_CONTROL_READ_ERROR
  | BOOT_CONTROL_STATE_ERROR
  | BOOT_CONTROL_PROGRAM_ERROR
  | BOOT_CONTROL_VERIFY_ERROR

definition info_of_bytes :: "u8 list \<Rightarrow> boot_slot_info_t" where
  "info_of_bytes b = \<lparr>magic = join32 (b ! 0) (b ! 1) (b ! 2) (b ! 3), generation = b ! 4, write_done = b ! 5,
     boot_attempted = b ! 6, boot_success = b ! 7\<rparr>"

definition bytes_of_info :: "boot_slot_info_t \<Rightarrow> u8 list" where
  "bytes_of_info i = le32 (magic i) @ [generation i, write_done i, boot_attempted i, boot_success i]"

definition valid_slot :: "boot_slot_t \<Rightarrow> bool" where
  "valid_slot slot \<longleftrightarrow> slot = BOOT_SLOT_A \<or> slot = BOOT_SLOT_B"

definition boot_slot_address :: "boot_slot_t \<Rightarrow> u32" where
  "boot_slot_address slot = (if slot = BOOT_SLOT_A then BOOT_SLOT_A_ADDRESS
     else if slot = BOOT_SLOT_B then BOOT_SLOT_B_ADDRESS else 0)"

definition boot_slot_app_address :: "boot_slot_t \<Rightarrow> u32" where
  "boot_slot_app_address slot = (if valid_slot slot then boot_slot_address slot + BOOT_SLOT_HEADER_SIZE else 0)"

definition boot_slot_first_sector :: "boot_slot_t \<Rightarrow> u32" where
  "boot_slot_first_sector slot = (if slot = BOOT_SLOT_A then 5 else if slot = BOOT_SLOT_B then 8 else 0xFFFFFFFF)"

definition boot_slot_read :: "boot_slot_t \<Rightarrow> boot_slot_info_t ptr \<Rightarrow> flash \<Rightarrow> boot_control_result_t \<times> boot_slot_info_t ptr" where
  "boot_slot_read slot info d =
     (case info of
        None \<Rightarrow> (BOOT_CONTROL_ARGUMENT, info)
      | Some i \<Rightarrow>
          if \<not> valid_slot slot then (BOOT_CONTROL_ARGUMENT, info)
          else (case internal_flash_read (boot_slot_address slot) (Some (bytes_of_info i)) 8 d of
                  (r, bytes) \<Rightarrow> (if r = INTERNAL_FLASH_RESULT_OK then BOOT_CONTROL_OK else BOOT_CONTROL_READ_ERROR,
                                map_option info_of_bytes bytes)))"

section \<open>Slot states\<close>

definition initialized :: "boot_slot_info_t \<Rightarrow> bool" where
  "initialized info \<longleftrightarrow> magic info = BOOT_SLOT_MAGIC \<and> generation info < 3"

definition boot_slot_state :: "boot_slot_info_t ptr \<Rightarrow> boot_slot_state_t" where
  "boot_slot_state info =
     (case info of None \<Rightarrow> BOOT_SLOT_INVALID | Some i \<Rightarrow>
        if \<not> initialized i \<or> write_done i \<noteq> BOOT_FLAG_SET then BOOT_SLOT_INVALID
        else if boot_attempted i = BOOT_FLAG_ERASED \<and> boot_success i = BOOT_FLAG_ERASED then BOOT_SLOT_PENDING
        else if boot_attempted i = BOOT_FLAG_SET \<and> boot_success i = BOOT_FLAG_SET then BOOT_SLOT_CONFIRMED
        else if boot_attempted i = BOOT_FLAG_SET \<and> boot_success i = BOOT_FLAG_ERASED then BOOT_SLOT_UNCONFIRMED
        else BOOT_SLOT_INVALID)"

definition candidate :: "boot_slot_state_t \<Rightarrow> bool" where
  "candidate state \<longleftrightarrow> state = BOOT_SLOT_PENDING \<or> state = BOOT_SLOT_CONFIRMED"

text \<open>The generations are promoted to \<open>int\<close> before \<open>+ 1U\<close>, so the addition does not wrap at 255.\<close>

definition newer :: "boot_slot_info_t \<Rightarrow> boot_slot_info_t \<Rightarrow> boot_slot_t" where
  "newer info0 info1 = (if unat (generation info1) = (unat (generation info0) + 1) mod 3 then BOOT_SLOT_B else BOOT_SLOT_A)"

text \<open>An object no code has written yet.\<close>

definition blank_info :: boot_slot_info_t where
  "blank_info = \<lparr>magic = 0, generation = 0, write_done = 0, boot_attempted = 0, boot_success = 0\<rparr>"

text \<open>The loop over both slots: the info and the state of a slot, \<open>INVALID\<close> when it cannot be read.\<close>

definition read_state :: "boot_slot_t \<Rightarrow> flash \<Rightarrow> boot_slot_info_t \<times> boot_slot_state_t" where
  "read_state slot d =
     (case boot_slot_read slot (Some blank_info) d of (r, info) \<Rightarrow>
        (the info, if r = BOOT_CONTROL_OK then boot_slot_state info else BOOT_SLOT_INVALID))"

text \<open>The candidates in the order of the array after the loop and the exchange; their number is the result.\<close>

definition boot_candidates :: "flash \<Rightarrow> boot_candidate_t list" where
  "boot_candidates d =
     (let (info0, state0) = read_state BOOT_SLOT_A d;
          (info1, state1) = read_state BOOT_SLOT_B d;
          order = (if candidate state0 then [\<lparr>candidate_slot = BOOT_SLOT_A, candidate_state = state0\<rparr>] else []) @
                  (if candidate state1 then [\<lparr>candidate_slot = BOOT_SLOT_B, candidate_state = state1\<rparr>] else [])
      in if length order = 2 then
           let first = (if generation info0 = generation info1 \<and> state1 = BOOT_SLOT_CONFIRMED \<and> state0 \<noteq> BOOT_SLOT_CONFIRMED
                        then BOOT_SLOT_B else newer info0 info1)
           in if first = BOOT_SLOT_B then [order ! 1, order ! 0] else order
         else order)"

definition boot_slot_boot_order :: "boot_candidate_t list ptr \<Rightarrow> flash \<Rightarrow> nat \<times> boot_candidate_t list ptr" where
  "boot_slot_boot_order order d =
     (case order of
        None \<Rightarrow> (0, None)
      | Some array \<Rightarrow> (length (boot_candidates d), Some (overwrite 0 (boot_candidates d) array)))"

definition boot_slot_upgrade_target ::
  "boot_slot_t ptr \<Rightarrow> u8 ptr \<Rightarrow> flash \<Rightarrow> boot_control_result_t \<times> boot_slot_t ptr \<times> u8 ptr" where
  "boot_slot_upgrade_target target gen d =
     (if target = None \<or> gen = None then (BOOT_CONTROL_ARGUMENT, target, gen)
      else (case (boot_slot_read BOOT_SLOT_A (Some blank_info) d, boot_slot_read BOOT_SLOT_B (Some blank_info) d) of
        ((r0, i0), (r1, i1)) \<Rightarrow>
          if r0 \<noteq> BOOT_CONTROL_OK \<or> r1 \<noteq> BOOT_CONTROL_OK then (BOOT_CONTROL_READ_ERROR, Some BOOT_SLOT_NONE, gen)
          else
            let info0 = the i0; info1 = the i1; state0 = boot_slot_state i0; state1 = boot_slot_state i1;
                keep = (if state0 = BOOT_SLOT_CONFIRMED \<or> state1 = BOOT_SLOT_CONFIRMED
                        then (if state0 = state1 then newer info0 info1
                              else if state0 = BOOT_SLOT_CONFIRMED then BOOT_SLOT_A else BOOT_SLOT_B)
                        else if state0 = BOOT_SLOT_PENDING \<or> state1 = BOOT_SLOT_PENDING
                        then (if state0 = state1 then newer info0 info1
                              else if state0 = BOOT_SLOT_PENDING then BOOT_SLOT_A else BOOT_SLOT_B)
                        else BOOT_SLOT_NONE)
            in (BOOT_CONTROL_OK, Some (if keep = BOOT_SLOT_A then BOOT_SLOT_B else BOOT_SLOT_A),
                Some (case keep of
                        BOOT_SLOT_NONE \<Rightarrow> 0
                      | BOOT_SLOT_A \<Rightarrow> of_nat ((unat (generation info0) + 1) mod 3)
                      | BOOT_SLOT_B \<Rightarrow> of_nat ((unat (generation info1) + 1) mod 3)))))"

section \<open>Writing the state bytes\<close>

definition program_info :: "boot_slot_t \<Rightarrow> boot_slot_info_t \<Rightarrow> nat \<Rightarrow> nat \<Rightarrow> flash \<Rightarrow> boot_control_result_t \<times> flash" where
  "program_info slot expected offset sz d =
     (case internal_flash_program (boot_slot_address slot + of_nat offset)
             (Some (drop offset (bytes_of_info expected))) (of_nat sz) d of
        (r, d1) \<Rightarrow>
          if r \<noteq> INTERNAL_FLASH_RESULT_OK then (BOOT_CONTROL_PROGRAM_ERROR, d1)
          else (case boot_slot_read slot (Some blank_info) d1 of
            (r1, readback) \<Rightarrow>
              if r1 \<noteq> BOOT_CONTROL_OK then (BOOT_CONTROL_READ_ERROR, d1)
              else (if bytes_of_info expected = bytes_of_info (the readback) then BOOT_CONTROL_OK else BOOT_CONTROL_VERIFY_ERROR, d1)))"

definition boot_slot_initialize :: "boot_slot_t \<Rightarrow> u8 \<Rightarrow> flash \<Rightarrow> boot_control_result_t \<times> flash" where
  "boot_slot_initialize slot gen d =
     (if \<not> valid_slot slot \<or> gen \<ge> 3 then (BOOT_CONTROL_ARGUMENT, d)
      else (case internal_flash_is_erased (boot_slot_address slot) BOOT_SLOT_HEADER_SIZE (Some False) d of
        (r, erased) \<Rightarrow>
          if r \<noteq> INTERNAL_FLASH_RESULT_OK then (BOOT_CONTROL_READ_ERROR, d)
          else if \<not> the erased then (BOOT_CONTROL_STATE_ERROR, d)
          else program_info slot
                 \<lparr>magic = BOOT_SLOT_MAGIC, generation = gen, write_done = BOOT_FLAG_ERASED,
                  boot_attempted = BOOT_FLAG_ERASED, boot_success = BOOT_FLAG_ERASED\<rparr> 0 5 d))"

definition mark :: "boot_slot_t \<Rightarrow> nat \<Rightarrow> flash \<Rightarrow> boot_control_result_t \<times> flash" where
  "mark slot offset d =
     (case boot_slot_read slot (Some blank_info) d of (result, i) \<Rightarrow>
        if result \<noteq> BOOT_CONTROL_OK then (result, d)
        else
          let info = the i; state = boot_slot_state i;
              proceed = program_info slot (info_of_bytes ((bytes_of_info info)[offset := BOOT_FLAG_SET])) offset 1 d
          in if offset = 5 then
               (if state = BOOT_SLOT_PENDING then (BOOT_CONTROL_OK, d)
                else if \<not> initialized info \<or> write_done info \<noteq> BOOT_FLAG_ERASED \<or>
                        boot_attempted info \<noteq> BOOT_FLAG_ERASED \<or> boot_success info \<noteq> BOOT_FLAG_ERASED
                then (BOOT_CONTROL_STATE_ERROR, d)
                else proceed)
             else if offset = 6 then
               (if state = BOOT_SLOT_UNCONFIRMED then (BOOT_CONTROL_OK, d)
                else if state \<noteq> BOOT_SLOT_PENDING then (BOOT_CONTROL_STATE_ERROR, d)
                else proceed)
             else
               (if state = BOOT_SLOT_CONFIRMED then (BOOT_CONTROL_OK, d)
                else if state \<noteq> BOOT_SLOT_UNCONFIRMED then (BOOT_CONTROL_STATE_ERROR, d)
                else proceed))"

definition boot_slot_mark_written :: "boot_slot_t \<Rightarrow> flash \<Rightarrow> boot_control_result_t \<times> flash" where
  "boot_slot_mark_written slot d = mark slot 5 d"

definition boot_slot_mark_attempted :: "boot_slot_t \<Rightarrow> flash \<Rightarrow> boot_control_result_t \<times> flash" where
  "boot_slot_mark_attempted slot d = mark slot 6 d"

definition boot_slot_confirm :: "boot_slot_t \<Rightarrow> flash \<Rightarrow> boot_control_result_t \<times> flash" where
  "boot_slot_confirm slot d = mark slot 7 d"

text \<open>\<open>vtor\<close> is the value of \<open>SCB->VTOR\<close>.\<close>

definition boot_confirm_running :: "u32 \<Rightarrow> flash \<Rightarrow> boot_control_result_t \<times> flash" where
  "boot_confirm_running vtor d =
     (if vtor = BOOT_SLOT_A_APP then boot_slot_confirm BOOT_SLOT_A d
      else if vtor = BOOT_SLOT_B_APP then boot_slot_confirm BOOT_SLOT_B d
      else (BOOT_CONTROL_STATE_ERROR, d))"

section \<open>Vector table\<close>

definition boot_slot_vectors_are_valid :: "boot_slot_t \<Rightarrow> u32 \<Rightarrow> u32 \<Rightarrow> bool" where
  "boot_slot_vectors_are_valid slot stack reset_handler =
     (let entry = reset_handler AND NOT 1;
          stack_in_ram = (stack > 0x20000000 \<and> stack \<le> 0x20020000) \<or> (stack > 0x10000000 \<and> stack \<le> 0x10010000)
      in valid_slot slot \<and> stack_in_ram \<and> stack AND 7 = 0 \<and> reset_handler AND 1 \<noteq> 0 \<and>
         entry \<ge> boot_slot_app_address slot + 8 \<and> entry < boot_slot_address slot + BOOT_SLOT_SIZE)"

definition boot_slot_read_vectors :: "boot_slot_t \<Rightarrow> u32 ptr \<Rightarrow> u32 ptr \<Rightarrow> flash \<Rightarrow> bool \<times> u32 ptr \<times> u32 ptr" where
  "boot_slot_read_vectors slot stack reset_handler d =
     (if \<not> valid_slot slot \<or> stack = None \<or> reset_handler = None then (False, stack, reset_handler)
      else (case internal_flash_read (boot_slot_app_address slot) (Some (replicate 8 0)) 8 d of
              (r, vectors) \<Rightarrow>
                if r \<noteq> INTERNAL_FLASH_RESULT_OK then (False, stack, reset_handler)
                else let v = the vectors;
                         st = join32 (v ! 0) (v ! 1) (v ! 2) (v ! 3); rh = join32 (v ! 4) (v ! 5) (v ! 6) (v ! 7)
                     in (boot_slot_vectors_are_valid slot st rh, Some st, Some rh)))"

section \<open>The boot request in the backup register\<close>

text \<open>
  The registers the request uses: \<open>RTC_BKP0R\<close>, the DBP bit of \<open>PWR_CR\<close>, PRIMASK and the power interface clock.
  The peripheral decides how many reads of \<open>PWR_CR\<close> it takes until a set DBP bit is seen
  (\<open>dbp_latency\<close>) and whether the register takes a value (\<open>bkp_writable\<close>).
\<close>

record boot_registers =
  bkp0r :: u32
  dbp :: bool
  primask :: u32
  pwr_clock :: bool
  dbp_latency :: nat
  bkp_writable :: bool

definition boot_request_read :: "boot_registers \<Rightarrow> u32 \<times> boot_registers" where
  "boot_request_read r = (bkp0r r, r\<lparr>pwr_clock := True\<rparr>)"

text \<open>The polling loop: \<open>attempts\<close> reads left, \<open>latency\<close> reads until the bit is seen.\<close>

fun poll_dbp :: "nat \<Rightarrow> nat \<Rightarrow> bool" where
  "poll_dbp 0 latency = False"
| "poll_dbp (Suc attempts) latency = (if latency = 0 then True else poll_dbp attempts (latency - 1))"

definition boot_request_write :: "u32 \<Rightarrow> boot_registers \<Rightarrow> bool \<times> boot_registers" where
  "boot_request_write v r =
     (let saved_primask = primask r;
          r1 = r\<lparr>primask := 1, pwr_clock := True\<rparr>;
          saved_dbp = dbp r1;
          r2 = r1\<lparr>dbp := True\<rparr>;
          seen = poll_dbp 1024 (if saved_dbp then 0 else dbp_latency r2);
          r3 = (if seen \<and> bkp_writable r2 then r2\<lparr>bkp0r := v\<rparr> else r2);
          success = (seen \<and> bkp0r r3 = v);
          r4 = (if \<not> saved_dbp then r3\<lparr>dbp := False\<rparr> else r3)
      in (success, r4\<lparr>primask := saved_primask\<rparr>))"

definition boot_request_set :: "boot_registers \<Rightarrow> bool \<times> boot_registers" where
  "boot_request_set r = boot_request_write BOOT_REQUEST_VALUE r"

definition boot_request_clear :: "boot_registers \<Rightarrow> bool \<times> boot_registers" where
  "boot_request_clear r = boot_request_write 0 r"

section \<open>Reading and writing the info bytes\<close>

definition slot_info :: "flash \<Rightarrow> boot_slot_t \<Rightarrow> boot_slot_info_t" where
  "slot_info d s = info_of_bytes (read_cells (boot_slot_address s) 8 d)"

abbreviation slot_state :: "flash \<Rightarrow> boot_slot_t \<Rightarrow> boot_slot_state_t" where
  "slot_state d s \<equiv> boot_slot_state (Some (slot_info d s))"

lemma bytes_info [simp]: "length b = 8 \<Longrightarrow> bytes_of_info (info_of_bytes b) = b"
proof -
  assume "length b = 8"
  then have "b = [b ! 0, b ! 1, b ! 2, b ! 3, b ! 4, b ! 5, b ! 6, b ! 7]"
    by (intro nth_equalityI) (auto simp: less_Suc_eq numeral_eq_Suc)
  then show ?thesis by (simp add: bytes_of_info_def info_of_bytes_def le32_def byte_simps [simplified])
qed

lemma info_bytes [simp]: "info_of_bytes (bytes_of_info i) = i"
  by (simp add: bytes_of_info_def info_of_bytes_def le32_def byte_simps [simplified])

lemma length_bytes_of_info [simp]: "length (bytes_of_info i) = 8"
  by (simp add: bytes_of_info_def)

lemma length_read_cells [simp]: "length (read_cells a n d) = n"
  by (simp add: read_cells_def)

lemma slot_bytes: "bytes_of_info (slot_info d s) = read_cells (boot_slot_address s) 8 d"
  by (simp add: slot_info_def)

lemma slot_read:
  assumes "valid_slot s"
  shows "boot_slot_read s (Some i) d = (BOOT_CONTROL_OK, Some (slot_info d s))"
proof -
  have "internal_flash_range_is_valid (boot_slot_address s) 8"
    using assms by (auto simp: valid_slot_def boot_slot_address_def internal_flash_range_is_valid_def)
  moreover have "overwrite 0 (read_cells a 8 d) (bytes_of_info i) = read_cells a 8 d" for a
    by (simp add: overwrite_def)
  ultimately show ?thesis
    using assms by (simp add: boot_slot_read_def internal_flash_read_def slot_info_def)
qed

lemma slot_read_state: "valid_slot s \<Longrightarrow> read_state s d = (slot_info d s, slot_state d s)"
  by (simp add: read_state_def slot_read)

lemma valid_slots [simp]: "valid_slot BOOT_SLOT_A" "valid_slot BOOT_SLOT_B" "\<not> valid_slot BOOT_SLOT_NONE"
  by (simp_all add: valid_slot_def)

lemma slot_address_offset:
  "valid_slot s \<Longrightarrow> k < 0x60000 \<Longrightarrow> unat (boot_slot_address s + of_nat k) = unat (boot_slot_address s) + k"
  by (rule unat_add_small) (auto simp: valid_slot_def boot_slot_address_def)

text \<open>The addresses of a slot, and those of its info bytes.\<close>

definition slot_cells :: "boot_slot_t \<Rightarrow> u32 set" where
  "slot_cells s = {x. in_range (boot_slot_address s) (unat BOOT_SLOT_SIZE) x}"

lemma slot_cells_disjoint: "valid_slot s \<Longrightarrow> valid_slot t \<Longrightarrow> s \<noteq> t \<Longrightarrow> x \<in> slot_cells s \<Longrightarrow> x \<notin> slot_cells t"
  by (auto simp: slot_cells_def in_range_def valid_slot_def boot_slot_address_def)

lemma same_slot_info:
  assumes "valid_slot s" "\<forall>x \<in> slot_cells s. mem d' x = mem d x"
  shows "slot_info d' s = slot_info d s"
proof -
  have "read_cells (boot_slot_address s) 8 d' = read_cells (boot_slot_address s) 8 d"
    using assms slot_address_offset [OF assms(1)]
    by (auto simp: read_cells_def slot_cells_def in_range_def)
  then show ?thesis by (simp add: slot_info_def)
qed

text \<open>
  What \<open>program_info\<close> does: outside the programmed bytes nothing changes, inside only bits are
  cleared, and OK means that the slot now holds the expected info.
\<close>

lemma program_info_effect:
  assumes s: "valid_slot s" and b: "offset + sz \<le> 8" "0 < sz" and p: "program_info s e offset sz d = (r, d')"
  shows "\<forall>x. \<not> in_range (boot_slot_address s + of_nat offset) sz x \<longrightarrow> mem d' x = mem d x"
    and "\<forall>x. mem d' x AND mem d x = mem d' x"
    and "r = BOOT_CONTROL_OK \<Longrightarrow> slot_info d' s = e"
proof -
  let ?a = "boot_slot_address s + of_nat offset" and ?bs = "drop offset (bytes_of_info e)"
  obtain r1 d1 where f: "internal_flash_program ?a (Some ?bs) (of_nat sz) d = (r1, d1)" by (metis surj_pair)
  have u: "unat (of_nat sz :: u32) = sz" using b by (simp add: unat_of_nat take_bit_nat_eq_self)
  have l: "unat (of_nat sz :: u32) \<le> length ?bs" using u b by simp
  have d: "d' = d1" using p f by (auto simp: program_info_def split: if_splits prod.splits)
  note eff = internal_program_programmed [OF f l]
  show "\<forall>x. \<not> in_range ?a sz x \<longrightarrow> mem d' x = mem d x"
    using eff d u b by (auto simp: programmed_def)
  show "\<forall>x. mem d' x AND mem d x = mem d' x"
    using eff d unfolding programmed_def by (auto simp: and_absorb split: if_splits)
  show "r = BOOT_CONTROL_OK \<Longrightarrow> slot_info d' s = e"
    using p f slot_read [OF s, of blank_info d1] d by (auto simp: program_info_def dest: arg_cong [of _ _ info_of_bytes] split: if_splits)
qed

text \<open>Byte \<open>k\<close> of the info.\<close>

lemma slot_byte:
  assumes "valid_slot s" "k < 8"
  shows "bytes_of_info (slot_info d s) ! k = mem d (boot_slot_address s + of_nat k)"
  using assms by (simp add: slot_bytes read_cells_def)

lemma program_info_bytes:
  assumes "valid_slot s" "offset + sz \<le> 8" "0 < sz" "program_info s e offset sz d = (r, d')" "k < 8" "k < offset \<or> offset + sz \<le> k"
  shows "bytes_of_info (slot_info d' s) ! k = bytes_of_info (slot_info d s) ! k"
proof -
  have "\<not> in_range (boot_slot_address s + of_nat offset) sz (boot_slot_address s + of_nat k)"
    using assms slot_address_offset [OF assms(1), of offset] slot_address_offset [OF assms(1), of k] by (auto simp: in_range_def)
  then show ?thesis using program_info_effect(1) [OF assms(1-4)] assms(1,5) by (simp add: slot_byte)
qed

lemma program_info_frame:
  assumes "valid_slot s" "offset + sz \<le> 8" "0 < sz" "program_info s e offset sz d = (r, d')"
    "\<not> in_range (boot_slot_address s) 8 x"
  shows "mem d' x = mem d x"
proof -
  have "\<not> in_range (boot_slot_address s + of_nat offset) sz x"
    using assms slot_address_offset [OF assms(1), of offset] by (auto simp: in_range_def)
  then show ?thesis using program_info_effect(1) [OF assms(1-4)] by simp
qed

lemma info_fields:
  "generation i = bytes_of_info i ! 4" "write_done i = bytes_of_info i ! 5"
  "boot_attempted i = bytes_of_info i ! 6" "boot_success i = bytes_of_info i ! 7"
  "magic i = join32 (bytes_of_info i ! 0) (bytes_of_info i ! 1) (bytes_of_info i ! 2) (bytes_of_info i ! 3)"
  by (simp_all add: bytes_of_info_def nth_append le32_def byte_simps [simplified])

section \<open>The life of a slot\<close>

text \<open>How the state of a slot may change; a failed write can also make a slot invalid, but never a confirmed one.\<close>

fun slot_transition :: "boot_slot_state_t \<Rightarrow> boot_slot_state_t \<Rightarrow> bool" where
  "slot_transition BOOT_SLOT_INVALID s = (s = BOOT_SLOT_INVALID \<or> s = BOOT_SLOT_PENDING)"
| "slot_transition BOOT_SLOT_PENDING s = (s = BOOT_SLOT_PENDING \<or> s = BOOT_SLOT_UNCONFIRMED \<or> s = BOOT_SLOT_INVALID)"
| "slot_transition BOOT_SLOT_UNCONFIRMED s = (s = BOOT_SLOT_UNCONFIRMED \<or> s = BOOT_SLOT_CONFIRMED \<or> s = BOOT_SLOT_INVALID)"
| "slot_transition BOOT_SLOT_CONFIRMED s = (s = BOOT_SLOT_CONFIRMED)"

lemma slot_transition_refl [simp]: "slot_transition s s"
  by (cases s) simp_all

datatype boot_op =
    Op_Initialize boot_slot_t u8
  | Op_Mark_Written boot_slot_t
  | Op_Mark_Attempted boot_slot_t
  | Op_Confirm boot_slot_t

fun op_slot :: "boot_op \<Rightarrow> boot_slot_t" where
  "op_slot (Op_Initialize s g) = s"
| "op_slot (Op_Mark_Written s) = s"
| "op_slot (Op_Mark_Attempted s) = s"
| "op_slot (Op_Confirm s) = s"

fun op_goal :: "boot_op \<Rightarrow> boot_slot_state_t" where
  "op_goal (Op_Initialize s g) = BOOT_SLOT_INVALID"
| "op_goal (Op_Mark_Written s) = BOOT_SLOT_PENDING"
| "op_goal (Op_Mark_Attempted s) = BOOT_SLOT_UNCONFIRMED"
| "op_goal (Op_Confirm s) = BOOT_SLOT_CONFIRMED"

fun run_op :: "boot_op \<Rightarrow> flash \<Rightarrow> boot_control_result_t \<times> flash" where
  "run_op (Op_Initialize s g) d = boot_slot_initialize s g d"
| "run_op (Op_Mark_Written s) d = boot_slot_mark_written s d"
| "run_op (Op_Mark_Attempted s) d = boot_slot_mark_attempted s d"
| "run_op (Op_Confirm s) d = boot_slot_confirm s d"

lemma list_update_info:
  "bytes_of_info (info_of_bytes ((bytes_of_info i)[k := v])) = (bytes_of_info i)[k := v]"
  by (rule bytes_info) simp

lemma join32_Suc: "join32 (byte_at 0 w) (byte_at (Suc 0) w) (byte_at (Suc (Suc 0)) w) (byte_at (Suc (Suc (Suc 0))) w) = w"
  using join32_byte_at [of w] by (simp add: numeral_eq_Suc)

lemma set_fields:
  "info_of_bytes ((bytes_of_info i)[5 := v]) = i\<lparr>write_done := v\<rparr>"
  "info_of_bytes ((bytes_of_info i)[6 := v]) = i\<lparr>boot_attempted := v\<rparr>"
  "info_of_bytes ((bytes_of_info i)[7 := v]) = i\<lparr>boot_success := v\<rparr>"
  by (simp_all add: bytes_of_info_def info_of_bytes_def le32_def numeral_eq_Suc join32_Suc)

text \<open>Programming a single state byte changes no other field.\<close>

lemma program_flag:
  assumes s: "valid_slot s" and k: "k = 5 \<or> k = 6 \<or> k = 7" and p: "program_info s e k 1 d = (r, d')"
  shows "magic (slot_info d' s) = magic (slot_info d s)" "generation (slot_info d' s) = generation (slot_info d s)"
    and "k \<noteq> 5 \<Longrightarrow> write_done (slot_info d' s) = write_done (slot_info d s)"
    and "k \<noteq> 6 \<Longrightarrow> boot_attempted (slot_info d' s) = boot_attempted (slot_info d s)"
    and "k \<noteq> 7 \<Longrightarrow> boot_success (slot_info d' s) = boot_success (slot_info d s)"
    and "r = BOOT_CONTROL_OK \<Longrightarrow> slot_info d' s = e"
    and "\<forall>x. \<not> in_range (boot_slot_address s) 8 x \<longrightarrow> mem d' x = mem d x"
proof -
  have b: "k + 1 \<le> 8" "0 < (1 :: nat)" using k by auto
  have o: "bytes_of_info (slot_info d' s) ! j = bytes_of_info (slot_info d s) ! j" if "j < 8" "j \<noteq> k" for j
    using program_info_bytes [OF s b p, of j] that by (cases "j < k") auto
  show "magic (slot_info d' s) = magic (slot_info d s)" "generation (slot_info d' s) = generation (slot_info d s)"
    "k \<noteq> 5 \<Longrightarrow> write_done (slot_info d' s) = write_done (slot_info d s)"
    "k \<noteq> 6 \<Longrightarrow> boot_attempted (slot_info d' s) = boot_attempted (slot_info d s)"
    "k \<noteq> 7 \<Longrightarrow> boot_success (slot_info d' s) = boot_success (slot_info d s)"
    using k by (auto simp: info_fields o)
  show "r = BOOT_CONTROL_OK \<Longrightarrow> slot_info d' s = e" by (rule program_info_effect(3) [OF s b p])
  show "\<forall>x. \<not> in_range (boot_slot_address s) 8 x \<longrightarrow> mem d' x = mem d x" using program_info_frame [OF s b p] by blast
qed

lemma mark_cases:
  assumes "valid_slot s"
  shows "mark s k d =
    (let i = slot_info d s; st = slot_state d s;
         go = program_info s (info_of_bytes ((bytes_of_info i)[k := BOOT_FLAG_SET])) k 1 d in
     if k = 5 then (if st = BOOT_SLOT_PENDING then (BOOT_CONTROL_OK, d)
        else if \<not> initialized i \<or> write_done i \<noteq> BOOT_FLAG_ERASED \<or> boot_attempted i \<noteq> BOOT_FLAG_ERASED \<or> boot_success i \<noteq> BOOT_FLAG_ERASED
        then (BOOT_CONTROL_STATE_ERROR, d) else go)
     else if k = 6 then (if st = BOOT_SLOT_UNCONFIRMED then (BOOT_CONTROL_OK, d)
        else if st \<noteq> BOOT_SLOT_PENDING then (BOOT_CONTROL_STATE_ERROR, d) else go)
     else (if st = BOOT_SLOT_CONFIRMED then (BOOT_CONTROL_OK, d)
        else if st \<noteq> BOOT_SLOT_UNCONFIRMED then (BOOT_CONTROL_STATE_ERROR, d) else go))"
  using slot_read [OF assms, of blank_info d] by (simp add: mark_def Let_def)

lemma mark_invalid_slot: "\<not> valid_slot s \<Longrightarrow> mark s k d = (BOOT_CONTROL_ARGUMENT, d)"
  by (simp add: mark_def boot_slot_read_def)

lemma initialized_cong: "magic i = magic j \<Longrightarrow> generation i = generation j \<Longrightarrow> initialized i = initialized j"
  by (simp add: initialized_def)

lemma mark_effect:
  assumes s: "valid_slot s" and k: "k = 5 \<or> k = 6 \<or> k = 7" and m: "mark s k d = (r, d')"
  shows "(\<forall>x. \<not> in_range (boot_slot_address s) 8 x \<longrightarrow> mem d' x = mem d x) \<and>
    slot_transition (slot_state d s) (slot_state d' s) \<and>
    generation (slot_info d' s) = generation (slot_info d s) \<and>
    (r = BOOT_CONTROL_OK \<longrightarrow> slot_state d' s = (if k = 5 then BOOT_SLOT_PENDING else if k = 6 then BOOT_SLOT_UNCONFIRMED else BOOT_SLOT_CONFIRMED))"
proof (cases "d' = d \<and> (r = BOOT_CONTROL_OK \<longrightarrow> slot_state d s = (if k = 5 then BOOT_SLOT_PENDING else if k = 6 then BOOT_SLOT_UNCONFIRMED else BOOT_SLOT_CONFIRMED))")
  case True
  then show ?thesis by auto
next
  case False
  let ?i = "slot_info d s" and ?j = "slot_info d' s"
  let ?e = "info_of_bytes ((bytes_of_info ?i)[k := BOOT_FLAG_SET])"
  have go: "program_info s ?e k 1 d = (r, d')"
    using m False k unfolding mark_cases [OF s] Let_def by (auto split: if_splits)
  have pre: "(k = 5 \<and> initialized ?i \<and> write_done ?i = 0xFF \<and> boot_attempted ?i = 0xFF \<and> boot_success ?i = 0xFF) \<or>
      (k = 6 \<and> slot_state d s = BOOT_SLOT_PENDING) \<or> (k = 7 \<and> slot_state d s = BOOT_SLOT_UNCONFIRMED)"
    using m False k unfolding mark_cases [OF s] Let_def by (auto split: if_splits)
  note f = program_flag [OF s k go]
  have i: "initialized ?j = initialized ?i" using f(1,2) by (rule initialized_cong)
  have t: "slot_transition (slot_state d s) (slot_state d' s)"
    using pre i f(3-5) by (auto simp: boot_slot_state_def split: if_splits)
  have g: "r = BOOT_CONTROL_OK \<longrightarrow> slot_state d' s = (if k = 5 then BOOT_SLOT_PENDING else if k = 6 then BOOT_SLOT_UNCONFIRMED else BOOT_SLOT_CONFIRMED)"
    using pre f(6) by (auto simp: set_fields boot_slot_state_def initialized_def split: if_splits)
  show ?thesis using f(2,7) t g by blast
qed

lemma initialize_effect:
  assumes s: "valid_slot s" and m: "boot_slot_initialize s g d = (r, d')"
  shows "(\<forall>x. \<not> in_range (boot_slot_address s) 8 x \<longrightarrow> mem d' x = mem d x) \<and>
    slot_transition (slot_state d s) (slot_state d' s) \<and>
    (r = BOOT_CONTROL_OK \<longrightarrow> slot_info d' s = \<lparr>magic = BOOT_SLOT_MAGIC, generation = g, write_done = 0xFF, boot_attempted = 0xFF, boot_success = 0xFF\<rparr> \<and>
       g < 3 \<and> (\<forall>k < 512. mem d (boot_slot_address s + of_nat k) = 0xFF))"
proof (cases "d' = d \<and> r \<noteq> BOOT_CONTROL_OK")
  case True
  then show ?thesis by auto
next
  case False
  let ?e = "\<lparr>magic = BOOT_SLOT_MAGIC, generation = g, write_done = 0xFF, boot_attempted = 0xFF, boot_success = 0xFF\<rparr>"
  have v: "internal_flash_range_is_valid (boot_slot_address s) BOOT_SLOT_HEADER_SIZE"
    using s by (auto simp: valid_slot_def boot_slot_address_def internal_flash_range_is_valid_def)
  have er: "internal_flash_is_erased (boot_slot_address s) BOOT_SLOT_HEADER_SIZE (Some False) d =
      (INTERNAL_FLASH_RESULT_OK, Some (\<forall>k < 512. mem d (boot_slot_address s + of_nat k) = 0xFF))"
    using is_erased_result [OF v, of False d] by simp
  have go: "program_info s ?e 0 5 d = (r, d')" "g < 3" and e: "\<forall>k < 512. mem d (boot_slot_address s + of_nat k) = 0xFF"
    using m False s er by (auto simp: boot_slot_initialize_def not_le split: if_splits)
  have b: "(0 :: nat) + 5 \<le> 8" "0 < (5 :: nat)" by simp_all
  have "bytes_of_info (slot_info d s) ! k = 0xFF" if "k < 8" for k using e that s by (simp add: slot_byte)
  then have w: "write_done (slot_info d s) = 0xFF" "write_done (slot_info d' s) = 0xFF"
    using program_info_bytes [OF s b go(1), of 5] by (simp_all add: info_fields)
  then have st: "slot_state d s = BOOT_SLOT_INVALID" "slot_state d' s = BOOT_SLOT_INVALID" by (simp_all add: boot_slot_state_def)
  show ?thesis
    using program_info_frame [OF s b go(1)] program_info_effect(3) [OF s b go(1)] st go(2) e by auto
qed

lemma run_op_effect:
  assumes r: "run_op op d = (r, d')" and s: "valid_slot (op_slot op)"
  shows "(\<forall>x. \<not> in_range (boot_slot_address (op_slot op)) 8 x \<longrightarrow> mem d' x = mem d x) \<and>
    slot_transition (slot_state d (op_slot op)) (slot_state d' (op_slot op)) \<and>
    (r = BOOT_CONTROL_OK \<longrightarrow> slot_state d' (op_slot op) = op_goal op)"
proof (cases op)
  case (Op_Initialize t g)
  then show ?thesis using initialize_effect [of t g d r d'] r s by (auto simp: boot_slot_state_def)
next
  case (Op_Mark_Written t)
  then show ?thesis using mark_effect [of t 5 d r d'] r s by (simp add: boot_slot_mark_written_def)
next
  case (Op_Mark_Attempted t)
  then show ?thesis using mark_effect [of t 6 d r d'] r s by (simp add: boot_slot_mark_attempted_def)
next
  case (Op_Confirm t)
  then show ?thesis using mark_effect [of t 7 d r d'] r s by (simp add: boot_slot_confirm_def)
qed

lemma run_op_invalid_slot: "\<not> valid_slot (op_slot op) \<Longrightarrow> snd (run_op op d) = d"
  by (cases op)
     (simp_all add: boot_slot_initialize_def boot_slot_mark_written_def boot_slot_mark_attempted_def boot_slot_confirm_def mark_invalid_slot)

lemma run_op_other_slot:
  assumes "run_op op d = (r, d')" "valid_slot t" "t \<noteq> op_slot op"
  shows "\<forall>x \<in> slot_cells t. mem d' x = mem d x"
proof (cases "valid_slot (op_slot op)")
  case True
  have "\<not> in_range (boot_slot_address (op_slot op)) 8 x" if "x \<in> slot_cells t" for x
    using slot_cells_disjoint [OF assms(2) True assms(3) that] by (auto simp: slot_cells_def in_range_def)
  then show ?thesis using run_op_effect [OF assms(1) True] by blast
next
  case False
  then show ?thesis using run_op_invalid_slot [of op d] assms(1) by simp
qed


section \<open>Choosing the slot to overwrite\<close>

lemma upgrade_target_result:
  "boot_slot_upgrade_target (Some x) (Some y) d =
    (let keep = (if slot_state d BOOT_SLOT_A = BOOT_SLOT_CONFIRMED \<or> slot_state d BOOT_SLOT_B = BOOT_SLOT_CONFIRMED
                 then (if slot_state d BOOT_SLOT_A = slot_state d BOOT_SLOT_B then newer (slot_info d BOOT_SLOT_A) (slot_info d BOOT_SLOT_B)
                       else if slot_state d BOOT_SLOT_A = BOOT_SLOT_CONFIRMED then BOOT_SLOT_A else BOOT_SLOT_B)
                 else if slot_state d BOOT_SLOT_A = BOOT_SLOT_PENDING \<or> slot_state d BOOT_SLOT_B = BOOT_SLOT_PENDING
                 then (if slot_state d BOOT_SLOT_A = slot_state d BOOT_SLOT_B then newer (slot_info d BOOT_SLOT_A) (slot_info d BOOT_SLOT_B)
                       else if slot_state d BOOT_SLOT_A = BOOT_SLOT_PENDING then BOOT_SLOT_A else BOOT_SLOT_B)
                 else BOOT_SLOT_NONE)
     in (BOOT_CONTROL_OK, Some (if keep = BOOT_SLOT_A then BOOT_SLOT_B else BOOT_SLOT_A),
         Some (if keep = BOOT_SLOT_NONE then 0 else of_nat ((unat (generation (slot_info d keep)) + 1) mod 3))))"
  by (auto simp: boot_slot_upgrade_target_def slot_read Let_def newer_def)

fun opposite_slot :: "boot_slot_t \<Rightarrow> boot_slot_t" where
  "opposite_slot BOOT_SLOT_A = BOOT_SLOT_B"
| "opposite_slot BOOT_SLOT_B = BOOT_SLOT_A"
| "opposite_slot BOOT_SLOT_NONE = BOOT_SLOT_NONE"

lemma newer_slot: "newer i j = BOOT_SLOT_A \<or> newer i j = BOOT_SLOT_B"
  by (simp add: newer_def)

lemma confirmed_generation: "slot_state d s = BOOT_SLOT_CONFIRMED \<Longrightarrow> unat (generation (slot_info d s)) < 3"
  by (auto simp: boot_slot_state_def initialized_def word_less_nat_alt split: if_splits)

text \<open>When a slot is confirmed, the target is the slot beside a confirmed one, with the following generation.\<close>

lemma upgrade_target_keeps_confirmed:
  assumes c: "slot_state d BOOT_SLOT_A = BOOT_SLOT_CONFIRMED \<or> slot_state d BOOT_SLOT_B = BOOT_SLOT_CONFIRMED"
    and t: "boot_slot_upgrade_target (Some x) (Some y) d = (r, Some t, Some g)"
  shows "r = BOOT_CONTROL_OK \<and> valid_slot t \<and> slot_state d (opposite_slot t) = BOOT_SLOT_CONFIRMED \<and>
    unat g = (unat (generation (slot_info d (opposite_slot t))) + 1) mod 3"
proof -
  let ?A = "BOOT_SLOT_A" and ?B = "BOOT_SLOT_B"
  define keep where "keep = (if slot_state d ?A = slot_state d ?B then newer (slot_info d ?A) (slot_info d ?B)
     else if slot_state d ?A = BOOT_SLOT_CONFIRMED then ?A else ?B)"
  have k: "(keep = ?A \<or> keep = ?B) \<and> slot_state d keep = BOOT_SLOT_CONFIRMED"
    using c newer_slot [of "slot_info d ?A" "slot_info d ?B"] by (auto simp: keep_def)
  have "(r, Some t, Some g) = (BOOT_CONTROL_OK, Some (if keep = ?A then ?B else ?A),
         Some (if keep = BOOT_SLOT_NONE then 0 else of_nat ((unat (generation (slot_info d keep)) + 1) mod 3)))"
    using c unfolding t [symmetric] upgrade_target_result Let_def keep_def [symmetric] by simp
  moreover have "(unat (generation (slot_info d keep)) + 1) mod 3 < 256" by (rule less_trans [of _ 3]) simp_all
  ultimately show ?thesis using k by (auto simp: unat_of_nat take_bit_nat_eq_self)
qed

text \<open>
  The device: API calls of the application and the boot loader, a boot loader that writes anything it
  likes into the slot \<open>boot_slot_upgrade_target\<close> gives it, and any new behaviour of the flash controller.
\<close>

inductive device_step :: "flash \<Rightarrow> flash \<Rightarrow> bool" where
  api_call: "run_op op d = (r, d') \<Longrightarrow> device_step d d'"
| overwrite_target: "boot_slot_upgrade_target (Some x) (Some y) d = (BOOT_CONTROL_OK, Some t, Some g) \<Longrightarrow>
    \<forall>a. a \<notin> slot_cells t \<longrightarrow> mem d' a = mem d a \<Longrightarrow> device_step d d'"
| new_outcomes: "mem d' = mem d \<Longrightarrow> device_step d d'"

inductive_cases device_stepE: "device_step d d'"

definition some_confirmed :: "flash \<Rightarrow> bool" where
  "some_confirmed d \<longleftrightarrow> slot_state d BOOT_SLOT_A = BOOT_SLOT_CONFIRMED \<or> slot_state d BOOT_SLOT_B = BOOT_SLOT_CONFIRMED"

lemma run_op_keeps_confirmed:
  assumes "run_op op d = (r, d')" "valid_slot t" "slot_state d t = BOOT_SLOT_CONFIRMED"
  shows "slot_state d' t = BOOT_SLOT_CONFIRMED"
proof (cases "t = op_slot op")
  case True
  then show ?thesis using run_op_effect [OF assms(1)] assms(2,3) by auto
next
  case False
  then show ?thesis using same_slot_info [OF assms(2) run_op_other_slot [OF assms(1,2) False]] assms(3) by simp
qed

lemma device_step_confirmed: "device_step d d' \<Longrightarrow> some_confirmed d \<Longrightarrow> some_confirmed d'"
proof (induction rule: device_step.induct)
  case (api_call op d r d')
  then show ?case using run_op_keeps_confirmed [OF api_call(1)] by (auto simp: some_confirmed_def)
next
  case (overwrite_target x y d t g d')
  then have t: "valid_slot t" "slot_state d (opposite_slot t) = BOOT_SLOT_CONFIRMED"
    using upgrade_target_keeps_confirmed unfolding some_confirmed_def by blast+
  then have o: "valid_slot (opposite_slot t)" "opposite_slot t \<noteq> t" by (auto simp: valid_slot_def)
  have "\<forall>a \<in> slot_cells (opposite_slot t). mem d' a = mem d a"
    using overwrite_target(2) slot_cells_disjoint [OF o(1) t(1) o(2)] by blast
  from same_slot_info [OF o(1) this] have "slot_state d' (opposite_slot t) = BOOT_SLOT_CONFIRMED" using t(2) by simp
  then show ?case using t(1) by (auto simp: some_confirmed_def valid_slot_def)
next
  case (new_outcomes d' d)
  then have "slot_info d' s = slot_info d s" for s by (simp add: slot_info_def read_cells_def)
  then show ?case using new_outcomes by (simp add: some_confirmed_def)
qed

lemma device_reachable_confirmed: "device_step\<^sup>*\<^sup>* d d' \<Longrightarrow> some_confirmed d \<Longrightarrow> some_confirmed d'"
  by (induction rule: rtranclp_induct) (auto intro: device_step_confirmed)

section \<open>The boot order\<close>

lemma boot_candidates_eq:
  "boot_candidates d =
    (let a = slot_state d BOOT_SLOT_A; b = slot_state d BOOT_SLOT_B;
         ca = \<lparr>candidate_slot = BOOT_SLOT_A, candidate_state = a\<rparr>; cb = \<lparr>candidate_slot = BOOT_SLOT_B, candidate_state = b\<rparr> in
     if candidate a \<and> candidate b then
       (if (generation (slot_info d BOOT_SLOT_A) = generation (slot_info d BOOT_SLOT_B) \<and> b = BOOT_SLOT_CONFIRMED \<and> a \<noteq> BOOT_SLOT_CONFIRMED) \<or>
           newer (slot_info d BOOT_SLOT_A) (slot_info d BOOT_SLOT_B) = BOOT_SLOT_B
        then [cb, ca] else [ca, cb])
     else (if candidate a then [ca] else []) @ (if candidate b then [cb] else []))"
  by (auto simp: boot_candidates_def slot_read_state Let_def)

lemma confirmed_is_candidate:
  assumes "valid_slot s" "slot_state d s = BOOT_SLOT_CONFIRMED"
  shows "\<lparr>candidate_slot = s, candidate_state = BOOT_SLOT_CONFIRMED\<rparr> \<in> set (boot_candidates d)"
  using assms by (auto simp: boot_candidates_eq Let_def candidate_def valid_slot_def)

lemma generation_order:
  fixes k t :: u8
  assumes "unat k < 3" "unat t = (unat k + 1) mod 3"
  shows "unat k \<noteq> (unat t + 1) mod 3" "k \<noteq> t"
proof -
  have "unat k = 0 \<or> unat k = 1 \<or> unat k = 2" using assms(1) by auto
  then show "unat k \<noteq> (unat t + 1) mod 3" "k \<noteq> t" using assms(2) by (auto simp: word_unat_eq_iff)
qed

lemma order_after_write:
  assumes k: "valid_slot k" "slot_state d k = BOOT_SLOT_CONFIRMED" and t: "t = opposite_slot k" "candidate (slot_state d t)"
    and g: "unat (generation (slot_info d t)) = (unat (generation (slot_info d k)) + 1) mod 3"
  shows "boot_candidates d = [\<lparr>candidate_slot = t, candidate_state = slot_state d t\<rparr>, \<lparr>candidate_slot = k, candidate_state = BOOT_SLOT_CONFIRMED\<rparr>]"
proof -
  note o = generation_order [OF confirmed_generation [OF k(2)] g]
  show ?thesis
    using k t g o by (auto simp: boot_candidates_eq Let_def candidate_def valid_slot_def newer_def)
qed

lemma order_single:
  assumes "valid_slot k" "candidate (slot_state d k)" "\<not> candidate (slot_state d (opposite_slot k))"
  shows "boot_candidates d = [\<lparr>candidate_slot = k, candidate_state = slot_state d k\<rparr>]"
  using assms by (auto simp: boot_candidates_eq Let_def valid_slot_def)


section \<open>Progress without faults\<close>

lemma program_loop_no_faults: "script d = [] \<Longrightarrow> fst (program_loop a source d) = HAL_OK \<and> script (snd (program_loop a source d)) = []"
proof (induction a source d rule: program_loop.induct)
  case (1 a source d)
  show ?case
  proof (cases "source = []")
    case False
    obtain t and data :: u32 where td: "(t, data) =
      (if a AND 3 = 0 \<and> length source \<ge> 4
       then (FLASH_TYPEPROGRAM_WORD,
             ucast (source ! 0) OR push_bit 8 (ucast (source ! 1)) OR push_bit 16 (ucast (source ! 2)) OR
             push_bit 24 (ucast (source ! 3)))
       else if a AND 1 = 0 \<and> length source \<ge> 2
       then (FLASH_TYPEPROGRAM_HALFWORD, ucast (source ! 0) OR push_bit 8 (ucast (source ! 1)))
       else (FLASH_TYPEPROGRAM_BYTE, ucast (source ! 0)))"
      by (metis surj_pair)
    obtain s1 d1 where h: "HAL_FLASH_Program t a data d = (s1, d1)" by (metis surj_pair)
    then have ok: "s1 = HAL_OK" "script d1 = []"
      using 1(2) by (auto simp: HAL_FLASH_Program_def FLASH_WaitForLastOperation_def next_outcome_def)
    have e: "program_loop a source d = program_loop (a + of_nat (program_width t)) (drop (program_width t) source) d1"
      using False ok unfolding program_loop.simps [of a source d] td [symmetric] by (simp add: h Let_def)
    show ?thesis
      unfolding e using 1(1) [OF False td refl refl h [symmetric] _ ok(2)] ok(1) by simp
  qed (use 1(2) in \<open>simp add: program_loop.simps\<close>)
qed

lemma internal_program_no_faults:
  assumes "script d = []" "n \<noteq> 0" "internal_flash_range_is_valid a n"
  shows "fst (internal_flash_program a (Some bs) n d) = INTERNAL_FLASH_RESULT_OK \<and> script (snd (internal_flash_program a (Some bs) n d)) = []"
proof -
  have u: "HAL_FLASH_Unlock d = (HAL_OK, d)" using assms(1) by (simp add: HAL_FLASH_Unlock_def next_outcome_def)
  obtain s d1 where l: "program_loop a (take (unat n) bs) d = (s, d1)" by (metis surj_pair)
  then have "s = HAL_OK" "script d1 = []" using program_loop_no_faults [OF assms(1), of a "take (unat n) bs"] by simp_all
  then show ?thesis using assms u l by (simp add: internal_flash_program_def HAL_FLASH_Lock_def)
qed

lemma program_info_success:
  assumes s: "valid_slot s" and b: "offset + sz \<le> 8" "0 < sz" and sc: "script d = []"
    and i: "\<And>k. k < 8 \<Longrightarrow> bytes_of_info e ! k = (if offset \<le> k \<and> k < offset + sz
      then bytes_of_info (slot_info d s) ! k AND bytes_of_info e ! k else bytes_of_info (slot_info d s) ! k)"
  shows "fst (program_info s e offset sz d) = BOOT_CONTROL_OK \<and> script (snd (program_info s e offset sz d)) = []"
proof -
  let ?a = "boot_slot_address s + of_nat offset" and ?bs = "drop offset (bytes_of_info e)" and ?n = "of_nat sz :: u32"
  have u: "unat ?n = sz" using b by (simp add: unat_of_nat take_bit_nat_eq_self)
  then have n: "?n \<noteq> 0" using b by (metis less_numeral_extra(3) unat_0)
  have v: "internal_flash_range_is_valid ?a ?n"
  proof -
    have ua: "unat ?a = unat (boot_slot_address s) + offset" using s b by (intro slot_address_offset) auto
    have "boot_slot_address s = 0x08020000 \<or> boot_slot_address s = 0x08080000" using s by (auto simp: valid_slot_def boot_slot_address_def)
    then have r: "0x08000000 \<le> unat ?a" "unat ?a \<le> 0x08080008" using ua b by auto
    then have le: "?a \<le> FLASH_END" "FLASH_BASE \<le> ?a" by (simp_all add: word_le_nat_alt)
    have "unat (FLASH_END - ?a) = unat FLASH_END - unat ?a" using le(1) by (rule unat_sub)
    then have "sz \<le> unat (FLASH_END - ?a + 1)" using r b unat_plus_1 [of "FLASH_END - ?a"] by simp
    then show ?thesis using le u by (simp add: internal_flash_range_is_valid_def word_le_nat_alt)
  qed
  obtain d1 where f: "internal_flash_program ?a (Some ?bs) ?n d = (INTERNAL_FLASH_RESULT_OK, d1)" "script d1 = []"
    using internal_program_no_faults [OF sc n v, of ?bs] by (metis prod.collapse)
  have p: "programmed ?a (take sz ?bs) d HAL_OK d1"
    using internal_program_programmed [OF f(1)] u b by simp
  have "slot_info d1 s = e"
  proof -
    have "bytes_of_info (slot_info d1 s) ! k = bytes_of_info e ! k" if k: "k < 8" for k
    proof -
      let ?x = "boot_slot_address s + of_nat k"
      have "in_range ?a sz ?x \<longleftrightarrow> offset \<le> k \<and> k < offset + sz" "unat ?x - unat ?a = k - offset"
        using slot_address_offset [OF s, of offset] slot_address_offset [OF s, of k] b k by (auto simp: in_range_def)
      moreover have "length (take sz ?bs) = sz" using b by simp
      ultimately have "mem d1 ?x = (if offset \<le> k \<and> k < offset + sz then mem d ?x AND bytes_of_info e ! k else mem d ?x)"
        using p [unfolded programmed_def, rule_format, of ?x] b k by auto
      moreover have "bytes_of_info e ! k = (if offset \<le> k \<and> k < offset + sz then mem d ?x AND bytes_of_info e ! k else mem d ?x)"
        using i [OF k] unfolding slot_byte [OF s k] .
      ultimately show ?thesis unfolding slot_byte [OF s k] by (rule trans [OF _ sym])
    qed
    then have "bytes_of_info (slot_info d1 s) = bytes_of_info e" by (intro nth_equalityI) simp_all
    then show ?thesis by (metis info_bytes)
  qed
  then show ?thesis using f slot_read [OF s, of blank_info d1] by (simp add: program_info_def)
qed

lemma initialize_success:
  assumes s: "valid_slot s" and g: "g < 3" and sc: "script d = []" and e: "\<forall>k < 512. mem d (boot_slot_address s + of_nat k) = 0xFF"
  shows "fst (boot_slot_initialize s g d) = BOOT_CONTROL_OK \<and> script (snd (boot_slot_initialize s g d)) = []"
proof -
  let ?e = "\<lparr>magic = BOOT_SLOT_MAGIC, generation = g, write_done = 0xFF, boot_attempted = 0xFF, boot_success = 0xFF\<rparr>"
  have v: "internal_flash_range_is_valid (boot_slot_address s) BOOT_SLOT_HEADER_SIZE"
    using s by (auto simp: valid_slot_def boot_slot_address_def internal_flash_range_is_valid_def)
  have er: "internal_flash_is_erased (boot_slot_address s) BOOT_SLOT_HEADER_SIZE (Some False) d = (INTERNAL_FLASH_RESULT_OK, Some True)"
    using is_erased_result [OF v, of False d] e by simp
  have i: "bytes_of_info ?e ! k = (if 0 \<le> k \<and> k < 0 + 5
      then bytes_of_info (slot_info d s) ! k AND bytes_of_info ?e ! k else bytes_of_info (slot_info d s) ! k)" if "k < 8" for k
  proof -
    have "bytes_of_info (slot_info d s) ! k = 0xFF" using e that s by (simp add: slot_byte)
    moreover have "bytes_of_info ?e ! k = 0xFF" if "5 \<le> k"
      using that \<open>k < 8\<close> by (auto simp: bytes_of_info_def le32_def less_Suc_eq numeral_eq_Suc)
    ultimately show ?thesis by auto
  qed
  have "fst (program_info s ?e 0 5 d) = BOOT_CONTROL_OK \<and> script (snd (program_info s ?e 0 5 d)) = []"
    by (rule program_info_success [OF s _ _ sc i]) simp_all
  then show ?thesis using s g er by (simp add: boot_slot_initialize_def not_le)
qed

text \<open>The stage an operation starts from.\<close>

fun op_ready :: "boot_op \<Rightarrow> flash \<Rightarrow> bool" where
  "op_ready (Op_Initialize s g) d = (g < 3 \<and> (\<forall>k < 512. mem d (boot_slot_address s + of_nat k) = 0xFF))"
| "op_ready (Op_Mark_Written s) d = (initialized (slot_info d s) \<and> write_done (slot_info d s) = 0xFF \<and>
     boot_attempted (slot_info d s) = 0xFF \<and> boot_success (slot_info d s) = 0xFF)"
| "op_ready (Op_Mark_Attempted s) d = (slot_state d s = BOOT_SLOT_PENDING)"
| "op_ready (Op_Confirm s) d = (slot_state d s = BOOT_SLOT_UNCONFIRMED)"

lemma flag_success:
  assumes s: "valid_slot s" and k: "k = 5 \<or> k = 6 \<or> k = 7" and sc: "script d = []"
    and e: "bytes_of_info (slot_info d s) ! k = 0xFF"
  shows "fst (program_info s (info_of_bytes ((bytes_of_info (slot_info d s))[k := BOOT_FLAG_SET])) k 1 d) = BOOT_CONTROL_OK \<and>
    script (snd (program_info s (info_of_bytes ((bytes_of_info (slot_info d s))[k := BOOT_FLAG_SET])) k 1 d)) = []"
proof (rule program_info_success [OF s _ _ sc])
  fix j :: nat
  assume j: "j < 8"
  show "bytes_of_info (info_of_bytes ((bytes_of_info (slot_info d s))[k := BOOT_FLAG_SET])) ! j =
    (if k \<le> j \<and> j < k + 1 then bytes_of_info (slot_info d s) ! j AND
        bytes_of_info (info_of_bytes ((bytes_of_info (slot_info d s))[k := BOOT_FLAG_SET])) ! j
     else bytes_of_info (slot_info d s) ! j)"
    using j k e by (cases "j = k") (auto simp: list_update_info nth_list_update)
qed (use k in auto)

lemma run_op_success:
  assumes s: "valid_slot (op_slot op)" and sc: "script d = []" and r: "op_ready op d"
  shows "fst (run_op op d) = BOOT_CONTROL_OK \<and> script (snd (run_op op d)) = []"
proof (cases op)
  case (Op_Initialize t g)
  then show ?thesis using initialize_success [of t g d] assms by simp
next
  case (Op_Mark_Written t)
  then show ?thesis using flag_success [of t 5 d] assms
    by (auto simp: boot_slot_mark_written_def mark_cases Let_def boot_slot_state_def info_fields)
next
  case (Op_Mark_Attempted t)
  then have "boot_attempted (slot_info d t) = 0xFF" using r by (auto simp: boot_slot_state_def split: if_splits)
  then show ?thesis using Op_Mark_Attempted flag_success [of t 6 d] assms
    by (auto simp: boot_slot_mark_attempted_def mark_cases Let_def info_fields)
next
  case (Op_Confirm t)
  then have "boot_success (slot_info d t) = 0xFF" using r by (auto simp: boot_slot_state_def split: if_splits)
  then show ?thesis using Op_Confirm flag_success [of t 7 d] assms
    by (auto simp: boot_slot_confirm_def mark_cases Let_def info_fields)
qed

section \<open>Witnesses\<close>

definition example_flash :: flash where
  "example_flash = \<lparr>mem = (\<lambda>a. if in_range BOOT_SLOT_A_ADDRESS 8 a
     then bytes_of_info \<lparr>magic = BOOT_SLOT_MAGIC, generation = 2, write_done = 1, boot_attempted = 1, boot_success = 1\<rparr> ! (unat a - unat BOOT_SLOT_A_ADDRESS)
     else 0xFF), script = []\<rparr>"

lemma example_slot_A: "slot_info example_flash BOOT_SLOT_A = \<lparr>magic = BOOT_SLOT_MAGIC, generation = 2, write_done = 1, boot_attempted = 1, boot_success = 1\<rparr>"
proof -
  let ?i = "\<lparr>magic = BOOT_SLOT_MAGIC, generation = 2, write_done = 1, boot_attempted = 1, boot_success = 1\<rparr>"
  have "read_cells (boot_slot_address BOOT_SLOT_A) 8 example_flash = bytes_of_info ?i"
    using slot_address_offset [of BOOT_SLOT_A]
    by (intro nth_equalityI) (auto simp: read_cells_def example_flash_def boot_slot_address_def in_range_def)
  then show ?thesis by (simp add: slot_info_def)
qed

lemma example_erased_B: "\<forall>k < 512. mem example_flash (boot_slot_address BOOT_SLOT_B + of_nat k) = 0xFF"
  using slot_address_offset [of BOOT_SLOT_B] by (auto simp: example_flash_def in_range_def boot_slot_address_def)

lemma example_slot_B: "slot_state example_flash BOOT_SLOT_B = BOOT_SLOT_INVALID"
proof -
  have "write_done (slot_info example_flash BOOT_SLOT_B) = 0xFF"
    using example_erased_B [rule_format, of 5] by (simp add: info_fields slot_byte)
  then show ?thesis by (simp add: boot_slot_state_def)
qed

lemma example_A_confirmed: "slot_state example_flash BOOT_SLOT_A = BOOT_SLOT_CONFIRMED"
  by (simp add: example_slot_A boot_slot_state_def initialized_def)

lemma example_confirmed: "some_confirmed example_flash"
  by (simp add: some_confirmed_def example_A_confirmed)

lemma example_target: "boot_slot_upgrade_target (Some BOOT_SLOT_NONE) (Some 7) example_flash = (BOOT_CONTROL_OK, Some BOOT_SLOT_B, Some 0)"
  using example_A_confirmed example_slot_B by (simp add: upgrade_target_result Let_def example_slot_A)

definition example_initialized :: flash where
  "example_initialized = snd (boot_slot_initialize BOOT_SLOT_B 0 example_flash)"

definition example_written :: flash where
  "example_written = snd (boot_slot_mark_written BOOT_SLOT_B example_initialized)"

definition example_attempted :: flash where
  "example_attempted = snd (boot_slot_mark_attempted BOOT_SLOT_B example_written)"

lemma example_init: "boot_slot_initialize BOOT_SLOT_B 0 example_flash = (BOOT_CONTROL_OK, example_initialized)" "script example_initialized = []"
  using run_op_success [of "Op_Initialize BOOT_SLOT_B 0" example_flash] example_erased_B
  by (simp_all add: example_flash_def example_initialized_def prod_eq_iff)

lemma example_write: "boot_slot_mark_written BOOT_SLOT_B example_initialized = (BOOT_CONTROL_OK, example_written)" "script example_written = []"
  using run_op_success [of "Op_Mark_Written BOOT_SLOT_B" example_initialized] example_init initialize_effect [OF valid_slots(2) example_init(1)]
  by (simp_all add: example_written_def prod_eq_iff initialized_def)

lemma example_pending: "slot_state example_written BOOT_SLOT_B = BOOT_SLOT_PENDING"
  using run_op_effect [of "Op_Mark_Written BOOT_SLOT_B"] example_write by simp

lemma example_attempt: "boot_slot_mark_attempted BOOT_SLOT_B example_written = (BOOT_CONTROL_OK, example_attempted)" "script example_attempted = []"
  using run_op_success [of "Op_Mark_Attempted BOOT_SLOT_B" example_written] example_write example_pending
  by (simp_all add: example_attempted_def prod_eq_iff)

lemma example_unconfirmed: "slot_state example_attempted BOOT_SLOT_B = BOOT_SLOT_UNCONFIRMED"
  using run_op_effect [of "Op_Mark_Attempted BOOT_SLOT_B"] example_attempt by simp

lemma example_confirm: "\<exists>d. boot_slot_confirm BOOT_SLOT_B example_attempted = (BOOT_CONTROL_OK, d)"
  using run_op_success [of "Op_Confirm BOOT_SLOT_B" example_attempted] example_attempt example_unconfirmed
  by (simp add: prod_eq_iff)


section \<open>Properties\<close>

text \<open>
  C5. The gateway can always boot: once some slot is confirmed, the boot order contains a confirmed
  slot in every state reachable by any sequence of calls of the slot API in any order and on any slots, with any
  flash failure in the middle of any write, and a boot loader that overwrites the slot that
  \<open>boot_slot_upgrade_target\<close> returns with anything, interrupted anywhere.
\<close>

theorem always_a_confirmed_slot:
  assumes "device_step\<^sup>*\<^sup>* d d'" "some_confirmed d"
  shows "some_confirmed d' \<and> (\<exists>s. \<lparr>candidate_slot = s, candidate_state = BOOT_SLOT_CONFIRMED\<rparr> \<in> set (boot_candidates d'))"
proof -
  have c: "some_confirmed d'" by (rule device_reachable_confirmed [OF assms])
  then show ?thesis
    using confirmed_is_candidate [of BOOT_SLOT_A d'] confirmed_is_candidate [of BOOT_SLOT_B d'] unfolding some_confirmed_def by auto
qed

text \<open>
  The life of a slot: whatever fails, an API call changes nothing outside the eight info bytes of
  its slot, moves its state only along \<open>INVALID - PENDING - UNCONFIRMED - CONFIRMED\<close> by one
  stage, or to \<open>INVALID\<close> from the two stages in the middle, and returns OK only when the state is the one asked for.
\<close>

theorem slot_operation_transitions:
  assumes "run_op op d = (r, d')" "valid_slot (op_slot op)"
  shows "(\<forall>x. x \<in> {x. \<not> in_range (boot_slot_address (op_slot op)) 8 x} \<longrightarrow> mem d' x = mem d x) \<and>
    slot_transition (slot_state d (op_slot op)) (slot_state d' (op_slot op)) \<and>
    (r = BOOT_CONTROL_OK \<longrightarrow> slot_state d' (op_slot op) = op_goal op)"
  using run_op_effect [OF assms] by simp

text \<open>
  C13. The upgrade protocol rolls back: if some slot is confirmed, the target is the other slot; after
  the boot loader has erased it (any change inside the target), initialised it with the generation
  returned, written the image behind the info bytes and marked it written, the new image boots first and the confirmed
  one second; once a boot was attempted and not confirmed, only the confirmed one boots; after the
  confirmation the new image boots first again and the next upgrade overwrites the old slot. The
  confirmed slot keeps all its bytes throughout.
\<close>

theorem upgrade_protocol:
  assumes "some_confirmed d" "boot_slot_upgrade_target (Some x) (Some y) d = (r, Some t, Some g)"
    and "\<forall>a. a \<notin> slot_cells t \<longrightarrow> mem d1 a = mem d a" "boot_slot_initialize t g d1 = (BOOT_CONTROL_OK, d2)"
    and "\<forall>a. a \<notin> slot_cells t \<or> in_range (boot_slot_address t) 8 a \<longrightarrow> mem d3 a = mem d2 a"
    and "boot_slot_mark_written t d3 = (BOOT_CONTROL_OK, d4)"
    and "boot_slot_mark_attempted t d4 = (BOOT_CONTROL_OK, d5)"
    and "boot_slot_confirm t d5 = (BOOT_CONTROL_OK, d6)"
  shows "boot_candidates d3 = [\<lparr>candidate_slot = opposite_slot t, candidate_state = BOOT_SLOT_CONFIRMED\<rparr>] \<and>
    boot_candidates d4 = [\<lparr>candidate_slot = t, candidate_state = BOOT_SLOT_PENDING\<rparr>, \<lparr>candidate_slot = opposite_slot t, candidate_state = BOOT_SLOT_CONFIRMED\<rparr>] \<and>
    boot_candidates d5 = [\<lparr>candidate_slot = opposite_slot t, candidate_state = BOOT_SLOT_CONFIRMED\<rparr>] \<and>
    boot_candidates d6 = [\<lparr>candidate_slot = t, candidate_state = BOOT_SLOT_CONFIRMED\<rparr>, \<lparr>candidate_slot = opposite_slot t, candidate_state = BOOT_SLOT_CONFIRMED\<rparr>] \<and>
    fst (snd (boot_slot_upgrade_target (Some x) (Some y) d6)) = Some (opposite_slot t) \<and>
    (\<forall>a \<in> slot_cells (opposite_slot t). mem d6 a = mem d a)"
proof -
  let ?k = "opposite_slot t"
  have t: "valid_slot t" "slot_state d ?k = BOOT_SLOT_CONFIRMED" "unat g = (unat (generation (slot_info d ?k)) + 1) mod 3"
    using upgrade_target_keeps_confirmed [OF assms(1) [unfolded some_confirmed_def] assms(2)] by auto
  have k: "valid_slot ?k" "?k \<noteq> t" "opposite_slot ?k = t" using t(1) by (auto simp: valid_slot_def)
  have out: "a \<notin> slot_cells t" if "a \<in> slot_cells ?k" for a using slot_cells_disjoint [OF k(1) t(1) k(2) that] .
  have m2: "\<forall>a \<in> slot_cells ?k. mem d2 a = mem d1 a"
    using run_op_other_slot [of "Op_Initialize t g" d1 BOOT_CONTROL_OK d2 ?k] assms(4) k by simp
  have m4: "\<forall>a \<in> slot_cells ?k. mem d4 a = mem d3 a"
    using run_op_other_slot [of "Op_Mark_Written t" d3 BOOT_CONTROL_OK d4 ?k] assms(6) k by simp
  have m5: "\<forall>a \<in> slot_cells ?k. mem d5 a = mem d4 a"
    using run_op_other_slot [of "Op_Mark_Attempted t" d4 BOOT_CONTROL_OK d5 ?k] assms(7) k by simp
  have m6: "\<forall>a \<in> slot_cells ?k. mem d6 a = mem d5 a"
    using run_op_other_slot [of "Op_Confirm t" d5 BOOT_CONTROL_OK d6 ?k] assms(8) k by simp
  have m: "\<forall>a \<in> slot_cells ?k. mem d3 a = mem d a" "\<forall>a \<in> slot_cells ?k. mem d4 a = mem d a"
    "\<forall>a \<in> slot_cells ?k. mem d5 a = mem d a" "\<forall>a \<in> slot_cells ?k. mem d6 a = mem d a"
    using m2 m4 m5 m6 assms(3,5) out by simp_all
  note i = m [THEN same_slot_info [OF k(1)]]
  have c: "slot_state e ?k = BOOT_SLOT_CONFIRMED \<and> generation (slot_info e ?k) = generation (slot_info d ?k)"
    if "e \<in> {d3, d4, d5, d6}" for e using that i t(2) by auto
  have i2: "slot_info d2 t = \<lparr>magic = BOOT_SLOT_MAGIC, generation = g, write_done = 0xFF, boot_attempted = 0xFF, boot_success = 0xFF\<rparr>"
    using initialize_effect [OF t(1) assms(4)] by simp
  have "read_cells (boot_slot_address t) 8 d3 = read_cells (boot_slot_address t) 8 d2"
    using assms(5) slot_address_offset [OF t(1)] by (auto simp: read_cells_def in_range_def)
  then have i3: "slot_info d3 t = slot_info d2 t" by (simp add: slot_info_def)
  have s3: "slot_state d3 t = BOOT_SLOT_INVALID" unfolding i3 i2 by (simp add: boot_slot_state_def)
  have s4: "slot_state d4 t = BOOT_SLOT_PENDING" "generation (slot_info d4 t) = g"
    using mark_effect [OF t(1) _ assms(6) [unfolded boot_slot_mark_written_def]] i3 i2 by simp_all
  have s5: "slot_state d5 t = BOOT_SLOT_UNCONFIRMED" "generation (slot_info d5 t) = g"
    using mark_effect [OF t(1) _ assms(7) [unfolded boot_slot_mark_attempted_def]] s4 by simp_all
  have s6: "slot_state d6 t = BOOT_SLOT_CONFIRMED" "generation (slot_info d6 t) = g"
    using mark_effect [OF t(1) _ assms(8) [unfolded boot_slot_confirm_def]] s5 by simp_all
  have "boot_candidates d3 = [\<lparr>candidate_slot = ?k, candidate_state = BOOT_SLOT_CONFIRMED\<rparr>]"
    using order_single [OF k(1), of d3] c [of d3] s3 k(3) by (simp add: candidate_def)
  moreover have "boot_candidates d5 = [\<lparr>candidate_slot = ?k, candidate_state = BOOT_SLOT_CONFIRMED\<rparr>]"
    using order_single [OF k(1), of d5] c [of d5] s5 k(3) by (simp add: candidate_def)
  moreover have "boot_candidates d4 = [\<lparr>candidate_slot = t, candidate_state = BOOT_SLOT_PENDING\<rparr>, \<lparr>candidate_slot = ?k, candidate_state = BOOT_SLOT_CONFIRMED\<rparr>]"
    using order_after_write [OF k(1), of d4 t] c [of d4] s4 k(3) t(3) by (simp add: candidate_def)
  moreover have b6: "boot_candidates d6 = [\<lparr>candidate_slot = t, candidate_state = BOOT_SLOT_CONFIRMED\<rparr>, \<lparr>candidate_slot = ?k, candidate_state = BOOT_SLOT_CONFIRMED\<rparr>]"
    using order_after_write [OF k(1), of d6 t] c [of d6] s6 k(3) t(3) by (simp add: candidate_def)
  moreover have "fst (snd (boot_slot_upgrade_target (Some x) (Some y) d6)) = Some ?k"
  proof -
    have "unat (generation (slot_info d6 t)) = (unat (generation (slot_info d6 ?k)) + 1) mod 3"
      "unat (generation (slot_info d6 ?k)) < 3"
      using c [of d6] s6 t(3) confirmed_generation [of d6 ?k] by simp_all
    note o = generation_order [OF this(2) this(1)] this
    show ?thesis using o s6 c [of d6] t(1)
      by (auto simp: upgrade_target_result Let_def valid_slot_def newer_def)
  qed
  ultimately show ?thesis using m(4) by blast
qed

text \<open>
  Setting or clearing the boot request restores the write protection of the backup domain and the
  interrupt mask on every path, and reports success exactly when the register holds the value: the
  DBP bit shows within 1024 reads and the register takes the value or held it already. When it
  fails, the register is unchanged.
\<close>

theorem boot_request_exact:
  "(let (ok, r') = boot_request_write v r in
      dbp r' = dbp r \<and> primask r' = primask r \<and>
      ok = ((dbp r \<or> dbp_latency r < 1024) \<and> (bkp_writable r \<or> bkp0r r = v)) \<and>
      bkp0r r' = (if ok then v else bkp0r r))"
proof -
  have "poll_dbp n k \<longleftrightarrow> k < n" for n k by (induction n k rule: poll_dbp.induct) auto
  then show ?thesis by (auto simp: boot_request_write_def Let_def)
qed

theorem upgrade_protocol_witness:
  "boot_candidates example_attempted = [\<lparr>candidate_slot = BOOT_SLOT_A, candidate_state = BOOT_SLOT_CONFIRMED\<rparr>] \<and>
   boot_candidates example_written = [\<lparr>candidate_slot = BOOT_SLOT_B, candidate_state = BOOT_SLOT_PENDING\<rparr>,
     \<lparr>candidate_slot = BOOT_SLOT_A, candidate_state = BOOT_SLOT_CONFIRMED\<rparr>]"
proof -
  obtain d where "boot_slot_confirm BOOT_SLOT_B example_attempted = (BOOT_CONTROL_OK, d)" using example_confirm by blast
  from upgrade_protocol [OF example_confirmed example_target _ example_init(1) _ example_write(1) example_attempt(1) this]
  show ?thesis by simp
qed

theorem always_a_confirmed_slot_witness:
  "some_confirmed example_initialized \<and>
   (\<exists>s. \<lparr>candidate_slot = s, candidate_state = BOOT_SLOT_CONFIRMED\<rparr> \<in> set (boot_candidates example_initialized))"
proof (rule always_a_confirmed_slot [OF _ example_confirmed])
  have "run_op (Op_Initialize BOOT_SLOT_B 0) example_flash = (BOOT_CONTROL_OK, example_initialized)"
    using example_init by simp
  then show "device_step\<^sup>*\<^sup>* example_flash example_initialized" by (blast intro: api_call)
qed

theorem slot_operation_transitions_witness:
  "slot_transition (slot_state example_written BOOT_SLOT_B) (slot_state example_attempted BOOT_SLOT_B)"
  using slot_operation_transitions [of "Op_Mark_Attempted BOOT_SLOT_B" example_written BOOT_CONTROL_OK example_attempted] example_attempt
  by (simp add: example_pending)

text \<open>
  No operation is stuck: when the slot is at the stage an operation starts from and the flash
  reports no failure, the operation succeeds and leaves the slot at the stage it is for.
\<close>

theorem slot_operations_succeed:
  assumes "valid_slot (op_slot op)" "script d = []" "op_ready op d"
  shows "fst (run_op op d) = BOOT_CONTROL_OK \<and> slot_state (snd (run_op op d)) (op_slot op) = op_goal op"
  using run_op_success [OF assms] run_op_effect [OF prod.collapse [symmetric] assms(1), of d] by simp

theorem slot_operations_succeed_witness:
  "fst (run_op (Op_Mark_Attempted BOOT_SLOT_B) example_written) = BOOT_CONTROL_OK \<and>
   slot_state (snd (run_op (Op_Mark_Attempted BOOT_SLOT_B) example_written)) (op_slot (Op_Mark_Attempted BOOT_SLOT_B)) =
     op_goal (Op_Mark_Attempted BOOT_SLOT_B)"
  by (rule slot_operations_succeed) (simp_all add: example_write example_pending)

end
