(* ===== verification/External_Flash.thy ===== *)
theory External_Flash
  imports Internal_Flash
begin

text \<open>
  Model of \<open>app/ExternalFlash/src/external_flash.c\<close>: the SPI NOR flash (16 MiB, pages of 256 bytes, sectors of
  4096) that holds the configuration slots, and the driver that talks to it byte by byte.

  The chip is modelled at its bus: the bytes clocked in since the chip was selected (\<open>bus_frame\<close>), the write
  enable latch, the cells, and the program or erase operation it is still busy with (\<open>pending\<close>). A command
  takes effect when the chip is deselected; programming wraps inside a page and clears bits, erasing sets
  them. The environment is a list of outcomes, one per call of the HAL or the kernel: the status the call
  reports, how many bytes had crossed the bus when it failed, which interrupt ends a DMA transfer, what the
  status register says, how late a delay returns. A list that has run out means success. Every theorem
  holds for all outcome lists.

  \<open>settle m d\<close> is the memory found after a supply failure: a pending operation has been carried out except for
  the bits of \<open>m\<close>. The locale \<open>crash_store\<close> at the end states what a client relies on in terms of these images,
  and is interpreted on the driver.
\<close>

section \<open>The chip\<close>

datatype chip_op = Page_Program nat "u8 list" | Sector_Erase nat

datatype dma_irq = Transfer_Complete | Transfer_Error

record hal_outcome =
  hal_status :: HAL_StatusTypeDef
  clocked :: nat
  completion :: "dma_irq option"
  status_1 :: u8
  late :: u8

datatype external_flash_result_t =
    EXTERNAL_FLASH_RESULT_OK
  | EXTERNAL_FLASH_RESULT_INVALID_ARGUMENT
  | EXTERNAL_FLASH_RESULT_NOT_INITIALIZED
  | EXTERNAL_FLASH_RESULT_OUT_OF_RANGE
  | EXTERNAL_FLASH_RESULT_BUSY
  | EXTERNAL_FLASH_RESULT_TIMEOUT
  | EXTERNAL_FLASH_RESULT_IO_ERROR

record external_flash =
  cells :: "nat \<Rightarrow> u8"
  write_latch :: bool
  bus_frame :: "u8 list"
  pending :: "chip_op option"
  outcomes :: "hal_outcome list"
  tick_count :: u32
  external_flash_initialized :: bool
  transfer_semaphore :: bool
  transfer_result :: external_flash_result_t

abbreviation "EXTERNAL_FLASH_CAPACITY \<equiv> (0x01000000 :: u32)"
abbreviation "EXTERNAL_FLASH_PAGE_SIZE \<equiv> (256 :: u32)"
abbreviation "EXTERNAL_FLASH_SECTOR_SIZE \<equiv> (4096 :: u32)"
abbreviation "EXTERNAL_FLASH_DMA_MAX_TRANSFER \<equiv> (65535 :: nat)"
abbreviation "EXTERNAL_FLASH_INSTRUCTION_WRITE_ENABLE \<equiv> (0x06 :: u8)"
abbreviation "EXTERNAL_FLASH_INSTRUCTION_READ_STATUS_1 \<equiv> (0x05 :: u8)"
abbreviation "EXTERNAL_FLASH_INSTRUCTION_READ_DATA \<equiv> (0x03 :: u8)"
abbreviation "EXTERNAL_FLASH_INSTRUCTION_PAGE_PROGRAM \<equiv> (0x02 :: u8)"
abbreviation "EXTERNAL_FLASH_INSTRUCTION_SECTOR_ERASE_4K \<equiv> (0x20 :: u8)"
abbreviation "EXTERNAL_FLASH_STATUS_BUSY \<equiv> (0x01 :: u8)"
abbreviation "EXTERNAL_FLASH_READY_TIMEOUT_MS \<equiv> (1000 :: u32)"
abbreviation "EXTERNAL_FLASH_READY_POLL_DELAY_MS \<equiv> (2 :: u32)"

text \<open>The page buffer: data byte \<open>i\<close> goes to offset \<open>(o + i) mod 256\<close>, a later byte replacing an earlier one.\<close>

fun page_latch :: "nat \<Rightarrow> u8 list \<Rightarrow> (nat \<Rightarrow> u8) \<Rightarrow> (nat \<Rightarrow> u8)" where
  "page_latch off [] latch = latch"
| "page_latch off (b # bs) latch = page_latch (off + 1) bs (latch(off mod 256 := b))"

text \<open>The cells after \<open>op\<close>, in which the bits of \<open>m\<close> were left undone.\<close>

fun apply_op :: "(nat \<Rightarrow> u8) \<Rightarrow> chip_op \<Rightarrow> (nat \<Rightarrow> u8) \<Rightarrow> (nat \<Rightarrow> u8)" where
  "apply_op m (Page_Program a bs) f =
     (\<lambda>x. if x div 256 = a div 256 then f x AND (page_latch (a mod 256) bs (\<lambda>_. 0xFF) (x mod 256) OR m x) else f x)"
| "apply_op m (Sector_Erase a) f = (\<lambda>x. if x div 4096 = a div 4096 then f x OR NOT (m x) else f x)"

definition settle :: "(nat \<Rightarrow> u8) \<Rightarrow> external_flash \<Rightarrow> (nat \<Rightarrow> u8)" where
  "settle m d = (case pending d of None \<Rightarrow> cells d | Some oper \<Rightarrow> apply_op m oper (cells d))"

definition finish_pending :: "external_flash \<Rightarrow> external_flash" where
  "finish_pending d = d\<lparr>cells := settle (\<lambda>_. 0) d, pending := None\<rparr>"

text \<open>A supply failure and the next power-up: RAM starts afresh, the memory is one of the images.\<close>

definition power_cycle :: "(nat \<Rightarrow> u8) \<Rightarrow> external_flash \<Rightarrow> external_flash" where
  "power_cycle m d = d\<lparr>cells := settle m d, pending := None, write_latch := False, bus_frame := [],
     external_flash_initialized := False, transfer_semaphore := False, transfer_result := EXTERNAL_FLASH_RESULT_OK\<rparr>"

definition address24 :: "u8 \<Rightarrow> u8 \<Rightarrow> u8 \<Rightarrow> nat" where
  "address24 a b c = unat a * 65536 + unat b * 256 + unat c"

text \<open>What a command does when the chip is deselected. A busy chip ignores it.\<close>

fun chip_command :: "u8 list \<Rightarrow> external_flash \<Rightarrow> external_flash" where
  "chip_command [i] d = (if i = EXTERNAL_FLASH_INSTRUCTION_WRITE_ENABLE then d\<lparr>write_latch := True\<rparr> else d)"
| "chip_command [i, a, b, c] d =
     (if i = EXTERNAL_FLASH_INSTRUCTION_SECTOR_ERASE_4K \<and> write_latch d
      then d\<lparr>pending := Some (Sector_Erase (address24 a b c)), write_latch := False\<rparr> else d)"
| "chip_command (i # a # b # c # x # data) d =
     (if i = EXTERNAL_FLASH_INSTRUCTION_PAGE_PROGRAM \<and> write_latch d
      then d\<lparr>pending := Some (Page_Program (address24 a b c) (x # data)), write_latch := False\<rparr> else d)"
| "chip_command _ d = d"

definition chip_select :: "external_flash \<Rightarrow> external_flash" where
  "chip_select d = d\<lparr>bus_frame := []\<rparr>"

definition chip_deselect :: "external_flash \<Rightarrow> external_flash" where
  "chip_deselect d = (let d' = (if pending d = None then chip_command (bus_frame d) d else d) in d'\<lparr>bus_frame := []\<rparr>)"

definition chip_clock :: "u8 list \<Rightarrow> external_flash \<Rightarrow> external_flash" where
  "chip_clock bs d = d\<lparr>bus_frame := bus_frame d @ bs\<rparr>"

text \<open>The bytes the chip drives while the master clocks \<open>n\<close> more: the memory from the address of a read command on.\<close>

fun chip_output :: "u8 list \<Rightarrow> nat \<Rightarrow> external_flash \<Rightarrow> u8 list" where
  "chip_output (i # a # b # c # rest) n d =
     (if i = EXTERNAL_FLASH_INSTRUCTION_READ_DATA \<and> pending d = None
      then map (\<lambda>k. cells d ((address24 a b c + length rest + k) mod 2 ^ 24)) [0..<n] else replicate n 0xFF)"
| "chip_output _ n d = replicate n 0xFF"

section \<open>The HAL and the kernel\<close>

definition take_outcome :: "external_flash \<Rightarrow> hal_outcome \<times> external_flash" where
  "take_outcome d = (case outcomes d of
      [] \<Rightarrow> (\<lparr>hal_status = HAL_OK, clocked = 0, completion = Some Transfer_Complete, status_1 = 0, late = 0\<rparr>, d)
    | q # r \<Rightarrow> (q, d\<lparr>outcomes := r\<rparr>))"

definition HAL_SPI_Transmit :: "u8 list \<Rightarrow> external_flash \<Rightarrow> HAL_StatusTypeDef \<times> external_flash" where
  "HAL_SPI_Transmit bs d = (case take_outcome d of (q, d1) \<Rightarrow>
     (hal_status q, chip_clock (if hal_status q = HAL_OK then bs else take (clocked q) bs) d1))"

text \<open>The second byte received is the status register. Once it shows the chip ready, the operation has ended.\<close>

definition HAL_SPI_TransmitReceive_status :: "u8 list \<Rightarrow> external_flash \<Rightarrow> HAL_StatusTypeDef \<times> u8 list \<times> external_flash" where
  "HAL_SPI_TransmitReceive_status bs d = (case take_outcome d of (q, d1) \<Rightarrow>
     if hal_status q = HAL_OK
     then (HAL_OK, [0xFF, status_1 q],
           chip_clock bs (if status_1 q AND EXTERNAL_FLASH_STATUS_BUSY = 0 then finish_pending d1 else d1))
     else (hal_status q, [0, 0], chip_clock (take (clocked q) bs) d1))"

definition HAL_SPI_RegisterCallback :: "external_flash \<Rightarrow> HAL_StatusTypeDef \<times> external_flash" where
  "HAL_SPI_RegisterCallback d = (case take_outcome d of (q, d1) \<Rightarrow> (hal_status q, d1))"

definition vTaskDelay :: "u32 \<Rightarrow> external_flash \<Rightarrow> external_flash" where
  "vTaskDelay ticks d = (case take_outcome d of (q, d1) \<Rightarrow> d1\<lparr>tick_count := tick_count d1 + ticks + ucast (late q)\<rparr>)"

definition xSemaphoreTake_transfer :: "external_flash \<Rightarrow> bool \<times> external_flash" where
  "xSemaphoreTake_transfer d = (transfer_semaphore d, d\<lparr>transfer_semaphore := False\<rparr>)"

section \<open>The driver\<close>

fun external_flash_result_from_hal :: "HAL_StatusTypeDef \<Rightarrow> external_flash_result_t" where
  "external_flash_result_from_hal HAL_OK = EXTERNAL_FLASH_RESULT_OK"
| "external_flash_result_from_hal HAL_BUSY = EXTERNAL_FLASH_RESULT_BUSY"
| "external_flash_result_from_hal HAL_TIMEOUT = EXTERNAL_FLASH_RESULT_TIMEOUT"
| "external_flash_result_from_hal HAL_ERROR = EXTERNAL_FLASH_RESULT_IO_ERROR"

type_synonym flash_call = "external_flash \<Rightarrow> external_flash_result_t \<times> external_flash"

definition external_flash_transmit_polling :: "u8 list \<Rightarrow> flash_call" where
  "external_flash_transmit_polling source d =
     (case HAL_SPI_Transmit source d of (s, d1) \<Rightarrow> (external_flash_result_from_hal s, d1))"

definition external_flash_send_address_command :: "u8 \<Rightarrow> u32 \<Rightarrow> flash_call" where
  "external_flash_send_address_command instruction address =
     external_flash_transmit_polling [instruction, ucast (drop_bit 16 address), ucast (drop_bit 8 address), ucast address]"

definition external_flash_write_enable :: flash_call where
  "external_flash_write_enable d =
     (case external_flash_transmit_polling [EXTERNAL_FLASH_INSTRUCTION_WRITE_ENABLE] (chip_select d) of
        (result, d1) \<Rightarrow> (result, chip_deselect d1))"

definition external_flash_read_status_1 :: "u8 \<Rightarrow> external_flash \<Rightarrow> external_flash_result_t \<times> u8 \<times> external_flash" where
  "external_flash_read_status_1 status_register d =
     (case HAL_SPI_TransmitReceive_status [EXTERNAL_FLASH_INSTRUCTION_READ_STATUS_1, 0xFF] (chip_select d) of
        (s, receive_buffer, d1) \<Rightarrow>
          let d2 = chip_deselect d1 in
          if s \<noteq> HAL_OK then (external_flash_result_from_hal s, status_register, d2)
          else (EXTERNAL_FLASH_RESULT_OK, receive_buffer ! 1, d2))"

lemma take_outcome_same:
  "take_outcome d = (q, d') \<Longrightarrow> d' = d\<lparr>outcomes := outcomes d'\<rparr>"
  by (auto simp: take_outcome_def split: list.splits)

lemma chip_command_tick [simp]: "tick_count (chip_command bs d) = tick_count d"
  by (cases "(bs, d)" rule: chip_command.cases) auto

lemma read_status_tick:
  assumes "external_flash_read_status_1 r d = (s, x, d')"
  shows "tick_count d' = tick_count d"
proof -
  obtain q d1 where q: "take_outcome (chip_select d) = (q, d1)" by (metis surj_pair)
  have "tick_count d1 = tick_count d" using take_outcome_same [OF q] by (metis (no_types) chip_select_def external_flash.select_convs(6) external_flash.surjective external_flash.update_convs(3) external_flash.update_convs(5))
  then show ?thesis using assms q
    by (auto simp: external_flash_read_status_1_def HAL_SPI_TransmitReceive_status_def chip_deselect_def chip_clock_def
        finish_pending_def Let_def split: if_splits)
qed

text \<open>The polling loop ends: every round lets at least two ticks pass, and a delay is late by at most 255.\<close>

function wait_ready_loop :: "u32 \<Rightarrow> flash_call" where
  "wait_ready_loop start_ticks d =
     (case external_flash_read_status_1 0 d of (result, status_register, d1) \<Rightarrow>
        if result \<noteq> EXTERNAL_FLASH_RESULT_OK then (result, d1)
        else if status_register AND EXTERNAL_FLASH_STATUS_BUSY = 0 then (EXTERNAL_FLASH_RESULT_OK, d1)
        else if tick_count d1 - start_ticks \<ge> EXTERNAL_FLASH_READY_TIMEOUT_MS then (EXTERNAL_FLASH_RESULT_TIMEOUT, d1)
        else wait_ready_loop start_ticks (vTaskDelay EXTERNAL_FLASH_READY_POLL_DELAY_MS d1))"
  by pat_completeness auto
termination
proof (relation "measure (\<lambda>(start, d). 2000 - unat (tick_count d - start))", goal_cases)
  case (2 start d r p sr d1)
  then have t: "tick_count d1 = tick_count d" using read_status_tick [of 0 d r sr d1] by simp
  obtain q d3 where q: "take_outcome d1 = (q, d3)" by (metis surj_pair)
  have "tick_count d3 = tick_count d1" using take_outcome_same [OF q] by (metis external_flash.select_convs(6) external_flash.surjective external_flash.update_convs(5))
  then have v: "tick_count (vTaskDelay 2 d1) - start = (tick_count d - start) + (2 + ucast (late q))"
    using q t by (simp add: vTaskDelay_def)
  have e: "unat (tick_count d - start) < 1000" using 2 t by (simp add: word_less_nat_alt not_le)
  have l: "unat (2 + ucast (late q) :: u32) = 2 + unat (late q)"
    using unat_u8_less [of "late q"] by (subst unat_plus_small) (simp_all del: unat_u8_less)
  have "unat (tick_count (vTaskDelay 2 d1) - start) = unat (tick_count d - start) + (2 + unat (late q))"
    unfolding v l [symmetric] using e l unat_u8_less [of "late q"] by (intro unat_plus_small) (simp del: unat_u8_less)
  then show ?case using e by simp
qed simp

declare wait_ready_loop.simps [simp del]

definition external_flash_wait_ready :: flash_call where
  "external_flash_wait_ready d = wait_ready_loop (tick_count d) d"

text \<open>The DMA interrupts; \<open>hspi1\<close> is the handle of the flash.\<close>

datatype spi_handle = hspi1 | other_spi

definition external_flash_signal_transfer_complete_from_isr :: "external_flash_result_t \<Rightarrow> external_flash \<Rightarrow> external_flash" where
  "external_flash_signal_transfer_complete_from_isr result d = d\<lparr>transfer_result := result, transfer_semaphore := True\<rparr>"

definition external_flash_transfer_complete_callback :: "spi_handle \<Rightarrow> external_flash \<Rightarrow> external_flash" where
  "external_flash_transfer_complete_callback hspi d =
     (if hspi = hspi1 then external_flash_signal_transfer_complete_from_isr EXTERNAL_FLASH_RESULT_OK d else d)"

definition external_flash_transfer_error_callback :: "spi_handle \<Rightarrow> external_flash \<Rightarrow> external_flash" where
  "external_flash_transfer_error_callback hspi d =
     (if hspi = hspi1 then external_flash_signal_transfer_complete_from_isr EXTERNAL_FLASH_RESULT_IO_ERROR d else d)"

text \<open>What happens while the task waits for the end of a transfer of \<open>n\<close> bytes: how many cross the bus, and the interrupt.\<close>

definition dma_moved :: "hal_outcome \<Rightarrow> nat \<Rightarrow> nat" where
  "dma_moved q n = (if completion q = Some Transfer_Complete then n else min (clocked q) n)"

definition dma_interrupt :: "hal_outcome \<Rightarrow> external_flash \<Rightarrow> external_flash" where
  "dma_interrupt q d = (case completion q of
      Some Transfer_Complete \<Rightarrow> external_flash_transfer_complete_callback hspi1 d
    | Some Transfer_Error \<Rightarrow> external_flash_transfer_error_callback hspi1 d
    | None \<Rightarrow> d)"

definition external_flash_transmit_dma :: "u8 list \<Rightarrow> flash_call" where
  "external_flash_transmit_dma source d =
     (let d0 = snd (xSemaphoreTake_transfer d) in
      case take_outcome d0 of (q, d1) \<Rightarrow>
        if hal_status q \<noteq> HAL_OK then (external_flash_result_from_hal (hal_status q), d1)
        else let d2 = dma_interrupt q (chip_clock (take (dma_moved q (length source)) source) d1)
          in case xSemaphoreTake_transfer d2 of (taken, d3) \<Rightarrow>
             if taken then (transfer_result d3, d3) else (EXTERNAL_FLASH_RESULT_TIMEOUT, d3))"

text \<open>Receives \<open>n\<close> bytes into \<open>destination\<close> from index \<open>i\<close>.\<close>

definition external_flash_receive_dma ::
  "nat \<Rightarrow> nat \<Rightarrow> u8 list \<Rightarrow> external_flash \<Rightarrow> external_flash_result_t \<times> u8 list \<times> external_flash" where
  "external_flash_receive_dma i n destination d =
     (let d0 = snd (xSemaphoreTake_transfer d) in
      case take_outcome d0 of (q, d1) \<Rightarrow>
        if hal_status q \<noteq> HAL_OK then (external_flash_result_from_hal (hal_status q), destination, d1)
        else let moved = dma_moved q n;
                 received = overwrite i (chip_output (bus_frame d1) moved d1) destination;
                 d2 = dma_interrupt q (chip_clock (replicate moved 0xFF) d1)
          in case xSemaphoreTake_transfer d2 of (taken, d3) \<Rightarrow>
             if taken then (transfer_result d3, received, d3) else (EXTERNAL_FLASH_RESULT_TIMEOUT, received, d3))"

definition external_flash_range_is_valid :: "u32 \<Rightarrow> u32 \<Rightarrow> bool" where
  "external_flash_range_is_valid start_addr len \<longleftrightarrow>
     start_addr < EXTERNAL_FLASH_CAPACITY \<and> len \<le> EXTERNAL_FLASH_CAPACITY - start_addr"

fun register_callbacks :: "nat \<Rightarrow> external_flash \<Rightarrow> bool \<times> external_flash" where
  "register_callbacks 0 d = (True, d)"
| "register_callbacks (Suc n) d =
     (case HAL_SPI_RegisterCallback d of (s, d1) \<Rightarrow> if s \<noteq> HAL_OK then (False, d1) else register_callbacks n d1)"

text \<open>The four callbacks are those for TX, RX and TX/RX completion and for errors.\<close>

definition external_flash_init :: flash_call where
  "external_flash_init d =
     (if external_flash_initialized d then (EXTERNAL_FLASH_RESULT_OK, d)
      else let d1 = (chip_deselect d)\<lparr>transfer_semaphore := False\<rparr> in
        case register_callbacks 4 d1 of (ok, d2) \<Rightarrow>
          if \<not> ok then (EXTERNAL_FLASH_RESULT_IO_ERROR, d2)
          else (EXTERNAL_FLASH_RESULT_OK, d2\<lparr>external_flash_initialized := True\<rparr>))"

text \<open>One round of the loop of \<open>external_flash_program\<close>: write enable, page program, deselect.\<close>

definition program_page :: "u32 \<Rightarrow> u8 list \<Rightarrow> flash_call" where
  "program_page start_addr source d =
     (case external_flash_write_enable d of (result, d1) \<Rightarrow>
        if result \<noteq> EXTERNAL_FLASH_RESULT_OK then (result, d1)
        else (case external_flash_send_address_command EXTERNAL_FLASH_INSTRUCTION_PAGE_PROGRAM start_addr (chip_select d1) of
                (result, d2) \<Rightarrow>
                  (case (if result = EXTERNAL_FLASH_RESULT_OK then external_flash_transmit_dma source d2 else (result, d2)) of
                     (result, d3) \<Rightarrow> (result, chip_deselect d3))))"

definition page_chunk :: "u32 \<Rightarrow> u8 list \<Rightarrow> nat" where
  "page_chunk start_addr source =
     (let page_remaining = unat (EXTERNAL_FLASH_PAGE_SIZE - (start_addr AND (EXTERNAL_FLASH_PAGE_SIZE - 1)))
      in if length source < page_remaining then length source else page_remaining)"

lemma and_255: "unat ((a :: u32) AND 255) = unat a mod 256"
proof -
  have "a AND 255 = take_bit 8 a" by (simp add: take_bit_eq_mask mask_eq_exp_minus_1)
  then show ?thesis by (simp add: unsigned_take_bit_eq take_bit_eq_mod unat_mod)
qed

lemma page_chunk_eq: "page_chunk a source = min (length source) (256 - unat a mod 256)"
proof -
  have le: "(a AND 255) \<le> 256" using mod_less_divisor [of 256 "unat a"] by (simp add: word_le_nat_alt and_255 del: mod_less_divisor)
  have "unat (256 - (a AND 255)) = 256 - unat a mod 256" using unat_sub [OF le] by (simp add: and_255)
  then show ?thesis by (simp add: page_chunk_def Let_def min_def)
qed

lemma page_chunk_pos: "source \<noteq> [] \<Longrightarrow> 0 < page_chunk a source"
  by (simp add: page_chunk_eq)

text \<open>The loop of \<open>external_flash_program\<close>; \<open>source\<close> is the bytes not yet programmed.\<close>

function program_pages :: "u32 \<Rightarrow> u8 list \<Rightarrow> external_flash_result_t \<Rightarrow> flash_call" where
  "program_pages start_addr source result d =
     (if result \<noteq> EXTERNAL_FLASH_RESULT_OK \<or> source = [] then (result, d)
      else let transfer_length = page_chunk start_addr source in
        case program_page start_addr (take transfer_length source) d of (result, d1) \<Rightarrow>
          if result \<noteq> EXTERNAL_FLASH_RESULT_OK then (result, d1)
          else (case external_flash_wait_ready d1 of (result, d2) \<Rightarrow>
                  program_pages (start_addr + of_nat transfer_length) (drop transfer_length source) result d2))"
  by pat_completeness auto
termination
  by (relation "measure (\<lambda>(a, source, r, d). length source)") (auto simp: page_chunk_pos)

declare program_pages.simps [simp del]

definition external_flash_program :: "u32 \<Rightarrow> u8 list ptr \<Rightarrow> u32 \<Rightarrow> flash_call" where
  "external_flash_program start_addr source len d =
     (if \<not> external_flash_initialized d then (EXTERNAL_FLASH_RESULT_NOT_INITIALIZED, d)
      else if source = None \<or> len = 0 then (EXTERNAL_FLASH_RESULT_INVALID_ARGUMENT, d)
      else if \<not> external_flash_range_is_valid start_addr len then (EXTERNAL_FLASH_RESULT_OUT_OF_RANGE, d)
      else (case external_flash_wait_ready d of (result, d1) \<Rightarrow>
              program_pages start_addr (take (unat len) (the source)) result d1))"

text \<open>The loop of \<open>external_flash_read\<close>; \<open>i\<close> counts the bytes of the destination already passed.\<close>

function read_chunks ::
  "nat \<Rightarrow> nat \<Rightarrow> external_flash_result_t \<Rightarrow> u8 list \<Rightarrow> external_flash \<Rightarrow> external_flash_result_t \<times> u8 list \<times> external_flash" where
  "read_chunks i remaining result destination d =
     (if result \<noteq> EXTERNAL_FLASH_RESULT_OK \<or> remaining = 0 then (result, destination, d)
      else let transfer_length = (if remaining < EXTERNAL_FLASH_DMA_MAX_TRANSFER then remaining else EXTERNAL_FLASH_DMA_MAX_TRANSFER) in
        case external_flash_receive_dma i transfer_length destination d of (result, destination, d1) \<Rightarrow>
          read_chunks (i + transfer_length) (remaining - transfer_length) result destination d1)"
  by pat_completeness auto
termination
  by (relation "measure (\<lambda>(i, remaining, r, dst, d). remaining)") auto

declare read_chunks.simps [simp del]

definition external_flash_read ::
  "u32 \<Rightarrow> u8 list ptr \<Rightarrow> u32 \<Rightarrow> external_flash \<Rightarrow> external_flash_result_t \<times> u8 list ptr \<times> external_flash" where
  "external_flash_read start_addr destination len d =
     (if \<not> external_flash_initialized d then (EXTERNAL_FLASH_RESULT_NOT_INITIALIZED, destination, d)
      else if destination = None \<or> len = 0 then (EXTERNAL_FLASH_RESULT_INVALID_ARGUMENT, destination, d)
      else if \<not> external_flash_range_is_valid start_addr len then (EXTERNAL_FLASH_RESULT_OUT_OF_RANGE, destination, d)
      else (case external_flash_wait_ready d of (result, d1) \<Rightarrow>
        if result \<noteq> EXTERNAL_FLASH_RESULT_OK then (result, destination, d1)
        else (case external_flash_send_address_command EXTERNAL_FLASH_INSTRUCTION_READ_DATA start_addr (chip_select d1) of
          (result, d2) \<Rightarrow>
            (case read_chunks 0 (unat len) result (the destination) d2 of (result, dst, d3) \<Rightarrow>
               (result, Some dst, chip_deselect d3)))))"

definition external_flash_erase_4k :: "u32 \<Rightarrow> flash_call" where
  "external_flash_erase_4k sector_address d =
     (if \<not> external_flash_initialized d then (EXTERNAL_FLASH_RESULT_NOT_INITIALIZED, d)
      else if sector_address > EXTERNAL_FLASH_CAPACITY - EXTERNAL_FLASH_SECTOR_SIZE then (EXTERNAL_FLASH_RESULT_OUT_OF_RANGE, d)
      else if sector_address AND (EXTERNAL_FLASH_SECTOR_SIZE - 1) \<noteq> 0 then (EXTERNAL_FLASH_RESULT_INVALID_ARGUMENT, d)
      else (case external_flash_wait_ready d of (result, d1) \<Rightarrow>
        if result \<noteq> EXTERNAL_FLASH_RESULT_OK then (result, d1)
        else (case external_flash_write_enable d1 of (result, d2) \<Rightarrow>
          if result \<noteq> EXTERNAL_FLASH_RESULT_OK then (result, d2)
          else (case external_flash_send_address_command EXTERNAL_FLASH_INSTRUCTION_SECTOR_ERASE_4K sector_address (chip_select d2) of
            (result, d3) \<Rightarrow>
              let d4 = chip_deselect d3 in
              if result \<noteq> EXTERNAL_FLASH_RESULT_OK then (result, d4) else external_flash_wait_ready d4))))"

section \<open>What the calls do to the chip\<close>

text \<open>Nothing changed but the position in the outcome list, the bus and the latch.\<close>

definition same_chip :: "external_flash \<Rightarrow> external_flash \<Rightarrow> bool" where
  "same_chip d d' \<longleftrightarrow> cells d' = cells d \<and> pending d' = pending d \<and>
     external_flash_initialized d' = external_flash_initialized d"

lemma same_chip_refl [simp]: "same_chip d d"
  by (simp add: same_chip_def)

lemma same_chip_trans: "same_chip d e \<Longrightarrow> same_chip e f \<Longrightarrow> same_chip d f"
  by (simp add: same_chip_def)

lemma take_outcome_fields:
  assumes "take_outcome d = (q, d')"
  shows "cells d' = cells d" "pending d' = pending d" "external_flash_initialized d' = external_flash_initialized d"
    "write_latch d' = write_latch d" "bus_frame d' = bus_frame d" "transfer_semaphore d' = transfer_semaphore d"
    "tick_count d' = tick_count d"
  using assms by (auto simp: take_outcome_def split: list.splits)

lemma from_hal_OK [simp]: "external_flash_result_from_hal s = EXTERNAL_FLASH_RESULT_OK \<longleftrightarrow> s = HAL_OK"
  by (cases s) auto

lemma write_enable_effect:
  assumes "external_flash_write_enable d = (r, d')"
  shows "same_chip d d'" "r = EXTERNAL_FLASH_RESULT_OK \<Longrightarrow> pending d = None \<Longrightarrow> write_latch d'"
proof -
  obtain q d1 where q: "take_outcome (chip_select d) = (q, d1)" by (metis surj_pair)
  note f = take_outcome_fields [OF q]
  have t: "take n [x :: u8] = (if n = 0 then [] else [x])" for n x by (cases n) auto
  show "same_chip d d'" "r = EXTERNAL_FLASH_RESULT_OK \<Longrightarrow> pending d = None \<Longrightarrow> write_latch d'"
    using assms q f
    by (auto simp: external_flash_write_enable_def external_flash_transmit_polling_def HAL_SPI_Transmit_def chip_deselect_def
        chip_select_def chip_clock_def same_chip_def Let_def t split: prod.splits if_splits)
qed

lemma status_command_ignored: "chip_command (take n [EXTERNAL_FLASH_INSTRUCTION_READ_STATUS_1, b]) d = d"
  by (cases n; cases "n - 1") auto

lemma chip_deselect_ignored:
  "chip_command (bus_frame d) d = d \<Longrightarrow> chip_deselect d = d\<lparr>bus_frame := []\<rparr>"
  by (simp add: chip_deselect_def Let_def)

lemma read_status_effect:
  assumes "external_flash_read_status_1 x d = (r, s, d')"
  shows "external_flash_initialized d' = external_flash_initialized d \<and>
    (if r = EXTERNAL_FLASH_RESULT_OK \<and> s AND 1 = 0 then cells d' = settle (\<lambda>_. 0) d \<and> pending d' = None else same_chip d d')"
proof -
  obtain q d1 where q: "take_outcome (chip_select d) = (q, d1)" by (metis surj_pair)
  have f: "cells d1 = cells d" "pending d1 = pending d" "external_flash_initialized d1 = external_flash_initialized d" "bus_frame d1 = []"
    using take_outcome_fields [OF q] by (simp_all add: chip_select_def)
  have s: "settle m d1 = settle m d" for m using f by (simp add: settle_def split: option.splits)
  have ig: "chip_command [EXTERNAL_FLASH_INSTRUCTION_READ_STATUS_1, b] e = e" for b e
    using status_command_ignored [of 2 b e] by simp
  show ?thesis
  proof (cases "hal_status q = HAL_OK")
    case True
    let ?e = "if status_1 q AND 1 = 0 then finish_pending d1 else d1"
    have gen: "bus_frame e = [] \<Longrightarrow> chip_deselect (chip_clock [5, 0xFF] e) = (chip_clock [5, 0xFF] e)\<lparr>bus_frame := []\<rparr>" for e
      by (intro chip_deselect_ignored) (simp add: chip_clock_def ig)
    have "bus_frame ?e = []" using f by (simp add: finish_pending_def)
    note gen [OF this]
    then have "r = EXTERNAL_FLASH_RESULT_OK" "s = status_1 q" "d' = (chip_clock [5, 0xFF] ?e)\<lparr>bus_frame := []\<rparr>"
      using assms True q by (auto simp: external_flash_read_status_1_def HAL_SPI_TransmitReceive_status_def Let_def)
    then show ?thesis using f s by (simp add: chip_clock_def finish_pending_def same_chip_def)
  next
    case False
    let ?c = "take (clocked q) [5, 0xFF]"
    have "chip_deselect (chip_clock ?c d1) = (chip_clock ?c d1)\<lparr>bus_frame := []\<rparr>"
      using f by (intro chip_deselect_ignored) (simp add: chip_clock_def, rule status_command_ignored)
    then have "r = external_flash_result_from_hal (hal_status q)" "d' = (chip_clock ?c d1)\<lparr>bus_frame := []\<rparr>"
      using assms False q by (auto simp: external_flash_read_status_1_def HAL_SPI_TransmitReceive_status_def Let_def)
    then show ?thesis using f False by (simp add: chip_clock_def same_chip_def)
  qed
qed

lemma vTaskDelay_same: "same_chip d (vTaskDelay n d)"
  by (auto simp: vTaskDelay_def same_chip_def dest: take_outcome_fields split: prod.splits)

text \<open>Waiting either fails and changes nothing, or ends with the pending operation carried out.\<close>

definition waited :: "external_flash \<Rightarrow> external_flash_result_t \<Rightarrow> external_flash \<Rightarrow> bool" where
  "waited d r d' \<longleftrightarrow> external_flash_initialized d' = external_flash_initialized d \<and>
     (if r = EXTERNAL_FLASH_RESULT_OK then cells d' = settle (\<lambda>_. 0) d \<and> pending d' = None else same_chip d d')"

lemma waited_after_same: "same_chip d e \<Longrightarrow> waited e r f \<Longrightarrow> waited d r f"
  by (auto simp: waited_def same_chip_def settle_def split: if_splits option.splits)

lemma wait_ready_loop_waited: "wait_ready_loop start d = (r, d') \<Longrightarrow> waited d r d'"
proof (induction start d arbitrary: r d' rule: wait_ready_loop.induct)
  case (1 start d)
  obtain r1 s d1 where rd: "external_flash_read_status_1 0 d = (r1, s, d1)" by (metis surj_pair)
  note e = read_status_effect [OF rd]
  show ?case
  proof (cases "r1 \<noteq> EXTERNAL_FLASH_RESULT_OK \<or> s AND 1 = 0 \<or> tick_count d1 - start \<ge> 1000")
    case True
    then show ?thesis using 1(2) rd e by (auto simp: wait_ready_loop.simps [of start d] waited_def split: if_splits)
  next
    case False
    then have "wait_ready_loop start (vTaskDelay 2 d1) = (r, d')"
      using 1(2) rd by (simp add: wait_ready_loop.simps [of start d])
    from 1(1) [OF rd [symmetric] refl _ _ _ this] False have "waited (vTaskDelay 2 d1) r d'" by simp
    moreover have "same_chip d (vTaskDelay 2 d1)" using e False vTaskDelay_same [of d1 2] same_chip_trans by auto
    ultimately show ?thesis by (rule waited_after_same [rotated])
  qed
qed

lemma wait_ready_waited: "external_flash_wait_ready d = (r, d') \<Longrightarrow> waited d r d'"
  unfolding external_flash_wait_ready_def by (rule wait_ready_loop_waited)

text \<open>Addresses on the wire.\<close>

lemma address24_bytes:
  assumes "unat (a :: u32) < 2 ^ 24"
  shows "address24 (ucast (drop_bit 16 a)) (ucast (drop_bit 8 a)) (ucast a) = unat a"
proof -
  have e: "unat (ucast (drop_bit 16 a) :: u8) = unat a div 65536 mod 256"
    "unat (ucast (drop_bit 8 a) :: u8) = unat a div 256 mod 256" "unat (ucast a :: u8) = unat a mod 256"
    by (simp_all add: unsigned_ucast_eq unsigned_drop_bit_eq take_bit_eq_mod drop_bit_eq_div drop_bit_take_bit unat_div)
  have "unat a div 65536 < 256" using assms by simp
  moreover have "q = q1 * 256 + q2 \<Longrightarrow> q1 * 65536 + q2 * 256 + r = q * 256 + r" for q q1 q2 r :: nat by simp
  from this [of "unat a div 256" "unat a div 256 div 256" "unat a div 256 mod 256" "unat a mod 256"]
  have "unat a div 256 div 256 * 65536 + unat a div 256 mod 256 * 256 + unat a mod 256 = unat a"
    unfolding div_mult_mod_eq by simp
  moreover have "unat a div 65536 = unat a div 256 div 256" by (simp add: div_mult2_eq [symmetric])
  ultimately show ?thesis unfolding address24_def e by (simp only: mod_less)
qed

section \<open>Programming\<close>

lemma page_latch_nth:
  "off + length bs \<le> 256 \<Longrightarrow> page_latch off bs l y = (if off \<le> y \<and> y < off + length bs then bs ! (y - off) else l y)"
proof (induction bs arbitrary: off l)
  case (Cons b bs)
  then have "off < 256" by simp
  then have "page_latch off (b # bs) l y = (if off + 1 \<le> y \<and> y < off + 1 + length bs then bs ! (y - (off + 1)) else (l(off := b)) y)"
    using Cons by simp
  moreover have "off + 1 \<le> y \<Longrightarrow> y - off = Suc (y - (off + 1))" by simp
  ultimately show ?case by auto
qed auto

lemma and_or_full: "f AND (0xFF OR m) = f" for f m :: u8
proof -
  have "(0xFF :: u8) = - 1" by simp
  then show ?thesis by (metis and.right_neutral bit.disj_one_left)
qed

lemma page_of_range: "a mod 256 + n \<le> 256 \<Longrightarrow> a \<le> x \<Longrightarrow> x < a + n \<Longrightarrow> x div 256 = a div 256" for a x n :: nat
proof -
  assume h: "a mod 256 + n \<le> 256" "a \<le> x" "x < a + n"
  have "a div 256 \<le> x div 256" using h by (intro div_le_mono)
  moreover have "x < (q + 1) * 256" if "q * 256 + r = a" "r + n \<le> 256" for q r using h that by simp
  from this [OF div_mult_mod_eq h(1)] have "x < (a div 256 + 1) * 256" .
  then have "x div 256 < a div 256 + 1" by (simp add: less_mult_imp_div_less)
  ultimately show ?thesis by simp
qed

lemma apply_page_program:
  assumes "a mod 256 + length bs \<le> 256"
  shows "apply_op m (Page_Program a bs) f x =
    (if a \<le> x \<and> x < a + length bs then f x AND (bs ! (x - a) OR m x) else f x)"
proof (cases "x div 256 = a div 256")
  case True
  then have "x mod 256 - a mod 256 = x - a" "a mod 256 \<le> x mod 256 \<longleftrightarrow> a \<le> x"
      "x mod 256 < a mod 256 + length bs \<longleftrightarrow> x < a + length bs"
    using div_mult_mod_eq [of a 256] div_mult_mod_eq [of x 256] by linarith+
  then show ?thesis using assms True by (simp add: page_latch_nth and_or_full)
next
  case False
  then show ?thesis using page_of_range [OF assms, of x] by auto
qed

text \<open>
  \<open>cells_programmed a bs f ok g\<close>: from \<open>f\<close> to \<open>g\<close> only cells of the range changed, only bits clear in \<open>bs\<close> were
  cleared there, and all of these when \<open>ok\<close>.
\<close>

definition cells_programmed :: "nat \<Rightarrow> u8 list \<Rightarrow> (nat \<Rightarrow> u8) \<Rightarrow> bool \<Rightarrow> (nat \<Rightarrow> u8) \<Rightarrow> bool" where
  "cells_programmed a bs f ok g \<longleftrightarrow> (\<forall>x. if a \<le> x \<and> x < a + length bs
     then g x AND f x = g x \<and> g x OR (f x AND bs ! (x - a)) = g x \<and> (ok \<longrightarrow> g x = f x AND bs ! (x - a))
     else g x = f x)"

lemma cells_programmed_none: "ok \<longrightarrow> bs = [] \<Longrightarrow> cells_programmed a bs f ok f"
  by (auto simp: cells_programmed_def and_absorb)

lemma cells_programmed_fail: "cells_programmed a bs f ok g \<Longrightarrow> cells_programmed a (bs @ cs) f False g"
  unfolding cells_programmed_def
  by (intro allI, drule spec) (auto simp: nth_append and_absorb split: if_splits)

lemma cells_programmed_append:
  assumes "cells_programmed a bs f True g" "cells_programmed (a + length bs) cs g ok h"
  shows "cells_programmed a (bs @ cs) f ok h"
  unfolding cells_programmed_def
proof
  fix x
  note first = assms(1) [unfolded cells_programmed_def, rule_format, of x]
  note second = assms(2) [unfolded cells_programmed_def, rule_format, of x]
  consider "x < a" | "a \<le> x" "x < a + length bs" | "a + length bs \<le> x" by linarith
  then show "if a \<le> x \<and> x < a + length (bs @ cs)
     then h x AND f x = h x \<and> h x OR (f x AND (bs @ cs) ! (x - a)) = h x \<and> (ok \<longrightarrow> h x = f x AND (bs @ cs) ! (x - a))
     else h x = f x"
  proof cases
    case 2
    then have "x - a < length bs" by linarith
    then show ?thesis using 2 first second and_absorb(1,2) [of "f x" "bs ! (x - a)"] by (simp add: nth_append)
  next
    case 3
    then have "x - a - length bs = x - (a + length bs)" "\<not> x - a < length bs" by simp_all
    then show ?thesis using first second 3 by (simp add: nth_append split: if_splits)
  qed (use first second in simp)
qed

lemma page_programmed:
  assumes "a mod 256 + length bs \<le> 256"
  shows "cells_programmed a bs f False (apply_op m (Page_Program a bs) f)"
    "cells_programmed a bs f True (apply_op (\<lambda>_. 0) (Page_Program a bs) f)"
  unfolding cells_programmed_def apply_page_program [OF assms]
  by (auto simp: and_or_absorb and_absorb)

lemma program_command:
  "write_latch d \<Longrightarrow> chip_command (take n [EXTERNAL_FLASH_INSTRUCTION_PAGE_PROGRAM, a, b, c]) d = d"
  "write_latch d \<Longrightarrow> chip_command ([EXTERNAL_FLASH_INSTRUCTION_PAGE_PROGRAM, a, b, c] @ data) d =
     (if data = [] then d else d\<lparr>pending := Some (Page_Program (address24 a b c) data), write_latch := False\<rparr>)"
proof -
  consider "n = 0" | "n = Suc 0" | "n = Suc (Suc 0)" | "n = Suc (Suc (Suc 0))" | "n \<ge> 4" by linarith
  then show "write_latch d \<Longrightarrow> chip_command (take n [EXTERNAL_FLASH_INSTRUCTION_PAGE_PROGRAM, a, b, c]) d = d"
    by cases auto
qed (cases data; simp)

lemma dma_interrupt_fields:
  "cells (dma_interrupt q d) = cells d" "pending (dma_interrupt q d) = pending d" "bus_frame (dma_interrupt q d) = bus_frame d"
  "write_latch (dma_interrupt q d) = write_latch d"
  "external_flash_initialized (dma_interrupt q d) = external_flash_initialized d"
  "completion q \<noteq> Some Transfer_Complete \<Longrightarrow> transfer_semaphore (dma_interrupt q d) \<Longrightarrow> \<not> transfer_semaphore d \<Longrightarrow>
     transfer_result (dma_interrupt q d) = EXTERNAL_FLASH_RESULT_IO_ERROR"
  "completion q = Some Transfer_Complete \<Longrightarrow>
     transfer_semaphore (dma_interrupt q d) \<and> transfer_result (dma_interrupt q d) = EXTERNAL_FLASH_RESULT_OK"
  by (auto simp: dma_interrupt_def external_flash_transfer_complete_callback_def external_flash_transfer_error_callback_def
      external_flash_signal_transfer_complete_from_isr_def split: option.splits dma_irq.splits)

text \<open>A DMA transfer clocks a prefix of its bytes, and all of them when it reports OK.\<close>

lemma transmit_dma_effect:
  assumes "external_flash_transmit_dma bs d = (r, d')"
  shows "same_chip d d' \<and> write_latch d' = write_latch d \<and>
    (\<exists>n. bus_frame d' = bus_frame d @ take n bs \<and> (r = EXTERNAL_FLASH_RESULT_OK \<longrightarrow> n = length bs))"
proof -
  obtain q d1 where q: "take_outcome (d\<lparr>transfer_semaphore := False\<rparr>) = (q, d1)" by (metis surj_pair)
  note f = take_outcome_fields [OF q]
  show ?thesis
  proof (cases "hal_status q = HAL_OK")
    case False
    then show ?thesis using assms q f
      by (auto simp: external_flash_transmit_dma_def xSemaphoreTake_transfer_def same_chip_def intro: exI [of _ 0])
  next
    case True
    let ?d2 = "chip_clock (take (dma_moved q (length bs)) bs) d1"
    have s: "\<not> transfer_semaphore ?d2" using f by (simp add: chip_clock_def)
    have d': "d' = (dma_interrupt q ?d2)\<lparr>transfer_semaphore := False\<rparr>"
      and r: "r = (if transfer_semaphore (dma_interrupt q ?d2) then transfer_result (dma_interrupt q ?d2) else EXTERNAL_FLASH_RESULT_TIMEOUT)"
      using assms q True by (auto simp: external_flash_transmit_dma_def xSemaphoreTake_transfer_def Let_def split: if_splits)
    have "r = EXTERNAL_FLASH_RESULT_OK \<Longrightarrow> completion q = Some Transfer_Complete"
      using dma_interrupt_fields(6) [of q ?d2] s r by (auto split: if_splits)
    then have "r = EXTERNAL_FLASH_RESULT_OK \<longrightarrow> dma_moved q (length bs) = length bs" by (simp add: dma_moved_def)
    moreover have "bus_frame d' = bus_frame d @ take (dma_moved q (length bs)) bs" "same_chip d d'" "write_latch d' = write_latch d"
      using f d' by (simp_all add: same_chip_def dma_interrupt_fields chip_clock_def)
    ultimately show ?thesis by blast
  qed
qed

lemma send_address_effect:
  assumes "external_flash_send_address_command i a d = (r, d')"
  shows "same_chip d d' \<and> write_latch d' = write_latch d \<and> (\<exists>n. bus_frame d' = bus_frame d @
      take n [i, ucast (drop_bit 16 a), ucast (drop_bit 8 a), ucast a] \<and> (r = EXTERNAL_FLASH_RESULT_OK \<longrightarrow> n = 4))"
proof -
  let ?c = "[i, ucast (drop_bit 16 a), ucast (drop_bit 8 a), ucast a]"
  obtain q d1 where q: "take_outcome d = (q, d1)" by (metis surj_pair)
  have "take 4 ?c = ?c" by simp
  then show ?thesis using assms q take_outcome_fields [OF q]
    by (auto simp: external_flash_send_address_command_def external_flash_transmit_polling_def HAL_SPI_Transmit_def
        chip_clock_def same_chip_def split: if_splits)
qed

lemma deselect_page:
  assumes "pending d = None" "write_latch d" "unat (a :: u32) < 2 ^ 24"
    and "bus_frame d = [EXTERNAL_FLASH_INSTRUCTION_PAGE_PROGRAM, ucast (drop_bit 16 a), ucast (drop_bit 8 a), ucast a] @ data"
  shows "cells (chip_deselect d) = cells d" "external_flash_initialized (chip_deselect d) = external_flash_initialized d"
    "pending (chip_deselect d) = (if data = [] then None else Some (Page_Program (unat a) data))"
  using assms program_command(2) [OF assms(2), of "ucast (drop_bit 16 a)" "ucast (drop_bit 8 a)" "ucast a" data] address24_bytes [OF assms(3)]
  by (simp_all add: chip_deselect_def Let_def)

lemma program_page_effect:
  assumes "program_page a bs d = (r, d')" "pending d = None" "unat a < 2 ^ 24" "bs \<noteq> []"
  shows "cells d' = cells d \<and> external_flash_initialized d' = external_flash_initialized d \<and>
    (pending d' = None \<or> (\<exists>n. pending d' = Some (Page_Program (unat a) (take n bs)))) \<and>
    (r = EXTERNAL_FLASH_RESULT_OK \<longrightarrow> pending d' = Some (Page_Program (unat a) bs))"
proof -
  let ?h = "[EXTERNAL_FLASH_INSTRUCTION_PAGE_PROGRAM, ucast (drop_bit 16 a), ucast (drop_bit 8 a), ucast a]"
  obtain r1 d1 where w: "external_flash_write_enable d = (r1, d1)" by (metis surj_pair)
  note we = write_enable_effect [OF w]
  show ?thesis
  proof (cases "r1 = EXTERNAL_FLASH_RESULT_OK")
    case False
    then show ?thesis using assms(1,2) w we(1) by (auto simp: program_page_def same_chip_def)
  next
    case True
    then have l: "write_latch d1" using we(2) assms(2) by simp
    obtain r2 d2 where c: "external_flash_send_address_command EXTERNAL_FLASH_INSTRUCTION_PAGE_PROGRAM a (chip_select d1) = (r2, d2)"
      by (metis surj_pair)
    from send_address_effect [OF c] obtain n where s2: "same_chip (chip_select d1) d2" "write_latch d2 = write_latch (chip_select d1)"
      "bus_frame d2 = take n ?h" "r2 = EXTERNAL_FLASH_RESULT_OK \<longrightarrow> n = 4"
      by (auto simp: chip_select_def)
    have d2: "cells d2 = cells d" "pending d2 = None" "write_latch d2" "external_flash_initialized d2 = external_flash_initialized d"
      using s2 we(1) l assms(2) by (auto simp: same_chip_def chip_select_def)
    show ?thesis
    proof (cases "r2 = EXTERNAL_FLASH_RESULT_OK")
      case False
      have "chip_deselect d2 = d2\<lparr>bus_frame := []\<rparr>"
        by (rule chip_deselect_ignored) (simp only: s2(3) program_command(1) [OF d2(3)])
      moreover have "d' = chip_deselect d2" "r = r2" using assms(1) w True c False by (auto simp: program_page_def)
      ultimately show ?thesis using d2 False by simp
    next
      case ok: True
      obtain r3 d3 where t: "external_flash_transmit_dma bs d2 = (r3, d3)" by (metis surj_pair)
      from transmit_dma_effect [OF t] obtain k where s3: "same_chip d2 d3" "write_latch d3 = write_latch d2"
        "bus_frame d3 = bus_frame d2 @ take k bs" "r3 = EXTERNAL_FLASH_RESULT_OK \<longrightarrow> k = length bs" by blast
      have b: "bus_frame d3 = ?h @ take k bs" using s3(3) s2(3,4) ok by simp
      have d3: "pending d3 = None" "write_latch d3" using s3 d2 by (auto simp: same_chip_def)
      note ds = deselect_page [OF d3 assms(3) b]
      have "d' = chip_deselect d3" "r = r3" using assms(1) w True c ok t by (auto simp: program_page_def)
      then show ?thesis using ds s3 d2 assms(4) by (auto simp: same_chip_def)
    qed
  qed
qed

lemma settle_none: "pending d = None \<Longrightarrow> settle m d = cells d"
  by (simp add: settle_def)

lemma settle_same: "same_chip d d' \<Longrightarrow> settle m d' = settle m d"
  by (simp add: settle_def same_chip_def split: option.splits)

lemma program_pages_effect:
  "program_pages a bs EXTERNAL_FLASH_RESULT_OK d = (r, d') \<Longrightarrow> pending d = None \<Longrightarrow> unat a + length bs \<le> 2 ^ 24 \<Longrightarrow>
   external_flash_initialized d' = external_flash_initialized d \<and>
   cells_programmed (unat a) bs (cells d) (r = EXTERNAL_FLASH_RESULT_OK) (settle m d') \<and>
   (r = EXTERNAL_FLASH_RESULT_OK \<longrightarrow> pending d' = None)"
proof (induction a bs "EXTERNAL_FLASH_RESULT_OK" d arbitrary: r d' rule: program_pages.induct)
  case (1 a bs d)
  show ?case
  proof (cases "bs = []")
    case True
    then have "r = EXTERNAL_FLASH_RESULT_OK" "d' = d" using 1(2) by (simp_all add: program_pages.simps)
    then show ?thesis using True 1(3) by (simp add: settle_none cells_programmed_none)
  next
    case False
    let ?n = "page_chunk a bs"
    let ?p = "take ?n bs"
    have n: "?n \<le> length bs" "0 < ?n" "unat a mod 256 + ?n \<le> 256" using page_chunk_pos [OF False, of a] by (auto simp: page_chunk_eq)
    have a24: "unat a < 2 ^ 24" using 1(4) False by (cases bs) auto
    have fit: "unat a mod 256 + length (take k ?p) \<le> 256" for k using n by simp
    have p0: "?p \<noteq> []" using n False by simp
    obtain r1 d1 where pg: "program_page a ?p d = (r1, d1)" by (metis surj_pair)
    note pe = program_page_effect [OF pg 1(3) a24 p0]
    have pc: "cells_programmed (unat a) bs (cells d) False (settle m d1)"
    proof (cases "pending d1")
      case None
      then show ?thesis using pe by (simp add: settle_none cells_programmed_none)
    next
      case (Some oper)
      then obtain k where "pending d1 = Some (Page_Program (unat a) (take k ?p))" using pe by auto
      then have "settle m d1 = apply_op m (Page_Program (unat a) (take k ?p)) (cells d)" using pe by (simp add: settle_def)
      then have "cells_programmed (unat a) (take k ?p @ (drop k ?p @ drop ?n bs)) (cells d) False (settle m d1)"
        using cells_programmed_fail [OF page_programmed(1) [OF fit [of k]]] by simp
      then show ?thesis by (metis append.assoc append_take_drop_id)
    qed
    show ?thesis
    proof (cases "r1 = EXTERNAL_FLASH_RESULT_OK")
      case fail: False
      then have "r = r1" "d' = d1" using 1(2) False pg by (simp_all add: program_pages.simps [of a bs] Let_def)
      then show ?thesis using fail pe pc by simp
    next
      case ok: True
      obtain r2 d2 where wr: "external_flash_wait_ready d1 = (r2, d2)" by (metis surj_pair)
      note w = wait_ready_waited [OF wr, unfolded waited_def]
      have rest: "program_pages (a + of_nat ?n) (drop ?n bs) r2 d2 = (r, d')"
        using 1(2) False pg ok wr by (simp add: program_pages.simps [of a bs] Let_def)
      show ?thesis
      proof (cases "r2 = EXTERNAL_FLASH_RESULT_OK")
        case fail: False
        then have "r = r2" "d' = d2" using rest by (simp_all add: program_pages.simps)
        then show ?thesis using fail w pe pc settle_same [of d1 d2 m] by simp
      next
        case ok2: True
        then have d2: "cells d2 = apply_op (\<lambda>_. 0) (Page_Program (unat a) ?p) (cells d)" "pending d2 = None"
          "external_flash_initialized d2 = external_flash_initialized d"
          using w pe ok by (auto simp: settle_def)
        have prg: "cells_programmed (unat a) ?p (cells d) True (cells d2)"
          unfolding d2 by (rule page_programmed(2)) (use fit [of ?n] in simp)
        show ?thesis
        proof (cases "drop ?n bs = []")
          case True
          then have "r = EXTERNAL_FLASH_RESULT_OK" "d' = d2" "?p = bs" using rest ok2 by (simp_all add: program_pages.simps)
          then show ?thesis using prg d2 by (simp add: settle_none)
        next
          case more: False
          then have lt: "?n < length bs" by simp
          have ua: "unat (a + of_nat ?n) = unat a + ?n"
            by (rule unat_add_small) (use 1(4) lt in simp)
          have "unat (a + of_nat ?n) + length (drop ?n bs) \<le> 2 ^ 24" using ua 1(4) n by simp
          from 1(1) [OF _ refl pg [symmetric] _ wr [symmetric, unfolded ok2] rest [unfolded ok2] d2(2) this] False ok
          have IH: "external_flash_initialized d' = external_flash_initialized d2"
            "cells_programmed (unat a + ?n) (drop ?n bs) (cells d2) (r = EXTERNAL_FLASH_RESULT_OK) (settle m d')"
            "r = EXTERNAL_FLASH_RESULT_OK \<longrightarrow> pending d' = None"
            unfolding ua by simp_all
          have lp: "length ?p = ?n" using n by simp
          have "cells_programmed (unat a) (?p @ drop ?n bs) (cells d) (r = EXTERNAL_FLASH_RESULT_OK) (settle m d')"
            by (rule cells_programmed_append [OF prg]) (simp only: lp IH(2))
          then have "cells_programmed (unat a) bs (cells d) (r = EXTERNAL_FLASH_RESULT_OK) (settle m d')"
            by (simp only: append_take_drop_id)
          then show ?thesis using IH d2 by simp
        qed
      qed
    qed
  qed
qed

lemma valid_range24: "external_flash_range_is_valid a n \<Longrightarrow> unat a + unat n \<le> 2 ^ 24"
proof -
  assume v: "external_flash_range_is_valid a n"
  then have le: "a \<le> 0x01000000" by (simp add: external_flash_range_is_valid_def word_le_nat_alt word_less_nat_alt)
  have "unat n \<le> unat (0x01000000 - a)" using v by (simp add: external_flash_range_is_valid_def word_le_nat_alt)
  moreover have "unat (0x01000000 - a) = 2 ^ 24 - unat a" using unat_sub [OF le] by simp
  moreover have "unat a \<le> 2 ^ 24" using le by (simp add: word_le_nat_alt)
  ultimately show ?thesis by simp
qed

text \<open>The memories a supply failure may leave.\<close>

definition images :: "external_flash \<Rightarrow> (nat \<Rightarrow> u8) set" where
  "images d = {settle m d | m. True}"

lemma waited_images: "waited d r d' \<Longrightarrow> images d' \<subseteq> images d"
  by (auto simp: waited_def images_def settle_none settle_same split: if_splits)

lemma images_none: "pending d = None \<Longrightarrow> images d = {cells d}"
  by (simp add: images_def settle_none)

lemma settle_in_images: "settle m d \<in> images d"
  by (auto simp: images_def)

lemma program_effect:
  assumes "external_flash_program a (Some bs) n d = (r, d')" "unat n \<le> length bs" and f': "f' \<in> images d'"
  shows "external_flash_initialized d' = external_flash_initialized d \<and>
    (\<exists>f \<in> images d. cells_programmed (unat a) (take (unat n) bs) f (r = EXTERNAL_FLASH_RESULT_OK) f') \<and>
    (r = EXTERNAL_FLASH_RESULT_OK \<longrightarrow> unat a + unat n \<le> 2 ^ 24)"
proof (cases "\<not> external_flash_initialized d \<or> n = 0 \<or> \<not> external_flash_range_is_valid a n")
  case True
  then have "d' = d" "r \<noteq> EXTERNAL_FLASH_RESULT_OK" using assms(1) by (auto simp: external_flash_program_def split: if_splits)
  then show ?thesis using f' by (auto intro!: bexI [of _ f'] cells_programmed_none)
next
  case False
  obtain r1 d1 where wr: "external_flash_wait_ready d = (r1, d1)" by (metis surj_pair)
  note w = wait_ready_waited [OF wr]
  have p: "program_pages a (take (unat n) bs) r1 d1 = (r, d')" using assms(1) False wr by (simp add: external_flash_program_def)
  show ?thesis
  proof (cases "r1 = EXTERNAL_FLASH_RESULT_OK")
    case fail: False
    then have "d' = d1" "r = r1" using p by (simp_all add: program_pages.simps)
    then show ?thesis using fail w waited_images [OF w] f'
      by (auto simp: waited_def intro!: bexI [of _ f'] cells_programmed_none)
  next
    case ok: True
    have n24: "unat a + unat n \<le> 2 ^ 24" using valid_range24 [of a n] False by simp
    then have len: "unat a + length (take (unat n) bs) \<le> 2 ^ 24" by simp
    obtain m where m: "f' = settle m d'" using f' by (auto simp: images_def)
    have "pending d1 = None" "cells d1 = settle (\<lambda>_. 0) d" "external_flash_initialized d1 = external_flash_initialized d"
      using w ok by (auto simp: waited_def)
    then show ?thesis using program_pages_effect [OF p [unfolded ok] _ len, of m] settle_in_images [of "\<lambda>_. 0" d] n24
      by (auto simp: m)
  qed
qed

text \<open>Erasing.\<close>

definition cells_erased :: "nat \<Rightarrow> nat \<Rightarrow> (nat \<Rightarrow> u8) \<Rightarrow> bool \<Rightarrow> (nat \<Rightarrow> u8) \<Rightarrow> bool" where
  "cells_erased a n f ok g \<longleftrightarrow> (\<forall>x. if a \<le> x \<and> x < a + n
     then g x OR f x = g x \<and> (ok \<longrightarrow> g x = 0xFF)
     else g x = f x)"

lemma cells_erased_none: "cells_erased a n f False f"
  by (auto simp: cells_erased_def)

lemma or_not_absorb: "(f OR NOT m) OR f = f OR NOT m" "f OR NOT 0 = 0xFF" for f m :: u8
proof -
  have "(0xFF :: u8) = - 1" by simp
  then show "f OR NOT 0 = 0xFF" by (metis bit.compl_zero bit.disj_one_right)
qed (simp add: or.assoc or.commute or.left_commute)

lemma sector_range: "a mod 4096 = 0 \<Longrightarrow> x div 4096 = a div 4096 \<longleftrightarrow> a \<le> x \<and> x < a + 4096" for a x :: nat
  using div_mult_mod_eq [of a 4096] div_mult_mod_eq [of x 4096] mod_less_divisor [of 4096 x]
  by (auto simp: div_nat_eqI simp del: mod_less_divisor)

lemma erase_effect:
  assumes "external_flash_erase_4k a d = (r, d')" "f' \<in> images d'"
  shows "external_flash_initialized d' = external_flash_initialized d \<and>
    (\<exists>f \<in> images d. cells_erased (unat a) 4096 f (r = EXTERNAL_FLASH_RESULT_OK) f')"
proof (cases "\<not> external_flash_initialized d \<or> a > 0x01000000 - 4096 \<or> a AND 4095 \<noteq> 0")
  case True
  then have "d' = d" "r \<noteq> EXTERNAL_FLASH_RESULT_OK" using assms(1) by (auto simp: external_flash_erase_4k_def split: if_splits)
  then show ?thesis using assms(2) by (auto intro!: bexI [of _ f'] cells_erased_none)
next
  case False
  obtain r1 d1 where wr: "external_flash_wait_ready d = (r1, d1)" by (metis surj_pair)
  note w = wait_ready_waited [OF wr]
  show ?thesis
  proof (cases "r1 = EXTERNAL_FLASH_RESULT_OK")
    case fail: False
    then have "d' = d1" "r = r1" using assms(1) False wr by (simp_all add: external_flash_erase_4k_def)
    then show ?thesis using fail w waited_images [OF w] assms(2)
      by (auto simp: waited_def intro!: bexI [of _ f'] cells_erased_none)
  next
    case ok: True
    have d1: "pending d1 = None" "cells d1 = settle (\<lambda>_. 0) d" "external_flash_initialized d1 = external_flash_initialized d"
      using w ok by (auto simp: waited_def)
    obtain r2 d2 where we: "external_flash_write_enable d1 = (r2, d2)" by (metis surj_pair)
    note wee = write_enable_effect [OF we]
    have base: "cells d1 \<in> images d" using d1 settle_in_images by metis
    show ?thesis
    proof (cases "r2 = EXTERNAL_FLASH_RESULT_OK")
      case fail: False
      then have "d' = d2" "r = r2" using assms(1) False wr ok we by (simp_all add: external_flash_erase_4k_def)
      then have "f' = cells d1" using assms(2) wee(1) d1 by (auto simp: same_chip_def images_none)
      then show ?thesis using fail base \<open>d' = d2\<close> \<open>r = r2\<close> wee(1) d1
        by (auto simp: same_chip_def intro!: bexI [of _ f'] cells_erased_none)
    next
      case ok2: True
      let ?h = "[EXTERNAL_FLASH_INSTRUCTION_SECTOR_ERASE_4K, ucast (drop_bit 16 a), ucast (drop_bit 8 a), ucast a]"
      obtain r3 d3 where c: "external_flash_send_address_command EXTERNAL_FLASH_INSTRUCTION_SECTOR_ERASE_4K a (chip_select d2) = (r3, d3)"
        by (metis surj_pair)
      from send_address_effect [OF c] obtain n where s3: "same_chip (chip_select d2) d3" "write_latch d3 = write_latch (chip_select d2)"
        "bus_frame d3 = take n ?h" "r3 = EXTERNAL_FLASH_RESULT_OK \<longrightarrow> n = 4"
        by (auto simp: chip_select_def)
      have d3: "cells d3 = cells d1" "pending d3 = None" "write_latch d3" "external_flash_initialized d3 = external_flash_initialized d"
        using s3 wee ok2 d1 by (auto simp: same_chip_def chip_select_def)
      have ua: "unat a \<le> 0x01000000 - 4096" "unat a mod 4096 = 0"
      proof -
        have "a AND 4095 = take_bit 12 a" by (simp add: take_bit_eq_mask mask_eq_exp_minus_1)
        then have "unat (a AND 4095) = unat a mod 4096" by (simp add: unsigned_take_bit_eq take_bit_eq_mod unat_mod)
        then show "unat a mod 4096 = 0" using False by simp
      qed (use False in \<open>simp add: word_le_nat_alt not_less\<close>)
      have a24: "address24 (ucast (drop_bit 16 a)) (ucast (drop_bit 8 a)) (ucast a) = unat a"
        by (rule address24_bytes) (use ua in simp)
      define d4 where "d4 = chip_deselect d3"
      have d4: "cells d4 = cells d1 \<and> external_flash_initialized d4 = external_flash_initialized d \<and>
          (pending d4 = None \<or> pending d4 = Some (Sector_Erase (unat a))) \<and>
          (r3 = EXTERNAL_FLASH_RESULT_OK \<longrightarrow> pending d4 = Some (Sector_Erase (unat a)))"
      proof -
        consider "n = 0" | "n = Suc 0" | "n = Suc (Suc 0)" | "n = Suc (Suc (Suc 0))" | "n \<ge> 4" by linarith
        then show ?thesis using d3 a24 s3(3,4) by cases (auto simp: d4_def chip_deselect_def Let_def)
      qed
      have er: "cells_erased (unat a) 4096 (cells d1) False (apply_op m (Sector_Erase (unat a)) (cells d1))"
        "cells_erased (unat a) 4096 (cells d1) True (apply_op (\<lambda>_. 0) (Sector_Erase (unat a)) (cells d1))" for m
        using sector_range [OF ua(2)] by (auto simp: cells_erased_def or_not_absorb)
      have any: "cells_erased (unat a) 4096 (cells d1) False (settle m d4)" for m
        using d4 er(1) by (auto simp: settle_def cells_erased_none)
      show ?thesis
      proof (cases "r3 = EXTERNAL_FLASH_RESULT_OK")
        case fail: False
        then have "d' = d4" "r = r3" using assms(1) False wr ok we ok2 c by (simp_all add: external_flash_erase_4k_def d4_def Let_def)
        then show ?thesis using fail any base assms(2) d4 by (auto simp: images_def)
      next
        case ok3: True
        then have wr4: "external_flash_wait_ready d4 = (r, d')"
          using assms(1) False wr ok we ok2 c by (simp add: external_flash_erase_4k_def d4_def Let_def)
        note w4 = wait_ready_waited [OF wr4]
        show ?thesis
        proof (cases "r = EXTERNAL_FLASH_RESULT_OK")
          case True
          then have "f' = apply_op (\<lambda>_. 0) (Sector_Erase (unat a)) (cells d1)"
            using w4 d4 ok3 assms(2) by (auto simp: waited_def images_none settle_def)
          then show ?thesis using er(2) base True w4 d4 by (auto simp: waited_def)
        next
          case fail: False
          then have "f' \<in> images d4" using waited_images [OF w4] assms(2) by auto
          then show ?thesis using fail any base w4 d4 by (auto simp: images_def waited_def same_chip_def)
        qed
      qed
    qed
  qed
qed

section \<open>Reading\<close>

lemma chip_output_length [simp]: "length (chip_output fr n d) = n"
  by (cases "(fr, n, d)" rule: chip_output.cases) auto

lemma chip_output_read:
  assumes "pending d = None" "unat (a :: u32) < 2 ^ 24"
  shows "chip_output ([EXTERNAL_FLASH_INSTRUCTION_READ_DATA, ucast (drop_bit 16 a), ucast (drop_bit 8 a), ucast a] @ rest) n d =
    map (\<lambda>k. cells d ((unat a + length rest + k) mod 2 ^ 24)) [0..<n]"
  using assms(1) address24_bytes [OF assms(2)] by simp

lemma receive_dma_effect:
  assumes "external_flash_receive_dma i n dst d = (r, dst', d')" "i + n \<le> length dst"
  shows "same_chip d d' \<and> length dst' = length dst \<and> (\<exists>k. bus_frame d' = bus_frame d @ replicate k 0xFF \<and>
    (r = EXTERNAL_FLASH_RESULT_OK \<longrightarrow> k = n \<and> dst' = overwrite i (chip_output (bus_frame d) n d) dst))"
proof -
  obtain q d1 where q: "take_outcome (d\<lparr>transfer_semaphore := False\<rparr>) = (q, d1)" by (metis surj_pair)
  note f = take_outcome_fields [OF q]
  show ?thesis
  proof (cases "hal_status q = HAL_OK")
    case False
    then show ?thesis using assms q f
      by (auto simp: external_flash_receive_dma_def xSemaphoreTake_transfer_def same_chip_def intro: exI [of _ 0])
  next
    case True
    let ?k = "dma_moved q n"
    let ?d2 = "chip_clock (replicate ?k 0xFF) d1"
    have s: "\<not> transfer_semaphore ?d2" using f by (simp add: chip_clock_def)
    have d': "d' = (dma_interrupt q ?d2)\<lparr>transfer_semaphore := False\<rparr>"
      and dst': "dst' = overwrite i (chip_output (bus_frame d1) ?k d1) dst"
      and r: "r = (if transfer_semaphore (dma_interrupt q ?d2) then transfer_result (dma_interrupt q ?d2) else EXTERNAL_FLASH_RESULT_TIMEOUT)"
      using assms q True by (auto simp: external_flash_receive_dma_def xSemaphoreTake_transfer_def Let_def split: if_splits)
    have "r = EXTERNAL_FLASH_RESULT_OK \<Longrightarrow> completion q = Some Transfer_Complete"
      using dma_interrupt_fields(6) [of q ?d2] s r by (auto split: if_splits)
    then have "r = EXTERNAL_FLASH_RESULT_OK \<longrightarrow> ?k = n" by (simp add: dma_moved_def)
    moreover have "chip_output (bus_frame d1) ?k d1 = chip_output (bus_frame d) ?k d"
      using f by (cases "(bus_frame d, ?k, d)" rule: chip_output.cases) simp_all
    moreover have "?k \<le> n" by (simp add: dma_moved_def)
    then have "length dst' = length dst" using assms(2) dst' by simp
    moreover have "bus_frame d' = bus_frame d @ replicate ?k 0xFF" "same_chip d d'"
      using f d' by (simp_all add: same_chip_def dma_interrupt_fields chip_clock_def)
    ultimately show ?thesis using dst' by auto
  qed
qed

lemma read_chunks_effect:
  "read_chunks i n r0 dst d = (r, dst', d') \<Longrightarrow> pending d = None \<Longrightarrow> unat (a :: u32) + i + n \<le> 2 ^ 24 \<Longrightarrow> i + n \<le> length dst \<Longrightarrow>
   bus_frame d = [EXTERNAL_FLASH_INSTRUCTION_READ_DATA, ucast (drop_bit 16 a), ucast (drop_bit 8 a), ucast a] @ rest \<Longrightarrow>
   length rest = i \<Longrightarrow>
   same_chip d d' \<and> length dst' = length dst \<and> (\<exists>t. bus_frame d' = EXTERNAL_FLASH_INSTRUCTION_READ_DATA # t) \<and>
   (r = EXTERNAL_FLASH_RESULT_OK \<longrightarrow> dst' = overwrite i (map (\<lambda>k. cells d (unat a + i + k)) [0..<n]) dst)"
proof (induction i n r0 dst d arbitrary: r dst' d' rest rule: read_chunks.induct)
  case (1 i n r0 dst d)
  show ?case
  proof (cases "r0 \<noteq> EXTERNAL_FLASH_RESULT_OK \<or> n = 0")
    case True
    then have "r = r0" "dst' = dst" "d' = d" using 1(2) by (auto simp: read_chunks.simps)
    then show ?thesis using True 1(6) by auto
  next
    case False
    let ?n = "if n < 65535 then n else 65535"
    let ?h = "[EXTERNAL_FLASH_INSTRUCTION_READ_DATA, ucast (drop_bit 16 a), ucast (drop_bit 8 a), ucast a]"
    have n: "?n \<le> n" "0 < ?n" "unat a < 2 ^ 24" using 1(4) False by auto
    obtain r1 dst1 d1 where rc: "external_flash_receive_dma i ?n dst d = (r1, dst1, d1)" by (metis prod_cases3)
    have "i + ?n \<le> length dst" using 1(5) n by linarith
    from receive_dma_effect [OF rc this] obtain k where e: "same_chip d d1" "length dst1 = length dst"
      "bus_frame d1 = bus_frame d @ replicate k 0xFF"
      "r1 = EXTERNAL_FLASH_RESULT_OK \<longrightarrow> k = ?n \<and> dst1 = overwrite i (chip_output (bus_frame d) ?n d) dst" by blast
    have rest: "read_chunks (i + ?n) (n - ?n) r1 dst1 d1 = (r, dst', d')"
      using 1(2) False rc by (simp only: read_chunks.simps [of i n] Let_def prod.case if_False)
    have f1: "bus_frame d1 = ?h @ (rest @ replicate k 0xFF)" using e(3) 1(6) by simp
    show ?thesis
    proof (cases "r1 = EXTERNAL_FLASH_RESULT_OK")
      case fail: False
      then have "r = r1" "dst' = dst1" "d' = d1" using rest by (simp_all add: read_chunks.simps)
      then show ?thesis using fail e f1 by simp
    next
      case ok: True
      have out: "dst1 = overwrite i (map (\<lambda>k. cells d (unat a + i + k)) [0..<?n]) dst"
      proof -
        have "(unat a + i + k) mod 2 ^ 24 = unat a + i + k" if "k < ?n" for k using that 1(4) n by simp
        then have "map (\<lambda>k. cells d ((unat a + length rest + k) mod 2 ^ 24)) [0..<?n] = map (\<lambda>k. cells d (unat a + i + k)) [0..<?n]"
          unfolding 1(7) by (intro map_cong) auto
        then show ?thesis using e(4) ok chip_output_read [OF 1(3) n(3), of rest ?n] unfolding 1(6) by argo
      qed
      have p1: "pending d1 = None" using e(1) 1(3) by (simp add: same_chip_def)
      have b: "unat a + (i + ?n) + (n - ?n) \<le> 2 ^ 24" "i + ?n + (n - ?n) \<le> length dst1" "length (rest @ replicate k 0xFF) = i + ?n"
        using 1(4,5,7) n e(2,4) ok by simp_all
      from 1(1) [OF False refl rc [symmetric] refl rest p1 b(1,2) f1 b(3)]
      have IH: "same_chip d1 d'" "length dst' = length dst1" "\<exists>t. bus_frame d' = EXTERNAL_FLASH_INSTRUCTION_READ_DATA # t"
        "r = EXTERNAL_FLASH_RESULT_OK \<longrightarrow> dst' = overwrite (i + ?n) (map (\<lambda>k. cells d1 (unat a + (i + ?n) + k)) [0..<n - ?n]) dst1"
        by blast+
      have j: "map f [0..<?n] @ map (\<lambda>k. f (?n + k)) [0..<n - ?n] = map f [0..<n]" for f :: "nat \<Rightarrow> u8"
        using n(1) by (intro nth_equalityI) (auto simp: nth_append)
      let ?A = "map (\<lambda>k. cells d (unat a + i + k)) [0..<?n]" and ?B = "map (\<lambda>k. cells d (unat a + (i + ?n) + k)) [0..<n - ?n]"
      have lA: "length ?A = ?n" by simp
      have B: "?B = map (\<lambda>k. cells d (unat a + i + (?n + k))) [0..<n - ?n]" by (simp only: add.assoc)
      have "i + ?n \<le> length dst" using 1(5) n(1) by linarith
      from overwrite_append [of i ?A dst ?B, unfolded lA, OF this]
      have "overwrite (i + ?n) ?B dst1 = overwrite i (map (\<lambda>k. cells d (unat a + i + k)) [0..<n]) dst"
        unfolding out B j [of "\<lambda>k. cells d (unat a + i + k)"] .
      then show ?thesis using IH e by (simp add: same_chip_def)
    qed
  qed
qed

lemma read_effect:
  assumes "external_flash_read a (Some dst) n d = (r, out, d')" "unat n \<le> length dst"
  shows "images d' \<subseteq> images d \<and> external_flash_initialized d' = external_flash_initialized d \<and>
    (\<exists>dst'. out = Some dst' \<and> length dst' = length dst \<and> (r = EXTERNAL_FLASH_RESULT_OK \<longrightarrow>
       pending d' = None \<and> dst' = overwrite 0 (map (\<lambda>k. cells d' (unat a + k)) [0..<unat n]) dst))"
proof (cases "\<not> external_flash_initialized d \<or> n = 0 \<or> \<not> external_flash_range_is_valid a n")
  case True
  then show ?thesis using assms(1) by (auto simp: external_flash_read_def split: if_splits)
next
  case False
  obtain r1 d1 where wr: "external_flash_wait_ready d = (r1, d1)" by (metis surj_pair)
  note w = wait_ready_waited [OF wr]
  have range: "unat a + unat n \<le> 2 ^ 24" using valid_range24 [of a n] False by simp
  show ?thesis
  proof (cases "r1 = EXTERNAL_FLASH_RESULT_OK")
    case fail: False
    then have "d' = d1" "r = r1" "out = Some dst" using assms(1) False wr by (simp_all add: external_flash_read_def)
    then show ?thesis using fail w waited_images [OF w] by (auto simp: waited_def)
  next
    case ok: True
    have d1: "pending d1 = None" "external_flash_initialized d1 = external_flash_initialized d" using w ok by (auto simp: waited_def)
    let ?h = "[EXTERNAL_FLASH_INSTRUCTION_READ_DATA, ucast (drop_bit 16 a), ucast (drop_bit 8 a), ucast a]"
    obtain r2 d2 where c: "external_flash_send_address_command EXTERNAL_FLASH_INSTRUCTION_READ_DATA a (chip_select d1) = (r2, d2)"
      by (metis surj_pair)
    from send_address_effect [OF c] obtain k where s2: "same_chip (chip_select d1) d2"
      "bus_frame d2 = take k ?h" "r2 = EXTERNAL_FLASH_RESULT_OK \<longrightarrow> k = 4"
      by (auto simp: chip_select_def)
    have s12: "same_chip d1 d2" using s2(1) by (simp add: same_chip_def chip_select_def)
    obtain r3 dst3 d3 where rc: "read_chunks 0 (unat n) r2 dst d2 = (r3, dst3, d3)" by (metis prod_cases3)
    have e: "r = r3" "out = Some dst3" "d' = chip_deselect d3" using assms(1) False wr ok c rc by (simp_all add: external_flash_read_def)
    have ig: "chip_command (take k (EXTERNAL_FLASH_INSTRUCTION_READ_DATA # t)) e = e" for k t e
      by (cases "(take k (EXTERNAL_FLASH_INSTRUCTION_READ_DATA # t), e)" rule: chip_command.cases; cases k; auto)
    have main: "same_chip d2 d3 \<and> length dst3 = length dst \<and> (\<exists>k t. bus_frame d3 = take k (EXTERNAL_FLASH_INSTRUCTION_READ_DATA # t)) \<and>
      (r3 = EXTERNAL_FLASH_RESULT_OK \<longrightarrow> dst3 = overwrite 0 (map (\<lambda>k. cells d2 (unat a + k)) [0..<unat n]) dst)"
    proof (cases "r2 = EXTERNAL_FLASH_RESULT_OK")
      case fail: False
      then have "r3 = r2" "dst3 = dst" "d3 = d2" using rc by (simp_all add: read_chunks.simps)
      then show ?thesis using fail s2(2) by auto
    next
      case ok2: True
      have "unat a + 0 + unat n \<le> 2 ^ 24" "0 + unat n \<le> length dst" "bus_frame d2 = ?h @ []" "length ([] :: u8 list) = 0" "pending d2 = None"
        using range assms(2) s2(2,3) ok2 s12 d1 by (simp_all add: same_chip_def)
      from read_chunks_effect [OF rc this(5,1,2,3,4)] show ?thesis by (metis add.right_neutral take_all_iff le_refl)
    qed
    then obtain k t where b: "bus_frame d3 = take k (EXTERNAL_FLASH_INSTRUCTION_READ_DATA # t)" by blast
    have "chip_deselect d3 = d3\<lparr>bus_frame := []\<rparr>" by (rule chip_deselect_ignored) (simp only: b ig)
    then have "same_chip d1 d'" "cells d' = cells d2" using e main s12 by (auto simp: same_chip_def)
    moreover have "images d' = images d1" using settle_same [OF calculation(1)] by (simp add: images_def)
    ultimately show ?thesis using e main d1 waited_images [OF w] by (auto simp: same_chip_def)
  qed
qed

lemma init_effect:
  assumes "external_flash_init d = (r, d')" "pending d = None" "bus_frame d = []"
  shows "cells d' = cells d \<and> pending d' = None \<and> (external_flash_initialized d' = (r = EXTERNAL_FLASH_RESULT_OK))"
proof -
  have reg: "register_callbacks n e = (ok, e') \<Longrightarrow> same_chip e e'" for n e ok e'
  proof (induction n arbitrary: e)
    case (Suc n)
    obtain q e1 where q: "take_outcome e = (q, e1)" by (metis surj_pair)
    have "same_chip e e1" using take_outcome_fields [OF q] by (simp add: same_chip_def)
    then show ?case using Suc q same_chip_trans by (auto simp: HAL_SPI_RegisterCallback_def split: if_splits)
  qed simp
  show ?thesis using assms
    by (auto simp: external_flash_init_def chip_deselect_def Let_def same_chip_def dest!: reg split: if_splits prod.splits)
qed

section \<open>The interface of a flash that may lose its supply\<close>

text \<open>Runs a list of fallible steps up to the first failure.\<close>

fun run_steps :: "('d \<Rightarrow> bool \<times> 'd) list \<Rightarrow> 'd \<Rightarrow> bool \<times> 'd" where
  "run_steps [] d = (True, d)"
| "run_steps (s # ss) d = (case s d of (ok, d1) \<Rightarrow> if ok then run_steps ss d1 else (False, d1))"

text \<open>
  The contract of the driver towards a client that must survive a supply failure at any moment: \<open>images d\<close> is
  what the memory may contain after a failure now; every call moves each image from one of the images
  before, by programming or erasing inside its range, completely when the call succeeds; a successful read
  returns the contents, which are then certain.
\<close>

locale crash_store =
  fixes images :: "'d \<Rightarrow> (nat \<Rightarrow> u8) set"
    and prog :: "nat \<Rightarrow> u8 list \<Rightarrow> 'd \<Rightarrow> bool \<times> 'd"
    and erase :: "nat \<Rightarrow> 'd \<Rightarrow> bool \<times> 'd"
    and load :: "nat \<Rightarrow> nat \<Rightarrow> 'd \<Rightarrow> u8 list option \<times> 'd"
  assumes prog_law: "prog a bs d = (ok, d') \<Longrightarrow> f' \<in> images d' \<Longrightarrow> \<exists>f \<in> images d. cells_programmed a bs f ok f'"
    and erase_law: "erase a d = (ok, d') \<Longrightarrow> f' \<in> images d' \<Longrightarrow> \<exists>f \<in> images d. cells_erased a 4096 f ok f'"
    and load_law: "load a n d = (out, d') \<Longrightarrow> f' \<in> images d' \<Longrightarrow>
      f' \<in> images d \<and> (\<forall>bs. out = Some bs \<longrightarrow> bs = map (\<lambda>k. f' (a + k)) [0..<n])"
begin

text \<open>
  Committing a record of at most three sectors: erase, write all but the first four bytes, then write those.
  After a failure anywhere the slot is still torn in its first sector only, or its first four bytes are
  erased, or everything behind them is complete; outside the slot nothing has changed.
\<close>

lemma commit_images:
  assumes run: "run_steps [erase a, erase (a + 4096), erase (a + 8192), prog (a + 4) body, prog a hd4] d = (ok, d')"
    and len: "length hd4 = 4" "length body \<le> 12284" and f': "f' \<in> images d'"
  shows "\<exists>f \<in> images d. (\<forall>x. x < a \<or> a + 12288 \<le> x \<longrightarrow> f' x = f x) \<and>
    (cells_erased a 4096 f False f' \<or> (\<forall>i < 4. f' (a + i) = 0xFF) \<or> (\<forall>i < length body. f' (a + 4 + i) = body ! i)) \<and>
    (ok \<longrightarrow> (\<forall>i < 4. f' (a + i) = hd4 ! i) \<and> (\<forall>i < length body. f' (a + 4 + i) = body ! i))"
proof -
  obtain ok1 d1 where s1: "erase a d = (ok1, d1)" by (metis surj_pair)
  show ?thesis
  proof (cases ok1)
    case False
    then have e: "ok = False" "d' = d1" using run s1 by simp_all
    obtain f where "f \<in> images d" "cells_erased a 4096 f False f'" using erase_law [OF s1] f' e False by auto
    then show ?thesis using e by (intro bexI [of _ f]) (auto simp: cells_erased_def)
  next
    case t1: True
    obtain ok2 d2 where s2: "erase (a + 4096) d1 = (ok2, d2)" by (metis surj_pair)
    have i2: "\<exists>f \<in> images d. (\<forall>x. x < a \<or> a + 12288 \<le> x \<longrightarrow> g x = f x) \<and> (\<forall>i < 4096. g (a + i) = 0xFF) \<and>
        (ok2 \<longrightarrow> (\<forall>i < 8192. g (a + i) = 0xFF))" if g: "g \<in> images d2" for g
    proof -
      obtain f1 where f1: "f1 \<in> images d1" "cells_erased (a + 4096) 4096 f1 ok2 g" using erase_law [OF s2 g] by blast
      obtain f where f: "f \<in> images d" "cells_erased a 4096 f True f1" using erase_law [OF s1 f1(1)] t1 by auto
      have "(\<forall>x. x < a \<or> a + 12288 \<le> x \<longrightarrow> g x = f x)" using f f1 unfolding cells_erased_def by auto
      moreover have ff: "g (a + i) = 0xFF" if "i < 4096" for i using f f1 that unfolding cells_erased_def by auto
      moreover have "g (a + i) = 0xFF" if "ok2" "i < 8192" for i
        using f1(2) [unfolded cells_erased_def, rule_format, of "a + i"] that ff [of i] by (cases "i < 4096") auto
      ultimately show ?thesis using f(1) by blast
    qed
    show ?thesis
    proof (cases ok2)
      case False
      then have e: "ok = False" "d' = d2" using run s1 s2 t1 by simp_all
      show ?thesis using i2 [of f'] f' e by force
    next
      case t2: True
      obtain ok3 d3 where s3: "erase (a + 8192) d2 = (ok3, d3)" by (metis surj_pair)
      have i3: "\<exists>f \<in> images d. (\<forall>x. x < a \<or> a + 12288 \<le> x \<longrightarrow> g x = f x) \<and> (\<forall>i < 4096. g (a + i) = 0xFF) \<and>
          (ok3 \<longrightarrow> (\<forall>i < 12288. g (a + i) = 0xFF))" if g: "g \<in> images d3" for g
      proof -
        obtain f1 where f1: "f1 \<in> images d2" "cells_erased (a + 8192) 4096 f1 ok3 g" using erase_law [OF s3 g] by blast
        obtain f where f: "f \<in> images d" "\<forall>x. x < a \<or> a + 12288 \<le> x \<longrightarrow> f1 x = f x" "\<forall>i < 8192. f1 (a + i) = 0xFF"
          using i2 [OF f1(1)] t2 by blast
        have "(\<forall>x. x < a \<or> a + 12288 \<le> x \<longrightarrow> g x = f x)" using f f1 unfolding cells_erased_def by auto
        moreover have ff: "g (a + i) = 0xFF" if "i < 8192" for i using f f1 that unfolding cells_erased_def by auto
        moreover have "g (a + i) = 0xFF" if "ok3" "i < 12288" for i
          using f1(2) [unfolded cells_erased_def, rule_format, of "a + i"] that ff [of i] by (cases "i < 8192") auto
        ultimately show ?thesis using f(1) by force
      qed
      show ?thesis
      proof (cases ok3)
        case False
        then have e: "ok = False" "d' = d3" using run s1 s2 s3 t1 t2 by simp_all
        show ?thesis using i3 [of f'] f' e by force
      next
        case t3: True
        obtain ok4 d4 where s4: "prog (a + 4) body d3 = (ok4, d4)" by (metis surj_pair)
        have i4: "\<exists>f \<in> images d. (\<forall>x. x < a \<or> a + 12288 \<le> x \<longrightarrow> g x = f x) \<and> (\<forall>i < 4. g (a + i) = 0xFF) \<and>
            (ok4 \<longrightarrow> (\<forall>i < length body. g (a + 4 + i) = body ! i))" if g: "g \<in> images d4" for g
        proof -
          obtain f1 where f1: "f1 \<in> images d3" "cells_programmed (a + 4) body f1 ok4 g" using prog_law [OF s4 g] by blast
          obtain f where f: "f \<in> images d" "\<forall>x. x < a \<or> a + 12288 \<le> x \<longrightarrow> f1 x = f x" "\<forall>i < 12288. f1 (a + i) = 0xFF"
            using i3 [OF f1(1)] t3 by blast
          have "\<forall>x. x < a \<or> a + 12288 \<le> x \<longrightarrow> g x = f x" using f f1 len(2) unfolding cells_programmed_def by auto
          moreover have "\<forall>i < 4. g (a + i) = 0xFF" using f f1 unfolding cells_programmed_def by auto
          moreover have "g (a + 4 + i) = body ! i" if "ok4" "i < length body" for i
          proof -
            have "f1 (a + 4 + i) = 0xFF" using f(3) [rule_format, of "4 + i"] that len(2) by (simp add: add.assoc)
            then show ?thesis using f1(2) [unfolded cells_programmed_def, rule_format, of "a + 4 + i"] that by simp
          qed
          ultimately show ?thesis using f(1) by blast
        qed
        show ?thesis
        proof (cases ok4)
          case False
          then have e: "ok = False" "d' = d4" using run s1 s2 s3 s4 t1 t2 t3 by simp_all
          show ?thesis using i4 [of f'] f' e by force
        next
          case t4: True
          have s5: "prog a hd4 d4 = (ok, d')" using run s1 s2 s3 s4 t1 t2 t3 t4 by (simp split: if_splits prod.splits)
          obtain f1 where f1: "f1 \<in> images d4" "cells_programmed a hd4 f1 ok f'" using prog_law [OF s5 f'] by blast
          obtain f where f: "f \<in> images d" "\<forall>x. x < a \<or> a + 12288 \<le> x \<longrightarrow> f1 x = f x" "\<forall>i < 4. f1 (a + i) = 0xFF"
              "\<forall>i < length body. f1 (a + 4 + i) = body ! i"
            using i4 [OF f1(1)] t4 by blast
          have "\<forall>x. x < a \<or> a + 12288 \<le> x \<longrightarrow> f' x = f x" using f f1 len(1) unfolding cells_programmed_def by auto
          moreover have "\<forall>i < length body. f' (a + 4 + i) = body ! i" using f f1 len(1) unfolding cells_programmed_def by auto
          moreover have "\<forall>i < 4. f' (a + i) = hd4 ! i" if ok
            using f f1 len(1) that unfolding cells_programmed_def by auto
          ultimately show ?thesis using f(1) by blast
        qed
      qed
    qed
  qed
qed

end

definition external_prog :: "nat \<Rightarrow> u8 list \<Rightarrow> external_flash \<Rightarrow> bool \<times> external_flash" where
  "external_prog a bs d = (if a < 2 ^ 32 \<and> length bs < 2 ^ 32
     then (case external_flash_program (of_nat a) (Some bs) (of_nat (length bs)) d of (r, d') \<Rightarrow> (r = EXTERNAL_FLASH_RESULT_OK, d'))
     else (False, d))"

definition external_erase :: "nat \<Rightarrow> external_flash \<Rightarrow> bool \<times> external_flash" where
  "external_erase a d = (if a < 2 ^ 32
     then (case external_flash_erase_4k (of_nat a) d of (r, d') \<Rightarrow> (r = EXTERNAL_FLASH_RESULT_OK, d'))
     else (False, d))"

definition external_load :: "nat \<Rightarrow> nat \<Rightarrow> external_flash \<Rightarrow> u8 list option \<times> external_flash" where
  "external_load a n d = (if a < 2 ^ 32 \<and> n < 2 ^ 32
     then (case external_flash_read (of_nat a) (Some (replicate n 0)) (of_nat n) d of
             (r, dst, d') \<Rightarrow> (if r = EXTERNAL_FLASH_RESULT_OK then dst else None, d'))
     else (None, d))"

interpretation external: crash_store images external_prog external_erase external_load
proof
  have u: "unat (of_nat n :: u32) = n" if "n < 2 ^ 32" for n using that by (simp add: unat_of_nat take_bit_nat_eq_self)
  fix a n bs d ok d' f' out
  show "\<exists>f \<in> images d. cells_programmed a bs f ok f'" if p: "external_prog a bs d = (ok, d')" and f': "f' \<in> images d'"
  proof (cases "a < 2 ^ 32 \<and> length bs < 2 ^ 32")
    case True
    then obtain r where r: "external_flash_program (of_nat a) (Some bs) (of_nat (length bs)) d = (r, d')" "ok = (r = EXTERNAL_FLASH_RESULT_OK)"
      using p by (auto simp: external_prog_def split: prod.splits)
    have "unat (of_nat (length bs) :: u32) \<le> length bs" using u True by simp
    from program_effect [OF r(1) this f'] show ?thesis using u True r(2) by simp
  qed (use p f' in \<open>auto simp: external_prog_def intro!: bexI [of _ f'] cells_programmed_none\<close>)
  show "\<exists>f \<in> images d. cells_erased a 4096 f ok f'" if p: "external_erase a d = (ok, d')" and f': "f' \<in> images d'"
  proof (cases "a < 2 ^ 32")
    case True
    then obtain r where r: "external_flash_erase_4k (of_nat a) d = (r, d')" "ok = (r = EXTERNAL_FLASH_RESULT_OK)"
      using p by (auto simp: external_erase_def split: prod.splits)
    from erase_effect [OF r(1) f'] show ?thesis using u True r(2) by simp
  qed (use p f' in \<open>auto simp: external_erase_def intro!: bexI [of _ f'] cells_erased_none\<close>)
  show "f' \<in> images d \<and> (\<forall>bs. out = Some bs \<longrightarrow> bs = map (\<lambda>k. f' (a + k)) [0..<n])"
    if p: "external_load a n d = (out, d')" and f': "f' \<in> images d'"
  proof (cases "a < 2 ^ 32 \<and> n < 2 ^ 32")
    case True
    then obtain r dst where r: "external_flash_read (of_nat a) (Some (replicate n 0)) (of_nat n) d = (r, dst, d')"
        "out = (if r = EXTERNAL_FLASH_RESULT_OK then dst else None)"
      using p by (auto simp: external_load_def split: prod.splits)
    have "unat (of_nat n :: u32) \<le> length (replicate n (0 :: u8))" using u True by simp
    from read_effect [OF r(1) this] show ?thesis
      using u True r(2) f' by (auto simp: images_none overwrite_def split: if_splits)
  qed (use p f' in \<open>auto simp: external_load_def\<close>)
qed

section \<open>The calls succeed on a healthy device\<close>

text \<open>With an empty outcome list no call of the HAL fails and the chip is ready when asked.\<close>

lemma take_outcome_healthy:
  "outcomes d = [] \<Longrightarrow> take_outcome d = (\<lparr>hal_status = HAL_OK, clocked = 0, completion = Some Transfer_Complete, status_1 = 0, late = 0\<rparr>, d)"
  by (simp add: take_outcome_def)

lemma chip_command_outcomes [simp]: "outcomes (chip_command bs d) = outcomes d"
  by (cases "(bs, d)" rule: chip_command.cases) auto

lemma bus_outcomes [simp]:
  "outcomes (chip_deselect d) = outcomes d" "outcomes (chip_select d) = outcomes d" "outcomes (chip_clock bs d) = outcomes d"
  "outcomes (finish_pending d) = outcomes d" "outcomes (dma_interrupt q d) = outcomes d"
  by (auto simp: chip_deselect_def chip_select_def chip_clock_def finish_pending_def dma_interrupt_def Let_def
      external_flash_transfer_complete_callback_def external_flash_transfer_error_callback_def
      external_flash_signal_transfer_complete_from_isr_def split: option.splits dma_irq.splits)

lemma polling_healthy:
  assumes "outcomes d = []"
  shows "\<exists>d'. external_flash_transmit_polling bs d = (EXTERNAL_FLASH_RESULT_OK, d') \<and> outcomes d' = []"
  using assms by (simp add: external_flash_transmit_polling_def HAL_SPI_Transmit_def take_outcome_healthy)

lemma write_enable_healthy:
  assumes "outcomes d = []"
  shows "\<exists>d'. external_flash_write_enable d = (EXTERNAL_FLASH_RESULT_OK, d') \<and> outcomes d' = []"
proof -
  have "outcomes (chip_select d) = []" using assms by simp
  from polling_healthy [OF this] obtain d1 where
    "external_flash_transmit_polling [EXTERNAL_FLASH_INSTRUCTION_WRITE_ENABLE] (chip_select d) = (EXTERNAL_FLASH_RESULT_OK, d1)" "outcomes d1 = []" by blast
  then show ?thesis by (simp add: external_flash_write_enable_def)
qed

lemma wait_healthy:
  assumes "outcomes d = []"
  shows "\<exists>d'. external_flash_wait_ready d = (EXTERNAL_FLASH_RESULT_OK, d') \<and> outcomes d' = []"
  using assms by (simp add: external_flash_wait_ready_def wait_ready_loop.simps [of "tick_count d" d] external_flash_read_status_1_def
      HAL_SPI_TransmitReceive_status_def take_outcome_healthy Let_def)

lemma transmit_dma_healthy:
  assumes "outcomes d = []"
  shows "\<exists>d'. external_flash_transmit_dma bs d = (EXTERNAL_FLASH_RESULT_OK, d') \<and> outcomes d' = []"
  using assms by (simp add: external_flash_transmit_dma_def xSemaphoreTake_transfer_def take_outcome_healthy Let_def
      dma_interrupt_fields)

lemma receive_dma_healthy:
  assumes "outcomes d = []"
  shows "\<exists>dst' d'. external_flash_receive_dma i n dst d = (EXTERNAL_FLASH_RESULT_OK, dst', d') \<and> outcomes d' = []"
  using assms by (simp add: external_flash_receive_dma_def xSemaphoreTake_transfer_def take_outcome_healthy Let_def
      dma_interrupt_fields)

lemma program_page_healthy:
  assumes "outcomes d = []"
  shows "\<exists>d'. program_page a bs d = (EXTERNAL_FLASH_RESULT_OK, d') \<and> outcomes d' = []"
proof -
  obtain d1 where 1: "external_flash_write_enable d = (EXTERNAL_FLASH_RESULT_OK, d1)" "outcomes d1 = []"
    using write_enable_healthy [OF assms] by blast
  obtain d2 where 2: "external_flash_send_address_command EXTERNAL_FLASH_INSTRUCTION_PAGE_PROGRAM a (chip_select d1) = (EXTERNAL_FLASH_RESULT_OK, d2)"
      "outcomes d2 = []"
    using polling_healthy [of "chip_select d1"] 1 unfolding external_flash_send_address_command_def by force
  obtain d3 where 3: "external_flash_transmit_dma bs d2 = (EXTERNAL_FLASH_RESULT_OK, d3)" "outcomes d3 = []"
    using transmit_dma_healthy [OF 2(2)] by blast
  then show ?thesis using 1 2 by (simp add: program_page_def)
qed

lemma program_pages_healthy:
  "outcomes d = [] \<Longrightarrow> \<exists>d'. program_pages a bs EXTERNAL_FLASH_RESULT_OK d = (EXTERNAL_FLASH_RESULT_OK, d') \<and> outcomes d' = []"
proof (induction a bs "EXTERNAL_FLASH_RESULT_OK" d rule: program_pages.induct)
  case (1 a bs d)
  show ?case
  proof (cases "bs = []")
    case False
    obtain d1 where 2: "program_page a (take (page_chunk a bs) bs) d = (EXTERNAL_FLASH_RESULT_OK, d1)" "outcomes d1 = []"
      using program_page_healthy [OF 1(2)] by blast
    obtain d2 where 3: "external_flash_wait_ready d1 = (EXTERNAL_FLASH_RESULT_OK, d2)" "outcomes d2 = []"
      using wait_healthy [OF 2(2)] by blast
    from 1(1) [OF _ refl 2(1) [symmetric] _ 3(1) [symmetric] 3(2)] False
    show ?thesis using 2 3 by (simp add: program_pages.simps [of a bs] Let_def)
  qed (use 1 in \<open>simp add: program_pages.simps\<close>)
qed

lemma read_chunks_healthy:
  "outcomes d = [] \<Longrightarrow> \<exists>dst' d'. read_chunks i n EXTERNAL_FLASH_RESULT_OK dst d = (EXTERNAL_FLASH_RESULT_OK, dst', d') \<and> outcomes d' = []"
proof (induction i n "EXTERNAL_FLASH_RESULT_OK" dst d rule: read_chunks.induct)
  case (1 i n dst d)
  show ?case
  proof (cases "n = 0")
    case False
    obtain dst1 d1 where 2: "external_flash_receive_dma i (if n < 65535 then n else 65535) dst d = (EXTERNAL_FLASH_RESULT_OK, dst1, d1)" "outcomes d1 = []"
      using receive_dma_healthy [OF 1(2)] by blast
    from 1(1) [OF _ refl 2(1) [symmetric] refl 2(2)] False
    show ?thesis using 2 by (simp add: read_chunks.simps [of i n] Let_def)
  qed (use 1 in \<open>simp add: read_chunks.simps\<close>)
qed

lemma program_healthy:
  assumes "outcomes d = []" "external_flash_initialized d" "n \<noteq> 0" "external_flash_range_is_valid a n"
  shows "\<exists>d'. external_flash_program a (Some bs) n d = (EXTERNAL_FLASH_RESULT_OK, d') \<and> outcomes d' = []"
proof -
  obtain d1 where 1: "external_flash_wait_ready d = (EXTERNAL_FLASH_RESULT_OK, d1)" "outcomes d1 = []"
    using wait_healthy [OF assms(1)] by blast
  then show ?thesis using assms program_pages_healthy [OF 1(2)] by (simp add: external_flash_program_def)
qed

lemma read_healthy:
  assumes "outcomes d = []" "external_flash_initialized d" "n \<noteq> 0" "external_flash_range_is_valid a n"
  shows "\<exists>dst' d'. external_flash_read a (Some dst) n d = (EXTERNAL_FLASH_RESULT_OK, dst', d') \<and> outcomes d' = []"
proof -
  obtain d1 where 1: "external_flash_wait_ready d = (EXTERNAL_FLASH_RESULT_OK, d1)" "outcomes d1 = []"
    using wait_healthy [OF assms(1)] by blast
  obtain d2 where 2: "external_flash_send_address_command EXTERNAL_FLASH_INSTRUCTION_READ_DATA a (chip_select d1) = (EXTERNAL_FLASH_RESULT_OK, d2)"
      "outcomes d2 = []"
    using polling_healthy [of "chip_select d1"] 1 unfolding external_flash_send_address_command_def by force
  obtain dst3 d3 where 3: "read_chunks 0 (unat n) EXTERNAL_FLASH_RESULT_OK dst d2 = (EXTERNAL_FLASH_RESULT_OK, dst3, d3)" "outcomes d3 = []"
    using read_chunks_healthy [OF 2(2)] by blast
  show ?thesis using assms 1 2 3 by (simp add: external_flash_read_def)
qed

lemma erase_healthy:
  assumes "outcomes d = []" "external_flash_initialized d" "a \<le> 0x01000000 - 4096" "a AND 4095 = 0"
  shows "\<exists>d'. external_flash_erase_4k a d = (EXTERNAL_FLASH_RESULT_OK, d') \<and> outcomes d' = []"
proof -
  obtain d1 where 1: "external_flash_wait_ready d = (EXTERNAL_FLASH_RESULT_OK, d1)" "outcomes d1 = []"
    using wait_healthy [OF assms(1)] by blast
  obtain d2 where 2: "external_flash_write_enable d1 = (EXTERNAL_FLASH_RESULT_OK, d2)" "outcomes d2 = []"
    using write_enable_healthy [OF 1(2)] by blast
  obtain d3 where 3: "external_flash_send_address_command EXTERNAL_FLASH_INSTRUCTION_SECTOR_ERASE_4K a (chip_select d2) = (EXTERNAL_FLASH_RESULT_OK, d3)"
      "outcomes d3 = []"
    using polling_healthy [of "chip_select d2"] 2 unfolding external_flash_send_address_command_def by force
  obtain d4 where 4: "external_flash_wait_ready (chip_deselect d3) = (EXTERNAL_FLASH_RESULT_OK, d4)" "outcomes d4 = []"
    using wait_healthy [of "chip_deselect d3"] 3 by auto
  show ?thesis using assms 1 2 3 4 by (simp add: external_flash_erase_4k_def Let_def not_less)
qed

section \<open>Properties\<close>

text \<open>
  Programming is contained and page boundaries are respected: whatever the bus, the DMA interrupts and
  the chip do at every step, and wherever the supply fails afterwards, every memory that may be found is one that might
  have been found before, except that bits of the requested range that are clear in the source may have been
  cleared; when \<open>external_flash_program\<close> returns OK, all of them were, whatever pages the range spans.
\<close>

theorem external_flash_program_effect:
  assumes "external_flash_program a (Some bs) n d = (r, d')" "unat n \<le> length bs" and "f' \<in> images d'"
  shows "\<exists>f \<in> images d. \<forall>x. if unat a \<le> x \<and> x < unat a + unat n
     then f' x AND f x = f' x \<and> f' x OR (f x AND bs ! (x - unat a)) = f' x \<and>
          (r = EXTERNAL_FLASH_RESULT_OK \<longrightarrow> f' x = f x AND bs ! (x - unat a))
     else f' x = f x"
proof -
  have l: "length (take (unat n) bs) = unat n" using assms(2) by simp
  have t: "unat a \<le> x \<and> x < unat a + unat n \<Longrightarrow> take (unat n) bs ! (x - unat a) = bs ! (x - unat a)" for x
    by (intro nth_take) auto
  obtain f where "f \<in> images d" "cells_programmed (unat a) (take (unat n) bs) f (r = EXTERNAL_FLASH_RESULT_OK) f'"
    using program_effect [OF assms] by blast
  note f = this
  show ?thesis
  proof (intro bexI [of _ f] allI)
    fix x
    show "if unat a \<le> x \<and> x < unat a + unat n
       then f' x AND f x = f' x \<and> f' x OR (f x AND bs ! (x - unat a)) = f' x \<and>
            (r = EXTERNAL_FLASH_RESULT_OK \<longrightarrow> f' x = f x AND bs ! (x - unat a))
       else f' x = f x"
      using f(2) [unfolded cells_programmed_def l, rule_format, of x] t [of x] by (cases "unat a \<le> x \<and> x < unat a + unat n") auto
  qed (rule f(1))
qed

definition blank_flash :: external_flash where
  "blank_flash = \<lparr>cells = \<lambda>_. 0xFF, write_latch = False, bus_frame = [], pending = None, outcomes = [], tick_count = 0,
     external_flash_initialized = True, transfer_semaphore = False, transfer_result = EXTERNAL_FLASH_RESULT_OK\<rparr>"

theorem external_flash_program_effect_witness:
  "\<exists>d'. external_flash_program 254 (Some [1, 2, 3]) 3 blank_flash = (EXTERNAL_FLASH_RESULT_OK, d') \<and>
     (\<forall>f' \<in> images d'. \<exists>f \<in> images blank_flash. \<forall>x. if unat (254 :: u32) \<le> x \<and> x < unat (254 :: u32) + unat (3 :: u32)
     then f' x AND f x = f' x \<and> f' x OR (f x AND [1, 2, 3] ! (x - unat (254 :: u32))) = f' x \<and>
          (EXTERNAL_FLASH_RESULT_OK = EXTERNAL_FLASH_RESULT_OK \<longrightarrow> f' x = f x AND [1, 2, 3] ! (x - unat (254 :: u32)))
     else f' x = f x)"
proof -
  have "external_flash_range_is_valid 254 3" by (simp add: external_flash_range_is_valid_def)
  then obtain d' where d': "external_flash_program 254 (Some [1, 2, 3]) 3 blank_flash = (EXTERNAL_FLASH_RESULT_OK, d')"
    using program_healthy [of blank_flash 3 254 "[1, 2, 3]"] by (auto simp: blank_flash_def)
  have len: "unat (3 :: u32) \<le> length [1, 2, 3 :: u8]" by simp
  show ?thesis using d' external_flash_program_effect [OF d' len] by blast
qed



end
