(* ===== verification/Configuration_Text.thy ===== *)
theory Configuration_Text
  imports Configuration
begin

text \<open>
  The text checks of \<open>configuration.c\<close> against independent definitions: host names as dot-separated
  labels, and UTF-8 as the image of the encoder on Unicode scalar values.
\<close>

section \<open>Host names\<close>

fun split_dots :: "u8 list \<Rightarrow> u8 list list" where
  "split_dots [] = [[]]"
| "split_dots (x # xs) =
     (if x = CHAR_DOT then [] # split_dots xs
      else (x # hd (split_dots xs)) # tl (split_dots xs))"

definition label_char :: "u8 \<Rightarrow> bool" where
  "label_char c \<longleftrightarrow> ascii_is_alphanumeric c \<or> c = CHAR_DASH"

definition label_spec :: "u8 list \<Rightarrow> bool" where
  "label_spec l \<longleftrightarrow> 1 \<le> length l \<and> length l \<le> 63 \<and> (\<forall>c \<in> set l. label_char c) \<and>
     hd l \<noteq> CHAR_DASH \<and> last l \<noteq> CHAR_DASH"

definition hostname_spec :: "u8 list \<Rightarrow> bool" where
  "hostname_spec bs \<longleftrightarrow> 1 \<le> length bs \<and> length bs \<le> 253 \<and> (\<exists>c \<in> set bs. ascii_is_alphabetic c) \<and>
     (\<forall>l \<in> set (split_dots bs). label_spec l)"

lemma split_dots_ne [simp]: "split_dots xs \<noteq> []"
  by (cases xs) auto

lemma split_dots_no_dot: "CHAR_DOT \<notin> set xs \<Longrightarrow> split_dots xs = [xs]"
  by (induction xs) auto

lemma split_dots_first: "CHAR_DOT \<notin> set xs \<Longrightarrow> split_dots (xs @ CHAR_DOT # ys) = xs # split_dots ys"
  by (induction xs) auto

lemma split_dots_covers: "x \<in> set xs \<Longrightarrow> x \<noteq> CHAR_DOT \<Longrightarrow> \<exists>l \<in> set (split_dots xs). x \<in> set l"
proof (induction xs)
  case (Cons y ys)
  show ?case
  proof (cases "split_dots ys")
    case (Cons l ls)
    then show ?thesis using Cons.IH Cons.prems by auto
  qed simp
qed simp

lemma label_char_dot: "\<not> label_char CHAR_DOT"
  by (simp add: label_char_def ascii_is_alphanumeric_def)

lemma alphabetic_label_char: "ascii_is_alphabetic c \<Longrightarrow> label_char c"
  by (auto simp: ascii_is_alphabetic_def label_char_def ascii_is_alphanumeric_def)

definition hostname_final :: "u8 list \<Rightarrow> nat \<Rightarrow> (nat \<times> bool) option \<Rightarrow> bool" where
  "hostname_final bytes len r \<longleftrightarrow> (case r of None \<Rightarrow> False
      | Some (label_start, has_alphabetic) \<Rightarrow> has_alphabetic \<and> len - label_start > 0 \<and> len - label_start \<le> 63 \<and>
          bytes ! label_start \<noteq> CHAR_DASH \<and> bytes ! (len - 1) \<noteq> CHAR_DASH)"

text \<open>The label the loop is in, from \<open>s\<close> up to \<open>i\<close>.\<close>

definition label_at :: "u8 list \<Rightarrow> nat \<Rightarrow> nat \<Rightarrow> u8 list" where
  "label_at bytes s i = take (i - s) (drop s bytes)"

lemma label_spec_at:
  assumes "s \<le> i" "i \<le> length bytes" "\<forall>c \<in> set (label_at bytes s i). label_char c"
  shows "label_spec (label_at bytes s i) \<longleftrightarrow>
    i - s > 0 \<and> i - s \<le> 63 \<and> bytes ! s \<noteq> CHAR_DASH \<and> bytes ! (i - 1) \<noteq> CHAR_DASH"
proof (cases "s = i")
  case True
  then show ?thesis by (simp add: label_spec_def label_at_def)
next
  case False
  let ?l = "label_at bytes s i"
  have len: "length ?l = i - s" using assms by (simp add: label_at_def)
  then have ne: "?l \<noteq> []" using False assms by auto
  have "hd ?l = bytes ! s" using ne len assms False by (simp add: hd_conv_nth label_at_def)
  moreover have "last ?l = bytes ! (i - 1)" using ne len assms False by (simp add: last_conv_nth label_at_def)
  ultimately show ?thesis using len assms(3) by (auto simp: label_spec_def)
qed

lemma label_at_Suc: "s \<le> i \<Longrightarrow> i < length bytes \<Longrightarrow> label_at bytes s (Suc i) = label_at bytes s i @ [bytes ! i]"
  by (simp add: label_at_def Suc_diff_le take_Suc_conv_app_nth)

lemma drop_label_at: "s \<le> i \<Longrightarrow> drop s bytes = label_at bytes s i @ drop i bytes"
  by (simp add: label_at_def) (metis append_take_drop_id drop_drop le_add_diff_inverse2)

lemma hostname_loop_correct:
  assumes "i + n = length bs" "s \<le> i" "\<forall>c \<in> set (label_at bs s i). label_char c"
  shows "hostname_final bs (length bs) (hostname_loop bs n i s h) \<longleftrightarrow>
    (h \<or> (\<exists>c \<in> set (drop i bs). ascii_is_alphabetic c)) \<and> (\<forall>l \<in> set (split_dots (drop s bs)). label_spec l)"
  using assms
proof (induction n arbitrary: i s h)
  case 0
  have "CHAR_DOT \<notin> set (label_at bs s i)" using 0 label_char_dot by blast
  moreover have "drop s bs = label_at bs s i" using 0 drop_label_at [of s i bs] by simp
  ultimately show ?case
    using 0 label_spec_at [of s i bs] by (simp add: hostname_final_def split_dots_no_dot)
next
  case (Suc n)
  let ?v = "bs ! i" and ?l = "label_at bs s i"
  have i: "i < length bs" using Suc.prems by simp
  have dr: "drop i bs = ?v # drop (Suc i) bs" using i by (simp add: Cons_nth_drop_Suc)
  have ds: "drop s bs = ?l @ ?v # drop (Suc i) bs" using drop_label_at [of s i bs] Suc.prems dr by simp
  have nd: "CHAR_DOT \<notin> set ?l" using Suc.prems label_char_dot by blast
  show ?case
  proof (cases "?v = CHAR_DOT")
    case True
    have sp: "split_dots (drop s bs) = ?l # split_dots (drop (Suc i) bs)"
      using nd by (simp add: ds True split_dots_first)
    have "\<not> ascii_is_alphabetic CHAR_DOT" using alphabetic_label_char label_char_dot by blast
    then have IH: "hostname_final bs (length bs) (hostname_loop bs n (Suc i) (Suc i) h) \<longleftrightarrow>
      (h \<or> (\<exists>c \<in> set (drop i bs). ascii_is_alphabetic c)) \<and> (\<forall>l \<in> set (split_dots (drop (Suc i) bs)). label_spec l)"
      using Suc.IH [of "Suc i" "Suc i" h] Suc.prems by (simp add: label_at_def dr True)
    show ?thesis
      using IH label_spec_at [OF Suc.prems(2) _ Suc.prems(3)] i
      by (auto simp: sp True Let_def hostname_final_def)
  next
    case False
    show ?thesis
    proof (cases "label_char ?v")
      case True
      have "\<forall>c \<in> set (label_at bs s (Suc i)). label_char c"
        using Suc.prems i True by (simp add: label_at_Suc)
      then have IH: "hostname_final bs (length bs) (hostname_loop bs n (Suc i) s h') \<longleftrightarrow>
        (h' \<or> (\<exists>c \<in> set (drop (Suc i) bs). ascii_is_alphabetic c)) \<and> (\<forall>l \<in> set (split_dots (drop s bs)). label_spec l)" for h'
        using Suc.IH [of "Suc i" s h'] Suc.prems by simp
      show ?thesis
        using True False IH [of True] IH [of h] by (auto simp: dr label_char_def Let_def)
    next
      case bad: False
      then obtain l where "l \<in> set (split_dots (drop s bs))" "?v \<in> set l"
        using split_dots_covers [of ?v "drop s bs"] False by (auto simp: ds)
      then have "\<not> (\<forall>l \<in> set (split_dots (drop s bs)). label_spec l)" using bad by (auto simp: label_spec_def)
      moreover have "hostname_loop bs (Suc n) i s h = None" using bad False by (simp add: label_char_def Let_def)
      ultimately show ?thesis by (simp add: hostname_final_def del: hostname_loop.simps)
    qed
  qed
qed

lemma hostname_loop_take:
  assumes "i + n \<le> len" "len \<le> length bytes" "s \<le> i"
  shows "hostname_loop bytes n i s h = hostname_loop (take len bytes) n i s h"
  using assms
proof (induction n arbitrary: i s h)
  case (Suc n)
  have "take len bytes ! i = bytes ! i" "take len bytes ! (i - 1) = bytes ! (i - 1)" "take len bytes ! s = bytes ! s"
    using Suc.prems by simp_all
  moreover have "hostname_loop bytes n (i + 1) (i + 1) h = hostname_loop (take len bytes) n (i + 1) (i + 1) h"
    "hostname_loop bytes n (i + 1) s h' = hostname_loop (take len bytes) n (i + 1) s h'" for h'
    using Suc.prems by (simp_all add: Suc.IH)
  ultimately show ?case by (simp only: hostname_loop.simps Let_def)
qed simp

lemma hostname_content:
  assumes "text_len t < length (text_bytes t)"
  shows "hostname_is_valid t \<longleftrightarrow> text_bytes t ! text_len t = 0 \<and> hostname_spec (text_content t)"
proof -
  let ?n = "text_len t" and ?bs = "text_content t"
  have len: "length ?bs = ?n" using assms by (simp add: text_content_def)
  have loop: "hostname_loop (text_bytes t) ?n 0 0 False = hostname_loop ?bs ?n 0 0 False"
    unfolding text_content_def by (rule hostname_loop_take) (use assms in simp_all)
  have fin: "hostname_final (text_bytes t) ?n r \<longleftrightarrow> hostname_final ?bs ?n r" if "?n > 0" for r
    using that assms by (auto simp: hostname_final_def text_content_def split: option.splits)
  have "hostname_final ?bs ?n (hostname_loop ?bs ?n 0 0 False) \<longleftrightarrow>
    (\<exists>c \<in> set ?bs. ascii_is_alphabetic c) \<and> (\<forall>l \<in> set (split_dots ?bs). label_spec l)"
    using hostname_loop_correct [of 0 ?n ?bs 0 False] len by (simp add: label_at_def)
  moreover have "hostname_is_valid t \<longleftrightarrow> ?n \<noteq> 0 \<and> ?n \<le> 253 \<and> text_bytes t ! ?n = 0 \<and>
      hostname_final (text_bytes t) ?n (hostname_loop (text_bytes t) ?n 0 0 False)"
    by (auto simp: hostname_is_valid_def hostname_final_def Let_def split: option.splits)
  ultimately show ?thesis using loop fin len by (auto simp: hostname_spec_def)
qed

text \<open>
  The hostname check is exact: with the length inside the array, it accepts precisely the
  NUL-terminated names of 1 to 253 bytes with a letter somewhere, every dot-separated label of which
  has 1 to 63 letters, digits or dashes and neither starts nor ends with a dash.
\<close>

theorem hostname_is_valid_exact:
  assumes "text_len t < length (text_bytes t)"
  shows "hostname_is_valid t \<longleftrightarrow> text_bytes t ! text_len t = 0 \<and> hostname_spec (text_content t)"
  using assms by (rule hostname_content)

theorem hostname_is_valid_exact_witness:
  "\<not> hostname_spec (ascii ''10.0.0.1'')"
proof -
  let ?t = "\<lparr>text_length = 8, text_bytes = ascii ''10.0.0.1'' @ [0]\<rparr>"
  have a: "ascii ''10.0.0.1'' = [0x31, 0x30, 0x2E, 0x30, 0x2E, 0x30, 0x2E, 0x31]" by (simp add: ascii_def)
  have "\<not> hostname_is_valid ?t" by code_simp
  moreover have "text_content ?t = ascii ''10.0.0.1''" by (simp add: text_content_def a)
  moreover have "text_bytes ?t ! text_len ?t = 0" by (simp add: a)
  moreover have "text_len ?t < length (text_bytes ?t)" by (simp add: a)
  ultimately show ?thesis using hostname_is_valid_exact [of ?t] by simp
qed

section \<open>UTF-8\<close>

lemma continuation_byte: "c AND 0xC0 = (0x80 :: u8) \<longleftrightarrow> 128 \<le> unat c \<and> unat c < 192"
proof -
  have "c AND 0xC0 = c div 64 * 64"
  proof (rule bit_word_eqI)
    fix n assume "n < LENGTH(8)"
    moreover have "bit (0xC0 :: u8) n \<longleftrightarrow> n = 6 \<or> n = 7" if "n < 8"
      using that by (auto simp: less_Suc_eq numeral_eq_Suc)
    moreover have "c div 64 * 64 = push_bit 6 (drop_bit 6 c)" by (simp add: push_bit_eq_mult drop_bit_eq_div)
    ultimately show "bit (c AND 0xC0) n = bit (c div 64 * 64) n"
      by (auto simp only: bit_simps possible_bit_word) (auto simp: bit_simps)
  qed
  moreover have u: "unat c < 256" by (rule unat_u8_less)
  moreover from u have "unat c div 64 * 64 < 256" "unat c div 64 < 256" by linarith+
  ultimately have v: "unat (c AND 0xC0) = 64 * (unat c div 64)"
    by (simp add: unat_word_ariths unat_div)
  have e: "c AND 0xC0 = (0x80 :: u8) \<longleftrightarrow> unat (c AND 0xC0) = 128" by (simp add: word_unat_eq_iff)
  have "64 * (n div 64) = (128 :: nat) \<longleftrightarrow> n div 64 = 2" for n by linarith
  moreover have "n div 64 = (2 :: nat) \<longleftrightarrow> 128 \<le> n \<and> n < 192" for n
    by (rule iffI, linarith, rule div_nat_eqI, simp_all)
  ultimately show ?thesis unfolding e v by blast
qed

lemma unat_and_mask: "unat (c AND mask n) = unat c mod 2 ^ n" for c :: "'a::len word"
  by (simp only: take_bit_eq_mask [symmetric] unsigned_take_bit_eq) (simp add: take_bit_eq_mod)

lemma small_word_high_bits: "unat (x :: 'a::len word) < 2 ^ k \<Longrightarrow> k \<le> n \<Longrightarrow> \<not> bit x n"
proof -
  assume "unat x < 2 ^ k" "k \<le> n"
  then have "take_bit k x = x" by (simp add: word_unat_eq_iff unsigned_take_bit_eq take_bit_nat_eq_self)
  then show "\<not> bit x n" using \<open>k \<le> n\<close> by (metis bit_take_bit_iff not_le)
qed

lemma unat_shift6_or:
  assumes "unat cp < 2 ^ 20" "unat (x :: u32) < 64"
  shows "unat (push_bit 6 cp OR x) = 64 * unat cp + unat x"
proof -
  have p: "unat (push_bit 6 cp) = 64 * unat cp"
    using assms(1) by (simp add: push_bit_eq_mult unat_word_ariths)
  have "push_bit 6 cp AND x = 0"
    using small_word_high_bits [of x 6] assms(2) by (auto simp: bit_eq_iff bit_and_iff bit_push_bit_iff)
  then have "push_bit 6 cp OR x = push_bit 6 cp + x" by (rule disjunctive_add_eq_or [symmetric])
  then show ?thesis using p assms by (simp add: unat_plus_small)
qed

text \<open>The UTF-8 encoding of a Unicode scalar value, by arithmetic on the code point.\<close>

definition utf8_encode :: "nat \<Rightarrow> u8 list" where
  "utf8_encode n =
     (if n < 0x80 then [of_nat n]
      else if n < 0x800 then [of_nat (0xC0 + n div 64), of_nat (0x80 + n mod 64)]
      else if n < 0x10000
      then [of_nat (0xE0 + n div 4096), of_nat (0x80 + n div 64 mod 64), of_nat (0x80 + n mod 64)]
      else [of_nat (0xF0 + n div 262144), of_nat (0x80 + n div 4096 mod 64), of_nat (0x80 + n div 64 mod 64),
            of_nat (0x80 + n mod 64)])"

definition unicode_scalar :: "nat \<Rightarrow> bool" where
  "unicode_scalar n \<longleftrightarrow> n \<le> 0x10FFFF \<and> \<not> (0xD800 \<le> n \<and> n \<le> 0xDFFF)"

definition is_continuation :: "u8 \<Rightarrow> bool" where
  "is_continuation c \<longleftrightarrow> 128 \<le> unat c \<and> unat c < 192"

lemma utf8_continue_step:
  assumes "unat cp < 2 ^ 20"
  shows "utf8_continue (c # cs) cp =
     (if is_continuation c then utf8_continue cs (push_bit 6 cp OR ucast (c AND 0x3F)) else None)"
    "unat (push_bit 6 cp OR ucast (c AND 0x3F)) = 64 * unat cp + unat c mod 64"
proof -
  show "utf8_continue (c # cs) cp =
     (if is_continuation c then utf8_continue cs (push_bit 6 cp OR ucast (c AND 0x3F)) else None)"
    by (simp add: is_continuation_def continuation_byte)
  have m: "unat (c AND 0x3F) = unat c mod 64"
    using unat_and_mask [of c 6] by (simp add: mask_eq_exp_minus_1)
  then show "unat (push_bit 6 cp OR ucast (c AND 0x3F)) = 64 * unat cp + unat c mod 64"
    using assms by (subst unat_shift6_or) simp_all
qed

lemma utf8_continue_value:
  assumes "utf8_continue cs cp = Some v" "(unat cp + 1) * 64 ^ length cs \<le> 2 ^ 26" 
  shows "(\<forall>c \<in> set cs. is_continuation c) \<and> unat v = foldl (\<lambda>a c. 64 * a + unat c mod 64) (unat cp) cs"
  using assms
proof (induction cs arbitrary: cp)
  case (Cons c cs)
  let ?cp' = "push_bit 6 cp OR ucast (c AND 0x3F)"
  have "(1 :: nat) \<le> 64 ^ length cs" by simp
  then have "(unat cp + 1) * 64 \<le> (unat cp + 1) * 64 * 64 ^ length cs" by (metis mult.right_neutral mult_le_mono2)
  also have "\<dots> \<le> 2 ^ 26" using Cons.prems(2) by (simp only: length_Cons power_Suc mult.assoc)
  finally have cp: "unat cp < 2 ^ 20" by simp
  note st = utf8_continue_step(1) [OF cp, of c cs] utf8_continue_step(2) [OF cp, of c]
  have k: "is_continuation c" "utf8_continue cs ?cp' = Some v" using Cons.prems(1) st(1) by (simp_all split: if_splits)
  have "unat c mod 64 \<le> 63" by simp
  then have "unat ?cp' + 1 \<le> (unat cp + 1) * 64" unfolding st(2) by simp
  then have "(unat ?cp' + 1) * 64 ^ length cs \<le> ((unat cp + 1) * 64) * 64 ^ length cs"
    by (rule mult_le_mono1)
  also have "\<dots> \<le> 2 ^ 26" using Cons.prems(2) by (simp only: length_Cons power_Suc mult.assoc)
  finally show ?case using Cons.IH [OF k(2)] k(1) st(2) by simp
qed simp

lemma utf8_continue_ok:
  assumes "\<forall>c \<in> set cs. is_continuation c"
  shows "\<exists>v. utf8_continue cs cp = Some v"
  using assms by (induction cs arbitrary: cp) (auto simp: is_continuation_def continuation_byte)


text \<open>Lead bytes by value.\<close>

lemma utf8_lead_value:
  "utf8_lead b =
     (if 0xC2 \<le> unat b \<and> unat b \<le> 0xDF then Some (1, of_nat (unat b - 0xC0), 0x80)
      else if 0xE0 \<le> unat b \<and> unat b \<le> 0xEF then Some (2, of_nat (unat b - 0xE0), 0x800)
      else if 0xF0 \<le> unat b \<and> unat b \<le> 0xF4 then Some (3, of_nat (unat b - 0xF0), 0x10000)
      else None)"
proof -
  have m: "unat (b AND 0x1F) = unat b mod 32" "unat (b AND 0x0F) = unat b mod 16" "unat (b AND 0x07) = unat b mod 8"
    using unat_and_mask [of b 5] unat_and_mask [of b 4] unat_and_mask [of b 3] by (simp_all add: mask_eq_exp_minus_1)
  have e: "ucast x = (of_nat n :: u32)" if "unat (x :: u8) = n" for x n
    by (simp add: that [symmetric])
  have "ucast (b AND 0x1F) = (of_nat (unat b - 0xC0) :: u32)" if "0xC2 \<le> unat b" "unat b \<le> 0xDF"
    using that by (intro e) (simp add: m mod_if)
  moreover have "ucast (b AND 0x0F) = (of_nat (unat b - 0xE0) :: u32)" if "0xE0 \<le> unat b" "unat b \<le> 0xEF"
    using that by (intro e) (simp add: m mod_if)
  moreover have "ucast (b AND 0x07) = (of_nat (unat b - 0xF0) :: u32)" if "0xF0 \<le> unat b" "unat b \<le> 0xF4"
    using that by (intro e) (simp add: m mod_if)
  ultimately show ?thesis by (simp add: utf8_lead_def word_le_nat_alt)
qed


lemma utf8_lead_encode:
  assumes "0x80 \<le> n" "n \<le> 0x10FFFF"
  shows "\<exists>k cp mn. utf8_lead (hd (utf8_encode n)) = Some (k, cp, mn) \<and> length (utf8_encode n) = Suc k \<and>
     (\<forall>c \<in> set (tl (utf8_encode n)). is_continuation c) \<and> k \<le> 3 \<and> (unat cp + 1) * 64 ^ k \<le> 2 ^ 26 \<and>
     foldl (\<lambda>a c. 64 * a + unat c mod 64) (unat cp) (tl (utf8_encode n)) = n \<and> unat mn \<le> n"
proof -
  have b: "unat (of_nat m :: u8) = m" if "m < 256" for m using that by (rule unat_of_nat_u8)
  have w: "unat (of_nat m :: u32) = m" if "m < 2 ^ 32" for m using that by (simp add: unat_of_nat)
  have r: "n mod 64 < 64" "n div 64 mod 64 < 64" "n div 4096 mod 64 < 64" by simp_all
  have d1: "64 * (n div 64) + n mod 64 = n" and d2: "64 * (n div 4096) + n div 64 mod 64 = n div 64"
    and d3: "64 * (n div 262144) + n div 4096 mod 64 = n div 4096"
    using div_mult_mod_eq [of "n div 64" 64] div_mult_mod_eq [of "n div 4096" 64]
    by (simp_all add: div_mult2_eq [symmetric])
  have f2: "4096 * (n div 4096) + 64 * (n div 64 mod 64) + n mod 64 = n" using d1 d2 by linarith
  have f3: "262144 * (n div 262144) + 4096 * (n div 4096 mod 64) + 64 * (n div 64 mod 64) + n mod 64 = n"
    using f2 d3 by linarith
  have m: "(128 + x) mod 64 = x" if "x < 64" for x :: nat using that by (simp add: mod_if)
  consider (two) "n < 0x800" | (three) "0x800 \<le> n" "n < 0x10000" | (four) "0x10000 \<le> n" by linarith
  then show ?thesis
  proof cases
    case two
    then have q: "2 \<le> n div 64" "n div 64 \<le> 31" using assms by linarith+
    define x c where "x = (of_nat (0xC0 + n div 64) :: u8)" and "c = (of_nat (0x80 + n mod 64) :: u8)"
    have u: "unat x = 0xC0 + n div 64" "unat c = 0x80 + n mod 64"
      unfolding x_def c_def using q r by (simp_all only: b)
    have e: "utf8_encode n = [x, c]" using assms two by (simp add: utf8_encode_def x_def c_def)
    show ?thesis using assms two r d1 q by (auto simp: e utf8_lead_value u w m is_continuation_def)
  next
    case three
    then have q: "n div 4096 \<le> 15" by linarith
    define x c c2 where "x = (of_nat (0xE0 + n div 4096) :: u8)" and "c = (of_nat (0x80 + n div 64 mod 64) :: u8)"
      and "c2 = (of_nat (0x80 + n mod 64) :: u8)"
    have u: "unat x = 0xE0 + n div 4096" "unat c = 0x80 + n div 64 mod 64" "unat c2 = 0x80 + n mod 64"
      unfolding x_def c_def c2_def using q r by (simp_all only: b)
    have e: "utf8_encode n = [x, c, c2]" using assms three by (simp add: utf8_encode_def x_def c_def c2_def)
    show ?thesis using assms three r f2 q by (auto simp: e utf8_lead_value u w m is_continuation_def)
  next
    case four
    then have q: "n div 262144 \<le> 4" using assms by linarith
    define x c c2 c3 where "x = (of_nat (0xF0 + n div 262144) :: u8)" and "c = (of_nat (0x80 + n div 4096 mod 64) :: u8)"
      and "c2 = (of_nat (0x80 + n div 64 mod 64) :: u8)" and "c3 = (of_nat (0x80 + n mod 64) :: u8)"
    have u: "unat x = 0xF0 + n div 262144" "unat c = 0x80 + n div 4096 mod 64" "unat c2 = 0x80 + n div 64 mod 64"
      "unat c3 = 0x80 + n mod 64"
      unfolding x_def c_def c2_def c3_def using q r by (simp_all only: b)
    have e: "utf8_encode n = [x, c, c2, c3]" using assms four by (simp add: utf8_encode_def x_def c_def c2_def c3_def)
    show ?thesis using assms four r f3 q by (auto simp: e utf8_lead_value u w m is_continuation_def)
  qed
qed


lemma utf8_loop_encode:
  assumes "unicode_scalar n" "n = 0 \<Longrightarrow> allow_nul"
  shows "utf8_loop allow_nul (utf8_encode n @ r) = utf8_loop allow_nul r"
proof (cases "n < 0x80")
  case True
  then have u: "unat (of_nat n :: u8) = n" by (simp add: unat_of_nat_u8)
  have "utf8_encode n = [of_nat n]" using True by (simp add: utf8_encode_def)
  moreover have "(of_nat n :: u8) \<le> 0x7F" using True u by (simp add: word_le_nat_alt)
  moreover have "(of_nat n :: u8) = 0 \<longleftrightarrow> n = 0" using u by (metis unat_0 unat_eq_0)
  ultimately show ?thesis using assms(2) by auto
next
  case False
  then obtain k cp mn where l: "utf8_lead (hd (utf8_encode n)) = Some (k, cp, mn)" "length (utf8_encode n) = Suc k"
    "\<forall>c \<in> set (tl (utf8_encode n)). is_continuation c" "(unat cp + 1) * 64 ^ k \<le> 2 ^ 26"
    "foldl (\<lambda>a c. 64 * a + unat c mod 64) (unat cp) (tl (utf8_encode n)) = n" "unat mn \<le> n"
    using utf8_lead_encode [of n] assms(1) by (auto simp: unicode_scalar_def)
  obtain x xs where e: "utf8_encode n = x # xs" using l(2) by (cases "utf8_encode n") auto
  obtain v where v: "utf8_continue xs cp = Some v" using utf8_continue_ok l(3) e by fastforce
  have uv: "unat v = n" using utf8_continue_value [OF v] l(2,4,5) e by simp
  have x: "\<not> x \<le> 0x7F" using l(1) e by (auto simp: utf8_lead_value word_le_nat_alt split: if_splits)
  have "length xs = k" using l(2) e by simp
  moreover have "\<not> (v < mn \<or> v > 0x10FFFF \<or> v \<ge> 0xD800 \<and> v \<le> 0xDFFF)"
    using assms(1) l(6) uv by (auto simp: unicode_scalar_def word_less_nat_alt word_le_nat_alt)
  ultimately show ?thesis using l(1) v x by (auto simp: e)
qed

lemma utf8_lead_cases:
  assumes "utf8_lead b = Some (k, cp, mn)"
  shows "(k = 1 \<and> 0xC2 \<le> unat b \<and> unat b \<le> 0xDF \<and> unat cp = unat b - 0xC0 \<and> mn = 0x80) \<or>
    (k = 2 \<and> 0xE0 \<le> unat b \<and> unat b \<le> 0xEF \<and> unat cp = unat b - 0xE0 \<and> mn = 0x800) \<or>
    (k = 3 \<and> 0xF0 \<le> unat b \<and> unat b \<le> 0xF4 \<and> unat cp = unat b - 0xF0 \<and> mn = 0x10000)"
proof -
  have w: "unat (of_nat (unat b - m) :: u32) = unat b - m" for m
  proof -
    have "unat b - m < 4294967296" using unat_u8_less [of b] by linarith
    then show ?thesis by (simp add: unat_of_nat del: of_nat_diff)
  qed
  show ?thesis using assms unfolding utf8_lead_value by (auto simp: w simp del: of_nat_diff split: if_splits)
qed

lemma utf8_decoded_encode:
  assumes l: "utf8_lead b = Some (k, cp, mn)" and len: "length cs = k"
    and v: "utf8_continue cs cp = Some v" and mn: "\<not> v < mn"
  shows "utf8_encode (unat v) = b # cs"
proof -
  note L = utf8_lead_cases [OF l]
  have cp: "(unat cp + 1) * 64 ^ k \<le> 2 ^ 26" using L by auto
  have c: "\<forall>c \<in> set cs. is_continuation c" and uv: "unat v = foldl (\<lambda>a c. 64 * a + unat c mod 64) (unat cp) cs"
    using utf8_continue_value [OF v] cp len by simp_all
  have byte: "x = of_nat m" if "unat (x :: u8) = m" for x m using that by (metis of_nat_unat ucast_id)
  have ct: "unat x = 0x80 + unat x mod 64" if "is_continuation x" for x
    using that by (auto simp: is_continuation_def mod_if)
  have q: "(64 * a + x mod 64) div 64 = a" "(64 * a + x mod 64) mod 64 = x mod 64" for a x :: nat by simp_all
  have mn': "unat mn \<le> unat v" using mn by (simp add: word_le_nat_alt not_less)
  consider (two) "k = 1" | (three) "k = 2" | (four) "k = 3" using L by blast
  then show ?thesis
  proof cases
    case two
    then obtain c1 where cs: "cs = [c1]" using len by (auto simp: length_Suc_conv)
    have B: "0xC2 \<le> unat b" "unat b \<le> 0xDF" "unat cp = unat b - 0xC0"
      using L two by simp_all
    let ?n = "unat v"
    have n: "?n = 64 * (unat b - 0xC0) + unat c1 mod 64" using uv B cs by simp
    then have "?n div 64 = unat b - 0xC0" "?n mod 64 = unat c1 mod 64" "0x80 \<le> ?n" "?n < 0x800" using B by simp_all
    moreover have "unat c1 = 0x80 + unat c1 mod 64" using c cs ct by simp
    ultimately show ?thesis using B byte [of b "0xC0 + ?n div 64"] byte [of c1 "0x80 + ?n mod 64"]
      unfolding utf8_encode_def cs by simp
  next
    case three
    then obtain c1 c2 where cs: "cs = [c1, c2]" using len by (auto simp: length_Suc_conv numeral_2_eq_2)
    have B: "0xE0 \<le> unat b" "unat b \<le> 0xEF" "unat cp = unat b - 0xE0" "mn = 0x800"
      using L three by simp_all
    let ?n = "unat v"
    have n: "?n = 64 * (64 * (unat b - 0xE0) + unat c1 mod 64) + unat c2 mod 64" using uv B cs by simp
    have d: "?n div 64 = 64 * (unat b - 0xE0) + unat c1 mod 64" "?n mod 64 = unat c2 mod 64"
      unfolding n by (rule q)+
    have "?n div 4096 = ?n div 64 div 64" by (simp add: div_mult2_eq [symmetric])
    also have "\<dots> = unat b - 0xE0" unfolding d(1) by (rule q)
    finally have d2: "?n div 4096 = unat b - 0xE0" .
    have d3: "?n div 64 mod 64 = unat c1 mod 64" unfolding d(1) by (rule q)
    have "64 * (64 * x + y) + z < 65536" if "x \<le> 15" "y \<le> 63" "z \<le> 63" for x y z :: nat using that by simp
    moreover have "unat c1 mod 64 \<le> 63" "unat c2 mod 64 \<le> 63" by simp_all
    ultimately have "?n < 0x10000" unfolding n using B by simp
    moreover have "0x800 \<le> ?n" using mn' B by simp
    moreover have "unat c1 = 0x80 + unat c1 mod 64" "unat c2 = 0x80 + unat c2 mod 64" using c cs ct by simp_all
    ultimately show ?thesis
      using B d d2 d3 byte [of b "0xE0 + ?n div 4096"] byte [of c1 "0x80 + ?n div 64 mod 64"] byte [of c2 "0x80 + ?n mod 64"]
      unfolding utf8_encode_def cs by simp
  next
    case four
    then obtain c1 c2 c3 where cs: "cs = [c1, c2, c3]" using len by (auto simp: length_Suc_conv numeral_3_eq_3)
    have B: "0xF0 \<le> unat b" "unat b \<le> 0xF4" "unat cp = unat b - 0xF0" "mn = 0x10000"
      using L four by simp_all
    let ?n = "unat v"
    have n: "?n = 64 * (64 * (64 * (unat b - 0xF0) + unat c1 mod 64) + unat c2 mod 64) + unat c3 mod 64" using uv B cs by simp
    have d: "?n div 64 = 64 * (64 * (unat b - 0xF0) + unat c1 mod 64) + unat c2 mod 64" "?n mod 64 = unat c3 mod 64"
      unfolding n by (rule q)+
    have "?n div 4096 = ?n div 64 div 64" by (simp add: div_mult2_eq [symmetric])
    also have "\<dots> = 64 * (unat b - 0xF0) + unat c1 mod 64" unfolding d(1) by (rule q)
    finally have d2: "?n div 4096 = 64 * (unat b - 0xF0) + unat c1 mod 64" .
    have "?n div 262144 = ?n div 4096 div 64" by (simp add: div_mult2_eq [symmetric])
    also have "\<dots> = unat b - 0xF0" unfolding d2 by (rule q)
    finally have d3: "?n div 262144 = unat b - 0xF0" .
    have d4: "?n div 64 mod 64 = unat c2 mod 64" "?n div 4096 mod 64 = unat c1 mod 64" unfolding d(1) d2 by (rule q)+
    have "0x10000 \<le> ?n" using mn' B by simp
    moreover have "unat c1 = 0x80 + unat c1 mod 64" "unat c2 = 0x80 + unat c2 mod 64" "unat c3 = 0x80 + unat c3 mod 64"
      using c cs ct by simp_all
    ultimately show ?thesis
      using B d d2 d3 d4 byte [of b "0xF0 + ?n div 262144"] byte [of c1 "0x80 + ?n div 4096 mod 64"]
        byte [of c2 "0x80 + ?n div 64 mod 64"] byte [of c3 "0x80 + ?n mod 64"]
      unfolding utf8_encode_def cs by simp
  qed
qed


lemma utf8_loop_first:
  assumes "utf8_loop allow_nul (b # rest)"
  shows "\<exists>n r. unicode_scalar n \<and> (n = 0 \<longrightarrow> allow_nul) \<and> b # rest = utf8_encode n @ r \<and> utf8_loop allow_nul r"
proof (cases "b \<le> 0x7F")
  case True
  then have b: "unat b < 0x80" by (simp add: word_le_nat_alt)
  then have "utf8_encode (unat b) = [b]" by (simp add: utf8_encode_def)
  moreover have "unat b = 0 \<longrightarrow> allow_nul" "utf8_loop allow_nul rest"
    using assms True by (auto simp: unat_eq_0 split: if_splits)
  ultimately show ?thesis using b by (intro exI [of _ "unat b"] exI [of _ rest]) (simp add: unicode_scalar_def)
next
  case False
  then obtain k cp mn v where l: "utf8_lead b = Some (k, cp, mn)" "k < length (b # rest)"
    "utf8_continue (take k rest) cp = Some v" "\<not> v < mn" "\<not> v > 0x10FFFF" "\<not> (v \<ge> 0xD800 \<and> v \<le> 0xDFFF)"
    "utf8_loop allow_nul (drop k rest)"
    using assms by (auto split: option.splits prod.splits if_splits)
  have e: "utf8_encode (unat v) = b # take k rest"
    using l by (intro utf8_decoded_encode) auto
  have "unat mn \<le> unat v" using l(4) by (simp add: word_le_nat_alt not_less)
  then have "unat v \<noteq> 0" using utf8_lead_cases [OF l(1)] by auto
  moreover have "unicode_scalar (unat v)" using l(5,6) by (simp add: unicode_scalar_def word_le_nat_alt word_less_nat_alt)
  ultimately show ?thesis using e l(7) by (intro exI [of _ "unat v"] exI [of _ "drop k rest"]) simp
qed

lemma utf8_loop_exact:
  "utf8_loop allow_nul bs \<longleftrightarrow>
     (\<exists>ns. (\<forall>n \<in> set ns. unicode_scalar n \<and> (n = 0 \<longrightarrow> allow_nul)) \<and> bs = concat (map utf8_encode ns))"
proof
  show "utf8_loop allow_nul bs \<Longrightarrow> \<exists>ns. (\<forall>n \<in> set ns. unicode_scalar n \<and> (n = 0 \<longrightarrow> allow_nul)) \<and> bs = concat (map utf8_encode ns)"
  proof (induction "length bs" arbitrary: bs rule: less_induct)
    case less
    show ?case
    proof (cases bs)
      case Nil
      then show ?thesis by (intro exI [of _ "[]"]) simp
    next
      case (Cons b rest)
      then obtain n r where n: "unicode_scalar n" "n = 0 \<longrightarrow> allow_nul" "bs = utf8_encode n @ r" "utf8_loop allow_nul r"
        using utf8_loop_first less.prems by metis
      have "length r < length bs" using n(3) by (simp add: utf8_encode_def)
      then obtain ns where "\<forall>n \<in> set ns. unicode_scalar n \<and> (n = 0 \<longrightarrow> allow_nul)" "r = concat (map utf8_encode ns)"
        using less.hyps n(4) by blast
      then show ?thesis using n by (intro exI [of _ "n # ns"]) simp
    qed
  qed
next
  assume "\<exists>ns. (\<forall>n \<in> set ns. unicode_scalar n \<and> (n = 0 \<longrightarrow> allow_nul)) \<and> bs = concat (map utf8_encode ns)"
  then obtain ns where ns: "\<forall>n \<in> set ns. unicode_scalar n \<and> (n = 0 \<longrightarrow> allow_nul)" "bs = concat (map utf8_encode ns)" by blast
  have "utf8_loop allow_nul (concat (map utf8_encode ns))"
    using ns(1) by (induction ns) (simp_all add: utf8_loop_encode)
  then show "utf8_loop allow_nul bs" using ns(2) by simp
qed

text \<open>
  C27. The UTF-8 check is exact: it accepts precisely the byte strings that are the UTF-8 encoding of
  some sequence of Unicode scalar values (no surrogates, nothing above 10FFFF, no overlong form),
  without the NUL character unless it is allowed.
\<close>

theorem utf8_is_valid_exact:
  "utf8_is_valid bytes len allow_nul \<longleftrightarrow>
     (\<exists>ns. (\<forall>n \<in> set ns. unicode_scalar n \<and> (n = 0 \<longrightarrow> allow_nul)) \<and> take len bytes = concat (map utf8_encode ns))"
  unfolding utf8_is_valid_def by (rule utf8_loop_exact)

theorem utf8_is_valid_exact_witness:
  "\<not> (\<exists>ns. (\<forall>n \<in> set ns. unicode_scalar n \<and> (n = 0 \<longrightarrow> False)) \<and>
        take 2 [0xC0 :: u8, 0x80] = concat (map utf8_encode ns))"
proof -
  have "\<not> utf8_is_valid [0xC0, 0x80] 2 False" by code_simp
  then show ?thesis using utf8_is_valid_exact [of "[0xC0, 0x80]" 2 False] by simp
qed

end
