(* ===== verification/Configuration_Meaning.thy ===== *)
theory Configuration_Meaning
  imports Configuration_Text
begin

text \<open>
  What a configuration means. \<open>active_same\<close> relates objects that agree on the fields in effect, and
  \<open>configuration_view_of\<close> maps a valid object to its meaning. Validation depends only on the fields
  in effect, and the comparison function of \<open>configuration.c\<close> decides equality of meaning.
\<close>

section \<open>Fields in effect\<close>

definition text_same :: "configuration_text_t \<Rightarrow> configuration_text_t \<Rightarrow> bool" where
  "text_same t u \<longleftrightarrow> text_length t = text_length u \<and> length (text_bytes t) = length (text_bytes u) \<and>
     take (Suc (text_len t)) (text_bytes t) = take (Suc (text_len t)) (text_bytes u)"

definition endpoint_same :: "configuration_endpoint_address_t \<Rightarrow> configuration_endpoint_address_t \<Rightarrow> bool" where
  "endpoint_same e f \<longleftrightarrow> endpoint_type e = endpoint_type f \<and>
     (endpoint_type e = CONFIGURATION_ENDPOINT_ADDRESS_TYPE_HOSTNAME \<longrightarrow> text_same (endpoint_hostname e) (endpoint_hostname f)) \<and>
     (endpoint_type e = CONFIGURATION_ENDPOINT_ADDRESS_TYPE_IPV4 \<longrightarrow> endpoint_ipv4 e = endpoint_ipv4 f)"

definition client_id_same :: "configuration_client_id_t \<Rightarrow> configuration_client_id_t \<Rightarrow> bool" where
  "client_id_same x y \<longleftrightarrow> client_id_mode x = client_id_mode y \<and>
     (client_id_mode x = CONFIGURATION_CLIENT_ID_MODE_EXPLICIT \<longrightarrow> text_same (explicit_value x) (explicit_value y))"

definition message_same :: "configuration_mqtt_message_t \<Rightarrow> configuration_mqtt_message_t \<Rightarrow> bool" where
  "message_same x y \<longleftrightarrow> message_mode x = message_mode y \<and>
     (message_mode x = CONFIGURATION_MQTT_MESSAGE_MODE_CUSTOM \<longrightarrow>
        text_same (message_topic x) (message_topic y) \<and> text_same (message_payload x) (message_payload y) \<and>
        message_qos x = message_qos y \<and> message_retain x = message_retain y)"

definition mqtt_same :: "configuration_mqtt_t \<Rightarrow> configuration_mqtt_t \<Rightarrow> bool" where
  "mqtt_same x y \<longleftrightarrow> text_same (broker_address x) (broker_address y) \<and> broker_port x = broker_port y \<and>
     client_id_same (client_id x) (client_id y) \<and> text_same (username x) (username y) \<and>
     text_same (password x) (password y) \<and> text_same (ca_certificate_pem x) (ca_certificate_pem y) \<and>
     keep_alive_seconds x = keep_alive_seconds y \<and> message_same (online_message x) (online_message y) \<and>
     message_same (will_message x) (will_message y)"

definition register_source :: "configuration_collection_point_t \<Rightarrow> bool" where
  "register_source p \<longleftrightarrow> point_source p = CONFIGURATION_COLLECTION_SOURCE_HOLDING_REGISTER \<or>
     point_source p = CONFIGURATION_COLLECTION_SOURCE_INPUT_REGISTER"

definition point_same :: "configuration_collection_point_t \<Rightarrow> configuration_collection_point_t \<Rightarrow> bool" where
  "point_same p q \<longleftrightarrow> slave_address p = slave_address q \<and> point_source p = point_source q \<and>
     point_address p = point_address q \<and> (register_source p \<longrightarrow> point_data_type p = point_data_type q) \<and>
     poll_interval_ms p = poll_interval_ms q \<and> point_first_byte_timeout_ms p = point_first_byte_timeout_ms q \<and>
     text_same (point_topic p) (point_topic q) \<and> point_qos p = point_qos q"

text \<open>Two configurations agree on every field that is in effect.\<close>

definition active_same :: "configuration_t \<Rightarrow> configuration_t \<Rightarrow> bool" where
  "active_same c d \<longleftrightarrow>
     network_mode (network c) = network_mode (network d) \<and>
     (network_mode (network c) = CONFIGURATION_NETWORK_MODE_STATIC \<longrightarrow> network c = (network d)) \<and>
     rtu c = rtu d \<and> listen_port c = listen_port d \<and>
     endpoint_same (sntp_servers c ! 0) (sntp_servers d ! 0) \<and> endpoint_same (sntp_servers c ! 1) (sntp_servers d ! 1) \<and>
     mqtt_mode (mqtt c) = mqtt_mode (mqtt d) \<and>
     (mqtt_mode (mqtt c) = CONFIGURATION_MQTT_MODE_ENABLED \<longrightarrow> mqtt_same (mqtt c) (mqtt d)) \<and>
     point_count (collection c) = point_count (collection d) \<and>
     length (points (collection c)) = length (points (collection d)) \<and>
     (\<forall>i < unat (point_count (collection c)). i < length (points (collection c)) \<longrightarrow>
        point_same (points (collection c) ! i) (points (collection d) ! i))"

lemma text_same_refl [simp]: "text_same t t"
  by (simp add: text_same_def)

lemma text_same_cases:
  fixes t u :: configuration_text_t
  assumes "text_same t u"
  shows "t = u \<or> (text_length t = text_length u \<and> text_len t < length (text_bytes t) \<and>
    text_len t < length (text_bytes u) \<and> text_content t = text_content u \<and>
    (\<forall>i \<le> text_len t. text_bytes t ! i = text_bytes u ! i))"
proof (cases "text_len t < length (text_bytes t)")
  case True
  have e: "take (Suc (text_len t)) (text_bytes t) = take (Suc (text_len t)) (text_bytes u)"
    using assms unfolding text_same_def by auto
  have "text_bytes t ! i = text_bytes u ! i" if "i \<le> text_len t" for i
    using arg_cong [OF e, of "\<lambda>xs. xs ! i"] that by simp
  moreover have "text_content t = text_content u"
    using arg_cong [OF e, of "take (text_len t)"] assms by (simp add: text_content_def text_same_def)
  ultimately show ?thesis using True assms by (simp add: text_same_def)
next
  case False
  then have "text_bytes t = text_bytes u" using assms by (simp add: text_same_def)
  then show ?thesis using assms by (simp add: text_same_def)
qed

lemma list_all_nth_take: "n \<le> length xs \<Longrightarrow> list_all (\<lambda>i. P (xs ! i)) [0..<n] \<longleftrightarrow> (\<forall>x \<in> set (take n xs). P x)"
  by (auto simp: list_all_iff set_conv_nth)

lemma list_all_text: "text_len t < length (text_bytes t) \<Longrightarrow>
  list_all (\<lambda>i. P (text_bytes t ! i)) [0..<text_len t] \<longleftrightarrow> (\<forall>x \<in> set (text_content t). P x)"
  by (simp add: list_all_nth_take text_content_def)

lemma text_same_take:
  assumes "text_same t u" "n \<le> Suc (text_len t)"
  shows "take n (text_bytes t) = take n (text_bytes u)"
proof -
  have "take (Suc (text_len t)) (text_bytes t) = take (Suc (text_len t)) (text_bytes u)"
    using assms unfolding text_same_def by blast
  from arg_cong [OF this, of "take n"] show ?thesis using assms(2) by (simp add: min_def)
qed

text \<open>The character checks by content, for a field whose length is inside its array.\<close>

definition topic_char :: "u8 \<Rightarrow> bool" where
  "topic_char v \<longleftrightarrow> ascii_is_alphanumeric v \<or> v = CHAR_DOT \<or> v = 0x5F \<or> v = CHAR_DASH \<or> v = 0x2F \<or> v = 0x24"

definition client_id_char :: "u8 \<Rightarrow> bool" where
  "client_id_char v \<longleftrightarrow> ascii_is_alphanumeric v \<or> v = 0x5F \<or> v = CHAR_DASH"

definition visible_char :: "u8 \<Rightarrow> bool" where
  "visible_char v \<longleftrightarrow> 0x20 \<le> v \<and> v \<le> 0x7E"

lemma topic_is_valid_content:
  assumes "text_len t < length (text_bytes t)"
  shows "topic_is_valid t \<longleftrightarrow> 1 \<le> text_len t \<and> text_len t \<le> 128 \<and> text_bytes t ! text_len t = 0 \<and>
    (\<forall>c \<in> set (text_content t). topic_char c)"
  using list_all_text [OF assms, of topic_char] by (auto simp: topic_is_valid_def Let_def topic_char_def)

lemma visible_ascii_content:
  assumes "text_len t < length (text_bytes t)"
  shows "visible_ascii_is_valid (text_bytes t) (text_len t) a b \<longleftrightarrow> a \<le> text_len t \<and> text_len t \<le> b \<and>
    text_bytes t ! text_len t = 0 \<and> (\<forall>c \<in> set (text_content t). visible_char c)"
  using list_all_text [OF assms, of visible_char] by (auto simp: visible_ascii_is_valid_def visible_char_def not_less)

lemma client_id_content:
  assumes "text_len (explicit_value x) < length (text_bytes (explicit_value x))"
    "client_id_mode x = CONFIGURATION_CLIENT_ID_MODE_EXPLICIT"
  shows "client_id_is_valid x \<longleftrightarrow> 1 \<le> text_len (explicit_value x) \<and> text_len (explicit_value x) \<le> 256 \<and>
    text_bytes (explicit_value x) ! text_len (explicit_value x) = 0 \<and>
    (\<forall>c \<in> set (text_content (explicit_value x)). client_id_char c)"
  using list_all_text [OF assms(1), of client_id_char] assms(2)
  by (auto simp: client_id_is_valid_def Let_def client_id_char_def)

lemma text_same_hostname: "text_same t u \<Longrightarrow> hostname_is_valid t = hostname_is_valid u"
  by (drule text_same_cases) (auto simp: hostname_content)

lemma text_same_topic: "text_same t u \<Longrightarrow> topic_is_valid t = topic_is_valid u"
  by (drule text_same_cases) (auto simp: topic_is_valid_content)

lemma text_same_visible: "text_same t u \<Longrightarrow>
  visible_ascii_is_valid (text_bytes t) (text_len t) a b = visible_ascii_is_valid (text_bytes u) (text_len u) a b"
  using visible_ascii_content [of t a b] visible_ascii_content [of u a b] by (auto dest!: text_same_cases)

lemma text_same_utf8: "text_same t u \<Longrightarrow>
  utf8_is_valid (text_bytes t) (text_len t) b = utf8_is_valid (text_bytes u) (text_len u) b"
  by (drule text_same_cases) (auto simp: utf8_is_valid_def text_content_def)

lemma text_same_payload:
  "text_same t u \<Longrightarrow> text_length t = text_length u \<and> text_bytes t ! text_len t = text_bytes u ! text_len u"
  by (drule text_same_cases) auto

lemma client_id_same_valid:
  assumes "client_id_same x y"
  shows "client_id_is_valid x = client_id_is_valid y"
proof (cases "client_id_mode y = CONFIGURATION_CLIENT_ID_MODE_EXPLICIT")
  case True
  then have "text_same (explicit_value x) (explicit_value y)" using assms by (simp add: client_id_same_def)
  from text_same_cases [OF this] True assms show ?thesis
    by (auto simp: client_id_same_def client_id_content) (auto simp: client_id_is_valid_def)
next
  case False
  then show ?thesis using assms by (simp add: client_id_same_def client_id_is_valid_def)
qed

lemma message_same_valid: "message_same x y \<Longrightarrow> mqtt_message_is_valid x = mqtt_message_is_valid y"
  unfolding message_same_def mqtt_message_is_valid_def Let_def
  by (cases "message_mode y = CONFIGURATION_MQTT_MESSAGE_MODE_CUSTOM")
     (auto dest: text_same_topic text_same_utf8 text_same_payload)

lemma certificate_same:
  assumes s: "text_same t u"
  shows "ca_certificate_is_valid tls t = ca_certificate_is_valid tls u"
proof -
  have l: "text_length t = text_length u" using text_same_payload [OF s] by simp
  have "utf8_is_valid (text_bytes t) (text_len u) False = utf8_is_valid (text_bytes u) (text_len u) False"
    "text_bytes t ! text_len u = text_bytes u ! text_len u"
    "take (text_len u + 1) (text_bytes t) = take (text_len u + 1) (text_bytes u)"
    using text_same_utf8 [OF s, of False] text_same_payload [OF s] text_same_take [OF s, of "text_len u + 1"] l by simp_all
  then show ?thesis by (simp only: ca_certificate_is_valid_def Let_def l)
qed

lemma memcmp_take: "memcmp xs ys n = memcmp (take n xs) (take n ys) n"
  by (induction xs ys n rule: memcmp.induct) auto

lemma memcmp_cong:
  "take n xs = take n xs' \<Longrightarrow> take n ys = take n ys' \<Longrightarrow> memcmp xs ys n = memcmp xs' ys' n"
  by (metis memcmp_take)

lemma topic_compare_same:
  assumes "text_same t t'" "text_same u u'"
  shows "topic_compare t u = topic_compare t' u'"
proof -
  have l: "text_length t = text_length t'" "text_length u = text_length u'" using assms by (simp_all add: text_same_def)
  let ?n = "if text_length t' < text_length u' then text_len t' else text_len u'"
  have "?n \<le> Suc (text_len t)" "?n \<le> Suc (text_len u)" using l by (auto simp: word_less_nat_alt)
  then have m: "memcmp (text_bytes t) (text_bytes u) ?n = memcmp (text_bytes t') (text_bytes u') ?n"
    using assms by (intro memcmp_cong text_same_take)
  show ?thesis by (simp only: topic_compare_def Let_def l m)
qed

lemma hostnames_equal_same:
  assumes "text_same t t'" "text_same u u'"
  shows "hostnames_equal t u = hostnames_equal t' u'"
proof -
  have l: "text_length t = text_length t'" "text_length u = text_length u'" using assms by (simp_all add: text_same_def)
  have n: "text_same x y \<Longrightarrow> i < text_len x \<Longrightarrow> text_bytes x ! i = text_bytes y ! i" for x y i
    by (drule text_same_cases) auto
  show ?thesis
    using l n [OF assms(1)] n [OF assms(2)] by (auto simp: hostnames_equal_def list_all_iff)
qed


lemma endpoint_same_valid: "endpoint_same e f \<Longrightarrow> endpoint_address_is_valid e = endpoint_address_is_valid f"
  by (auto simp: endpoint_same_def endpoint_address_is_valid_def text_same_hostname)

lemma endpoint_same_equal:
  assumes "endpoint_same e e'" "endpoint_same f f'" "endpoint_address_is_valid e" "endpoint_address_is_valid f"
  shows "endpoint_addresses_equal e f = endpoint_addresses_equal e' f'"
proof (cases "endpoint_type e = CONFIGURATION_ENDPOINT_ADDRESS_TYPE_HOSTNAME")
  case True
  then show ?thesis using assms hostnames_equal_same [of "endpoint_hostname e" "endpoint_hostname e'" "endpoint_hostname f" "endpoint_hostname f'"]
    by (auto simp: endpoint_same_def endpoint_addresses_equal_def)
next
  case False
  then have "endpoint_type e = CONFIGURATION_ENDPOINT_ADDRESS_TYPE_IPV4"
    using assms(3) by (simp add: endpoint_address_is_valid_def split: if_splits)
  then show ?thesis using False assms by (auto simp: endpoint_same_def endpoint_addresses_equal_def)
qed

lemma mqtt_same_valid:
  assumes "mqtt_same x y"
  shows "mqtt_fields_are_valid x = mqtt_fields_are_valid y"
proof -
  have s: "text_same (broker_address x) (broker_address y)" "broker_port x = broker_port y"
    "client_id_same (client_id x) (client_id y)" "text_same (username x) (username y)"
    "text_same (password x) (password y)" "keep_alive_seconds x = keep_alive_seconds y"
    "message_same (online_message x) (online_message y)" "message_same (will_message x) (will_message y)"
    using assms by (simp_all add: mqtt_same_def)
  note e = s(2,6) text_same_hostname [OF s(1)] client_id_same_valid [OF s(3)] text_same_visible [OF s(4), of 1 256]
    text_same_visible [OF s(5), of 1 256] message_same_valid [OF s(7)] message_same_valid [OF s(8)]
  show ?thesis unfolding mqtt_fields_are_valid_def e ..
qed

lemma point_same_valid: "point_same p q \<Longrightarrow> collection_point_is_valid p = collection_point_is_valid q"
  by (auto simp: point_same_def collection_point_is_valid_def text_same_topic register_source_def)

lemma point_same_contribution:
  "point_same p q \<Longrightarrow> point_contribution bits t35 r p = point_contribution bits t35 r q"
  by (simp add: point_same_def point_contribution_def point_character_count_def)

lemma message_topic_same:
  assumes "message_same m m'" "text_same t t'"
  shows "(message_mode m = CONFIGURATION_MQTT_MESSAGE_MODE_CUSTOM \<and> topic_compare t (message_topic m) = 0) \<longleftrightarrow>
    (message_mode m' = CONFIGURATION_MQTT_MESSAGE_MODE_CUSTOM \<and> topic_compare t' (message_topic m') = 0)"
  using assms topic_compare_same [OF assms(2), of "message_topic m" "message_topic m'"] by (auto simp: message_same_def)


lemma points_same_valid:
  assumes p: "\<forall>i < unat (point_count c). point_same (points c ! i) (points d ! i)" and n: "point_count c = point_count d"
    and m: "message_same (online_message x) (online_message y)" "message_same (will_message x) (will_message y)"
  shows "collection_points_are_valid x c = collection_points_are_valid y d"
proof -
  have t: "text_same (point_topic (points c ! i)) (point_topic (points d ! i))" if "i < unat (point_count d)" for i
    using p that n by (simp add: point_same_def)
  have pairs: "list_all (\<lambda>j. topic_compare (point_topic (points c ! i)) (point_topic (points c ! j)) \<noteq> 0) [i + 1..<unat (point_count d)] =
      list_all (\<lambda>j. topic_compare (point_topic (points d ! i)) (point_topic (points d ! j)) \<noteq> 0) [i + 1..<unat (point_count d)]"
    if "i < unat (point_count d)" for i
    using that topic_compare_same [OF t t] by (intro list.pred_cong) auto
  have "(let point = points c ! i in collection_point_is_valid point \<and>
        \<not> (message_mode (online_message x) = CONFIGURATION_MQTT_MESSAGE_MODE_CUSTOM \<and>
           topic_compare (point_topic point) (message_topic (online_message x)) = 0 \<or>
           message_mode (will_message x) = CONFIGURATION_MQTT_MESSAGE_MODE_CUSTOM \<and>
           topic_compare (point_topic point) (message_topic (will_message x)) = 0) \<and>
        list_all (\<lambda>j. topic_compare (point_topic point) (point_topic (points c ! j)) \<noteq> 0) [i + 1..<unat (point_count d)]) =
     (let point = points d ! i in collection_point_is_valid point \<and>
        \<not> (message_mode (online_message y) = CONFIGURATION_MQTT_MESSAGE_MODE_CUSTOM \<and>
           topic_compare (point_topic point) (message_topic (online_message y)) = 0 \<or>
           message_mode (will_message y) = CONFIGURATION_MQTT_MESSAGE_MODE_CUSTOM \<and>
           topic_compare (point_topic point) (message_topic (will_message y)) = 0) \<and>
        list_all (\<lambda>j. topic_compare (point_topic point) (point_topic (points d ! j)) \<noteq> 0) [i + 1..<unat (point_count d)])"
    if "i < unat (point_count d)" for i
  proof -
    have "point_same (points c ! i) (points d ! i)" using that p n by simp
    note e = point_same_valid [OF this] message_topic_same [OF m(1) t [OF that]] message_topic_same [OF m(2) t [OF that]]
      pairs [OF that]
    show ?thesis unfolding Let_def e ..
  qed
  then show ?thesis
    unfolding collection_points_are_valid_def Let_def n by (intro list.pred_cong refl) simp
qed

lemma points_same_load:
  assumes "\<forall>i < n. point_same (ps ! i) (qs ! i)" "n \<le> length ps" "n \<le> length qs"
  shows "bus_utilization_loop bits t35 r (take n ps) u = bus_utilization_loop bits t35 r (take n qs) u"
proof -
  have loop: "list_all2 point_same xs ys \<Longrightarrow> bus_utilization_loop bits t35 r xs u = bus_utilization_loop bits t35 r ys u" for xs ys u
    by (induction xs ys arbitrary: u rule: list_all2_induct) (simp_all add: point_same_contribution Let_def)
  show ?thesis using assms by (intro loop) (simp add: list_all2_conv_all_nth)
qed

lemma active_same_collection:
  assumes s: "active_same c d" and e: "mqtt_mode (mqtt c) = CONFIGURATION_MQTT_MODE_ENABLED"
    and sz: "length (points (collection c)) = 16"
  shows "collection_result c = collection_result d"
proof (cases "unat (point_count (collection d)) \<le> 16")
  case True
  have p: "\<forall>i < unat (point_count (collection c)). point_same (points (collection c) ! i) (points (collection d) ! i)"
    "length (points (collection d)) = 16" "point_count (collection c) = point_count (collection d)" "rtu c = rtu d"
    using s sz True by (auto simp: active_same_def)
  have "collection_points_are_valid (mqtt c) (collection c) = collection_points_are_valid (mqtt d) (collection d)"
    using s e p by (intro points_same_valid) (auto simp: active_same_def mqtt_same_def)
  moreover have "rtu_collection_bus_utilization_is_within_limit c = rtu_collection_bus_utilization_is_within_limit d"
    using p sz True by (simp add: rtu_collection_bus_utilization_is_within_limit_def Let_def points_same_load)
  ultimately show ?thesis using s e by (simp add: collection_result_def active_same_def)
next
  case False
  then show ?thesis using s e by (simp add: collection_result_def active_same_def)
qed

lemma active_same_validate:
  assumes "active_same c d" "length (points (collection c)) = 16"
  shows "configuration_validate tls (Some c) = configuration_validate tls (Some d)"
proof -
  let ?s = "sntp_servers c" and ?t = "sntp_servers d"
  have n: "network_is_valid (network c) = network_is_valid (network d)"
  proof (cases "network_mode (network c) = CONFIGURATION_NETWORK_MODE_STATIC")
    case True
    then have "network c = network d" using assms(1) unfolding active_same_def by blast
    then show ?thesis by (rule arg_cong)
  next
    case False
    moreover have "network_mode (network c) = network_mode (network d)" using assms(1) unfolding active_same_def by blast
    ultimately show ?thesis by (simp add: network_is_valid_def)
  qed
  have e: "endpoint_same (?s ! 0) (?t ! 0)" "endpoint_same (?s ! 1) (?t ! 1)" using assms(1) by (simp_all add: active_same_def)
  then have "endpoint_address_is_valid (?s ! 0) = endpoint_address_is_valid (?t ! 0)"
    "endpoint_address_is_valid (?s ! 1) = endpoint_address_is_valid (?t ! 1)" by (simp_all add: endpoint_same_valid)
  then have sn: "(\<not> endpoint_address_is_valid (?s ! 0) \<or> \<not> endpoint_address_is_valid (?s ! 1) \<or> endpoint_addresses_equal (?s ! 0) (?s ! 1)) =
    (\<not> endpoint_address_is_valid (?t ! 0) \<or> \<not> endpoint_address_is_valid (?t ! 1) \<or> endpoint_addresses_equal (?t ! 0) (?t ! 1))"
    using endpoint_same_equal [OF e] by blast
  have a: "rtu c = rtu d" "listen_port c = listen_port d" "mqtt_mode (mqtt c) = mqtt_mode (mqtt d)"
    "point_count (collection c) = point_count (collection d)" using assms(1) by (simp_all add: active_same_def)
  show ?thesis
  proof (cases "mqtt_mode (mqtt c) = CONFIGURATION_MQTT_MODE_ENABLED")
    case True
    then have "mqtt_same (mqtt c) (mqtt d)" using assms(1) by (simp add: active_same_def)
    then have "mqtt_fields_are_valid (mqtt c) = mqtt_fields_are_valid (mqtt d)"
      "ca_certificate_is_valid tls (ca_certificate_pem (mqtt c)) = ca_certificate_is_valid tls (ca_certificate_pem (mqtt d))"
      by (simp_all add: mqtt_same_valid certificate_same mqtt_same_def)
    note m = this
    show ?thesis
      unfolding configuration_validate_def option.case Let_def n a sn active_same_collection [OF assms(1) True assms(2)] m ..
  next
    case False
    show ?thesis
    proof (cases "mqtt_mode (mqtt d) = CONFIGURATION_MQTT_MODE_DISABLED")
      case True
      then have "collection_result c = collection_result d" using a by (simp add: collection_result_def)
      moreover have "mqtt_mode (mqtt d) \<noteq> CONFIGURATION_MQTT_MODE_ENABLED" using True by simp
      ultimately show ?thesis
        unfolding configuration_validate_def option.case Let_def n a sn by (simp only: if_False)
    next
      case neither: False
      have "mqtt_mode (mqtt d) \<noteq> CONFIGURATION_MQTT_MODE_ENABLED" using False a by simp
      then show ?thesis
        using neither unfolding configuration_validate_def option.case Let_def n a sn
        by (simp only: if_False if_True not_False_eq_True)
    qed
  qed
qed

section \<open>The meaning of a configuration\<close>

definition text_wf :: "nat \<Rightarrow> configuration_text_t \<Rightarrow> bool" where
  "text_wf n t \<longleftrightarrow> length (text_bytes t) = n"

definition message_wf :: "configuration_mqtt_message_t \<Rightarrow> bool" where
  "message_wf m \<longleftrightarrow> text_wf 129 (message_topic m) \<and> text_wf 129 (message_payload m)"

text \<open>Every array of the object has its declared size.\<close>

definition configuration_wf :: "configuration_t \<Rightarrow> bool" where
  "configuration_wf c \<longleftrightarrow>
     length (sntp_servers c) = 2 \<and> (\<forall>e \<in> set (sntp_servers c). text_wf 256 (endpoint_hostname e)) \<and>
     text_wf 256 (broker_address (mqtt c)) \<and> text_wf 257 (explicit_value (client_id (mqtt c))) \<and>
     text_wf 257 (username (mqtt c)) \<and> text_wf 257 (password (mqtt c)) \<and>
     text_wf 4097 (ca_certificate_pem (mqtt c)) \<and> message_wf (online_message (mqtt c)) \<and>
     message_wf (will_message (mqtt c)) \<and> length (points (collection c)) = 16 \<and>
     (\<forall>p \<in> set (points (collection c)). text_wf 129 (point_topic p))"

datatype endpoint_view = Host_View "u8 list" | Ipv4_View u32

record mqtt_view =
  view_broker :: "u8 list"
  view_broker_port :: u16
  view_client_id :: "u8 list option"
  view_username :: "u8 list"
  view_password :: "u8 list"
  view_certificate :: "u8 list"
  view_keep_alive :: u16
  view_online :: "(u8 list \<times> u8 list \<times> u8 \<times> u8) option"
  view_will :: "(u8 list \<times> u8 list \<times> u8 \<times> u8) option"

type_synonym point_view = "u8 \<times> u8 \<times> u16 \<times> u8 option \<times> u32 \<times> u16 \<times> u8 list \<times> u8"

text \<open>What a valid configuration means: names up to case, points as a set, and nothing that is not in effect.\<close>

record configuration_view =
  view_network :: "configuration_network_t option"
  view_rtu :: configuration_rtu_t
  view_port :: u16
  view_servers :: "endpoint_view list"
  view_mqtt :: "mqtt_view option"
  view_points :: "point_view set"

definition lower_content :: "configuration_text_t \<Rightarrow> u8 list" where
  "lower_content t = map ascii_to_lower (text_content t)"

definition endpoint_view_of :: "configuration_endpoint_address_t \<Rightarrow> endpoint_view" where
  "endpoint_view_of e = (if endpoint_type e = CONFIGURATION_ENDPOINT_ADDRESS_TYPE_HOSTNAME
     then Host_View (lower_content (endpoint_hostname e)) else Ipv4_View (endpoint_ipv4 e))"

definition message_view_of :: "configuration_mqtt_message_t \<Rightarrow> (u8 list \<times> u8 list \<times> u8 \<times> u8) option" where
  "message_view_of m = (if message_mode m = CONFIGURATION_MQTT_MESSAGE_MODE_DISABLED then None
     else Some (text_content (message_topic m), text_content (message_payload m), message_qos m, message_retain m))"

definition mqtt_view_of :: "configuration_mqtt_t \<Rightarrow> mqtt_view" where
  "mqtt_view_of m =
     \<lparr>view_broker = lower_content (broker_address m), view_broker_port = broker_port m,
      view_client_id = (if client_id_mode (client_id m) = CONFIGURATION_CLIENT_ID_MODE_EXPLICIT
                        then Some (text_content (explicit_value (client_id m))) else None),
      view_username = text_content (username m), view_password = text_content (password m),
      view_certificate = text_content (ca_certificate_pem m), view_keep_alive = keep_alive_seconds m,
      view_online = message_view_of (online_message m), view_will = message_view_of (will_message m)\<rparr>"

definition point_view_of :: "configuration_collection_point_t \<Rightarrow> point_view" where
  "point_view_of p = (slave_address p, point_source p, point_address p,
     if register_source p then Some (point_data_type p) else None, poll_interval_ms p,
     point_first_byte_timeout_ms p, text_content (point_topic p), point_qos p)"

definition configuration_view_of :: "configuration_t \<Rightarrow> configuration_view" where
  "configuration_view_of c =
     \<lparr>view_network = (if network_mode (network c) = CONFIGURATION_NETWORK_MODE_STATIC then Some (network c) else None),
      view_rtu = rtu c, view_port = listen_port c, view_servers = map endpoint_view_of (sntp_servers c),
      view_mqtt = (if mqtt_mode (mqtt c) = CONFIGURATION_MQTT_MODE_ENABLED then Some (mqtt_view_of (mqtt c)) else None),
      view_points = (\<lambda>i. point_view_of (points (collection c) ! i)) ` {0..<unat (point_count (collection c))}\<rparr>"

lemma memcmp_zero: "n \<le> length xs \<Longrightarrow> n \<le> length ys \<Longrightarrow> memcmp xs ys n = 0 \<longleftrightarrow> take n xs = take n ys"
  by (induction xs ys n rule: memcmp.induct) auto

abbreviation text_fits :: "configuration_text_t \<Rightarrow> bool" where
  "text_fits t \<equiv> text_len t < length (text_bytes t)"

lemma length_text_content: "text_fits t \<Longrightarrow> length (text_content t) = text_len t"
  by (simp add: text_content_def)

lemma byte_strings_equal_content:
  assumes "text_fits t" "text_fits u"
  shows "byte_strings_equal t u \<longleftrightarrow> text_content t = text_content u"
proof -
  have "text_content t = text_content u \<Longrightarrow> text_length t = text_length u"
    using assms by (metis length_text_content word_unat_eq_iff)
  then show ?thesis using assms by (auto simp: byte_strings_equal_def memcmp_zero text_content_def)
qed

lemma topic_compare_content:
  assumes "text_fits t" "text_fits u"
  shows "topic_compare t u = 0 \<longleftrightarrow> text_content t = text_content u"
proof (cases "text_length t = text_length u")
  case True
  then show ?thesis using assms by (auto simp: topic_compare_def Let_def memcmp_zero text_content_def)
next
  case False
  then have "text_content t \<noteq> text_content u" using assms by (metis length_text_content word_unat_eq_iff)
  moreover have "topic_compare t u \<noteq> 0" using False by (auto simp: topic_compare_def Let_def)
  ultimately show ?thesis by simp
qed

lemma hostnames_equal_content:
  assumes "text_fits t" "text_fits u"
  shows "hostnames_equal t u \<longleftrightarrow> lower_content t = lower_content u"
proof -
  have "lower_content t = lower_content u \<longleftrightarrow> text_length t = text_length u \<and>
     (\<forall>i < text_len t. ascii_to_lower (text_bytes t ! i) = ascii_to_lower (text_bytes u ! i))"
    using assms by (auto simp: lower_content_def text_content_def list_eq_iff_nth_eq word_unat_eq_iff)
  then show ?thesis by (auto simp: hostnames_equal_def list_all_iff)
qed

text \<open>What a successful validation says about the sizes in the object.\<close>

lemma hostname_fits: "hostname_is_valid t \<Longrightarrow> text_wf 256 t \<Longrightarrow> text_fits t"
  by (auto simp: hostname_is_valid_def Let_def text_wf_def split: if_splits)

lemma topic_fits: "topic_is_valid t \<Longrightarrow> text_wf 129 t \<Longrightarrow> text_fits t"
  by (auto simp: topic_is_valid_def Let_def text_wf_def split: if_splits)

lemma visible_fits: "visible_ascii_is_valid (text_bytes t) (text_len t) a 256 \<Longrightarrow> text_wf 257 t \<Longrightarrow> text_fits t"
  by (auto simp: visible_ascii_is_valid_def text_wf_def split: if_splits)

lemma endpoint_equal_view:
  assumes "endpoint_address_is_valid e" "endpoint_address_is_valid f"
    "text_wf 256 (endpoint_hostname e)" "text_wf 256 (endpoint_hostname f)"
  shows "endpoint_addresses_equal e f \<longleftrightarrow> endpoint_view_of e = endpoint_view_of f"
  using assms hostname_fits hostnames_equal_content [of "endpoint_hostname e" "endpoint_hostname f"]
  by (auto simp: endpoint_address_is_valid_def endpoint_addresses_equal_def endpoint_view_of_def ip4_addr_cmp_def split: if_splits)

lemma message_equal_view:
  assumes "mqtt_message_is_valid x" "mqtt_message_is_valid y" "message_wf x" "message_wf y"
  shows "mqtt_messages_equal x y \<longleftrightarrow> message_view_of x = message_view_of y"
proof -
  have f: "text_fits (message_topic m) \<and> text_fits (message_payload m) \<and> message_mode m = CONFIGURATION_MQTT_MESSAGE_MODE_CUSTOM"
    if "mqtt_message_is_valid m" "message_wf m" "message_mode m \<noteq> CONFIGURATION_MQTT_MESSAGE_MODE_DISABLED" for m
    using that topic_fits by (auto simp: mqtt_message_is_valid_def Let_def message_wf_def text_wf_def split: if_splits)
  show ?thesis
    using assms f [of x] f [of y] byte_strings_equal_content [of "message_topic x" "message_topic y"]
      byte_strings_equal_content [of "message_payload x" "message_payload y"]
    by (auto simp: mqtt_messages_equal_def message_view_of_def)
qed

lemma point_equal_view:
  assumes "text_fits (point_topic p)" "text_fits (point_topic q)"
  shows "collection_points_equal p q \<longleftrightarrow> point_view_of p = point_view_of q"
  using byte_strings_equal_content [OF assms]
  by (auto simp: collection_points_equal_def point_view_of_def register_source_def)

lemma certificate_fits: "ca_certificate_is_valid tls t = CONFIGURATION_VALIDATION_OK \<Longrightarrow> text_wf 4097 t \<Longrightarrow> text_fits t"
  by (auto simp: ca_certificate_is_valid_def Let_def text_wf_def split: if_splits)

lemma client_id_fits:
  "client_id_is_valid x \<Longrightarrow> text_wf 257 (explicit_value x) \<Longrightarrow>
   client_id_mode x \<noteq> CONFIGURATION_CLIENT_ID_MODE_EXPLICIT \<and> client_id_mode x = CONFIGURATION_CLIENT_ID_MODE_DERIVED \<or>
   client_id_mode x = CONFIGURATION_CLIENT_ID_MODE_EXPLICIT \<and> text_fits (explicit_value x)"
  by (auto simp: client_id_is_valid_def Let_def text_wf_def split: if_splits)

lemma validate_OK:
  "configuration_validate tls (Some c) = CONFIGURATION_VALIDATION_OK \<longleftrightarrow>
     network_is_valid (network c) \<and> baud_rate_is_valid (baud_rate (rtu c)) \<and> frame_format_is_valid (frame_format (rtu c)) \<and>
     50 \<le> rtu_first_byte_timeout_ms (rtu c) \<and> rtu_first_byte_timeout_ms (rtu c) \<le> 3000 \<and> listen_port c \<noteq> 0 \<and>
     endpoint_address_is_valid (sntp_servers c ! 0) \<and> endpoint_address_is_valid (sntp_servers c ! 1) \<and>
     \<not> endpoint_addresses_equal (sntp_servers c ! 0) (sntp_servers c ! 1) \<and>
     (mqtt_mode (mqtt c) = CONFIGURATION_MQTT_MODE_DISABLED \<and> point_count (collection c) = 0 \<or>
      mqtt_mode (mqtt c) = CONFIGURATION_MQTT_MODE_ENABLED \<and> mqtt_fields_are_valid (mqtt c) \<and>
      ca_certificate_is_valid tls (ca_certificate_pem (mqtt c)) = CONFIGURATION_VALIDATION_OK \<and>
      point_count (collection c) \<noteq> 0 \<and> unat (point_count (collection c)) \<le> 16 \<and>
      collection_points_are_valid (mqtt c) (collection c) \<and> rtu_collection_bus_utilization_is_within_limit c)"
  by (auto simp: configuration_validate_def collection_result_def Let_def not_less not_le unat_eq_0 split: if_splits)

definition points_ok :: "configuration_collection_t \<Rightarrow> bool" where
  "points_ok c \<longleftrightarrow> (\<forall>i < unat (point_count c). collection_point_is_valid (points c ! i) \<and> text_fits (point_topic (points c ! i))) \<and>
     inj_on (\<lambda>i. text_content (point_topic (points c ! i))) {0..<unat (point_count c)}"

lemma valid_points_ok:
  assumes "collection_points_are_valid m c" "length (points c) = 16" "unat (point_count c) \<le> 16"
    "\<forall>p \<in> set (points c). text_wf 129 (point_topic p)"
  shows "points_ok c"
proof -
  let ?n = "unat (point_count c)" and ?t = "\<lambda>i. point_topic (points c ! i)"
  have v: "collection_point_is_valid (points c ! i)" if "i < ?n" for i
    using assms(1) that by (simp add: collection_points_are_valid_def Let_def list_all_iff)
  have d: "topic_compare (?t i) (?t j) \<noteq> 0" if "i < j" "j < ?n" for i j
    using assms(1) that by (simp add: collection_points_are_valid_def Let_def list_all_iff)
  have f: "text_fits (?t i)" if "i < ?n" for i
  proof (rule topic_fits)
    show "topic_is_valid (?t i)" using v [OF that] by (simp add: collection_point_is_valid_def split: if_splits)
    show "text_wf 129 (?t i)" using assms that by simp
  qed
  have "text_content (?t i) \<noteq> text_content (?t j)" if "i < j" "j < ?n" for i j
    using d [OF that] topic_compare_content [OF f f, of i j] that by simp
  then have "inj_on (\<lambda>i. text_content (?t i)) {0..<?n}"
    by (intro inj_onI) (metis atLeastLessThan_iff linorder_neqE_nat)
  then show ?thesis using v f by (simp add: points_ok_def)
qed

lemma points_view_inj:
  "points_ok c \<Longrightarrow> inj_on (\<lambda>i. point_view_of (points c ! i)) {0..<unat (point_count c)}"
  by (auto simp: points_ok_def inj_on_def point_view_of_def)

lemma points_match_view:
  assumes "points_ok c" "points_ok d" "point_count c = point_count d"
  shows "list_all (\<lambda>i. list_ex (\<lambda>j. collection_points_equal (points c ! i) (points d ! j)) [0..<unat (point_count d)])
      [0..<unat (point_count c)] \<longleftrightarrow>
    (\<lambda>i. point_view_of (points c ! i)) ` {0..<unat (point_count c)} = (\<lambda>i. point_view_of (points d ! i)) ` {0..<unat (point_count d)}"
    (is "?L \<longleftrightarrow> ?A = ?B")
proof -
  have e: "collection_points_equal (points c ! i) (points d ! j) \<longleftrightarrow> point_view_of (points c ! i) = point_view_of (points d ! j)"
    if "i < unat (point_count c)" "j < unat (point_count d)" for i j
    using that assms by (intro point_equal_view) (simp_all add: points_ok_def)
  have "?L \<longleftrightarrow> (\<forall>i \<in> {0..<unat (point_count c)}. \<exists>j \<in> {0..<unat (point_count d)}.
      point_view_of (points c ! i) = point_view_of (points d ! j))"
    unfolding list_all_iff list_ex_iff set_upt by (intro ball_cong bex_cong refl e) simp_all
  also have "\<dots> \<longleftrightarrow> ?A \<subseteq> ?B" by auto
  also have "\<dots> \<longleftrightarrow> ?A = ?B"
    using card_image [OF points_view_inj [OF assms(1)]] card_image [OF points_view_inj [OF assms(2)]] assms(3)
    by (metis card_subset_eq finite_atLeastLessThan finite_imageI order_refl)
  finally show ?thesis .
qed

lemma points_count_view:
  assumes "points_ok c" "points_ok d"
  shows "point_count c = point_count d \<and>
    list_all (\<lambda>i. list_ex (\<lambda>j. collection_points_equal (points c ! i) (points d ! j)) [0..<unat (point_count d)])
      [0..<unat (point_count c)] \<longleftrightarrow>
    (\<lambda>i. point_view_of (points c ! i)) ` {0..<unat (point_count c)} = (\<lambda>i. point_view_of (points d ! i)) ` {0..<unat (point_count d)}"
proof (cases "point_count c = point_count d")
  case True
  then show ?thesis using points_match_view [OF assms True] by blast
next
  case False
  then have "unat (point_count c) \<noteq> unat (point_count d)" by (simp add: word_unat_eq_iff)
  then show ?thesis
    using False card_image [OF points_view_inj [OF assms(1)]] card_image [OF points_view_inj [OF assms(2)]]
    by (metis card_atLeastLessThan diff_zero)
qed

lemma network_equal_view:
  assumes "network_is_valid x" "network_is_valid y"
  shows "network_mode x = network_mode y \<and> \<not> (network_mode x = CONFIGURATION_NETWORK_MODE_STATIC \<and>
         (\<not> ip4_addr_cmp (ip_address x) (ip_address y) \<or> \<not> ip4_addr_cmp (subnet_mask x) (subnet_mask y) \<or>
          \<not> ip4_addr_cmp (network_gateway x) (network_gateway y) \<or> \<not> ip4_addr_cmp (dns_primary x) (dns_primary y) \<or>
          \<not> ip4_addr_cmp (dns_secondary x) (dns_secondary y))) \<longleftrightarrow>
    (if network_mode x = CONFIGURATION_NETWORK_MODE_STATIC then Some x else None) =
    (if network_mode y = CONFIGURATION_NETWORK_MODE_STATIC then Some y else None)"
proof -
  have "network_mode n = CONFIGURATION_NETWORK_MODE_STATIC \<or> network_mode n = CONFIGURATION_NETWORK_MODE_DHCP"
    if "network_is_valid n" for n
    using that by (auto simp: network_is_valid_def split: if_splits)
  from this [OF assms(1)] this [OF assms(2)] show ?thesis by (cases x; cases y) (auto simp: ip4_addr_cmp_def)
qed

lemma rtu_equal_view:
  "\<not> (baud_rate x \<noteq> baud_rate y \<or> frame_format x \<noteq> frame_format y \<or>
     rtu_first_byte_timeout_ms x \<noteq> rtu_first_byte_timeout_ms y) \<longleftrightarrow> x = y" for x y :: configuration_rtu_t
  by (cases x; cases y) auto

lemma mqtt_equal_view:
  assumes "mqtt_fields_are_valid x" "mqtt_fields_are_valid y"
    "ca_certificate_is_valid tls (ca_certificate_pem x) = CONFIGURATION_VALIDATION_OK"
    "ca_certificate_is_valid tls' (ca_certificate_pem y) = CONFIGURATION_VALIDATION_OK"
    and wf: "\<forall>m \<in> {x, y}. text_wf 256 (broker_address m) \<and> text_wf 257 (explicit_value (client_id m)) \<and>
     text_wf 257 (username m) \<and> text_wf 257 (password m) \<and>
     text_wf 4097 (ca_certificate_pem m) \<and> message_wf (online_message m) \<and> message_wf (will_message m)"
  shows "\<not> (\<not> hostnames_equal (broker_address x) (broker_address y) \<or> broker_port x \<noteq> broker_port y \<or>
          client_id_mode (client_id x) \<noteq> client_id_mode (client_id y) \<or>
          client_id_mode (client_id x) = CONFIGURATION_CLIENT_ID_MODE_EXPLICIT \<and>
            \<not> byte_strings_equal (explicit_value (client_id x)) (explicit_value (client_id y)) \<or>
          \<not> byte_strings_equal (username x) (username y) \<or> \<not> byte_strings_equal (password x) (password y) \<or>
          \<not> byte_strings_equal (ca_certificate_pem x) (ca_certificate_pem y) \<or>
          keep_alive_seconds x \<noteq> keep_alive_seconds y \<or>
          \<not> mqtt_messages_equal (online_message x) (online_message y) \<or>
          \<not> mqtt_messages_equal (will_message x) (will_message y)) \<longleftrightarrow> mqtt_view_of x = mqtt_view_of y"
proof -
  have f: "text_fits (broker_address m) \<and> text_fits (username m) \<and> text_fits (password m) \<and> text_fits (ca_certificate_pem m)"
    and v: "mqtt_message_is_valid (online_message m)" "mqtt_message_is_valid (will_message m)" "client_id_is_valid (client_id m)"
    if "m = x \<or> m = y" for m
    using that assms hostname_fits visible_fits certificate_fits by (auto simp: mqtt_fields_are_valid_def)
  have c: "(client_id_mode (client_id x) = client_id_mode (client_id y) \<and>
      (client_id_mode (client_id x) = CONFIGURATION_CLIENT_ID_MODE_EXPLICIT \<longrightarrow>
       byte_strings_equal (explicit_value (client_id x)) (explicit_value (client_id y)))) \<longleftrightarrow>
    (if client_id_mode (client_id x) = CONFIGURATION_CLIENT_ID_MODE_EXPLICIT then Some (text_content (explicit_value (client_id x))) else None) =
    (if client_id_mode (client_id y) = CONFIGURATION_CLIENT_ID_MODE_EXPLICIT then Some (text_content (explicit_value (client_id y))) else None)"
    using client_id_fits [OF v(3), of x] client_id_fits [OF v(3), of y] wf
      byte_strings_equal_content [of "explicit_value (client_id x)" "explicit_value (client_id y)"] by auto
  have b: "byte_strings_equal (username x) (username y) \<longleftrightarrow> text_content (username x) = text_content (username y)"
    "byte_strings_equal (password x) (password y) \<longleftrightarrow> text_content (password x) = text_content (password y)"
    "byte_strings_equal (ca_certificate_pem x) (ca_certificate_pem y) \<longleftrightarrow> text_content (ca_certificate_pem x) = text_content (ca_certificate_pem y)"
    "hostnames_equal (broker_address x) (broker_address y) \<longleftrightarrow> lower_content (broker_address x) = lower_content (broker_address y)"
    using f by (simp_all add: byte_strings_equal_content hostnames_equal_content)
  have m: "mqtt_messages_equal (online_message x) (online_message y) \<longleftrightarrow> message_view_of (online_message x) = message_view_of (online_message y)"
    "mqtt_messages_equal (will_message x) (will_message y) \<longleftrightarrow> message_view_of (will_message x) = message_view_of (will_message y)"
    using v wf by (simp_all add: message_equal_view)
  show ?thesis unfolding mqtt_view_of_def mqtt_view.ext_inject b m using c by blast
qed


lemma configuration_equals_view:
  assumes wf: "configuration_wf c" "configuration_wf d"
    and vc: "configuration_validate tls (Some c) = CONFIGURATION_VALIDATION_OK"
    and vd: "configuration_validate tls' (Some d) = CONFIGURATION_VALIDATION_OK"
  shows "configuration_equals c d \<longleftrightarrow> configuration_view_of c = configuration_view_of d"
proof -
  let ?D = "(\<lambda>x y. \<not> hostnames_equal (broker_address x) (broker_address y) \<or> broker_port x \<noteq> broker_port y \<or>
          client_id_mode (client_id x) \<noteq> client_id_mode (client_id y) \<or>
          client_id_mode (client_id x) = CONFIGURATION_CLIENT_ID_MODE_EXPLICIT \<and>
            \<not> byte_strings_equal (explicit_value (client_id x)) (explicit_value (client_id y)) \<or>
          \<not> byte_strings_equal (username x) (username y) \<or> \<not> byte_strings_equal (password x) (password y) \<or>
          \<not> byte_strings_equal (ca_certificate_pem x) (ca_certificate_pem y) \<or>
          keep_alive_seconds x \<noteq> keep_alive_seconds y \<or>
          \<not> mqtt_messages_equal (online_message x) (online_message y) \<or>
          \<not> mqtt_messages_equal (will_message x) (will_message y))"
  note v = vc [unfolded validate_OK] vd [unfolded validate_OK]
  have s: "sntp_servers x = [sntp_servers x ! 0, sntp_servers x ! 1]" if "configuration_wf x" for x
    using that by (intro nth_equalityI) (auto simp: configuration_wf_def less_Suc_eq numeral_2_eq_2)
  have servers: "list_all (\<lambda>i. endpoint_addresses_equal (sntp_servers c ! i) (sntp_servers d ! i)) [0..<2] \<longleftrightarrow>
      map endpoint_view_of (sntp_servers c) = map endpoint_view_of (sntp_servers d)"
  proof -
    have "text_wf 256 (endpoint_hostname (sntp_servers x ! i))" if "configuration_wf x" "i < 2" for x i
      using that by (simp add: configuration_wf_def)
    then have "endpoint_addresses_equal (sntp_servers c ! i) (sntp_servers d ! i) \<longleftrightarrow>
        endpoint_view_of (sntp_servers c ! i) = endpoint_view_of (sntp_servers d ! i)" if "i = 0 \<or> i = 1" for i
      using that v wf by (intro endpoint_equal_view) auto
    then show ?thesis by (subst s [OF wf(1)], subst s [OF wf(2)]) (simp add: upt_rec numeral_2_eq_2)
  qed
  have pts: "points_ok (collection x)" if "configuration_wf x" "configuration_validate t (Some x) = CONFIGURATION_VALIDATION_OK" for x t
    using that valid_points_ok [of "mqtt x" "collection x"] unfolding validate_OK configuration_wf_def
    by (auto simp: points_ok_def)
  have mq: "mqtt_mode (mqtt c) = mqtt_mode (mqtt d) \<and> \<not> (mqtt_mode (mqtt c) = CONFIGURATION_MQTT_MODE_ENABLED \<and> ?D (mqtt c) (mqtt d)) \<longleftrightarrow>
     (if mqtt_mode (mqtt c) = CONFIGURATION_MQTT_MODE_ENABLED then Some (mqtt_view_of (mqtt c)) else None) =
     (if mqtt_mode (mqtt d) = CONFIGURATION_MQTT_MODE_ENABLED then Some (mqtt_view_of (mqtt d)) else None)"
  proof (cases "mqtt_mode (mqtt c) = CONFIGURATION_MQTT_MODE_ENABLED \<and> mqtt_mode (mqtt d) = CONFIGURATION_MQTT_MODE_ENABLED")
    case True
    have "\<not> ?D (mqtt c) (mqtt d) \<longleftrightarrow> mqtt_view_of (mqtt c) = mqtt_view_of (mqtt d)"
      using v wf True by (intro mqtt_equal_view [of _ _ tls tls']) (auto simp: configuration_wf_def)
    then show ?thesis using True by auto
  next
    case False
    then show ?thesis using v by auto
  qed
  show ?thesis
    unfolding configuration_equals_def Let_def configuration_view_of_def configuration_view.ext_inject
      servers [symmetric] mq [symmetric] points_count_view [OF pts [OF wf(1) vc] pts [OF wf(2) vd], symmetric]
      network_equal_view [OF v(1) [THEN conjunct1] v(2) [THEN conjunct1], symmetric] rtu_equal_view [symmetric]
    by auto
qed

section \<open>Properties\<close>

text \<open>
  Fields that are not in effect never influence validation: two configuration objects that agree
  on the fields in effect (static addresses only in static mode, MQTT fields only when MQTT is
  enabled, message and client id fields only in the mode that uses them, points below the count, the
  data type of register points, text bytes up to the NUL) get the same validation result.
\<close>

theorem validation_ignores_inactive_fields:
  assumes "active_same c d" "length (points (collection c)) = 16"
  shows "configuration_validate tls (Some c) = configuration_validate tls (Some d)"
  using assms by (rule active_same_validate)

definition default_configuration :: configuration_t where
  "default_configuration = the (configuration_set_defaults (Some zero_configuration))"

definition no_tls :: mbedtls_api where
  "no_tls = \<lparr>x509_crt_parse = (\<lambda>_. (- 0x2180, \<lparr>crt_next = False, ca_istrue = 0, subject_raw = [], issuer_raw = [],
       crt_tbs = [], sig_md = 0, sig_pk = 0, crt_pk = [], crt_sig = []\<rparr>)),
     x509_crt_check_key_cert_sign = (\<lambda>_. - 0x2800), md_info_from_type = (\<lambda>_. None), pk_can_do = (\<lambda>_ _. False),
     md_digest = (\<lambda>_ _. (- 0x5100, [])), pk_verify_ext = (\<lambda>_ _. - 0x3A80)\<rparr>"

theorem validation_ignores_inactive_fields_witness:
  "configuration_validate no_tls (Some default_configuration) =
   configuration_validate no_tls (Some (default_configuration\<lparr>network := (network default_configuration)\<lparr>ip_address := 7\<rparr>\<rparr>))"
  by (rule validation_ignores_inactive_fields)
     (simp_all add: active_same_def default_configuration_def configuration_set_defaults_def zero_configuration_def
        Let_def endpoint_same_def)

lemma default_wf: "configuration_wf default_configuration"
proof -
  have "length default_sntp_server_0 = 15" "length default_sntp_server_1 = 16"
    by (simp_all add: default_sntp_server_0_def default_sntp_server_1_def ascii_def)
  then show ?thesis
    by (simp add: configuration_wf_def default_configuration_def configuration_set_defaults_def zero_configuration_def
        zero_endpoint_def zero_text_def zero_message_def zero_point_def set_default_server_def Let_def text_wf_def
        message_wf_def)
qed

lemma default_OK: "configuration_validate tls (Some default_configuration) = CONFIGURATION_VALIDATION_OK"
  using default_validates [of tls zero_configuration]
  by (simp add: default_configuration_def configuration_set_defaults_def Let_def)

text \<open>
  C25. The semantic comparison is exact: on valid configurations \<open>configuration_equals\<close> decides
  whether the two mean the same, that is, agree on everything in effect, host names up to the case of
  letters and collection points as a set. In particular it is an equivalence relation there, and
  reordering the points does not matter.
\<close>

theorem configuration_equals_exact:
  assumes "configuration_wf c" "configuration_wf d"
    and "configuration_validate tls (Some c) = CONFIGURATION_VALIDATION_OK"
    and "configuration_validate tls' (Some d) = CONFIGURATION_VALIDATION_OK"
  shows "configuration_equals c d \<longleftrightarrow> configuration_view_of c = configuration_view_of d"
  using assms by (rule configuration_equals_view)

theorem configuration_equals_exact_witness:
  "configuration_equals default_configuration (default_configuration\<lparr>network := (network default_configuration)\<lparr>ip_address := 7\<rparr>\<rparr>)
   \<longleftrightarrow> configuration_view_of default_configuration =
       configuration_view_of (default_configuration\<lparr>network := (network default_configuration)\<lparr>ip_address := 7\<rparr>\<rparr>)"
proof (rule configuration_equals_exact [OF default_wf _ default_OK])
  let ?d = "default_configuration\<lparr>network := (network default_configuration)\<lparr>ip_address := 7\<rparr>\<rparr>"
  show "configuration_wf ?d" using default_wf by (simp add: configuration_wf_def)
  have "active_same default_configuration ?d"
    by (simp add: active_same_def default_configuration_def configuration_set_defaults_def zero_configuration_def
        Let_def endpoint_same_def)
  from active_same_validate [OF this, of no_tls] default_wf default_OK
  show "configuration_validate no_tls (Some ?d) = CONFIGURATION_VALIDATION_OK" by (simp add: configuration_wf_def)
qed

end
