(* ===== verification/Configuration_Codec.thy ===== *)
theory Configuration_Codec
  imports Configuration_Meaning "HOL-Library.Monad_Syntax"
begin

text \<open>
  Model of \<open>app/Configuration/src/configuration_binary_codec.c\<close>: the Schema v2 payload.
  A reader is the list of the bytes between its \<open>current\<close> and \<open>end\<close> pointers; a read fails (\<open>None\<close>)
  or returns the value and the reader after it. A failed decode leaves the object undefined, so
  nothing is said about it. A writer keeps the whole buffer and the index of \<open>current\<close>; \<open>end\<close> is the
  end of the buffer. A write returns whether it succeeded and the writer after it; the short-circuit
  chains of the source are \<open>writer_seq\<close>.
\<close>

section \<open>Reader\<close>

type_synonym reader = "u8 list"

datatype configuration_binary_codec_result_t =
    CONFIGURATION_BINARY_CODEC_OK
  | CONFIGURATION_BINARY_CODEC_INVALID_ARGUMENT
  | CONFIGURATION_BINARY_CODEC_SCHEMA_UNSUPPORTED
  | CONFIGURATION_BINARY_CODEC_PAYLOAD_LENGTH_INVALID
  | CONFIGURATION_BINARY_CODEC_MALFORMED
  | CONFIGURATION_BINARY_CODEC_MODEL_INVALID
  | CONFIGURATION_BINARY_CODEC_RESOURCE_UNAVAILABLE
  | CONFIGURATION_BINARY_CODEC_BUFFER_TOO_SMALL

abbreviation "CONFIGURATION_SCHEMA_VERSION \<equiv> (2 :: u8)"
abbreviation "CONFIGURATION_V2_MAX_PAYLOAD_LENGTH \<equiv> (8475 :: nat)"

definition reader_read_u8 :: "reader \<Rightarrow> (u8 \<times> reader) option" where
  "reader_read_u8 r = (case r of [] \<Rightarrow> None | x # xs \<Rightarrow> Some (x, xs))"

definition reader_read_u16 :: "reader \<Rightarrow> (u16 \<times> reader) option" where
  "reader_read_u16 r =
     (if length r < 2 then None
      else Some (ucast (r ! 0) OR push_bit 8 (ucast (r ! 1)), drop 2 r))"

definition reader_read_u32 :: "reader \<Rightarrow> (u32 \<times> reader) option" where
  "reader_read_u32 r =
     (if length r < 4 then None
      else Some (ucast (r ! 0) OR push_bit 8 (ucast (r ! 1)) OR push_bit 16 (ucast (r ! 2)) OR
                 push_bit 24 (ucast (r ! 3)), drop 4 r))"

definition reader_read_bytes :: "nat \<Rightarrow> reader \<Rightarrow> (u8 list \<times> reader) option" where
  "reader_read_bytes n r = (if length r < n then None else Some (take n r, drop n r))"

text \<open>Reading a text field into an object: the content is copied over the array and a NUL put behind it.\<close>

definition reader_read_text ::
  "nat \<Rightarrow> nat \<Rightarrow> configuration_text_t \<Rightarrow> reader \<Rightarrow> (configuration_text_t \<times> reader) option" where
  "reader_read_text minimum_length maximum_length t r =
     do { (len, r1) \<leftarrow> reader_read_u16 r;
          if unat len < minimum_length \<or> unat len > maximum_length then None
          else do { (content, r2) \<leftarrow> reader_read_bytes (unat len) r1;
                    Some (\<lparr>text_length = len,
                           text_bytes = (overwrite 0 content (text_bytes t))[unat len := 0]\<rparr>, r2) } }"

text \<open>\<open>IP4_ADDR\<close> puts the first octet into the lowest byte on the little-endian target.\<close>

definition reader_read_ipv4 :: "reader \<Rightarrow> (ip4_addr_t \<times> reader) option" where
  "reader_read_ipv4 r =
     do { (octets, r1) \<leftarrow> reader_read_bytes 4 r;
          Some (join32 (octets ! 0) (octets ! 1) (octets ! 2) (octets ! 3), r1) }"

definition reader_read_endpoint ::
  "configuration_endpoint_address_t \<Rightarrow> reader \<Rightarrow> (configuration_endpoint_address_t \<times> reader) option" where
  "reader_read_endpoint endpoint r =
     do { (ty, r1) \<leftarrow> reader_read_u8 r;
          if ty = CONFIGURATION_ENDPOINT_ADDRESS_TYPE_HOSTNAME then
            do { (t, r2) \<leftarrow> reader_read_text 1 CONFIGURATION_HOSTNAME_MAX_LENGTH (endpoint_hostname endpoint) r1;
                 Some (endpoint\<lparr>endpoint_type := ty, endpoint_hostname := t\<rparr>, r2) }
          else if ty = CONFIGURATION_ENDPOINT_ADDRESS_TYPE_IPV4 then
            do { (a, r2) \<leftarrow> reader_read_ipv4 r1;
                 Some (endpoint\<lparr>endpoint_type := ty, endpoint_ipv4 := a\<rparr>, r2) }
          else None }"

definition reader_read_client_id ::
  "configuration_client_id_t \<Rightarrow> reader \<Rightarrow> (configuration_client_id_t \<times> reader) option" where
  "reader_read_client_id cid r =
     do { (mode, r1) \<leftarrow> reader_read_u8 r;
          if mode = CONFIGURATION_CLIENT_ID_MODE_DERIVED then Some (cid\<lparr>client_id_mode := mode\<rparr>, r1)
          else if mode = CONFIGURATION_CLIENT_ID_MODE_EXPLICIT then
            do { (t, r2) \<leftarrow> reader_read_text 1 CONFIGURATION_CLIENT_ID_MAX_LENGTH (explicit_value cid) r1;
                 Some (cid\<lparr>client_id_mode := mode, explicit_value := t\<rparr>, r2) }
          else None }"

definition reader_read_mqtt_message ::
  "configuration_mqtt_message_t \<Rightarrow> reader \<Rightarrow> (configuration_mqtt_message_t \<times> reader) option" where
  "reader_read_mqtt_message message r =
     do { (mode, r1) \<leftarrow> reader_read_u8 r;
          if mode = CONFIGURATION_MQTT_MESSAGE_MODE_DISABLED then Some (message\<lparr>message_mode := mode\<rparr>, r1)
          else if mode \<noteq> CONFIGURATION_MQTT_MESSAGE_MODE_CUSTOM then None
          else do { (topic, r2) \<leftarrow> reader_read_text 1 CONFIGURATION_TOPIC_MAX_LENGTH (message_topic message) r1;
                    (payload, r3) \<leftarrow> reader_read_text 0 CONFIGURATION_MESSAGE_PAYLOAD_MAX_LENGTH (message_payload message) r2;
                    (qos, r4) \<leftarrow> reader_read_u8 r3;
                    (retain, r5) \<leftarrow> reader_read_u8 r4;
                    Some (\<lparr>message_mode = mode, message_topic = topic, message_payload = payload,
                           message_qos = qos, message_retain = retain\<rparr>, r5) } }"

section \<open>Decoding\<close>

definition decode_network :: "configuration_network_t \<Rightarrow> reader \<Rightarrow> (configuration_network_t \<times> reader) option" where
  "decode_network n r =
     do { (mode, r1) \<leftarrow> reader_read_u8 r;
          if mode = CONFIGURATION_NETWORK_MODE_STATIC then
            do { (ip, r2) \<leftarrow> reader_read_ipv4 r1; (netmask, r3) \<leftarrow> reader_read_ipv4 r2;
                 (gw, r4) \<leftarrow> reader_read_ipv4 r3; (dns1, r5) \<leftarrow> reader_read_ipv4 r4;
                 (dns2, r6) \<leftarrow> reader_read_ipv4 r5;
                 Some (\<lparr>network_mode = mode, ip_address = ip, subnet_mask = netmask, network_gateway = gw,
                        dns_primary = dns1, dns_secondary = dns2\<rparr>, r6) }
          else if mode \<noteq> CONFIGURATION_NETWORK_MODE_DHCP then None
          else Some (n\<lparr>network_mode := mode\<rparr>, r1) }"

definition decode_mqtt :: "configuration_mqtt_t \<Rightarrow> reader \<Rightarrow> (configuration_mqtt_t \<times> reader) option" where
  "decode_mqtt m r =
     do { (mode, r1) \<leftarrow> reader_read_u8 r;
          if mode = CONFIGURATION_MQTT_MODE_ENABLED then
            do { (broker, r2) \<leftarrow> reader_read_text 1 CONFIGURATION_HOSTNAME_MAX_LENGTH (broker_address m) r1;
                 (port, r3) \<leftarrow> reader_read_u16 r2;
                 (cid, r4) \<leftarrow> reader_read_client_id (client_id m) r3;
                 (user, r5) \<leftarrow> reader_read_text 1 CONFIGURATION_USERNAME_MAX_LENGTH (username m) r4;
                 (pass, r6) \<leftarrow> reader_read_text 1 CONFIGURATION_PASSWORD_MAX_LENGTH (password m) r5;
                 (ca, r7) \<leftarrow> reader_read_text 1 CONFIGURATION_CA_CERTIFICATE_MAX_LENGTH (ca_certificate_pem m) r6;
                 (keep, r8) \<leftarrow> reader_read_u16 r7;
                 (online, r9) \<leftarrow> reader_read_mqtt_message (online_message m) r8;
                 (will, r10) \<leftarrow> reader_read_mqtt_message (will_message m) r9;
                 Some (\<lparr>mqtt_mode = mode, broker_address = broker, broker_port = port, client_id = cid,
                        username = user, password = pass, ca_certificate_pem = ca, keep_alive_seconds = keep,
                        online_message = online, will_message = will\<rparr>, r10) }
          else if mode \<noteq> CONFIGURATION_MQTT_MODE_DISABLED then None
          else Some (m\<lparr>mqtt_mode := mode\<rparr>, r1) }"

definition decode_point ::
  "configuration_collection_point_t \<Rightarrow> reader \<Rightarrow> (configuration_collection_point_t \<times> reader) option" where
  "decode_point p r =
     do { (slave, r1) \<leftarrow> reader_read_u8 r;
          (source, r2) \<leftarrow> reader_read_u8 r1;
          (addr, r3) \<leftarrow> reader_read_u16 r2;
          (dt, r4) \<leftarrow> (if source = CONFIGURATION_COLLECTION_SOURCE_HOLDING_REGISTER \<or>
                        source = CONFIGURATION_COLLECTION_SOURCE_INPUT_REGISTER
                     then reader_read_u8 r3
                     else if source \<noteq> CONFIGURATION_COLLECTION_SOURCE_COIL \<and>
                             source \<noteq> CONFIGURATION_COLLECTION_SOURCE_DISCRETE_INPUT then None
                     else Some (point_data_type p, r3));
          (poll, r5) \<leftarrow> reader_read_u32 r4;
          (timeout, r6) \<leftarrow> reader_read_u16 r5;
          (topic, r7) \<leftarrow> reader_read_text 1 CONFIGURATION_TOPIC_MAX_LENGTH (point_topic p) r6;
          (qos, r8) \<leftarrow> reader_read_u8 r7;
          Some (\<lparr>slave_address = slave, point_source = source, point_address = addr, point_data_type = dt,
                 poll_interval_ms = poll, point_first_byte_timeout_ms = timeout, point_topic = topic,
                 point_qos = qos\<rparr>, r8) }"

text \<open>The loop over the points: the first \<open>n\<close> elements of the array are read in order.\<close>

fun decode_points ::
  "nat \<Rightarrow> configuration_collection_point_t list \<Rightarrow> reader \<Rightarrow> (configuration_collection_point_t list \<times> reader) option" where
  "decode_points (Suc n) (p # ps) r =
     do { (q, r1) \<leftarrow> decode_point p r; (qs, r2) \<leftarrow> decode_points n ps r1; Some (q # qs, r2) }"
| "decode_points n ps r = Some (ps, r)"

definition decode_fields :: "reader \<Rightarrow> configuration_t \<Rightarrow> (configuration_t \<times> reader) option" where
  "decode_fields r c =
     do { (net, r1) \<leftarrow> decode_network (network c) r;
          (rate, r2) \<leftarrow> reader_read_u32 r1;
          (format, r3) \<leftarrow> reader_read_u8 r2;
          (timeout, r4) \<leftarrow> reader_read_u16 r3;
          (port, r5) \<leftarrow> reader_read_u16 r4;
          (s0, r6) \<leftarrow> reader_read_endpoint (sntp_servers c ! 0) r5;
          (s1, r7) \<leftarrow> reader_read_endpoint (sntp_servers c ! 1) r6;
          (mq, r8) \<leftarrow> decode_mqtt (mqtt c) r7;
          (count, r9) \<leftarrow> reader_read_u8 r8;
          if unat count > CONFIGURATION_COLLECTION_POINT_MAX_COUNT then None
          else do { (ps, r10) \<leftarrow> decode_points (unat count) (points (collection c)) r9;
                    Some (\<lparr>network = net,
                           rtu = \<lparr>baud_rate = rate, frame_format = format, rtu_first_byte_timeout_ms = timeout\<rparr>,
                           listen_port = port, sntp_servers = [s0, s1], mqtt = mq,
                           collection = \<lparr>point_count = count, points = ps\<rparr>\<rparr>, r10) } }"

text \<open>\<open>payload\<close> is the readable memory at the pointer, of which the first \<open>payload_length\<close> bytes are the payload.\<close>

definition configuration_binary_decode ::
  "mbedtls_api \<Rightarrow> u8 list ptr \<Rightarrow> u32 \<Rightarrow> configuration_t ptr \<Rightarrow>
   configuration_binary_codec_result_t \<times> configuration_t ptr" where
  "configuration_binary_decode tls payload payload_length configuration =
     (case (payload, configuration) of
        (Some bytes, Some c) \<Rightarrow>
          if payload_length = 0 \<or> unat payload_length > CONFIGURATION_V2_MAX_PAYLOAD_LENGTH
          then (CONFIGURATION_BINARY_CODEC_PAYLOAD_LENGTH_INVALID, configuration)
          else (case reader_read_u8 (take (unat payload_length) bytes) of
              None \<Rightarrow> (CONFIGURATION_BINARY_CODEC_SCHEMA_UNSUPPORTED, configuration)
            | Some (schema_version, r) \<Rightarrow>
                if schema_version \<noteq> CONFIGURATION_SCHEMA_VERSION
                then (CONFIGURATION_BINARY_CODEC_SCHEMA_UNSUPPORTED, configuration)
                else (case decode_fields r zero_configuration of
                    None \<Rightarrow> (CONFIGURATION_BINARY_CODEC_MALFORMED, None)
                  | Some (d, rest) \<Rightarrow>
                      if rest \<noteq> [] then (CONFIGURATION_BINARY_CODEC_MALFORMED, None)
                      else let validation_result = configuration_validate tls (Some d) in
                        if validation_result = CONFIGURATION_VALIDATION_RESOURCE_UNAVAILABLE
                        then (CONFIGURATION_BINARY_CODEC_RESOURCE_UNAVAILABLE, Some d)
                        else if validation_result \<noteq> CONFIGURATION_VALIDATION_OK
                        then (CONFIGURATION_BINARY_CODEC_MODEL_INVALID, Some d)
                        else (CONFIGURATION_BINARY_CODEC_OK, Some d)))
      | _ \<Rightarrow> (CONFIGURATION_BINARY_CODEC_INVALID_ARGUMENT, configuration))"

section \<open>Writer\<close>

record writer =
  w_buffer :: "u8 list"
  w_current :: nat

type_synonym writer_step = "writer \<Rightarrow> bool \<times> writer"

definition writer_write_bytes :: "u8 list \<Rightarrow> writer_step" where
  "writer_write_bytes bs w =
     (if length (w_buffer w) - w_current w < length bs then (False, w)
      else (True, w\<lparr>w_buffer := overwrite (w_current w) bs (w_buffer w), w_current := w_current w + length bs\<rparr>))"

definition writer_write_u8 :: "u8 \<Rightarrow> writer_step" where
  "writer_write_u8 v w =
     (if w_current w = length (w_buffer w) then (False, w)
      else (True, w\<lparr>w_buffer := (w_buffer w)[w_current w := v], w_current := w_current w + 1\<rparr>))"

definition writer_write_u16 :: "u16 \<Rightarrow> writer_step" where
  "writer_write_u16 v w =
     (if length (w_buffer w) - w_current w < 2 then (False, w)
      else (True, w\<lparr>w_buffer := (w_buffer w)[w_current w := ucast v, w_current w + 1 := ucast (drop_bit 8 v)],
                    w_current := w_current w + 2\<rparr>))"

definition writer_write_u32 :: "u32 \<Rightarrow> writer_step" where
  "writer_write_u32 v w =
     (if length (w_buffer w) - w_current w < 4 then (False, w)
      else (True, w\<lparr>w_buffer := (w_buffer w)[w_current w := ucast v, w_current w + 1 := ucast (drop_bit 8 v),
                      w_current w + 2 := ucast (drop_bit 16 v), w_current w + 3 := ucast (drop_bit 24 v)],
                    w_current := w_current w + 4\<rparr>))"

text \<open>Steps joined by the short-circuit operators of the source: the first failure ends the chain.\<close>

fun writer_seq :: "writer_step list \<Rightarrow> writer_step" where
  "writer_seq [] w = (True, w)"
| "writer_seq (f # fs) w = (case f w of (True, w') \<Rightarrow> writer_seq fs w' | (False, w') \<Rightarrow> (False, w'))"

definition writer_write_text :: "configuration_text_t \<Rightarrow> writer_step" where
  "writer_write_text t =
     writer_seq [writer_write_u16 (text_length t), writer_write_bytes (take (text_len t) (text_bytes t))]"

definition writer_write_ipv4 :: "ip4_addr_t \<Rightarrow> writer_step" where
  "writer_write_ipv4 a = writer_write_bytes [byte_at 0 a, byte_at 1 a, byte_at 2 a, byte_at 3 a]"

definition writer_write_endpoint :: "configuration_endpoint_address_t \<Rightarrow> writer_step" where
  "writer_write_endpoint e =
     writer_seq [writer_write_u8 (endpoint_type e),
       if endpoint_type e = CONFIGURATION_ENDPOINT_ADDRESS_TYPE_HOSTNAME
       then writer_write_text (endpoint_hostname e) else writer_write_ipv4 (endpoint_ipv4 e)]"

definition writer_write_client_id :: "configuration_client_id_t \<Rightarrow> writer_step" where
  "writer_write_client_id cid =
     writer_seq (writer_write_u8 (client_id_mode cid) #
       (if client_id_mode cid = CONFIGURATION_CLIENT_ID_MODE_DERIVED then []
        else [writer_write_text (explicit_value cid)]))"

definition writer_write_mqtt_message :: "configuration_mqtt_message_t \<Rightarrow> writer_step" where
  "writer_write_mqtt_message m =
     writer_seq (writer_write_u8 (message_mode m) #
       (if message_mode m = CONFIGURATION_MQTT_MESSAGE_MODE_DISABLED then []
        else [writer_write_text (message_topic m), writer_write_text (message_payload m),
              writer_write_u8 (message_qos m), writer_write_u8 (message_retain m)]))"

definition write_point :: "configuration_collection_point_t \<Rightarrow> writer_step" where
  "write_point p =
     writer_seq ([writer_write_u8 (slave_address p), writer_write_u8 (point_source p),
        writer_write_u16 (point_address p)] @
       (if point_source p = CONFIGURATION_COLLECTION_SOURCE_HOLDING_REGISTER \<or>
           point_source p = CONFIGURATION_COLLECTION_SOURCE_INPUT_REGISTER
        then [writer_write_u8 (point_data_type p)] else []) @
       [writer_write_u32 (poll_interval_ms p), writer_write_u16 (point_first_byte_timeout_ms p),
        writer_write_text (point_topic p), writer_write_u8 (point_qos p)])"

text \<open>All writes of the encoder, in order; every failing one returns \<open>BUFFER_TOO_SMALL\<close>.\<close>

definition encode_steps :: "configuration_t \<Rightarrow> writer_step list" where
  "encode_steps c =
     [writer_write_u8 CONFIGURATION_SCHEMA_VERSION, writer_write_u8 (network_mode (network c))] @
     (if network_mode (network c) = CONFIGURATION_NETWORK_MODE_STATIC
      then [writer_write_ipv4 (ip_address (network c)), writer_write_ipv4 (subnet_mask (network c)),
            writer_write_ipv4 (network_gateway (network c)), writer_write_ipv4 (dns_primary (network c)),
            writer_write_ipv4 (dns_secondary (network c))]
      else []) @
     [writer_write_u32 (baud_rate (rtu c)), writer_write_u8 (frame_format (rtu c)),
      writer_write_u16 (rtu_first_byte_timeout_ms (rtu c)), writer_write_u16 (listen_port c),
      writer_write_endpoint (sntp_servers c ! 0), writer_write_endpoint (sntp_servers c ! 1),
      writer_write_u8 (mqtt_mode (mqtt c))] @
     (if mqtt_mode (mqtt c) = CONFIGURATION_MQTT_MODE_ENABLED
      then [writer_write_text (broker_address (mqtt c)), writer_write_u16 (broker_port (mqtt c)),
            writer_write_client_id (client_id (mqtt c)), writer_write_text (username (mqtt c)),
            writer_write_text (password (mqtt c)), writer_write_text (ca_certificate_pem (mqtt c)),
            writer_write_u16 (keep_alive_seconds (mqtt c)), writer_write_mqtt_message (online_message (mqtt c)),
            writer_write_mqtt_message (will_message (mqtt c))]
      else []) @
     [writer_write_u8 (point_count (collection c))] @
     map (\<lambda>i. write_point (points (collection c) ! i)) [0..<unat (point_count (collection c))]"

definition configuration_binary_encode ::
  "configuration_t ptr \<Rightarrow> u8 list ptr \<Rightarrow> u32 ptr \<Rightarrow>
   configuration_binary_codec_result_t \<times> u8 list ptr \<times> u32 ptr" where
  "configuration_binary_encode configuration payload payload_length =
     (case (configuration, payload, payload_length) of
        (Some c, Some buffer, Some _) \<Rightarrow>
          (case writer_seq (encode_steps c) \<lparr>w_buffer = buffer, w_current = 0\<rparr> of
             (False, w) \<Rightarrow> (CONFIGURATION_BINARY_CODEC_BUFFER_TOO_SMALL, Some (w_buffer w), Some 0)
           | (True, w) \<Rightarrow>
               let len = (of_nat (w_current w) :: u32) in
               if len = 0 \<or> unat len > CONFIGURATION_V2_MAX_PAYLOAD_LENGTH
               then (CONFIGURATION_BINARY_CODEC_MODEL_INVALID, Some (w_buffer w), Some 0)
               else (CONFIGURATION_BINARY_CODEC_OK, Some (w_buffer w), Some len))
      | _ \<Rightarrow> (CONFIGURATION_BINARY_CODEC_INVALID_ARGUMENT, payload, payload_length))"


section \<open>What a write step writes\<close>

definition writes :: "writer_step \<Rightarrow> u8 list \<Rightarrow> bool" where
  "writes f bs \<longleftrightarrow> (\<forall>w. w_current w \<le> length (w_buffer w) \<longrightarrow>
     (if w_current w + length bs \<le> length (w_buffer w)
      then f w = (True, w\<lparr>w_buffer := overwrite (w_current w) bs (w_buffer w), w_current := w_current w + length bs\<rparr>)
      else fst (f w) = False))"

lemma overwrite_Cons: "i < length buf \<Longrightarrow> overwrite i (x # xs) buf = overwrite (i + 1) xs (buf[i := x])"
  by (simp add: overwrite_def upd_conv_take_nth_drop take_Suc_conv_app_nth ac_simps)

lemma writes_Nil: "writes (writer_seq []) []"
  by (simp add: writes_def)

lemma writes_Cons:
  assumes f: "writes f bs" and g: "writes (writer_seq fs) cs"
  shows "writes (writer_seq (f # fs)) (bs @ cs)"
  unfolding writes_def
proof (intro allI impI)
  fix w :: writer
  assume w: "w_current w \<le> length (w_buffer w)"
  let ?w = "w\<lparr>w_buffer := overwrite (w_current w) bs (w_buffer w), w_current := w_current w + length bs\<rparr>"
  show "if w_current w + length (bs @ cs) \<le> length (w_buffer w)
    then writer_seq (f # fs) w = (True, w\<lparr>w_buffer := overwrite (w_current w) (bs @ cs) (w_buffer w),
      w_current := w_current w + length (bs @ cs)\<rparr>)
    else fst (writer_seq (f # fs) w) = False"
  proof (cases "w_current w + length bs \<le> length (w_buffer w)")
    case True
    then have fw: "f w = (True, ?w)" using f w by (simp add: writes_def)
    have "w_current ?w \<le> length (w_buffer ?w)" using True by simp
    then have gw: "if w_current ?w + length cs \<le> length (w_buffer ?w)
      then writer_seq fs ?w = (True, ?w\<lparr>w_buffer := overwrite (w_current ?w) cs (w_buffer ?w), w_current := w_current ?w + length cs\<rparr>)
      else fst (writer_seq fs ?w) = False"
      using g unfolding writes_def by blast
    show ?thesis using gw True by (auto simp: fw overwrite_append add.assoc split: if_splits)
  next
    case False
    then have "fst (f w) = False" using f w by (simp add: writes_def)
    then show ?thesis using False by (cases "f w") auto
  qed
qed

lemma writes_seq: "list_all2 writes fs bss \<Longrightarrow> writes (writer_seq fs) (concat bss)"
  by (induction fs bss rule: list_all2_induct) (auto intro: writes_Nil writes_Cons simp del: writer_seq.simps)

lemma writes_bytes: "writes (writer_write_bytes bs) bs"
  by (auto simp: writes_def writer_write_bytes_def)

text \<open>
  A field codec: a write step, a read and the bytes of a value, such that the step writes these
  bytes and the read accepts exactly them. Clients only use \<open>read_iff\<close> and \<open>writes\<close>.
\<close>

locale field_codec =
  fixes wr :: "'a \<Rightarrow> writer_step" and rd :: "reader \<Rightarrow> ('a \<times> reader) option" and enc :: "'a \<Rightarrow> u8 list"
  assumes field_writes: "writes (wr a) (enc a)"
    and read_enc: "rd (enc a @ r) = Some (a, r)"
    and read_sound: "rd xs = Some (a, r) \<Longrightarrow> xs = enc a @ r"
begin

lemma read_iff: "rd xs = Some (a, r) \<longleftrightarrow> xs = enc a @ r"
  using read_enc read_sound by blast

end

lemma split_2: "2 \<le> length xs \<Longrightarrow> xs = [xs ! 0, xs ! 1] @ drop 2 xs"
proof -
  assume a: "2 \<le> length xs"
  have "take 2 xs = [xs ! 0, xs ! 1]"
    using a by (intro nth_equalityI) (auto simp: less_Suc_eq numeral_eq_Suc)
  then show ?thesis by (metis append_take_drop_id)
qed

lemma split_4: "4 \<le> length xs \<Longrightarrow> xs = [xs ! 0, xs ! 1, xs ! 2, xs ! 3] @ drop 4 xs"
proof -
  assume a: "4 \<le> length xs"
  have "take 4 xs = [xs ! 0, xs ! 1, xs ! 2, xs ! 3]"
    using a by (intro nth_equalityI) (auto simp: less_Suc_eq numeral_eq_Suc)
  then show ?thesis by (metis append_take_drop_id)
qed

interpretation u8c: field_codec writer_write_u8 reader_read_u8 "\<lambda>v. [v]"
proof
  show "writes (writer_write_u8 a) [a]" for a
    by (auto simp: writes_def writer_write_u8_def overwrite_Cons)
qed (auto simp: reader_read_u8_def split: list.splits)

interpretation u16c: field_codec writer_write_u16 reader_read_u16 le16
proof
  show "writes (writer_write_u16 a) (le16 a)" for a
    by (auto simp: writes_def writer_write_u16_def le16_def overwrite_Cons byte_at_def)
  have j: "ucast x OR push_bit 8 (ucast y) = join16 y x" for x y :: u8 by (simp add: join16_def or.commute)
  show "reader_read_u16 (le16 a @ r) = Some (a, r)" for a r
    by (simp add: reader_read_u16_def le16_def j byte_simps [simplified])
  fix xs r and a :: u16
  assume x: "reader_read_u16 xs = Some (a, r)"
  then have "2 \<le> length xs" "a = join16 (xs ! 1) (xs ! 0)" "r = drop 2 xs"
    by (auto simp: reader_read_u16_def j split: if_splits)
  then show "xs = le16 a @ r" using split_2 [of xs] by (simp add: le16_def byte_simps [simplified])
qed

interpretation u32c: field_codec writer_write_u32 reader_read_u32 le32
proof
  show "writes (writer_write_u32 a) (le32 a)" for a
    by (auto simp: writes_def writer_write_u32_def le32_def overwrite_Cons byte_at_def numeral_eq_Suc)
  have j: "ucast x OR push_bit 8 (ucast y) OR push_bit 16 (ucast z) OR push_bit 24 (ucast t) = join32 x y z t" for x y z t :: u8
    by (simp add: join32_def)
  show "reader_read_u32 (le32 a @ r) = Some (a, r)" for a r
    by (simp add: reader_read_u32_def le32_def j byte_simps [simplified])
  fix xs r and a :: u32
  assume x: "reader_read_u32 xs = Some (a, r)"
  then have "4 \<le> length xs" "a = join32 (xs ! 0) (xs ! 1) (xs ! 2) (xs ! 3)" "r = drop 4 xs"
    by (auto simp: reader_read_u32_def j split: if_splits)
  then show "xs = le32 a @ r" using split_4 [of xs] by (simp add: le32_def byte_simps [simplified])
qed

interpretation ipv4c: field_codec writer_write_ipv4 reader_read_ipv4 le32
proof
  show "writes (writer_write_ipv4 a) (le32 a)" for a
    unfolding writer_write_ipv4_def le32_def by (rule writes_bytes)
  show "reader_read_ipv4 (le32 a @ r) = Some (a, r)" for a r
    by (simp add: reader_read_ipv4_def reader_read_bytes_def le32_def byte_simps [simplified])
  fix xs r and a :: u32
  assume x: "reader_read_ipv4 xs = Some (a, r)"
  then have "4 \<le> length xs" "a = join32 (xs ! 0) (xs ! 1) (xs ! 2) (xs ! 3)" "r = drop 4 xs"
    by (auto simp: reader_read_ipv4_def reader_read_bytes_def split: if_splits)
  then show "xs = le32 a @ r" using split_4 [of xs] by (simp add: le32_def byte_simps [simplified])
qed

lemmas field_reads [simp] = u8c.read_enc [simplified] u16c.read_enc u32c.read_enc ipv4c.read_enc


lemma writes_append:
  assumes "writes (writer_seq fs) bs" "writes (writer_seq gs) cs"
  shows "writes (writer_seq (fs @ gs)) (bs @ cs)"
  unfolding writes_def
proof (intro allI impI)
  fix w :: writer
  assume w: "w_current w \<le> length (w_buffer w)"
  have app: "writer_seq (fs @ gs) w = (case writer_seq fs w of (True, w') \<Rightarrow> writer_seq gs w' | (False, w') \<Rightarrow> (False, w'))"
    by (induction fs arbitrary: w) (auto split: prod.splits bool.splits)
  show "if w_current w + length (bs @ cs) \<le> length (w_buffer w)
    then writer_seq (fs @ gs) w = (True, w\<lparr>w_buffer := overwrite (w_current w) (bs @ cs) (w_buffer w),
      w_current := w_current w + length (bs @ cs)\<rparr>)
    else fst (writer_seq (fs @ gs) w) = False"
    using writes_Cons [OF assms, unfolded writes_def, rule_format, OF w] by (simp only: app writer_seq.simps)
qed

lemma writes_one: "writes f bs \<Longrightarrow> writes (writer_seq [f]) bs"
  using writes_Cons [OF _ writes_Nil] by simp

text \<open>
  An object codec: the read fills an existing object, whose fields outside the mode that was read keep
  their values. What it accepts is exactly what the write step writes of the result, and reading what
  was written of an object that is \<open>ok\<close>, into an object with arrays of the same sizes, gives an
  object that agrees with it on the fields in effect.
\<close>

locale object_codec =
  fixes wr :: "'a \<Rightarrow> writer_step" and rd :: "'a \<Rightarrow> reader \<Rightarrow> ('a \<times> reader) option" and enc :: "'a \<Rightarrow> u8 list"
    and same :: "'a \<Rightarrow> 'a \<Rightarrow> bool" and ok :: "'a \<Rightarrow> bool" and shape :: "'a \<Rightarrow> 'a \<Rightarrow> bool"
  assumes object_writes: "writes (wr a) (enc a)"
    and rd_sound: "rd o1 xs = Some (a, r) \<Longrightarrow> xs = enc a @ r"
    and rd_complete: "ok a \<Longrightarrow> shape a o1 \<Longrightarrow> \<exists>b. rd o1 (enc a @ r) = Some (b, r) \<and> same a b"
begin

lemma rd_same:
  assumes "ok a" "shape a o1" "rd o1 (enc a @ r) = Some (b, s)"
  shows "same a b \<and> s = r"
  using rd_complete [OF assms(1,2), of r] assms(3) by auto

lemma obtain_rd:
  assumes "ok a" "shape a o1"
  obtains b where "\<And>r. rd o1 (enc a @ r) = Some (b r, r)" "\<And>r. same a (b r)"
  using rd_complete [OF assms] by metis

end

definition text_enc :: "configuration_text_t \<Rightarrow> u8 list" where
  "text_enc t = le16 (text_length t) @ take (text_len t) (text_bytes t)"

definition text_ok :: "nat \<Rightarrow> nat \<Rightarrow> configuration_text_t \<Rightarrow> bool" where
  "text_ok m n t \<longleftrightarrow> m \<le> text_len t \<and> text_len t \<le> n \<and> text_fits t \<and> text_bytes t ! text_len t = 0"

abbreviation text_shape :: "configuration_text_t \<Rightarrow> configuration_text_t \<Rightarrow> bool" where
  "text_shape t u \<equiv> length (text_bytes t) = length (text_bytes u)"

interpretation textc: object_codec writer_write_text "reader_read_text m n" text_enc text_same "text_ok m n" text_shape
  for m n
proof
  show "writes (writer_write_text a) (text_enc a)" for a
    unfolding writer_write_text_def text_enc_def
    by (intro writes_Cons writes_one u16c.field_writes writes_bytes)
next
  fix o1 xs a r
  assume "reader_read_text m n o1 xs = Some (a, r)"
  then show "xs = text_enc a @ r"
    by (auto simp: reader_read_text_def reader_read_bytes_def text_enc_def u16c.read_iff overwrite_def
        split: bind_splits if_splits)
next
  fix a o1 r
  assume ok: "text_ok m n a" and sh: "text_shape a o1"
  let ?c = "take (text_len a) (text_bytes a)"
  have l: "length ?c = text_len a" using ok by (simp add: text_ok_def)
  have "text_same a \<lparr>text_length = text_length a, text_bytes = (overwrite 0 ?c (text_bytes o1))[text_len a := 0]\<rparr>"
    using ok sh l by (auto simp: text_same_def text_ok_def overwrite_def take_Suc_conv_app_nth list_update_append)
  then show "\<exists>b. reader_read_text m n o1 (text_enc a @ r) = Some (b, r) \<and> text_same a b"
    using ok l by (auto simp: reader_read_text_def text_enc_def text_ok_def reader_read_bytes_def)
qed

lemmas read_sound_rules = u8c.read_iff [THEN iffD1] u16c.read_iff [THEN iffD1] u32c.read_iff [THEN iffD1]
  ipv4c.read_iff [THEN iffD1] textc.rd_sound

lemmas write_rules = writes_Cons writes_Nil writes_one writes_append u8c.field_writes u16c.field_writes
  u32c.field_writes ipv4c.field_writes textc.object_writes

definition endpoint_enc :: "configuration_endpoint_address_t \<Rightarrow> u8 list" where
  "endpoint_enc e = [endpoint_type e] @
     (if endpoint_type e = CONFIGURATION_ENDPOINT_ADDRESS_TYPE_HOSTNAME then text_enc (endpoint_hostname e)
      else le32 (endpoint_ipv4 e))"

definition endpoint_ok :: "configuration_endpoint_address_t \<Rightarrow> bool" where
  "endpoint_ok e \<longleftrightarrow> endpoint_type e = CONFIGURATION_ENDPOINT_ADDRESS_TYPE_HOSTNAME \<and> text_ok 1 CONFIGURATION_HOSTNAME_MAX_LENGTH (endpoint_hostname e) \<or>
     endpoint_type e = CONFIGURATION_ENDPOINT_ADDRESS_TYPE_IPV4"

abbreviation endpoint_shape :: "configuration_endpoint_address_t \<Rightarrow> configuration_endpoint_address_t \<Rightarrow> bool" where
  "endpoint_shape e f \<equiv> text_shape (endpoint_hostname e) (endpoint_hostname f)"

interpretation endpointc: object_codec writer_write_endpoint reader_read_endpoint endpoint_enc endpoint_same endpoint_ok endpoint_shape
proof
  show "writes (writer_write_endpoint a) (endpoint_enc a)" for a
    unfolding writer_write_endpoint_def endpoint_enc_def by (auto intro!: write_rules simp del: writer_seq.simps append.simps)
next
  fix o1 xs a r
  assume "reader_read_endpoint o1 xs = Some (a, r)"
  then show "xs = endpoint_enc a @ r"
    by (auto simp: reader_read_endpoint_def endpoint_enc_def dest!: read_sound_rules split: bind_splits if_splits)
next
  fix a o1 r
  assume ok: "endpoint_ok a" and sh: "endpoint_shape a o1"
  show "\<exists>b. reader_read_endpoint o1 (endpoint_enc a @ r) = Some (b, r) \<and> endpoint_same a b"
  proof (cases "endpoint_type a = CONFIGURATION_ENDPOINT_ADDRESS_TYPE_HOSTNAME")
    case True
    then have "text_ok 1 CONFIGURATION_HOSTNAME_MAX_LENGTH (endpoint_hostname a)" using ok by (simp add: endpoint_ok_def)
    from textc.rd_complete [OF this sh, of r] True show ?thesis
      by (auto simp: reader_read_endpoint_def endpoint_enc_def endpoint_same_def)
  next
    case False
    then show ?thesis using ok by (auto simp: endpoint_ok_def reader_read_endpoint_def endpoint_enc_def endpoint_same_def)
  qed
qed

definition client_id_enc :: "configuration_client_id_t \<Rightarrow> u8 list" where
  "client_id_enc x = [client_id_mode x] @
     (if client_id_mode x = CONFIGURATION_CLIENT_ID_MODE_DERIVED then [] else text_enc (explicit_value x))"

definition client_id_ok :: "configuration_client_id_t \<Rightarrow> bool" where
  "client_id_ok x \<longleftrightarrow> client_id_mode x = CONFIGURATION_CLIENT_ID_MODE_DERIVED \<or>
     client_id_mode x = CONFIGURATION_CLIENT_ID_MODE_EXPLICIT \<and> text_ok 1 256 (explicit_value x)"

abbreviation client_id_shape :: "configuration_client_id_t \<Rightarrow> configuration_client_id_t \<Rightarrow> bool" where
  "client_id_shape x y \<equiv> text_shape (explicit_value x) (explicit_value y)"

interpretation client_idc: object_codec writer_write_client_id reader_read_client_id client_id_enc client_id_same client_id_ok client_id_shape
proof
  show "writes (writer_write_client_id a) (client_id_enc a)" for a
    unfolding writer_write_client_id_def client_id_enc_def by (auto intro!: write_rules simp del: writer_seq.simps append.simps)
next
  fix o1 xs a r
  assume "reader_read_client_id o1 xs = Some (a, r)"
  then show "xs = client_id_enc a @ r"
    by (auto simp: reader_read_client_id_def client_id_enc_def dest!: read_sound_rules split: bind_splits if_splits)
next
  fix a o1 r
  assume ok: "client_id_ok a" and sh: "client_id_shape a o1"
  show "\<exists>b. reader_read_client_id o1 (client_id_enc a @ r) = Some (b, r) \<and> client_id_same a b"
  proof (cases "client_id_mode a = CONFIGURATION_CLIENT_ID_MODE_EXPLICIT")
    case True
    then have "text_ok 1 256 (explicit_value a)" using ok by (simp add: client_id_ok_def)
    from textc.rd_complete [OF this sh, of r] True show ?thesis
      by (auto simp: reader_read_client_id_def client_id_enc_def client_id_same_def)
  next
    case False
    then show ?thesis using ok by (auto simp: client_id_ok_def reader_read_client_id_def client_id_enc_def client_id_same_def)
  qed
qed

definition message_enc :: "configuration_mqtt_message_t \<Rightarrow> u8 list" where
  "message_enc m = [message_mode m] @
     (if message_mode m = CONFIGURATION_MQTT_MESSAGE_MODE_DISABLED then []
      else text_enc (message_topic m) @ text_enc (message_payload m) @ [message_qos m] @ [message_retain m])"

definition message_ok :: "configuration_mqtt_message_t \<Rightarrow> bool" where
  "message_ok m \<longleftrightarrow> message_mode m = CONFIGURATION_MQTT_MESSAGE_MODE_DISABLED \<or>
     message_mode m = CONFIGURATION_MQTT_MESSAGE_MODE_CUSTOM \<and> text_ok 1 128 (message_topic m) \<and> text_ok 0 128 (message_payload m)"

abbreviation message_shape :: "configuration_mqtt_message_t \<Rightarrow> configuration_mqtt_message_t \<Rightarrow> bool" where
  "message_shape x y \<equiv> text_shape (message_topic x) (message_topic y) \<and> text_shape (message_payload x) (message_payload y)"

interpretation messagec: object_codec writer_write_mqtt_message reader_read_mqtt_message message_enc message_same message_ok message_shape
proof
  show "writes (writer_write_mqtt_message a) (message_enc a)" for a
    unfolding writer_write_mqtt_message_def message_enc_def by (auto intro!: write_rules simp del: writer_seq.simps append.simps)
next
  fix o1 xs a r
  assume "reader_read_mqtt_message o1 xs = Some (a, r)"
  then show "xs = message_enc a @ r"
    by (auto simp: reader_read_mqtt_message_def message_enc_def dest!: read_sound_rules split: bind_splits if_splits)
next
  fix a o1 r
  assume ok: "message_ok a" and sh: "message_shape a o1"
  show "\<exists>b. reader_read_mqtt_message o1 (message_enc a @ r) = Some (b, r) \<and> message_same a b"
  proof (cases "message_mode a = CONFIGURATION_MQTT_MESSAGE_MODE_CUSTOM")
    case True
    then have t: "text_ok 1 128 (message_topic a)" "text_ok 0 128 (message_payload a)" using ok by (simp_all add: message_ok_def)
    obtain f where f: "\<And>r. reader_read_text 1 128 (message_topic o1) (text_enc (message_topic a) @ r) = Some (f r, r)"
      "\<And>r. text_same (message_topic a) (f r)" using textc.obtain_rd [OF t(1)] sh by blast
    obtain g where g: "\<And>r. reader_read_text 0 128 (message_payload o1) (text_enc (message_payload a) @ r) = Some (g r, r)"
      "\<And>r. text_same (message_payload a) (g r)" using textc.obtain_rd [OF t(2)] sh by blast
    show ?thesis using True f g by (simp add: reader_read_mqtt_message_def message_enc_def message_same_def)
  next
    case False
    then show ?thesis using ok by (auto simp: message_ok_def reader_read_mqtt_message_def message_enc_def message_same_def)
  qed
qed

section \<open>The payload of a configuration\<close>

lemmas object_sound_rules = read_sound_rules endpointc.rd_sound client_idc.rd_sound messagec.rd_sound

lemmas object_write_rules = write_rules endpointc.object_writes client_idc.object_writes messagec.object_writes

definition network_enc :: "configuration_network_t \<Rightarrow> u8 list" where
  "network_enc n = [network_mode n] @
     (if network_mode n = CONFIGURATION_NETWORK_MODE_STATIC
      then le32 (ip_address n) @ le32 (subnet_mask n) @ le32 (network_gateway n) @ le32 (dns_primary n) @ le32 (dns_secondary n)
      else [])"

definition mqtt_enc :: "configuration_mqtt_t \<Rightarrow> u8 list" where
  "mqtt_enc m = [mqtt_mode m] @
     (if mqtt_mode m = CONFIGURATION_MQTT_MODE_ENABLED
      then text_enc (broker_address m) @ le16 (broker_port m) @ client_id_enc (client_id m) @ text_enc (username m) @
           text_enc (password m) @ text_enc (ca_certificate_pem m) @ le16 (keep_alive_seconds m) @
           message_enc (online_message m) @ message_enc (will_message m)
      else [])"

definition point_enc :: "configuration_collection_point_t \<Rightarrow> u8 list" where
  "point_enc p = [slave_address p] @ [point_source p] @ le16 (point_address p) @
     (if register_source p then [point_data_type p] else []) @ le32 (poll_interval_ms p) @
     le16 (point_first_byte_timeout_ms p) @ text_enc (point_topic p) @ [point_qos p]"

definition fields_enc :: "configuration_t \<Rightarrow> u8 list" where
  "fields_enc c = network_enc (network c) @ le32 (baud_rate (rtu c)) @ [frame_format (rtu c)] @
     le16 (rtu_first_byte_timeout_ms (rtu c)) @ le16 (listen_port c) @ endpoint_enc (sntp_servers c ! 0) @
     endpoint_enc (sntp_servers c ! 1) @ mqtt_enc (mqtt c) @ [point_count (collection c)] @
     concat (map (\<lambda>i. point_enc (points (collection c) ! i)) [0..<unat (point_count (collection c))])"

lemma writes_if: "writes (writer_seq fs) bs \<Longrightarrow> writes (writer_seq (if b then fs else [])) (if b then bs else [])"
  by (simp add: writes_Nil del: writer_seq.simps)

lemma point_writes: "writes (write_point p) (point_enc p)"
proof -
  have e: "point_enc p = ([slave_address p] @ [point_source p] @ le16 (point_address p)) @
     (if register_source p then [point_data_type p] else []) @ (le32 (poll_interval_ms p) @
     le16 (point_first_byte_timeout_ms p) @ text_enc (point_topic p) @ [point_qos p])"
    by (simp add: point_enc_def)
  show ?thesis
    unfolding write_point_def e register_source_def by (intro writes_append writes_if object_write_rules)
qed

lemma points_write: "writes (writer_seq (map (\<lambda>i. write_point (ps ! i)) is)) (concat (map (\<lambda>i. point_enc (ps ! i)) is))"
  by (rule writes_seq) (simp add: list_all2_conv_all_nth point_writes)

lemma encode_writes: "writes (writer_seq (encode_steps c)) (CONFIGURATION_SCHEMA_VERSION # fields_enc c)"
proof -
  have e: "CONFIGURATION_SCHEMA_VERSION # fields_enc c =
    ([CONFIGURATION_SCHEMA_VERSION] @ [network_mode (network c)]) @
    (if network_mode (network c) = CONFIGURATION_NETWORK_MODE_STATIC
     then le32 (ip_address (network c)) @ le32 (subnet_mask (network c)) @ le32 (network_gateway (network c)) @
          le32 (dns_primary (network c)) @ le32 (dns_secondary (network c)) else []) @
    (le32 (baud_rate (rtu c)) @ [frame_format (rtu c)] @ le16 (rtu_first_byte_timeout_ms (rtu c)) @ le16 (listen_port c) @
     endpoint_enc (sntp_servers c ! 0) @ endpoint_enc (sntp_servers c ! 1) @ [mqtt_mode (mqtt c)]) @
    (if mqtt_mode (mqtt c) = CONFIGURATION_MQTT_MODE_ENABLED
     then text_enc (broker_address (mqtt c)) @ le16 (broker_port (mqtt c)) @ client_id_enc (client_id (mqtt c)) @
          text_enc (username (mqtt c)) @ text_enc (password (mqtt c)) @ text_enc (ca_certificate_pem (mqtt c)) @
          le16 (keep_alive_seconds (mqtt c)) @ message_enc (online_message (mqtt c)) @ message_enc (will_message (mqtt c))
     else []) @
    [point_count (collection c)] @
    concat (map (\<lambda>i. point_enc (points (collection c) ! i)) [0..<unat (point_count (collection c))])"
    by (simp add: fields_enc_def network_enc_def mqtt_enc_def)
  show ?thesis
    unfolding encode_steps_def e by (intro writes_append writes_if points_write object_write_rules)
qed

lemma network_sound: "decode_network n xs = Some (a, r) \<Longrightarrow> xs = network_enc a @ r"
  by (auto simp: decode_network_def network_enc_def dest!: object_sound_rules split: bind_splits if_splits)

lemma mqtt_sound: "decode_mqtt m xs = Some (a, r) \<Longrightarrow> xs = mqtt_enc a @ r"
  by (auto simp: decode_mqtt_def mqtt_enc_def dest!: object_sound_rules split: bind_splits if_splits)

lemma point_sound: "decode_point p xs = Some (a, r) \<Longrightarrow> xs = point_enc a @ r"
  by (auto simp: decode_point_def point_enc_def register_source_def dest!: object_sound_rules split: bind_splits if_splits)

lemma points_sound:
  "decode_points n ps xs = Some (qs, r) \<Longrightarrow> length qs = length ps \<and>
   (n \<le> length ps \<longrightarrow> xs = concat (map (\<lambda>i. point_enc (qs ! i)) [0..<n]) @ r)"
proof (induction n ps xs arbitrary: qs r rule: decode_points.induct)
  case (1 n p ps xs)
  then show ?case
    by (auto simp: map_upt_Suc simp del: upt_Suc dest!: point_sound split: bind_splits)
qed auto

lemma fields_sound:
  assumes "decode_fields xs c = Some (d, r)" "length (points (collection c)) = 16"
  shows "xs = fields_enc d @ r"
  using assms
  by (auto simp: decode_fields_def fields_enc_def dest!: object_sound_rules network_sound mqtt_sound points_sound
      split: bind_splits if_splits)

lemma network_complete:
  assumes "network_mode a = CONFIGURATION_NETWORK_MODE_STATIC \<or> network_mode a = CONFIGURATION_NETWORK_MODE_DHCP"
  shows "\<exists>b. decode_network n (network_enc a @ r) = Some (b, r) \<and> network_mode a = network_mode b \<and>
    (network_mode a = CONFIGURATION_NETWORK_MODE_STATIC \<longrightarrow> a = b)"
  using assms by (auto simp: decode_network_def network_enc_def)

definition mqtt_ok :: "configuration_mqtt_t \<Rightarrow> bool" where
  "mqtt_ok m \<longleftrightarrow> text_ok 1 253 (broker_address m) \<and> client_id_ok (client_id m) \<and> text_ok 1 256 (username m) \<and>
     text_ok 1 256 (password m) \<and> text_ok 1 4096 (ca_certificate_pem m) \<and> message_ok (online_message m) \<and> message_ok (will_message m)"

definition mqtt_shape :: "configuration_mqtt_t \<Rightarrow> configuration_mqtt_t \<Rightarrow> bool" where
  "mqtt_shape x y \<longleftrightarrow> text_shape (broker_address x) (broker_address y) \<and> client_id_shape (client_id x) (client_id y) \<and>
     text_shape (username x) (username y) \<and> text_shape (password x) (password y) \<and>
     text_shape (ca_certificate_pem x) (ca_certificate_pem y) \<and> message_shape (online_message x) (online_message y) \<and>
     message_shape (will_message x) (will_message y)"

lemma mqtt_complete:
  assumes "mqtt_ok a" "mqtt_shape a m" "mqtt_mode a = CONFIGURATION_MQTT_MODE_ENABLED"
  shows "\<exists>b. decode_mqtt m (mqtt_enc a @ r) = Some (b, r) \<and> mqtt_mode a = mqtt_mode b \<and> mqtt_same a b"
proof -
  obtain f1 where 1: "\<And>r. reader_read_text 1 253 (broker_address m) (text_enc (broker_address a) @ r) = Some (f1 r, r)"
    "\<And>r. text_same (broker_address a) (f1 r)"
    using textc.obtain_rd [of 1 253 "broker_address a" "broker_address m"] assms by (auto simp: mqtt_ok_def mqtt_shape_def)
  obtain f2 where 2: "\<And>r. reader_read_client_id (client_id m) (client_id_enc (client_id a) @ r) = Some (f2 r, r)"
    "\<And>r. client_id_same (client_id a) (f2 r)"
    using client_idc.obtain_rd [of "client_id a" "client_id m"] assms by (auto simp: mqtt_ok_def mqtt_shape_def)
  obtain f3 where 3: "\<And>r. reader_read_text 1 256 (username m) (text_enc (username a) @ r) = Some (f3 r, r)"
    "\<And>r. text_same (username a) (f3 r)"
    using textc.obtain_rd [of 1 256 "username a" "username m"] assms by (auto simp: mqtt_ok_def mqtt_shape_def)
  obtain f4 where 4: "\<And>r. reader_read_text 1 256 (password m) (text_enc (password a) @ r) = Some (f4 r, r)"
    "\<And>r. text_same (password a) (f4 r)"
    using textc.obtain_rd [of 1 256 "password a" "password m"] assms by (auto simp: mqtt_ok_def mqtt_shape_def)
  obtain f5 where 5: "\<And>r. reader_read_text 1 4096 (ca_certificate_pem m) (text_enc (ca_certificate_pem a) @ r) = Some (f5 r, r)"
    "\<And>r. text_same (ca_certificate_pem a) (f5 r)"
    using textc.obtain_rd [of 1 4096 "ca_certificate_pem a" "ca_certificate_pem m"] assms by (auto simp: mqtt_ok_def mqtt_shape_def)
  obtain f6 where 6: "\<And>r. reader_read_mqtt_message (online_message m) (message_enc (online_message a) @ r) = Some (f6 r, r)"
    "\<And>r. message_same (online_message a) (f6 r)"
    using messagec.obtain_rd [of "online_message a" "online_message m"] assms by (auto simp: mqtt_ok_def mqtt_shape_def)
  obtain f7 where 7: "\<And>r. reader_read_mqtt_message (will_message m) (message_enc (will_message a) @ r) = Some (f7 r, r)"
    "\<And>r. message_same (will_message a) (f7 r)"
    using messagec.obtain_rd [of "will_message a" "will_message m"] assms by (auto simp: mqtt_ok_def mqtt_shape_def)
  show ?thesis
    using assms(3) 1 2 3 4 5 6 7 by (simp add: decode_mqtt_def mqtt_enc_def mqtt_same_def)
qed

definition point_ok :: "configuration_collection_point_t \<Rightarrow> bool" where
  "point_ok p \<longleftrightarrow> point_source p \<in> {0, 1, 2, 3} \<and> text_ok 1 128 (point_topic p)"

lemma point_complete:
  assumes "point_ok a" "text_shape (point_topic a) (point_topic p)"
  shows "\<exists>b. decode_point p (point_enc a @ r) = Some (b, r) \<and> point_same a b"
proof -
  obtain f where 1: "\<And>r. reader_read_text 1 128 (point_topic p) (text_enc (point_topic a) @ r) = Some (f r, r)"
    "\<And>r. text_same (point_topic a) (f r)"
    using textc.obtain_rd [of 1 128 "point_topic a" "point_topic p"] assms by (auto simp: point_ok_def)
  show ?thesis
    using assms 1 by (auto simp: point_ok_def decode_point_def point_enc_def point_same_def register_source_def)
qed

lemma points_complete:
  assumes "n \<le> length as" "length as = length ps" "\<forall>i < n. point_ok (as ! i)"
    "\<forall>i < n. text_shape (point_topic (as ! i)) (point_topic (ps ! i))"
  shows "\<exists>qs. decode_points n ps (concat (map (\<lambda>i. point_enc (as ! i)) [0..<n]) @ r) = Some (qs, r) \<and>
    length qs = length ps \<and> (\<forall>i < n. point_same (as ! i) (qs ! i))"
  using assms
proof (induction n arbitrary: as ps)
  case (Suc n)
  obtain a as' p ps' where [simp]: "as = a # as'" "ps = p # ps'" using Suc.prems by (cases as; cases ps) auto
  have i: "point_ok a" "text_shape (point_topic a) (point_topic p)" using Suc.prems by fastforce+
  obtain qs where qs: "decode_points n ps' (concat (map (\<lambda>i. point_enc (as' ! i)) [0..<n]) @ r) = Some (qs, r)"
    "length qs = length ps'" "\<forall>i < n. point_same (as' ! i) (qs ! i)"
    using Suc.IH [of as' ps'] Suc.prems by fastforce
  obtain b where b: "decode_point p (point_enc a @ concat (map (\<lambda>i. point_enc (as' ! i)) [0..<n]) @ r) =
      Some (b, concat (map (\<lambda>i. point_enc (as' ! i)) [0..<n]) @ r)" "point_same a b"
    using point_complete [OF i] by blast
  show ?case using b qs by (auto simp: map_upt_Suc less_Suc_eq_0_disj simp del: upt_Suc)
qed simp

definition fields_ok :: "configuration_t \<Rightarrow> bool" where
  "fields_ok c \<longleftrightarrow> network_mode (network c) \<in> {0, 1} \<and> endpoint_ok (sntp_servers c ! 0) \<and> endpoint_ok (sntp_servers c ! 1) \<and>
     mqtt_mode (mqtt c) \<in> {0, 1} \<and> (mqtt_mode (mqtt c) = CONFIGURATION_MQTT_MODE_ENABLED \<longrightarrow> mqtt_ok (mqtt c)) \<and>
     unat (point_count (collection c)) \<le> 16 \<and> (\<forall>i < unat (point_count (collection c)). point_ok (points (collection c) ! i))"

lemma endpoint_valid_ok: "endpoint_address_is_valid e \<Longrightarrow> text_wf 256 (endpoint_hostname e) \<Longrightarrow> endpoint_ok e"
  by (auto simp: endpoint_address_is_valid_def endpoint_ok_def hostname_is_valid_def text_ok_def text_wf_def Let_def
      split: if_splits)

lemma message_valid_ok: "mqtt_message_is_valid m \<Longrightarrow> message_wf m \<Longrightarrow> message_ok m"
  by (auto simp: mqtt_message_is_valid_def message_ok_def topic_is_valid_def text_ok_def message_wf_def text_wf_def Let_def
      split: if_splits)

lemma mqtt_valid_ok:
  assumes "mqtt_fields_are_valid m" "ca_certificate_is_valid tls (ca_certificate_pem m) = CONFIGURATION_VALIDATION_OK"
    "text_wf 256 (broker_address m)" "text_wf 257 (explicit_value (client_id m))" "text_wf 257 (username m)"
    "text_wf 257 (password m)" "text_wf 4097 (ca_certificate_pem m)" "message_wf (online_message m)" "message_wf (will_message m)"
  shows "mqtt_ok m"
proof -
  have "text_ok 1 253 (broker_address m)" using assms
    by (auto simp: mqtt_fields_are_valid_def hostname_is_valid_def text_ok_def text_wf_def Let_def split: if_splits)
  moreover have "client_id_ok (client_id m)" using assms
    by (auto simp: mqtt_fields_are_valid_def client_id_is_valid_def client_id_ok_def text_ok_def text_wf_def Let_def split: if_splits)
  moreover have "text_ok 1 256 (username m)" "text_ok 1 256 (password m)" using assms
    by (auto simp: mqtt_fields_are_valid_def visible_ascii_is_valid_def text_ok_def text_wf_def Let_def split: if_splits)
  moreover have "text_ok 1 4096 (ca_certificate_pem m)" using assms
    by (auto simp: ca_certificate_is_valid_def text_ok_def text_wf_def Let_def split: if_splits)
  ultimately show ?thesis using assms by (simp add: mqtt_ok_def mqtt_fields_are_valid_def message_valid_ok)
qed

lemma point_valid_ok: "collection_point_is_valid p \<Longrightarrow> text_wf 129 (point_topic p) \<Longrightarrow> point_ok p"
  by (auto simp: collection_point_is_valid_def point_ok_def topic_is_valid_def text_ok_def text_wf_def Let_def split: if_splits)

lemma valid_fields_ok:
  assumes wf: "configuration_wf c" and v: "configuration_validate tls (Some c) = CONFIGURATION_VALIDATION_OK"
  shows "fields_ok c"
proof -
  note v = v [unfolded validate_OK] and wf = wf [unfolded configuration_wf_def]
  have "network_mode (network c) \<in> {0, 1}" using v by (auto simp: network_is_valid_def split: if_splits)
  moreover have "endpoint_ok (sntp_servers c ! 0)" "endpoint_ok (sntp_servers c ! 1)"
    using v wf by (auto intro!: endpoint_valid_ok)
  moreover have "mqtt_mode (mqtt c) \<in> {0, 1}" using v by auto
  moreover have "mqtt_mode (mqtt c) = CONFIGURATION_MQTT_MODE_ENABLED \<longrightarrow> mqtt_ok (mqtt c)"
    using v wf by (auto intro!: mqtt_valid_ok)
  moreover have n: "unat (point_count (collection c)) \<le> 16" using v by auto
  moreover have "point_ok (points (collection c) ! i)" if "i < unat (point_count (collection c))" for i
  proof (rule point_valid_ok)
    show "collection_point_is_valid (points (collection c) ! i)"
      using v that by (auto simp: collection_points_are_valid_def Let_def list_all_iff)
    show "text_wf 129 (point_topic (points (collection c) ! i))" using wf that n by simp
  qed
  ultimately show ?thesis by (simp add: fields_ok_def)
qed

lemma fields_complete:
  assumes "fields_ok c" "configuration_wf c" "configuration_wf o1"
  shows "\<exists>d. decode_fields (fields_enc c @ r) o1 = Some (d, r) \<and> active_same c d"
proof -
  note wf = assms(2,3) [unfolded configuration_wf_def]
  let ?n = "unat (point_count (collection c))"
  have "\<exists>b. decode_network (network o1) (network_enc (network c) @ r) = Some (b, r) \<and>
    network_mode (network c) = network_mode b \<and> (network_mode (network c) = CONFIGURATION_NETWORK_MODE_STATIC \<longrightarrow> network c = b)" for r
    using assms(1) by (intro network_complete) (auto simp: fields_ok_def)
  then obtain n where n: "\<And>r. decode_network (network o1) (network_enc (network c) @ r) = Some (n r, r)"
    "\<And>r. network_mode (network c) = network_mode (n r)"
    "\<And>r. network_mode (network c) = CONFIGURATION_NETWORK_MODE_STATIC \<Longrightarrow> network c = n r" by metis
  have s: "endpoint_shape (sntp_servers c ! i) (sntp_servers o1 ! i)" if "i < 2" for i
    using wf that by (auto simp: text_wf_def)
  have e: "\<exists>f. (\<forall>r. reader_read_endpoint (sntp_servers o1 ! i) (endpoint_enc (sntp_servers c ! i) @ r) = Some (f r, r)) \<and>
      (\<forall>r. endpoint_same (sntp_servers c ! i) (f r))" if "i < 2" "endpoint_ok (sntp_servers c ! i)" for i
    using endpointc.obtain_rd [OF that(2) s [OF that(1)]] by metis
  obtain f g where f: "\<And>r. reader_read_endpoint (sntp_servers o1 ! 0) (endpoint_enc (sntp_servers c ! 0) @ r) = Some (f r, r)"
      "\<And>r. endpoint_same (sntp_servers c ! 0) (f r)"
    and g: "\<And>r. reader_read_endpoint (sntp_servers o1 ! 1) (endpoint_enc (sntp_servers c ! 1) @ r) = Some (g r, r)"
      "\<And>r. endpoint_same (sntp_servers c ! 1) (g r)"
    using e [of 0] e [of 1] assms(1) unfolding fields_ok_def by auto
  have "\<exists>b. decode_mqtt (mqtt o1) (mqtt_enc (mqtt c) @ r) = Some (b, r) \<and> mqtt_mode (mqtt c) = mqtt_mode b \<and>
     (mqtt_mode (mqtt c) = CONFIGURATION_MQTT_MODE_ENABLED \<longrightarrow> mqtt_same (mqtt c) b)" for r
  proof (cases "mqtt_mode (mqtt c) = CONFIGURATION_MQTT_MODE_ENABLED")
    case True
    then have "mqtt_ok (mqtt c)" "mqtt_shape (mqtt c) (mqtt o1)"
      using assms(1) wf by (auto simp: fields_ok_def mqtt_shape_def text_wf_def message_wf_def)
    then show ?thesis using mqtt_complete True by blast
  next
    case False
    then show ?thesis using assms(1) by (auto simp: fields_ok_def decode_mqtt_def mqtt_enc_def)
  qed
  then obtain m where m: "\<And>r. decode_mqtt (mqtt o1) (mqtt_enc (mqtt c) @ r) = Some (m r, r)"
    "\<And>r. mqtt_mode (mqtt c) = mqtt_mode (m r)"
    "\<And>r. mqtt_mode (mqtt c) = CONFIGURATION_MQTT_MODE_ENABLED \<Longrightarrow> mqtt_same (mqtt c) (m r)" by metis
  obtain qs where q: "decode_points ?n (points (collection o1)) (concat (map (\<lambda>i. point_enc (points (collection c) ! i)) [0..<?n]) @ r) = Some (qs, r)"
    "length qs = length (points (collection o1))" "\<forall>i < ?n. point_same (points (collection c) ! i) (qs ! i)"
    using points_complete [of ?n "points (collection c)" "points (collection o1)" r] assms(1) wf
    by (auto simp: fields_ok_def text_wf_def)
  show ?thesis
    using n f g m q assms(1) wf by (auto simp: decode_fields_def fields_enc_def active_same_def fields_ok_def)
qed

section \<open>The longest payload\<close>

lemma length_text_enc: "text_ok m n t \<Longrightarrow> length (text_enc t) \<le> 2 + n"
  by (simp add: text_enc_def text_ok_def)

lemma length_endpoint_enc: "endpoint_ok e \<Longrightarrow> length (endpoint_enc e) \<le> 256"
  by (auto simp: endpoint_ok_def endpoint_enc_def dest: length_text_enc)

lemma length_client_id_enc: "client_id_ok x \<Longrightarrow> length (client_id_enc x) \<le> 259"
  by (auto simp: client_id_ok_def client_id_enc_def dest: length_text_enc)

lemma length_message_enc: "message_ok m \<Longrightarrow> length (message_enc m) \<le> 263"
  by (auto simp: message_ok_def message_enc_def dest!: length_text_enc)

lemma length_mqtt_enc: "mqtt_ok m \<Longrightarrow> length (mqtt_enc m) \<le> 5659"
  using length_text_enc [of 1 253 "broker_address m"] length_text_enc [of 1 256 "username m"]
    length_text_enc [of 1 256 "password m"] length_text_enc [of 1 4096 "ca_certificate_pem m"]
    length_client_id_enc [of "client_id m"] length_message_enc [of "online_message m"]
    length_message_enc [of "will_message m"]
  by (simp add: mqtt_ok_def mqtt_enc_def)

lemma length_points_enc:
  "\<forall>i < n. point_ok (ps ! i) \<Longrightarrow> length (concat (map (\<lambda>i. point_enc (ps ! i)) [0..<n])) \<le> n * 142"
proof (induction n)
  case (Suc n)
  moreover have "length (point_enc (ps ! n)) \<le> 142"
    using Suc.prems length_text_enc [of 1 128 "point_topic (ps ! n)"] by (auto simp: point_ok_def point_enc_def)
  ultimately show ?case by simp
qed simp

lemma length_fields_enc:
  assumes "fields_ok c"
  shows "length (fields_enc c) \<le> 8474"
proof -
  have "length (concat (map (\<lambda>i. point_enc (points (collection c) ! i)) [0..<unat (point_count (collection c))])) \<le> 16 * 142"
    using assms length_points_enc [of "unat (point_count (collection c))" "points (collection c)"]
    unfolding fields_ok_def by (meson le_trans mult_le_mono1)
  moreover have "length (mqtt_enc (mqtt c)) \<le> 5659"
    using assms length_mqtt_enc [of "mqtt c"] by (auto simp: fields_ok_def mqtt_enc_def)
  moreover have "length (network_enc (network c)) \<le> 21" by (simp add: network_enc_def)
  ultimately show ?thesis
    using assms length_endpoint_enc [of "sntp_servers c ! 0"] length_endpoint_enc [of "sntp_servers c ! 1"]
    by (simp add: fields_enc_def fields_ok_def)
qed

section \<open>Properties\<close>

lemma encode_result:
  assumes "length (fields_enc c) \<le> 8474"
  shows "configuration_binary_encode (Some c) (Some buffer) (Some n) =
    (if 1 + length (fields_enc c) \<le> length buffer
     then (CONFIGURATION_BINARY_CODEC_OK, Some (overwrite 0 (2 # fields_enc c) buffer), Some (of_nat (1 + length (fields_enc c))))
     else (CONFIGURATION_BINARY_CODEC_BUFFER_TOO_SMALL,
           Some (w_buffer (snd (writer_seq (encode_steps c) \<lparr>w_buffer = buffer, w_current = 0\<rparr>))), Some 0))"
proof -
  let ?w = "\<lparr>w_buffer = buffer, w_current = 0\<rparr>" and ?bs = "2 # fields_enc c"
  have w: "if length ?bs \<le> length buffer
     then writer_seq (encode_steps c) ?w = (True, \<lparr>w_buffer = overwrite 0 ?bs buffer, w_current = length ?bs\<rparr>)
     else fst (writer_seq (encode_steps c) ?w) = False"
    using encode_writes [of c, unfolded writes_def, rule_format, of ?w] by simp
  have u: "unat (of_nat (length ?bs) :: u32) = length ?bs" using assms by (simp add: unat_of_nat take_bit_nat_eq_self del: of_nat_Suc)
  then have "(of_nat (length ?bs) :: u32) \<noteq> 0" by (metis length_0_conv list.distinct(1) unat_0)
  then show ?thesis
    using w u assms
    by (cases "length ?bs \<le> length buffer"; cases "writer_seq (encode_steps c) ?w")
       (auto simp: configuration_binary_encode_def Let_def simp del: of_nat_Suc)
qed

lemma zero_wf: "configuration_wf zero_configuration"
  by (simp add: configuration_wf_def zero_configuration_def zero_endpoint_def zero_text_def zero_message_def zero_point_def
      text_wf_def message_wf_def)

lemma decode_OK:
  assumes "configuration_binary_decode tls (Some bytes) n (Some e) = (CONFIGURATION_BINARY_CODEC_OK, Some d)"
  shows "take (unat n) bytes = 2 # fields_enc d \<and> unat n \<le> CONFIGURATION_V2_MAX_PAYLOAD_LENGTH"
  using assms fields_sound [of _ zero_configuration d "[]"]
  by (auto simp: configuration_binary_decode_def reader_read_u8_def zero_configuration_def Let_def
      split: if_splits list.splits option.splits)

lemma decode_OK_intro:
  assumes "take (unat n) bytes = 2 # xs" "n \<noteq> 0" "unat n \<le> CONFIGURATION_V2_MAX_PAYLOAD_LENGTH"
    and "decode_fields xs zero_configuration = Some (d, [])" "configuration_validate tls (Some d) = CONFIGURATION_VALIDATION_OK"
  shows "configuration_binary_decode tls (Some bytes) n (Some e) = (CONFIGURATION_BINARY_CODEC_OK, Some d)"
  using assms by (simp add: configuration_binary_decode_def reader_read_u8_def)

lemma decode_of_encoding:
  assumes wf: "configuration_wf c" and v: "configuration_validate tls (Some c) = CONFIGURATION_VALIDATION_OK"
  shows "\<exists>d. configuration_binary_decode tls (Some ((2 # fields_enc c) @ rest)) (of_nat (1 + length (fields_enc c))) (Some e) =
      (CONFIGURATION_BINARY_CODEC_OK, Some d) \<and> active_same c d"
proof -
  let ?n = "of_nat (1 + length (fields_enc c)) :: u32"
  have ok: "fields_ok c" by (rule valid_fields_ok [OF wf v])
  obtain d where d: "decode_fields (fields_enc c) zero_configuration = Some (d, [])" "active_same c d"
    using fields_complete [OF ok wf zero_wf, of "[]"] by auto
  have u: "unat ?n = 1 + length (fields_enc c)" using length_fields_enc [OF ok] by (simp add: unat_of_nat take_bit_nat_eq_self del: of_nat_Suc of_nat_add)
  then have n: "?n \<noteq> 0" by (metis add_is_0 one_neq_zero unat_0)
  have t: "take (unat ?n) ((2 # fields_enc c) @ rest) = 2 # fields_enc c" unfolding u by simp
  have vd: "configuration_validate tls (Some d) = CONFIGURATION_VALIDATION_OK"
    using active_same_validate [OF d(2)] v wf by (simp add: configuration_wf_def)
  have "unat ?n \<le> CONFIGURATION_V2_MAX_PAYLOAD_LENGTH" unfolding u using length_fields_enc [OF ok] by simp
  from decode_OK_intro [OF t n this d(1) vd] show ?thesis using d(2) by blast
qed

text \<open>
  C11. Saving and loading loses nothing: a valid configuration is encoded into any buffer of the maximum
  payload size with a payload of at most 8475 bytes, and decoding exactly those bytes, into any
  object, succeeds and gives a configuration that agrees with the original on every field in effect.
\<close>

theorem configuration_codec_roundtrip:
  assumes "configuration_wf c" "configuration_validate tls (Some c) = CONFIGURATION_VALIDATION_OK"
    and "CONFIGURATION_V2_MAX_PAYLOAD_LENGTH \<le> length buffer"
  shows "\<exists>bytes n d. configuration_binary_encode (Some c) (Some buffer) (Some n0) = (CONFIGURATION_BINARY_CODEC_OK, Some bytes, Some n) \<and>
    unat n \<le> CONFIGURATION_V2_MAX_PAYLOAD_LENGTH \<and> length bytes = length buffer \<and>
    configuration_binary_decode tls (Some bytes) n (Some e) = (CONFIGURATION_BINARY_CODEC_OK, Some d) \<and> active_same c d"
proof -
  have l: "length (fields_enc c) \<le> 8474" by (rule length_fields_enc [OF valid_fields_ok [OF assms(1,2)]])
  let ?b = "overwrite 0 (2 # fields_enc c) buffer" and ?n = "of_nat (1 + length (fields_enc c)) :: u32"
  have b: "?b = (2 # fields_enc c) @ drop (1 + length (fields_enc c)) buffer" by (simp add: overwrite_def)
  obtain d where "configuration_binary_decode tls (Some ?b) ?n (Some e) = (CONFIGURATION_BINARY_CODEC_OK, Some d)" "active_same c d"
    using decode_of_encoding [OF assms(1,2), of "drop (1 + length (fields_enc c)) buffer" e] unfolding b by blast
  moreover have "configuration_binary_encode (Some c) (Some buffer) (Some n0) = (CONFIGURATION_BINARY_CODEC_OK, Some ?b, Some ?n)"
    using encode_result [OF l, of buffer n0] l assms(3) by simp
  moreover have "unat ?n \<le> 8475" using l by (simp add: unat_of_nat take_bit_nat_eq_self del: of_nat_Suc of_nat_add)
  moreover have "length ?b = length buffer" using l assms(3) by simp
  ultimately show ?thesis by blast
qed

theorem configuration_codec_roundtrip_witness:
  "\<exists>bytes n d. configuration_binary_encode (Some default_configuration) (Some (replicate 8475 0)) (Some 0) =
      (CONFIGURATION_BINARY_CODEC_OK, Some bytes, Some n) \<and>
    unat n \<le> CONFIGURATION_V2_MAX_PAYLOAD_LENGTH \<and> length bytes = length (replicate 8475 (0 :: u8)) \<and>
    configuration_binary_decode no_tls (Some bytes) n (Some zero_configuration) = (CONFIGURATION_BINARY_CODEC_OK, Some d) \<and>
    active_same default_configuration d"
  by (rule configuration_codec_roundtrip [OF default_wf default_OK]) simp

text \<open>
  C26. The payload is canonical: whatever bytes the decoder accepts are exactly the bytes the encoder
  writes for the decoded configuration, so no two payloads decode to the same object and a stored
  payload can be compared byte by byte.
\<close>

theorem accepted_payload_is_canonical:
  assumes "configuration_binary_decode tls (Some bytes) n (Some e) = (CONFIGURATION_BINARY_CODEC_OK, Some d)"
    and "unat n \<le> length bytes" "unat n \<le> length buffer"
  shows "configuration_binary_encode (Some d) (Some buffer) (Some n0) =
    (CONFIGURATION_BINARY_CODEC_OK, Some (overwrite 0 (take (unat n) bytes) buffer), Some n)"
proof -
  have d: "take (unat n) bytes = 2 # fields_enc d" "unat n \<le> 8475" using decode_OK [OF assms(1)] by auto
  then have l: "unat n = 1 + length (fields_enc d)" using assms(2) by (metis One_nat_def length_Cons length_take min.absorb2 plus_1_eq_Suc)
  have n: "n = of_nat (1 + length (fields_enc d))" unfolding l [symmetric] by simp
  have "length (fields_enc d) \<le> 8474" using d l by simp
  from encode_result [OF this, of buffer n0] show ?thesis using assms(3) l unfolding d n [symmetric] by simp
qed

theorem accepted_payload_is_canonical_witness:
  "\<exists>bytes n d. configuration_binary_decode no_tls (Some bytes) n (Some zero_configuration) = (CONFIGURATION_BINARY_CODEC_OK, Some d) \<and>
    configuration_binary_encode (Some d) (Some (replicate 8475 0)) (Some 0) =
      (CONFIGURATION_BINARY_CODEC_OK, Some (overwrite 0 (take (unat n) bytes) (replicate 8475 0)), Some n)"
proof -
  let ?c = default_configuration
  obtain d where d: "configuration_binary_decode no_tls (Some ((2 # fields_enc ?c) @ [])) (of_nat (1 + length (fields_enc ?c))) (Some zero_configuration) =
      (CONFIGURATION_BINARY_CODEC_OK, Some d)"
    using decode_of_encoding [OF default_wf default_OK] by blast
  have l: "length (fields_enc ?c) \<le> 8474" by (rule length_fields_enc [OF valid_fields_ok [OF default_wf default_OK]])
  have u: "unat (of_nat (1 + length (fields_enc ?c)) :: u32) = 1 + length (fields_enc ?c)"
    using l by (simp add: unat_of_nat take_bit_nat_eq_self del: of_nat_Suc of_nat_add)
  show ?thesis
    using d accepted_payload_is_canonical [OF d, of "replicate 8475 0" 0] l u by (metis One_nat_def Suc_le_mono add.commute
        append_Nil2 eval_nat_numeral(3) le_eq_less_or_eq length_Cons length_replicate plus_1_eq_Suc)
qed

text \<open>
  Too small a buffer is reported and never overrun: encoding a valid configuration succeeds exactly when the
  buffer holds its payload; otherwise the result is \<open>BUFFER_TOO_SMALL\<close> and the reported length is zero.
\<close>

theorem encode_needs_capacity:
  assumes "configuration_wf c" "configuration_validate tls (Some c) = CONFIGURATION_VALIDATION_OK"
  shows "fst (configuration_binary_encode (Some c) (Some buffer) (Some n0)) =
      (if 1 + length (fields_enc c) \<le> length buffer then CONFIGURATION_BINARY_CODEC_OK
       else CONFIGURATION_BINARY_CODEC_BUFFER_TOO_SMALL) \<and>
    snd (snd (configuration_binary_encode (Some c) (Some buffer) (Some n0))) =
      Some (if 1 + length (fields_enc c) \<le> length buffer then of_nat (1 + length (fields_enc c)) else 0)"
  using encode_result [OF length_fields_enc [OF valid_fields_ok [OF assms]], of buffer n0] by simp

theorem encode_needs_capacity_witness:
  "fst (configuration_binary_encode (Some default_configuration) (Some []) (Some 0)) = CONFIGURATION_BINARY_CODEC_BUFFER_TOO_SMALL \<and>
   snd (snd (configuration_binary_encode (Some default_configuration) (Some []) (Some 0))) = Some 0"
  using encode_needs_capacity [OF default_wf default_OK, of "[]" 0] by simp

end
