(* ===== verification/Management_Frame.thy ===== *)
theory Management_Frame
  imports Gateway_Prelude
begin

text \<open>
  Model of \<open>app/Management/src/management_frame.c\<close>: the framing of the management protocol on the USB
  byte stream. The parser keeps its whole storage array; \<open>memmove\<close> inside the array is \<open>overwrite\<close>
  of the moved bytes. Lengths are naturals: every length of the source is at most the capacity of
  the storage, so no \<open>uint32_t\<close> operation wraps (\<open>payload_length\<close> is bounded before it is added). The
  handler is a function on the caller's context, which the calls thread through.

  The abstract parser \<open>parse\<close> reads a whole byte sequence at once; the refinement lemmas show that the
  streaming parser delivers the same frames for every fragmentation of the stream.
\<close>

section \<open>Frames and the parser state\<close>

datatype management_frame_result_t =
    MANAGEMENT_FRAME_OK
  | MANAGEMENT_FRAME_INVALID_ARGUMENT
  | MANAGEMENT_FRAME_PAYLOAD_TOO_LONG
  | MANAGEMENT_FRAME_BUFFER_TOO_SMALL

abbreviation "MANAGEMENT_FRAME_MAGIC_LENGTH \<equiv> (4 :: nat)"
abbreviation "MANAGEMENT_FRAME_HEADER_LENGTH \<equiv> (13 :: nat)"
abbreviation "MANAGEMENT_FRAME_CRC_LENGTH \<equiv> (4 :: nat)"
abbreviation "MANAGEMENT_FRAME_MAX_PAYLOAD_LENGTH \<equiv> (8477 :: nat)"
abbreviation "MANAGEMENT_FRAME_MAX_LENGTH \<equiv> (8494 :: nat)"

definition management_frame_magic :: "u8 list" where
  "management_frame_magic = [0x4D, 0x42, 0x47, 0x57]"

text \<open>A frame view: \<open>frame_payload\<close> is the \<open>payload_length\<close> bytes the pointer of the source points to.\<close>

record management_frame_view_t =
  frame_message_type :: u8
  frame_transaction_id :: u32
  frame_payload :: "u8 list"

record management_frame_parser_t =
  parser_storage :: "u8 list ptr"
  parser_capacity :: nat
  parser_length :: nat

section \<open>Little-endian fields\<close>

definition management_frame_write_u16_le :: "u8 list \<Rightarrow> nat \<Rightarrow> u16 \<Rightarrow> u8 list" where
  "management_frame_write_u16_le bytes i v = bytes[i := ucast v, i + 1 := ucast (drop_bit 8 v)]"

definition management_frame_write_u32_le :: "u8 list \<Rightarrow> nat \<Rightarrow> u32 \<Rightarrow> u8 list" where
  "management_frame_write_u32_le bytes i v =
     bytes[i := ucast v, i + 1 := ucast (drop_bit 8 v), i + 2 := ucast (drop_bit 16 v), i + 3 := ucast (drop_bit 24 v)]"

definition management_frame_read_u16_le :: "u8 list \<Rightarrow> nat \<Rightarrow> u16" where
  "management_frame_read_u16_le bytes i = ucast (bytes ! i) OR push_bit 8 (ucast (bytes ! (i + 1)))"

definition management_frame_read_u32_le :: "u8 list \<Rightarrow> nat \<Rightarrow> u32" where
  "management_frame_read_u32_le bytes i =
     ucast (bytes ! i) OR push_bit 8 (ucast (bytes ! (i + 1))) OR push_bit 16 (ucast (bytes ! (i + 2))) OR
     push_bit 24 (ucast (bytes ! (i + 3)))"

section \<open>Checksum\<close>

definition crc32_bit :: "u32 \<Rightarrow> u32" where
  "crc32_bit crc = (if crc AND 1 \<noteq> 0 then drop_bit 1 crc XOR 0xEDB88320 else drop_bit 1 crc)"

definition crc32_byte :: "u32 \<Rightarrow> u8 \<Rightarrow> u32" where
  "crc32_byte crc b = (crc32_bit ^^ 8) (crc XOR ucast b)"

definition management_frame_crc32 :: "u8 list \<Rightarrow> nat \<Rightarrow> u32" where
  "management_frame_crc32 data len = foldl crc32_byte 0xFFFFFFFF (take len data) XOR 0xFFFFFFFF"

section \<open>Finding the start of a frame\<close>

text \<open>\<open>find_magic_from bytes n i\<close> is the loop of \<open>management_frame_find_magic\<close> from index \<open>i\<close> up to \<open>n\<close>.\<close>

fun find_magic_from :: "u8 list \<Rightarrow> nat list \<Rightarrow> nat option" where
  "find_magic_from bytes [] = None"
| "find_magic_from bytes (i # is) =
     (if take MANAGEMENT_FRAME_MAGIC_LENGTH (drop i bytes) = management_frame_magic then Some i
      else find_magic_from bytes is)"

definition management_frame_find_magic :: "u8 list \<Rightarrow> nat \<Rightarrow> nat" where
  "management_frame_find_magic bytes len =
     (if len < MANAGEMENT_FRAME_MAGIC_LENGTH then len
      else (case find_magic_from bytes [0..<len - MANAGEMENT_FRAME_MAGIC_LENGTH + 1] of Some i \<Rightarrow> i | None \<Rightarrow> len))"

fun magic_suffix_from :: "u8 list \<Rightarrow> nat \<Rightarrow> nat \<Rightarrow> nat" where
  "magic_suffix_from bytes len 0 = 0"
| "magic_suffix_from bytes len (Suc c) =
     (if take (Suc c) (drop (len - Suc c) bytes) = take (Suc c) management_frame_magic then Suc c
      else magic_suffix_from bytes len c)"

definition management_frame_magic_suffix_length :: "u8 list \<Rightarrow> nat \<Rightarrow> nat" where
  "management_frame_magic_suffix_length bytes len =
     magic_suffix_from bytes len (min (MANAGEMENT_FRAME_MAGIC_LENGTH - 1) len)"

section \<open>The streaming parser\<close>

text \<open>
  One round of the loop on the storage bytes and the length: the next storage and length, the frame
  handed to the handler if any, and whether the loop goes on.
\<close>

definition move_front :: "nat \<Rightarrow> nat \<Rightarrow> u8 list \<Rightarrow> u8 list" where
  "move_front i n st = overwrite 0 (take n (drop i st)) st"

definition process_at_magic :: "u8 list \<Rightarrow> nat \<Rightarrow> (u8 list \<times> nat) \<times> management_frame_view_t option \<times> bool" where
  "process_at_magic st len =
     (if len < MANAGEMENT_FRAME_HEADER_LENGTH then ((st, len), None, False)
      else
        let payload_length = management_frame_read_u32_le st 9 in
        if unat payload_length > MANAGEMENT_FRAME_MAX_PAYLOAD_LENGTH
        then ((move_front 1 (len - 1) st, len - 1), None, True)
        else
          let expected_length = MANAGEMENT_FRAME_HEADER_LENGTH + unat payload_length + MANAGEMENT_FRAME_CRC_LENGTH in
          if len < expected_length then ((st, len), None, False)
          else
            let expected_crc = management_frame_read_u32_le st (MANAGEMENT_FRAME_HEADER_LENGTH + unat payload_length) in
            if management_frame_crc32 st (MANAGEMENT_FRAME_HEADER_LENGTH + unat payload_length) = expected_crc
            then let frame = \<lparr>frame_message_type = st ! 4, frame_transaction_id = management_frame_read_u32_le st 5,
                              frame_payload = take (unat payload_length) (drop MANAGEMENT_FRAME_HEADER_LENGTH st)\<rparr>;
                     len' = len - expected_length;
                     st' = (if len' \<noteq> 0 then move_front expected_length len' st else st)
                 in ((st', len'), Some frame, len' \<noteq> 0)
            else ((move_front 1 (len - 1) st, len - 1), None, len - 1 \<noteq> 0))"

definition process_round :: "u8 list \<Rightarrow> nat \<Rightarrow> (u8 list \<times> nat) \<times> management_frame_view_t option \<times> bool" where
  "process_round st len =
     (let magic_index = management_frame_find_magic st len in
      if magic_index = len then
        let suffix_length = management_frame_magic_suffix_length st len;
            st' = (if suffix_length \<noteq> 0 then move_front (len - suffix_length) suffix_length st else st)
        in ((st', suffix_length), None, False)
      else
        let len' = (if magic_index \<noteq> 0 then len - magic_index else len);
            st' = (if magic_index \<noteq> 0 then move_front magic_index len' st else st)
        in process_at_magic st' len')"

lemma find_magic_from_less: "find_magic_from bytes is = Some i \<Longrightarrow> i \<in> set is"
  by (induction "is") (auto split: if_splits)

lemma process_round_shrinks: "process_round st len = ((st', len'), f, True) \<Longrightarrow> len' < len"
  by (auto simp: process_round_def process_at_magic_def Let_def split: if_splits)

text \<open>The whole loop; the handler runs inside it, once per frame.\<close>

function process_loop ::
  "(management_frame_view_t \<Rightarrow> 'c \<Rightarrow> 'c) \<Rightarrow> u8 list \<Rightarrow> nat \<Rightarrow> 'c \<Rightarrow> (u8 list \<times> nat) \<times> 'c" where
  "process_loop handler st len context =
     (case process_round st len of ((st', len'), frame, again) \<Rightarrow>
        let context' = (case frame of None \<Rightarrow> context | Some f \<Rightarrow> handler f context) in
        if again then process_loop handler st' len' context' else ((st', len'), context'))"
  by pat_completeness auto
termination
  by (relation "measure (\<lambda>(h, st, len, c). len)") (auto dest: process_round_shrinks [OF sym])

declare process_loop.simps [simp del]

definition management_frame_parser_process ::
  "(management_frame_view_t \<Rightarrow> 'c \<Rightarrow> 'c) \<Rightarrow> management_frame_parser_t \<Rightarrow> 'c \<Rightarrow> management_frame_parser_t \<times> 'c" where
  "management_frame_parser_process handler parser context =
     (case process_loop handler (the (parser_storage parser)) (parser_length parser) context of
        ((st, len), context') \<Rightarrow> (parser\<lparr>parser_storage := Some st, parser_length := len\<rparr>, context'))"

definition management_frame_parser_init ::
  "management_frame_parser_t ptr \<Rightarrow> u8 list ptr \<Rightarrow> nat \<Rightarrow> management_frame_result_t \<times> management_frame_parser_t ptr" where
  "management_frame_parser_init parser st storage_capacity =
     (case (parser, st) of
        (Some p, Some _) \<Rightarrow>
          if storage_capacity < MANAGEMENT_FRAME_MAX_LENGTH then (MANAGEMENT_FRAME_BUFFER_TOO_SMALL, parser)
          else (MANAGEMENT_FRAME_OK, Some \<lparr>parser_storage = st, parser_capacity = storage_capacity, parser_length = 0\<rparr>)
      | _ \<Rightarrow> (MANAGEMENT_FRAME_INVALID_ARGUMENT, parser))"

definition management_frame_parser_reset :: "management_frame_parser_t ptr \<Rightarrow> management_frame_parser_t ptr" where
  "management_frame_parser_reset parser = map_option (parser_length_update (\<lambda>_. 0)) parser"

fun feed_loop ::
  "(management_frame_view_t \<Rightarrow> 'c \<Rightarrow> 'c) \<Rightarrow> management_frame_parser_t \<Rightarrow> u8 list \<Rightarrow> 'c \<Rightarrow>
   management_frame_result_t \<times> management_frame_parser_t \<times> 'c" where
  "feed_loop handler parser [] context = (MANAGEMENT_FRAME_OK, parser, context)"
| "feed_loop handler parser (x # xs) context =
     (if parser_length parser \<ge> parser_capacity parser
      then (MANAGEMENT_FRAME_BUFFER_TOO_SMALL, the (management_frame_parser_reset (Some parser)), context)
      else let parser' = parser\<lparr>parser_storage := Some ((the (parser_storage parser))[parser_length parser := x]), parser_length := parser_length parser + 1\<rparr>
           in case management_frame_parser_process handler parser' context of
                (parser'', context') \<Rightarrow> feed_loop handler parser'' xs context')"

definition management_frame_parser_feed ::
  "management_frame_parser_t ptr \<Rightarrow> u8 list ptr \<Rightarrow> nat \<Rightarrow> (management_frame_view_t \<Rightarrow> 'c \<Rightarrow> 'c) ptr \<Rightarrow> 'c \<Rightarrow>
   management_frame_result_t \<times> management_frame_parser_t ptr \<times> 'c" where
  "management_frame_parser_feed parser data len handler context =
     (case (parser, handler) of
        (Some p, Some h) \<Rightarrow>
          if parser_storage p = None \<or> (data = None \<and> len \<noteq> 0) then (MANAGEMENT_FRAME_INVALID_ARGUMENT, parser, context)
          else (case feed_loop h p (case data of None \<Rightarrow> [] | Some d \<Rightarrow> take len d) context of
                  (res, p', context') \<Rightarrow> (res, Some p', context'))
      | _ \<Rightarrow> (MANAGEMENT_FRAME_INVALID_ARGUMENT, parser, context))"

section \<open>Encoding\<close>

text \<open>The payload argument points to other memory or, as the transport uses it, into the frame buffer itself.\<close>

datatype payload_ref = Separate "u8 list" | Within nat

definition payload_bytes :: "payload_ref \<Rightarrow> u8 list \<Rightarrow> nat \<Rightarrow> u8 list" where
  "payload_bytes ref frame n = (case ref of Separate bs \<Rightarrow> take n bs | Within i \<Rightarrow> take n (drop i frame))"

definition management_frame_encode ::
  "u8 \<Rightarrow> u32 \<Rightarrow> payload_ref ptr \<Rightarrow> nat \<Rightarrow> u8 list ptr \<Rightarrow> nat \<Rightarrow> nat ptr \<Rightarrow>
   management_frame_result_t \<times> u8 list ptr \<times> nat ptr" where
  "management_frame_encode mtype tid pl payload_length frame frame_capacity frame_length =
     (if frame = None \<or> frame_length = None \<or> (pl = None \<and> payload_length \<noteq> 0)
      then (MANAGEMENT_FRAME_INVALID_ARGUMENT, frame, frame_length)
      else if payload_length > MANAGEMENT_FRAME_MAX_PAYLOAD_LENGTH
      then (MANAGEMENT_FRAME_PAYLOAD_TOO_LONG, frame, frame_length)
      else
        let required_length = MANAGEMENT_FRAME_HEADER_LENGTH + payload_length + MANAGEMENT_FRAME_CRC_LENGTH in
        if frame_capacity < required_length then (MANAGEMENT_FRAME_BUFFER_TOO_SMALL, frame, frame_length)
        else
          let buf = the frame;
              f1 = (if payload_length \<noteq> 0
                    then overwrite MANAGEMENT_FRAME_HEADER_LENGTH (payload_bytes (the pl) buf payload_length) buf else buf);
              f2 = overwrite 0 management_frame_magic f1;
              f3 = f2[4 := mtype];
              f4 = management_frame_write_u32_le f3 5 tid;
              f5 = management_frame_write_u32_le f4 9 (of_nat payload_length);
              crc = management_frame_crc32 f5 (MANAGEMENT_FRAME_HEADER_LENGTH + payload_length);
              f6 = management_frame_write_u32_le f5 (MANAGEMENT_FRAME_HEADER_LENGTH + payload_length) crc
          in (MANAGEMENT_FRAME_OK, Some f6, Some required_length))"

section \<open>The abstract parser\<close>

text \<open>
  \<open>compat xs\<close>: \<open>xs\<close> starts with the magic or is the beginning of it, so a frame may start here.
  \<open>resync\<close> drops bytes until that is the case.
\<close>

definition compat :: "u8 list \<Rightarrow> bool" where
  "compat xs \<longleftrightarrow> take 4 xs = take (length xs) management_frame_magic"

fun resync :: "u8 list \<Rightarrow> u8 list" where
  "resync [] = []"
| "resync (x # xs) = (if compat (x # xs) then x # xs else resync xs)"

lemma length_magic [simp]: "length management_frame_magic = 4"
  by (simp add: management_frame_magic_def)

lemma length_resync: "length (resync xs) \<le> length xs"
  by (induction xs) auto

definition frame_of :: "u8 list \<Rightarrow> nat \<Rightarrow> management_frame_view_t" where
  "frame_of b n = \<lparr>frame_message_type = b ! 4, frame_transaction_id = management_frame_read_u32_le b 5,
     frame_payload = take n (drop MANAGEMENT_FRAME_HEADER_LENGTH b)\<rparr>"

abbreviation crc_matches :: "u8 list \<Rightarrow> nat \<Rightarrow> bool" where
  "crc_matches b n \<equiv> management_frame_crc32 b (MANAGEMENT_FRAME_HEADER_LENGTH + n) =
     management_frame_read_u32_le b (MANAGEMENT_FRAME_HEADER_LENGTH + n)"

function parse :: "u8 list \<Rightarrow> management_frame_view_t list \<times> u8 list" where
  "parse xs =
     (let b = resync xs; n = unat (management_frame_read_u32_le b 9) in
      if length b < MANAGEMENT_FRAME_HEADER_LENGTH then ([], b)
      else if n > MANAGEMENT_FRAME_MAX_PAYLOAD_LENGTH then parse (tl b)
      else if length b < 17 + n then ([], b)
      else if crc_matches b n then (case parse (drop (17 + n) b) of (fs, r) \<Rightarrow> (frame_of b n # fs, r))
      else parse (tl b))"
  by pat_completeness auto
termination
proof (relation "measure length", goal_cases)
  case (2 xs b n)
  then show ?case using length_resync [of xs] by (cases b) auto
next
  case (3 xs b n)
  then show ?case using length_resync [of xs] by (auto simp: not_less)
next
  case (4 xs b n)
  then show ?case using length_resync [of xs] by (cases b) auto
qed simp

declare parse.simps [simp del]

lemma compat_append: "compat (xs @ ys) \<Longrightarrow> compat xs"
proof -
  assume "compat (xs @ ys)"
  then have "take (length xs) (take 4 (xs @ ys)) = take (length xs) (take (length xs + length ys) management_frame_magic)"
    by (simp add: compat_def)
  then show "compat xs" by (simp add: compat_def min_def take_append split: if_splits)
qed

lemma resync_append: "resync (xs @ ys) = resync (resync xs @ ys)"
  by (induction xs) (auto dest: compat_append [of "_ # _" ys, simplified])

lemma resync_compat: "resync xs = [] \<or> compat (resync xs)"
  by (induction xs) auto

lemma resync_suffix: "\<exists>ns. xs = ns @ resync xs"
proof (induction xs)
  case (Cons x xs)
  then show ?case by (metis append_Cons append_Nil resync.simps(2))
qed simp

lemma resync_id: "compat xs \<Longrightarrow> resync xs = xs"
  by (cases xs) auto

lemma compat_long: "4 \<le> length xs \<Longrightarrow> compat xs \<longleftrightarrow> take 4 xs = management_frame_magic"
  by (simp add: compat_def)

lemma resync_long_append: "4 \<le> length (resync xs) \<Longrightarrow> resync (xs @ ys) = resync xs @ ys"
  using resync_compat [of xs] by (subst resync_append) (auto simp: compat_long intro!: resync_id)

lemma read_u32_append: "i + 3 < length b \<Longrightarrow> management_frame_read_u32_le (b @ ys) i = management_frame_read_u32_le b i"
  by (simp add: management_frame_read_u32_le_def nth_append)

lemma crc32_append: "n \<le> length b \<Longrightarrow> management_frame_crc32 (b @ ys) n = management_frame_crc32 b n"
  by (simp add: management_frame_crc32_def)

lemma frame_of_append: "13 + n \<le> length b \<Longrightarrow> frame_of (b @ ys) n = frame_of b n"
  by (simp add: frame_of_def read_u32_append nth_append)

lemma parse_resync: "parse (resync xs) = parse xs"
  by (subst (1 2) parse.simps) (use resync_compat [of xs] in \<open>auto simp: resync_id\<close>)

text \<open>Parsing a stream piecewise gives the frames of the whole.\<close>

lemma parse_append:
  "parse (xs @ ys) = (case parse xs of (fs, r) \<Rightarrow> case parse (r @ ys) of (gs, r') \<Rightarrow> (fs @ gs, r'))"
proof (induction xs rule: parse.induct)
  case (1 xs)
  let ?b = "resync xs" and ?n = "unat (management_frame_read_u32_le (resync xs) 9)"
  show ?case
  proof (cases "length ?b < 13")
    case True
    then have "parse xs = ([], ?b)" by (subst parse.simps) (simp add: Let_def)
    moreover have "parse (xs @ ys) = parse (?b @ ys)" by (metis parse_resync resync_append)
    ultimately show ?thesis by (simp split: prod.splits)
  next
    case long: False
    have b: "resync (xs @ ys) = ?b @ ys" using long by (intro resync_long_append) simp
    have r: "management_frame_read_u32_le (?b @ ys) 9 = management_frame_read_u32_le ?b 9"
      using long by (intro read_u32_append) simp
    have tl: "tl (?b @ ys) = tl ?b @ ys" using long by (cases ?b) auto
    show ?thesis
    proof (cases "?n > 8477")
      case True
      have "parse (xs @ ys) = parse (tl ?b @ ys)" using long True by (subst parse.simps) (simp add: Let_def b r tl)
      moreover have "parse xs = parse (tl ?b)" using long True by (subst parse.simps) (simp add: Let_def)
      ultimately show ?thesis using 1(1) [OF refl refl] long True by simp
    next
      case small: False
      show ?thesis
      proof (cases "length ?b < 17 + ?n")
        case True
        then have "parse xs = ([], ?b)" using long small by (subst parse.simps) (simp add: Let_def)
        moreover have "parse (xs @ ys) = parse (?b @ ys)" by (metis parse_resync resync_append)
        ultimately show ?thesis by (simp split: prod.splits)
      next
        case full: False
        have c: "crc_matches (?b @ ys) ?n \<longleftrightarrow> crc_matches ?b ?n"
          using full by (simp add: crc32_append read_u32_append)
        show ?thesis
        proof (cases "crc_matches ?b ?n")
          case True
          have "parse (xs @ ys) = (case parse (drop (17 + ?n) ?b @ ys) of (fs, r) \<Rightarrow> (frame_of ?b ?n # fs, r))"
            using long small full True c frame_of_append [of ?n ?b ys]
            by (subst parse.simps) (simp add: Let_def b r)
          moreover have "parse xs = (case parse (drop (17 + ?n) ?b) of (fs, r) \<Rightarrow> (frame_of ?b ?n # fs, r))"
            using long small full True by (subst parse.simps) (simp add: Let_def)
          ultimately show ?thesis using 1(2) [OF refl refl] long small full True by (simp split: prod.splits)
        next
          case False
          have "parse (xs @ ys) = parse (tl ?b @ ys)"
            using long small full False c by (subst parse.simps) (simp add: Let_def b r tl)
          moreover have "parse xs = parse (tl ?b)"
            using long small full False by (subst parse.simps) (simp add: Let_def)
          ultimately show ?thesis using 1(3) [OF refl refl] long small full False by simp
        qed
      qed
    qed
  qed
qed

text \<open>What is left after parsing is shorter than a frame, and parsing it again changes nothing.\<close>

lemma parse_rest: "parse xs = (fs, r) \<Longrightarrow> length r < MANAGEMENT_FRAME_MAX_LENGTH \<and> parse r = ([], r)"
proof (induction xs arbitrary: fs r rule: parse.induct)
  case (1 xs)
  have rr: "resync (resync xs) = resync xs" using resync_compat [of xs] by (auto simp: resync_id)
  show ?case
    using 1(4) 1(1) [OF refl refl] 1(2) [OF refl refl] 1(3) [OF refl refl]
    by (subst (asm) parse.simps) (auto simp: Let_def rr parse.simps [of "resync xs"] split: if_splits prod.splits)
qed

section \<open>The streaming parser refines the abstract one\<close>

lemma resync_first:
  "i \<le> length xs \<Longrightarrow> compat (drop i xs) \<Longrightarrow> \<forall>j < i. \<not> compat (drop j xs) \<Longrightarrow> resync xs = drop i xs"
proof (induction xs arbitrary: i)
  case (Cons x xs)
  show ?case
  proof (cases i)
    case (Suc k)
    then have "\<not> compat (x # xs)" "\<forall>j < k. \<not> compat (drop j xs)" using Cons.prems(3) by auto
    then show ?thesis using Cons Suc by simp
  qed (use Cons.prems in simp)
qed simp

lemma find_magic_from_Some:
  "find_magic_from bytes [a..<a + m] = Some i \<Longrightarrow>
   i < a + m \<and> take 4 (drop i bytes) = management_frame_magic \<and> (\<forall>j. a \<le> j \<and> j < i \<longrightarrow> take 4 (drop j bytes) \<noteq> management_frame_magic)"
proof (induction m arbitrary: a)
  case (Suc m)
  have e: "[a..<a + Suc m] = a # [Suc a..<Suc a + m]" by (simp add: upt_conv_Cons del: upt_Suc)
  show ?case
  proof (cases "take 4 (drop a bytes) = management_frame_magic")
    case True
    then show ?thesis using Suc.prems unfolding e by auto
  next
    case False
    then have "find_magic_from bytes [Suc a..<Suc a + m] = Some i" using Suc.prems unfolding e by simp
    from Suc.IH [OF this] False show ?thesis by (metis Suc_leI add_Suc_shift le_neq_implies_less)
  qed
qed simp

lemma find_magic_from_None:
  "find_magic_from bytes is = None \<Longrightarrow> i \<in> set is \<Longrightarrow> take 4 (drop i bytes) \<noteq> management_frame_magic"
  by (induction "is") (auto split: if_splits)

lemma magic_suffix_from_spec:
  "magic_suffix_from bytes n c = k \<Longrightarrow> k \<le> c \<and> take k (drop (n - k) bytes) = take k management_frame_magic \<and>
   (\<forall>k'. k < k' \<and> k' \<le> c \<longrightarrow> take k' (drop (n - k') bytes) \<noteq> take k' management_frame_magic)"
  by (induction c) (auto simp: le_Suc_eq split: if_splits)

lemma compat_at: "i + 4 \<le> len \<Longrightarrow> len \<le> length st \<Longrightarrow>
  compat (drop i (take len st)) \<longleftrightarrow> take 4 (drop i st) = management_frame_magic"
  by (simp add: compat_long take_drop min_def)

lemma compat_near_end:
  assumes "k \<le> 3" "k \<le> len" "len \<le> length st"
  shows "compat (drop (len - k) (take len st)) \<longleftrightarrow> take k (drop (len - k) st) = take k management_frame_magic"
proof -
  have "drop (len - k) (take len st) = take k (drop (len - k) st)" using assms by (simp add: drop_take)
  moreover have "length (take k (drop (len - k) st)) = k" using assms by simp
  moreover have "take 4 (take k (drop (len - k) st)) = take k (drop (len - k) st)" using assms by (simp add: min_def)
  ultimately show ?thesis by (simp only: compat_def)
qed

lemma find_magic_found:
  assumes "len \<le> length st" "management_frame_find_magic st len = i" "i \<noteq> len"
  shows "i + 4 \<le> len \<and> resync (take len st) = drop i (take len st)"
proof -
  have f: "4 \<le> len" "find_magic_from st [0..<0 + (len - 4 + 1)] = Some i"
    using assms(2,3) by (auto simp: management_frame_find_magic_def simp del: upt_Suc split: if_splits option.splits)
  from find_magic_from_Some [OF f(2)] f(1) have i: "i + 4 \<le> len" "take 4 (drop i st) = management_frame_magic"
    "\<forall>j < i. take 4 (drop j st) \<noteq> management_frame_magic" by auto
  then have "compat (drop i (take len st))" "\<forall>j < i. \<not> compat (drop j (take len st))"
    using assms(1) by (auto simp: compat_at)
  then show ?thesis using i(1) assms(1) by (auto intro!: resync_first)
qed

lemma find_magic_not_found:
  assumes "len \<le> length st" "management_frame_find_magic st len = len"
    and "management_frame_magic_suffix_length st len = k"
  shows "k \<le> 3 \<and> k \<le> len \<and> resync (take len st) = drop (len - k) (take len st)"
proof -
  have k: "k \<le> min 3 len" "take k (drop (len - k) st) = take k management_frame_magic"
    "\<forall>k'. k < k' \<and> k' \<le> min 3 len \<longrightarrow> take k' (drop (len - k') st) \<noteq> take k' management_frame_magic"
    using magic_suffix_from_spec [of st len "min 3 len" k] assms(3)
    unfolding management_frame_magic_suffix_length_def by simp_all
  have n: "take 4 (drop j st) \<noteq> management_frame_magic" if "j + 4 \<le> len" for j
  proof
    assume m: "take 4 (drop j st) = management_frame_magic"
    have "4 \<le> len" using that by simp
    then show False
    proof (cases "find_magic_from st [0..<len - 4 + 1]")
      case None
      moreover have "j \<in> set [0..<len - 4 + 1]" using that by (simp del: upt_Suc)
      ultimately show ?thesis using find_magic_from_None m by blast
    next
      case (Some i)
      then show ?thesis using assms(2) \<open>4 \<le> len\<close> find_magic_from_less [OF Some]
        by (simp add: management_frame_find_magic_def del: upt_Suc)
    qed
  qed
  have "\<not> compat (drop j (take len st))" if "j < len - k" for j
  proof (cases "j + 4 \<le> len")
    case True
    then show ?thesis using n assms(1) by (simp add: compat_at)
  next
    case False
    then have "k < len - j" "len - j \<le> min 3 len" "len - (len - j) = j" using that by auto
    then show ?thesis using k(3) compat_near_end [of "len - j" len st] assms(1) by auto
  qed
  moreover have "compat (drop (len - k) (take len st))" using k assms(1) by (simp add: compat_near_end)
  ultimately show ?thesis using k assms(1) by (auto intro!: resync_first)
qed

lemma take_move_front: "i + n \<le> length st \<Longrightarrow> take n (move_front i n st) = take n (drop i st)"
  using take_overwrite_0 [of "take n (drop i st)" st] by (simp add: move_front_def)

lemma length_move_front [simp]: "i + n \<le> length st \<Longrightarrow> length (move_front i n st) = length st"
  by (simp add: move_front_def)

lemma read_u32_take: "i + 3 < len \<Longrightarrow> len \<le> length st \<Longrightarrow>
  management_frame_read_u32_le st i = management_frame_read_u32_le (take len st) i"
  by (simp add: management_frame_read_u32_le_def)

lemma crc32_take: "n \<le> len \<Longrightarrow> management_frame_crc32 st n = management_frame_crc32 (take len st) n"
  by (simp add: management_frame_crc32_def min_def)

lemma frame_of_take: "13 + n \<le> len \<Longrightarrow> len \<le> length st \<Longrightarrow> frame_of (take len st) n = frame_of st n"
  using frame_of_append [of n "take len st" "drop len st"] by simp

lemma crc_matches_take: "17 + n \<le> len \<Longrightarrow> len \<le> length st \<Longrightarrow> crc_matches (take len st) n \<longleftrightarrow> crc_matches st n"
  using crc32_append [of "13 + n" "take len st" "drop len st"] read_u32_append [of "13 + n" "take len st" "drop len st"] by simp

text \<open>The synchronised state inside a round: the storage after the bytes before the magic are dropped.\<close>

lemma round_sync:
  assumes "len \<le> length st" "management_frame_find_magic st len = i" "i \<noteq> len"
  defines "len1 \<equiv> (if i \<noteq> 0 then len - i else len)" and "st1 \<equiv> (if i \<noteq> 0 then move_front i (len - i) st else st)"
  shows "len1 \<le> length st1 \<and> length st1 = length st \<and> take len1 st1 = resync (take len st) \<and> 4 \<le> len1"
proof -
  have f: "i + 4 \<le> len" "resync (take len st) = take (len - i) (drop i st)"
    using find_magic_found [OF assms(1-3)] by (simp_all add: drop_take)
  show ?thesis
  proof (cases "i = 0")
    case False
    then have "take (len - i) (move_front i (len - i) st) = take (len - i) (drop i st)"
      using f(1) assms(1) by (intro take_move_front) simp
    moreover have "len - i \<le> length st" "4 \<le> len - i" using f(1) assms(1) by linarith+
    ultimately show ?thesis using False f assms(1) by (simp add: len1_def st1_def)
  qed (use f assms(1) in \<open>simp add: len1_def st1_def\<close>)
qed

lemma tl_take_move: "0 < len \<Longrightarrow> len \<le> length st \<Longrightarrow> take (len - 1) (move_front 1 (len - 1) st) = tl (take len st)"
  using take_move_front [of 1 "len - 1" st] by (simp add: drop_Suc tl_take)

lemma drop_take_move: "k \<le> len \<Longrightarrow> len \<le> length st \<Longrightarrow> take (len - k) (move_front k (len - k) st) = drop k (take len st)"
  using take_move_front [of k "len - k" st] by (simp add: drop_take)

definition frame_list :: "'a option \<Rightarrow> 'a list" where
  "frame_list f = (case f of None \<Rightarrow> [] | Some x \<Rightarrow> [x])"

lemma process_at_magic_cases:
  "process_at_magic st len = (let n = unat (management_frame_read_u32_le st 9) in
     if len < 13 then ((st, len), None, False)
     else if n > 8477 then ((move_front 1 (len - 1) st, len - 1), None, True)
     else if len < 17 + n then ((st, len), None, False)
     else if crc_matches st n
     then ((if len - (17 + n) \<noteq> 0 then move_front (17 + n) (len - (17 + n)) st else st, len - (17 + n)),
           Some (frame_of st n), len - (17 + n) \<noteq> 0)
     else ((move_front 1 (len - 1) st, len - 1), None, len - 1 \<noteq> 0))"
  by (simp add: process_at_magic_def Let_def frame_of_def)

lemma round_refines:
  assumes len: "len \<le> length st" and r: "process_round st len = ((st', len'), f, again)"
  shows "len' \<le> length st' \<and> length st' = length st \<and>
    parse (take len st) = (if again then (case parse (take len' st') of (fs, r) \<Rightarrow> (frame_list f @ fs, r))
                           else (frame_list f, take len' st'))"
proof (cases "management_frame_find_magic st len = len")
  case True
  let ?k = "management_frame_magic_suffix_length st len"
  have k: "?k \<le> 3" "?k \<le> len" "resync (take len st) = drop (len - ?k) (take len st)"
    using find_magic_not_found [OF len True refl] by auto
  have b: "resync (take len st) = take ?k (drop (len - ?k) st)" using k by (simp add: drop_take)
  have "f = None" "again = False" "len' = ?k" "st' = (if ?k \<noteq> 0 then move_front (len - ?k) ?k st else st)"
    using r True by (auto simp: process_round_def Let_def)
  moreover have "parse (take len st) = ([], take ?k (drop (len - ?k) st))"
    using k len by (subst parse.simps) (simp add: Let_def b)
  ultimately show ?thesis using k len take_move_front [of "len - ?k" ?k st] by (auto simp: frame_list_def)
next
  case False
  let ?i = "management_frame_find_magic st len"
  define len1 where "len1 = (if ?i \<noteq> 0 then len - ?i else len)"
  define st1 where "st1 = (if ?i \<noteq> 0 then move_front ?i (len - ?i) st else st)"
  let ?n = "unat (management_frame_read_u32_le st1 9)"
  have sy: "len1 \<le> length st1" "length st1 = length st" "take len1 st1 = resync (take len st)" "4 \<le> len1"
    using round_sync [OF len refl False] by (simp_all add: len1_def st1_def)
  have lb: "length (resync (take len st)) = len1" using sy by (metis length_take min.absorb2)
  have "process_round st len = process_at_magic st1 len1"
    using False by (auto simp: process_round_def Let_def len1_def st1_def)
  then have r': "((st', len'), f, again) = process_at_magic st1 len1" using r by simp
  note r' = r' [unfolded process_at_magic_cases Let_def]
  show ?thesis
  proof (cases "len1 < 13")
    case True
    have "parse (take len st) = ([], take len1 st1)" using True lb by (subst parse.simps) (simp add: Let_def sy)
    then show ?thesis using r' True sy by (simp add: frame_list_def)
  next
    case long: False
    have n: "unat (management_frame_read_u32_le (resync (take len st)) 9) = ?n"
      using read_u32_take [of 9 len1 st1] long sy by simp
    have tl: "take (len1 - 1) (move_front 1 (len1 - 1) st1) = tl (resync (take len st))"
      using tl_take_move [of len1 st1] long sy by simp
    have ml: "length (move_front 1 (len1 - 1) st1) = length st" using long sy by simp
    consider (toolong) "?n > 8477" | (short) "?n \<le> 8477" "len1 < 17 + ?n"
      | (good) "?n \<le> 8477" "17 + ?n \<le> len1" "crc_matches st1 ?n" | (bad) "?n \<le> 8477" "17 + ?n \<le> len1" "\<not> crc_matches st1 ?n"
      by linarith
    then show ?thesis
    proof cases
      case toolong
      have "parse (take len st) = parse (tl (resync (take len st)))"
        using toolong long lb n by (subst parse.simps) (simp add: Let_def)
      then show ?thesis using r' toolong long sy tl ml by (simp add: frame_list_def)
    next
      case short
      have "parse (take len st) = ([], take len1 st1)" using short long lb n by (subst parse.simps) (simp add: Let_def sy)
      then show ?thesis using r' short long sy by (simp add: frame_list_def)
    next
      case good
      let ?b = "resync (take len st)"
      have c: "crc_matches ?b ?n" "frame_of ?b ?n = frame_of st1 ?n"
        using good sy(1) crc_matches_take [of ?n len1 st1] frame_of_take [of ?n len1 st1] unfolding sy(3) by simp_all
      have p: "parse (take len st) = (case parse (drop (17 + ?n) ?b) of (fs, r) \<Rightarrow> (frame_of st1 ?n # fs, r))"
        using good long lb n c by (subst parse.simps) (simp add: Let_def)
      have d: "take (len1 - (17 + ?n)) (move_front (17 + ?n) (len1 - (17 + ?n)) st1) = drop (17 + ?n) ?b"
        using drop_take_move [of "17 + ?n" len1 st1] good sy by simp
      show ?thesis
      proof (cases "len1 - (17 + ?n) = 0")
        case True
        then have "drop (17 + ?n) ?b = []" using lb by simp
        moreover have "parse [] = ([], [])" by (subst parse.simps) (simp add: Let_def)
        ultimately show ?thesis using p r' good long True sy by (simp add: frame_list_def)
      next
        case rest: False
        have "length (move_front (17 + ?n) (len1 - (17 + ?n)) st1) = length st" using good sy by simp
        then show ?thesis using p d r' good long rest sy by (simp add: frame_list_def)
      qed
    next
      case bad
      have c: "\<not> crc_matches (resync (take len st)) ?n"
        using bad sy(1) crc_matches_take [of ?n len1 st1] unfolding sy(3) by simp
      have "parse (take len st) = parse (tl (resync (take len st)))"
        using bad long lb n c by (subst parse.simps) (simp add: Let_def)
      then show ?thesis using r' bad long sy tl ml by (auto simp: frame_list_def split: prod.splits)
    qed
  qed
qed

lemma process_refines:
  "len \<le> length st \<Longrightarrow> process_loop h st len c = ((st', len'), c') \<Longrightarrow>
   len' \<le> length st' \<and> length st' = length st \<and> (\<exists>fs. parse (take len st) = (fs, take len' st') \<and> c' = fold h fs c)"
proof (induction h st len c arbitrary: st' len' c' rule: process_loop.induct)
  case (1 h st len c)
  obtain st1 len1 f again where r: "process_round st len = ((st1, len1), f, again)" by (metis prod.collapse)
  note rr = round_refines [OF 1(2) r]
  let ?c = "case f of None \<Rightarrow> c | Some f \<Rightarrow> h f c"
  have c: "?c = fold h (frame_list f) c" by (simp add: frame_list_def split: option.splits)
  have eq: "((st', len'), c') = (if again then process_loop h st1 len1 ?c else ((st1, len1), ?c))"
    using 1(3) by (subst (asm) process_loop.simps) (simp add: r Let_def)
  show ?case
  proof (cases again)
    case True
    have "len1 \<le> length st1" using rr by simp
    have e: "process_loop h st1 len1 ?c = ((st', len'), c')" using eq True by simp
    from 1(1) [OF r [symmetric] refl refl refl True \<open>len1 \<le> length st1\<close> e]
    have "len' \<le> length st'" "length st' = length st1"
      "\<exists>fs. parse (take len1 st1) = (fs, take len' st') \<and> c' = fold h fs ?c" by auto
    then show ?thesis using rr True c by auto
  next
    case False
    then show ?thesis using eq rr c by auto
  qed
qed

text \<open>
  The interface a stream consumer relies on: feeding bytes is total, keeps the invariant, and the
  frames handed over are a function of the bytes received since the last reset, however they were cut.
\<close>

fun feed_all :: "('p \<Rightarrow> 'b list \<Rightarrow> 'p \<times> 'f list) \<Rightarrow> 'p \<Rightarrow> 'b list list \<Rightarrow> 'p \<times> 'f list" where
  "feed_all feed p [] = (p, [])"
| "feed_all feed p (xs # xss) = (case feed p xs of (p1, fs) \<Rightarrow> case feed_all feed p1 xss of (p2, gs) \<Rightarrow> (p2, fs @ gs))"

locale stream_parser =
  fixes feed :: "'p \<Rightarrow> 'b list \<Rightarrow> 'p \<times> 'f list" and rest :: "'p \<Rightarrow> 'b list" and inv :: "'p \<Rightarrow> bool"
    and frames :: "'b list \<Rightarrow> 'f list \<times> 'b list"
  assumes feed_inv: "inv p \<Longrightarrow> inv (fst (feed p xs))"
    and feed_frames: "inv p \<Longrightarrow> frames (rest p @ xs) = (snd (feed p xs), rest (fst (feed p xs)))"
    and frames_append: "frames (xs @ ys) = (case frames xs of (fs, r) \<Rightarrow> case frames (r @ ys) of (gs, r') \<Rightarrow> (fs @ gs, r'))"
begin

lemma feed_all_frames:
  "inv p \<Longrightarrow> frames (rest p) = ([], rest p) \<Longrightarrow>
   inv (fst (feed_all feed p xss)) \<and> frames (rest p @ concat xss) = (snd (feed_all feed p xss), rest (fst (feed_all feed p xss)))"
proof (induction xss arbitrary: p)
  case (Cons xs xss)
  obtain p1 fs where f: "feed p xs = (p1, fs)" by (cases "feed p xs")
  have i: "inv p1" using feed_inv [OF Cons.prems(1), of xs] f by simp
  have a: "frames (rest p @ xs) = (fs, rest p1)" using feed_frames [OF Cons.prems(1), of xs] f by simp
  have "frames (rest p1 @ []) = ([], rest p1)"
    using frames_append [of "rest p @ xs" "[]"] a by (simp split: prod.splits)
  then have "frames (rest p1) = ([], rest p1)" by simp
  from Cons.IH [OF i this] obtain p2 gs where g: "feed_all feed p1 xss = (p2, gs)" "inv p2" "frames (rest p1 @ concat xss) = (gs, rest p2)"
    by (cases "feed_all feed p1 xss") auto
  then show ?case using frames_append [of "rest p @ xs" "concat xss"] a f by simp
qed simp

end

section \<open>Feeding\<close>

definition parser_rest :: "management_frame_parser_t \<Rightarrow> u8 list" where
  "parser_rest p = take (parser_length p) (the (parser_storage p))"

definition parser_inv :: "management_frame_parser_t \<Rightarrow> bool" where
  "parser_inv p \<longleftrightarrow> (\<exists>st. parser_storage p = Some st \<and> length st = parser_capacity p) \<and>
     MANAGEMENT_FRAME_MAX_LENGTH \<le> parser_capacity p \<and> parser_length p < MANAGEMENT_FRAME_MAX_LENGTH"

lemma feed_byte:
  assumes "parser_inv p"
  shows "\<exists>p' fs. management_frame_parser_process h
      (p\<lparr>parser_storage := Some ((the (parser_storage p))[parser_length p := x]), parser_length := parser_length p + 1\<rparr>) c =
        (p', fold h fs c) \<and> parser_inv p' \<and> parse (parser_rest p @ [x]) = (fs, parser_rest p')"
proof -
  obtain st where st: "parser_storage p = Some st" "length st = parser_capacity p" "8494 \<le> parser_capacity p"
    "parser_length p < 8494" using assms by (auto simp: parser_inv_def)
  let ?st = "st[parser_length p := x]" and ?n = "parser_length p + 1"
  have t: "take ?n ?st = parser_rest p @ [x]" using st by (simp add: parser_rest_def take_Suc_conv_app_nth)
  obtain st' len' c' where l: "process_loop h ?st ?n c = ((st', len'), c')" by (metis prod.collapse)
  have "?n \<le> length ?st" using st by simp
  from process_refines [OF this l] obtain fs where fs: "len' \<le> length st'" "length st' = length ?st"
    "parse (parser_rest p @ [x]) = (fs, take len' st')" "c' = fold h fs c" unfolding t by auto
  have "length (take len' st') < 8494" using parse_rest [OF fs(3)] by simp
  then show ?thesis
    using l fs st by (auto simp: management_frame_parser_process_def parser_inv_def parser_rest_def)
qed

lemma feed_loop_refines:
  "parser_inv p \<Longrightarrow> parse (parser_rest p) = ([], parser_rest p) \<Longrightarrow>
   \<exists>p' fs. feed_loop h p xs c = (MANAGEMENT_FRAME_OK, p', fold h fs c) \<and> parser_inv p' \<and>
     parse (parser_rest p @ xs) = (fs, parser_rest p')"
proof (induction xs arbitrary: p c)
  case (Cons x xs)
  obtain p1 fs where 1: "management_frame_parser_process h
      (p\<lparr>parser_storage := Some ((the (parser_storage p))[parser_length p := x]), parser_length := parser_length p + 1\<rparr>) c =
        (p1, fold h fs c)" "parser_inv p1" "parse (parser_rest p @ [x]) = (fs, parser_rest p1)"
    using feed_byte [OF Cons.prems(1), of h x c] by blast
  have "parse (parser_rest p1) = ([], parser_rest p1)" using parse_rest [OF 1(3)] by simp
  from Cons.IH [OF 1(2) this] obtain p2 gs where 2: "feed_loop h p1 xs (fold h fs c) = (MANAGEMENT_FRAME_OK, p2, fold h gs (fold h fs c))"
    "parser_inv p2" "parse (parser_rest p1 @ xs) = (gs, parser_rest p2)" by blast
  have "parse (parser_rest p @ x # xs) = (fs @ gs, parser_rest p2)"
    using parse_append [of "parser_rest p @ [x]" xs] 1(3) 2(3) by simp
  moreover have "parser_length p < parser_capacity p" using Cons.prems(1) by (auto simp: parser_inv_def)
  ultimately show ?case using 1(1) 2 by (auto simp: Let_def intro!: exI [of _ p2] exI [of _ "fs @ gs"])
qed simp

text \<open>One call of the feed function with a handler that logs the frames.\<close>

definition feed_log :: "management_frame_parser_t \<Rightarrow> u8 list \<Rightarrow> management_frame_parser_t \<times> management_frame_view_t list" where
  "feed_log p xs =
     (case management_frame_parser_feed (Some p) (Some xs) (length xs) (Some (\<lambda>f fs. fs @ [f])) [] of
        (res, p', fs) \<Rightarrow> (the p', fs))"

lemma fold_log: "fold (\<lambda>f fs. fs @ [f]) gs fs = fs @ gs"
  by (induction gs arbitrary: fs) auto

lemma feed_log_refines:
  assumes "parser_inv p" "parse (parser_rest p) = ([], parser_rest p)"
  shows "parser_inv (fst (feed_log p xs)) \<and> parse (parser_rest p @ xs) = (snd (feed_log p xs), parser_rest (fst (feed_log p xs)))"
  using feed_loop_refines [OF assms, of "\<lambda>f fs. fs @ [f]" xs "[]"] assms(1)
  by (auto simp: feed_log_def management_frame_parser_feed_def parser_inv_def fold_log)

interpretation management: stream_parser feed_log parser_rest
  "\<lambda>p. parser_inv p \<and> parse (parser_rest p) = ([], parser_rest p)" parse
proof
  fix p xs ys
  assume p: "parser_inv p \<and> parse (parser_rest p) = ([], parser_rest p)"
  then show "parse (parser_rest p @ xs) = (snd (feed_log p xs), parser_rest (fst (feed_log p xs)))"
    using feed_log_refines by blast
  then show "parser_inv (fst (feed_log p xs)) \<and> parse (parser_rest (fst (feed_log p xs))) = ([], parser_rest (fst (feed_log p xs)))"
    using feed_log_refines [of p xs] p parse_rest by blast
qed (rule parse_append)

section \<open>Frames on the wire\<close>

definition frame_body :: "management_frame_view_t \<Rightarrow> u8 list" where
  "frame_body f = management_frame_magic @ [frame_message_type f] @ le32 (frame_transaction_id f) @
     le32 (of_nat (length (frame_payload f))) @ frame_payload f"

definition frame_bytes :: "management_frame_view_t \<Rightarrow> u8 list" where
  "frame_bytes f = frame_body f @ le32 (management_frame_crc32 (frame_body f) (length (frame_body f)))"

lemma length_frame_body [simp]: "length (frame_body f) = 13 + length (frame_payload f)"
  by (simp add: frame_body_def)

lemma length_frame_bytes [simp]: "length (frame_bytes f) = 17 + length (frame_payload f)"
  by (simp add: frame_bytes_def)

lemma join32_or: "ucast a OR push_bit 8 (ucast b) OR push_bit 16 (ucast c) OR push_bit 24 (ucast d) = join32 a b c d"
  by (simp add: join32_def)

lemma read_u32_at: 
  assumes "length xs = i"
  shows "management_frame_read_u32_le (xs @ le32 v @ ys) i = v"
proof -
  have n: "(xs @ le32 v @ ys) ! (i + k) = byte_at k v" if "k \<in> {0, 1, 2, 3}" for k
    using that assms by (auto simp: nth_append le32_def numeral_eq_Suc)
  show ?thesis
    using n [of 0] n [of 1] n [of 2] n [of 3]
    unfolding management_frame_read_u32_le_def join32_or by (simp only: insert_iff simp_thms join32_byte_at add_0_right)
qed

lemma read_frame:
  "management_frame_read_u32_le (frame_bytes f @ ys) 5 = frame_transaction_id f"
  "management_frame_read_u32_le (frame_bytes f @ ys) 9 = of_nat (length (frame_payload f))"
  using read_u32_at [of "management_frame_magic @ [frame_message_type f]" 5]
    read_u32_at [of "management_frame_magic @ [frame_message_type f] @ le32 (frame_transaction_id f)" 9]
  by (simp_all add: frame_bytes_def frame_body_def)

lemma parse_frame:
  assumes "length (frame_payload f) \<le> MANAGEMENT_FRAME_MAX_PAYLOAD_LENGTH"
  shows "parse (frame_bytes f @ ys) = (f # fst (parse ys), snd (parse ys))"
proof -
  let ?b = "frame_bytes f @ ys" and ?n = "length (frame_payload f)"
  have "compat ?b" by (simp add: compat_long frame_bytes_def frame_body_def)
  then have s: "resync ?b = ?b" by (rule resync_id)
  have n: "unat (management_frame_read_u32_le ?b 9) = ?n"
    using assms by (simp add: read_frame unat_of_nat take_bit_nat_eq_self)
  have "management_frame_crc32 ?b (13 + ?n) = management_frame_crc32 (frame_body f) (13 + ?n)"
    using crc32_append [of "13 + ?n" "frame_body f"] by (simp add: frame_bytes_def)
  moreover have "management_frame_read_u32_le ?b (13 + ?n) = management_frame_crc32 (frame_body f) (13 + ?n)"
    using read_u32_at [of "frame_body f" "13 + ?n"] by (simp add: frame_bytes_def)
  ultimately have c: "crc_matches ?b ?n" by simp
  let ?h = "management_frame_magic @ [frame_message_type f] @ le32 (frame_transaction_id f) @ le32 (of_nat ?n)"
  have "?b = ?h @ frame_payload f @ le32 (management_frame_crc32 (frame_body f) (13 + ?n)) @ ys" "length ?h = 13"
    by (simp_all add: frame_bytes_def frame_body_def)
  then have "take ?n (drop 13 ?b) = frame_payload f" by simp
  then have "frame_of ?b ?n = \<lparr>frame_message_type = ?b ! 4, frame_transaction_id = management_frame_read_u32_le ?b 5, frame_payload = frame_payload f\<rparr>"
    by (simp add: frame_of_def)
  moreover have "?b ! 4 = frame_message_type f" by (simp add: frame_bytes_def frame_body_def nth_append)
  ultimately have f: "frame_of ?b ?n = f" by (simp add: read_frame)
  show ?thesis
    using assms by (subst parse.simps) (simp add: Let_def s n c f split: prod.splits)
qed

lemma parse_noise: "management_frame_magic ! 0 \<notin> set ns \<Longrightarrow> parse (ns @ ys) = parse ys"
proof -
  assume "management_frame_magic ! 0 \<notin> set ns"
  then have "resync (ns @ ys) = resync ys"
  proof (induction ns)
    case (Cons n ns)
    then have "\<not> compat (n # ns @ ys)" by (auto simp: compat_def management_frame_magic_def)
    then show ?case using Cons by simp
  qed simp
  then show ?thesis by (metis parse_resync)
qed

lemma write_u32_at:
  assumes "length xs = i" "4 \<le> length ys"
  shows "management_frame_write_u32_le (xs @ ys) i v = xs @ le32 v @ drop 4 ys"
proof -
  obtain a b c d zs where "ys = a # b # c # d # zs"
    using assms(2) by (auto simp: numeral_eq_Suc Suc_le_length_iff)
  then show ?thesis
    using assms(1) by (simp add: management_frame_write_u32_le_def list_update_append le32_def byte_at_def numeral_eq_Suc)
qed

lemma frame_encode_result:
  fixes buf :: "u8 list" and t tid ref n
  defines "f \<equiv> \<lparr>frame_message_type = t, frame_transaction_id = tid, frame_payload = payload_bytes ref buf n\<rparr>"
  assumes n: "n \<le> MANAGEMENT_FRAME_MAX_PAYLOAD_LENGTH" and cap: "17 + n \<le> cap" "cap \<le> length buf"
    and len: "length (payload_bytes ref buf n) = n"
  shows "management_frame_encode t tid (Some ref) n (Some buf) cap (Some l0) =
    (MANAGEMENT_FRAME_OK, Some (frame_bytes f @ drop (17 + n) buf), Some (17 + n))"
proof -
  let ?p = "payload_bytes ref buf n"
  define f1 where "f1 = (if n \<noteq> 0 then overwrite 13 ?p buf else buf)"
  have f1: "length f1 = length buf" "drop 13 f1 = ?p @ drop (13 + n) buf"
    using cap len by (auto simp: f1_def overwrite_def)
  let ?m = management_frame_magic
  have 2: "overwrite 0 ?m f1 = ?m @ drop 4 f1" by (simp add: overwrite_def)
  have 3: "(?m @ drop 4 f1)[4 := t] = (?m @ [t]) @ drop 5 f1"
    using cap f1(1) by (simp add: list_update_append Cons_nth_drop_Suc [symmetric, of 4])
  have 4: "management_frame_write_u32_le ((?m @ [t]) @ drop 5 f1) 5 tid = (?m @ [t] @ le32 tid) @ drop 9 f1"
    using cap f1(1) by (subst write_u32_at) (simp_all add: drop_drop)
  have 5: "management_frame_write_u32_le ((?m @ [t] @ le32 tid) @ drop 9 f1) 9 (of_nat n) = frame_body f @ drop (13 + n) buf"
    using cap f1 len by (subst write_u32_at) (simp_all add: drop_drop frame_body_def f_def)
  have lb: "length (frame_body f) = 13 + n" using len by (simp add: f_def)
  have c: "management_frame_crc32 (frame_body f @ drop (13 + n) buf) (13 + n) = management_frame_crc32 (frame_body f) (13 + n)"
    using lb by (intro crc32_append) simp
  have 6: "management_frame_write_u32_le (frame_body f @ drop (13 + n) buf) (13 + n) (management_frame_crc32 (frame_body f) (13 + n)) =
      frame_bytes f @ drop (17 + n) buf"
    using lb cap by (subst write_u32_at) (simp_all add: frame_bytes_def drop_drop)
  show ?thesis
    unfolding management_frame_encode_def Let_def option.sel f1_def [symmetric] 2 3 4 5 c 6 using n cap by simp
qed

lemma read_u32_bytes: "i + 4 \<le> length b \<Longrightarrow> le32 (management_frame_read_u32_le b i) = take 4 (drop i b)"
proof -
  assume a: "i + 4 \<le> length b"
  have "take 4 (drop i b) = [b ! i, b ! (i + 1), b ! (i + 2), b ! (i + 3)]"
    using a by (intro nth_equalityI) (auto simp: less_Suc_eq numeral_eq_Suc)
  then show ?thesis
    unfolding management_frame_read_u32_le_def join32_or le32_def by (simp add: byte_simps [simplified])
qed

lemma parsed_frame_bytes:
  assumes c: "compat b" and l: "17 + n \<le> length b" "n = unat (management_frame_read_u32_le b 9)" and crc: "crc_matches b n"
  shows "b = frame_bytes (frame_of b n) @ drop (17 + n) b" "length (frame_payload (frame_of b n)) = n"
proof -
  show p: "length (frame_payload (frame_of b n)) = n" using l by (simp add: frame_of_def)
  have m: "take 4 b = management_frame_magic" using c l by (simp add: compat_long)
  have "take 13 b = take 4 b @ [b ! 4] @ take 4 (drop 5 b) @ take 4 (drop 9 b)"
    using l(1) by (simp add: take_add [of 4 9, simplified] take_add [of 1 8 "drop 4 b", simplified] 
        take_add [of 4 4 "drop 5 b", simplified] take_Suc_conv_app_nth hd_drop_conv_nth take_Suc)
  moreover have "of_nat n = management_frame_read_u32_le b 9" using l(2) by simp
  ultimately have "frame_body (frame_of b n) = take (13 + n) b"
    using l p m by (simp add: frame_body_def frame_of_def read_u32_bytes take_add)
  then have "frame_bytes (frame_of b n) = take (13 + n) b @ take 4 (drop (13 + n) b)"
    using l crc read_u32_bytes [of "13 + n" b] by (simp add: frame_bytes_def management_frame_crc32_def)
  also have "\<dots> = take (13 + n + 4) b" by (rule take_add [symmetric])
  finally have "frame_bytes (frame_of b n) = take (17 + n) b" by simp
  then show "b = frame_bytes (frame_of b n) @ drop (17 + n) b" by simp
qed

lemma parse_sound:
  "parse xs = (fs, r) \<Longrightarrow> \<exists>ns n'. length ns = length fs \<and> xs = concat (map2 (\<lambda>n f. n @ frame_bytes f) ns fs) @ n' @ r \<and>
     (\<forall>f \<in> set fs. length (frame_payload f) \<le> MANAGEMENT_FRAME_MAX_PAYLOAD_LENGTH)"
proof (induction xs arbitrary: fs r rule: parse.induct)
  case (1 xs)
  let ?b = "resync xs" and ?n = "unat (management_frame_read_u32_le (resync xs) 9)"
  obtain k where k: "xs = k @ ?b" using resync_suffix by blast
  have skip: ?case if t: "tl ?b = concat (map2 (\<lambda>n f. n @ frame_bytes f) ns fs) @ n' @ r"
    and l: "length ns = length fs" and ne: "?b \<noteq> []" and p: "\<forall>f \<in> set fs. length (frame_payload f) \<le> 8477" for ns n'
  proof -
    have x: "xs = k @ hd ?b # tl ?b" using k ne by simp
    show ?thesis
    proof (cases fs)
      case Nil
      then have "xs = concat (map2 (\<lambda>n f. n @ frame_bytes f) [] fs) @ (k @ hd ?b # n') @ r" using x t by simp
      then show ?thesis using Nil by (intro exI [of _ "[]"] exI [of _ "k @ hd ?b # n'"]) simp
    next
      case (Cons f fs')
      then obtain m ms where m: "ns = m # ms" using l by (cases ns) auto
      have "xs = concat (map2 (\<lambda>n f. n @ frame_bytes f) ((k @ hd ?b # m) # ms) fs) @ n' @ r"
        using x t Cons m by simp
      then show ?thesis using l p m by (intro exI [of _ "(k @ hd ?b # m) # ms"] exI [of _ n']) simp
    qed
  qed
  show ?case
  proof (cases "length ?b < 13 \<or> ?n \<le> 8477 \<and> length ?b < 17 + ?n")
    case True
    then have "fs = [] \<and> r = ?b" using 1(4) by (subst (asm) parse.simps) (auto simp: Let_def split: if_splits)
    then show ?thesis using k by auto
  next
    case False
    show ?thesis
    proof (cases "?n \<le> 8477 \<and> crc_matches ?b ?n")
      case True
      obtain gs where g: "parse (drop (17 + ?n) ?b) = (gs, r)" "fs = frame_of ?b ?n # gs"
        using 1(4) True False by (subst (asm) parse.simps) (auto simp: Let_def split: prod.splits)
      obtain ns n' where ns: "length ns = length gs" "drop (17 + ?n) ?b = concat (map2 (\<lambda>n f. n @ frame_bytes f) ns gs) @ n' @ r"
        "\<forall>f \<in> set gs. length (frame_payload f) \<le> 8477"
        using 1(2) [OF refl refl _ _ _ _ g(1)] True False by (auto simp: not_less)
      have c: "compat ?b" using resync_compat [of xs] False by auto
      have p: "?b = frame_bytes (frame_of ?b ?n) @ drop (17 + ?n) ?b" "length (frame_payload (frame_of ?b ?n)) = ?n"
        using parsed_frame_bytes [OF c, of ?n] True False by auto
      let ?f = "frame_of ?b ?n"
      have "concat (map2 (\<lambda>n f. n @ frame_bytes f) (k # ns) fs) @ n' @ r = k @ frame_bytes ?f @ drop (17 + ?n) ?b"
        unfolding g(2) ns(2) by simp
      also have "\<dots> = xs" using k p(1) by simp
      finally show ?thesis using ns(1,3) g(2) p(2) True by (intro exI [of _ "k # ns"] exI [of _ n']) auto
    next
      case bad: False
      then have t: "parse (tl ?b) = (fs, r)" using 1(4) False by (subst (asm) parse.simps) (auto simp: Let_def split: if_splits)
      have "?b \<noteq> []" using False by auto
      then show ?thesis
        using skip 1(1) [OF refl refl _ _ t] 1(3) [OF refl refl _ _ _ _ t] False bad by (cases "?n \<le> 8477") (auto simp: not_less)
    qed
  qed
qed


section \<open>Properties\<close>

lemma init_inv:
  assumes "management_frame_parser_init (Some p0) (Some st) (length st) = (MANAGEMENT_FRAME_OK, Some p)"
  shows "parser_inv p \<and> parser_rest p = []"
  using assms by (auto simp: management_frame_parser_init_def parser_inv_def parser_rest_def split: if_splits)

lemma parse_Nil [simp]: "parse [] = ([], [])"
  by (subst parse.simps) (simp add: Let_def)

lemma feed_all_parse:
  assumes "management_frame_parser_init (Some p0) (Some st) (length st) = (MANAGEMENT_FRAME_OK, Some p)"
  shows "parse (concat xss) = (snd (feed_all feed_log p xss), parser_rest (fst (feed_all feed_log p xss)))"
  using management.feed_all_frames [of p xss] init_inv [OF assms] by simp

text \<open>
  The parser never gets stuck and never runs out of storage: in every state it can be in (its
  storage at least as large as the longest frame and what it holds shorter than one), feeding any bytes
  in one call returns OK and leads to such a state again, and the frames handed to the handler, in
  order, are those of the abstract parser on the bytes held before followed by the bytes fed.
\<close>

theorem parser_feed_refines:
  assumes "parser_inv p" "parse (parser_rest p) = ([], parser_rest p)"
  shows "\<exists>p' fs. management_frame_parser_feed (Some p) (Some xs) (length xs) (Some h) c = (MANAGEMENT_FRAME_OK, Some p', fold h fs c) \<and>
    parser_inv p' \<and> parse (parser_rest p @ xs) = (fs, parser_rest p')"
  using feed_loop_refines [OF assms, of h xs c] assms(1)
  by (auto simp: management_frame_parser_feed_def parser_inv_def)

theorem parser_feed_refines_witness:
  "\<exists>p' fs. management_frame_parser_feed (Some \<lparr>parser_storage = Some (replicate 8494 0), parser_capacity = 8494, parser_length = 0\<rparr>)
      (Some [0x4D]) (length [0x4D :: u8]) (Some (\<lambda>f n. n + 1)) (0 :: nat) = (MANAGEMENT_FRAME_OK, Some p', fold (\<lambda>f n. n + 1) fs 0) \<and>
    parser_inv p' \<and> parse (parser_rest \<lparr>parser_storage = Some (replicate 8494 0), parser_capacity = 8494, parser_length = 0\<rparr> @ [0x4D]) = (fs, parser_rest p')"
  by (rule parser_feed_refines) (simp_all add: parser_inv_def parser_rest_def)

text \<open>
  C7. Frames get through, however the stream is cut: when a freshly initialised parser is fed, in
  fragments of any sizes, a stream of encoded frames with arbitrary noise before each of them that does
  not contain the first magic byte, the handler receives exactly the frames that were sent, in order.
\<close>

theorem frames_survive_fragmentation:
  assumes "management_frame_parser_init (Some p0) (Some st) (length st) = (MANAGEMENT_FRAME_OK, Some p)"
    and "concat xss = concat (map (\<lambda>(noise, f). noise @ frame_bytes f) sent)"
    and "\<forall>(noise, f) \<in> set sent. 0x4D \<notin> set noise \<and> length (frame_payload f) \<le> MANAGEMENT_FRAME_MAX_PAYLOAD_LENGTH"
  shows "snd (feed_all feed_log p xss) = map snd sent"
proof -
  have "parse (concat (map (\<lambda>(noise, f). noise @ frame_bytes f) sent)) = (map snd sent, [])"
    using assms(3)
  proof (induction sent)
    case (Cons a sent)
    obtain noise f where a: "a = (noise, f)" by (cases a)
    then show ?case using Cons by (simp add: parse_noise parse_frame management_frame_magic_def)
  qed simp
  then show ?thesis using feed_all_parse [OF assms(1), of xss] assms(2) by simp
qed

theorem frames_survive_fragmentation_witness:
  "snd (feed_all feed_log (the (snd (management_frame_parser_init (Some \<lparr>parser_storage = None, parser_capacity = 0, parser_length = 0\<rparr>)
        (Some (replicate 8494 0)) (length (replicate 8494 (0 :: u8))))))
     [[1, 2], frame_bytes \<lparr>frame_message_type = 3, frame_transaction_id = 7, frame_payload = []\<rparr>]) =
   map snd [([1, 2] :: u8 list, \<lparr>frame_message_type = 3, frame_transaction_id = 7, frame_payload = []\<rparr>)]"
  by (rule frames_survive_fragmentation [where st = "replicate 8494 0"]) (simp_all add: management_frame_parser_init_def)

text \<open>
  C28. Nothing is invented: every frame the handler receives stood on the wire as a complete encoded
  frame with a matching checksum; the stream is the received frames in order, with skipped bytes in
  between, followed by skipped bytes and what the parser still holds.
\<close>

theorem delivered_frames_were_sent:
  assumes "management_frame_parser_init (Some p0) (Some st) (length st) = (MANAGEMENT_FRAME_OK, Some p)"
    and "feed_all feed_log p xss = (p', fs)"
  shows "\<exists>skipped last. length skipped = length fs \<and>
    concat xss = concat (map2 (\<lambda>n f. n @ frame_bytes f) skipped fs) @ last @ parser_rest p'"
  using parse_sound [OF feed_all_parse [OF assms(1), of xss]] assms(2) by auto

theorem delivered_frames_were_sent_witness:
  "\<exists>skipped last. length skipped = length (snd (feed_all feed_log \<lparr>parser_storage = Some (replicate 8494 0), parser_capacity = 8494, parser_length = 0\<rparr> [[1, 2]])) \<and>
    concat [[1, 2]] = concat (map2 (\<lambda>n f. n @ frame_bytes f) skipped
        (snd (feed_all feed_log \<lparr>parser_storage = Some (replicate 8494 0), parser_capacity = 8494, parser_length = 0\<rparr> [[1, 2]]))) @ last @
      parser_rest (fst (feed_all feed_log \<lparr>parser_storage = Some (replicate 8494 0), parser_capacity = 8494, parser_length = 0\<rparr> [[1, 2]]))"
  by (rule delivered_frames_were_sent [where st = "replicate 8494 0" and ?p0.0 = "\<lparr>parser_storage = None, parser_capacity = 0, parser_length = 0\<rparr>"])
     (simp_all add: management_frame_parser_init_def del: feed_all.simps)

text \<open>
  The encoder writes exactly the wire form of the frame and nothing behind it, also when the
  payload overlaps the frame buffer at any offset, as the transport calls it.
\<close>

theorem frame_encode_exact:
  assumes "n \<le> MANAGEMENT_FRAME_MAX_PAYLOAD_LENGTH" "17 + n \<le> cap" "cap \<le> length buf"
    and "length (payload_bytes ref buf n) = n"
  shows "management_frame_encode t tid (Some ref) n (Some buf) cap (Some l0) =
    (MANAGEMENT_FRAME_OK,
     Some (frame_bytes \<lparr>frame_message_type = t, frame_transaction_id = tid, frame_payload = payload_bytes ref buf n\<rparr> @ drop (17 + n) buf),
     Some (17 + n))"
  using assms by (rule frame_encode_result)

theorem frame_encode_exact_witness:
  "management_frame_encode 0x84 7 (Some (Within 2)) 2 (Some (replicate 20 1)) 20 (Some 0) =
    (MANAGEMENT_FRAME_OK,
     Some (frame_bytes \<lparr>frame_message_type = 0x84, frame_transaction_id = 7, frame_payload = payload_bytes (Within 2) (replicate 20 1) 2\<rparr> @
       drop (17 + 2) (replicate 20 1)), Some (17 + 2))"
  by (rule frame_encode_exact) (simp_all add: payload_bytes_def)

end
