(* ===== verification/Configuration_Service.thy ===== *)
theory Configuration_Service
  imports External_Flash Configuration_Codec Management_Frame
begin

text \<open>
  Model of \<open>app/Configuration/src/configuration_service.c\<close>: the two configuration slots at the end of the
  external flash, the choice of the newer one at start-up, and the write of a new configuration into the
  other slot. The static variables of the file are the record \<open>configuration_service\<close>; the flash is the state
  of \<open>External_Flash\<close>. The texts the service logs are in \<open>Configuration_Log\<close>.

  \<open>slot_record\<close> and \<open>chosen\<close> are the abstract contents: what a slot of a memory holds, and which slot wins.
  \<open>stored\<close> is what the service believes to be persisted. The lemmas show that loading computes \<open>chosen\<close>, and that a
  write that is cut off anywhere leaves the old choice, the new one, or a half-erased old record that
  still passes both checksums.
\<close>

section \<open>Data\<close>

datatype configuration_service_result_t =
    CONFIGURATION_SERVICE_OK
  | CONFIGURATION_SERVICE_INVALID_ARGUMENT
  | CONFIGURATION_SERVICE_NOT_INITIALIZED
  | CONFIGURATION_SERVICE_RESOURCE_UNAVAILABLE
  | CONFIGURATION_SERVICE_IO_ERROR
  | CONFIGURATION_SERVICE_INVALID_PAYLOAD

datatype configuration_service_state_t =
    CONFIGURATION_SERVICE_UNINITIALIZED
  | CONFIGURATION_SERVICE_READY
  | CONFIGURATION_SERVICE_FAILED

record configuration_slot_info_t =
  slot_valid :: bool
  slot_generation :: u32

text \<open>\<open>temporary_configuration\<close> is \<open>None\<close> after a decoder that gave up half-way; its contents are then never read.\<close>

record configuration_service =
  active_configuration :: configuration_t
  temporary_configuration :: "configuration_t option"
  workspace :: "u8 list"
  service_state :: configuration_service_state_t
  persisted_configuration_exists :: bool
  persisted_slot :: u8
  persisted_generation :: u32

abbreviation "CONFIGURATION_SLOT_MAGIC \<equiv> (0x32474643 :: u32)"
abbreviation "CONFIGURATION_SECTOR_SIZE \<equiv> (4096 :: u32)"
abbreviation "CONFIGURATION_SLOT_SIZE \<equiv> (12288 :: u32)"
abbreviation "CONFIGURATION_SLOT_HEADER_SIZE \<equiv> (20 :: nat)"
abbreviation "CONFIGURATION_WORKSPACE_SIZE \<equiv> (8495 :: nat)"
abbreviation "CONFIGURATION_SLOT_SECTOR_COUNT \<equiv> (3 :: nat)"
abbreviation "CONFIGURATION_SLOT_A_ADDRESS \<equiv> (0x00FFA000 :: u32)"
abbreviation "CONFIGURATION_SLOT_B_ADDRESS \<equiv> (0x00FFD000 :: u32)"
abbreviation "CONFIGURATION_SLOT_A \<equiv> (0 :: u8)"
abbreviation "CONFIGURATION_SLOT_B \<equiv> (1 :: u8)"
abbreviation "CONFIGURATION_GENERATION_FIRST \<equiv> (0 :: u32)"
abbreviation "CONFIGURATION_GENERATION_LAST \<equiv> (2 :: u32)"

section \<open>Helpers\<close>

definition read_u32_le :: "u8 list \<Rightarrow> nat \<Rightarrow> u32" where
  "read_u32_le bytes i =
     ucast (bytes ! i) OR push_bit 8 (ucast (bytes ! (i + 1))) OR push_bit 16 (ucast (bytes ! (i + 2))) OR
     push_bit 24 (ucast (bytes ! (i + 3)))"

definition write_u32_le :: "u8 list \<Rightarrow> nat \<Rightarrow> u32 \<Rightarrow> u8 list" where
  "write_u32_le bytes i v =
     bytes[i := ucast v, i + 1 := ucast (drop_bit 8 v), i + 2 := ucast (drop_bit 16 v), i + 3 := ucast (drop_bit 24 v)]"

text \<open>One byte of the loop of \<open>crc32\<close> is \<open>crc32_byte\<close>, shared with the management frames.\<close>

definition crc32 :: "u8 list \<Rightarrow> u32 \<Rightarrow> u32" where
  "crc32 data len = foldl crc32_byte 0xFFFFFFFF (take (unat len) data) XOR 0xFFFFFFFF"

definition slot_address :: "u8 \<Rightarrow> u32" where
  "slot_address slot_index =
     (if slot_index = CONFIGURATION_SLOT_A then CONFIGURATION_SLOT_A_ADDRESS else CONFIGURATION_SLOT_B_ADDRESS)"

definition other_slot :: "u8 \<Rightarrow> u8" where
  "other_slot slot_index = (if slot_index = CONFIGURATION_SLOT_A then CONFIGURATION_SLOT_B else CONFIGURATION_SLOT_A)"

definition next_generation :: "u32 \<Rightarrow> u32" where
  "next_generation generation =
     (if generation = CONFIGURATION_GENERATION_LAST then CONFIGURATION_GENERATION_FIRST else generation + 1)"

definition generation_is_valid :: "u32 \<Rightarrow> bool" where
  "generation_is_valid generation \<longleftrightarrow> generation \<le> CONFIGURATION_GENERATION_LAST"

definition generation_is_newer :: "u32 \<Rightarrow> u32 \<Rightarrow> bool" where
  "generation_is_newer candidate reference \<longleftrightarrow> candidate = next_generation reference"

section \<open>Reading\<close>

text \<open>The object a decoder overwrites: its old contents do not matter.\<close>

definition decode_target :: "configuration_t option \<Rightarrow> configuration_t" where
  "decode_target t = (case t of None \<Rightarrow> zero_configuration | Some c \<Rightarrow> c)"

definition read_slot ::
  "mbedtls_api \<Rightarrow> u8 \<Rightarrow> configuration_t option \<Rightarrow> u8 list \<Rightarrow> external_flash \<Rightarrow>
   configuration_service_result_t \<times> configuration_slot_info_t \<times> configuration_t option \<times> u8 list \<times> external_flash" where
  "read_slot tls slot_index configuration ws d =
     (case external_flash_read (slot_address slot_index) (Some ws) (of_nat CONFIGURATION_SLOT_HEADER_SIZE) d of
        (flash_result, w1, d1) \<Rightarrow>
          let ws1 = the w1 in
          if flash_result \<noteq> EXTERNAL_FLASH_RESULT_OK
          then (CONFIGURATION_SERVICE_IO_ERROR, \<lparr>slot_valid = False, slot_generation = CONFIGURATION_GENERATION_FIRST\<rparr>,
                configuration, ws1, d1)
          else
            let generation = read_u32_le ws1 4;
                payload_length = read_u32_le ws1 8;
                payload_crc = read_u32_le ws1 12;
                header_crc = read_u32_le ws1 16;
                invalid = \<lparr>slot_valid = False, slot_generation = generation\<rparr>
            in if read_u32_le ws1 0 \<noteq> CONFIGURATION_SLOT_MAGIC \<or> \<not> generation_is_valid generation \<or> payload_length = 0 \<or>
                  unat payload_length > CONFIGURATION_V2_MAX_PAYLOAD_LENGTH \<or> crc32 ws1 16 \<noteq> header_crc
               then (CONFIGURATION_SERVICE_OK, invalid, configuration, ws1, d1)
               else (case external_flash_read (slot_address slot_index + of_nat CONFIGURATION_SLOT_HEADER_SIZE)
                            (Some (drop CONFIGURATION_SLOT_HEADER_SIZE ws1)) payload_length d1 of
                  (flash_result, w2, d2) \<Rightarrow>
                    let ws2 = take CONFIGURATION_SLOT_HEADER_SIZE ws1 @ the w2 in
                    if flash_result \<noteq> EXTERNAL_FLASH_RESULT_OK
                    then (CONFIGURATION_SERVICE_IO_ERROR, invalid, configuration, ws2, d2)
                    else if crc32 (drop CONFIGURATION_SLOT_HEADER_SIZE ws2) payload_length \<noteq> payload_crc
                    then (CONFIGURATION_SERVICE_OK, invalid, configuration, ws2, d2)
                    else (case configuration_binary_decode tls (Some (drop CONFIGURATION_SLOT_HEADER_SIZE ws2)) payload_length
                                 (Some (decode_target configuration)) of
                       (codec_result, configuration') \<Rightarrow>
                         if codec_result = CONFIGURATION_BINARY_CODEC_RESOURCE_UNAVAILABLE
                         then (CONFIGURATION_SERVICE_RESOURCE_UNAVAILABLE, invalid, configuration', ws2, d2)
                         else (CONFIGURATION_SERVICE_OK,
                               \<lparr>slot_valid = (codec_result = CONFIGURATION_BINARY_CODEC_OK), slot_generation = generation\<rparr>,
                               configuration', ws2, d2))))"

text \<open>\<open>active_configuration = temporary_configuration\<close> and the three persisted variables, when a slot has won.\<close>

definition adopt_slot :: "u8 \<Rightarrow> u32 \<Rightarrow> configuration_service \<Rightarrow> configuration_service" where
  "adopt_slot slot_index generation s =
     s\<lparr>active_configuration := the (temporary_configuration s), persisted_configuration_exists := True,
       persisted_slot := slot_index, persisted_generation := generation\<rparr>"

definition load_configuration ::
  "mbedtls_api \<Rightarrow> configuration_service \<Rightarrow> external_flash \<Rightarrow>
   configuration_service_result_t \<times> configuration_service \<times> external_flash" where
  "load_configuration tls s d =
     (let s0 = s\<lparr>persisted_configuration_exists := False\<rparr> in
      case read_slot tls CONFIGURATION_SLOT_A (temporary_configuration s0) (workspace s0) d of
        (result, slot_a, temp, ws, d1) \<Rightarrow>
          let s1 = s0\<lparr>temporary_configuration := temp, workspace := ws\<rparr> in
          if result \<noteq> CONFIGURATION_SERVICE_OK then (result, s1, d1)
          else
            let s2 = (if slot_valid slot_a then adopt_slot CONFIGURATION_SLOT_A (slot_generation slot_a) s1 else s1) in
            case read_slot tls CONFIGURATION_SLOT_B (temporary_configuration s2) (workspace s2) d1 of
              (result, slot_b, temp, ws, d2) \<Rightarrow>
                let s3 = s2\<lparr>temporary_configuration := temp, workspace := ws\<rparr> in
                if result \<noteq> CONFIGURATION_SERVICE_OK then (result, s3, d2)
                else
                  let s4 = (if slot_valid slot_b \<and> (\<not> slot_valid slot_a \<or> slot_generation slot_b = slot_generation slot_a \<or>
                                 generation_is_newer (slot_generation slot_b) (slot_generation slot_a))
                            then adopt_slot CONFIGURATION_SLOT_B (slot_generation slot_b) s3 else s3);
                      s5 = (if \<not> persisted_configuration_exists s4
                            then s4\<lparr>active_configuration := the (configuration_set_defaults (Some (active_configuration s4)))\<rparr>
                            else s4)
                  in (CONFIGURATION_SERVICE_OK, s5, d2))"

section \<open>Writing\<close>

fun erase_slot_sectors :: "u32 \<Rightarrow> nat \<Rightarrow> nat \<Rightarrow> external_flash \<Rightarrow> external_flash_result_t \<times> external_flash" where
  "erase_slot_sectors address sector_index 0 d = (EXTERNAL_FLASH_RESULT_OK, d)"
| "erase_slot_sectors address sector_index (Suc n) d =
     (case external_flash_erase_4k (address + of_nat sector_index * CONFIGURATION_SECTOR_SIZE) d of (r, d1) \<Rightarrow>
        if r \<noteq> EXTERNAL_FLASH_RESULT_OK then (r, d1) else erase_slot_sectors address (sector_index + 1) n d1)"

text \<open>The array \<open>expected_header\<close>.\<close>

definition slot_header :: "u32 \<Rightarrow> u8 list \<Rightarrow> u32 \<Rightarrow> u8 list" where
  "slot_header generation payload payload_length =
     (let h0 = write_u32_le (replicate CONFIGURATION_SLOT_HEADER_SIZE 0) 0 CONFIGURATION_SLOT_MAGIC;
          h1 = write_u32_le h0 4 generation;
          h2 = write_u32_le h1 8 payload_length;
          h3 = write_u32_le h2 12 (crc32 payload payload_length)
      in write_u32_le h3 16 (crc32 h3 16))"

definition write_slot ::
  "u8 \<Rightarrow> u32 \<Rightarrow> u8 list \<Rightarrow> u32 \<Rightarrow> u8 list \<Rightarrow> external_flash \<Rightarrow>
   configuration_service_result_t \<times> u8 list \<times> external_flash" where
  "write_slot slot_index generation payload payload_length ws d =
     (let address = slot_address slot_index in
      case erase_slot_sectors address 0 CONFIGURATION_SLOT_SECTOR_COUNT d of (flash_result, d1) \<Rightarrow>
        if flash_result \<noteq> EXTERNAL_FLASH_RESULT_OK then (CONFIGURATION_SERVICE_IO_ERROR, ws, d1)
        else
          let expected_header = slot_header generation payload payload_length;
              ws1 = overwrite CONFIGURATION_SLOT_HEADER_SIZE (take (unat payload_length) payload) (overwrite 0 expected_header ws)
          in case external_flash_program (address + 4) (Some (drop 4 ws1))
                    (payload_length + of_nat CONFIGURATION_SLOT_HEADER_SIZE - 4) d1 of (flash_result, d2) \<Rightarrow>
            if flash_result \<noteq> EXTERNAL_FLASH_RESULT_OK then (CONFIGURATION_SERVICE_IO_ERROR, ws1, d2)
            else (case external_flash_program address (Some ws1) 4 d2 of (flash_result, d3) \<Rightarrow>
              if flash_result \<noteq> EXTERNAL_FLASH_RESULT_OK then (CONFIGURATION_SERVICE_IO_ERROR, ws1, d3)
              else (case external_flash_read address (Some ws1) (of_nat CONFIGURATION_SLOT_HEADER_SIZE + payload_length) d3 of
                (flash_result, w, d4) \<Rightarrow>
                  let ws2 = the w in
                  if flash_result \<noteq> EXTERNAL_FLASH_RESULT_OK then (CONFIGURATION_SERVICE_IO_ERROR, ws2, d4)
                  else if take CONFIGURATION_SLOT_HEADER_SIZE ws2 \<noteq> expected_header \<or>
                          take (unat payload_length) (drop CONFIGURATION_SLOT_HEADER_SIZE ws2) \<noteq> take (unat payload_length) payload
                  then (CONFIGURATION_SERVICE_IO_ERROR, ws2, d4)
                  else (CONFIGURATION_SERVICE_OK, ws2, d4))))"

section \<open>Public operations\<close>

definition configuration_service_init ::
  "mbedtls_api \<Rightarrow> configuration_service \<Rightarrow> external_flash \<Rightarrow>
   configuration_service_result_t \<times> configuration_service \<times> external_flash" where
  "configuration_service_init tls s d =
     (if service_state s \<noteq> CONFIGURATION_SERVICE_UNINITIALIZED
      then (if service_state s = CONFIGURATION_SERVICE_READY then CONFIGURATION_SERVICE_OK
            else CONFIGURATION_SERVICE_NOT_INITIALIZED, s, d)
      else (case load_configuration tls s d of (result, s1, d1) \<Rightarrow>
        (result, s1\<lparr>service_state := (if result = CONFIGURATION_SERVICE_OK then CONFIGURATION_SERVICE_READY
                                      else CONFIGURATION_SERVICE_FAILED)\<rparr>, d1)))"

definition configuration_service_active :: "configuration_service \<Rightarrow> configuration_t ptr" where
  "configuration_service_active s =
     (if service_state s = CONFIGURATION_SERVICE_READY then Some (active_configuration s) else None)"

definition configuration_service_write ::
  "mbedtls_api \<Rightarrow> u8 list ptr \<Rightarrow> u32 \<Rightarrow> configuration_service \<Rightarrow> external_flash \<Rightarrow>
   configuration_service_result_t \<times> configuration_service \<times> external_flash" where
  "configuration_service_write tls payload payload_length s d =
     (if service_state s \<noteq> CONFIGURATION_SERVICE_READY then (CONFIGURATION_SERVICE_NOT_INITIALIZED, s, d)
      else if payload = None \<or> payload_length = 0 \<or> unat payload_length > CONFIGURATION_V2_MAX_PAYLOAD_LENGTH
      then (CONFIGURATION_SERVICE_INVALID_ARGUMENT, s, d)
      else (case configuration_binary_decode tls payload payload_length (Some (decode_target (temporary_configuration s))) of
        (codec_result, temp) \<Rightarrow>
          let s1 = s\<lparr>temporary_configuration := temp\<rparr> in
          if codec_result = CONFIGURATION_BINARY_CODEC_RESOURCE_UNAVAILABLE
          then (CONFIGURATION_SERVICE_RESOURCE_UNAVAILABLE, s1, d)
          else if codec_result \<noteq> CONFIGURATION_BINARY_CODEC_OK then (CONFIGURATION_SERVICE_INVALID_PAYLOAD, s1, d)
          else
            let target_slot = (if persisted_configuration_exists s1 then other_slot (persisted_slot s1) else CONFIGURATION_SLOT_A);
                generation = (if persisted_configuration_exists s1 then next_generation (persisted_generation s1)
                              else CONFIGURATION_GENERATION_FIRST)
            in case write_slot target_slot generation (the payload) payload_length (workspace s1) d of (result, ws, d1) \<Rightarrow>
              let s2 = s1\<lparr>workspace := ws\<rparr> in
              if result = CONFIGURATION_SERVICE_OK
              then (result, s2\<lparr>persisted_configuration_exists := True, persisted_slot := target_slot,
                              persisted_generation := generation\<rparr>, d1)
              else (result, s2, d1)))"

section \<open>The contents of a slot\<close>

definition memory_bytes :: "(nat \<Rightarrow> u8) \<Rightarrow> nat \<Rightarrow> nat \<Rightarrow> u8 list" where
  "memory_bytes f a n = map (\<lambda>k. f (a + k)) [0..<n]"

text \<open>The record in the slot at address \<open>a\<close> of the memory \<open>f\<close>: its generation and its configuration, if it is valid.\<close>

definition slot_record :: "mbedtls_api \<Rightarrow> (nat \<Rightarrow> u8) \<Rightarrow> nat \<Rightarrow> (u32 \<times> configuration_t) option" where
  "slot_record tls f a =
     (let h = memory_bytes f a 20; generation = read_u32_le h 4; len = read_u32_le h 8 in
      if read_u32_le h 0 = CONFIGURATION_SLOT_MAGIC \<and> generation \<le> 2 \<and> len \<noteq> 0 \<and> unat len \<le> CONFIGURATION_V2_MAX_PAYLOAD_LENGTH \<and>
         crc32 h 16 = read_u32_le h 16
      then let p = memory_bytes f (a + 20) (unat len) in
           if crc32 p len = read_u32_le h 12
           then (case configuration_binary_decode tls (Some p) len (Some zero_configuration) of
                   (CONFIGURATION_BINARY_CODEC_OK, Some c) \<Rightarrow> Some (generation, c)
                 | _ \<Rightarrow> None)
           else None
      else None)"

abbreviation "record_of tls f slot \<equiv> slot_record tls f (unat (slot_address slot))"

text \<open>Which slot a start-up chooses: the newer one, slot B when they are equally old.\<close>

definition chosen :: "mbedtls_api \<Rightarrow> (nat \<Rightarrow> u8) \<Rightarrow> (u8 \<times> u32 \<times> configuration_t) option" where
  "chosen tls f = (case (record_of tls f CONFIGURATION_SLOT_A, record_of tls f CONFIGURATION_SLOT_B) of
      (None, None) \<Rightarrow> None
    | (Some (ga, ca), None) \<Rightarrow> Some (CONFIGURATION_SLOT_A, ga, ca)
    | (None, Some (gb, cb)) \<Rightarrow> Some (CONFIGURATION_SLOT_B, gb, cb)
    | (Some (ga, ca), Some (gb, cb)) \<Rightarrow>
        if gb = ga \<or> gb = next_generation ga then Some (CONFIGURATION_SLOT_B, gb, cb) else Some (CONFIGURATION_SLOT_A, ga, ca))"

text \<open>What the service has loaded.\<close>

definition loaded :: "configuration_service \<Rightarrow> (u8 \<times> u32 \<times> configuration_t) option" where
  "loaded s = (if persisted_configuration_exists s
     then Some (persisted_slot s, persisted_generation s, active_configuration s) else None)"

lemma decode_any_target:
  "fst (configuration_binary_decode tls (Some b) n (Some e)) = fst (configuration_binary_decode tls (Some b) n (Some e'))"
  "fst (configuration_binary_decode tls (Some b) n (Some e)) = CONFIGURATION_BINARY_CODEC_OK \<Longrightarrow>
   configuration_binary_decode tls (Some b) n (Some e) = configuration_binary_decode tls (Some b) n (Some e')"
  by (auto simp: configuration_binary_decode_def Let_def split: list.splits option.splits if_splits prod.splits)

lemma decode_take:
  "take (unat n) b = take (unat n) b' \<Longrightarrow>
   configuration_binary_decode tls (Some b) n e = configuration_binary_decode tls (Some b') n e"
  by (simp add: configuration_binary_decode_def split: option.splits)

lemma decode_OK_Some:
  "configuration_binary_decode tls (Some b) n (Some e) = (CONFIGURATION_BINARY_CODEC_OK, c) \<Longrightarrow> \<exists>d. c = Some d"
  by (auto simp: configuration_binary_decode_def Let_def split: list.splits option.splits if_splits prod.splits)

lemma slot_crc32_take: "take (unat n) b = take (unat n) b' \<Longrightarrow> crc32 b n = crc32 b' n"
  by (simp add: crc32_def)

lemma slot_u32_take: "take n b = take n b' \<Longrightarrow> i + 3 < n \<Longrightarrow> read_u32_le b i = read_u32_le b' i"
proof -
  assume "take n b = take n b'" "i + 3 < n"
  then have "b ! j = b' ! j" if "j \<le> i + 3" for j by (metis that le_less_trans nth_take)
  then show ?thesis by (simp add: read_u32_le_def)
qed

lemma length_memory_bytes [simp]: "length (memory_bytes f a n) = n"
  by (simp add: memory_bytes_def)

lemma take_overwrite_prefix: "length ys = n \<Longrightarrow> take n (overwrite 0 ys xs) = ys"
  by (simp add: overwrite_def)

text \<open>Reading a slot computes its record; the memory is then certain and was possible before.\<close>

lemma read_slot_record:
  assumes rs: "read_slot tls slot t ws d = (r, info, t', ws', d')" and ws: "length ws = CONFIGURATION_WORKSPACE_SIZE"
  shows "length ws' = CONFIGURATION_WORKSPACE_SIZE \<and> images d' \<subseteq> images d \<and>
    external_flash_initialized d' = external_flash_initialized d \<and>
    (r = CONFIGURATION_SERVICE_OK \<longrightarrow> pending d' = None \<and>
      (if slot_valid info then \<exists>c. t' = Some c \<and> record_of tls (cells d') slot = Some (slot_generation info, c)
       else record_of tls (cells d') slot = None))"
proof -
  obtain r1 w1 d1 where rd1: "external_flash_read (slot_address slot) (Some ws) 20 d = (r1, w1, d1)" by (metis prod_cases3)
  have "unat (20 :: u32) \<le> length ws" using ws by simp
  from read_effect [OF rd1 this] obtain ws1 where e1: "w1 = Some ws1" "length ws1 = length ws" "images d1 \<subseteq> images d"
    "external_flash_initialized d1 = external_flash_initialized d"
    "r1 = EXTERNAL_FLASH_RESULT_OK \<longrightarrow> pending d1 = None \<and>
       ws1 = overwrite 0 (memory_bytes (cells d1) (unat (slot_address slot)) 20) ws"
    by (auto simp: memory_bytes_def)
  show ?thesis
  proof (cases "r1 = EXTERNAL_FLASH_RESULT_OK")
    case False
    then show ?thesis using rs rd1 e1 ws by (auto simp: read_slot_def Let_def)
  next
    case ok1: True
    let ?a = "unat (slot_address slot)"
    let ?h = "memory_bytes (cells d1) ?a 20"
    let ?len = "read_u32_le ?h 8"
    have t20: "take 20 ws1 = ?h" using e1(5) ok1 by (simp add: take_overwrite_prefix)
    have rd: "read_u32_le ws1 i = read_u32_le ?h i" if "i + 3 < 20" for i
      by (rule slot_u32_take [OF _ that]) (use t20 in simp)
    have hc: "crc32 ws1 16 = crc32 ?h 16"
    proof (rule slot_crc32_take)
      have "take 16 ws1 = take 16 (take 20 ws1)" by simp
      then show "take (unat (16 :: u32)) ws1 = take (unat (16 :: u32)) ?h" unfolding t20 by simp
    qed
    define bad where "bad \<longleftrightarrow> read_u32_le ?h 0 \<noteq> CONFIGURATION_SLOT_MAGIC \<or> \<not> generation_is_valid (read_u32_le ?h 4) \<or>
      ?len = 0 \<or> unat ?len > CONFIGURATION_V2_MAX_PAYLOAD_LENGTH \<or> crc32 ?h 16 \<noteq> read_u32_le ?h 16"
    have rec: "record_of tls (cells d1) slot =
        (if bad then None else let p = memory_bytes (cells d1) (?a + 20) (unat ?len) in
           if crc32 p ?len = read_u32_le ?h 12
           then (case configuration_binary_decode tls (Some p) ?len (Some zero_configuration) of
                   (CONFIGURATION_BINARY_CODEC_OK, Some c) \<Rightarrow> Some (read_u32_le ?h 4, c) | _ \<Rightarrow> None)
           else None)"
      by (auto simp: slot_record_def bad_def generation_is_valid_def Let_def not_le)
    show ?thesis
    proof (cases bad)
      case True
      have "read_slot tls slot t ws d =
          (CONFIGURATION_SERVICE_OK, \<lparr>slot_valid = False, slot_generation = read_u32_le ?h 4\<rparr>, t, ws1, d1)"
        using rd1 ok1 e1(1) True unfolding read_slot_def
        by (simp only: Let_def prod.case option.sel rd hc bad_def of_nat_numeral if_False simp_thms if_True)
      then have "r = CONFIGURATION_SERVICE_OK" "\<not> slot_valid info" "ws' = ws1" "d' = d1"
        using rs by auto
      then show ?thesis using e1 ok1 ws rec True by simp
    next
      case good: False
      let ?rest = "drop 20 ws1"
      obtain r2 w2 d2 where rd2: "external_flash_read (slot_address slot + 20) (Some ?rest) ?len d1 = (r2, w2, d2)" by (metis prod_cases3)
      have "unat ?len \<le> length ?rest" using good e1(2) ws by (simp add: bad_def)
      from read_effect [OF rd2 this] obtain rest2 where e2: "w2 = Some rest2" "length rest2 = length ?rest" "images d2 \<subseteq> images d1"
        "external_flash_initialized d2 = external_flash_initialized d1"
        "r2 = EXTERNAL_FLASH_RESULT_OK \<longrightarrow> pending d2 = None \<and>
           rest2 = overwrite 0 (memory_bytes (cells d2) (unat (slot_address slot + 20)) (unat ?len)) ?rest"
        by (auto simp: memory_bytes_def)
      define ws2 where "ws2 = take 20 ws1 @ rest2"
      have lw: "length ws2 = CONFIGURATION_WORKSPACE_SIZE" using e1(2) e2(2) ws by (simp add: ws2_def)
      have dr: "drop 20 ws2 = rest2" using e1(2) ws by (simp add: ws2_def)
      have im: "images d2 \<subseteq> images d" "external_flash_initialized d2 = external_flash_initialized d" using e1 e2 by auto
      have eq: "read_slot tls slot t ws d =
        (if r2 \<noteq> EXTERNAL_FLASH_RESULT_OK
         then (CONFIGURATION_SERVICE_IO_ERROR, \<lparr>slot_valid = False, slot_generation = read_u32_le ?h 4\<rparr>, t, ws2, d2)
         else if crc32 rest2 ?len \<noteq> read_u32_le ?h 12
         then (CONFIGURATION_SERVICE_OK, \<lparr>slot_valid = False, slot_generation = read_u32_le ?h 4\<rparr>, t, ws2, d2)
         else (case configuration_binary_decode tls (Some rest2) ?len (Some (decode_target t)) of
           (codec_result, configuration') \<Rightarrow>
             if codec_result = CONFIGURATION_BINARY_CODEC_RESOURCE_UNAVAILABLE
             then (CONFIGURATION_SERVICE_RESOURCE_UNAVAILABLE, \<lparr>slot_valid = False, slot_generation = read_u32_le ?h 4\<rparr>,
                   configuration', ws2, d2)
             else (CONFIGURATION_SERVICE_OK,
                   \<lparr>slot_valid = (codec_result = CONFIGURATION_BINARY_CODEC_OK), slot_generation = read_u32_le ?h 4\<rparr>,
                   configuration', ws2, d2)))"
        using rd1 ok1 e1(1) rd2 e2(1) good dr unfolding read_slot_def
        by (simp only: Let_def prod.case option.sel rd hc bad_def of_nat_numeral if_False simp_thms ws2_def [symmetric])
      show ?thesis
      proof (cases "r2 = EXTERNAL_FLASH_RESULT_OK")
        case False
        then show ?thesis using rs eq im lw by auto
      next
        case ok2: True
        have p1: "pending d1 = None" using e1(5) ok1 by simp
        have p2: "pending d2 = None" using e2(5) ok2 by simp
        have c2: "cells d2 = cells d1" using e2(3) images_none [OF p1] images_none [OF p2] by simp
        have a20: "unat (slot_address slot + 20) = ?a + 20" by (simp add: slot_address_def)
        let ?p = "memory_bytes (cells d1) (?a + 20) (unat ?len)"
        have t2: "take (unat ?len) rest2 = take (unat ?len) ?p"
          using e2(5) ok2 c2 a20 by (simp add: take_overwrite_prefix)
        have cr: "crc32 rest2 ?len = crc32 ?p ?len" by (rule slot_crc32_take [OF t2])
        obtain cr1 cfg where dc: "configuration_binary_decode tls (Some rest2) ?len (Some (decode_target t)) = (cr1, cfg)"
          by (metis surj_pair)
        have dp: "configuration_binary_decode tls (Some ?p) ?len e = configuration_binary_decode tls (Some rest2) ?len e" for e
          using decode_take [OF t2] by simp
        show ?thesis
        proof (cases "crc32 ?p ?len = read_u32_le ?h 12")
          case False
          then have "r = CONFIGURATION_SERVICE_OK" "\<not> slot_valid info" "ws' = ws2" "d' = d2"
            using rs eq ok2 cr by auto
          then show ?thesis using im lw p2 c2 rec good False by (simp add: Let_def)
        next
          case pc: True
          have st: "ws' = ws2" "d' = d2" "t' = cfg"
            "r = CONFIGURATION_SERVICE_OK \<longrightarrow> slot_valid info = (cr1 = CONFIGURATION_BINARY_CODEC_OK) \<and> slot_generation info = read_u32_le ?h 4"
            using rs eq ok2 cr pc dc by (auto split: if_splits)
          have rc: "record_of tls (cells d1) slot =
              (case configuration_binary_decode tls (Some rest2) ?len (Some zero_configuration) of
                   (CONFIGURATION_BINARY_CODEC_OK, Some c) \<Rightarrow> Some (read_u32_le ?h 4, c) | _ \<Rightarrow> None)"
            using rec good pc by (simp add: Let_def dp)
          show ?thesis
          proof (cases "cr1 = CONFIGURATION_BINARY_CODEC_OK")
            case True
            then obtain c where "cfg = Some c" using decode_OK_Some dc by blast
            moreover have "configuration_binary_decode tls (Some rest2) ?len (Some zero_configuration) = (cr1, cfg)"
              using decode_any_target(2) [of tls rest2 ?len "decode_target t" zero_configuration] dc True by simp
            ultimately show ?thesis using st im lw p2 c2 rc True by simp
          next
            case False
            moreover have "fst (configuration_binary_decode tls (Some rest2) ?len (Some zero_configuration)) = cr1"
              using decode_any_target(1) [of tls rest2 ?len "decode_target t" zero_configuration] dc by simp
            then have "record_of tls (cells d1) slot = None"
              using rc False by (cases "configuration_binary_decode tls (Some rest2) ?len (Some zero_configuration)")
                (auto split: configuration_binary_codec_result_t.splits)
            ultimately show ?thesis using st im lw p2 c2 by simp
          qed
        qed
      qed
    qed
  qed
qed

section \<open>Loading computes the choice\<close>

lemma load_effect:
  assumes ld: "load_configuration tls s d = (r, s', d')" and ws: "length (workspace s) = CONFIGURATION_WORKSPACE_SIZE"
  shows "length (workspace s') = CONFIGURATION_WORKSPACE_SIZE \<and> images d' \<subseteq> images d \<and>
    external_flash_initialized d' = external_flash_initialized d \<and>
    (r = CONFIGURATION_SERVICE_OK \<longrightarrow> pending d' = None \<and> loaded s' = chosen tls (cells d') \<and>
      (loaded s' = None \<longrightarrow> Some (active_configuration s') = configuration_set_defaults (Some (active_configuration s'))))"
proof -
  let ?s0 = "s\<lparr>persisted_configuration_exists := False\<rparr>"
  obtain ra ia ta wa d1 where A: "read_slot tls CONFIGURATION_SLOT_A (temporary_configuration s) (workspace s) d = (ra, ia, ta, wa, d1)"
    by (metis prod_cases5)
  note a = read_slot_record [OF A ws]
  let ?s1 = "?s0\<lparr>temporary_configuration := ta, workspace := wa\<rparr>"
  show ?thesis
  proof (cases "ra = CONFIGURATION_SERVICE_OK")
    case False
    then have "r = ra" "s' = ?s1" "d' = d1" using ld A by (auto simp: load_configuration_def Let_def)
    then show ?thesis using a False by simp
  next
    case okA: True
    let ?s2 = "if slot_valid ia then adopt_slot CONFIGURATION_SLOT_A (slot_generation ia) ?s1 else ?s1"
    have s2: "temporary_configuration ?s2 = ta" "workspace ?s2 = wa" by (auto simp: adopt_slot_def)
    obtain rb ib tb wb d2 where B: "read_slot tls CONFIGURATION_SLOT_B ta wa d1 = (rb, ib, tb, wb, d2)" by (metis prod_cases5)
    note b = read_slot_record [OF B conjunct1 [OF a]]
    let ?s3 = "?s2\<lparr>temporary_configuration := tb, workspace := wb\<rparr>"
    let ?useB = "slot_valid ib \<and> (\<not> slot_valid ia \<or> slot_generation ib = slot_generation ia \<or>
                   generation_is_newer (slot_generation ib) (slot_generation ia))"
    let ?s4 = "if ?useB then adopt_slot CONFIGURATION_SLOT_B (slot_generation ib) ?s3 else ?s3"
    let ?s5 = "if \<not> persisted_configuration_exists ?s4
               then ?s4\<lparr>active_configuration := the (configuration_set_defaults (Some (active_configuration ?s4)))\<rparr> else ?s4"
    have ld2: "load_configuration tls s d = (if rb \<noteq> CONFIGURATION_SERVICE_OK then (rb, ?s3, d2) else (CONFIGURATION_SERVICE_OK, ?s5, d2))"
      unfolding load_configuration_def Let_def using A okA B s2 by simp
    show ?thesis
    proof (cases "rb = CONFIGURATION_SERVICE_OK")
      case False
      then have "r = rb" "s' = ?s3" "d' = d2" using ld ld2 by auto
      then show ?thesis using a b False by auto
    next
      case okB: True
      then have e: "r = CONFIGURATION_SERVICE_OK" "s' = ?s5" "d' = d2" using ld ld2 by auto
      have p: "pending d1 = None" "pending d2 = None" using a b okA okB by auto
      have c: "cells d2 = cells d1" using b images_none [OF p(1)] images_none [OF p(2)] by auto
      have recA: "if slot_valid ia then \<exists>c. ta = Some c \<and> record_of tls (cells d2) CONFIGURATION_SLOT_A = Some (slot_generation ia, c)
          else record_of tls (cells d2) CONFIGURATION_SLOT_A = None" using a okA c by simp
      have recB: "if slot_valid ib then \<exists>c. tb = Some c \<and> record_of tls (cells d2) CONFIGURATION_SLOT_B = Some (slot_generation ib, c)
          else record_of tls (cells d2) CONFIGURATION_SLOT_B = None" using b okB by simp
      have L: "loaded ?s5 = chosen tls (cells d2)"
        using recA recB by (cases "slot_valid ia"; cases "slot_valid ib")
          (auto simp: loaded_def chosen_def adopt_slot_def generation_is_newer_def)
      have D: "loaded ?s5 = None \<longrightarrow> Some (active_configuration ?s5) = configuration_set_defaults (Some (active_configuration ?s5))"
        by (auto simp: loaded_def configuration_set_defaults_def Let_def)
      have W: "length (workspace ?s5) = CONFIGURATION_WORKSPACE_SIZE" using b by (simp add: adopt_slot_def)
      have "images d2 \<subseteq> images d" "external_flash_initialized d2 = external_flash_initialized d" using a b by auto
      then show ?thesis unfolding e using L D W p by blast
    qed
  qed
qed

section \<open>What a write leaves behind\<close>

lemma length_slot_header [simp]: "length (slot_header g p n) = 20"
  by (simp add: slot_header_def write_u32_le_def Let_def)

lemma read_write_u32_le: "i + 4 \<le> length bs \<Longrightarrow> read_u32_le (write_u32_le bs i v) i = v"
proof -
  assume "i + 4 \<le> length bs"
  then have "read_u32_le (write_u32_le bs i v) i = join32 (byte_at 0 v) (byte_at 1 v) (byte_at 2 v) (byte_at 3 v)"
    by (simp add: read_u32_le_def write_u32_le_def join32_def byte_at_def nth_list_update)
  then show ?thesis unfolding join32_byte_at .
qed

lemma read_write_u32_le_other: "j + 3 < i \<or> i + 3 < j \<Longrightarrow> read_u32_le (write_u32_le bs i v) j = read_u32_le bs j"
  by (auto simp: read_u32_le_def write_u32_le_def nth_list_update)

lemma take_write_u32_le: "n \<le> i \<Longrightarrow> take n (write_u32_le bs i v) = take n bs"
  by (simp add: write_u32_le_def)

lemma length_write_u32_le [simp]: "length (write_u32_le bs i v) = length bs"
  by (simp add: write_u32_le_def)

lemma slot_header_fields:
  "read_u32_le (slot_header g p n) 0 = CONFIGURATION_SLOT_MAGIC" "read_u32_le (slot_header g p n) 4 = g"
  "read_u32_le (slot_header g p n) 8 = n" "read_u32_le (slot_header g p n) 12 = crc32 p n"
  "read_u32_le (slot_header g p n) 16 = crc32 (slot_header g p n) 16"
proof -
  show "read_u32_le (slot_header g p n) 16 = crc32 (slot_header g p n) 16"
    unfolding slot_header_def Let_def
    by (subst read_write_u32_le, simp) (intro slot_crc32_take, simp add: take_write_u32_le)
qed (simp_all add: slot_header_def Let_def read_write_u32_le read_write_u32_le_other)

text \<open>The flash operations of \<open>write_slot\<close> are the commit of the record.\<close>

lemma erase_sectors_steps:
  "external_erase (unat a + 4096 * i) d = (case external_flash_erase_4k (a + of_nat i * 4096) d of (r, d') \<Rightarrow> (r = EXTERNAL_FLASH_RESULT_OK, d'))"
  if "unat a + 4096 * i < 2 ^ 32"
proof -
  have "of_nat (unat a + 4096 * i) = a + of_nat i * 4096" by (simp add: mult.commute)
  then show ?thesis using that unfolding external_erase_def by (simp only: if_True)
qed

lemma external_program_take:
  "unat n \<le> length bs \<Longrightarrow> external_flash_program a (Some bs) n d = external_flash_program a (Some (take (unat n) bs)) n d"
  by (simp add: external_flash_program_def)

lemma run_steps_append:
  "run_steps (ss @ ts) d = (case run_steps ss d of (ok, d1) \<Rightarrow> if ok then run_steps ts d1 else (False, d1))"
  by (induction ss arbitrary: d) (auto split: prod.splits)

lemma erase_slot_steps:
  assumes "unat a + 12288 \<le> 2 ^ 32"
  shows "run_steps [external_erase (unat a), external_erase (unat a + 4096), external_erase (unat a + 8192)] d =
    (case erase_slot_sectors a 0 3 d of (r, d') \<Rightarrow> (r = EXTERNAL_FLASH_RESULT_OK, d'))"
proof -
  have e: "external_erase (unat a) d = (case external_flash_erase_4k a d of (r, d') \<Rightarrow> (r = EXTERNAL_FLASH_RESULT_OK, d'))"
    "external_erase (unat a + 4096) d = (case external_flash_erase_4k (a + 4096) d of (r, d') \<Rightarrow> (r = EXTERNAL_FLASH_RESULT_OK, d'))"
    "external_erase (unat a + 8192) d = (case external_flash_erase_4k (a + 8192) d of (r, d') \<Rightarrow> (r = EXTERNAL_FLASH_RESULT_OK, d'))" for d
    using erase_sectors_steps [of a 0 d] erase_sectors_steps [of a 1 d] erase_sectors_steps [of a 2 d] assms by simp_all
  show ?thesis by (simp add: e numeral_3_eq_3 split: prod.splits)
qed

lemma external_erase_init: "external_erase a d = (ok, d') \<Longrightarrow> external_flash_initialized d' = external_flash_initialized d"
proof (cases "a < 2 ^ 32")
  case True
  assume "external_erase a d = (ok, d')"
  then obtain r where r: "external_flash_erase_4k (of_nat a) d = (r, d')"
    using True by (auto simp: external_erase_def split: prod.splits)
  from erase_effect [OF r settle_in_images [of "\<lambda>_. 0"]] show ?thesis by blast
qed (auto simp: external_erase_def)

lemma external_prog_init: "external_prog a bs d = (ok, d') \<Longrightarrow> external_flash_initialized d' = external_flash_initialized d"
proof (cases "a < 2 ^ 32 \<and> length bs < 2 ^ 32")
  case True
  assume "external_prog a bs d = (ok, d')"
  then obtain r where r: "external_flash_program (of_nat a) (Some bs) (of_nat (length bs)) d = (r, d')"
    using True by (auto simp: external_prog_def split: prod.splits)
  have "unat (of_nat (length bs) :: u32) \<le> length bs" using True by (simp add: unat_of_nat take_bit_nat_eq_self)
  from program_effect [OF r this settle_in_images [of "\<lambda>_. 0"]] show ?thesis by blast
qed (auto simp: external_prog_def)

lemma external_prog_call:
  assumes "unat n \<le> length bs" "unat a + unat n < 2 ^ 32"
  shows "external_prog (unat a) (take (unat n) bs) d = (case external_flash_program a (Some bs) n d of (r, d') \<Rightarrow> (r = EXTERNAL_FLASH_RESULT_OK, d'))"
proof -
  have l: "length (take (unat n) bs) = unat n" using assms(1) by simp
  have "unat a < 2 ^ 32" "unat n < 2 ^ 32" using assms(2) by simp_all
  then show ?thesis
    unfolding external_prog_def l by (simp add: external_program_take [OF assms(1), symmetric])
qed

abbreviation record_body :: "u32 \<Rightarrow> u8 list \<Rightarrow> u32 \<Rightarrow> u8 list" where
  "record_body g payload n \<equiv> drop 4 (slot_header g payload n) @ take (unat n) payload"

definition commit_steps :: "u8 \<Rightarrow> u32 \<Rightarrow> u8 list \<Rightarrow> u32 \<Rightarrow> (external_flash \<Rightarrow> bool \<times> external_flash) list" where
  "commit_steps slot g payload n =
     (let a = unat (slot_address slot) in
      [external_erase a, external_erase (a + 4096), external_erase (a + 8192), external_prog (a + 4) (record_body g payload n),
       external_prog a (take 4 (slot_header g payload n))])"

lemma write_slot_commits:
  assumes wr: "write_slot slot g payload n ws d = (r, ws', d')" and ws: "length ws = CONFIGURATION_WORKSPACE_SIZE"
    and n: "unat n \<le> CONFIGURATION_V2_MAX_PAYLOAD_LENGTH" "unat n \<le> length payload"
  shows "\<exists>ok d1. run_steps (commit_steps slot g payload n) d = (ok, d1) \<and> images d' \<subseteq> images d1 \<and>
    length ws' = CONFIGURATION_WORKSPACE_SIZE \<and> external_flash_initialized d' = external_flash_initialized d \<and>
    (r = CONFIGURATION_SERVICE_OK \<longrightarrow> ok \<and> pending d' = None)"
proof -
  let ?a = "slot_address slot"
  let ?h = "slot_header g payload n"
  let ?p = "take (unat n) payload"
  let ?w = "overwrite 20 ?p (overwrite 0 ?h ws)"
  have lp: "length ?p = unat n" using n by simp
  have a: "unat ?a + 12288 \<le> 2 ^ 24" by (simp add: slot_address_def)
  have lw: "length ?w = CONFIGURATION_WORKSPACE_SIZE" using ws n lp by simp
  have w20: "take (20 + unat n) ?w = ?h @ ?p"
    using ws n lp by (intro nth_equalityI) (auto simp: nth_overwrite nth_append)
  obtain re d1 where er: "erase_slot_sectors ?a 0 3 d = (re, d1)" by (metis surj_pair)
  have st1: "run_steps [external_erase (unat ?a), external_erase (unat ?a + 4096), external_erase (unat ?a + 8192)] d =
      (re = EXTERNAL_FLASH_RESULT_OK, d1)"
    using erase_slot_steps [of ?a d] a er by simp
  have i1: "external_flash_initialized d1 = external_flash_initialized d"
    using st1 by (auto dest!: external_erase_init split: prod.splits if_splits)
  have split: "run_steps (commit_steps slot g payload n) d =
      (if re = EXTERNAL_FLASH_RESULT_OK
       then run_steps [external_prog (unat ?a + 4) (record_body g payload n), external_prog (unat ?a) (take 4 ?h)] d1 else (False, d1))"
    using run_steps_append [of "[external_erase (unat ?a), external_erase (unat ?a + 4096), external_erase (unat ?a + 8192)]"
        "[external_prog (unat ?a + 4) (record_body g payload n), external_prog (unat ?a) (take 4 ?h)]" d] st1
    by (simp add: commit_steps_def Let_def del: run_steps.simps)
  show ?thesis
  proof (cases "re = EXTERNAL_FLASH_RESULT_OK")
    case False
    then have "r = CONFIGURATION_SERVICE_IO_ERROR" "ws' = ws" "d' = d1" using wr er by (auto simp: write_slot_def Let_def)
    then show ?thesis using split False ws i1 by (intro exI [of _ False] exI [of _ d1]) simp
  next
    case ok1: True
    obtain r2 d2 where p2: "external_flash_program (?a + 4) (Some (drop 4 ?w)) (n + 20 - 4) d1 = (r2, d2)" by (metis surj_pair)
    have un: "unat (n + 20 - 4) = unat n + 16" "unat (20 + n) = 20 + unat n"
    proof -
      have "n + 20 - 4 = n + 16" using add_diff_eq [of n 20 4] by simp
      moreover have "unat n + unat (16 :: u32) < 2 ^ LENGTH(32)" "unat (20 :: u32) + unat n < 2 ^ LENGTH(32)" using n by simp_all
      ultimately show "unat (n + 20 - 4) = unat n + 16" "unat (20 + n) = 20 + unat n"
        by (simp_all only: unat_plus_small) simp_all
    qed
    have ua: "unat (?a + 4) = unat ?a + 4" by (simp add: slot_address_def)
    have body: "take (unat (n + 20 - 4)) (drop 4 ?w) = record_body g payload n"
    proof -
      have "take (unat n + 16) (drop 4 ?w) = drop 4 (take (20 + unat n) ?w)" by (simp add: take_drop add.commute)
      then show ?thesis unfolding un w20 by simp
    qed
    have "unat (n + 20 - 4) \<le> length (drop 4 ?w)" "unat (?a + 4) + unat (n + 20 - 4) < 2 ^ 32"
      using lw n a unfolding un ua by simp_all
    from external_prog_call [OF this, of d1]
    have st2: "external_prog (unat ?a + 4) (record_body g payload n) d1 = (r2 = EXTERNAL_FLASH_RESULT_OK, d2)"
      unfolding body ua p2 by simp
    have i2: "external_flash_initialized d2 = external_flash_initialized d" using external_prog_init [OF st2] i1 by simp
    show ?thesis
    proof (cases "r2 = EXTERNAL_FLASH_RESULT_OK")
      case False
      then have "r = CONFIGURATION_SERVICE_IO_ERROR" "ws' = ?w" "d' = d2"
        using wr er ok1 p2 by (auto simp: write_slot_def Let_def)
      then show ?thesis using split ok1 st2 False lw i2 by (intro exI [of _ False] exI [of _ d2]) simp
    next
      case ok2: True
      obtain r3 d3 where p3: "external_flash_program ?a (Some ?w) 4 d2 = (r3, d3)" by (metis surj_pair)
      have head: "take (unat (4 :: u32)) ?w = take 4 ?h"
      proof -
        have "take 4 ?w = take 4 (take (20 + unat n) ?w)" by simp
        then show ?thesis unfolding w20 by simp
      qed
      have "unat (4 :: u32) \<le> length ?w" "unat ?a + unat (4 :: u32) < 2 ^ 32" using lw a by simp_all
      from external_prog_call [OF this, of d2]
      have st3: "external_prog (unat ?a) (take 4 ?h) d2 = (r3 = EXTERNAL_FLASH_RESULT_OK, d3)"
        unfolding head p3 by simp
      have i3: "external_flash_initialized d3 = external_flash_initialized d" using external_prog_init [OF st3] i2 by simp
      show ?thesis
      proof (cases "r3 = EXTERNAL_FLASH_RESULT_OK")
        case False
        then have "r = CONFIGURATION_SERVICE_IO_ERROR" "ws' = ?w" "d' = d3"
          using wr er ok1 p2 ok2 p3 by (auto simp: write_slot_def Let_def)
        then show ?thesis using split ok1 st2 ok2 st3 False lw i3 by (intro exI [of _ False] exI [of _ d3]) simp
      next
        case ok3: True
        obtain r4 w4 d4 where p4: "external_flash_read ?a (Some ?w) (20 + n) d3 = (r4, w4, d4)" by (metis prod_cases3)
        have "unat (20 + n) \<le> length ?w" using lw n unfolding un by simp
        from read_effect [OF p4 this] obtain ws4 where e4: "w4 = Some ws4" "length ws4 = length ?w" "images d4 \<subseteq> images d3"
          "external_flash_initialized d4 = external_flash_initialized d3" "r4 = EXTERNAL_FLASH_RESULT_OK \<longrightarrow> pending d4 = None" by auto
        have "d' = d4" "ws' = ws4" "r = CONFIGURATION_SERVICE_OK \<longrightarrow> r4 = EXTERNAL_FLASH_RESULT_OK"
          using wr er ok1 p2 ok2 p3 ok3 p4 e4(1) by (auto simp: write_slot_def Let_def split: if_splits)
        then show ?thesis using split ok1 st2 ok2 st3 ok3 lw i3 e4 by (intro exI [of _ True] exI [of _ d3]) simp
      qed
    qed
  qed
qed

section \<open>Records under a commit\<close>

lemma memory_bytes_eqI: "(\<And>k. k < n \<Longrightarrow> f (a + k) = g (a + k)) \<Longrightarrow> memory_bytes f a n = memory_bytes g a n"
  by (simp add: memory_bytes_def)

lemma slot_record_cong:
  assumes "\<And>x. a \<le> x \<Longrightarrow> x < a + 12288 \<Longrightarrow> f x = g x"
  shows "slot_record tls f a = slot_record tls g a"
proof -
  have h: "memory_bytes f a 20 = memory_bytes g a 20" by (rule memory_bytes_eqI) (use assms in auto)
  have "memory_bytes f (a + 20) n = memory_bytes g (a + 20) n" if "n \<le> CONFIGURATION_V2_MAX_PAYLOAD_LENGTH" for n
    by (rule memory_bytes_eqI) (use assms that in auto)
  then show ?thesis unfolding slot_record_def Let_def h by auto
qed

lemma read_u32_le_0: "read_u32_le bs 0 = join32 (bs ! 0) (bs ! 1) (bs ! 2) (bs ! 3)"
  by (simp add: read_u32_le_def join32_def numeral_2_eq_2)

lemma slot_record_no_magic: "read_u32_le (memory_bytes f a 20) 0 \<noteq> CONFIGURATION_SLOT_MAGIC \<Longrightarrow> slot_record tls f a = None"
  by (simp add: slot_record_def Let_def)

lemma erased_no_record: "\<forall>i < 4. f (a + i) = 0xFF \<Longrightarrow> slot_record tls f a = None"
proof (rule slot_record_no_magic)
  assume e: "\<forall>i < 4. f (a + i) = 0xFF"
  have "f (a + 0) = 0xFF" "f (a + 1) = 0xFF" "f (a + 2) = 0xFF" "f (a + 3) = 0xFF" by (rule e [rule_format], simp)+
  then have "read_u32_le (memory_bytes f a 20) 0 = join32 0xFF 0xFF 0xFF 0xFF"
    by (simp add: read_u32_le_0 memory_bytes_def)
  also have "\<dots> \<noteq> CONFIGURATION_SLOT_MAGIC" by (simp add: join32_def)
  finally show "read_u32_le (memory_bytes f a 20) 0 \<noteq> CONFIGURATION_SLOT_MAGIC" .
qed

lemma written_record:
  assumes head: "\<forall>i < 4. f (a + i) = slot_header g payload n ! i"
    and body: "\<forall>i < length (record_body g payload n). f (a + 4 + i) = record_body g payload n ! i"
    and g: "g \<le> 2" and n: "n \<noteq> 0" "unat n \<le> CONFIGURATION_V2_MAX_PAYLOAD_LENGTH" "unat n \<le> length payload"
    and dec: "configuration_binary_decode tls (Some payload) n (Some e) = (CONFIGURATION_BINARY_CODEC_OK, Some c)"
  shows "slot_record tls f a = Some (g, c)"
proof -
  let ?h = "slot_header g payload n"
  have l: "length (take (unat n) payload) = unat n" using n by simp
  have all: "f (a + k) = (?h @ take (unat n) payload) ! k" if "k < 20 + unat n" for k
  proof (cases "k < 4")
    case False
    then have k: "a + 4 + (k - 4) = a + k" "k - 4 < length (record_body g payload n)" using that l by simp_all
    have "(?h @ take (unat n) payload) ! k = drop 4 (?h @ take (unat n) payload) ! (k - 4)" 
      using False that l nth_drop [of 4 "?h @ take (unat n) payload" "k - 4"] by simp
    then show ?thesis using body [rule_format, OF k(2)] k(1) by simp
  qed (use head in \<open>simp add: nth_append\<close>)
  have h: "memory_bytes f a 20 = ?h"
    by (rule nth_equalityI) (use all in \<open>auto simp: memory_bytes_def nth_append\<close>)
  have p: "memory_bytes f (a + 20) (unat n) = take (unat n) payload"
  proof (rule nth_equalityI)
    fix i assume "i < length (memory_bytes f (a + 20) (unat n))"
    then show "memory_bytes f (a + 20) (unat n) ! i = take (unat n) payload ! i"
      using all [of "20 + i"] by (simp add: memory_bytes_def nth_append add.assoc)
  qed (use l in simp)
  have cr: "crc32 (take (unat n) payload) n = crc32 payload n" by (rule slot_crc32_take) simp
  have "configuration_binary_decode tls (Some (take (unat n) payload)) n (Some zero_configuration) =
      configuration_binary_decode tls (Some payload) n (Some zero_configuration)"
    by (rule decode_take) simp
  also have "\<dots> = (CONFIGURATION_BINARY_CODEC_OK, Some c)"
    using decode_any_target(2) [of tls payload n e zero_configuration] dec by simp
  finally show ?thesis
    unfolding slot_record_def Let_def h slot_header_fields p cr using g n by simp
qed

text \<open>A record whose body is complete is either valid as a whole or, while its magic is incomplete, not a record.\<close>

lemma body_decides:
  assumes body: "\<forall>i < length (record_body g payload n). f (a + 4 + i) = record_body g payload n ! i"
    and rest: "g \<le> 2" "n \<noteq> 0" "unat n \<le> CONFIGURATION_V2_MAX_PAYLOAD_LENGTH" "unat n \<le> length payload"
      "configuration_binary_decode tls (Some payload) n (Some e) = (CONFIGURATION_BINARY_CODEC_OK, Some c)"
  shows "slot_record tls f a = Some (g, c) \<or> slot_record tls f a = None"
proof (cases "read_u32_le (memory_bytes f a 20) 0 = CONFIGURATION_SLOT_MAGIC")
  case True
  let ?h = "slot_header g payload n"
  have "join32 (f a) (f (a + 1)) (f (a + 2)) (f (a + 3)) = join32 (?h ! 0) (?h ! 1) (?h ! 2) (?h ! 3)"
    using True slot_header_fields(1) [of g payload n] by (simp add: read_u32_le_0 memory_bytes_def)
  then have "f a = ?h ! 0" "f (a + 1) = ?h ! 1" "f (a + 2) = ?h ! 2" "f (a + 3) = ?h ! 3" unfolding join32_inject by blast+
  then have "\<forall>i < 4. f (a + i) = ?h ! i" by (auto simp: less_Suc_eq numeral_eq_Suc)
  from written_record [OF this body rest] show ?thesis ..
qed (simp add: slot_record_no_magic)

section \<open>The invariant of the service\<close>

definition target_slot :: "configuration_service \<Rightarrow> u8" where
  "target_slot s = (if persisted_configuration_exists s then other_slot (persisted_slot s) else CONFIGURATION_SLOT_A)"

definition target_generation :: "configuration_service \<Rightarrow> u32" where
  "target_generation s =
     (if persisted_configuration_exists s then next_generation (persisted_generation s) else CONFIGURATION_GENERATION_FIRST)"

text \<open>
  \<open>persists tls s d p\<close>: the service is ready and believes that \<open>p\<close> is persisted, and every memory a supply failure may
  leave holds that record. Without a persisted record slot B, which is not the next to be written, holds none.
\<close>

definition persists ::
  "mbedtls_api \<Rightarrow> configuration_service \<Rightarrow> external_flash \<Rightarrow> (u8 \<times> u32 \<times> configuration_t) option \<Rightarrow> bool" where
  "persists tls s d p \<longleftrightarrow> service_state s = CONFIGURATION_SERVICE_READY \<and> length (workspace s) = CONFIGURATION_WORKSPACE_SIZE \<and>
     (case p of
        None \<Rightarrow> \<not> persisted_configuration_exists s \<and> (\<forall>f \<in> images d. record_of tls f CONFIGURATION_SLOT_B = None)
      | Some (slot, g, c) \<Rightarrow> persisted_configuration_exists s \<and> persisted_slot s = slot \<and> persisted_generation s = g \<and>
          slot \<in> {CONFIGURATION_SLOT_A, CONFIGURATION_SLOT_B} \<and> g \<le> 2 \<and> (\<forall>f \<in> images d. record_of tls f slot = Some (g, c)))"

lemma generations:
  assumes "g \<le> (2 :: u32)"
  shows "next_generation g \<le> 2" "next_generation g \<noteq> g" "next_generation (next_generation g) \<noteq> g"
proof -
  have "unat g \<le> 2" using assms by (simp add: word_le_nat_alt)
  then have "unat g = 0 \<or> unat g = 1 \<or> unat g = 2" by linarith
  then have "g = 0 \<or> g = 1 \<or> g = 2" by (simp add: word_unat_eq_iff)
  then show "next_generation g \<le> 2" "next_generation g \<noteq> g" "next_generation (next_generation g) \<noteq> g"
    by (auto simp: next_generation_def)
qed

lemma slots_apart:
  assumes "slot \<in> {CONFIGURATION_SLOT_A, CONFIGURATION_SLOT_B}" "x \<ge> unat (slot_address slot)" "x < unat (slot_address slot) + 12288"
  shows "x < unat (slot_address (other_slot slot)) \<or> unat (slot_address (other_slot slot)) + 12288 \<le> x"
  using assms by (auto simp: slot_address_def other_slot_def)

lemma slot_cases: "slot \<in> {CONFIGURATION_SLOT_A, CONFIGURATION_SLOT_B} \<Longrightarrow> other_slot slot \<in> {CONFIGURATION_SLOT_A, CONFIGURATION_SLOT_B} \<and>
    other_slot (other_slot slot) = slot"
  by (auto simp: other_slot_def)

text \<open>With the persisted record in place, the record of the target slot decides.\<close>

lemma chosen_persisted:
  assumes "slot \<in> {CONFIGURATION_SLOT_A, CONFIGURATION_SLOT_B}" "g \<le> 2" "record_of tls f slot = Some (g, c)"
  shows "record_of tls f (other_slot slot) = None \<Longrightarrow> chosen tls f = Some (slot, g, c)"
    and "record_of tls f (other_slot slot) = Some (next_generation g, c') \<Longrightarrow> chosen tls f = Some (other_slot slot, next_generation g, c')"
    and "chosen tls f \<noteq> None"
  using assms generations [OF assms(2)]
  by (auto simp: chosen_def other_slot_def split: option.splits)

text \<open>
  What the memory may hold after a write of \<open>payload\<close> that began with \<open>p\<close> persisted and was cut off: the choice of
  a start-up is \<open>p\<close>, the new configuration, one that was possible before the write, or the first sector of
  the target slot is half erased and what is left of its old record has changed and is valid all the same.
\<close>

definition write_outcome ::
  "mbedtls_api \<Rightarrow> configuration_service \<Rightarrow> external_flash \<Rightarrow> (u8 \<times> u32 \<times> configuration_t) option \<Rightarrow> u8 list \<Rightarrow> u32 \<Rightarrow>
   (nat \<Rightarrow> u8) \<Rightarrow> bool" where
  "write_outcome tls s d p payload n f' \<longleftrightarrow>
     chosen tls f' = p \<or>
     (\<exists>c. configuration_binary_decode tls (Some payload) n (Some zero_configuration) = (CONFIGURATION_BINARY_CODEC_OK, Some c) \<and>
          chosen tls f' = Some (target_slot s, target_generation s, c)) \<or>
     (\<exists>f \<in> images d. chosen tls f' = chosen tls f) \<or>
     (\<exists>f \<in> images d. cells_erased (unat (slot_address (target_slot s))) 4096 f False f' \<and>
          record_of tls f' (target_slot s) \<noteq> None \<and> record_of tls f' (target_slot s) \<noteq> record_of tls f (target_slot s))"

lemma target_range: "persists tls s d p \<Longrightarrow> target_slot s \<in> {CONFIGURATION_SLOT_A, CONFIGURATION_SLOT_B} \<and> target_generation s \<le> 2"
  using generations(1) by (auto simp: persists_def target_slot_def target_generation_def other_slot_def split: option.splits)

lemma record_of_cong:
  "(\<And>x. x \<ge> unat (slot_address slot) \<Longrightarrow> x < unat (slot_address slot) + 12288 \<Longrightarrow> f x = g x) \<Longrightarrow> record_of tls f slot = record_of tls g slot"
  by (rule slot_record_cong)

text \<open>What the records of a memory say about the choice, given the invariant.\<close>

lemma chosen_from_records:
  assumes inv: "persists tls s d p" and f: "f \<in> images d"
    and keep: "record_of tls f' (other_slot (target_slot s)) = record_of tls f (other_slot (target_slot s))"
  shows "record_of tls f' (target_slot s) = None \<Longrightarrow> chosen tls f' = p"
    and "record_of tls f' (target_slot s) = Some (target_generation s, c) \<Longrightarrow> chosen tls f' = Some (target_slot s, target_generation s, c)"
    and "p \<noteq> None \<Longrightarrow> chosen tls f' \<noteq> None"
proof -
  have main: "(record_of tls f' (target_slot s) = None \<longrightarrow> chosen tls f' = p) \<and>
    (record_of tls f' (target_slot s) = Some (target_generation s, c) \<longrightarrow> chosen tls f' = Some (target_slot s, target_generation s, c)) \<and>
    (p \<noteq> None \<longrightarrow> chosen tls f' \<noteq> None)"
  proof (cases p)
    case None
    then have "\<not> persisted_configuration_exists s" "record_of tls f CONFIGURATION_SLOT_B = None" using inv f by (auto simp: persists_def)
    then show ?thesis using keep None by (auto simp: target_slot_def other_slot_def chosen_def target_generation_def)
  next
    case (Some q)
    obtain slot g c0 where q: "q = (slot, g, c0)" by (metis prod_cases3)
    have s: "persisted_configuration_exists s" "persisted_slot s = slot" "persisted_generation s = g"
      "slot \<in> {CONFIGURATION_SLOT_A, CONFIGURATION_SLOT_B}" "g \<le> 2" "record_of tls f slot = Some (g, c0)"
      using inv f Some q by (auto simp: persists_def)
    have t: "target_slot s = other_slot slot" "target_generation s = next_generation g" using s by (simp_all add: target_slot_def target_generation_def)
    have "record_of tls f' slot = Some (g, c0)" using keep s(6) slot_cases [OF s(4)] by (simp add: t)
    from chosen_persisted [OF s(4,5) this] show ?thesis using Some q t by simp
  qed
  then show "record_of tls f' (target_slot s) = None \<Longrightarrow> chosen tls f' = p"
    "record_of tls f' (target_slot s) = Some (target_generation s, c) \<Longrightarrow> chosen tls f' = Some (target_slot s, target_generation s, c)"
    "p \<noteq> None \<Longrightarrow> chosen tls f' \<noteq> None" by blast+
qed

lemma chosen_cong:
  "record_of tls f CONFIGURATION_SLOT_A = record_of tls g CONFIGURATION_SLOT_A \<Longrightarrow>
   record_of tls f CONFIGURATION_SLOT_B = record_of tls g CONFIGURATION_SLOT_B \<Longrightarrow> chosen tls f = chosen tls g"
  by (simp add: chosen_def)

lemma write_slot_result:
  "write_slot slot g payload n ws d = (r, ws', d') \<Longrightarrow> r = CONFIGURATION_SERVICE_OK \<or> r = CONFIGURATION_SERVICE_IO_ERROR"
  by (auto simp: write_slot_def Let_def split: prod.splits if_splits)

lemma write_core:
  assumes inv: "persists tls s d p" and wr: "configuration_service_write tls (Some payload) n s d = (r, s', d')"
    and len: "unat n \<le> length payload"
  shows "active_configuration s' = active_configuration s \<and> external_flash_initialized d' = external_flash_initialized d \<and>
    (\<forall>f' \<in> images d'. write_outcome tls s d p payload n f' \<and> (p \<noteq> None \<longrightarrow> chosen tls f' \<noteq> None)) \<and>
    (if r = CONFIGURATION_SERVICE_OK
     then \<exists>c. configuration_binary_decode tls (Some payload) n (Some zero_configuration) = (CONFIGURATION_BINARY_CODEC_OK, Some c) \<and>
            persists tls s' d' (Some (target_slot s, target_generation s, c)) \<and>
            pending d' = None \<and> chosen tls (cells d') = Some (target_slot s, target_generation s, c)
     else persists tls s' d' p) \<and>
    (r \<noteq> CONFIGURATION_SERVICE_OK \<longrightarrow> r \<noteq> CONFIGURATION_SERVICE_IO_ERROR \<longrightarrow> d' = d)"
proof -
  have ready: "service_state s = CONFIGURATION_SERVICE_READY" and ws: "length (workspace s) = CONFIGURATION_WORKSPACE_SIZE"
    using inv by (auto simp: persists_def)
  obtain cr temp where dc: "configuration_binary_decode tls (Some payload) n (Some (decode_target (temporary_configuration s))) = (cr, temp)"
    by (metis surj_pair)
  have same: "write_outcome tls s d p payload n f" if "f \<in> images d" for f
    using that by (auto simp: write_outcome_def)
  have nonempty: "p \<noteq> None \<longrightarrow> chosen tls f \<noteq> None" if "f \<in> images d" for f
    using chosen_from_records(3) [OF inv that refl] by blast
  show ?thesis
  proof (cases "n = 0 \<or> unat n > CONFIGURATION_V2_MAX_PAYLOAD_LENGTH \<or> cr \<noteq> CONFIGURATION_BINARY_CODEC_OK")
    case True
    then have "d' = d" "s' = s \<or> s' = s\<lparr>temporary_configuration := temp\<rparr>" "r \<noteq> CONFIGURATION_SERVICE_OK"
      using wr ready dc by (auto simp: configuration_service_write_def Let_def split: if_splits)
    then show ?thesis using inv same nonempty by (auto simp: persists_def split: option.splits)
  next
    case False
    then have n: "n \<noteq> 0" "unat n \<le> CONFIGURATION_V2_MAX_PAYLOAD_LENGTH" and ok: "cr = CONFIGURATION_BINARY_CODEC_OK" by simp_all
    obtain c where c: "temp = Some c" using decode_OK_Some dc ok by blast
    have dz: "configuration_binary_decode tls (Some payload) n (Some zero_configuration) = (CONFIGURATION_BINARY_CODEC_OK, Some c)"
      using decode_any_target(2) [of tls payload n "decode_target (temporary_configuration s)" zero_configuration] dc ok c by simp
    let ?t = "target_slot s"
    let ?g = "target_generation s"
    have t: "?t \<in> {CONFIGURATION_SLOT_A, CONFIGURATION_SLOT_B}" "?g \<le> 2" using target_range [OF inv] by auto
    obtain rw ws' d1 where w: "write_slot ?t ?g payload n (workspace s) d = (rw, ws', d1)" by (metis prod_cases3)
    let ?s2 = "s\<lparr>temporary_configuration := temp, workspace := ws'\<rparr>"
    have res: "r = rw" "d' = d1" "s' = (if rw = CONFIGURATION_SERVICE_OK
        then ?s2\<lparr>persisted_configuration_exists := True, persisted_slot := ?t, persisted_generation := ?g\<rparr> else ?s2)"
      using wr ready dc n ok w by (auto simp: configuration_service_write_def target_slot_def target_generation_def Let_def split: if_splits)
    from write_slot_commits [OF w ws n(2) len] obtain okc dm where cm:
      "run_steps (commit_steps ?t ?g payload n) d = (okc, dm)" "images d1 \<subseteq> images dm" "length ws' = CONFIGURATION_WORKSPACE_SIZE"
      "external_flash_initialized d1 = external_flash_initialized d" "rw = CONFIGURATION_SERVICE_OK \<longrightarrow> okc \<and> pending d1 = None" by blast
    let ?a = "unat (slot_address ?t)"
    have lens: "length (take 4 (slot_header ?g payload n)) = 4" "length (record_body ?g payload n) \<le> 12284" using n len by simp_all
    have img: "\<exists>f \<in> images d. (record_of tls f' (other_slot ?t) = record_of tls f (other_slot ?t)) \<and>
        (cells_erased ?a 4096 f False f' \<or> record_of tls f' ?t = None \<or> record_of tls f' ?t = Some (?g, c)) \<and>
        (rw = CONFIGURATION_SERVICE_OK \<longrightarrow> record_of tls f' ?t = Some (?g, c))" if f': "f' \<in> images d1" for f'
    proof -
      have fm: "f' \<in> images dm" using f' cm(2) by blast
      from external.commit_images [OF cm(1) [unfolded commit_steps_def Let_def] lens fm]
      obtain f where f: "f \<in> images d" "\<forall>x. x < ?a \<or> ?a + 12288 \<le> x \<longrightarrow> f' x = f x"
        "cells_erased ?a 4096 f False f' \<or> (\<forall>i < 4. f' (?a + i) = 0xFF) \<or>
         (\<forall>i < length (record_body ?g payload n). f' (?a + 4 + i) = record_body ?g payload n ! i)"
        "okc \<longrightarrow> (\<forall>i < 4. f' (?a + i) = take 4 (slot_header ?g payload n) ! i) \<and>
         (\<forall>i < length (record_body ?g payload n). f' (?a + 4 + i) = record_body ?g payload n ! i)" by blast
      have "record_of tls f' (other_slot ?t) = record_of tls f (other_slot ?t)"
      proof (rule record_of_cong)
        fix x assume "unat (slot_address (other_slot ?t)) \<le> x" "x < unat (slot_address (other_slot ?t)) + 12288"
        with slots_apart [of "other_slot ?t" x] slot_cases [OF t(1)] f(2) show "f' x = f x" by auto
      qed
      moreover have "cells_erased ?a 4096 f False f' \<or> record_of tls f' ?t = None \<or> record_of tls f' ?t = Some (?g, c)"
        using f(3) erased_no_record [of f' ?a tls] body_decides [OF _ t(2) n len dz, of f' ?a] by blast
      moreover have "record_of tls f' ?t = Some (?g, c)" if "rw = CONFIGURATION_SERVICE_OK"
        using that cm(5) f(4) written_record [OF _ _ t(2) n len dz, of f' ?a] by simp
      ultimately show ?thesis using f(1) by blast
    qed
    have out: "write_outcome tls s d p payload n f'" "p \<noteq> None \<longrightarrow> chosen tls f' \<noteq> None" if "f' \<in> images d1" for f'
    proof -
      from img [OF that] obtain f where f: "f \<in> images d" "record_of tls f' (other_slot ?t) = record_of tls f (other_slot ?t)"
        "cells_erased ?a 4096 f False f' \<or> record_of tls f' ?t = None \<or> record_of tls f' ?t = Some (?g, c)" by blast
      note cfr = chosen_from_records [OF inv f(1,2)]
      show "p \<noteq> None \<longrightarrow> chosen tls f' \<noteq> None" using cfr(3) by blast
      show "write_outcome tls s d p payload n f'"
      proof (cases "record_of tls f' ?t = record_of tls f ?t")
        case True
        then have "chosen tls f' = chosen tls f" using t(1) f(2) by (intro chosen_cong) (auto simp: other_slot_def)
        then show ?thesis using f(1) by (auto simp: write_outcome_def)
      next
        case False
        then show ?thesis using f cfr(1,2) dz unfolding write_outcome_def by metis
      qed
    qed
    have pers: "persists tls s' d' (Some (?t, ?g, c)) \<and> pending d' = None \<and> chosen tls (cells d') = Some (?t, ?g, c)" if rok: "rw = CONFIGURATION_SERVICE_OK"
    proof -
      have p1: "pending d1 = None" using cm(5) rok by blast
      have rec: "\<forall>f' \<in> images d1. record_of tls f' ?t = Some (?g, c)" using img rok by blast
      have "cells d1 \<in> images d1" using images_none [OF p1] by simp
      from img [OF this] obtain f where f: "f \<in> images d" "record_of tls (cells d1) (other_slot ?t) = record_of tls f (other_slot ?t)"
        "record_of tls (cells d1) ?t = Some (?g, c)" using rok by blast
      from chosen_from_records(2) [OF inv f] have "chosen tls (cells d1) = Some (?t, ?g, c)" .
      then show ?thesis using res rok rec t cm(3) ready p1 by (simp add: persists_def)
    qed
    have keep: "persists tls s' d' p" if rno: "rw \<noteq> CONFIGURATION_SERVICE_OK"
    proof -
      have s': "s' = ?s2" using res rno by simp
      have "\<forall>f' \<in> images d1. \<exists>f \<in> images d. record_of tls f' (other_slot ?t) = record_of tls f (other_slot ?t)" using img by blast
      then show ?thesis using inv res(2) s' cm(3)
        by (auto simp: persists_def target_slot_def other_slot_def split: option.splits) 
    qed
    show ?thesis using res cm(4) out pers keep dz write_slot_result [OF w] by auto
  qed
qed

section \<open>Runs of the device\<close>

text \<open>The static variables at start-up; what they hold besides the state does not matter.\<close>

definition fresh :: "configuration_service \<Rightarrow> bool" where
  "fresh s \<longleftrightarrow> service_state s = CONFIGURATION_SERVICE_UNINITIALIZED \<and> length (workspace s) = CONFIGURATION_WORKSPACE_SIZE"

text \<open>Power returns: the flash driver and then the service are initialised; \<open>q\<close> is what the environment will do.\<close>

definition start_up ::
  "mbedtls_api \<Rightarrow> hal_outcome list \<Rightarrow> configuration_service \<Rightarrow> external_flash \<Rightarrow>
   configuration_service_result_t \<times> configuration_service \<times> external_flash" where
  "start_up tls q s d = configuration_service_init tls s (snd (external_flash_init (d\<lparr>outcomes := q\<rparr>)))"

text \<open>
  Every history of the service: it starts on any flash, writes any payloads, and loses its supply any
  number of times; a write that is cut off is one whose remaining calls fail.
\<close>

inductive service_run :: "mbedtls_api \<Rightarrow> configuration_service \<Rightarrow> external_flash \<Rightarrow> bool" for tls where
  first_start: "fresh s0 \<Longrightarrow> start_up tls q s0 (power_cycle m d) = (CONFIGURATION_SERVICE_OK, s, d') \<Longrightarrow> service_run tls s d'"
| service_write: "service_run tls s d \<Longrightarrow> unat n \<le> length payload \<Longrightarrow>
    configuration_service_write tls (Some payload) n s d = (r, s', d') \<Longrightarrow> service_run tls s' d'"
| restart: "service_run tls s d \<Longrightarrow> fresh s0 \<Longrightarrow>
    start_up tls q s0 (power_cycle m d) = (CONFIGURATION_SERVICE_OK, s', d') \<Longrightarrow> service_run tls s' d'"

lemma chosen_Some:
  "chosen tls f = Some (slot, g, c) \<Longrightarrow> slot \<in> {CONFIGURATION_SLOT_A, CONFIGURATION_SLOT_B} \<and> g \<le> 2 \<and> record_of tls f slot = Some (g, c)"
proof -
  have g2: "slot_record tls f a = Some (g, c) \<Longrightarrow> g \<le> 2" for a g c
    by (auto simp: slot_record_def Let_def split: if_splits prod.splits configuration_binary_codec_result_t.splits option.splits)
  assume "chosen tls f = Some (slot, g, c)"
  then have "slot \<in> {CONFIGURATION_SLOT_A, CONFIGURATION_SLOT_B} \<and> record_of tls f slot = Some (g, c)"
    by (auto simp: chosen_def split: option.splits if_splits)
  then show ?thesis using g2 by blast
qed

lemma chosen_None: "chosen tls f = None \<Longrightarrow> record_of tls f CONFIGURATION_SLOT_B = None"
  by (auto simp: chosen_def split: option.splits if_splits)

text \<open>A start-up that reports OK has loaded the choice, and establishes the invariant.\<close>

lemma start_up_loads:
  assumes fr: "fresh s0" and st: "start_up tls q s0 (power_cycle m d) = (r, s, d')"
  shows "r = CONFIGURATION_SERVICE_OK \<Longrightarrow> loaded s = chosen tls (settle m d) \<and> persists tls s d' (loaded s) \<and>
    pending d' = None \<and> loaded s = chosen tls (cells d')"
proof -
  let ?d1 = "snd (external_flash_init ((power_cycle m d)\<lparr>outcomes := q\<rparr>))"
  obtain r0 where i0: "external_flash_init ((power_cycle m d)\<lparr>outcomes := q\<rparr>) = (r0, ?d1)" by (metis prod.collapse)
  have "cells ?d1 = settle m d \<and> pending ?d1 = None"
    using init_effect [OF i0] by (simp add: power_cycle_def)
  then have im: "images ?d1 = {settle m d}" by (simp add: images_none)
  obtain rl sl dl where ld: "load_configuration tls s0 ?d1 = (rl, sl, dl)" by (metis prod_cases3)
  have ws: "length (workspace s0) = CONFIGURATION_WORKSPACE_SIZE" using fr by (simp add: fresh_def)
  assume ok: "r = CONFIGURATION_SERVICE_OK"
  then have res: "rl = CONFIGURATION_SERVICE_OK" "s = sl\<lparr>service_state := CONFIGURATION_SERVICE_READY\<rparr>" "d' = dl"
    using st fr ld by (auto simp: start_up_def configuration_service_init_def fresh_def split: if_splits)
  note l = load_effect [OF ld ws]
  have p: "pending dl = None" "loaded s = chosen tls (cells dl)" using l res by (auto simp: loaded_def)
  have "cells dl \<in> images dl" using p(1) by (simp add: images_none)
  then have c: "cells dl = settle m d" using l im by auto
  have imd: "images dl = {cells dl}" using p(1) by (simp add: images_none)
  have "persists tls s dl (loaded s)"
  proof (cases "loaded s")
    case None
    then show ?thesis using p l res imd chosen_None [of tls "cells dl"] by (auto simp: persists_def loaded_def split: if_splits)
  next
    case (Some x)
    obtain slot g cf where x: "x = (slot, g, cf)" by (metis prod_cases3)
    have "chosen tls (cells dl) = Some (slot, g, cf)" using p(2) Some x by simp
    from chosen_Some [OF this] show ?thesis using Some x l res imd
      by (auto simp: persists_def loaded_def split: if_splits)
  qed
  then show "loaded s = chosen tls (settle m d) \<and> persists tls s d' (loaded s) \<and>
    pending d' = None \<and> loaded s = chosen tls (cells d')"
    using p c res by simp
qed

lemma run_persists: "service_run tls s d \<Longrightarrow> \<exists>p. persists tls s d p"
proof (induction rule: service_run.induct)
  case (service_write s d n payload r s' d')
  then obtain p where "persists tls s d p" by blast
  from write_core [OF this service_write(3,2)] show ?case by (metis (full_types))
qed (blast dest: start_up_loads)+

text \<open>A power failure now and the next start.\<close>

lemma persists_then_start:
  assumes inv: "persists tls s d (Some p)" and fr: "fresh s0"
    and st: "start_up tls q s0 (power_cycle m d) = (CONFIGURATION_SERVICE_OK, s1, d1)"
  shows "loaded s1 \<noteq> None"
proof -
  have "loaded s1 = chosen tls (settle m d)" using start_up_loads [OF fr st] by simp
  then show ?thesis using chosen_from_records(3) [OF inv settle_in_images refl, of m] by simp
qed

section \<open>A healthy device\<close>

text \<open>mbedTLS never fails for want of memory.\<close>

definition memory_suffices :: "mbedtls_api \<Rightarrow> bool" where
  "memory_suffices tls \<longleftrightarrow> (\<forall>c. configuration_validate tls (Some c) \<noteq> CONFIGURATION_VALIDATION_RESOURCE_UNAVAILABLE)"

lemma decode_available:
  "memory_suffices tls \<Longrightarrow> fst (configuration_binary_decode tls b n e) \<noteq> CONFIGURATION_BINARY_CODEC_RESOURCE_UNAVAILABLE"
  by (auto simp: configuration_binary_decode_def memory_suffices_def Let_def split: list.splits option.splits if_splits prod.splits)

lemma read_slot_healthy:
  assumes d: "outcomes d = []" "external_flash_initialized d" and ws: "length ws = CONFIGURATION_WORKSPACE_SIZE"
    and tls: "memory_suffices tls"
  shows "\<exists>info t' ws' d'. read_slot tls slot t ws d = (CONFIGURATION_SERVICE_OK, info, t', ws', d') \<and> outcomes d' = []"
proof -
  have v: "external_flash_range_is_valid (slot_address slot) 20" by (auto simp: external_flash_range_is_valid_def slot_address_def)
  from read_healthy [OF d _ v, of ws] obtain w1 d1 where r1: "external_flash_read (slot_address slot) (Some ws) 20 d = (EXTERNAL_FLASH_RESULT_OK, w1, d1)"
    "outcomes d1 = []" by auto
  have "unat (20 :: u32) \<le> length ws" using ws by simp
  from read_effect [OF r1(1) this] obtain ws1 where e: "w1 = Some ws1" "external_flash_initialized d1" using d(2) by auto
  let ?n = "read_u32_le ws1 8"
  show ?thesis
  proof (cases "read_u32_le ws1 0 \<noteq> CONFIGURATION_SLOT_MAGIC \<or> \<not> generation_is_valid (read_u32_le ws1 4) \<or> ?n = 0 \<or>
      unat ?n > CONFIGURATION_V2_MAX_PAYLOAD_LENGTH \<or> crc32 ws1 16 \<noteq> read_u32_le ws1 16")
    case True
    then have "read_slot tls slot t ws d =
        (CONFIGURATION_SERVICE_OK, \<lparr>slot_valid = False, slot_generation = read_u32_le ws1 4\<rparr>, t, ws1, d1)"
      using r1(1) e(1) unfolding read_slot_def by (simp only: Let_def prod.case option.sel of_nat_numeral if_True simp_thms if_False)
    then show ?thesis using r1(2) by blast
  next
    case False
    have v2: "external_flash_range_is_valid (slot_address slot + 20) ?n"
      using False by (auto simp: external_flash_range_is_valid_def slot_address_def word_le_nat_alt)
    have n0: "?n \<noteq> 0" using False by blast
    from read_healthy [OF r1(2) e(2) n0 v2, of "drop 20 ws1"] obtain w2 d2 where
      r2: "external_flash_read (slot_address slot + 20) (Some (drop 20 ws1)) ?n d1 = (EXTERNAL_FLASH_RESULT_OK, w2, d2)" "outcomes d2 = []" by blast
    obtain cr t' where dc: "configuration_binary_decode tls (Some (drop 20 (take 20 ws1 @ the w2))) ?n (Some (decode_target t)) = (cr, t')"
      by (metis surj_pair)
    have "cr \<noteq> CONFIGURATION_BINARY_CODEC_RESOURCE_UNAVAILABLE" using decode_available [OF tls] dc by (metis fst_conv)
    then show ?thesis
      using r1(1) e(1) r2 False dc unfolding read_slot_def
      by (simp only: Let_def prod.case option.sel of_nat_numeral if_True simp_thms if_False split: if_split) blast
  qed
qed

lemma erase_slot_healthy:
  assumes "outcomes d = []" "external_flash_initialized d"
  shows "\<exists>d'. erase_slot_sectors (slot_address slot) 0 3 d = (EXTERNAL_FLASH_RESULT_OK, d') \<and> outcomes d' = [] \<and> external_flash_initialized d'"
proof -
  have step: "\<exists>d'. external_flash_erase_4k (slot_address slot + k) d = (EXTERNAL_FLASH_RESULT_OK, d') \<and> outcomes d' = [] \<and> external_flash_initialized d'"
    if "k \<in> {0, 4096, 8192}" "outcomes d = []" "external_flash_initialized d" for k d
  proof -
    have "slot_address slot + k \<le> 0x01000000 - 4096" "(slot_address slot + k) AND 4095 = 0" using that(1) by (auto simp: slot_address_def)
    from erase_healthy [OF that(2,3) this] obtain d' where e: "external_flash_erase_4k (slot_address slot + k) d = (EXTERNAL_FLASH_RESULT_OK, d')" "outcomes d' = []" by blast
    then show ?thesis using erase_effect [OF e(1) settle_in_images [of "\<lambda>_. 0"]] that(3) by blast
  qed
  obtain d1 where 1: "external_flash_erase_4k (slot_address slot + 0) d = (EXTERNAL_FLASH_RESULT_OK, d1)" "outcomes d1 = []" "external_flash_initialized d1"
    using step [of 0 d] assms by auto
  obtain d2 where 2: "external_flash_erase_4k (slot_address slot + 4096) d1 = (EXTERNAL_FLASH_RESULT_OK, d2)" "outcomes d2 = []" "external_flash_initialized d2"
    using step [of 4096 d1] 1 by auto
  obtain d3 where 3: "external_flash_erase_4k (slot_address slot + 8192) d2 = (EXTERNAL_FLASH_RESULT_OK, d3)" "outcomes d3 = []" "external_flash_initialized d3"
    using step [of 8192 d2] 2 by auto
  show ?thesis using 1 2 3 by (simp add: numeral_3_eq_3)
qed

lemma write_slot_healthy:
  assumes d: "outcomes d = []" "external_flash_initialized d" and ws: "length ws = CONFIGURATION_WORKSPACE_SIZE"
    and n: "unat n \<le> CONFIGURATION_V2_MAX_PAYLOAD_LENGTH" "unat n \<le> length payload"
  shows "\<exists>ws' d'. write_slot slot g payload n ws d = (CONFIGURATION_SERVICE_OK, ws', d') \<and> outcomes d' = [] \<and> external_flash_initialized d'"
proof -
  let ?a = "slot_address slot"
  let ?h = "slot_header g payload n"
  let ?p = "take (unat n) payload"
  let ?w = "overwrite 20 ?p (overwrite 0 ?h ws)"
  have lp: "length ?p = unat n" using n by simp
  have lw: "length ?w = CONFIGURATION_WORKSPACE_SIZE" using ws n lp by simp
  have w20: "take (20 + unat n) ?w = ?h @ ?p"
    using ws n lp by (intro nth_equalityI) (auto simp: nth_overwrite nth_append)
  have a: "unat ?a + 12288 \<le> 2 ^ 24" "unat (?a + 4) = unat ?a + 4" by (simp_all add: slot_address_def)
  have un: "unat (n + 20 - 4) = unat n + 16" "unat (20 + n) = 20 + unat n"
  proof -
    have "n + 20 - 4 = n + 16" using add_diff_eq [of n 20 4] by simp
    moreover have "unat n + unat (16 :: u32) < 2 ^ LENGTH(32)" "unat (20 :: u32) + unat n < 2 ^ LENGTH(32)" using n by simp_all
    ultimately show "unat (n + 20 - 4) = unat n + 16" "unat (20 + n) = 20 + unat n"
      by (simp_all only: unat_plus_small) simp_all
  qed
  have valid: "external_flash_range_is_valid b k" if "unat b + unat k \<le> 2 ^ 24" "unat k > 0" for b k
  proof -
    have le: "b \<le> 0x01000000" using that by (simp add: word_le_nat_alt)
    have "unat (0x01000000 - b) = 2 ^ 24 - unat b" using unat_sub [OF le] by simp
    then show ?thesis using that by (simp add: external_flash_range_is_valid_def word_le_nat_alt word_less_nat_alt)
  qed
  have pos: "k \<noteq> 0" if "0 < unat k" for k :: u32 using that by auto
  obtain d1 where 1: "erase_slot_sectors ?a 0 3 d = (EXTERNAL_FLASH_RESULT_OK, d1)" "outcomes d1 = []" "external_flash_initialized d1"
    using erase_slot_healthy [OF d] by blast
  have "external_flash_range_is_valid (?a + 4) (n + 20 - 4)" "n + 20 - 4 \<noteq> 0"
    using a n un by (intro valid pos; simp)+
  from program_healthy [OF 1(2,3) this(2,1)] obtain d2 where
    2: "external_flash_program (?a + 4) (Some (drop 4 ?w)) (n + 20 - 4) d1 = (EXTERNAL_FLASH_RESULT_OK, d2)" "outcomes d2 = []" by blast
  have len2: "unat (n + 20 - 4) \<le> length (drop 4 ?w)" using lw n unfolding un by simp
  have i2: "external_flash_initialized d2" using program_effect [OF 2(1) len2 settle_in_images [of "\<lambda>_. 0"]] 1(3) by simp
  have "external_flash_range_is_valid ?a 4" using a by (intro valid) simp_all
  from program_healthy [OF 2(2) i2 _ this] obtain d3 where
    3: "external_flash_program ?a (Some ?w) 4 d2 = (EXTERNAL_FLASH_RESULT_OK, d3)" "outcomes d3 = []" by fastforce
  have len3: "unat (4 :: u32) \<le> length ?w" using lw by simp
  have i3: "external_flash_initialized d3" using program_effect [OF 3(1) len3 settle_in_images [of "\<lambda>_. 0"]] i2 by simp
  have "external_flash_range_is_valid ?a (20 + n)" "20 + n \<noteq> 0" using a n un by (intro valid pos; simp)+
  from read_healthy [OF 3(2) i3 this(2,1)] obtain w4 d4 where
    4: "external_flash_read ?a (Some ?w) (20 + n) d3 = (EXTERNAL_FLASH_RESULT_OK, w4, d4)" "outcomes d4 = []" by blast
  have "unat (20 + n) \<le> length ?w" using lw n unfolding un by simp
  from read_effect [OF 4(1) this] obtain ws4 where e4: "w4 = Some ws4" "images d4 \<subseteq> images d3" "external_flash_initialized d4" "pending d4 = None"
    "ws4 = overwrite 0 (memory_bytes (cells d4) (unat ?a) (20 + unat n)) ?w" using i3 by (auto simp: memory_bytes_def un)
  have body: "take (unat (n + 20 - 4)) (drop 4 ?w) = record_body g payload n"
  proof -
    have "take (unat n + 16) (drop 4 ?w) = drop 4 (take (20 + unat n) ?w)" by (simp add: take_drop add.commute)
    then show ?thesis unfolding un w20 by simp
  qed
  have head: "take (unat (4 :: u32)) ?w = take 4 ?h"
  proof -
    have "take 4 ?w = take 4 (take (20 + unat n) ?w)" by simp
    then show ?thesis unfolding w20 by simp
  qed
  have bnd: "unat (?a + 4) + unat (n + 20 - 4) < 2 ^ 32" "unat ?a + unat (4 :: u32) < 2 ^ 32" using a n un by simp_all
  have st: "external_prog (unat ?a + 4) (record_body g payload n) d1 = (True, d2)" "external_prog (unat ?a) (take 4 ?h) d2 = (True, d3)"
    using external_prog_call [OF len2 bnd(1), of d1] external_prog_call [OF len3 bnd(2), of d2] 2(1) 3(1)
    unfolding body head a(2) by simp_all
  have er: "run_steps [external_erase (unat ?a), external_erase (unat ?a + 4096), external_erase (unat ?a + 8192)] d = (True, d1)"
    using erase_slot_steps [of ?a d] a 1(1) by simp
  have run: "run_steps [external_erase (unat ?a), external_erase (unat ?a + 4096), external_erase (unat ?a + 8192),
      external_prog (unat ?a + 4) (record_body g payload n), external_prog (unat ?a) (take 4 ?h)] d = (True, d3)"
    using run_steps_append [of "[external_erase (unat ?a), external_erase (unat ?a + 4096), external_erase (unat ?a + 8192)]"
        "[external_prog (unat ?a + 4) (record_body g payload n), external_prog (unat ?a) (take 4 ?h)]" d] er st by simp
  have lens: "length (take 4 ?h) = 4" "length (record_body g payload n) \<le> 12284" using n by simp_all
  have "cells d4 \<in> images d3" using e4 images_none by blast
  from external.commit_images [OF run lens this]
  have c: "\<forall>i < 4. cells d4 (unat ?a + i) = ?h ! i" "\<forall>i < length (record_body g payload n). cells d4 (unat ?a + 4 + i) = record_body g payload n ! i"
    by (auto simp del: length_append)
  have m: "memory_bytes (cells d4) (unat ?a) (20 + unat n) = ?h @ ?p"
  proof (rule nth_equalityI)
    fix k assume "k < length (memory_bytes (cells d4) (unat ?a) (20 + unat n))"
    then have k: "k < 20 + unat n" by simp
    show "memory_bytes (cells d4) (unat ?a) (20 + unat n) ! k = (?h @ ?p) ! k"
    proof (cases "k < 4")
      case True
      then show ?thesis using c(1) k by (simp add: memory_bytes_def nth_append)
    next
      case False
      then have k4: "unat ?a + 4 + (k - 4) = unat ?a + k" "k - 4 < length (record_body g payload n)" using k lp by simp_all
      have "(?h @ ?p) ! k = drop 4 (?h @ ?p) ! (k - 4)" using False k lp nth_drop [of 4 "?h @ ?p" "k - 4"] by simp
      then show ?thesis using c(2) [rule_format, OF k4(2)] k k4(1) by (simp add: memory_bytes_def)
    qed
  qed (use lp in simp)
  have "take (20 + unat n) ws4 = ?h @ ?p" using e4(5) m lp by (simp add: overwrite_def)
  note tk = this
  have "take 20 ws4 = take 20 (take (20 + unat n) ws4)" by simp
  then have t1: "take 20 ws4 = ?h" unfolding tk by simp
  have "take (unat n) (drop 20 ws4) = drop 20 (take (20 + unat n) ws4)" by (simp add: take_drop add.commute)
  then have "take (unat n) (drop 20 ws4) = ?p" unfolding tk by simp
  note t = t1 this
  show ?thesis using 1 2 3 4 e4 t by (simp add: write_slot_def Let_def)
qed

text \<open>A healthy blank device starts with the defaults, and then accepts every payload that decodes.\<close>

lemma write_healthy:
  assumes "outcomes d = []" "external_flash_initialized d" "persists tls s d p" "n \<noteq> 0" "unat n \<le> CONFIGURATION_V2_MAX_PAYLOAD_LENGTH"
    "unat n \<le> length payload" "configuration_binary_decode tls (Some payload) n (Some zero_configuration) = (CONFIGURATION_BINARY_CODEC_OK, Some c)"
  shows "\<exists>s' d'. configuration_service_write tls (Some payload) n s d = (CONFIGURATION_SERVICE_OK, s', d') \<and> outcomes d' = []"
proof -
  have s: "service_state s = CONFIGURATION_SERVICE_READY" "length (workspace s) = CONFIGURATION_WORKSPACE_SIZE"
    using assms(3) by (auto simp: persists_def)
  have "configuration_binary_decode tls (Some payload) n (Some (decode_target (temporary_configuration s))) = (CONFIGURATION_BINARY_CODEC_OK, Some c)"
    using decode_any_target(2) [of tls payload n zero_configuration "decode_target (temporary_configuration s)"] assms(7) by simp
  note dc = this
  obtain ws' d' where "write_slot (target_slot s) (target_generation s) payload n (workspace s) d = (CONFIGURATION_SERVICE_OK, ws', d')" "outcomes d' = []"
    using write_slot_healthy [OF assms(1,2) s(2) assms(5,6)] by blast
  then show ?thesis using dc s assms(4,5)
    by (cases "persisted_configuration_exists s")
      (simp_all add: configuration_service_write_def Let_def target_slot_def target_generation_def)
qed

lemma start_up_healthy:
  assumes fr: "fresh s" and tls: "memory_suffices tls"
  shows "\<exists>s' d'. start_up tls [] s (power_cycle m d) = (CONFIGURATION_SERVICE_OK, s', d') \<and> outcomes d' = [] \<and>
    external_flash_initialized d'"
proof -
  let ?d0 = "(power_cycle m d)\<lparr>outcomes := []\<rparr>"
  have reg: "outcomes e = [] \<Longrightarrow> register_callbacks k e = (True, e)" for k e
    by (induction k) (simp_all add: HAL_SPI_RegisterCallback_def take_outcome_healthy)
  obtain d1 where i0: "external_flash_init ?d0 = (EXTERNAL_FLASH_RESULT_OK, d1)" and o1: "outcomes d1 = []"
    by (simp add: external_flash_init_def power_cycle_def Let_def reg)
  have i1: "external_flash_initialized d1" using init_effect [OF i0] by (simp_all add: power_cycle_def)
  have ws: "length (workspace s) = CONFIGURATION_WORKSPACE_SIZE" using fr by (simp add: fresh_def)
  let ?s0 = "s\<lparr>persisted_configuration_exists := False\<rparr>"
  obtain ia ta wa da where A: "read_slot tls CONFIGURATION_SLOT_A (temporary_configuration s) (workspace s) d1 =
      (CONFIGURATION_SERVICE_OK, ia, ta, wa, da)" "outcomes da = []"
    using read_slot_healthy [OF o1 i1 ws tls] by blast
  note a = read_slot_record [OF A(1) ws]
  let ?s1 = "?s0\<lparr>temporary_configuration := ta, workspace := wa\<rparr>"
  let ?s2 = "if slot_valid ia then adopt_slot CONFIGURATION_SLOT_A (slot_generation ia) ?s1 else ?s1"
  have s2: "temporary_configuration ?s2 = ta" "workspace ?s2 = wa" by (auto simp: adopt_slot_def)
  have ia1: "external_flash_initialized da" using a i1 by simp
  obtain ib tb wb db where B: "read_slot tls CONFIGURATION_SLOT_B ta wa da = (CONFIGURATION_SERVICE_OK, ib, tb, wb, db)" "outcomes db = []"
    using read_slot_healthy [OF A(2) ia1 conjunct1 [OF a] tls] by blast
  have ib1: "external_flash_initialized db" using read_slot_record [OF B(1) conjunct1 [OF a]] ia1 by simp
  obtain s3 where "load_configuration tls s d1 = (CONFIGURATION_SERVICE_OK, s3, db)"
    unfolding load_configuration_def Let_def using A B s2 by simp
  then show ?thesis using fr i0 B(2) ib1 by (simp add: start_up_def configuration_service_init_def fresh_def)
qed

section \<open>Properties\<close>

definition example_service :: configuration_service where
  "example_service = \<lparr>active_configuration = zero_configuration, temporary_configuration = None,
     workspace = replicate CONFIGURATION_WORKSPACE_SIZE 0, service_state = CONFIGURATION_SERVICE_UNINITIALIZED,
     persisted_configuration_exists = False, persisted_slot = 0, persisted_generation = 0\<rparr>"

lemma fresh_example: "fresh example_service"
  by (simp add: fresh_def example_service_def)

lemma blank_images: "settle m blank_flash x = 0xFF"
  by (simp add: settle_def blank_flash_def)

text \<open>The payload of the factory defaults.\<close>

definition example_payload :: "u8 list" where
  "example_payload = 2 # fields_enc default_configuration"

lemma example_payload_length: "length example_payload \<le> CONFIGURATION_V2_MAX_PAYLOAD_LENGTH"
  using length_fields_enc [OF valid_fields_ok [OF default_wf default_OK]] by (simp add: example_payload_def)

abbreviation "example_length \<equiv> (of_nat (length example_payload) :: u32)"

lemma example_length: "unat example_length = length example_payload"
  using example_payload_length by (simp add: unat_of_nat take_bit_nat_eq_self)

lemma example_decodes:
  "\<exists>c. configuration_binary_decode no_tls (Some example_payload) example_length (Some zero_configuration) = (CONFIGURATION_BINARY_CODEC_OK, Some c)"
  using decode_of_encoding [OF default_wf default_OK, of no_tls "[]" zero_configuration] by (auto simp: example_payload_def)

lemma no_tls_suffices: "memory_suffices no_tls"
proof -
  have "\<not> mbedtls_result_is_allocation_failure (- 0x2180)" by (simp add: mbedtls_result_is_allocation_failure_def Let_def)
  then have "ca_certificate_is_valid no_tls t = CONFIGURATION_VALIDATION_CERTIFICATE_INVALID" for t
    by (simp add: ca_certificate_is_valid_def no_tls_def Let_def)
  moreover have "collection_result c \<noteq> CONFIGURATION_VALIDATION_RESOURCE_UNAVAILABLE" for c
    by (simp add: collection_result_def Let_def)
  ultimately show ?thesis by (simp add: memory_suffices_def configuration_validate_def Let_def)
qed

text \<open>A healthy device holding \<open>f\<close> starts.\<close>

lemma example_started:
  "\<exists>s d. start_up no_tls [] example_service (power_cycle (\<lambda>_. 0) blank_flash) = (CONFIGURATION_SERVICE_OK, s, d) \<and> outcomes d = [] \<and>
     external_flash_initialized d"
  by (rule start_up_healthy [OF fresh_example no_tls_suffices])

lemma example_written:
  "\<exists>s d s' d'. start_up no_tls [] example_service (power_cycle (\<lambda>_. 0) blank_flash) = (CONFIGURATION_SERVICE_OK, s, d) \<and>
     configuration_service_write no_tls (Some example_payload) example_length s d = (CONFIGURATION_SERVICE_OK, s', d') \<and>
     persisted_configuration_exists s' \<and> unat example_length \<le> length example_payload"
proof -
  obtain s d where s: "start_up no_tls [] example_service (power_cycle (\<lambda>_. 0) blank_flash) = (CONFIGURATION_SERVICE_OK, s, d)"
      "outcomes d = []" "external_flash_initialized d" using example_started by blast
  then have p: "persists no_tls s d (loaded s)" using start_up_loads [OF fresh_example s(1)] by blast
  obtain c where c: "configuration_binary_decode no_tls (Some example_payload) example_length (Some zero_configuration) = (CONFIGURATION_BINARY_CODEC_OK, Some c)"
    using example_decodes by blast
  have "0 < unat example_length" by (simp add: example_length) (simp add: example_payload_def)
  then have n: "example_length \<noteq> 0" "unat example_length \<le> CONFIGURATION_V2_MAX_PAYLOAD_LENGTH" "unat example_length \<le> length example_payload"
    using example_payload_length example_length by (metis less_irrefl unat_0, simp_all)
  obtain s' d' where w: "configuration_service_write no_tls (Some example_payload) example_length s d = (CONFIGURATION_SERVICE_OK, s', d')" "outcomes d' = []"
    using write_healthy [OF s(2,3) p n c] by blast
  have "persisted_configuration_exists s'" using write_core [OF p w(1) n(3)] by (auto simp: persists_def)
  then show ?thesis using s w n by blast
qed

text \<open>
  C3. A saved configuration is never lost: in every history of starts, writes and supply failures, at any
  point, with any behaviour of the flash and the bus, once the service holds a persisted configuration every later
  start-up that succeeds loads a persisted configuration and does not fall back to the factory defaults.
\<close>

theorem saved_configuration_never_lost:
  assumes run: "service_run tls s d" and saved: "persisted_configuration_exists s" and fr: "fresh s0"
    and st: "start_up tls q s0 (power_cycle m d) = (CONFIGURATION_SERVICE_OK, s1, d1)"
  shows "persisted_configuration_exists s1 \<and> loaded s1 = chosen tls (settle m d)"
proof -
  obtain p where p: "persists tls s d p" using run_persists [OF run] by blast
  then obtain x where "p = Some x" using saved by (cases p) (auto simp: persists_def)
  then have "loaded s1 \<noteq> None" using persists_then_start [OF _ fr st] p by blast
  then show ?thesis using start_up_loads [OF fr st] by (auto simp: loaded_def split: if_splits)
qed


theorem saved_configuration_never_lost_witness:
  "\<exists>s d s1 d1. service_run no_tls s d \<and> persisted_configuration_exists s \<and>
     start_up no_tls [] example_service (power_cycle (\<lambda>_. 0) d) = (CONFIGURATION_SERVICE_OK, s1, d1) \<and>
     persisted_configuration_exists s1 \<and> loaded s1 = chosen no_tls (settle (\<lambda>_. 0) d)"
proof -
  obtain s d s' d' where w: "start_up no_tls [] example_service (power_cycle (\<lambda>_. 0) blank_flash) = (CONFIGURATION_SERVICE_OK, s, d)"
    "configuration_service_write no_tls (Some example_payload) example_length s d = (CONFIGURATION_SERVICE_OK, s', d')"
    "persisted_configuration_exists s'" "unat example_length \<le> length example_payload" using example_written by blast
  have run: "service_run no_tls s' d'"
    by (rule service_run.service_write [OF service_run.first_start [OF fresh_example w(1)] w(4,2)])
  obtain s1 d1 where st: "start_up no_tls [] example_service (power_cycle (\<lambda>_. 0) d') = (CONFIGURATION_SERVICE_OK, s1, d1)"
    using start_up_healthy [OF fresh_example no_tls_suffices] by blast
  show ?thesis using run w(3) st saved_configuration_never_lost [OF run w(3) fresh_example st] by blast
qed



lemma decode_OK_valid:
  "configuration_binary_decode tls (Some b) n (Some e) = (CONFIGURATION_BINARY_CODEC_OK, Some c) \<Longrightarrow>
   configuration_validate tls (Some c) = CONFIGURATION_VALIDATION_OK"
  by (auto simp: configuration_binary_decode_def Let_def split: list.splits option.splits if_splits prod.splits)

lemma record_valid: "slot_record tls f a = Some (g, c) \<Longrightarrow> configuration_validate tls (Some c) = CONFIGURATION_VALIDATION_OK"
  by (auto simp: slot_record_def Let_def dest: decode_OK_valid
      split: if_splits prod.splits configuration_binary_codec_result_t.splits option.splits)

lemma started_active_valid:
  assumes fr: "fresh s0" and st: "start_up tls q s0 (power_cycle m d) = (CONFIGURATION_SERVICE_OK, s, d')"
  shows "configuration_validate tls (Some (active_configuration s)) = CONFIGURATION_VALIDATION_OK"
proof (cases "loaded s")
  case (Some x)
  obtain slot g c where x: "x = (slot, g, c)" by (metis prod_cases3)
  have "c = active_configuration s" using Some x by (auto simp: loaded_def split: if_splits)
  moreover have "chosen tls (cells d') = Some (slot, g, c)" using start_up_loads [OF fr st] Some x by metis
  ultimately show ?thesis using chosen_Some record_valid by blast
next
  case None
  obtain sl where ld: "load_configuration tls s0 (snd (external_flash_init ((power_cycle m d)\<lparr>outcomes := q\<rparr>))) = (CONFIGURATION_SERVICE_OK, sl, d')"
      "s = sl\<lparr>service_state := CONFIGURATION_SERVICE_READY\<rparr>"
    using st fr by (auto simp: start_up_def configuration_service_init_def fresh_def split: prod.splits if_splits)
  have "Some (active_configuration sl) = configuration_set_defaults (Some (active_configuration sl))"
    using load_effect [OF ld(1)] fr None ld(2) by (simp add: fresh_def loaded_def split: if_splits)
  then show ?thesis using default_validates [of tls "active_configuration sl"] ld(2) by simp
qed

lemma run_active_valid:
  "service_run tls s d \<Longrightarrow> configuration_validate tls (Some (active_configuration s)) = CONFIGURATION_VALIDATION_OK"
proof (induction rule: service_run.induct)
  case (service_write s d n payload r s' d')
  obtain p where "persists tls s d p" using run_persists [OF service_write(1)] by blast
  from write_core [OF this service_write(3,2)] service_write(4) show ?case by simp
qed (auto dest: started_active_valid)

lemma persists_ready: "persists tls s d p \<Longrightarrow> service_state s = CONFIGURATION_SERVICE_READY"
  by (simp add: persists_def)

text \<open>
  C29. Only valid configurations become active: in every history, however damaged the flash and whatever was
  written before, the configuration the service hands out passes the validation.
\<close>

theorem active_configuration_is_valid:
  assumes "service_run tls s d"
  shows "\<exists>c. configuration_service_active s = Some c \<and> configuration_validate tls (Some c) = CONFIGURATION_VALIDATION_OK"
proof -
  obtain p where "persists tls s d p" using run_persists [OF assms] by blast
  then show ?thesis using run_active_valid [OF assms] persists_ready by (simp add: configuration_service_active_def)
qed

theorem active_configuration_is_valid_witness:
  "\<exists>s d. service_run no_tls s d \<and>
     (\<exists>c. configuration_service_active s = Some c \<and> configuration_validate no_tls (Some c) = CONFIGURATION_VALIDATION_OK)"
proof -
  obtain s d where "start_up no_tls [] example_service (power_cycle (\<lambda>_. 0) blank_flash) = (CONFIGURATION_SERVICE_OK, s, d)"
    using example_started by blast
  then have run: "service_run no_tls s d" by (rule service_run.first_start [OF fresh_example])
  then show ?thesis using active_configuration_is_valid [OF run] by blast
qed

text \<open>
  C12. A saved configuration takes effect at the next start and not before: encode a valid configuration, write the
  payload in any state the service can reach, and let the write report OK; the active configuration is unchanged,
  and after any supply failure the next successful start-up makes active a configuration that agrees with the
  saved one on every field in effect.
\<close>

theorem saved_configuration_takes_effect:
  assumes wf: "configuration_wf c" and v: "configuration_validate tls (Some c) = CONFIGURATION_VALIDATION_OK"
    and enc: "configuration_binary_encode (Some c) (Some buffer) (Some n0) = (CONFIGURATION_BINARY_CODEC_OK, Some bytes, Some n)"
    and run: "service_run tls s d" and wr: "configuration_service_write tls (Some bytes) n s d = (CONFIGURATION_SERVICE_OK, s', d')"
    and fr: "fresh s0" and st: "start_up tls q s0 (power_cycle m d') = (CONFIGURATION_SERVICE_OK, s1, d1)"
  shows "configuration_service_active s' = configuration_service_active s \<and>
    (\<exists>e. configuration_service_active s1 = Some e \<and> active_same c e)"
proof -
  have l: "length (fields_enc c) \<le> 8474" by (rule length_fields_enc [OF valid_fields_ok [OF wf v]])
  have e: "1 + length (fields_enc c) \<le> length buffer" "bytes = overwrite 0 (2 # fields_enc c) buffer" "n = of_nat (1 + length (fields_enc c))"
    using enc encode_result [OF l, of buffer n0] by (auto split: if_splits simp del: of_nat_Suc of_nat_add)
  have b: "bytes = (2 # fields_enc c) @ drop (1 + length (fields_enc c)) buffer" by (simp add: e(2) overwrite_def)
  have "unat n = 1 + length (fields_enc c)" unfolding e(3) using l by (simp add: unat_of_nat take_bit_nat_eq_self del: of_nat_Suc of_nat_add)
  then have len: "unat n \<le> length bytes" by (simp add: b)
  obtain cd where dec: "configuration_binary_decode tls (Some bytes) n (Some zero_configuration) = (CONFIGURATION_BINARY_CODEC_OK, Some cd)" "active_same c cd"
    using decode_of_encoding [OF wf v, of "drop (1 + length (fields_enc c)) buffer" zero_configuration] unfolding b e(3) by blast
  obtain p where p: "persists tls s d p" using run_persists [OF run] by blast
  note core = write_core [OF p wr len]
  have after: "persists tls s' d' (Some (target_slot s, target_generation s, cd))" "pending d' = None"
    "chosen tls (cells d') = Some (target_slot s, target_generation s, cd)" using core dec(1) by auto
  have "loaded s1 = Some (target_slot s, target_generation s, cd)" using start_up_loads [OF fr st] after settle_none by metis
  then have "active_configuration s1 = cd" by (auto simp: loaded_def split: if_splits)
  moreover have "service_state s1 = CONFIGURATION_SERVICE_READY" using start_up_loads [OF fr st] persists_ready by blast
  ultimately show ?thesis using core dec(2) persists_ready [OF p] persists_ready [OF after(1)]
    by (simp add: configuration_service_active_def)
qed

theorem saved_configuration_takes_effect_witness:
  "\<exists>bytes n s d s' d' s1 d1. configuration_binary_encode (Some default_configuration) (Some (replicate 8475 0)) (Some 0) =
       (CONFIGURATION_BINARY_CODEC_OK, Some bytes, Some n) \<and> service_run no_tls s d \<and>
     configuration_service_write no_tls (Some bytes) n s d = (CONFIGURATION_SERVICE_OK, s', d') \<and>
     start_up no_tls [] example_service (power_cycle (\<lambda>_. 0) d') = (CONFIGURATION_SERVICE_OK, s1, d1) \<and>
     configuration_service_active s' = configuration_service_active s \<and>
     (\<exists>e. configuration_service_active s1 = Some e \<and> active_same default_configuration e)"
proof -
  let ?c = default_configuration
  have l: "length (fields_enc ?c) \<le> 8474" by (rule length_fields_enc [OF valid_fields_ok [OF default_wf default_OK]])
  let ?bytes = "overwrite 0 (2 # fields_enc ?c) (replicate 8475 0)" and ?n = "of_nat (1 + length (fields_enc ?c)) :: u32"
  have enc: "configuration_binary_encode (Some ?c) (Some (replicate 8475 0)) (Some 0) = (CONFIGURATION_BINARY_CODEC_OK, Some ?bytes, Some ?n)"
    using encode_result [OF l, of "replicate 8475 0" 0] l by simp
  have u: "unat ?n = 1 + length (fields_enc ?c)" using l by (simp add: unat_of_nat take_bit_nat_eq_self del: of_nat_Suc of_nat_add)
  then have n: "?n \<noteq> 0" by (metis add_is_0 one_neq_zero unat_0)
  have b: "?bytes = (2 # fields_enc ?c) @ drop (1 + length (fields_enc ?c)) (replicate 8475 0)" by (simp add: overwrite_def)
  obtain cd where dec: "configuration_binary_decode no_tls (Some ?bytes) ?n (Some zero_configuration) = (CONFIGURATION_BINARY_CODEC_OK, Some cd)"
    using decode_of_encoding [OF default_wf default_OK, of no_tls "drop (1 + length (fields_enc ?c)) (replicate 8475 0)" zero_configuration] unfolding b by blast
  obtain s d where s: "start_up no_tls [] example_service (power_cycle (\<lambda>_. 0) blank_flash) = (CONFIGURATION_SERVICE_OK, s, d)"
      "outcomes d = []" "external_flash_initialized d" using example_started by blast
  then have p: "persists no_tls s d (loaded s)" using start_up_loads [OF fresh_example s(1)] by blast
  have run: "service_run no_tls s d" by (rule service_run.first_start [OF fresh_example s(1)])
  have "unat ?n \<le> CONFIGURATION_V2_MAX_PAYLOAD_LENGTH" "unat ?n \<le> length ?bytes" unfolding u using l by (simp_all add: overwrite_def)
  from write_healthy [OF s(2,3) p n this dec] obtain s' d' where
    w: "configuration_service_write no_tls (Some ?bytes) ?n s d = (CONFIGURATION_SERVICE_OK, s', d')" by blast
  obtain s1 d1 where st: "start_up no_tls [] example_service (power_cycle (\<lambda>_. 0) d') = (CONFIGURATION_SERVICE_OK, s1, d1)"
    using start_up_healthy [OF fresh_example no_tls_suffices] by blast
  show ?thesis using enc run w st saved_configuration_takes_effect [OF default_wf default_OK enc run w fresh_example st] by blast
qed



end
