(* ===== verification/Management_Transport.thy ===== *)
theory Management_Transport
  imports Configuration_Service Boot_Control
begin

text \<open>
  Model of \<open>app/Management/src/management_transport.c\<close>: the task that answers management requests arriving over
  the USB serial port, the interrupt handlers that feed it, and their interleaving.

  The static variables of the file are the record \<open>transport\<close>. It also holds the parts of the device the
  requests reach (configuration service, external flash, backup registers) and two logs, of the transfers
  submitted to USB and of the requests dispatched, each with the session it belongs to. Queries to other services and the results of the two
  USB calls come from an \<open>environment\<close>, which may differ at every step. The loop of the task is cut at the
  boundaries of its critical sections: between two cuts interrupts may run, which \<open>transport_step\<close> says. Parsing is
  one such stretch although interrupts may run inside it: they touch the session variables only, which parsing does
  not use, and they read the state of the task only while the OUT endpoint is armed for the same session, which it is
  not while received bytes are being parsed.
\<close>

section \<open>Data\<close>

datatype management_state_t =
    MANAGEMENT_STATE_IDLE
  | MANAGEMENT_STATE_RECVIVING
  | MANAGEMENT_STATE_SENDING
  | MANAGEMENT_STATE_FAULT

datatype management_transport_result_t =
    MANAGEMENT_TRANSPORT_OK
  | MANAGEMENT_TRANSPORT_INVALID_ARGUMENT
  | MANAGEMENT_TRANSPORT_NOT_INITIALIZED
  | MANAGEMENT_TRANSPORT_FAILED

datatype management_transport_cdc_result_t =
    MANAGEMENT_TRANSPORT_CDC_OK
  | MANAGEMENT_TRANSPORT_CDC_BUSY
  | MANAGEMENT_TRANSPORT_CDC_FAILED

abbreviation "MANAGEMENT_MESSAGE_ERROR_RESPONSE \<equiv> (0xFF :: u8)"
abbreviation "MANAGEMENT_MESSAGE_GET_ACTIVE_CONFIGURATION \<equiv> (0x01 :: u8)"
abbreviation "MANAGEMENT_MESSAGE_GET_ACTIVE_CONFIGURATION_RESPONSE \<equiv> (0x81 :: u8)"
abbreviation "MANAGEMENT_MESSAGE_PUT_CONFIGURATION \<equiv> (0x02 :: u8)"
abbreviation "MANAGEMENT_MESSAGE_PUT_CONFIGURATION_RESPONSE \<equiv> (0x82 :: u8)"
abbreviation "MANAGEMENT_MESSAGE_GET_STATUS \<equiv> (0x03 :: u8)"
abbreviation "MANAGEMENT_MESSAGE_GET_STATUS_RESPONSE \<equiv> (0x83 :: u8)"
abbreviation "MANAGEMENT_MESSAGE_RESTART \<equiv> (0x04 :: u8)"
abbreviation "MANAGEMENT_MESSAGE_RESTART_RESPONSE \<equiv> (0x84 :: u8)"
abbreviation "MANAGEMENT_MESSAGE_REQUEST_UPGRADE \<equiv> (0x05 :: u8)"
abbreviation "MANAGEMENT_MESSAGE_REQUEST_UPGRADE_RESPONSE \<equiv> (0x85 :: u8)"
abbreviation "MANAGEMENT_RESULT_INVALID_REQUEST \<equiv> (1 :: u16)"
abbreviation "MANAGEMENT_RESULT_UNSUPPORTED_MESSAGE \<equiv> (2 :: u16)"
abbreviation "MANAGEMENT_RESULT_CONFIGURATION_INVALID \<equiv> (3 :: u16)"
abbreviation "MANAGEMENT_RESULT_RESOURCE_UNAVAILABLE \<equiv> (4 :: u16)"
abbreviation "MANAGEMENT_RESULT_STORAGE_IO_ERROR \<equiv> (5 :: u16)"
abbreviation "MANAGEMENT_RESULT_NOT_READY \<equiv> (6 :: u16)"
abbreviation "MANAGEMENT_RESULT_INTERNAL_ERROR \<equiv> (7 :: u16)"
abbreviation "RX_BUF_MAX_LEN \<equiv> (128 :: nat)"
abbreviation "TX_BUF_MAX_LEN \<equiv> (8494 :: nat)"

record transport =
  session_id :: u32
  session_is_open :: bool
  session_rx_buf :: "u8 list"
  session_rx_len :: nat
  session_rx_in_progress :: bool
  session_rx_completed :: bool
  session_tx_in_progress :: bool
  session_tx_completed :: bool
  tx_buf :: "u8 list"
  tx_len :: nat
  last_session_id :: u32
  rx_buf_copy :: "u8 list"
  rx_buf_len :: nat
  tx_successful :: bool
  reset_pending :: bool
  management_state :: management_state_t
  management_parser :: management_frame_parser_t
  notified :: bool
  wait_ticks :: nat
  config_service :: configuration_service
  config_flash :: external_flash
  backup_registers :: boot_registers
  transfers :: "(u32 \<times> u8 list) list"
  dispatched :: "(u32 \<times> management_frame_view_t) list"

text \<open>
  What the calls into the rest of the firmware return: whether the configuration service has been
  initialised, link and address of the network interface if there is one, the SNTP state and time, the
  MQTT state, and the results of arming the USB OUT endpoint and of submitting an IN transfer.
\<close>

record environment =
  configuration_is_ready :: bool
  netif_default :: "(bool \<times> ip4_addr_t) option"
  sntp_synchronized :: bool
  sntp_time :: "(u32 \<times> u32) option"
  mqtt_state :: u8
  enable_receive :: management_transport_cdc_result_t
  cdc_send :: management_transport_cdc_result_t

section \<open>Requests\<close>

fun management_transport_map_configuration_result :: "configuration_service_result_t \<Rightarrow> u16" where
  "management_transport_map_configuration_result CONFIGURATION_SERVICE_OK = 0"
| "management_transport_map_configuration_result CONFIGURATION_SERVICE_INVALID_ARGUMENT = MANAGEMENT_RESULT_CONFIGURATION_INVALID"
| "management_transport_map_configuration_result CONFIGURATION_SERVICE_INVALID_PAYLOAD = MANAGEMENT_RESULT_CONFIGURATION_INVALID"
| "management_transport_map_configuration_result CONFIGURATION_SERVICE_RESOURCE_UNAVAILABLE = MANAGEMENT_RESULT_RESOURCE_UNAVAILABLE"
| "management_transport_map_configuration_result CONFIGURATION_SERVICE_IO_ERROR = MANAGEMENT_RESULT_STORAGE_IO_ERROR"
| "management_transport_map_configuration_result CONFIGURATION_SERVICE_NOT_INITIALIZED = MANAGEMENT_RESULT_NOT_READY"

text \<open>The result code behind the header, and the message type in the header, of the response being built.\<close>

definition write_code :: "u16 \<Rightarrow> transport \<Rightarrow> transport" where
  "write_code code s = s\<lparr>tx_buf := management_frame_write_u16_le (tx_buf s) MANAGEMENT_FRAME_HEADER_LENGTH code\<rparr>"

definition begin_response :: "u8 \<Rightarrow> transport \<Rightarrow> transport" where
  "begin_response mtype s = s\<lparr>tx_buf := (tx_buf s)[MANAGEMENT_FRAME_MAGIC_LENGTH := mtype], tx_len := 2\<rparr>"

text \<open>The common end of the handlers: encode the payload in place. The flag says whether encoding failed.\<close>

definition encode_response :: "u8 \<Rightarrow> management_frame_view_t \<Rightarrow> nat \<Rightarrow> transport \<Rightarrow> bool \<times> transport" where
  "encode_response mtype frame payload_length s =
     (case management_frame_encode mtype (frame_transaction_id frame) (Some (Within MANAGEMENT_FRAME_HEADER_LENGTH)) payload_length
             (Some (tx_buf s)) (length (tx_buf s)) (Some 0) of
        (result, buf, len) \<Rightarrow>
          let s' = s\<lparr>tx_buf := the buf, tx_len := the len\<rparr> in
          if result \<noteq> MANAGEMENT_FRAME_OK then (True, s'\<lparr>tx_len := 0\<rparr>) else (False, s'))"

definition finish_response :: "management_frame_view_t \<Rightarrow> transport \<Rightarrow> bool \<times> transport" where
  "finish_response frame s = encode_response (tx_buf s ! MANAGEMENT_FRAME_MAGIC_LENGTH) frame (tx_len s) s"

definition management_transport_dispatch_get_active_configuration ::
  "environment \<Rightarrow> management_frame_view_t \<Rightarrow> transport \<Rightarrow> transport" where
  "management_transport_dispatch_get_active_configuration env frame s =
     (let s1 = begin_response MANAGEMENT_MESSAGE_GET_ACTIVE_CONFIGURATION_RESPONSE s;
          s2 = (if length (frame_payload frame) \<noteq> 0 then write_code MANAGEMENT_RESULT_INVALID_REQUEST s1
                else if \<not> configuration_is_ready env then write_code MANAGEMENT_RESULT_NOT_READY s1
                else case configuration_service_active (config_service s1) of
                    None \<Rightarrow> write_code MANAGEMENT_RESULT_INTERNAL_ERROR s1
                  | Some active \<Rightarrow>
                      (let base = MANAGEMENT_FRAME_HEADER_LENGTH + 2 in
                       case configuration_binary_encode (Some active)
                              (Some (take CONFIGURATION_V2_MAX_PAYLOAD_LENGTH (drop base (tx_buf s1)))) (Some 0) of
                         (codec_result, out, len) \<Rightarrow>
                           let s' = s1\<lparr>tx_buf := overwrite base (the out) (tx_buf s1)\<rparr> in
                           if codec_result \<noteq> CONFIGURATION_BINARY_CODEC_OK then write_code MANAGEMENT_RESULT_INTERNAL_ERROR s'
                           else (write_code 0 s')\<lparr>tx_len := tx_len s' + unat (the len)\<rparr>))
      in snd (finish_response frame s2))"

definition management_transport_dispatch_put_configuration ::
  "mbedtls_api \<Rightarrow> environment \<Rightarrow> management_frame_view_t \<Rightarrow> transport \<Rightarrow> transport" where
  "management_transport_dispatch_put_configuration tls env frame s =
     (let s1 = begin_response MANAGEMENT_MESSAGE_PUT_CONFIGURATION_RESPONSE s;
          s2 = (if \<not> configuration_is_ready env then write_code MANAGEMENT_RESULT_NOT_READY s1
                else case configuration_service_write tls (Some (frame_payload frame)) (of_nat (length (frame_payload frame)))
                            (config_service s1) (config_flash s1) of
                  (result, service, device) \<Rightarrow>
                    write_code (management_transport_map_configuration_result result)
                      (s1\<lparr>config_service := service, config_flash := device\<rparr>))
      in snd (finish_response frame s2))"

text \<open>The fifteen status bytes.\<close>

definition status_bytes :: "environment \<Rightarrow> u8 list" where
  "status_bytes env =
     (let z = replicate 15 0;
          s1 = (case netif_default env of
                  None \<Rightarrow> z
                | Some (link_up, ipv4) \<Rightarrow>
                    z[0 := (if link_up then 1 else 0), 1 := byte_at 0 ipv4, 2 := byte_at 1 ipv4, 3 := byte_at 2 ipv4, 4 := byte_at 3 ipv4]);
          s2 = s1[5 := (if sntp_synchronized env then 1 else 0)];
          (unix_seconds, microseconds) =
            (if s2 ! 5 \<noteq> 0 then case sntp_time env of None \<Rightarrow> (0, 0) | Some t \<Rightarrow> t else (0, 0));
          s3 = management_frame_write_u32_le s2 6 unix_seconds;
          s4 = management_frame_write_u32_le s3 10 microseconds
      in s4[14 := mqtt_state env])"

definition management_transport_dispatch_get_status :: "environment \<Rightarrow> management_frame_view_t \<Rightarrow> transport \<Rightarrow> transport" where
  "management_transport_dispatch_get_status env frame s =
     (let s1 = begin_response MANAGEMENT_MESSAGE_GET_STATUS_RESPONSE s;
          s2 = (if length (frame_payload frame) \<noteq> 0 then write_code MANAGEMENT_RESULT_INVALID_REQUEST s1
                else let s' = write_code 0 (s1\<lparr>tx_buf := overwrite (MANAGEMENT_FRAME_HEADER_LENGTH + 2) (status_bytes env) (tx_buf s1)\<rparr>)
                     in s'\<lparr>tx_len := tx_len s' + 15\<rparr>)
      in snd (finish_response frame s2))"

definition management_transport_dispatch_restart :: "management_frame_view_t \<Rightarrow> transport \<Rightarrow> transport" where
  "management_transport_dispatch_restart frame s =
     (let s1 = begin_response MANAGEMENT_MESSAGE_RESTART_RESPONSE s;
          s2 = (if length (frame_payload frame) = 0 then (write_code 0 s1)\<lparr>reset_pending := True\<rparr>
                else write_code MANAGEMENT_RESULT_INVALID_REQUEST s1)
      in case finish_response frame s2 of (failed, s3) \<Rightarrow> if failed then s3\<lparr>reset_pending := False\<rparr> else s3)"

definition management_transport_dispatch_request_upgrade :: "management_frame_view_t \<Rightarrow> transport \<Rightarrow> transport" where
  "management_transport_dispatch_request_upgrade frame s =
     (let (result_code, s1) =
            (if length (frame_payload frame) \<noteq> 0 then (MANAGEMENT_RESULT_INVALID_REQUEST, s)
             else case boot_request_set (backup_registers s) of
               (ok, regs) \<Rightarrow> (if ok then 0 else MANAGEMENT_RESULT_INTERNAL_ERROR, s\<lparr>backup_registers := regs\<rparr>))
      in snd (encode_response MANAGEMENT_MESSAGE_REQUEST_UPGRADE_RESPONSE frame 2 (write_code result_code s1)))"

definition management_transport_dispatch_request ::
  "mbedtls_api \<Rightarrow> environment \<Rightarrow> management_frame_view_t \<Rightarrow> transport \<Rightarrow> transport" where
  "management_transport_dispatch_request tls env frame s =
     (let s0 = s\<lparr>reset_pending := False\<rparr>; mtype = frame_message_type frame in
      if mtype = MANAGEMENT_MESSAGE_GET_ACTIVE_CONFIGURATION then management_transport_dispatch_get_active_configuration env frame s0
      else if mtype = MANAGEMENT_MESSAGE_PUT_CONFIGURATION then management_transport_dispatch_put_configuration tls env frame s0
      else if mtype = MANAGEMENT_MESSAGE_GET_STATUS then management_transport_dispatch_get_status env frame s0
      else if mtype = MANAGEMENT_MESSAGE_RESTART then management_transport_dispatch_restart frame s0
      else if mtype = MANAGEMENT_MESSAGE_REQUEST_UPGRADE then management_transport_dispatch_request_upgrade frame s0
      else snd (finish_response frame (write_code MANAGEMENT_RESULT_UNSUPPORTED_MESSAGE
                  (begin_response MANAGEMENT_MESSAGE_ERROR_RESPONSE s0))))"

text \<open>The handler the parser calls for every frame; \<open>dispatched\<close> is the log.\<close>

definition management_transport_handle_frame ::
  "mbedtls_api \<Rightarrow> environment \<Rightarrow> management_frame_view_t \<Rightarrow> transport \<Rightarrow> transport" where
  "management_transport_handle_frame tls env frame s =
     (if management_state s \<noteq> MANAGEMENT_STATE_RECVIVING then s
      else management_transport_dispatch_request tls env frame
             (s\<lparr>management_state := MANAGEMENT_STATE_SENDING, dispatched := dispatched s @ [(last_session_id s, frame)]\<rparr>))"

section \<open>Interrupt handlers\<close>

definition management_transport_notify_task_from_isr :: "transport \<Rightarrow> transport" where
  "management_transport_notify_task_from_isr s = s\<lparr>notified := True\<rparr>"

definition management_transport_session_open_from_isr :: "transport \<Rightarrow> transport" where
  "management_transport_session_open_from_isr s =
     management_transport_notify_task_from_isr
       (s\<lparr>session_rx_len := 0, session_rx_in_progress := True, session_rx_completed := False, session_tx_in_progress := False,
          session_tx_completed := False, session_id := session_id s + 1, session_is_open := True\<rparr>)"

definition management_transport_session_close_from_isr :: "transport \<Rightarrow> transport" where
  "management_transport_session_close_from_isr s = management_transport_notify_task_from_isr (s\<lparr>session_is_open := False\<rparr>)"

text \<open>\<open>data\<close> is the packet, of at least \<open>len\<close> bytes.\<close>

definition management_transport_receive_from_isr :: "u8 list ptr \<Rightarrow> nat \<Rightarrow> transport \<Rightarrow> transport" where
  "management_transport_receive_from_isr data len s =
     (let s0 = s\<lparr>session_rx_in_progress := False\<rparr> in
      if \<not> session_is_open s0 \<or> len > length (session_rx_buf s0) \<or> (data = None \<and> len \<noteq> 0) \<or>
         (last_session_id s0 = session_id s0 \<and>
          (management_state s0 = MANAGEMENT_STATE_SENDING \<or> management_state s0 = MANAGEMENT_STATE_FAULT))
      then management_transport_notify_task_from_isr s0
      else
        let s1 = (if len \<noteq> 0 then s0\<lparr>session_rx_buf := overwrite 0 (take len (the data)) (session_rx_buf s0)\<rparr> else s0)
        in management_transport_notify_task_from_isr (s1\<lparr>session_rx_len := len, session_rx_completed := True\<rparr>))"

definition management_transport_transmit_complete_from_isr :: "transport \<Rightarrow> transport" where
  "management_transport_transmit_complete_from_isr s =
     management_transport_notify_task_from_isr (s\<lparr>session_tx_in_progress := False, session_tx_completed := True\<rparr>)"

section \<open>The task\<close>

definition reset_parser :: "transport \<Rightarrow> transport" where
  "reset_parser s = s\<lparr>management_parser := the (management_frame_parser_reset (Some (management_parser s)))\<rparr>"

text \<open>The first critical section, from the label \<open>take_events\<close>. The flag says whether the session is closed.\<close>

definition take_session :: "transport \<Rightarrow> bool \<times> transport" where
  "take_session s =
     (if last_session_id s \<noteq> session_id s \<and> session_is_open s
      then (False, reset_parser (s\<lparr>management_state := MANAGEMENT_STATE_RECVIVING, last_session_id := session_id s, tx_len := 0,
              rx_buf_len := 0, tx_successful := False, reset_pending := False\<rparr>))
      else if \<not> session_is_open s
      then (True, reset_parser (s\<lparr>management_state := MANAGEMENT_STATE_IDLE, last_session_id := session_id s, reset_pending := False,
              rx_buf_len := 0, tx_len := 0, tx_successful := False\<rparr>))
      else (False, s))"

definition take_completion :: "transport \<Rightarrow> transport" where
  "take_completion s =
     (if management_state s = MANAGEMENT_STATE_RECVIVING \<and> session_rx_completed s
      then s\<lparr>rx_buf_len := session_rx_len s,
             rx_buf_copy := (if session_rx_len s \<noteq> 0 then overwrite 0 (take (session_rx_len s) (session_rx_buf s)) (rx_buf_copy s)
                             else rx_buf_copy s),
             session_rx_len := 0, session_rx_completed := False\<rparr>
      else if management_state s = MANAGEMENT_STATE_SENDING \<and> session_tx_completed s
      then s\<lparr>session_tx_completed := False, tx_successful := True\<rparr>
      else s)"

text \<open>Parsing what was received, outside the critical sections.\<close>

definition process_received :: "mbedtls_api \<Rightarrow> environment \<Rightarrow> transport \<Rightarrow> transport" where
  "process_received tls env s =
     (if rx_buf_len s \<noteq> 0
      then case management_frame_parser_feed (Some (management_parser s)) (Some (rx_buf_copy s)) (rx_buf_len s)
                  (Some (management_transport_handle_frame tls env)) s of
          (result, parser, s1) \<Rightarrow>
            let s2 = s1\<lparr>management_parser := the parser\<rparr>;
                s3 = (if result \<noteq> MANAGEMENT_FRAME_OK then s2\<lparr>management_state := MANAGEMENT_STATE_FAULT\<rparr> else s2);
                s4 = (if management_state s3 = MANAGEMENT_STATE_SENDING then reset_parser s3 else s3)
            in s4\<lparr>rx_buf_len := 0\<rparr>
      else s)"

definition finish_transmission :: "transport \<Rightarrow> transport" where
  "finish_transmission s =
     (if tx_successful s then s\<lparr>management_state := MANAGEMENT_STATE_RECVIVING, tx_successful := False\<rparr> else s)"

text \<open>The last critical section, behind the check that the session is still the same.\<close>

definition launch :: "environment \<Rightarrow> transport \<Rightarrow> transport" where
  "launch env s =
     (if management_state s = MANAGEMENT_STATE_RECVIVING \<and> \<not> session_rx_in_progress s
      then (if enable_receive env = MANAGEMENT_TRANSPORT_CDC_OK then s\<lparr>session_rx_in_progress := True\<rparr>
            else s\<lparr>wait_ticks := 100\<rparr>)
      else if management_state s = MANAGEMENT_STATE_SENDING \<and> \<not> session_tx_in_progress s
      then (if cdc_send env = MANAGEMENT_TRANSPORT_CDC_OK
            then s\<lparr>session_tx_in_progress := True, transfers := transfers s @ [(session_id s, take (tx_len s) (tx_buf s))]\<rparr>
            else s\<lparr>wait_ticks := 100\<rparr>)
      else s)"

text \<open>Where the task is: the places at which interrupts can run, and the end after a system reset.\<close>

datatype task_place = At_Wait | At_Check_Reset | At_Reset_Delay | At_Process | At_Launch | Was_Reset

text \<open>
  \<open>management_transport_process\<close>, one stretch between two places. At \<open>At_Launch\<close> a new session leads back to \<open>take_events\<close>
  inside the same critical section.
\<close>

definition take_events :: "transport \<Rightarrow> task_place \<times> transport" where
  "take_events s = (case take_session s of (closed, s1) \<Rightarrow>
     if closed then (At_Wait, s1) else (At_Check_Reset, take_completion s1))"

fun task_step :: "mbedtls_api \<Rightarrow> environment \<Rightarrow> task_place \<times> transport \<Rightarrow> task_place \<times> transport" where
  "task_step tls env (At_Wait, s) = take_events (s\<lparr>notified := False, wait_ticks := 500\<rparr>)"
| "task_step tls env (At_Check_Reset, s) =
     (if reset_pending s \<and> tx_successful s then (At_Reset_Delay, s) else (At_Process, s))"
| "task_step tls env (At_Reset_Delay, s) =
     (if last_session_id s = session_id s \<and> session_is_open s then (Was_Reset, s\<lparr>reset_pending := False\<rparr>) else (At_Process, s))"
| "task_step tls env (At_Process, s) = (At_Launch, finish_transmission (process_received tls env s))"
| "task_step tls env (At_Launch, s) =
     (if last_session_id s \<noteq> session_id s \<or> \<not> session_is_open s then take_events s else (At_Wait, launch env s))"
| "task_step tls env (Was_Reset, s) = (Was_Reset, s)"

text \<open>\<open>management_transport_init\<close>; the storage of the parser is \<open>management_received_frame\<close>.\<close>

definition management_transport_init :: "u8 list \<Rightarrow> transport \<Rightarrow> management_transport_result_t \<times> transport" where
  "management_transport_init received_frame s =
     (case management_frame_parser_init (Some (management_parser s)) (Some received_frame) (length received_frame) of
        (parser_result, p) \<Rightarrow>
          let s1 = s\<lparr>management_parser := the p\<rparr> in
          if parser_result \<noteq> MANAGEMENT_FRAME_OK then (MANAGEMENT_TRANSPORT_FAILED, s1)
          else (MANAGEMENT_TRANSPORT_OK,
                s1\<lparr>session_id := 0, session_is_open := False, session_rx_len := 0, management_state := MANAGEMENT_STATE_IDLE\<rparr>))"

text \<open>
  The interleaving. USB opens and closes sessions at will, delivers a packet only while the OUT endpoint is
  armed and completes an IN transfer only while one is in progress. The task runs one stretch.
\<close>

inductive transport_step :: "mbedtls_api \<Rightarrow> task_place \<times> transport \<Rightarrow> task_place \<times> transport \<Rightarrow> bool" for tls where
  usb_open: "pc \<noteq> Was_Reset \<Longrightarrow> transport_step tls (pc, s) (pc, management_transport_session_open_from_isr s)"
| usb_close: "pc \<noteq> Was_Reset \<Longrightarrow> transport_step tls (pc, s) (pc, management_transport_session_close_from_isr s)"
| usb_receive: "pc \<noteq> Was_Reset \<Longrightarrow> session_rx_in_progress s \<Longrightarrow> len \<le> length data \<Longrightarrow>
    transport_step tls (pc, s) (pc, management_transport_receive_from_isr (Some data) len s)"
| usb_transmitted: "pc \<noteq> Was_Reset \<Longrightarrow> session_tx_in_progress s \<Longrightarrow>
    transport_step tls (pc, s) (pc, management_transport_transmit_complete_from_isr s)"
| task: "transport_step tls x (task_step tls env x)"

text \<open>The service is either not ready or in a state a start-up and writes lead to.\<close>

definition service_ok :: "mbedtls_api \<Rightarrow> transport \<Rightarrow> bool" where
  "service_ok tls s \<longleftrightarrow>
     (service_state (config_service s) = CONFIGURATION_SERVICE_READY \<longrightarrow> service_run tls (config_service s) (config_flash s))"

text \<open>The static variables before \<open>management_transport_init\<close>: the flags are clear, the buffers have their sizes.\<close>

definition transport_static :: "transport \<Rightarrow> bool" where
  "transport_static s \<longleftrightarrow> length (session_rx_buf s) = RX_BUF_MAX_LEN \<and> length (rx_buf_copy s) = RX_BUF_MAX_LEN \<and>
     length (tx_buf s) = TX_BUF_MAX_LEN \<and> \<not> session_rx_in_progress s \<and> \<not> session_rx_completed s \<and>
     \<not> session_tx_in_progress s \<and> \<not> session_tx_completed s \<and> tx_len s = 0 \<and> last_session_id s = 0 \<and> rx_buf_len s = 0 \<and>
     \<not> tx_successful s \<and> \<not> reset_pending s \<and> transfers s = [] \<and> dispatched s = []"

inductive transport_reachable :: "mbedtls_api \<Rightarrow> task_place \<times> transport \<Rightarrow> bool" for tls where
  initial: "transport_static s0 \<Longrightarrow> service_ok tls s0 \<Longrightarrow> length received_frame = MANAGEMENT_FRAME_MAX_LENGTH \<Longrightarrow>
    management_transport_init received_frame s0 = (MANAGEMENT_TRANSPORT_OK, s) \<Longrightarrow> transport_reachable tls (At_Wait, s)"
| step: "transport_reachable tls x \<Longrightarrow> transport_step tls x y \<Longrightarrow> transport_reachable tls y"

section \<open>What a request is answered\<close>

definition response_type :: "u8 \<Rightarrow> u8" where
  "response_type t = (if t \<in> {1, 2, 3, 4, 5} then t + 0x80 else MANAGEMENT_MESSAGE_ERROR_RESPONSE)"

text \<open>The payload of the response to a request, the result code first.\<close>

definition response_payload :: "mbedtls_api \<Rightarrow> environment \<Rightarrow> management_frame_view_t \<Rightarrow> transport \<Rightarrow> u8 list" where
  "response_payload tls env f s =
     (let t = frame_message_type f; empty = (frame_payload f = []) in
      if t = MANAGEMENT_MESSAGE_GET_ACTIVE_CONFIGURATION then
        (if \<not> empty then le16 MANAGEMENT_RESULT_INVALID_REQUEST
         else if \<not> configuration_is_ready env then le16 MANAGEMENT_RESULT_NOT_READY
         else case configuration_service_active (config_service s) of
             None \<Rightarrow> le16 MANAGEMENT_RESULT_INTERNAL_ERROR
           | Some c \<Rightarrow> le16 0 @ 2 # fields_enc c)
      else if t = MANAGEMENT_MESSAGE_PUT_CONFIGURATION then
        le16 (if \<not> configuration_is_ready env then MANAGEMENT_RESULT_NOT_READY
              else management_transport_map_configuration_result
                (fst (configuration_service_write tls (Some (frame_payload f)) (of_nat (length (frame_payload f)))
                   (config_service s) (config_flash s))))
      else if t = MANAGEMENT_MESSAGE_GET_STATUS then
        (if \<not> empty then le16 MANAGEMENT_RESULT_INVALID_REQUEST else le16 0 @ status_bytes env)
      else if t = MANAGEMENT_MESSAGE_RESTART then le16 (if \<not> empty then MANAGEMENT_RESULT_INVALID_REQUEST else 0)
      else if t = MANAGEMENT_MESSAGE_REQUEST_UPGRADE then
        le16 (if \<not> empty then MANAGEMENT_RESULT_INVALID_REQUEST
              else if fst (boot_request_set (backup_registers s)) then 0 else MANAGEMENT_RESULT_INTERNAL_ERROR)
      else le16 MANAGEMENT_RESULT_UNSUPPORTED_MESSAGE)"

definition response_frame :: "mbedtls_api \<Rightarrow> environment \<Rightarrow> management_frame_view_t \<Rightarrow> transport \<Rightarrow> management_frame_view_t" where
  "response_frame tls env f s = \<lparr>frame_message_type = response_type (frame_message_type f),
     frame_transaction_id = frame_transaction_id f, frame_payload = response_payload tls env f s\<rparr>"

lemma encode_response_result:
  assumes "length (tx_buf s) = TX_BUF_MAX_LEN" "n \<le> MANAGEMENT_FRAME_MAX_PAYLOAD_LENGTH"
  shows "encode_response t f n s = (False, s\<lparr>tx_len := 17 + n, tx_buf :=
      frame_bytes \<lparr>frame_message_type = t, frame_transaction_id = frame_transaction_id f, frame_payload = take n (drop 13 (tx_buf s))\<rparr> @
      drop (17 + n) (tx_buf s)\<rparr>)"
proof -
  have "length (payload_bytes (Within 13) (tx_buf s) n) = n" using assms by (simp add: payload_bytes_def)
  from frame_encode_result [OF assms(2) _ _ this, of TX_BUF_MAX_LEN t "frame_transaction_id f" 0] assms
  show ?thesis by (simp add: encode_response_def payload_bytes_def)
qed

lemma finish_response_result:
  assumes "length (tx_buf s) = TX_BUF_MAX_LEN" "tx_len s \<le> MANAGEMENT_FRAME_MAX_PAYLOAD_LENGTH"
  shows "finish_response f s = (False, s\<lparr>tx_len := 17 + tx_len s, tx_buf :=
      frame_bytes \<lparr>frame_message_type = tx_buf s ! 4, frame_transaction_id = frame_transaction_id f,
                    frame_payload = take (tx_len s) (drop 13 (tx_buf s))\<rparr> @ drop (17 + tx_len s) (tx_buf s)\<rparr>)"
  using encode_response_result [OF assms] by (simp add: finish_response_def)

text \<open>
  \<open>answers t tid p s s'\<close>: the transmit buffer of \<open>s'\<close> holds exactly the frame with this type, transaction id and payload;
  \<open>s'\<close> agrees with \<open>s\<close> on what the interrupts and the parser use.
\<close>

definition same_session :: "transport \<Rightarrow> transport \<Rightarrow> bool" where
  "same_session s s' \<longleftrightarrow> session_id s' = session_id s \<and> session_is_open s' = session_is_open s \<and> session_rx_buf s' = session_rx_buf s \<and>
     session_rx_len s' = session_rx_len s \<and> session_rx_in_progress s' = session_rx_in_progress s \<and>
     session_rx_completed s' = session_rx_completed s \<and> session_tx_in_progress s' = session_tx_in_progress s \<and>
     session_tx_completed s' = session_tx_completed s \<and> last_session_id s' = last_session_id s \<and> rx_buf_copy s' = rx_buf_copy s \<and>
     rx_buf_len s' = rx_buf_len s \<and> tx_successful s' = tx_successful s \<and> management_state s' = management_state s \<and>
     management_parser s' = management_parser s \<and> transfers s' = transfers s \<and> dispatched s' = dispatched s \<and> notified s' = notified s"

definition answers :: "management_frame_view_t \<Rightarrow> transport \<Rightarrow> transport \<Rightarrow> bool" where
  "answers r s s' \<longleftrightarrow> take (tx_len s') (tx_buf s') = frame_bytes r \<and> length (tx_buf s') = TX_BUF_MAX_LEN \<and> same_session s s'"

lemma write_code_drop:
  assumes "length (tx_buf s) = TX_BUF_MAX_LEN"
  shows "drop 13 (tx_buf (write_code v s)) = le16 v @ drop 15 (tx_buf s)"
    "tx_buf (write_code v s) ! 4 = tx_buf s ! 4" "length (tx_buf (write_code v s)) = TX_BUF_MAX_LEN"
proof -
  have "2 \<le> length (drop 13 (tx_buf s))" using assms by simp
  then obtain a b zs where z: "drop 13 (tx_buf s) = a # b # zs"
    by (cases "drop 13 (tx_buf s)" rule: remdups_adj.cases) simp_all
  have "drop 13 ((tx_buf s)[13 := x, 14 := y]) = (drop 13 (tx_buf s))[0 := x, 1 := y]" for x y
    by (simp add: drop_update_swap)
  moreover have "drop 15 (tx_buf s) = drop 2 (drop 13 (tx_buf s))" by simp
  then have "drop 15 (tx_buf s) = zs" unfolding z by simp
  ultimately show "drop 13 (tx_buf (write_code v s)) = le16 v @ drop 15 (tx_buf s)"
    using z by (simp add: write_code_def management_frame_write_u16_le_def le16_def byte_at_def)
qed (use assms in \<open>simp_all add: write_code_def management_frame_write_u16_le_def\<close>)

lemma write_code_same [simp]:
  "tx_len (write_code v s) = tx_len s" "same_session s (write_code v s)"
  by (simp_all add: write_code_def same_session_def)

lemma begin_response_facts:
  assumes "length (tx_buf s) = TX_BUF_MAX_LEN"
  shows "tx_buf (begin_response t s) ! 4 = t" "length (tx_buf (begin_response t s)) = TX_BUF_MAX_LEN"
    "tx_len (begin_response t s) = 2" "same_session s (begin_response t s)"
    "config_service (begin_response t s) = config_service s" "config_flash (begin_response t s) = config_flash s"
    "backup_registers (begin_response t s) = backup_registers s"
  using assms by (simp_all add: begin_response_def same_session_def)

lemma same_session_trans: "same_session a b \<Longrightarrow> same_session b c \<Longrightarrow> same_session a c"
  by (simp add: same_session_def)

lemma answers_finish:
  assumes "length (tx_buf s2) = TX_BUF_MAX_LEN" "tx_len s2 \<le> MANAGEMENT_FRAME_MAX_PAYLOAD_LENGTH" "same_session s s2"
    and "tx_buf s2 ! 4 = t" "take (tx_len s2) (drop 13 (tx_buf s2)) = p"
  shows "\<exists>s3. finish_response f s2 = (False, s3) \<and>
    answers \<lparr>frame_message_type = t, frame_transaction_id = frame_transaction_id f, frame_payload = p\<rparr> s s3 \<and>
    config_service s3 = config_service s2 \<and> config_flash s3 = config_flash s2 \<and> backup_registers s3 = backup_registers s2 \<and>
    reset_pending s3 = reset_pending s2"
proof -
  let ?r = "\<lparr>frame_message_type = t, frame_transaction_id = frame_transaction_id f, frame_payload = p\<rparr>"
  have "length p = tx_len s2" using assms(1,2,5) by auto
  then have "take (17 + tx_len s2) (frame_bytes ?r @ drop (17 + tx_len s2) (tx_buf s2)) = frame_bytes ?r" by simp
  moreover have "length (frame_bytes ?r @ drop (17 + tx_len s2) (tx_buf s2)) = TX_BUF_MAX_LEN"
    using \<open>length p = tx_len s2\<close> assms(1,2) by simp
  ultimately show ?thesis
    using finish_response_result [OF assms(1,2), of f] assms(3,4,5) by (simp add: answers_def same_session_def)
qed

text \<open>A response that is only a result code.\<close>

lemma answers_code:
  assumes "length (tx_buf s1) = TX_BUF_MAX_LEN" "tx_len s1 = 2" "same_session s s1" "tx_buf s1 ! 4 = t"
  shows "\<exists>s3. finish_response f (write_code v s1) = (False, s3) \<and>
    answers \<lparr>frame_message_type = t, frame_transaction_id = frame_transaction_id f, frame_payload = le16 v\<rparr> s s3 \<and>
    config_service s3 = config_service s1 \<and> config_flash s3 = config_flash s1 \<and> backup_registers s3 = backup_registers s1 \<and>
    reset_pending s3 = reset_pending s1"
proof -
  have w: "config_service (write_code v s1) = config_service s1" "config_flash (write_code v s1) = config_flash s1"
    "backup_registers (write_code v s1) = backup_registers s1" "reset_pending (write_code v s1) = reset_pending s1"
    by (simp_all add: write_code_def)
  have "length (tx_buf (write_code v s1)) = TX_BUF_MAX_LEN" "tx_len (write_code v s1) \<le> MANAGEMENT_FRAME_MAX_PAYLOAD_LENGTH"
    "same_session s (write_code v s1)" "tx_buf (write_code v s1) ! 4 = t"
    "take (tx_len (write_code v s1)) (drop 13 (tx_buf (write_code v s1))) = le16 v"
    using assms write_code_drop [OF assms(1), of v] same_session_trans [OF assms(3) write_code_same(2)] by simp_all
  from answers_finish [OF this, of f] show ?thesis unfolding w .
qed


lemma length_status_bytes [simp]: "length (status_bytes env) = 15"
  by (simp add: status_bytes_def Let_def management_frame_write_u32_le_def split: option.splits prod.splits)

lemma set_defaults_default: "configuration_set_defaults (Some c) = Some default_configuration"
  by (simp add: default_configuration_def configuration_set_defaults_def Let_def)

text \<open>What the service has loaded fits into a response.\<close>

lemma record_encodable:
  assumes "slot_record tls f a = Some (g, c)" shows "length (fields_enc c) \<le> 8474"
proof -
  obtain p n where "configuration_binary_decode tls (Some p) n (Some zero_configuration) = (CONFIGURATION_BINARY_CODEC_OK, Some c)"
    using assms by (auto simp: slot_record_def Let_def
      split: if_splits prod.splits configuration_binary_codec_result_t.splits option.splits)
  from decode_OK [OF this] have t: "take (unat n) p = 2 # fields_enc c" and n: "unat n \<le> 8475" by auto
  have "length (take (unat n) p) \<le> 8475" using n by simp
  then show ?thesis unfolding t by simp
qed

lemma started_active_encodable:
  assumes fr: "fresh s0" and st: "start_up tls q s0 (power_cycle m d) = (CONFIGURATION_SERVICE_OK, s, d')"
  shows "length (fields_enc (active_configuration s)) \<le> 8474"
proof (cases "loaded s")
  case (Some x)
  obtain slot g c where x: "x = (slot, g, c)" by (metis prod_cases3)
  have "c = active_configuration s" using Some x by (auto simp: loaded_def split: if_splits)
  moreover have "chosen tls (cells d') = Some (slot, g, c)" using start_up_loads [OF fr st] Some x by metis
  ultimately show ?thesis using chosen_Some record_encodable by blast
next
  case None
  obtain sl where ld: "load_configuration tls s0 (snd (external_flash_init ((power_cycle m d)\<lparr>outcomes := q\<rparr>))) = (CONFIGURATION_SERVICE_OK, sl, d')"
      "s = sl\<lparr>service_state := CONFIGURATION_SERVICE_READY\<rparr>"
    using st fr by (auto simp: start_up_def configuration_service_init_def fresh_def split: prod.splits if_splits)
  have "Some (active_configuration sl) = configuration_set_defaults (Some (active_configuration sl))"
    using load_effect [OF ld(1)] fr None ld(2) by (simp add: fresh_def loaded_def split: if_splits)
  then show ?thesis using length_fields_enc [OF valid_fields_ok [OF default_wf default_OK]] ld(2)
    by (simp add: set_defaults_default)
qed

lemma run_active_encodable:
  "service_run tls s d \<Longrightarrow> length (fields_enc (active_configuration s)) \<le> 8474"
proof (induction rule: service_run.induct)
  case (service_write s d n payload r s' d')
  obtain p where "persists tls s d p" using run_persists [OF service_write(1)] by blast
  from write_core [OF this service_write(3,2)] service_write(4) show ?case by simp
qed (auto dest: started_active_encodable)

lemma write_keeps_service_ok:
  assumes "service_ok tls s" "unat n \<le> length payload"
    and wr: "configuration_service_write tls (Some payload) n (config_service s) (config_flash s) = (r, c, d)"
    and "config_service s' = c" "config_flash s' = d"
  shows "service_ok tls s'"
proof (cases "service_state (config_service s) = CONFIGURATION_SERVICE_READY")
  case True
  then have "service_run tls (config_service s) (config_flash s)" using assms(1) by (simp add: service_ok_def)
  from service_run.service_write [OF this assms(2) wr] show ?thesis using assms(4,5) by (simp add: service_ok_def)
next
  case False
  then show ?thesis using wr assms(4,5) by (simp add: configuration_service_write_def service_ok_def)
qed

text \<open>Each handler leaves its response in the transmit buffer.\<close>

lemma answers_get_active:
  assumes l: "length (tx_buf s) = TX_BUF_MAX_LEN" and ok: "service_ok tls s" and t: "frame_message_type f = 1"
  shows "answers (response_frame tls env f s) s (management_transport_dispatch_get_active_configuration env f s) \<and>
    config_service (management_transport_dispatch_get_active_configuration env f s) = config_service s \<and>
    config_flash (management_transport_dispatch_get_active_configuration env f s) = config_flash s \<and>
    backup_registers (management_transport_dispatch_get_active_configuration env f s) = backup_registers s \<and>
    reset_pending (management_transport_dispatch_get_active_configuration env f s) = reset_pending s"
proof -
  let ?s1 = "begin_response MANAGEMENT_MESSAGE_GET_ACTIVE_CONFIGURATION_RESPONSE s"
  note b = begin_response_facts [OF l, of "MANAGEMENT_MESSAGE_GET_ACTIVE_CONFIGURATION_RESPONSE"]
  have rp: "reset_pending ?s1 = reset_pending s" by (simp add: begin_response_def)
  note c = answers_code [OF b(2,3,4,1), of f, unfolded b rp]
  show ?thesis
  proof (cases "frame_payload f = [] \<and> configuration_is_ready env \<and> service_state (config_service s) = CONFIGURATION_SERVICE_READY")
    case False
    let ?v = "if frame_payload f \<noteq> [] then MANAGEMENT_RESULT_INVALID_REQUEST
              else if \<not> configuration_is_ready env then MANAGEMENT_RESULT_NOT_READY else MANAGEMENT_RESULT_INTERNAL_ERROR"
    have "management_transport_dispatch_get_active_configuration env f s = snd (finish_response f (write_code ?v ?s1))"
      using False b by (auto simp: management_transport_dispatch_get_active_configuration_def configuration_service_active_def)
    moreover have "response_frame tls env f s = \<lparr>frame_message_type = 0x81, frame_transaction_id = frame_transaction_id f, frame_payload = le16 ?v\<rparr>"
      using False t by (auto simp: response_frame_def response_type_def response_payload_def configuration_service_active_def)
    ultimately show ?thesis using c [of ?v] by auto
  next
    case True
    let ?e = "2 # fields_enc (active_configuration (config_service s))"
    have run: "service_run tls (config_service s) (config_flash s)" using True ok by (simp add: service_ok_def)
    note e = run_active_encodable [OF run]
    let ?out = "overwrite 0 ?e (take CONFIGURATION_V2_MAX_PAYLOAD_LENGTH (drop 15 (tx_buf ?s1)))"
    let ?sa = "?s1\<lparr>tx_buf := overwrite 15 ?out (tx_buf ?s1)\<rparr>"
    let ?s2 = "(write_code 0 ?sa)\<lparr>tx_len := 2 + length ?e\<rparr>"
    have u: "unat (of_nat (length ?e) :: u32) = length ?e" using e
      by (simp add: unat_of_nat take_bit_nat_eq_self del: of_nat_Suc)
    have lo: "length ?out = 8475" using e b by (simp add: overwrite_def min_def)
    have d: "management_transport_dispatch_get_active_configuration env f s = snd (finish_response f ?s2)"
      using True b u e lo encode_result [OF e, of "take 8475 (drop 15 (tx_buf ?s1))" 0]
      by (simp add: management_transport_dispatch_get_active_configuration_def configuration_service_active_def Let_def
          write_code_def del: of_nat_Suc)
    have la: "length (tx_buf ?sa) = TX_BUF_MAX_LEN" using lo b by (simp add: overwrite_def)
    have dr: "drop 15 (tx_buf ?sa) = ?out @ drop 8475 (drop 15 (tx_buf ?s1))"
      using lo b by (simp add: overwrite_def)
    have out: "take (length ?e) ?out = ?e" using e b by (simp add: overwrite_def)
    have p: "take (tx_len ?s2) (drop 13 (tx_buf ?s2)) = le16 0 @ ?e"
      using write_code_drop(1) [OF la, of 0] dr out lo e by simp
    have s2: "length (tx_buf ?s2) = TX_BUF_MAX_LEN" "tx_len ?s2 = 2 + length ?e" "same_session s ?s2" "tx_buf ?s2 ! 4 = 0x81"
      using write_code_drop(2,3) [OF la, of 0] la b by (simp_all add: same_session_def write_code_def begin_response_def overwrite_def nth_append)
    have "tx_len ?s2 \<le> MANAGEMENT_FRAME_MAX_PAYLOAD_LENGTH" using s2(2) e by simp
    from answers_finish [OF s2(1) this s2(3,4) p, of f] obtain s3 where s3: "finish_response f ?s2 = (False, s3)"
      "answers \<lparr>frame_message_type = 0x81, frame_transaction_id = frame_transaction_id f, frame_payload = le16 0 @ ?e\<rparr> s s3"
      "config_service s3 = config_service ?s2" "config_flash s3 = config_flash ?s2" "backup_registers s3 = backup_registers ?s2"
      "reset_pending s3 = reset_pending ?s2" by blast
    have "response_frame tls env f s = \<lparr>frame_message_type = 0x81, frame_transaction_id = frame_transaction_id f, frame_payload = le16 0 @ ?e\<rparr>"
      using True t by (simp add: response_frame_def response_type_def response_payload_def configuration_service_active_def)
    then show ?thesis using d s3 by (simp add: write_code_def begin_response_def)
  qed
qed


lemma answers_put:
  assumes l: "length (tx_buf s) = TX_BUF_MAX_LEN" and ok: "service_ok tls s" and t: "frame_message_type f = 2"
    and p: "length (frame_payload f) \<le> MANAGEMENT_FRAME_MAX_PAYLOAD_LENGTH"
  shows "answers (response_frame tls env f s) s (management_transport_dispatch_put_configuration tls env f s) \<and>
    service_ok tls (management_transport_dispatch_put_configuration tls env f s) \<and>
    backup_registers (management_transport_dispatch_put_configuration tls env f s) = backup_registers s \<and>
    reset_pending (management_transport_dispatch_put_configuration tls env f s) = reset_pending s"
proof -
  let ?s1 = "begin_response MANAGEMENT_MESSAGE_PUT_CONFIGURATION_RESPONSE s"
  let ?n = "of_nat (length (frame_payload f)) :: u32"
  note b = begin_response_facts [OF l, of "MANAGEMENT_MESSAGE_PUT_CONFIGURATION_RESPONSE"]
  have rp: "reset_pending ?s1 = reset_pending s" by (simp add: begin_response_def)
  have n: "unat ?n \<le> length (frame_payload f)" using p by (simp add: unat_of_nat take_bit_nat_eq_self)
  obtain r c d where w: "configuration_service_write tls (Some (frame_payload f)) ?n (config_service s) (config_flash s) = (r, c, d)"
    by (metis prod_cases3)
  show ?thesis
  proof (cases "configuration_is_ready env")
    case False
    have "management_transport_dispatch_put_configuration tls env f s = snd (finish_response f (write_code MANAGEMENT_RESULT_NOT_READY ?s1))"
      using False by (simp add: management_transport_dispatch_put_configuration_def)
    moreover have "response_frame tls env f s = \<lparr>frame_message_type = 0x82, frame_transaction_id = frame_transaction_id f,
        frame_payload = le16 MANAGEMENT_RESULT_NOT_READY\<rparr>"
      using False t by (simp add: response_frame_def response_type_def response_payload_def)
    ultimately show ?thesis
      using answers_code [OF b(2,3,4,1), of f MANAGEMENT_RESULT_NOT_READY, unfolded b rp] ok by (auto simp: service_ok_def)
  next
    case True
    let ?sa = "?s1\<lparr>config_service := c, config_flash := d\<rparr>"
    let ?v = "management_transport_map_configuration_result r"
    have "length (tx_buf ?sa) = TX_BUF_MAX_LEN" "tx_len ?sa = 2" "same_session s ?sa" "tx_buf ?sa ! 4 = 0x82"
      using b by (simp_all add: same_session_def)
    from answers_code [OF this, of f ?v] obtain s3 where s3: "finish_response f (write_code ?v ?sa) = (False, s3)"
      "answers \<lparr>frame_message_type = 0x82, frame_transaction_id = frame_transaction_id f, frame_payload = le16 ?v\<rparr> s s3"
      "config_service s3 = c" "config_flash s3 = d" "backup_registers s3 = backup_registers s" "reset_pending s3 = reset_pending s"
      using b rp by auto
    moreover have "management_transport_dispatch_put_configuration tls env f s = snd (finish_response f (write_code ?v ?sa))"
      using True w b by (simp add: management_transport_dispatch_put_configuration_def)
    moreover have "response_frame tls env f s = \<lparr>frame_message_type = 0x82, frame_transaction_id = frame_transaction_id f, frame_payload = le16 ?v\<rparr>"
      using True t w by (simp add: response_frame_def response_type_def response_payload_def)
    ultimately show ?thesis using write_keeps_service_ok [OF ok n w s3(3,4)] by simp
  qed
qed

lemma answers_get_status:
  assumes l: "length (tx_buf s) = TX_BUF_MAX_LEN" and t: "frame_message_type f = 3"
  shows "\<exists>s3. management_transport_dispatch_get_status env f s = s3 \<and> answers (response_frame tls env f s) s s3 \<and>
    config_service s3 = config_service s \<and> config_flash s3 = config_flash s \<and> backup_registers s3 = backup_registers s \<and>
    reset_pending s3 = reset_pending s"
proof -
  let ?s1 = "begin_response MANAGEMENT_MESSAGE_GET_STATUS_RESPONSE s"
  note b = begin_response_facts [OF l, of "MANAGEMENT_MESSAGE_GET_STATUS_RESPONSE"]
  have rp: "reset_pending ?s1 = reset_pending s" by (simp add: begin_response_def)
  show ?thesis
  proof (cases "frame_payload f = []")
    case False
    then show ?thesis using t answers_code [OF b(2,3,4,1), of f MANAGEMENT_RESULT_INVALID_REQUEST, unfolded b rp]
      by (auto simp: management_transport_dispatch_get_status_def response_frame_def response_type_def response_payload_def)
  next
    case True
    let ?sa = "?s1\<lparr>tx_buf := overwrite 15 (status_bytes env) (tx_buf ?s1)\<rparr>"
    let ?s2 = "(write_code 0 ?sa)\<lparr>tx_len := 17\<rparr>"
    have la: "length (tx_buf ?sa) = TX_BUF_MAX_LEN" using b by (simp add: overwrite_def)
    have dr: "drop 15 (tx_buf ?sa) = status_bytes env @ drop 30 (tx_buf ?s1)" using b by (simp add: overwrite_def)
    have p: "take (tx_len ?s2) (drop 13 (tx_buf ?s2)) = le16 0 @ status_bytes env"
      using write_code_drop(1) [OF la, of 0] dr by simp
    have s2: "length (tx_buf ?s2) = TX_BUF_MAX_LEN" "tx_len ?s2 \<le> MANAGEMENT_FRAME_MAX_PAYLOAD_LENGTH" "same_session s ?s2" "tx_buf ?s2 ! 4 = 0x83"
      using write_code_drop(2,3) [OF la, of 0] la b by (simp_all add: same_session_def write_code_def begin_response_def overwrite_def nth_append)
    from answers_finish [OF s2 p, of f] show ?thesis
      using True t rp b
      by (auto simp: management_transport_dispatch_get_status_def response_frame_def response_type_def response_payload_def write_code_def Let_def)
  qed
qed

lemma answers_restart:
  assumes l: "length (tx_buf s) = TX_BUF_MAX_LEN" and t: "frame_message_type f = 4" and np: "\<not> reset_pending s"
  shows "\<exists>s3. management_transport_dispatch_restart f s = s3 \<and> answers (response_frame tls env f s) s s3 \<and>
    config_service s3 = config_service s \<and> config_flash s3 = config_flash s \<and> backup_registers s3 = backup_registers s \<and>
    reset_pending s3 = (frame_payload f = [])"
proof -
  let ?s1 = "begin_response MANAGEMENT_MESSAGE_RESTART_RESPONSE s"
  note b = begin_response_facts [OF l, of "MANAGEMENT_MESSAGE_RESTART_RESPONSE"]
  have rp: "reset_pending ?s1 = reset_pending s" by (simp add: begin_response_def)
  show ?thesis
  proof (cases "frame_payload f = []")
    case False
    then show ?thesis using t np answers_code [OF b(2,3,4,1), of f MANAGEMENT_RESULT_INVALID_REQUEST, unfolded b rp]
      by (auto simp: management_transport_dispatch_restart_def response_frame_def response_type_def response_payload_def)
  next
    case True
    let ?sa = "?s1\<lparr>reset_pending := True\<rparr>"
    have "length (tx_buf ?sa) = TX_BUF_MAX_LEN" "tx_len ?sa = 2" "same_session s ?sa" "tx_buf ?sa ! 4 = 0x84"
      using b by (simp_all add: same_session_def)
    from answers_code [OF this, of f 0] obtain s3 where s3: "finish_response f (write_code 0 ?sa) = (False, s3)"
      "answers \<lparr>frame_message_type = 0x84, frame_transaction_id = frame_transaction_id f, frame_payload = le16 0\<rparr> s s3"
      "config_service s3 = config_service s" "config_flash s3 = config_flash s" "backup_registers s3 = backup_registers s" "reset_pending s3"
      using b by auto
    moreover have "(write_code 0 ?s1)\<lparr>reset_pending := True\<rparr> = write_code 0 ?sa" by (simp add: write_code_def)
    ultimately show ?thesis using True t
      by (simp add: management_transport_dispatch_restart_def response_frame_def response_type_def response_payload_def)
  qed
qed

lemma answers_request_upgrade:
  assumes l: "length (tx_buf s) = TX_BUF_MAX_LEN" and t: "frame_message_type f = 5"
  shows "\<exists>s3. management_transport_dispatch_request_upgrade f s = s3 \<and> answers (response_frame tls env f s) s s3 \<and>
    config_service s3 = config_service s \<and> config_flash s3 = config_flash s \<and> reset_pending s3 = reset_pending s"
proof -
  let ?ok = "fst (boot_request_set (backup_registers s))"
  let ?v = "if frame_payload f \<noteq> [] then MANAGEMENT_RESULT_INVALID_REQUEST else if ?ok then 0 else MANAGEMENT_RESULT_INTERNAL_ERROR"
  define s1 where "s1 = (if frame_payload f \<noteq> [] then s else s\<lparr>backup_registers := snd (boot_request_set (backup_registers s))\<rparr>)"
  have s1: "tx_buf s1 = tx_buf s" "same_session s s1" "config_service s1 = config_service s" "config_flash s1 = config_flash s"
    "reset_pending s1 = reset_pending s"
    by (simp_all add: s1_def same_session_def)
  have e: "management_transport_dispatch_request_upgrade f s = snd (encode_response 0x85 f 2 (write_code ?v s1))"
    by (simp add: management_transport_dispatch_request_upgrade_def s1_def split_beta)
  have lw: "length (tx_buf (write_code ?v s1)) = TX_BUF_MAX_LEN" "take 2 (drop 13 (tx_buf (write_code ?v s1))) = le16 ?v"
    using write_code_drop(1,3) [of s1 ?v] s1(1) l by simp_all
  let ?r = "\<lparr>frame_message_type = 0x85, frame_transaction_id = frame_transaction_id f, frame_payload = le16 ?v\<rparr>"
  have er: "management_transport_dispatch_request_upgrade f s = (write_code ?v s1)\<lparr>tx_len := 19, tx_buf := frame_bytes ?r @ drop 19 (tx_buf (write_code ?v s1))\<rparr>"
    unfolding e using encode_response_result [OF lw(1), of 2 "0x85" f] lw(2) by simp
  have fr: "response_frame tls env f s = ?r"
    using t by (simp add: response_frame_def response_type_def response_payload_def)
  have lr: "length (frame_bytes ?r) = 19" by simp
  have "answers ?r s ((write_code ?v s1)\<lparr>tx_len := 19, tx_buf := frame_bytes ?r @ drop 19 (tx_buf (write_code ?v s1))\<rparr>)"
    using lr lw(1) s1(2) by (simp del: length_frame_bytes add: answers_def same_session_def write_code_def)
  then show ?thesis unfolding er fr using s1 by (simp add: write_code_def)
qed

text \<open>The dispatcher as a whole.\<close>

lemma dispatch_answers:
  assumes l: "length (tx_buf s) = TX_BUF_MAX_LEN" and ok: "service_ok tls s"
    and p: "length (frame_payload f) \<le> MANAGEMENT_FRAME_MAX_PAYLOAD_LENGTH"
  shows "answers (response_frame tls env f s) s (management_transport_dispatch_request tls env f s) \<and>
    service_ok tls (management_transport_dispatch_request tls env f s) \<and>
    reset_pending (management_transport_dispatch_request tls env f s) =
      (frame_message_type f = MANAGEMENT_MESSAGE_RESTART \<and> frame_payload f = [])"
proof -
  let ?s0 = "s\<lparr>reset_pending := False\<rparr>"
  have l0: "length (tx_buf ?s0) = TX_BUF_MAX_LEN" and ok0: "service_ok tls ?s0" and np: "\<not> reset_pending ?s0"
    using l ok by (simp_all add: service_ok_def)
  have rf: "response_frame tls env f ?s0 = response_frame tls env f s"
    by (simp add: response_frame_def response_payload_def cong: if_cong)
  have an: "answers r ?s0 s' = answers r s s'" for r s' by (simp add: answers_def same_session_def)
  have so: "config_service s' = config_service ?s0 \<Longrightarrow> config_flash s' = config_flash ?s0 \<Longrightarrow> service_ok tls s'" for s'
    using ok0 by (simp add: service_ok_def)
  let ?t = "frame_message_type f"
  consider (get) "?t = 1" | (put) "?t = 2" | (status) "?t = 3" | (restart) "?t = 4" | (upgrade) "?t = 5" | (other) "?t \<notin> {1, 2, 3, 4, 5}"
    by auto
  then show ?thesis
  proof cases
    case get
    with answers_get_active [OF l0 ok0 get, of env] so show ?thesis
      by (simp add: management_transport_dispatch_request_def rf an)
  next
    case put
    with answers_put [OF l0 ok0 put p, of env] show ?thesis
      by (simp add: management_transport_dispatch_request_def rf an)
  next
    case status
    with answers_get_status [OF l0 status, of env tls] so show ?thesis
      by (simp add: management_transport_dispatch_request_def rf an)
  next
    case restart
    with answers_restart [OF l0 restart np, of tls env] so show ?thesis
      by (simp add: management_transport_dispatch_request_def rf an)
  next
    case upgrade
    with answers_request_upgrade [OF l0 upgrade, of tls env] so show ?thesis
      by (simp add: management_transport_dispatch_request_def rf an)
  next
    case other
    note b = begin_response_facts [OF l0, of MANAGEMENT_MESSAGE_ERROR_RESPONSE]
    have d: "management_transport_dispatch_request tls env f s =
        snd (finish_response f (write_code MANAGEMENT_RESULT_UNSUPPORTED_MESSAGE (begin_response MANAGEMENT_MESSAGE_ERROR_RESPONSE ?s0)))"
      using other by (simp add: management_transport_dispatch_request_def)
    have r: "response_frame tls env f s = \<lparr>frame_message_type = 0xFF, frame_transaction_id = frame_transaction_id f,
        frame_payload = le16 MANAGEMENT_RESULT_UNSUPPORTED_MESSAGE\<rparr>"
      using other by (simp add: response_frame_def response_type_def response_payload_def)
    have rp: "reset_pending (begin_response MANAGEMENT_MESSAGE_ERROR_RESPONSE ?s0) = False" by (simp add: begin_response_def)
    obtain s3 where s3: "finish_response f (write_code MANAGEMENT_RESULT_UNSUPPORTED_MESSAGE (begin_response MANAGEMENT_MESSAGE_ERROR_RESPONSE ?s0)) = (False, s3)"
      "answers (response_frame tls env f s) ?s0 s3" "config_service s3 = config_service ?s0" "config_flash s3 = config_flash ?s0"
      "\<not> reset_pending s3"
      using answers_code [OF b(2,3,4,1), of f MANAGEMENT_RESULT_UNSUPPORTED_MESSAGE, unfolded b rp] r by auto
    have "?t \<noteq> 4" using other by simp
    then show ?thesis unfolding d s3(1) using s3(2,5) so [OF s3(3,4)] by (simp add: an)
  qed
qed


section \<open>The task between two critical sections\<close>

definition parser_ok :: "management_frame_parser_t \<Rightarrow> bool" where
  "parser_ok p \<longleftrightarrow> parser_inv p \<and> parse (parser_rest p) = ([], parser_rest p)"

text \<open>The frames that complete with the bytes received.\<close>

definition frames_in :: "transport \<Rightarrow> management_frame_view_t list" where
  "frames_in s = fst (parse (parser_rest (management_parser s) @ take (rx_buf_len s) (rx_buf_copy s)))"

definition transport_ok :: "mbedtls_api \<Rightarrow> transport \<Rightarrow> bool" where
  "transport_ok tls s \<longleftrightarrow> length (tx_buf s) = TX_BUF_MAX_LEN \<and> length (session_rx_buf s) = RX_BUF_MAX_LEN \<and>
     length (rx_buf_copy s) = RX_BUF_MAX_LEN \<and> management_state s \<noteq> MANAGEMENT_STATE_FAULT \<and> parser_ok (management_parser s) \<and>
     service_ok tls s"

lemma parser_ok_reset: "parser_ok p \<Longrightarrow> parser_ok (the (management_frame_parser_reset (Some p)))"
  by (auto simp: parser_ok_def parser_inv_def parser_rest_def management_frame_parser_reset_def)

lemma fold_handle_busy:
  "management_state s \<noteq> MANAGEMENT_STATE_RECVIVING \<Longrightarrow> fold (management_transport_handle_frame tls env) fs s = s"
  by (induction fs) (auto simp: management_transport_handle_frame_def)

lemma handle_answers:
  assumes ok: "transport_ok tls s" and r: "management_state s = MANAGEMENT_STATE_RECVIVING"
    and p: "length (frame_payload f) \<le> MANAGEMENT_FRAME_MAX_PAYLOAD_LENGTH"
    and s': "s' = management_transport_handle_frame tls env f s"
  shows "answers (response_frame tls env f s)
      (s\<lparr>management_state := MANAGEMENT_STATE_SENDING, dispatched := dispatched s @ [(last_session_id s, f)]\<rparr>) s' \<and> service_ok tls s' \<and>
    reset_pending s' = (frame_message_type f = MANAGEMENT_MESSAGE_RESTART \<and> frame_payload f = [])"
proof -
  let ?s1 = "s\<lparr>management_state := MANAGEMENT_STATE_SENDING, dispatched := dispatched s @ [(last_session_id s, f)]\<rparr>"
  have "response_frame tls env f ?s1 = response_frame tls env f s"
    by (simp add: response_frame_def response_payload_def cong: if_cong)
  moreover have "length (tx_buf ?s1) = TX_BUF_MAX_LEN" "service_ok tls ?s1"
    using ok by (simp_all add: transport_ok_def service_ok_def)
  ultimately show ?thesis
    using dispatch_answers [of ?s1 tls f env] p r s' by (simp add: management_transport_handle_frame_def)
qed

text \<open>What a state keeps while the task parses.\<close>

definition parsed :: "transport \<Rightarrow> transport \<Rightarrow> bool" where
  "parsed s s' \<longleftrightarrow> session_id s' = session_id s \<and> session_is_open s' = session_is_open s \<and> last_session_id s' = last_session_id s \<and>
     tx_successful s' = tx_successful s \<and> transfers s' = transfers s \<and> session_tx_in_progress s' = session_tx_in_progress s \<and>
     session_tx_completed s' = session_tx_completed s \<and> rx_buf_len s' = 0"

lemma process_received_result:
  assumes ok: "transport_ok tls s" and s': "s' = process_received tls env s"
  shows "transport_ok tls s' \<and> parsed s s' \<and>
    (if management_state s = MANAGEMENT_STATE_RECVIVING \<and> frames_in s \<noteq> []
     then management_state s' = MANAGEMENT_STATE_SENDING \<and>
       take (tx_len s') (tx_buf s') = frame_bytes (response_frame tls env (hd (frames_in s)) s) \<and>
       dispatched s' = dispatched s @ [(last_session_id s, hd (frames_in s))] \<and>
       (reset_pending s' \<longleftrightarrow> frame_message_type (hd (frames_in s)) = MANAGEMENT_MESSAGE_RESTART \<and> frame_payload (hd (frames_in s)) = [])
     else management_state s' = management_state s \<and> tx_len s' = tx_len s \<and> tx_buf s' = tx_buf s \<and> dispatched s' = dispatched s \<and>
       reset_pending s' = reset_pending s)"
proof (cases "rx_buf_len s = 0")
  case True
  then have "frames_in s = []" using ok by (simp add: frames_in_def transport_ok_def parser_ok_def)
  then show ?thesis using True ok s' by (simp add: process_received_def parsed_def)
next
  case False
  let ?h = "management_transport_handle_frame tls env" and ?xs = "take (rx_buf_len s) (rx_buf_copy s)"
  have pok: "parser_inv (management_parser s)" "parse (parser_rest (management_parser s)) = ([], parser_rest (management_parser s))"
    using ok by (auto simp: transport_ok_def parser_ok_def)
  obtain p fs where f: "feed_loop ?h (management_parser s) ?xs s = (MANAGEMENT_FRAME_OK, p, fold ?h fs s)" "parser_inv p"
    "parse (parser_rest (management_parser s) @ ?xs) = (fs, parser_rest p)"
    using feed_loop_refines [OF pok, of ?h ?xs s] by blast
  have fi: "frames_in s = fs" using f(3) by (simp add: frames_in_def)
  have p: "parser_ok p" using f(2) parse_rest [OF f(3)] by (simp add: parser_ok_def)
  have feed: "management_frame_parser_feed (Some (management_parser s)) (Some (rx_buf_copy s)) (rx_buf_len s) (Some ?h) s =
      (MANAGEMENT_FRAME_OK, Some p, fold ?h fs s)"
    using f(1) pok(1) by (auto simp: management_frame_parser_feed_def parser_inv_def)
  let ?s2 = "(fold ?h fs s)\<lparr>management_parser := p\<rparr>"
  have e: "s' = (if management_state ?s2 = MANAGEMENT_STATE_SENDING then reset_parser ?s2 else ?s2)\<lparr>rx_buf_len := 0\<rparr>"
    using False feed s' by (simp add: process_received_def)
  show ?thesis
  proof (cases "management_state s = MANAGEMENT_STATE_RECVIVING \<and> fs \<noteq> []")
    case False
    then have "fold ?h fs s = s" using fold_handle_busy by (cases "fs = []") auto
    then have "s' = (if management_state s = MANAGEMENT_STATE_SENDING then reset_parser (s\<lparr>management_parser := p\<rparr>)
                     else s\<lparr>management_parser := p\<rparr>)\<lparr>rx_buf_len := 0\<rparr>" using e by simp
    then show ?thesis using False ok p fi parser_ok_reset [OF p]
      by (auto simp: transport_ok_def parsed_def reset_parser_def service_ok_def)
  next
    case True
    then obtain g gs where g: "fs = g # gs" by (cases fs) auto
    have "length (frame_payload g) \<le> MANAGEMENT_FRAME_MAX_PAYLOAD_LENGTH" using parse_sound [OF f(3)] g by auto
    from handle_answers [OF ok _ this refl, of env] True
    have a: "answers (response_frame tls env g s)
      (s\<lparr>management_state := MANAGEMENT_STATE_SENDING, dispatched := dispatched s @ [(last_session_id s, g)]\<rparr>) (?h g s)"
      "service_ok tls (?h g s)" "reset_pending (?h g s) = (frame_message_type g = MANAGEMENT_MESSAGE_RESTART \<and> frame_payload g = [])"
      by auto
    have "fold ?h fs s = ?h g s" using a(1) unfolding g by (simp add: fold_handle_busy answers_def same_session_def)
    then have "s' = (reset_parser ((?h g s)\<lparr>management_parser := p\<rparr>))\<lparr>rx_buf_len := 0\<rparr>"
      using e a(1) by (simp add: answers_def same_session_def)
    then show ?thesis using True ok a g fi parser_ok_reset [OF p]
      by (simp add: transport_ok_def parsed_def reset_parser_def service_ok_def answers_def same_session_def)
  qed
qed


section \<open>The invariant of the interleaving\<close>

text \<open>The transfer is the response computed, for that request, from a state the task was in when it processed it.\<close>

definition responds :: "mbedtls_api \<Rightarrow> u32 \<times> u8 list \<Rightarrow> u32 \<times> management_frame_view_t \<Rightarrow> bool" where
  "responds tls t d \<longleftrightarrow> fst t = fst d \<and>
     (\<exists>env s. transport_reachable tls (At_Process, s) \<and> last_session_id s = fst d \<and> snd t = frame_bytes (response_frame tls env (snd d) s))"

text \<open>Every transfer answers a logged request, in the order of the requests.\<close>

definition in_order :: "mbedtls_api \<Rightarrow> (u32 \<times> u8 list) list \<Rightarrow> (u32 \<times> management_frame_view_t) list \<Rightarrow> bool" where
  "in_order tls ts ds \<longleftrightarrow> (\<exists>ks. length ks = length ts \<and> sorted ks \<and> list_all (\<lambda>k. k < length ds) ks \<and>
     list_all2 (\<lambda>t k. responds tls t (ds ! k)) ts ks)"

lemma in_order_Nil [simp]: "in_order tls [] ds"
  by (simp add: in_order_def)

lemma in_order_log: "in_order tls ts ds \<Longrightarrow> in_order tls ts (ds @ [d])"
proof -
  assume "in_order tls ts ds"
  then obtain ks where ks: "length ks = length ts" "sorted ks" "list_all (\<lambda>k. k < length ds) ks"
    "list_all2 (\<lambda>t k. responds tls t (ds ! k)) ts ks" by (auto simp: in_order_def)
  have "list_all2 (\<lambda>t k. responds tls t ((ds @ [d]) ! k)) ts ks"
    using ks(3,4) by (auto simp: list_all2_conv_all_nth list_all_length nth_append)
  moreover have "list_all (\<lambda>k. k < length (ds @ [d])) ks" using ks(3) by (auto simp: list_all_length)
  ultimately show ?thesis using ks(1,2) unfolding in_order_def by blast
qed

lemma in_order_send:
  assumes "in_order tls ts ds" "ds \<noteq> []" "responds tls t (last ds)"
  shows "in_order tls (ts @ [t]) ds"
proof -
  obtain ks where ks: "length ks = length ts" "sorted ks" "list_all (\<lambda>k. k < length ds) ks"
    "list_all2 (\<lambda>t k. responds tls t (ds ! k)) ts ks" using assms(1) by (auto simp: in_order_def)
  have "sorted (ks @ [length ds - 1])" using ks(2,3) by (auto simp: sorted_append list_all_iff)
  moreover have "list_all (\<lambda>k. k < length ds) (ks @ [length ds - 1])" using ks(3) assms(2) by simp
  moreover have "list_all2 (\<lambda>t k. responds tls t (ds ! k)) (ts @ [t]) (ks @ [length ds - 1])"
    using ks(1,4) assms(2,3) by (simp add: list_all2_append last_conv_nth)
  ultimately show ?thesis using ks(1) unfolding in_order_def by (intro exI [of _ "ks @ [length ds - 1]"]) simp
qed

definition transport_inv :: "mbedtls_api \<Rightarrow> transport \<Rightarrow> bool" where
  "transport_inv tls s \<longleftrightarrow> transport_ok tls s \<and> in_order tls (transfers s) (dispatched s) \<and>
     (tx_successful s \<longrightarrow> management_state s = MANAGEMENT_STATE_SENDING) \<and>
     (management_state s = MANAGEMENT_STATE_SENDING \<longrightarrow>
        dispatched s \<noteq> [] \<and> responds tls (last_session_id s, take (tx_len s) (tx_buf s)) (last (dispatched s)))"

lemma take_session_inv: "transport_inv tls s \<Longrightarrow> transport_inv tls (snd (take_session s))"
  by (auto simp: transport_inv_def transport_ok_def take_session_def reset_parser_def service_ok_def parser_ok_reset)

lemma take_completion_inv: "transport_inv tls s \<Longrightarrow> transport_inv tls (take_completion s)"
  by (auto simp: transport_inv_def transport_ok_def take_completion_def service_ok_def overwrite_def)

lemma take_events_inv: "transport_inv tls s \<Longrightarrow> transport_inv tls (snd (take_events s))"
  using take_session_inv [of tls s] take_completion_inv
  by (auto simp: take_events_def split: prod.splits)

lemma launch_inv:
  assumes "transport_inv tls s" "session_id s = last_session_id s"
  shows "transport_inv tls (launch env s)"
  using assms in_order_send [of tls "transfers s" "dispatched s" "(last_session_id s, take (tx_len s) (tx_buf s))"]
  by (auto simp: transport_inv_def transport_ok_def launch_def service_ok_def)

lemma finish_transmission_inv: "transport_inv tls s \<Longrightarrow> transport_inv tls (finish_transmission s)"
  by (auto simp: transport_inv_def transport_ok_def finish_transmission_def service_ok_def)

lemma process_received_inv:
  assumes "transport_inv tls s" "transport_reachable tls (At_Process, s)"
  shows "transport_inv tls (process_received tls env s)"
proof -
  let ?s' = "process_received tls env s"
  have ok: "transport_ok tls s" using assms(1) by (simp add: transport_inv_def)
  note r = process_received_result [OF ok refl, of env]
  show ?thesis
  proof (cases "management_state s = MANAGEMENT_STATE_RECVIVING \<and> frames_in s \<noteq> []")
    case False
    then show ?thesis using r assms(1) unfolding transport_inv_def by (auto simp: parsed_def)
  next
    case True
    have "responds tls (last_session_id s, take (tx_len ?s') (tx_buf ?s')) (last_session_id s, hd (frames_in s))"
      using True r assms(2) by (auto simp: responds_def)
    moreover have "\<not> tx_successful s" using True assms(1) by (auto simp: transport_inv_def)
    ultimately show ?thesis using True r assms(1) in_order_log by (simp add: transport_inv_def parsed_def)
  qed
qed

lemma task_step_inv:
  assumes "transport_inv tls s" "transport_reachable tls (pc, s)"
  shows "transport_inv tls (snd (task_step tls env (pc, s)))"
proof (cases pc)
  case At_Wait
  have "transport_inv tls (s\<lparr>notified := False, wait_ticks := 500\<rparr>)"
    using assms(1) by (simp add: transport_inv_def transport_ok_def service_ok_def)
  then show ?thesis using take_events_inv At_Wait by simp
next
  case At_Reset_Delay
  then show ?thesis using assms(1) by (auto simp: transport_inv_def transport_ok_def service_ok_def)
next
  case At_Process
  then show ?thesis using assms process_received_inv finish_transmission_inv by simp
next
  case At_Launch
  then show ?thesis using assms(1) take_events_inv launch_inv [of tls s env] by simp
qed (use assms(1) in simp_all)

lemma isr_inv:
  assumes "transport_inv tls s"
  shows "transport_inv tls (management_transport_session_open_from_isr s)" "transport_inv tls (management_transport_session_close_from_isr s)"
    "transport_inv tls (management_transport_receive_from_isr data len s)" "transport_inv tls (management_transport_transmit_complete_from_isr s)"
  using assms
  by (auto simp: transport_inv_def transport_ok_def service_ok_def management_transport_session_open_from_isr_def
      management_transport_session_close_from_isr_def management_transport_receive_from_isr_def
      management_transport_transmit_complete_from_isr_def management_transport_notify_task_from_isr_def overwrite_def Let_def)

lemma reachable_inv: "transport_reachable tls x \<Longrightarrow> transport_inv tls (snd x)"
proof (induction rule: transport_reachable.induct)
  case (initial s0 received_frame s)
  have i: "management_frame_parser_init (Some (management_parser s0)) (Some received_frame) (length received_frame) =
      (MANAGEMENT_FRAME_OK, Some (management_parser s))"
    and s: "s = s0\<lparr>management_parser := management_parser s, session_id := 0, session_is_open := False, session_rx_len := 0,
              management_state := MANAGEMENT_STATE_IDLE\<rparr>"
    using initial(3,4) by (auto simp: management_transport_init_def management_frame_parser_init_def)
  have "parser_ok (management_parser s)" using init_inv [OF i] by (simp add: parser_ok_def)
  moreover have "service_ok tls s" using initial(2) by (subst s) (simp add: service_ok_def)
  ultimately show ?case using initial(1) s
    by (cases s, cases s0) (simp add: transport_inv_def transport_ok_def transport_static_def)
next
  case (step x y)
  obtain pc s where x: "x = (pc, s)" by (cases x)
  have "transport_inv tls s" using step(3) x by simp
  from step(2) isr_inv [OF this] task_step_inv [OF this step(1) [unfolded x]] show ?case
    by (cases rule: transport_step.cases) (auto simp: x)
qed

section \<open>A concrete run\<close>

definition example_transport :: transport where
  "example_transport = \<lparr>session_id = 0, session_is_open = False, session_rx_buf = replicate 128 0, session_rx_len = 0,
     session_rx_in_progress = False, session_rx_completed = False, session_tx_in_progress = False, session_tx_completed = False,
     tx_buf = replicate 8494 0, tx_len = 0, last_session_id = 0, rx_buf_copy = replicate 128 0, rx_buf_len = 0, tx_successful = False,
     reset_pending = False, management_state = MANAGEMENT_STATE_IDLE,
     management_parser = \<lparr>parser_storage = Some (replicate 8494 0), parser_capacity = 8494, parser_length = 0\<rparr>, notified = False,
     wait_ticks = 500, config_service = example_service, config_flash = blank_flash,
     backup_registers = \<lparr>bkp0r = 0, dbp = False, primask = 0, pwr_clock = True, dbp_latency = 0, bkp_writable = True\<rparr>,
     transfers = [], dispatched = []\<rparr>"

definition example_environment :: environment where
  "example_environment = \<lparr>configuration_is_ready = True, netif_default = None, sntp_synchronized = False, sntp_time = None, mqtt_state = 0,
     enable_receive = MANAGEMENT_TRANSPORT_CDC_OK, cdc_send = MANAGEMENT_TRANSPORT_CDC_OK\<rparr>"

text \<open>A request of a type the device does not know.\<close>

definition example_request :: management_frame_view_t where
  "example_request = \<lparr>frame_message_type = 9, frame_transaction_id = 7, frame_payload = []\<rparr>"

lemma task_reachable: "transport_reachable tls x \<Longrightarrow> transport_reachable tls (task_step tls env x)"
  by (blast intro: transport_reachable.step transport_step.task)

lemma example_received:
  "\<exists>s. transport_reachable no_tls (At_Process, s) \<and> management_state s = MANAGEMENT_STATE_RECVIVING \<and> frames_in s = [example_request] \<and>
     last_session_id s = session_id s \<and> session_is_open s \<and> \<not> session_tx_in_progress s \<and> \<not> session_tx_completed s \<and>
     \<not> tx_successful s \<and> transfers s = [] \<and> dispatched s = []"
proof -
  let ?e = example_environment and ?s0 = example_transport and ?R = "transport_reachable no_tls"
  have st: "transport_static ?s0" and ok: "service_ok no_tls ?s0"
    by (simp_all add: transport_static_def example_transport_def service_ok_def example_service_def)
  have "management_transport_init (replicate 8494 0) ?s0 = (MANAGEMENT_TRANSPORT_OK, ?s0)"
    by (simp add: management_transport_init_def management_frame_parser_init_def example_transport_def)
  from transport_reachable.initial [OF st ok _ this] have 0: "?R (At_Wait, ?s0)" by simp
  let ?s1 = "management_transport_session_open_from_isr ?s0"
  have 1: "?R (At_Wait, ?s1)" by (rule transport_reachable.step [OF 0 usb_open]) simp
  obtain s2 where s2: "snd (take_events (?s1\<lparr>notified := False, wait_ticks := 500\<rparr>)) = s2" by blast
  have t2: "take_events (?s1\<lparr>notified := False, wait_ticks := 500\<rparr>) = (At_Check_Reset, s2)"
    using s2 by (auto simp: take_events_def take_session_def example_transport_def management_transport_session_open_from_isr_def
        management_transport_notify_task_from_isr_def)
  have e2: "s2 = ?s0\<lparr>session_id := 1, session_is_open := True, session_rx_in_progress := True, notified := False,
      wait_ticks := 500, management_state := MANAGEMENT_STATE_RECVIVING, last_session_id := 1\<rparr>"
    using s2 by (auto simp: take_events_def take_session_def take_completion_def reset_parser_def management_frame_parser_reset_def
        example_transport_def management_transport_session_open_from_isr_def management_transport_notify_task_from_isr_def)
  have 2: "?R (At_Process, s2)"
    using task_reachable [OF task_reachable [OF 1, of ?e], of ?e] t2 by (simp add: e2 example_transport_def)
  have "task_step no_tls ?e (At_Process, s2) = (At_Launch, s2)"
    by (simp add: e2 example_transport_def process_received_def finish_transmission_def)
  moreover have "task_step no_tls ?e (At_Launch, s2) = (At_Wait, s2)"
    by (simp add: e2 example_transport_def launch_def)
  ultimately have 3: "?R (At_Wait, s2)"
    using task_reachable [OF task_reachable [OF 2, of ?e], of ?e] by simp
  let ?b = "frame_bytes example_request"
  have lb: "length ?b = 17" by (simp add: example_request_def)
  have f2: "session_rx_in_progress s2" "session_id s2 = 1" "last_session_id s2 = 1" "session_is_open s2"
    "management_state s2 = MANAGEMENT_STATE_RECVIVING" "length (session_rx_buf s2) = 128" "length (rx_buf_copy s2) = 128"
    "\<not> session_tx_in_progress s2" "\<not> session_tx_completed s2" "\<not> tx_successful s2" "transfers s2 = []" "dispatched s2 = []"
    "\<not> reset_pending s2" "parser_rest (management_parser s2) = []"
    by (simp_all add: e2 example_transport_def parser_rest_def)
  define s4 where "s4 = s2\<lparr>session_rx_in_progress := False, session_rx_buf := overwrite 0 ?b (session_rx_buf s2), session_rx_len := 17,
      session_rx_completed := True, notified := True\<rparr>"
  have "management_transport_receive_from_isr (Some ?b) 17 s2 = s4"
    using lb f2 by (simp add: management_transport_receive_from_isr_def management_transport_notify_task_from_isr_def s4_def)
  then have 4: "?R (At_Wait, s4)"
    using transport_reachable.step [OF 3 usb_receive [of At_Wait s2 17 ?b no_tls]] f2(1) lb by simp
  define s5 where "s5 = s4\<lparr>notified := False, wait_ticks := 500, rx_buf_len := 17,
        rx_buf_copy := overwrite 0 (take 17 (session_rx_buf s4)) (rx_buf_copy s4), session_rx_len := 0, session_rx_completed := False\<rparr>"
  have "take_events (s4\<lparr>notified := False, wait_ticks := 500\<rparr>) = (At_Check_Reset, s5)"
    using f2 by (simp add: take_events_def take_session_def take_completion_def s4_def s5_def)
  then have 5: "?R (At_Process, s5)"
    using task_reachable [OF task_reachable [OF 4, of ?e], of ?e] f2 by (simp add: s4_def s5_def)
  have "take 17 (rx_buf_copy s5) = ?b" using lb by (simp add: s4_def s5_def overwrite_def)
  moreover have "length (frame_payload example_request) \<le> MANAGEMENT_FRAME_MAX_PAYLOAD_LENGTH" by (simp add: example_request_def)
  ultimately have "frames_in s5 = [example_request]"
    using parse_frame [of example_request "[]"] f2 by (simp add: frames_in_def) (simp add: s4_def s5_def)
  then show ?thesis using 5 f2 by (intro exI [of _ s5]) (simp add: s4_def s5_def)
qed

section \<open>Properties\<close>

text \<open>
  C8. Every request is answered: whenever the task, waiting for requests, has received a complete frame,
  then behind the processing the transmit buffer holds exactly the encoded response to the first such frame, with its
  transaction id, the response type of its type, the result code and the data the request asks for; the state is
  SENDING, and a restart is pending only for a well-formed RESTART request.
\<close>

theorem every_request_answered:
  assumes r: "transport_reachable tls (At_Process, s)" and st: "management_state s = MANAGEMENT_STATE_RECVIVING"
    and f: "frames_in s = f # fs"
  shows "\<exists>s'. task_step tls env (At_Process, s) = (At_Launch, s') \<and> management_state s' = MANAGEMENT_STATE_SENDING \<and>
    take (tx_len s') (tx_buf s') = frame_bytes (response_frame tls env f s) \<and>
    (reset_pending s' \<longleftrightarrow> frame_message_type f = MANAGEMENT_MESSAGE_RESTART \<and> frame_payload f = [])"
proof -
  have inv: "transport_inv tls s" using reachable_inv [OF r] by simp
  then have "transport_ok tls s" "\<not> tx_successful s" using st by (auto simp: transport_inv_def)
  then show ?thesis
    using process_received_result [OF _ refl, of tls s env] st f by (simp add: parsed_def finish_transmission_def)
qed

theorem every_request_answered_witness:
  "\<exists>s s'. transport_reachable no_tls (At_Process, s) \<and>
     task_step no_tls example_environment (At_Process, s) = (At_Launch, s') \<and> management_state s' = MANAGEMENT_STATE_SENDING \<and>
     take (tx_len s') (tx_buf s') = frame_bytes (response_frame no_tls example_environment example_request s) \<and> \<not> reset_pending s'"
proof -
  obtain s where "transport_reachable no_tls (At_Process, s)" "management_state s = MANAGEMENT_STATE_RECVIVING"
    "frames_in s = [example_request]" using example_received by blast
  from this(1) every_request_answered [OF this, of example_environment] show ?thesis by (auto simp: example_request_def)
qed



text \<open>
  C9. Nothing but responses is sent, and each in its session: in every interleaving of the task with the interrupts,
  every transfer submitted to USB is the response to a request dispatched in the same session, computed from a state of the task in
  that session, and the responses go out in the order of the requests.
\<close>

theorem transfers_answer_requests:
  assumes "transport_reachable tls (pc, s)"
  shows "in_order tls (transfers s) (dispatched s)"
  using reachable_inv [OF assms] by (simp add: transport_inv_def)

text \<open>The run in which the transfer completes between \<open>take_events\<close> and the last critical section.\<close>

lemma sent_then_resent:
  assumes r: "transport_reachable tls (At_Launch, s)" and st: "management_state s = MANAGEMENT_STATE_SENDING" "dispatched s = [d]"
    "transfers s = []" "last_session_id s = session_id s" "session_is_open s" "\<not> session_tx_in_progress s" "\<not> session_tx_completed s"
    "\<not> tx_successful s" "rx_buf_len s = 0"
  shows "\<exists>s' t. transport_reachable tls (At_Wait, s') \<and> transfers s' = [t, t] \<and> dispatched s' = [d] \<and> responds tls t d"
proof -
  let ?e = example_environment and ?R = "transport_reachable tls" and ?t = "(session_id s, take (tx_len s) (tx_buf s))"
  have ok: "cdc_send ?e = MANAGEMENT_TRANSPORT_CDC_OK" by (simp add: example_environment_def)
  let ?s1 = "s\<lparr>session_tx_in_progress := True, transfers := [?t]\<rparr>"
  have "task_step tls ?e (At_Launch, s) = (At_Wait, ?s1)" using st ok by (simp add: launch_def)
  then have 1: "?R (At_Wait, ?s1)" using task_reachable [OF r, of ?e] by simp
  let ?s2 = "?s1\<lparr>notified := False, wait_ticks := 500\<rparr>"
  have "task_step tls ?e (At_Wait, ?s1) = (At_Check_Reset, ?s2)"
    using st by (simp add: take_events_def take_session_def take_completion_def)
  then have 2: "?R (At_Check_Reset, ?s2)" using task_reachable [OF 1, of ?e] by simp
  have "?R (At_Process, ?s2)" using task_reachable [OF 2, of ?e] st by simp
  from task_reachable [OF this, of ?e] have 3: "?R (At_Launch, ?s2)"
    using st by (simp add: process_received_def finish_transmission_def)
  let ?s3 = "management_transport_transmit_complete_from_isr ?s2"
  have 4: "?R (At_Launch, ?s3)" by (rule transport_reachable.step [OF 3 usb_transmitted]) simp_all
  have "task_step tls ?e (At_Launch, ?s3) = (At_Wait, launch ?e ?s3)" "transfers (launch ?e ?s3) = [?t, ?t]"
    "dispatched (launch ?e ?s3) = [d]"
    using st ok by (simp_all add: launch_def management_transport_transmit_complete_from_isr_def management_transport_notify_task_from_isr_def)
  moreover have "responds tls ?t d" using reachable_inv [OF r] st by (simp add: transport_inv_def)
  ultimately show ?thesis using task_reachable [OF 4, of ?e] by auto
qed

text \<open>
  C32. A response can go out twice: when the transfer completes between \<open>take_events\<close> and the last critical section, the
  task sees no transfer in progress, does not look at \<open>session_tx_completed\<close>, and submits the same response again;
  one request is then answered by two equal transfers.
\<close>

theorem response_sent_twice:
  "\<exists>s t d. transport_reachable no_tls (At_Wait, s) \<and> transfers s = [t, t] \<and> dispatched s = [d] \<and> responds no_tls t d"
proof -
  obtain s where s: "transport_reachable no_tls (At_Process, s)" "management_state s = MANAGEMENT_STATE_RECVIVING"
    "frames_in s = [example_request]" "last_session_id s = session_id s" "session_is_open s" "\<not> session_tx_in_progress s"
    "\<not> session_tx_completed s" "\<not> tx_successful s" "transfers s = []" "dispatched s = []"
    using example_received by blast
  let ?s' = "process_received no_tls example_environment s"
  have ok: "transport_ok no_tls s" using reachable_inv [OF s(1)] by (simp add: transport_inv_def)
  note r = process_received_result [OF ok refl, of example_environment]
  have "transport_reachable no_tls (At_Launch, ?s')"
    using task_reachable [OF s(1), of example_environment] r s by (simp add: finish_transmission_def parsed_def)
  from sent_then_resent [OF this] show ?thesis using r s by (auto simp: parsed_def)
qed

theorem transfers_answer_requests_witness:
  "\<exists>s. transport_reachable no_tls (At_Process, s) \<and> in_order no_tls (transfers s) (dispatched s)"
proof -
  obtain s where r: "transport_reachable no_tls (At_Process, s)" using example_received by blast
  show ?thesis using r transfers_answer_requests [OF r] by blast
qed

end
