(* ===== verification/Modbus_Common.thy ===== *)
theory Modbus_Common
  imports Gateway_Prelude
begin

text \<open>
  Model of \<open>app/Modbus/include/modbus_common.h\<close>: big-endian 16-bit accessors and the Modbus
  CRC-16. A pointer into a byte array is the pair of the array and an index. The checksum is an
  instance of \<open>byte_checksum\<close>, so every corruption confined to one byte changes it.
\<close>

definition read_u16_be :: "u8 list \<Rightarrow> nat \<Rightarrow> u16" where
  "read_u16_be bytes i = push_bit 8 (ucast (bytes ! i)) OR ucast (bytes ! (i + 1))"

definition write_u16_be :: "u8 list \<Rightarrow> nat \<Rightarrow> u16 \<Rightarrow> u8 list" where
  "write_u16_be bytes i v = bytes[i := ucast (drop_bit 8 v), i + 1 := ucast v]"

text \<open>The inner loop runs eight times; the outer loop reads \<open>length\<close> bytes from the start of the array.\<close>

definition crc16_byte :: "u16 \<Rightarrow> u8 \<Rightarrow> u16" where
  "crc16_byte crc b = crc_shifts 8 0xA001 (crc XOR ucast b)"

definition calculate_crc :: "u8 list \<Rightarrow> u16 \<Rightarrow> u16" where
  "calculate_crc data n = foldl crc16_byte 0xFFFF (take (unat n) data)"

subsection \<open>Lemmas\<close>

lemma read_u16_be_join: "read_u16_be bytes i = join16 (bytes ! i) (bytes ! (i + 1))"
  by (simp add: read_u16_be_def join16_def)

lemma length_write_u16_be [simp]: "length (write_u16_be bytes i v) = length bytes"
  by (simp add: write_u16_be_def)

lemma nth_write_u16_be:
  "i + 1 < length bytes \<Longrightarrow>
   write_u16_be bytes i v ! k =
     (if k = i then byte_at 1 v else if k = i + 1 then byte_at 0 v else bytes ! k)"
  by (auto simp: write_u16_be_def byte_at_def nth_list_update)

lemma read_write_u16_be [simp]:
  "i + 1 < length bytes \<Longrightarrow> read_u16_be (write_u16_be bytes i v) i = v"
  by (simp add: read_u16_be_join nth_write_u16_be byte_simps [simplified])

lemma read_write_u16_be_other:
  "i + 1 < length bytes \<Longrightarrow> j + 1 < i \<or> i + 1 < j \<Longrightarrow>
   read_u16_be (write_u16_be bytes i v) j = read_u16_be bytes j"
  by (auto simp: read_u16_be_join nth_write_u16_be)

definition crc16_of :: "u8 list \<Rightarrow> u16" where
  "crc16_of xs = foldl crc16_byte 0xFFFF xs"

lemma calculate_crc_take: "calculate_crc data n = crc16_of (take (unat n) data)"
  by (simp add: calculate_crc_def crc16_of_def)

lemma bit_A001: "bit (0xA001 :: u16) (LENGTH(16) - 1)"
  by (simp add: bit_numeral_rec)

lemma ucast_u8_u16_inject: "(ucast (b :: u8) :: u16) = ucast c \<longleftrightarrow> b = c"
  using unat_ucast_u8_u16 word_unat_eq_iff by metis

interpretation crc16: byte_checksum crc16_byte "\<lambda>c. c" "0xFFFF" crc16_of
proof
  show "crc16_of xs = foldl crc16_byte 0xFFFF xs" for xs by (simp add: crc16_of_def)
next
  fix s t :: u16 and b
  assume "crc16_byte s b = crc16_byte t b"
  then have "s XOR ucast b = t XOR ucast b"
    unfolding crc16_byte_def by (rule crc_shifts_inj [OF bit_A001])
  then show "s = t" by simp
next
  fix s :: u16 and b c
  assume "crc16_byte s b = crc16_byte s c"
  then have "s XOR ucast b = s XOR ucast c"
    unfolding crc16_byte_def by (rule crc_shifts_inj [OF bit_A001])
  then have "(ucast b :: u16) = ucast c" by simp
  then show "b = c" by (simp add: ucast_u8_u16_inject)
qed simp

end
