(* ===== verification/Modbus_RTU.thy ===== *)
theory Modbus_RTU
  imports Modbus_Common
begin

text \<open>
  Model of \<open>app/Modbus/include/modbus_rtu.h\<close> and \<open>app/Modbus/src/modbus_rtu.c\<close>: the RTU
  application data unit, request validation, the read request encoders, the response decoders,
  exception responses and one RTU transaction over the RS485 port.
  An ADU keeps its 256-byte array whole; bytes past its length are whatever the array held.
  Out-parameters are cells passed in and returned, so that the theorems can say what a failing
  call leaves untouched. The RS485 port is a parameter of \<open>modbus_rtu_transact\<close>.
\<close>

section \<open>Data\<close>

record modbus_rtu_adu_t =
  adu_length :: u16
  adu_data :: "u8 list"

datatype modbus_rtu_result_t =
    MODBUS_RTU_OK
  | MODBUS_RTU_INVALID_ARGUMENT
  | MODBUS_RTU_LENGTH_INVALID
  | MODBUS_RTU_SLAVE_ADDRESS_INVALID
  | MODBUS_RTU_CRC_INVALID
  | MODBUS_RTU_FUNCTION_UNSUPPORTED
  | MODBUS_RTU_FUNCTION_DOMAIN_INVALID
  | MODBUS_RTU_FUNCTION_MISMATCH
  | MODBUS_RTU_ADDRESS_RANGE_INVALID
  | MODBUS_RTU_BYTE_COUNT_INVALID
  | MODBUS_RTU_VALUE_INVALID
  | MODBUS_RTU_QUANTITY_INVALID

datatype modbus_rtu_channel_result_t =
    MODBUS_RTU_CHANNEL_OK
  | MODBUS_RTU_CHANNEL_INVALID_ARGUMENT

datatype modbus_rtu_transaction_result_t =
    MODBUS_RTU_TRANSACTION_OK
  | MODBUS_RTU_TRANSACTION_EXCEPTION_RESPONSE
  | MODBUS_RTU_TRANSACTION_INVALID_ARGUMENT
  | MODBUS_RTU_TRANSACTION_ADAPTER_IO_ERROR
  | MODBUS_RTU_TRANSACTION_RESPONSE_TIMEOUT
  | MODBUS_RTU_TRANSACTION_RESPONSE_LENGTH_INVALID
  | MODBUS_RTU_TRANSACTION_RESPONSE_CRC_INVALID
  | MODBUS_RTU_TRANSACTION_RESPONSE_SLAVE_ADDRESS_MISMATCH
  | MODBUS_RTU_TRANSACTION_RESPONSE_FUNCTION_MISMATCH
  | MODBUS_RTU_TRANSACTION_RESPONSE_FUNCTION_INVALID
  | MODBUS_RTU_TRANSACTION_RESPONSE_DATA_MISMATCH
  | MODBUS_RTU_TRANSACTION_RESPONSE_DATA_INVALID

datatype modbus_rtu_rs485_port_result_t =
    MODBUS_RTU_RS485_PORT_RESULT_OK
  | MODBUS_RTU_RS485_PORT_RESULT_UART_ERROR
  | MODBUS_RTU_RS485_PORT_RESULT_SLAVE_TIMEOUT

text \<open>
  The port call \<open>transceive context request request_length response timeout_ms\<close> returns its
  result, the response buffer after the call and the received length.
\<close>

type_synonym 'ctx rs485_transceive =
  "'ctx \<Rightarrow> u8 list \<Rightarrow> u16 \<Rightarrow> u8 list \<Rightarrow> u32 \<Rightarrow> modbus_rtu_rs485_port_result_t \<times> u8 list \<times> u16"

record 'ctx modbus_rtu_channel_t =
  ch_context :: 'ctx

abbreviation "MODBUS_RTU_MAX_LENGTH \<equiv> (256 :: nat)"
abbreviation "MODBUS_RTU_MIN_LENGTH \<equiv> (4 :: nat)"

abbreviation "MODBUS_FC_READ_COILS \<equiv> (0x01 :: u8)"
abbreviation "MODBUS_FC_READ_DISCRETE_INPUTS \<equiv> (0x02 :: u8)"
abbreviation "MODBUS_FC_READ_HOLDING_REGISTERS \<equiv> (0x03 :: u8)"
abbreviation "MODBUS_FC_READ_INPUT_REGISTERS \<equiv> (0x04 :: u8)"
abbreviation "MODBUS_FC_WRITE_SINGLE_COIL \<equiv> (0x05 :: u8)"
abbreviation "MODBUS_FC_WRITE_SINGLE_REGISTER \<equiv> (0x06 :: u8)"
abbreviation "MODBUS_FC_WRITE_MULTIPLE_COILS \<equiv> (0x0F :: u8)"
abbreviation "MODBUS_FC_WRITE_MULTIPLE_REGISTERS \<equiv> (0x10 :: u8)"

abbreviation "MODBUS_READ_COILS_MAX_COILS \<equiv> (2000 :: u16)"
abbreviation "MODBUS_READ_DISCRETE_INPUTS_MAX_DISCRETE_INPUTS \<equiv> (2000 :: u16)"
abbreviation "MODBUS_READ_HOLDING_REGISTERS_MAX_REGISTERS \<equiv> (125 :: u16)"
abbreviation "MODBUS_READ_INPUT_REGISTERS_MAX_REGISTERS \<equiv> (125 :: u16)"
abbreviation "MODBUS_RTU_WRITE_MULTIPLE_COILS_MAX_QUANTITY \<equiv> (1968 :: u16)"
abbreviation "MODBUS_RTU_WRITE_MULTIPLE_REGISTERS_MAX_QUANTITY \<equiv> (123 :: u16)"

text \<open>The array of an ADU has its declared size.\<close>

definition adu_wf :: "modbus_rtu_adu_t \<Rightarrow> bool" where
  "adu_wf a \<longleftrightarrow> length (adu_data a) = MODBUS_RTU_MAX_LENGTH"

section \<open>Field checks\<close>

definition slave_address_is_routable :: "u8 \<Rightarrow> bool" where
  "slave_address_is_routable a \<longleftrightarrow> a \<ge> 1 \<and> a \<le> 247"

definition is_legal_request_function :: "u8 \<Rightarrow> bool" where
  "is_legal_request_function f \<longleftrightarrow> f \<ge> 0x01 \<and> f \<le> 0x7F"

definition is_legal_exception_code :: "u8 \<Rightarrow> bool" where
  "is_legal_exception_code c \<longleftrightarrow>
     c = 0x01 \<or> c = 0x02 \<or> c = 0x03 \<or> c = 0x04 \<or> c = 0x05 \<or> c = 0x06 \<or> c = 0x08 \<or> c = 0x0A \<or> c = 0x0B"

definition is_legal_write_single_coil_value :: "u16 \<Rightarrow> bool" where
  "is_legal_write_single_coil_value v \<longleftrightarrow> v = 0x0000 \<or> v = 0xFF00"

text \<open>Bytes needed for that many bits: C computes \<open>(quantity + 7) / 8\<close> at \<open>int\<close> width and casts to \<open>uint16_t\<close>.\<close>

definition bit_byte_count :: "u16 \<Rightarrow> u16" where
  "bit_byte_count quantity = ucast ((ucast quantity + 7 :: u32) div 8)"

text \<open>\<open>data\<close> is the array from the first value byte on.\<close>

definition padding_bits_are_zero :: "u8 list \<Rightarrow> u16 \<Rightarrow> bool" where
  "padding_bits_are_zero data quantity =
     (let used_bits = quantity mod 8 in
      if used_bits = 0 then True
      else let last_byte_index = (quantity - 1) div 8;
               padding_mask = push_bit (unat used_bits) (0xFF :: u8)
           in data ! unat last_byte_index AND padding_mask = 0)"

definition has_valid_crc :: "modbus_rtu_adu_t \<Rightarrow> bool" where
  "has_valid_crc rtu =
     (let expected_crc = calculate_crc (adu_data rtu) (adu_length rtu - 2) in
      adu_data rtu ! (unat (adu_length rtu) - 2) = ucast expected_crc \<and>
      adu_data rtu ! (unat (adu_length rtu) - 1) = ucast (drop_bit 8 expected_crc))"

definition finalize_encoded_rtu :: "modbus_rtu_adu_t \<Rightarrow> modbus_rtu_adu_t" where
  "finalize_encoded_rtu rtu =
     (let crc = calculate_crc (adu_data rtu) (adu_length rtu - 2) in
      rtu\<lparr>adu_data := (adu_data rtu)
            [unat (adu_length rtu) - 2 := ucast crc,
             unat (adu_length rtu) - 1 := ucast (drop_bit 8 crc)]\<rparr>)"

definition prepare_encoded_rtu :: "modbus_rtu_adu_t \<Rightarrow> u8 \<Rightarrow> u8 \<Rightarrow> u16 \<Rightarrow> modbus_rtu_adu_t" where
  "prepare_encoded_rtu rtu slave_address function len =
     rtu\<lparr>adu_length := len, adu_data := (adu_data rtu)[0 := slave_address, 1 := function]\<rparr>"

definition validate_address_quantity :: "u16 \<Rightarrow> u16 \<Rightarrow> u16 \<Rightarrow> modbus_rtu_result_t" where
  "validate_address_quantity start_address quantity maximum_quantity =
     (if quantity < 1 \<or> quantity > maximum_quantity then MODBUS_RTU_QUANTITY_INVALID
      else let last_address = (ucast start_address :: u32) + ucast quantity - 1 in
        if last_address > 0xFFFF then MODBUS_RTU_ADDRESS_RANGE_INVALID
        else MODBUS_RTU_OK)"

section \<open>Request validation\<close>

definition validate_request_length :: "modbus_rtu_adu_t ptr \<Rightarrow> modbus_rtu_result_t" where
  "validate_request_length p =
     (case p of
        None \<Rightarrow> MODBUS_RTU_INVALID_ARGUMENT
      | Some rtu \<Rightarrow>
          let len = unat (adu_length rtu); f = adu_data rtu ! 1 in
          if len < MODBUS_RTU_MIN_LENGTH \<or> len > MODBUS_RTU_MAX_LENGTH then MODBUS_RTU_LENGTH_INVALID
          else if f = MODBUS_FC_READ_COILS \<or> f = MODBUS_FC_READ_DISCRETE_INPUTS \<or>
                  f = MODBUS_FC_READ_HOLDING_REGISTERS \<or> f = MODBUS_FC_READ_INPUT_REGISTERS then
            (if len \<noteq> 8 then MODBUS_RTU_LENGTH_INVALID else MODBUS_RTU_OK)
          else if f = MODBUS_FC_WRITE_SINGLE_COIL \<or> f = MODBUS_FC_WRITE_SINGLE_REGISTER then
            (if len \<noteq> 8 then MODBUS_RTU_LENGTH_INVALID else MODBUS_RTU_OK)
          else if f = MODBUS_FC_WRITE_MULTIPLE_COILS \<or> f = MODBUS_FC_WRITE_MULTIPLE_REGISTERS then
            (if len < 9 then MODBUS_RTU_LENGTH_INVALID
             else if len \<noteq> 9 + unat (adu_data rtu ! 6) then MODBUS_RTU_LENGTH_INVALID
             else MODBUS_RTU_OK)
          else MODBUS_RTU_FUNCTION_UNSUPPORTED)"

definition validate_address_quantity_request :: "modbus_rtu_adu_t \<Rightarrow> u16 \<Rightarrow> modbus_rtu_result_t" where
  "validate_address_quantity_request rtu maximum_quantity =
     validate_address_quantity (read_u16_be (adu_data rtu) 2) (read_u16_be (adu_data rtu) 4)
       maximum_quantity"

definition validate_write_single_coil_request :: "modbus_rtu_adu_t \<Rightarrow> modbus_rtu_result_t" where
  "validate_write_single_coil_request rtu =
     (if \<not> is_legal_write_single_coil_value (read_u16_be (adu_data rtu) 4)
      then MODBUS_RTU_VALUE_INVALID else MODBUS_RTU_OK)"

definition validate_write_multiple_coils_request :: "modbus_rtu_adu_t \<Rightarrow> modbus_rtu_result_t" where
  "validate_write_multiple_coils_request rtu =
     (let start_address = read_u16_be (adu_data rtu) 2;
          quantity = read_u16_be (adu_data rtu) 4;
          result = validate_address_quantity start_address quantity
                     MODBUS_RTU_WRITE_MULTIPLE_COILS_MAX_QUANTITY
      in if result \<noteq> MODBUS_RTU_OK then result
         else let expected_byte_count = bit_byte_count quantity in
           if adu_data rtu ! 6 \<noteq> ucast expected_byte_count then MODBUS_RTU_BYTE_COUNT_INVALID
           else if \<not> padding_bits_are_zero (drop 7 (adu_data rtu)) quantity
           then MODBUS_RTU_VALUE_INVALID
           else MODBUS_RTU_OK)"

definition validate_write_multiple_registers_request :: "modbus_rtu_adu_t \<Rightarrow> modbus_rtu_result_t" where
  "validate_write_multiple_registers_request rtu =
     (let start_address = read_u16_be (adu_data rtu) 2;
          quantity = read_u16_be (adu_data rtu) 4;
          result = validate_address_quantity start_address quantity
                     MODBUS_RTU_WRITE_MULTIPLE_REGISTERS_MAX_QUANTITY
      in if result \<noteq> MODBUS_RTU_OK then result
         else let expected_byte_count = quantity * 2 in
           if adu_data rtu ! 6 \<noteq> ucast expected_byte_count then MODBUS_RTU_BYTE_COUNT_INVALID
           else MODBUS_RTU_OK)"

definition modbus_rtu_validate_request :: "modbus_rtu_adu_t ptr \<Rightarrow> modbus_rtu_result_t" where
  "modbus_rtu_validate_request p =
     (let result = validate_request_length p in
      if result \<noteq> MODBUS_RTU_OK then result
      else let rtu = the p; function = adu_data rtu ! 1 in
        if \<not> has_valid_crc rtu then MODBUS_RTU_CRC_INVALID
        else if \<not> slave_address_is_routable (adu_data rtu ! 0) then MODBUS_RTU_SLAVE_ADDRESS_INVALID
        else if function = MODBUS_FC_READ_COILS then
          validate_address_quantity_request rtu MODBUS_READ_COILS_MAX_COILS
        else if function = MODBUS_FC_READ_DISCRETE_INPUTS then
          validate_address_quantity_request rtu MODBUS_READ_DISCRETE_INPUTS_MAX_DISCRETE_INPUTS
        else if function = MODBUS_FC_READ_HOLDING_REGISTERS then
          validate_address_quantity_request rtu MODBUS_READ_HOLDING_REGISTERS_MAX_REGISTERS
        else if function = MODBUS_FC_READ_INPUT_REGISTERS then
          validate_address_quantity_request rtu MODBUS_READ_INPUT_REGISTERS_MAX_REGISTERS
        else if function = MODBUS_FC_WRITE_SINGLE_COIL then validate_write_single_coil_request rtu
        else if function = MODBUS_FC_WRITE_SINGLE_REGISTER then MODBUS_RTU_OK
        else if function = MODBUS_FC_WRITE_MULTIPLE_COILS then
          validate_write_multiple_coils_request rtu
        else if function = MODBUS_FC_WRITE_MULTIPLE_REGISTERS then
          validate_write_multiple_registers_request rtu
        else MODBUS_RTU_FUNCTION_UNSUPPORTED)"

section \<open>Encoders and decoders\<close>

definition encode_address_quantity_request ::
  "modbus_rtu_adu_t ptr \<Rightarrow> u8 \<Rightarrow> u8 \<Rightarrow> u16 \<Rightarrow> u16 \<Rightarrow> u16 \<Rightarrow> modbus_rtu_result_t \<times> modbus_rtu_adu_t ptr" where
  "encode_address_quantity_request p slave_address function maximum_quantity start_address quantity =
     (case p of
        None \<Rightarrow> (MODBUS_RTU_INVALID_ARGUMENT, None)
      | Some rtu \<Rightarrow>
          if \<not> slave_address_is_routable slave_address then (MODBUS_RTU_SLAVE_ADDRESS_INVALID, Some rtu)
          else let result = validate_address_quantity start_address quantity maximum_quantity in
            if result \<noteq> MODBUS_RTU_OK then (result, Some rtu)
            else let r1 = prepare_encoded_rtu rtu slave_address function 8;
                     r2 = r1\<lparr>adu_data := write_u16_be (adu_data r1) 2 start_address\<rparr>;
                     r3 = r2\<lparr>adu_data := write_u16_be (adu_data r2) 4 quantity\<rparr>
                 in (MODBUS_RTU_OK, Some (finalize_encoded_rtu r3)))"

definition decode_bit_response ::
  "modbus_rtu_adu_t ptr \<Rightarrow> u8 \<Rightarrow> u16 \<Rightarrow> u8 ptr \<Rightarrow> u16 \<Rightarrow> bool list ptr \<Rightarrow>
   modbus_rtu_result_t \<times> u8 ptr \<times> bool list ptr" where
  "decode_bit_response response function maximum_quantity slave_address expected_quantity values =
     (case (response, slave_address, values) of
        (Some r, Some _, Some vs) \<Rightarrow>
          let d = adu_data r; len = unat (adu_length r);
              err = (\<lambda>e. (e, slave_address, values))
          in if expected_quantity < 1 \<or> expected_quantity > maximum_quantity
             then err MODBUS_RTU_QUANTITY_INVALID
             else if len < 5 \<or> len > MODBUS_RTU_MAX_LENGTH then err MODBUS_RTU_LENGTH_INVALID
             else if len \<noteq> unat (d ! 2) + 5 then err MODBUS_RTU_LENGTH_INVALID
             else if \<not> has_valid_crc r then err MODBUS_RTU_CRC_INVALID
             else if d ! 1 \<noteq> function then err MODBUS_RTU_FUNCTION_MISMATCH
             else if \<not> slave_address_is_routable (d ! 0) then err MODBUS_RTU_SLAVE_ADDRESS_INVALID
             else if ucast (d ! 2) \<noteq> bit_byte_count expected_quantity then err MODBUS_RTU_BYTE_COUNT_INVALID
             else if \<not> padding_bits_are_zero (drop 3 d) expected_quantity then err MODBUS_RTU_VALUE_INVALID
             else (MODBUS_RTU_OK, Some (d ! 0),
                   Some (overwrite 0 (map (\<lambda>i. drop_bit (i mod 8) (d ! (3 + i div 8)) AND 1 \<noteq> 0)
                                        [0..<unat expected_quantity]) vs))
      | _ \<Rightarrow> (MODBUS_RTU_INVALID_ARGUMENT, slave_address, values))"

definition decode_register_response ::
  "modbus_rtu_adu_t ptr \<Rightarrow> u8 \<Rightarrow> u16 \<Rightarrow> u8 ptr \<Rightarrow> u16 \<Rightarrow> u16 list ptr \<Rightarrow>
   modbus_rtu_result_t \<times> u8 ptr \<times> u16 list ptr" where
  "decode_register_response response function maximum_quantity slave_address expected_quantity register_values =
     (case (response, slave_address, register_values) of
        (Some r, Some _, Some vs) \<Rightarrow>
          let d = adu_data r; len = unat (adu_length r);
              err = (\<lambda>e. (e, slave_address, register_values))
          in if expected_quantity < 1 \<or> expected_quantity > maximum_quantity
             then err MODBUS_RTU_QUANTITY_INVALID
             else if len < 5 \<or> len > MODBUS_RTU_MAX_LENGTH then err MODBUS_RTU_LENGTH_INVALID
             else if len \<noteq> unat (d ! 2) + 5 then err MODBUS_RTU_LENGTH_INVALID
             else if \<not> has_valid_crc r then err MODBUS_RTU_CRC_INVALID
             else if \<not> slave_address_is_routable (d ! 0) then err MODBUS_RTU_SLAVE_ADDRESS_INVALID
             else if d ! 1 \<noteq> function then err MODBUS_RTU_FUNCTION_MISMATCH
             else let byte_count = (ucast (d ! 2) :: u16) in
               if byte_count AND 1 \<noteq> 0 then err MODBUS_RTU_BYTE_COUNT_INVALID
               else let decoded_quantity = byte_count div 2 in
                 if expected_quantity \<noteq> decoded_quantity then err MODBUS_RTU_BYTE_COUNT_INVALID
                 else (MODBUS_RTU_OK, Some (d ! 0),
                       Some (overwrite 0 (map (\<lambda>i. read_u16_be d (3 + i * 2)) [0..<unat decoded_quantity]) vs))
      | _ \<Rightarrow> (MODBUS_RTU_INVALID_ARGUMENT, slave_address, register_values))"

definition modbus_rtu_read_coils_encode_request ::
  "modbus_rtu_adu_t ptr \<Rightarrow> u8 \<Rightarrow> u16 \<Rightarrow> u16 \<Rightarrow> modbus_rtu_result_t \<times> modbus_rtu_adu_t ptr" where
  "modbus_rtu_read_coils_encode_request rtu slave_address start_address quantity =
     encode_address_quantity_request rtu slave_address MODBUS_FC_READ_COILS
       MODBUS_READ_COILS_MAX_COILS start_address quantity"

definition modbus_rtu_read_coils_decode_response ::
  "modbus_rtu_adu_t ptr \<Rightarrow> u8 ptr \<Rightarrow> u16 \<Rightarrow> bool list ptr \<Rightarrow> modbus_rtu_result_t \<times> u8 ptr \<times> bool list ptr" where
  "modbus_rtu_read_coils_decode_response response slave_address expected_quantity coil_values =
     decode_bit_response response MODBUS_FC_READ_COILS MODBUS_READ_COILS_MAX_COILS
       slave_address expected_quantity coil_values"

definition modbus_rtu_read_discrete_inputs_encode_request ::
  "modbus_rtu_adu_t ptr \<Rightarrow> u8 \<Rightarrow> u16 \<Rightarrow> u16 \<Rightarrow> modbus_rtu_result_t \<times> modbus_rtu_adu_t ptr" where
  "modbus_rtu_read_discrete_inputs_encode_request rtu slave_address start_address quantity =
     encode_address_quantity_request rtu slave_address MODBUS_FC_READ_DISCRETE_INPUTS
       MODBUS_READ_DISCRETE_INPUTS_MAX_DISCRETE_INPUTS start_address quantity"

definition modbus_rtu_read_discrete_inputs_decode_response ::
  "modbus_rtu_adu_t ptr \<Rightarrow> u8 ptr \<Rightarrow> u16 \<Rightarrow> bool list ptr \<Rightarrow> modbus_rtu_result_t \<times> u8 ptr \<times> bool list ptr" where
  "modbus_rtu_read_discrete_inputs_decode_response response slave_address expected_quantity input_values =
     decode_bit_response response MODBUS_FC_READ_DISCRETE_INPUTS
       MODBUS_READ_DISCRETE_INPUTS_MAX_DISCRETE_INPUTS slave_address expected_quantity input_values"

definition modbus_rtu_read_holding_registers_encode_request ::
  "modbus_rtu_adu_t ptr \<Rightarrow> u8 \<Rightarrow> u16 \<Rightarrow> u16 \<Rightarrow> modbus_rtu_result_t \<times> modbus_rtu_adu_t ptr" where
  "modbus_rtu_read_holding_registers_encode_request rtu slave_address start_address quantity =
     encode_address_quantity_request rtu slave_address MODBUS_FC_READ_HOLDING_REGISTERS
       MODBUS_READ_HOLDING_REGISTERS_MAX_REGISTERS start_address quantity"

definition modbus_rtu_read_holding_registers_decode_response ::
  "modbus_rtu_adu_t ptr \<Rightarrow> u8 ptr \<Rightarrow> u16 \<Rightarrow> u16 list ptr \<Rightarrow> modbus_rtu_result_t \<times> u8 ptr \<times> u16 list ptr" where
  "modbus_rtu_read_holding_registers_decode_response response slave_address expected_quantity register_values =
     decode_register_response response MODBUS_FC_READ_HOLDING_REGISTERS
       MODBUS_READ_HOLDING_REGISTERS_MAX_REGISTERS slave_address expected_quantity register_values"

definition modbus_rtu_read_input_registers_encode_request ::
  "modbus_rtu_adu_t ptr \<Rightarrow> u8 \<Rightarrow> u16 \<Rightarrow> u16 \<Rightarrow> modbus_rtu_result_t \<times> modbus_rtu_adu_t ptr" where
  "modbus_rtu_read_input_registers_encode_request rtu slave_address start_address quantity =
     encode_address_quantity_request rtu slave_address MODBUS_FC_READ_INPUT_REGISTERS
       MODBUS_READ_INPUT_REGISTERS_MAX_REGISTERS start_address quantity"

definition modbus_rtu_read_input_registers_decode_response ::
  "modbus_rtu_adu_t ptr \<Rightarrow> u8 ptr \<Rightarrow> u16 \<Rightarrow> u16 list ptr \<Rightarrow> modbus_rtu_result_t \<times> u8 ptr \<times> u16 list ptr" where
  "modbus_rtu_read_input_registers_decode_response response slave_address expected_quantity register_values =
     decode_register_response response MODBUS_FC_READ_INPUT_REGISTERS
       MODBUS_READ_INPUT_REGISTERS_MAX_REGISTERS slave_address expected_quantity register_values"

definition modbus_rtu_encode_exception_response ::
  "modbus_rtu_adu_t ptr \<Rightarrow> u8 \<Rightarrow> u8 \<Rightarrow> u8 \<Rightarrow> modbus_rtu_result_t \<times> modbus_rtu_adu_t ptr" where
  "modbus_rtu_encode_exception_response p slave_address request_function exception_code =
     (case p of
        None \<Rightarrow> (MODBUS_RTU_INVALID_ARGUMENT, None)
      | Some rtu \<Rightarrow>
          if \<not> slave_address_is_routable slave_address then (MODBUS_RTU_SLAVE_ADDRESS_INVALID, Some rtu)
          else if \<not> is_legal_request_function request_function then (MODBUS_RTU_FUNCTION_UNSUPPORTED, Some rtu)
          else if \<not> is_legal_exception_code exception_code then (MODBUS_RTU_VALUE_INVALID, Some rtu)
          else let r1 = prepare_encoded_rtu rtu slave_address (request_function OR 0x80) 5;
                   r2 = r1\<lparr>adu_data := (adu_data r1)[2 := exception_code]\<rparr>
               in (MODBUS_RTU_OK, Some (finalize_encoded_rtu r2)))"

definition modbus_rtu_decode_exception_response ::
  "modbus_rtu_adu_t ptr \<Rightarrow> u8 ptr \<Rightarrow> u8 ptr \<Rightarrow> u8 ptr \<Rightarrow> modbus_rtu_result_t \<times> u8 ptr \<times> u8 ptr \<times> u8 ptr" where
  "modbus_rtu_decode_exception_response response slave_address request_function exception_code =
     (let err = (\<lambda>e. (e, slave_address, request_function, exception_code)) in
      case (response, slave_address, request_function, exception_code) of
        (Some r, Some _, Some _, Some _) \<Rightarrow>
          let d = adu_data r; decoded_function = d ! 1 AND 0x7F; decoded_exception_code = d ! 2 in
          if adu_length r \<noteq> 5 then err MODBUS_RTU_LENGTH_INVALID
          else if \<not> has_valid_crc r then err MODBUS_RTU_CRC_INVALID
          else if \<not> slave_address_is_routable (d ! 0) then err MODBUS_RTU_SLAVE_ADDRESS_INVALID
          else if d ! 1 \<le> 0x80 then err MODBUS_RTU_FUNCTION_DOMAIN_INVALID
          else if \<not> is_legal_request_function decoded_function then err MODBUS_RTU_FUNCTION_DOMAIN_INVALID
          else if \<not> is_legal_exception_code decoded_exception_code then err MODBUS_RTU_VALUE_INVALID
          else (MODBUS_RTU_OK, Some (d ! 0), Some decoded_function, Some decoded_exception_code)
      | _ \<Rightarrow> err MODBUS_RTU_INVALID_ARGUMENT)"

section \<open>One transaction\<close>

definition modbus_rtu_channel_init ::
  "'ctx modbus_rtu_channel_t ptr \<Rightarrow> 'ctx \<Rightarrow> modbus_rtu_channel_result_t \<times> 'ctx modbus_rtu_channel_t ptr" where
  "modbus_rtu_channel_init channel ctx =
     (case channel of
        None \<Rightarrow> (MODBUS_RTU_CHANNEL_INVALID_ARGUMENT, None)
      | Some ch \<Rightarrow> (MODBUS_RTU_CHANNEL_OK, Some (ch\<lparr>ch_context := ctx\<rparr>)))"

text \<open>
  The three checks \<open>modbus_rtu_transact\<close> makes on a received response, in the order of the
  source: its length against its own function code, then (after CRC, slave address and function
  code) its data against the request.
\<close>

definition response_length_check :: "modbus_rtu_adu_t \<Rightarrow> modbus_rtu_transaction_result_t option" where
  "response_length_check response =
     (let d = adu_data response; len = unat (adu_length response); f = d ! 1 in
      if f = MODBUS_FC_READ_COILS \<or> f = MODBUS_FC_READ_DISCRETE_INPUTS \<or>
         f = MODBUS_FC_READ_HOLDING_REGISTERS \<or> f = MODBUS_FC_READ_INPUT_REGISTERS then
        (if len \<noteq> 5 + unat (d ! 2) then Some MODBUS_RTU_TRANSACTION_RESPONSE_LENGTH_INVALID else None)
      else if f = MODBUS_FC_WRITE_SINGLE_COIL \<or> f = MODBUS_FC_WRITE_SINGLE_REGISTER \<or>
              f = MODBUS_FC_WRITE_MULTIPLE_COILS \<or> f = MODBUS_FC_WRITE_MULTIPLE_REGISTERS then
        (if len \<noteq> 8 then Some MODBUS_RTU_TRANSACTION_RESPONSE_LENGTH_INVALID else None)
      else if f AND 0x80 \<noteq> 0 \<and> f \<noteq> 0x80 then
        (if len \<noteq> 5 then Some MODBUS_RTU_TRANSACTION_RESPONSE_LENGTH_INVALID else None)
      else Some MODBUS_RTU_TRANSACTION_RESPONSE_FUNCTION_INVALID)"

definition response_data_check ::
  "modbus_rtu_adu_t \<Rightarrow> modbus_rtu_adu_t \<Rightarrow> modbus_rtu_transaction_result_t" where
  "response_data_check request response =
     (let q = adu_data request; d = adu_data response; f = q ! 1 in
      if f = MODBUS_FC_READ_COILS \<or> f = MODBUS_FC_READ_DISCRETE_INPUTS then
        (let request_quantity = read_u16_be q 4; expected_byte_count = bit_byte_count request_quantity in
         if d ! 2 \<noteq> ucast expected_byte_count then MODBUS_RTU_TRANSACTION_RESPONSE_DATA_MISMATCH
         else if \<not> padding_bits_are_zero (drop 3 d) request_quantity
         then MODBUS_RTU_TRANSACTION_RESPONSE_DATA_INVALID
         else MODBUS_RTU_TRANSACTION_OK)
      else if f = MODBUS_FC_READ_HOLDING_REGISTERS \<or> f = MODBUS_FC_READ_INPUT_REGISTERS then
        (let request_quantity = read_u16_be q 4; declared_byte_count = (ucast (d ! 2) :: u16) in
         if declared_byte_count mod 2 \<noteq> 0 then MODBUS_RTU_TRANSACTION_RESPONSE_DATA_INVALID
         else if request_quantity \<noteq> declared_byte_count div 2
         then MODBUS_RTU_TRANSACTION_RESPONSE_DATA_MISMATCH
         else MODBUS_RTU_TRANSACTION_OK)
      else if f = MODBUS_FC_WRITE_SINGLE_COIL \<or> f = MODBUS_FC_WRITE_SINGLE_REGISTER \<or>
              f = MODBUS_FC_WRITE_MULTIPLE_COILS \<or> f = MODBUS_FC_WRITE_MULTIPLE_REGISTERS then
        (if read_u16_be q 4 \<noteq> read_u16_be d 4 \<or> read_u16_be q 2 \<noteq> read_u16_be d 2
         then MODBUS_RTU_TRANSACTION_RESPONSE_DATA_MISMATCH
         else MODBUS_RTU_TRANSACTION_OK)
      else MODBUS_RTU_TRANSACTION_OK)"

definition response_check ::
  "modbus_rtu_adu_t \<Rightarrow> modbus_rtu_adu_t \<Rightarrow> modbus_rtu_transaction_result_t" where
  "response_check request response =
     (let request_function = adu_data request ! 1; response_function = adu_data response ! 1 in
      if unat (adu_length response) < MODBUS_RTU_MIN_LENGTH
      then MODBUS_RTU_TRANSACTION_RESPONSE_LENGTH_INVALID
      else case response_length_check response of
        Some e \<Rightarrow> e
      | None \<Rightarrow>
          if \<not> has_valid_crc response then MODBUS_RTU_TRANSACTION_RESPONSE_CRC_INVALID
          else if adu_data response ! 0 \<noteq> adu_data request ! 0
          then MODBUS_RTU_TRANSACTION_RESPONSE_SLAVE_ADDRESS_MISMATCH
          else if response_function \<noteq> request_function \<and> response_function \<noteq> request_function OR 0x80
          then MODBUS_RTU_TRANSACTION_RESPONSE_FUNCTION_MISMATCH
          else if response_function = request_function OR 0x80
          then (if \<not> is_legal_exception_code (adu_data response ! 2)
                then MODBUS_RTU_TRANSACTION_RESPONSE_DATA_INVALID
                else MODBUS_RTU_TRANSACTION_EXCEPTION_RESPONSE)
          else response_data_check request response)"

definition modbus_rtu_transact ::
  "'ctx rs485_transceive \<Rightarrow> 'ctx modbus_rtu_channel_t ptr \<Rightarrow> modbus_rtu_adu_t ptr \<Rightarrow> u32 \<Rightarrow>
   modbus_rtu_adu_t ptr \<Rightarrow> modbus_rtu_transaction_result_t \<times> modbus_rtu_adu_t ptr" where
  "modbus_rtu_transact transceive channel request response_timeout_ms response =
     (case (channel, request, response) of
        (Some ch, Some req, Some resp) \<Rightarrow>
          if response_timeout_ms = 0 then (MODBUS_RTU_TRANSACTION_INVALID_ARGUMENT, response)
          else (case transceive (ch_context ch) (adu_data req) (adu_length req) (adu_data resp)
                       response_timeout_ms of
                  (MODBUS_RTU_RS485_PORT_RESULT_UART_ERROR, buf, _) \<Rightarrow>
                    (MODBUS_RTU_TRANSACTION_ADAPTER_IO_ERROR, Some (resp\<lparr>adu_data := buf\<rparr>))
                | (MODBUS_RTU_RS485_PORT_RESULT_SLAVE_TIMEOUT, buf, _) \<Rightarrow>
                    (MODBUS_RTU_TRANSACTION_RESPONSE_TIMEOUT, Some (resp\<lparr>adu_data := buf\<rparr>))
                | (MODBUS_RTU_RS485_PORT_RESULT_OK, buf, recv_len) \<Rightarrow>
                    let resp' = resp\<lparr>adu_length := recv_len, adu_data := buf\<rparr>
                    in (response_check req resp', Some resp'))
      | _ \<Rightarrow> (MODBUS_RTU_TRANSACTION_INVALID_ARGUMENT, response))"

section \<open>Checksums of ADUs\<close>

lemma unat_length_minus_2: "2 \<le> unat (n :: u16) \<Longrightarrow> unat (n - 2) = unat n - 2"
  by (simp add: unat_sub word_le_nat_alt)

text \<open>The bytes an ADU really carries on the wire, and those its checksum covers.\<close>

definition adu_body :: "modbus_rtu_adu_t \<Rightarrow> u8 list" where
  "adu_body a = take (unat (adu_length a) - 2) (adu_data a)"

lemma has_valid_crc_iff:
  assumes "2 \<le> unat (adu_length a)"
  shows "has_valid_crc a \<longleftrightarrow>
     adu_data a ! (unat (adu_length a) - 2) = byte_at 0 (crc16_of (adu_body a)) \<and>
     adu_data a ! (unat (adu_length a) - 1) = byte_at 1 (crc16_of (adu_body a))"
  using assms
  by (simp add: has_valid_crc_def Let_def calculate_crc_take unat_length_minus_2 adu_body_def byte_at_def)

lemma finalize_length [simp]: "adu_length (finalize_encoded_rtu a) = adu_length a"
  by (simp add: finalize_encoded_rtu_def Let_def)

lemma finalize_data_length [simp]: "length (adu_data (finalize_encoded_rtu a)) = length (adu_data a)"
  by (simp add: finalize_encoded_rtu_def Let_def)

lemma finalize_nth [simp]:
  "k < unat (adu_length a) - 2 \<Longrightarrow> adu_data (finalize_encoded_rtu a) ! k = adu_data a ! k"
  by (simp add: finalize_encoded_rtu_def Let_def)

lemma finalize_body [simp]: "adu_body (finalize_encoded_rtu a) = adu_body a"
  by (simp add: adu_body_def finalize_encoded_rtu_def Let_def)

lemma finalize_has_valid_crc:
  assumes "2 \<le> unat (adu_length a)" "unat (adu_length a) \<le> length (adu_data a)"
  shows "has_valid_crc (finalize_encoded_rtu a)"
proof -
  have "adu_data (finalize_encoded_rtu a) ! (unat (adu_length a) - 2) = byte_at 0 (crc16_of (adu_body a))"
    "adu_data (finalize_encoded_rtu a) ! (unat (adu_length a) - 1) = byte_at 1 (crc16_of (adu_body a))"
    using assms
    by (simp_all add: finalize_encoded_rtu_def Let_def calculate_crc_take unat_length_minus_2
          adu_body_def byte_at_def)
  then show ?thesis using assms(1) by (simp add: has_valid_crc_iff)
qed

lemma validate_address_quantity_OK_iff:
  "validate_address_quantity st q mx = MODBUS_RTU_OK \<longleftrightarrow>
     1 \<le> unat q \<and> unat q \<le> unat mx \<and> unat st + unat q \<le> 65536"
proof (cases "1 \<le> unat q")
  case True
  have "unat ((ucast st :: u32) + ucast q) = unat st + unat q"
    by (rule unat_add_ucast_u16)
  moreover from this True have "unat ((ucast st :: u32) + ucast q - 1) = unat st + unat q - 1"
    by (simp add: unat_sub word_le_nat_alt)
  ultimately have "(ucast st :: u32) + ucast q - 1 > 0xFFFF \<longleftrightarrow> 65536 < unat st + unat q"
    by (simp add: word_less_nat_alt) linarith
  then show ?thesis
    using True by (auto simp: validate_address_quantity_def Let_def word_less_nat_alt)
qed (simp add: validate_address_quantity_def word_less_nat_alt)

lemma slave_address_is_routable_iff: "slave_address_is_routable a \<longleftrightarrow> 1 \<le> unat a \<and> unat a \<le> 247"
  by (simp add: slave_address_is_routable_def word_le_nat_alt)

section \<open>Read requests\<close>

text \<open>The layout of an address/quantity request on the wire.\<close>

definition is_read_request :: "u8 \<Rightarrow> u8 \<Rightarrow> u16 \<Rightarrow> u16 \<Rightarrow> modbus_rtu_adu_t \<Rightarrow> bool" where
  "is_read_request s f st q a \<longleftrightarrow>
     adu_wf a \<and> adu_length a = 8 \<and> adu_data a ! 0 = s \<and> adu_data a ! 1 = f \<and>
     read_u16_be (adu_data a) 2 = st \<and> read_u16_be (adu_data a) 4 = q \<and> has_valid_crc a"

lemma encode_address_quantity_request_spec:
  assumes "adu_wf rtu"
  shows "\<exists>a. encode_address_quantity_request (Some rtu) s f mx st q =
    (if \<not> slave_address_is_routable s then (MODBUS_RTU_SLAVE_ADDRESS_INVALID, Some rtu)
     else if validate_address_quantity st q mx \<noteq> MODBUS_RTU_OK
     then (validate_address_quantity st q mx, Some rtu)
     else (MODBUS_RTU_OK, Some a)) \<and> is_read_request s f st q a"
proof -
  let ?d = "write_u16_be (write_u16_be ((adu_data rtu)[0 := s, 1 := f]) 2 st) 4 q"
  let ?a = "finalize_encoded_rtu (rtu\<lparr>adu_length := 8, adu_data := ?d\<rparr>)"
  have len: "length (adu_data rtu) = 256" using assms by (simp add: adu_wf_def)
  have "has_valid_crc ?a" by (rule finalize_has_valid_crc) (simp_all add: len)
  moreover have "adu_data ?a ! k = ?d ! k" if "k < 6" for k
    using that by simp
  ultimately have "is_read_request s f st q ?a"
    using len by (simp add: is_read_request_def adu_wf_def read_u16_be_join nth_write_u16_be byte_simps [simplified])
  then show ?thesis
    by (intro exI [of _ ?a]) (simp add: encode_address_quantity_request_def prepare_encoded_rtu_def Let_def)
qed

lemma read_request_validates:
  assumes "is_read_request s f st q a" "slave_address_is_routable s"
    "(f, mx) \<in> {(MODBUS_FC_READ_COILS, 2000), (MODBUS_FC_READ_DISCRETE_INPUTS, 2000),
                (MODBUS_FC_READ_HOLDING_REGISTERS, 125), (MODBUS_FC_READ_INPUT_REGISTERS, 125)}"
  shows "modbus_rtu_validate_request (Some a) = validate_address_quantity st q mx"
  using assms
  by (auto simp: is_read_request_def modbus_rtu_validate_request_def validate_request_length_def
      validate_address_quantity_request_def Let_def)

lemma encode_read_request_correct:
  assumes wf: "adu_wf rtu"
    and enc: "encode_address_quantity_request (Some rtu) s f mx st q = (r, p)"
    and fmx: "(f, mx) \<in> {(MODBUS_FC_READ_COILS, 2000), (MODBUS_FC_READ_DISCRETE_INPUTS, 2000),
                (MODBUS_FC_READ_HOLDING_REGISTERS, 125), (MODBUS_FC_READ_INPUT_REGISTERS, 125)}"
  shows "(r = MODBUS_RTU_OK \<longleftrightarrow> 1 \<le> unat s \<and> unat s \<le> 247 \<and> 1 \<le> unat q \<and> unat q \<le> unat mx \<and>
            unat st + unat q \<le> 65536) \<and>
         (if r = MODBUS_RTU_OK
          then modbus_rtu_validate_request p = MODBUS_RTU_OK \<and> (\<exists>a. p = Some a \<and> is_read_request s f st q a)
          else p = Some rtu)"
proof -
  obtain a where a: "is_read_request s f st q a"
    and e: "encode_address_quantity_request (Some rtu) s f mx st q =
      (if \<not> slave_address_is_routable s then (MODBUS_RTU_SLAVE_ADDRESS_INVALID, Some rtu)
       else if validate_address_quantity st q mx \<noteq> MODBUS_RTU_OK
       then (validate_address_quantity st q mx, Some rtu) else (MODBUS_RTU_OK, Some a))"
    using encode_address_quantity_request_spec [OF wf] by blast
  have v: "modbus_rtu_validate_request (Some a) = validate_address_quantity st q mx"
    if "slave_address_is_routable s"
    using read_request_validates [OF a that fmx] .
  show ?thesis
    using enc e a v
    by (auto simp: slave_address_is_routable_iff validate_address_quantity_OK_iff split: if_splits)
qed

text \<open>
  The four public read-request encoders are correct on a well-formed buffer: each succeeds
  exactly when the slave address is 1..247, the quantity within the limit of its function and the
  last address within 16 bits; the frame it writes then has the layout of the Modbus specification
  with a valid CRC and passes \<open>modbus_rtu_validate_request\<close>; on any error the buffer is untouched.
\<close>

theorem read_request_encoders_correct:
  fixes rtu :: modbus_rtu_adu_t and s :: u8 and st q :: u16
  assumes "adu_wf rtu"
    and "enc \<in> {(modbus_rtu_read_coils_encode_request, MODBUS_FC_READ_COILS, 2000),
                (modbus_rtu_read_discrete_inputs_encode_request, MODBUS_FC_READ_DISCRETE_INPUTS, 2000),
                (modbus_rtu_read_holding_registers_encode_request, MODBUS_FC_READ_HOLDING_REGISTERS, 125),
                (modbus_rtu_read_input_registers_encode_request, MODBUS_FC_READ_INPUT_REGISTERS, 125)}"
    and "fst enc (Some rtu) s st q = (r, p)"
  shows "(r = MODBUS_RTU_OK \<longleftrightarrow> 1 \<le> unat s \<and> unat s \<le> 247 \<and> 1 \<le> unat q \<and>
            unat q \<le> unat (snd (snd enc) :: u16) \<and> unat st + unat q \<le> 65536) \<and>
         (if r = MODBUS_RTU_OK
          then modbus_rtu_validate_request p = MODBUS_RTU_OK \<and>
               (\<exists>a. p = Some a \<and> is_read_request s (fst (snd enc)) st q a)
          else p = Some rtu)"
  using assms(2,3)
  by (auto simp: modbus_rtu_read_coils_encode_request_def modbus_rtu_read_discrete_inputs_encode_request_def
        modbus_rtu_read_holding_registers_encode_request_def modbus_rtu_read_input_registers_encode_request_def
      dest!: encode_read_request_correct [OF assms(1)])

theorem read_request_encoders_correct_witness:
  "modbus_rtu_validate_request
     (snd (modbus_rtu_read_coils_encode_request (Some \<lparr>adu_length = 0, adu_data = replicate 256 0\<rparr>) 1 0 8))
   = MODBUS_RTU_OK"
proof -
  let ?rtu = "\<lparr>adu_length = 0, adu_data = replicate 256 0\<rparr>"
  obtain r p where e: "modbus_rtu_read_coils_encode_request (Some ?rtu) 1 0 8 = (r, p)"
    by fastforce
  have "adu_wf ?rtu" by (simp add: adu_wf_def)
  from read_request_encoders_correct [OF this, of
      "(modbus_rtu_read_coils_encode_request, MODBUS_FC_READ_COILS, 2000)" 1 0 8 r p] e
  show ?thesis by (simp split: if_splits)
qed

section \<open>Corruption of a frame\<close>

text \<open>
  C24. A frame with a valid CRC in which any single byte, of the body or of the CRC itself, is
  replaced by another value never has a valid CRC.
\<close>

theorem single_byte_corruption_detected:
  assumes len: "2 \<le> unat (adu_length a)" "unat (adu_length a) \<le> length (adu_data a)"
    and valid: "has_valid_crc a"
    and i: "i < unat (adu_length a)" and b: "b \<noteq> adu_data a ! i"
  shows "\<not> has_valid_crc (a\<lparr>adu_data := (adu_data a)[i := b]\<rparr>)"
proof
  let ?n = "unat (adu_length a)"
  let ?a' = "a\<lparr>adu_data := (adu_data a)[i := b]\<rparr>"
  assume valid': "has_valid_crc ?a'"
  have len': "2 \<le> unat (adu_length ?a')" using len by simp
  show False
  proof (cases "i < ?n - 2")
    case True
    then have "byte_at 0 (crc16_of (adu_body ?a')) = byte_at 0 (crc16_of (adu_body a))"
      "byte_at 1 (crc16_of (adu_body ?a')) = byte_at 1 (crc16_of (adu_body a))"
      using has_valid_crc_iff [OF len(1)] has_valid_crc_iff [OF len'] valid valid' by simp_all
    then have "crc16_of (adu_body ?a') = crc16_of (adu_body a)"
      by (metis join16_byte_at)
    moreover have "adu_body ?a' = (adu_body a)[i := b]"
      using True by (simp add: adu_body_def take_update_swap)
    moreover have "i < length (adu_body a)" using True len by (simp add: adu_body_def)
    ultimately have "b = adu_body a ! i" by (metis crc16.update_detected)
    then show False using b True by (simp add: adu_body_def)
  next
    case False
    then have "adu_body ?a' = adu_body a" by (simp add: adu_body_def)
    moreover have "i = ?n - 2 \<or> i = ?n - 1" using False i by linarith
    ultimately show False
      using has_valid_crc_iff [OF len(1)] has_valid_crc_iff [OF len'] valid valid' b i len by auto
  qed
qed

theorem single_byte_corruption_detected_witness:
  "\<not> has_valid_crc \<lparr>adu_length = 8, adu_data = [1, 3, 0, 0, 0, 2, 0xC4, 0x0B] [3 := 1]\<rparr>"
proof -
  let ?a = "\<lparr>adu_length = 8, adu_data = [1, 3, 0, 0, 0, 2, 0xC4, 0x0B]\<rparr>"
  have "has_valid_crc ?a" by code_simp
  from single_byte_corruption_detected [OF _ _ this, of 3 1] show ?thesis by simp
qed

section \<open>Exception responses\<close>

lemma exception_function_roundtrip:
  assumes "is_legal_request_function f"
  shows "(f OR 0x80) AND 0x7F = f" "f OR 0x80 > 0x80" "f OR 0x80 \<noteq> f"
proof -
  have f: "unat f \<le> 127" "f \<noteq> 0"
    using assms by (auto simp: is_legal_request_function_def word_le_nat_alt)
  then have "\<not> bit f 7"
    by (simp add: bit_iff_odd_drop_bit drop_bit_eq_div word_arith_nat_div)
  then show e: "(f OR 0x80) AND 0x7F = f"
    by (intro bit_word_eqI) (auto simp: bit_simps less_Suc_eq numeral_eq_Suc)
  have "0x80 \<le> f OR 0x80" by (rule le_word_or1)
  moreover have "f OR 0x80 \<noteq> 0x80" using e f(2) by auto
  ultimately show "f OR 0x80 > 0x80" by simp
  then show "f OR 0x80 \<noteq> f" using f(1) by (auto simp: word_less_nat_alt)
qed

lemma encode_exception_response_spec:
  assumes "adu_wf rtu" "slave_address_is_routable s" "is_legal_request_function f" "is_legal_exception_code c"
  shows "\<exists>a. modbus_rtu_encode_exception_response (Some rtu) s f c = (MODBUS_RTU_OK, Some a) \<and>
     adu_wf a \<and> adu_length a = 5 \<and> adu_data a ! 0 = s \<and> adu_data a ! 1 = f OR 0x80 \<and>
     adu_data a ! 2 = c \<and> has_valid_crc a"
proof -
  let ?r = "rtu\<lparr>adu_length := 5, adu_data := (adu_data rtu)[0 := s, 1 := f OR 0x80, 2 := c]\<rparr>"
  have len: "length (adu_data rtu) = 256" using assms by (simp add: adu_wf_def)
  have "has_valid_crc (finalize_encoded_rtu ?r)"
    by (rule finalize_has_valid_crc) (simp_all add: len)
  then show ?thesis
    using assms len
    by (intro exI [of _ "finalize_encoded_rtu ?r"])
       (simp add: modbus_rtu_encode_exception_response_def prepare_encoded_rtu_def Let_def adu_wf_def)
qed

text \<open>
  Exception responses round-trip: whatever the buffer held before, decoding the frame the
  encoder wrote for a routable slave, a request function and a legal exception code returns
  exactly these three values.
\<close>

theorem exception_response_roundtrip:
  assumes "adu_wf rtu" "slave_address_is_routable s" "is_legal_request_function f" "is_legal_exception_code c"
  shows "\<exists>a. modbus_rtu_encode_exception_response (Some rtu) s f c = (MODBUS_RTU_OK, Some a) \<and>
     modbus_rtu_decode_exception_response (Some a) (Some x) (Some y) (Some z) =
       (MODBUS_RTU_OK, Some s, Some f, Some c)"
proof -
  obtain a where a: "modbus_rtu_encode_exception_response (Some rtu) s f c = (MODBUS_RTU_OK, Some a)"
    "adu_length a = 5" "adu_data a ! 0 = s" "adu_data a ! 1 = f OR 0x80" "adu_data a ! 2 = c" "has_valid_crc a"
    using encode_exception_response_spec [OF assms] by blast
  have "\<not> f OR 0x80 \<le> 0x80" using exception_function_roundtrip(2) [OF assms(3)] by simp
  then show ?thesis
    using a assms exception_function_roundtrip(1) [OF assms(3)]
    by (intro exI [of _ a]) (simp add: modbus_rtu_decode_exception_response_def Let_def)
qed

theorem exception_response_roundtrip_witness:
  "\<exists>a. modbus_rtu_encode_exception_response (Some \<lparr>adu_length = 0, adu_data = replicate 256 0\<rparr>) 17 3 11
         = (MODBUS_RTU_OK, Some a) \<and>
     modbus_rtu_decode_exception_response (Some a) (Some 0) (Some 0) (Some 0) =
       (MODBUS_RTU_OK, Some 17, Some 3, Some 11)"
  by (rule exception_response_roundtrip)
     (simp_all add: adu_wf_def slave_address_is_routable_def is_legal_request_function_def
        is_legal_exception_code_def)

section \<open>Read responses\<close>

text \<open>
  The frame a conforming slave puts on the wire: a body followed by its CRC, low byte first. The
  rest of the receive buffer is arbitrary.
\<close>

definition wire_adu :: "u8 list \<Rightarrow> u8 list \<Rightarrow> modbus_rtu_adu_t" where
  "wire_adu body junk =
     \<lparr>adu_length = of_nat (length body + 2),
      adu_data = body @ [byte_at 0 (crc16_of body), byte_at 1 (crc16_of body)] @ junk\<rparr>"

text \<open>Coil values are packed eight to a byte, the first in the least significant bit, the rest of the last byte zero.\<close>

definition pack_bits :: "bool list \<Rightarrow> u8 list" where
  "pack_bits bs = map (\<lambda>k. horner_sum of_bool 2 (take 8 (drop (8 * k) bs))) [0..<(length bs + 7) div 8]"

definition pack_registers :: "u16 list \<Rightarrow> u8 list" where
  "pack_registers vs = concat (map (\<lambda>v. [byte_at 1 v, byte_at 0 v]) vs)"

lemma unat_wire_length: "length body + 2 < 65536 \<Longrightarrow> unat (adu_length (wire_adu body junk)) = length body + 2"
  by (simp only: wire_adu_def modbus_rtu_adu_t.simps unat_of_nat_u16)

lemma wire_adu_valid_crc: "length body + 2 < 65536 \<Longrightarrow> has_valid_crc (wire_adu body junk)"
  by (subst has_valid_crc_iff)
     (simp_all add: unat_wire_length adu_body_def, simp_all add: wire_adu_def nth_append)

lemma unat_bit_byte_count: "unat (bit_byte_count q) = (unat q + 7) div 8"
proof -
  have q: "unat q < 65536" by simp
  have "unat ((ucast q :: u32) + 7) = unat q + 7"
    using q by (subst unat_plus_small) (simp_all del: unat_u16_less)
  then have "unat ((ucast q + 7 :: u32) div 8) = (unat q + 7) div 8"
    by (simp add: unat_div)
  then show ?thesis
    using q by (simp add: bit_byte_count_def unsigned_ucast_eq take_bit_nat_eq_self_iff del: unat_u16_less)
qed

lemma length_pack_bits [simp]: "length (pack_bits bs) = (length bs + 7) div 8"
  by (simp add: pack_bits_def)

lemma bit_pack_bits:
  assumes "k < (length bs + 7) div 8"
  shows "bit (pack_bits bs ! k) n \<longleftrightarrow> n < 8 \<and> 8 * k + n < length bs \<and> bs ! (8 * k + n)"
  using assms by (auto simp: pack_bits_def bit_horner_sum_bit_iff)

lemma padding_zero_iff:
  assumes q: "1 \<le> unat q"
  shows "padding_bits_are_zero data q \<longleftrightarrow>
    (unat q mod 8 \<noteq> 0 \<longrightarrow> (\<forall>n. unat q mod 8 \<le> n \<longrightarrow> \<not> bit (data ! ((unat q - 1) div 8)) n))"
proof -
  have m: "unat (q mod 8) = unat q mod 8" by (simp add: unat_mod)
  have z: "q mod 8 = 0 \<longleftrightarrow> unat q mod 8 = 0" using m by (metis unat_eq_0)
  have l: "unat ((q - 1) div 8) = (unat q - 1) div 8"
    using q by (simp add: unat_div unat_sub word_le_nat_alt)
  have "(x AND push_bit k 0xFF = 0) \<longleftrightarrow> (\<forall>n. k \<le> n \<longrightarrow> \<not> bit x n)" if "k < 8" for x :: u8 and k
  proof -
    have "bit (push_bit k (0xFF :: u8)) n \<longleftrightarrow> k \<le> n \<and> n < 8" for n
      using that by (simp only: bit_push_bit_iff bit_u8_255) auto
    then show ?thesis by (auto simp: bit_eq_iff bit_and_iff dest: bit_u8_high)
  qed
  then show ?thesis
    by (simp add: padding_bits_are_zero_def Let_def z m l)
qed

lemma pred_div_8: "n mod 8 \<noteq> 0 \<Longrightarrow> (n - 1) div 8 = n div (8 :: nat)"
proof (rule div_nat_eqI)
  assume n: "n mod 8 \<noteq> 0"
  have e: "n = 8 * (n div 8) + n mod 8" and r: "n mod 8 < 8" by simp_all
  show "8 * (n div 8) \<le> n - 1" using e n by linarith
  show "n - 1 < 8 * Suc (n div 8)" using e r unfolding mult_Suc_right by linarith
qed

lemma packed_padding_zero:
  assumes "1 \<le> length bs" "length bs < 65536"
  shows "padding_bits_are_zero (pack_bits bs @ rest) (of_nat (length bs))"
proof -
  let ?k = "(length bs - 1) div 8"
  have k: "?k < (length bs + 7) div 8" using assms by linarith
  have "\<not> bit (pack_bits bs ! ?k) n" if "length bs mod 8 \<noteq> 0" "length bs mod 8 \<le> n" for n
  proof -
    have "?k = length bs div 8" using that(1) by (rule pred_div_8)
    then have "length bs \<le> 8 * ?k + n" using that div_mult_mod_eq [of "length bs" 8] by linarith
    then show ?thesis unfolding bit_pack_bits [OF k] by linarith
  qed
  then show ?thesis
    using assms k by (subst padding_zero_iff) (simp_all add: unat_of_nat_u16 nth_append)
qed

lemma unpack_packed_bits:
  assumes "i < length bs"
  shows "(drop_bit (i mod 8) ((pack_bits bs @ rest) ! (i div 8)) AND 1 \<noteq> 0) = bs ! i"
proof -
  have k: "i div 8 < (length bs + 7) div 8" using assms by linarith
  have i: "8 * (i div 8) + i mod 8 = i" by simp
  show ?thesis
    using k assms i by (simp add: and_one_nonzero_iff bit_drop_bit_eq bit_pack_bits nth_append)
qed

lemma of_nat_u8_eq_bit_byte_count:
  assumes "n < 65536" "(n + 7) div 8 < 256"
  shows "ucast (of_nat ((n + 7) div 8) :: u8) = bit_byte_count (of_nat n)"
  using assms by (simp add: word_unat_eq_iff unat_bit_byte_count unat_of_nat_u16 unat_of_nat_u8)

text \<open>
  Bit responses decode to what the slave packed: for either bit function, any routable slave
  and any 1..2000 values, decoding the slave's frame returns the slave address and the values in
  order, and leaves the rest of the caller's array alone.
\<close>

theorem bit_response_roundtrip:
  fixes bs :: "bool list"
  assumes f: "f = MODBUS_FC_READ_COILS \<or> f = MODBUS_FC_READ_DISCRETE_INPUTS"
    and s: "slave_address_is_routable s"
    and n: "1 \<le> length bs" "length bs \<le> 2000"
  shows "decode_bit_response
           (Some (wire_adu (s # f # of_nat ((length bs + 7) div 8) # pack_bits bs) junk))
           f 2000 (Some x) (of_nat (length bs)) (Some vs)
         = (MODBUS_RTU_OK, Some s, Some (bs @ drop (length bs) vs))"
proof -
  let ?c = "(length bs + 7) div 8"
  let ?body = "s # f # of_nat ?c # pack_bits bs"
  let ?a = "wire_adu ?body junk"
  have ne: "bs \<noteq> []" using n by auto
  have c: "?c \<le> 250" using n by linarith
  then have cc: "unat (of_nat ?c :: u8) = ?c" by (simp add: unat_of_nat_u8)
  have len: "unat (adu_length ?a) = ?c + 5" using c by (subst unat_wire_length) simp_all
  have crc: "has_valid_crc ?a" using c by (intro wire_adu_valid_crc) simp
  have d: "adu_data ?a = s # f # of_nat ?c # pack_bits bs @ [byte_at 0 (crc16_of ?body), byte_at 1 (crc16_of ?body)] @ junk"
    by (simp add: wire_adu_def)
  have q: "unat (of_nat (length bs) :: u16) = length bs" using n by (simp add: unat_of_nat_u16)
  have nth: "adu_data ?a ! (3 + k) = (pack_bits bs @ [byte_at 0 (crc16_of ?body), byte_at 1 (crc16_of ?body)] @ junk) ! k" for k
    by (simp add: d)
  have vals: "map (\<lambda>i. drop_bit (i mod 8) (adu_data ?a ! (3 + i div 8)) AND 1 \<noteq> 0) [0..<length bs] = bs"
    by (rule nth_equalityI) (simp_all only: nth length_map length_upt diff_zero nth_map nth_upt add_0 unpack_packed_bits)
  show ?thesis
    using f s ne n c cc len crc vals q packed_padding_zero [of bs] of_nat_u8_eq_bit_byte_count [of "length bs"]
    by (simp add: decode_bit_response_def Let_def word_less_nat_alt overwrite_def d)
qed

theorem bit_response_roundtrip_witness:
  "decode_bit_response
     (Some (wire_adu (7 # MODBUS_FC_READ_COILS # of_nat ((length [True, False, True] + 7) div 8)
                      # pack_bits [True, False, True]) []))
     MODBUS_FC_READ_COILS 2000 (Some 0) (of_nat (length [True, False, True])) (Some [False, False, False, True])
   = (MODBUS_RTU_OK, Some 7, Some ([True, False, True] @ drop (length [True, False, True]) [False, False, False, True]))"
  by (rule bit_response_roundtrip) (simp_all add: slave_address_is_routable_def)

lemma length_pack_registers [simp]: "length (pack_registers vs) = 2 * length vs"
  by (induction vs) (simp_all add: pack_registers_def)

lemma read_packed_register:
  assumes "i < length vs"
  shows "read_u16_be (pack_registers vs @ rest) (i * 2) = vs ! i"
  using assms
proof (induction vs arbitrary: i)
  case (Cons v vs)
  show ?case
  proof (cases i)
    case 0
    then show ?thesis by (simp add: pack_registers_def read_u16_be_join byte_simps [simplified])
  next
    case (Suc j)
    have "read_u16_be (pack_registers (v # vs) @ rest) (i * 2) = read_u16_be (pack_registers vs @ rest) (j * 2)"
      by (simp add: Suc pack_registers_def read_u16_be_join)
    then show ?thesis using Cons Suc by simp
  qed
qed simp

lemma even_u16: "ucast (of_nat (2 * n) :: u8) AND 1 = (0 :: u16)"
  by (rule bit_word_eqI) (auto simp: bit_simps less_Suc_eq bit_0)

text \<open>
  Register responses decode to what the slave sent: for either register function, any routable
  slave and any 1..125 values, decoding the slave's frame (big-endian registers) returns the slave
  address and the values in order.
\<close>

theorem register_response_roundtrip:
  fixes vals :: "u16 list"
  assumes f: "f = MODBUS_FC_READ_HOLDING_REGISTERS \<or> f = MODBUS_FC_READ_INPUT_REGISTERS"
    and s: "slave_address_is_routable s"
    and n: "1 \<le> length vals" "length vals \<le> 125"
  shows "decode_register_response
           (Some (wire_adu (s # f # of_nat (2 * length vals) # pack_registers vals) junk))
           f 125 (Some x) (of_nat (length vals)) (Some vs)
         = (MODBUS_RTU_OK, Some s, Some (vals @ drop (length vals) vs))"
proof -
  let ?c = "2 * length vals"
  let ?body = "s # f # of_nat ?c # pack_registers vals"
  let ?a = "wire_adu ?body junk"
  have ne: "vals \<noteq> []" using n by auto
  have cc: "unat (of_nat ?c :: u8) = ?c" using n by (intro unat_of_nat_u8) simp
  have len: "unat (adu_length ?a) = ?c + 5" using n by (subst unat_wire_length) simp_all
  have crc: "has_valid_crc ?a" using n by (intro wire_adu_valid_crc) simp
  have d: "adu_data ?a = s # f # of_nat ?c # pack_registers vals @ [byte_at 0 (crc16_of ?body), byte_at 1 (crc16_of ?body)] @ junk"
    by (simp add: wire_adu_def)
  have q: "unat (of_nat (length vals) :: u16) = length vals" using n by (simp add: unat_of_nat_u16)
  have half: "(ucast (of_nat ?c :: u8) :: u16) div 2 = of_nat (length vals)"
    using cc q by (simp add: word_unat_eq_iff unat_div del: of_nat_mult)
  have "read_u16_be (adu_data ?a) (3 + i * 2) =
      read_u16_be (pack_registers vals @ [byte_at 0 (crc16_of ?body), byte_at 1 (crc16_of ?body)] @ junk) (i * 2)" for i
    by (simp only: d read_u16_be_join) (simp add: add.commute [of 3] del: of_nat_mult)
  then have vs: "map (\<lambda>i. read_u16_be (adu_data ?a) (3 + i * 2)) [0..<length vals] = vals"
    by (intro nth_equalityI) (simp_all only: length_map length_upt diff_zero nth_map nth_upt add_0 read_packed_register)
  show ?thesis
    using f s ne n cc len crc vs q half even_u16 [of "length vals"]
    by (simp add: decode_register_response_def Let_def word_less_nat_alt overwrite_def d del: of_nat_mult)
qed

theorem register_response_roundtrip_witness:
  "decode_register_response
     (Some (wire_adu (7 # MODBUS_FC_READ_HOLDING_REGISTERS # of_nat (2 * length [0x1234, 0xFFFF :: u16])
                      # pack_registers [0x1234, 0xFFFF]) []))
     MODBUS_FC_READ_HOLDING_REGISTERS 125 (Some 0) (of_nat (length [0x1234, 0xFFFF :: u16])) (Some [0, 0, 5])
   = (MODBUS_RTU_OK, Some 7, Some ([0x1234, 0xFFFF] @ drop (length [0x1234, 0xFFFF :: u16]) [0, 0, 5]))"
  by (rule register_response_roundtrip) (simp_all add: slave_address_is_routable_def)

section \<open>What the request validator accepts\<close>

text \<open>
  The requests of the Modbus application protocol the gateway forwards, their PDU bytes and their
  limits, independently of how the code inspects a frame.
\<close>

datatype modbus_request =
    Read u8 u16 u16
  | Write_Coil u16 bool
  | Write_Register u16 u16
  | Write_Coils u16 "bool list"
  | Write_Registers u16 "u16 list"

definition be16 :: "u16 \<Rightarrow> u8 list" where
  "be16 v = [byte_at 1 v, byte_at 0 v]"

fun request_pdu :: "modbus_request \<Rightarrow> u8 list" where
  "request_pdu (Read f st q) = f # be16 st @ be16 q"
| "request_pdu (Write_Coil a v) = MODBUS_FC_WRITE_SINGLE_COIL # be16 a @ be16 (if v then 0xFF00 else 0)"
| "request_pdu (Write_Register a v) = MODBUS_FC_WRITE_SINGLE_REGISTER # be16 a @ be16 v"
| "request_pdu (Write_Coils st bs) =
     MODBUS_FC_WRITE_MULTIPLE_COILS # be16 st @ be16 (of_nat (length bs)) @
     of_nat ((length bs + 7) div 8) # pack_bits bs"
| "request_pdu (Write_Registers st vs) =
     MODBUS_FC_WRITE_MULTIPLE_REGISTERS # be16 st @ be16 (of_nat (length vs)) @
     of_nat (2 * length vs) # pack_registers vs"

fun request_in_range :: "modbus_request \<Rightarrow> bool" where
  "request_in_range (Read f st q) \<longleftrightarrow>
     f \<in> {MODBUS_FC_READ_COILS, MODBUS_FC_READ_DISCRETE_INPUTS, MODBUS_FC_READ_HOLDING_REGISTERS,
          MODBUS_FC_READ_INPUT_REGISTERS} \<and>
     1 \<le> unat q \<and> unat q \<le> (if f = MODBUS_FC_READ_COILS \<or> f = MODBUS_FC_READ_DISCRETE_INPUTS then 2000 else 125) \<and>
     unat st + unat q \<le> 65536"
| "request_in_range (Write_Coil a v) \<longleftrightarrow> True"
| "request_in_range (Write_Register a v) \<longleftrightarrow> True"
| "request_in_range (Write_Coils st bs) \<longleftrightarrow>
     1 \<le> length bs \<and> length bs \<le> 1968 \<and> unat st + length bs \<le> 65536"
| "request_in_range (Write_Registers st vs) \<longleftrightarrow>
     1 \<le> length vs \<and> length vs \<le> 123 \<and> unat st + length vs \<le> 65536"

lemma pack_unpacked_bits:
  assumes "length xs = (n + 7) div 8" "1 \<le> n" "n < 65536" "padding_bits_are_zero (xs @ rest) (of_nat n)"
  shows "pack_bits (map (\<lambda>i. bit (xs ! (i div 8)) (i mod 8)) [0..<n]) = xs"
proof (rule nth_equalityI)
  fix k assume "k < length (pack_bits (map (\<lambda>i. bit (xs ! (i div 8)) (i mod 8)) [0..<n]))"
  then have k: "k < (n + 7) div 8" by simp
  have "bit (xs ! k) m \<Longrightarrow> 8 * k + m < n" if "m < 8" for m
  proof (rule ccontr)
    assume b: "bit (xs ! k) m" and "\<not> 8 * k + m < n"
    then have ge: "n \<le> 8 * k + m" by simp
    have r: "n mod 8 < 8" "n = 8 * (n div 8) + n mod 8" by simp_all
    have nz: "n mod 8 \<noteq> 0"
    proof
      assume z: "n mod 8 = 0"
      then have "(n + 7) div 8 = n div 8" using r by (intro div_nat_eqI) (unfold mult_Suc_right, linarith+)
      with k ge that r z show False by linarith
    qed
    have "k = n div 8" using k ge that r nz by linarith
    moreover from this have "n mod 8 \<le> m" using ge r by linarith
    ultimately have "\<not> bit ((xs @ rest) ! ((n - 1) div 8)) m"
      using assms(2-4) nz by (simp add: padding_zero_iff unat_of_nat_u16)
    then show False using b k assms(1) nz \<open>k = n div 8\<close> by (simp add: pred_div_8 [simplified] nth_append)
  qed
  then show "pack_bits (map (\<lambda>i. bit (xs ! (i div 8)) (i mod 8)) [0..<n]) ! k = xs ! k"
    using k by (intro bit_word_eqI) (auto simp: bit_pack_bits)
qed (simp add: assms)

lemma pack_unpacked_registers:
  "length xs = 2 * n \<Longrightarrow> pack_registers (map (\<lambda>i. read_u16_be xs (2 * i)) [0..<n]) = xs"
proof (induction n arbitrary: xs)
  case (Suc n)
  then obtain a b ys where xs: "xs = a # b # ys" "length ys = 2 * n"
    by (auto simp: length_Suc_conv)
  have "map (\<lambda>i. read_u16_be xs (2 * i)) [0..<Suc n] = join16 a b # map (\<lambda>i. read_u16_be ys (2 * i)) [0..<n]"
    by (simp only: map_upt_Suc) (simp add: xs(1) read_u16_be_join)
  then show ?case using Suc.IH [OF xs(2)] xs
    by (simp add: pack_registers_def byte_simps [simplified] del: upt_Suc)
qed (simp add: pack_registers_def)

lemma valid_crc_wire:
  assumes "4 \<le> unat (adu_length a)" "unat (adu_length a) \<le> length (adu_data a)"
  shows "has_valid_crc a \<longleftrightarrow>
    take (unat (adu_length a)) (adu_data a) =
      adu_body a @ [byte_at 0 (crc16_of (adu_body a)), byte_at 1 (crc16_of (adu_body a))]"
proof -
  let ?n = "unat (adu_length a) - 2"
  have n: "unat (adu_length a) = Suc (Suc ?n)" using assms by simp
  have "take (unat (adu_length a)) (adu_data a) = adu_body a @ [adu_data a ! ?n, adu_data a ! Suc ?n]"
    using assms unfolding adu_body_def by (subst n) (simp add: take_Suc_conv_app_nth)
  moreover have "unat (adu_length a) - 1 = Suc ?n" using assms by simp
  ultimately show ?thesis using assms by (simp add: has_valid_crc_iff)
qed

text \<open>The bytes of the frame for a request: slave address, PDU and CRC.\<close>

definition request_frame :: "u8 \<Rightarrow> modbus_request \<Rightarrow> u8 list" where
  "request_frame s r =
     (let body = s # request_pdu r in body @ [byte_at 0 (crc16_of body), byte_at 1 (crc16_of body)])"

lemma request_frame_iff:
  assumes "4 \<le> unat (adu_length a)" "unat (adu_length a) \<le> length (adu_data a)"
  shows "take (unat (adu_length a)) (adu_data a) = request_frame s r \<longleftrightarrow>
    has_valid_crc a \<and> adu_body a = s # request_pdu r"
proof -
  let ?n = "unat (adu_length a)"
  have b: "adu_body a = butlast (butlast (take ?n (adu_data a)))"
    using assms by (simp add: adu_body_def butlast_take numeral_2_eq_2)
  have x: "adu_body a = xs" if "take ?n (adu_data a) = xs @ [x, y]" for xs x y
    by (simp add: b that butlast_append)
  show ?thesis
    using x unfolding valid_crc_wire [OF assms] request_frame_def Let_def by metis
qed

lemma body_nth: "k < unat (adu_length a) - 2 \<Longrightarrow> adu_data a ! k = adu_body a ! k"
  by (simp add: adu_body_def)

lemma join16_eq_byte_at: "v = join16 a b \<longleftrightarrow> a = byte_at 1 v \<and> b = byte_at 0 v"
  by (metis byte_at_join16(1,2) join16_byte_at)

lemma validate_length_OK:
  "validate_request_length (Some a) = MODBUS_RTU_OK \<longleftrightarrow>
     unat (adu_length a) \<le> 256 \<and>
     (let f = adu_data a ! 1 in
      (f \<in> {MODBUS_FC_READ_COILS, MODBUS_FC_READ_DISCRETE_INPUTS, MODBUS_FC_READ_HOLDING_REGISTERS,
             MODBUS_FC_READ_INPUT_REGISTERS, MODBUS_FC_WRITE_SINGLE_COIL, MODBUS_FC_WRITE_SINGLE_REGISTER} \<and>
       unat (adu_length a) = 8) \<or>
      (f \<in> {MODBUS_FC_WRITE_MULTIPLE_COILS, MODBUS_FC_WRITE_MULTIPLE_REGISTERS} \<and>
       unat (adu_length a) = 9 + unat (adu_data a ! 6)))"
  by (auto simp: validate_request_length_def Let_def)

lemma body_cases_6:
  assumes "length (adu_data a) = 256" "unat (adu_length a) = 8"
  shows "adu_body a = [adu_data a ! 0, adu_data a ! 1] @ be16 (read_u16_be (adu_data a) 2) @
           be16 (read_u16_be (adu_data a) 4)"
  using assms
  by (intro nth_equalityI)
     (auto simp: adu_body_def be16_def read_u16_be_join byte_simps [simplified] nth_Cons' less_Suc_eq numeral_eq_Suc)

lemma body_cases_multiple:
  assumes "length (adu_data a) = 256" "unat (adu_length a) = 9 + n" "unat (adu_length a) \<le> 256"
  shows "adu_body a = [adu_data a ! 0, adu_data a ! 1] @ be16 (read_u16_be (adu_data a) 2) @
           be16 (read_u16_be (adu_data a) 4) @ [adu_data a ! 6] @ take n (drop 7 (adu_data a))"
proof -
  have "take (7 + n) xs = [xs ! 0, xs ! 1, xs ! 2, xs ! 3, xs ! 4, xs ! 5, xs ! 6] @ take n (drop 7 xs)"
    if "length xs = 256" for xs :: "u8 list"
  proof -
    have "take 7 xs = [xs ! 0, xs ! 1, xs ! 2, xs ! 3, xs ! 4, xs ! 5, xs ! 6]"
      using that by (intro nth_equalityI) (auto simp: nth_Cons' less_Suc_eq numeral_eq_Suc)
    then show ?thesis by (simp only: take_add)
  qed
  from this [OF assms(1)] show ?thesis
    using assms by (simp add: adu_body_def be16_def read_u16_be_join byte_simps [simplified])
qed

lemma validate_request_OK:
  "modbus_rtu_validate_request (Some a) = MODBUS_RTU_OK \<longleftrightarrow>
     validate_request_length (Some a) = MODBUS_RTU_OK \<and> has_valid_crc a \<and>
     slave_address_is_routable (adu_data a ! 0) \<and>
     (let f = adu_data a ! 1 in
      if f \<in> {MODBUS_FC_READ_COILS, MODBUS_FC_READ_DISCRETE_INPUTS}
      then validate_address_quantity_request a 2000 = MODBUS_RTU_OK
      else if f \<in> {MODBUS_FC_READ_HOLDING_REGISTERS, MODBUS_FC_READ_INPUT_REGISTERS}
      then validate_address_quantity_request a 125 = MODBUS_RTU_OK
      else if f = MODBUS_FC_WRITE_SINGLE_COIL then validate_write_single_coil_request a = MODBUS_RTU_OK
      else if f = MODBUS_FC_WRITE_MULTIPLE_COILS
      then validate_write_multiple_coils_request a = MODBUS_RTU_OK
      else if f = MODBUS_FC_WRITE_MULTIPLE_REGISTERS
      then validate_write_multiple_registers_request a = MODBUS_RTU_OK
      else True)"
  by (auto simp: modbus_rtu_validate_request_def Let_def validate_length_OK)

lemma validate_write_multiple_coils_OK:
  "validate_write_multiple_coils_request a = MODBUS_RTU_OK \<longleftrightarrow>
     (let q = read_u16_be (adu_data a) 4 in
      1 \<le> unat q \<and> unat q \<le> 1968 \<and> unat (read_u16_be (adu_data a) 2) + unat q \<le> 65536 \<and>
      unat (adu_data a ! 6) = (unat q + 7) div 8 \<and> padding_bits_are_zero (drop 7 (adu_data a)) q)"
proof -
  have "adu_data a ! 6 = ucast (bit_byte_count q) \<longleftrightarrow> unat (adu_data a ! 6) = (unat q + 7) div 8"
    if "unat q \<le> 1968" for q
  proof -
    have "(unat q + 7) div 8 < 2 ^ 8" using that by simp
    then show ?thesis
      by (simp add: word_unat_eq_iff unat_bit_byte_count unsigned_ucast_eq take_bit_nat_eq_self)
  qed
  then show ?thesis
    by (auto simp: validate_write_multiple_coils_request_def Let_def validate_address_quantity_OK_iff [simplified])
qed

lemma validate_write_multiple_registers_OK:
  "validate_write_multiple_registers_request a = MODBUS_RTU_OK \<longleftrightarrow>
     (let q = read_u16_be (adu_data a) 4 in
      1 \<le> unat q \<and> unat q \<le> 123 \<and> unat (read_u16_be (adu_data a) 2) + unat q \<le> 65536 \<and>
      unat (adu_data a ! 6) = 2 * unat q)"
proof -
  have "adu_data a ! 6 = ucast (q * 2) \<longleftrightarrow> unat (adu_data a ! 6) = 2 * unat q"
    if "unat q \<le> 123" for q :: u16
    using that by (simp add: word_unat_eq_iff unsigned_ucast_eq unat_word_ariths take_bit_eq_mod mult.commute)
  then show ?thesis
    by (auto simp: validate_write_multiple_registers_request_def Let_def validate_address_quantity_OK_iff [simplified])
qed

lemma validated_coils_body:
  assumes len: "length (adu_data a) = 256" and ok: "validate_write_multiple_coils_request a = MODBUS_RTU_OK"
    and f: "adu_data a ! 1 = MODBUS_FC_WRITE_MULTIPLE_COILS"
    and l: "unat (adu_length a) = 9 + unat (adu_data a ! 6)" "unat (adu_length a) \<le> 256"
  shows "\<exists>r. request_in_range r \<and> adu_body a = adu_data a ! 0 # request_pdu r"
proof -
  let ?d = "adu_data a" and ?n = "unat (adu_data a ! 6)" and ?xs = "take (unat (adu_data a ! 6)) (drop 7 (adu_data a))"
  let ?st = "read_u16_be (adu_data a) 2" and ?q = "read_u16_be (adu_data a) 4"
  have q: "1 \<le> unat ?q" "unat ?q \<le> 1968" "unat ?st + unat ?q \<le> 65536" "?n = (unat ?q + 7) div 8"
    and pad: "padding_bits_are_zero (drop 7 ?d) ?q"
    using ok by (auto simp: validate_write_multiple_coils_OK Let_def)
  let ?bs = "map (\<lambda>i. bit (?xs ! (i div 8)) (i mod 8)) [0..<unat ?q]"
  have "pack_bits ?bs = ?xs"
  proof (rule pack_unpacked_bits)
    show "padding_bits_are_zero (?xs @ drop ?n (drop 7 ?d)) (of_nat (unat ?q))"
      using pad by (simp only: append_take_drop_id of_nat_unat ucast_id)
    show "length ?xs = (unat ?q + 7) div 8" using l len q(4) by simp
  qed (use q in simp_all)
  moreover have "of_nat ((unat ?q + 7) div 8) = ?d ! 6" by (simp add: q(4) [symmetric] del: of_nat_mult)
  ultimately have "adu_body a = ?d ! 0 # request_pdu (Write_Coils ?st ?bs)"
    using body_cases_multiple [OF len l] f by simp
  moreover have "request_in_range (Write_Coils ?st ?bs)" using q by simp
  ultimately show ?thesis by blast
qed

lemma validated_registers_body:
  assumes len: "length (adu_data a) = 256" and ok: "validate_write_multiple_registers_request a = MODBUS_RTU_OK"
    and f: "adu_data a ! 1 = MODBUS_FC_WRITE_MULTIPLE_REGISTERS"
    and l: "unat (adu_length a) = 9 + unat (adu_data a ! 6)" "unat (adu_length a) \<le> 256"
  shows "\<exists>r. request_in_range r \<and> adu_body a = adu_data a ! 0 # request_pdu r"
proof -
  let ?d = "adu_data a" and ?n = "unat (adu_data a ! 6)" and ?xs = "take (unat (adu_data a ! 6)) (drop 7 (adu_data a))"
  let ?st = "read_u16_be (adu_data a) 2" and ?q = "read_u16_be (adu_data a) 4"
  have q: "1 \<le> unat ?q" "unat ?q \<le> 123" "unat ?st + unat ?q \<le> 65536" "?n = 2 * unat ?q"
    using ok by (auto simp: validate_write_multiple_registers_OK Let_def)
  let ?vs = "map (\<lambda>i. read_u16_be ?xs (2 * i)) [0..<unat ?q]"
  have "pack_registers ?vs = ?xs"
    by (rule pack_unpacked_registers) (use l len q(4) in simp)
  moreover have "of_nat (2 * unat ?q) = ?d ! 6" by (simp add: q(4) [symmetric] del: of_nat_mult)
  ultimately have "adu_body a = ?d ! 0 # request_pdu (Write_Registers ?st ?vs)"
    using body_cases_multiple [OF len l] f by (simp del: of_nat_mult)
  moreover have "request_in_range (Write_Registers ?st ?vs)" using q by simp
  ultimately show ?thesis by blast
qed

lemma validated_request_body:
  assumes wf: "adu_wf a" and ok: "modbus_rtu_validate_request (Some a) = MODBUS_RTU_OK"
  shows "\<exists>r. request_in_range r \<and> adu_body a = adu_data a ! 0 # request_pdu r"
proof -
  let ?d = "adu_data a" and ?f = "adu_data a ! 1"
  let ?st = "read_u16_be (adu_data a) 2" and ?q = "read_u16_be (adu_data a) 4"
  have len: "length ?d = 256" using wf by (simp add: adu_wf_def)
  note ok' = ok [unfolded validate_request_OK validate_length_OK Let_def]
  consider (read) "?f \<in> {MODBUS_FC_READ_COILS, MODBUS_FC_READ_DISCRETE_INPUTS,
      MODBUS_FC_READ_HOLDING_REGISTERS, MODBUS_FC_READ_INPUT_REGISTERS}"
    | (coil) "?f = MODBUS_FC_WRITE_SINGLE_COIL" | (reg) "?f = MODBUS_FC_WRITE_SINGLE_REGISTER"
    | (coils) "?f = MODBUS_FC_WRITE_MULTIPLE_COILS" | (regs) "?f = MODBUS_FC_WRITE_MULTIPLE_REGISTERS"
    using ok' by auto
  then show ?thesis
  proof cases
    case read
    then have "unat (adu_length a) = 8" using ok' by auto
    then have "adu_body a = ?d ! 0 # request_pdu (Read ?f ?st ?q)"
      using body_cases_6 [OF len] by simp
    moreover have "request_in_range (Read ?f ?st ?q)"
      using ok' read by (auto simp: validate_address_quantity_request_def validate_address_quantity_OK_iff [simplified])
    ultimately show ?thesis by blast
  next
    case coil
    then have "unat (adu_length a) = 8" using ok' by auto
    moreover have "?q = (if ?q = 0xFF00 then 0xFF00 else 0)"
      using ok' coil by (auto simp: validate_write_single_coil_request_def is_legal_write_single_coil_value_def split: if_splits)
    ultimately have "adu_body a = ?d ! 0 # request_pdu (Write_Coil ?st (?q = 0xFF00))"
      using body_cases_6 [OF len] coil by simp
    then show ?thesis using request_in_range.simps(2) by blast
  next
    case reg
    then have "unat (adu_length a) = 8" using ok' by auto
    then have "adu_body a = ?d ! 0 # request_pdu (Write_Register ?st ?q)"
      using body_cases_6 [OF len] reg by simp
    then show ?thesis using request_in_range.simps(3) by blast
  qed (use ok' len in \<open>auto intro: validated_coils_body validated_registers_body\<close>)
qed

lemma request_pdu_length:
  "request_in_range r \<Longrightarrow> length (request_pdu r) =
     (case r of Write_Coils st bs \<Rightarrow> 6 + (length bs + 7) div 8 | Write_Registers st vs \<Rightarrow> 6 + 2 * length vs | _ \<Rightarrow> 5)"
  by (cases r) (simp_all add: be16_def)

lemma frame_body_validates:
  assumes wf: "adu_wf a" and len: "4 \<le> unat (adu_length a)" "unat (adu_length a) \<le> 256"
    and crc: "has_valid_crc a" and s: "slave_address_is_routable s"
    and r: "request_in_range r" and body: "adu_body a = s # request_pdu r"
  shows "modbus_rtu_validate_request (Some a) = MODBUS_RTU_OK"
proof -
  have l: "unat (adu_length a) = length (request_pdu r) + 3"
    using arg_cong [OF body, of length] wf len by (simp add: adu_body_def adu_wf_def)
  have d: "adu_data a ! k = (s # request_pdu r) ! k" if "k < length (request_pdu r) + 1" for k
    using that l body_nth [of k a] by (simp add: body)
  have d0: "adu_data a ! 0 = s" using d [of 0] by simp
  show ?thesis
  proof (cases r)
    case (Read f st q)
    have "adu_data a ! 1 = f" "read_u16_be (adu_data a) 2 = st" "read_u16_be (adu_data a) 4 = q"
      by (simp_all add: d Read be16_def read_u16_be_join byte_simps [simplified])
    then show ?thesis using crc s r l len d0 Read
      by (auto simp: validate_request_OK validate_length_OK be16_def validate_address_quantity_request_def
          validate_address_quantity_OK_iff [simplified])
  next
    case (Write_Coil st v)
    have "adu_data a ! 1 = MODBUS_FC_WRITE_SINGLE_COIL" "read_u16_be (adu_data a) 4 = (if v then 0xFF00 else 0)"
      by (simp_all add: d Write_Coil be16_def read_u16_be_join byte_simps [simplified])
    then show ?thesis using crc s r l len d0 Write_Coil
      by (auto simp: validate_request_OK validate_length_OK be16_def validate_write_single_coil_request_def
          is_legal_write_single_coil_value_def)
  next
    case (Write_Register st v)
    have "adu_data a ! 1 = MODBUS_FC_WRITE_SINGLE_REGISTER" by (simp add: d Write_Register be16_def)
    then show ?thesis using crc s r l len d0 Write_Register
      by (auto simp: validate_request_OK validate_length_OK be16_def)
  next
    case (Write_Coils st bs)
    have n: "1 \<le> length bs" "length bs < 65536" "(length bs + 7) div 8 < 256" using r Write_Coils by auto
    have d6: "unat (adu_data a ! 6) = (length bs + 7) div 8"
      using n by (simp add: d Write_Coils be16_def unat_of_nat_u8)
    have "adu_data a = (s # request_pdu r) @ drop (unat (adu_length a) - 2) (adu_data a)"
      unfolding body [symmetric] adu_body_def by simp
    from arg_cong [OF this, of "drop 7"]
    have "drop 7 (adu_data a) = pack_bits bs @ drop (unat (adu_length a) - 2) (adu_data a)"
      by (simp add: Write_Coils be16_def)
    then have pad: "padding_bits_are_zero (drop 7 (adu_data a)) (of_nat (length bs))"
      using packed_padding_zero [OF n(1,2)] by simp
    have "adu_data a ! 1 = MODBUS_FC_WRITE_MULTIPLE_COILS" "read_u16_be (adu_data a) 2 = st"
      "read_u16_be (adu_data a) 4 = of_nat (length bs)"
      by (simp_all add: d Write_Coils be16_def read_u16_be_join byte_simps [simplified])
    then show ?thesis using crc s r l len d0 d6 pad n Write_Coils
      by (auto simp: validate_request_OK validate_length_OK validate_write_multiple_coils_OK be16_def unat_of_nat_u16)
  next
    case (Write_Registers st vs)
    have n: "1 \<le> length vs" "length vs < 65536" "2 * length vs < 256" using r Write_Registers by auto
    have d6: "unat (adu_data a ! 6) = 2 * length vs"
      using n by (simp add: d Write_Registers be16_def unat_of_nat_u8 del: of_nat_mult)
    have "adu_data a ! 1 = MODBUS_FC_WRITE_MULTIPLE_REGISTERS" "read_u16_be (adu_data a) 2 = st"
      "read_u16_be (adu_data a) 4 = of_nat (length vs)"
      by (simp_all add: d Write_Registers be16_def read_u16_be_join byte_simps [simplified])
    then show ?thesis using crc s r l len d0 d6 n Write_Registers
      by (auto simp: validate_request_OK validate_length_OK validate_write_multiple_registers_OK be16_def unat_of_nat_u16)
  qed
qed

text \<open>
  C6. The request validator is exact: it accepts an ADU if and only if the bytes the ADU carries
  are the frame (address, PDU, CRC) of a request of the protocol to a routable slave whose
  quantities and addresses are within the limits of its function.
\<close>

theorem validate_request_exact:
  assumes "adu_wf a"
  shows "modbus_rtu_validate_request (Some a) = MODBUS_RTU_OK \<longleftrightarrow>
    4 \<le> unat (adu_length a) \<and> unat (adu_length a) \<le> 256 \<and>
    (\<exists>s r. 1 \<le> s \<and> s \<le> 247 \<and> request_in_range r \<and>
       take (unat (adu_length a)) (adu_data a) = request_frame s r)"
    (is "?ok \<longleftrightarrow> ?lo \<and> ?hi \<and> ?ex")
proof -
  have len: "length (adu_data a) = 256" using assms by (simp add: adu_wf_def)
  have "?ok \<Longrightarrow> validate_request_length (Some a) = MODBUS_RTU_OK" by (simp add: validate_request_OK)
  then have b: "?ok \<Longrightarrow> ?lo \<and> ?hi" unfolding validate_length_OK Let_def by linarith
  have "?ok \<longleftrightarrow> ?ex" if "?lo" "?hi"
  proof -
    note fr = request_frame_iff [OF that(1), unfolded len, OF that(2)]
    show ?thesis
    proof
      assume ok: ?ok
      then have "has_valid_crc a" "slave_address_is_routable (adu_data a ! 0)"
        by (simp_all add: validate_request_OK)
      then show ?ex
        using validated_request_body [OF assms ok] fr unfolding slave_address_is_routable_def by blast
    next
      assume ?ex
      then show ?ok
        using frame_body_validates [OF assms that] fr unfolding slave_address_is_routable_def by blast
    qed
  qed
  then show ?thesis using b by blast
qed

theorem validate_request_exact_witness:
  "\<exists>s r. 1 \<le> s \<and> s \<le> 247 \<and> request_in_range r \<and> [1, 3, 0, 0, 0, 1, 0x84, 0x0A] = request_frame s r"
proof -
  let ?a = "\<lparr>adu_length = 8, adu_data = [1, 3, 0, 0, 0, 1, 0x84, 0x0A] @ replicate 248 0\<rparr>"
  have "modbus_rtu_validate_request (Some ?a) = MODBUS_RTU_OK" by code_simp
  moreover have "adu_wf ?a" by (simp add: adu_wf_def)
  ultimately show ?thesis using validate_request_exact [of ?a] by simp
qed

section \<open>Accepted responses\<close>

lemma transact_result:
  assumes "modbus_rtu_transact transceive (Some ch) (Some req) t (Some resp) = (res, Some resp')"
    "res = MODBUS_RTU_TRANSACTION_OK \<or> res = MODBUS_RTU_TRANSACTION_EXCEPTION_RESPONSE"
  shows "response_check req resp' = res"
  using assms
  by (auto simp: modbus_rtu_transact_def Let_def split: if_splits prod.splits modbus_rtu_rs485_port_result_t.splits)

lemma response_check_accepts:
  assumes "response_check req resp = res"
    "res = MODBUS_RTU_TRANSACTION_OK \<or> res = MODBUS_RTU_TRANSACTION_EXCEPTION_RESPONSE"
  shows "response_length_check resp = None \<and> has_valid_crc resp \<and> adu_data resp ! 0 = adu_data req ! 0 \<and>
    (if res = MODBUS_RTU_TRANSACTION_OK
     then adu_data resp ! 1 = adu_data req ! 1 \<and> response_data_check req resp = res
     else adu_data resp ! 1 = adu_data req ! 1 OR 0x80 \<and> is_legal_exception_code (adu_data resp ! 2))"
proof -
  have "response_length_check resp \<noteq> Some res" using assms(2)
    by (auto simp: response_length_check_def Let_def split: if_splits)
  moreover have "response_data_check req resp \<noteq> MODBUS_RTU_TRANSACTION_EXCEPTION_RESPONSE"
    by (simp add: response_data_check_def Let_def)
  ultimately show ?thesis
    using assms by (auto simp: response_check_def Let_def split: if_splits option.splits)
qed

lemma accepted_bit_response_decodes:
  assumes f: "f = MODBUS_FC_READ_COILS \<or> f = MODBUS_FC_READ_DISCRETE_INPUTS"
    and req: "adu_data req ! 1 = f" "adu_data req ! 0 = s" "read_u16_be (adu_data req) 4 = q"
    and s: "slave_address_is_routable s" and q: "1 \<le> unat q" "unat q \<le> 2000"
    and ok: "response_check req resp = MODBUS_RTU_TRANSACTION_OK"
  shows "\<exists>vals. length vals = unat q \<and>
    decode_bit_response (Some resp) f 2000 (Some x) q (Some vs) = (MODBUS_RTU_OK, Some s, Some (overwrite 0 vals vs))"
proof -
  let ?d = "adu_data resp"
  from response_check_accepts [OF ok] req
  have a: "response_length_check resp = None" "has_valid_crc resp" "?d ! 0 = s" "?d ! 1 = f"
    "response_data_check req resp = MODBUS_RTU_TRANSACTION_OK" by simp_all
  from a(5) f req have c: "?d ! 2 = ucast (bit_byte_count q)" and p: "padding_bits_are_zero (drop 3 ?d) q"
    by (auto simp: response_data_check_def Let_def split: if_splits)
  have "(unat q + 7) div 8 \<le> 250" using q by linarith
  then have c': "unat (?d ! 2) = (unat q + 7) div 8" "unat (?d ! 2) \<le> 250"
    by (simp_all add: c unsigned_ucast_eq unat_bit_byte_count take_bit_nat_eq_self)
  then have "ucast (?d ! 2) = bit_byte_count q" by (simp add: word_unat_eq_iff unat_bit_byte_count)
  moreover have "unat (adu_length resp) = 5 + unat (?d ! 2)"
    using a(1,4) f by (auto simp: response_length_check_def Let_def split: if_splits)
  ultimately show ?thesis
    using a s q p c'(2)
    by (auto simp: decode_bit_response_def Let_def word_less_nat_alt intro!: exI)
qed

lemma accepted_register_response_decodes:
  assumes f: "f = MODBUS_FC_READ_HOLDING_REGISTERS \<or> f = MODBUS_FC_READ_INPUT_REGISTERS"
    and req: "adu_data req ! 1 = f" "adu_data req ! 0 = s" "read_u16_be (adu_data req) 4 = q"
    and s: "slave_address_is_routable s" and q: "1 \<le> unat q" "unat q \<le> 125"
    and ok: "response_check req resp = MODBUS_RTU_TRANSACTION_OK"
  shows "\<exists>vals. length vals = unat q \<and>
    decode_register_response (Some resp) f 125 (Some x) q (Some vs) = (MODBUS_RTU_OK, Some s, Some (overwrite 0 vals vs))"
proof -
  let ?d = "adu_data resp"
  from response_check_accepts [OF ok] req
  have a: "response_length_check resp = None" "has_valid_crc resp" "?d ! 0 = s" "?d ! 1 = f"
    "response_data_check req resp = MODBUS_RTU_TRANSACTION_OK" by simp_all
  from a(5) f req have e: "(ucast (?d ! 2) :: u16) mod 2 = 0" and c: "q = ucast (?d ! 2) div 2"
    by (auto simp: response_data_check_def Let_def split: if_splits)
  have "unat (?d ! 2) div 2 = unat q" by (simp add: c unat_div)
  then have c': "unat (?d ! 2) \<le> 251" using q by linarith
  have "unat (adu_length resp) = 5 + unat (?d ! 2)"
    using a(1,4) f by (auto simp: response_length_check_def Let_def split: if_splits)
  moreover have "(ucast (?d ! 2) :: u16) AND 1 = 0" using e by (simp add: and_one_eq)
  ultimately show ?thesis
    using a s q c' c
    by (auto simp: decode_register_response_def Let_def word_less_nat_alt intro!: exI)
qed

lemma accepted_exception_decodes:
  assumes f: "is_legal_request_function (adu_data req ! 1)" and s: "slave_address_is_routable (adu_data req ! 0)"
    and ok: "response_check req resp = MODBUS_RTU_TRANSACTION_EXCEPTION_RESPONSE"
  shows "modbus_rtu_decode_exception_response (Some resp) (Some x) (Some y) (Some z) =
    (MODBUS_RTU_OK, Some (adu_data req ! 0), Some (adu_data req ! 1), Some (adu_data resp ! 2))"
proof -
  let ?f = "adu_data req ! 1"
  from response_check_accepts [OF ok]
  have a: "response_length_check resp = None" "has_valid_crc resp" "adu_data resp ! 0 = adu_data req ! 0"
    "adu_data resp ! 1 = ?f OR 0x80" "is_legal_exception_code (adu_data resp ! 2)" by simp_all
  note e = exception_function_roundtrip [OF f]
  have "\<not> ?f OR 0x80 \<le> 0x80" using e(2) by simp
  moreover have "adu_data resp ! 1 > 0x80" using a(4) e(2) by simp
  then have "unat (adu_length resp) = 5"
    using a(1) by (auto simp: response_length_check_def Let_def split: if_splits)
  then have "adu_length resp = 5" by (simp add: word_unat_eq_iff)
  ultimately show ?thesis
    using a s f e(1) by (simp add: modbus_rtu_decode_exception_response_def Let_def)
qed

text \<open>
  C18. Whatever the RS485 port delivers, a transaction on a validated request that reports success
  hands its caller a response the public decoder for that function accepts, with the slave address
  and the number of values of the request, and one that reports an exception response hands out a
  frame the exception decoder accepts, with the slave address and function of the request.
\<close>

theorem transaction_result_decodes:
  assumes valid: "modbus_rtu_validate_request (Some req) = MODBUS_RTU_OK"
    and t: "modbus_rtu_transact transceive (Some ch) (Some req) timeout (Some buf) = (res, Some resp)"
  shows "(res = MODBUS_RTU_TRANSACTION_OK \<and>
      adu_data req ! 1 \<in> {MODBUS_FC_READ_COILS, MODBUS_FC_READ_DISCRETE_INPUTS} \<longrightarrow>
      (\<exists>vals. length vals = unat (read_u16_be (adu_data req) 4) \<and>
         decode_bit_response (Some resp) (adu_data req ! 1) 2000 (Some x) (read_u16_be (adu_data req) 4) (Some bs)
         = (MODBUS_RTU_OK, Some (adu_data req ! 0), Some (overwrite 0 vals bs)))) \<and>
    (res = MODBUS_RTU_TRANSACTION_OK \<and>
      adu_data req ! 1 \<in> {MODBUS_FC_READ_HOLDING_REGISTERS, MODBUS_FC_READ_INPUT_REGISTERS} \<longrightarrow>
      (\<exists>vals. length vals = unat (read_u16_be (adu_data req) 4) \<and>
         decode_register_response (Some resp) (adu_data req ! 1) 125 (Some x) (read_u16_be (adu_data req) 4) (Some vs)
         = (MODBUS_RTU_OK, Some (adu_data req ! 0), Some (overwrite 0 vals vs)))) \<and>
    (res = MODBUS_RTU_TRANSACTION_EXCEPTION_RESPONSE \<longrightarrow>
      modbus_rtu_decode_exception_response (Some resp) (Some x) (Some y) (Some z)
      = (MODBUS_RTU_OK, Some (adu_data req ! 0), Some (adu_data req ! 1), Some (adu_data resp ! 2)))"
proof (intro conjI impI)
  let ?f = "adu_data req ! 1" and ?q = "read_u16_be (adu_data req) 4"
  have s: "slave_address_is_routable (adu_data req ! 0)" and l: "validate_request_length (Some req) = MODBUS_RTU_OK"
    using valid by (simp_all add: validate_request_OK)
  {
    assume r: "res = MODBUS_RTU_TRANSACTION_OK \<and> ?f \<in> {MODBUS_FC_READ_COILS, MODBUS_FC_READ_DISCRETE_INPUTS}"
    have "1 \<le> unat ?q" "unat ?q \<le> 2000" using valid r
      by (auto simp: validate_request_OK validate_address_quantity_request_def validate_address_quantity_OK_iff [simplified])
    then show "\<exists>vals. length vals = unat ?q \<and>
         decode_bit_response (Some resp) ?f 2000 (Some x) ?q (Some bs) = (MODBUS_RTU_OK, Some (adu_data req ! 0), Some (overwrite 0 vals bs))"
      using r s transact_result [OF t] by (intro accepted_bit_response_decodes) auto
  next
    assume r: "res = MODBUS_RTU_TRANSACTION_OK \<and> ?f \<in> {MODBUS_FC_READ_HOLDING_REGISTERS, MODBUS_FC_READ_INPUT_REGISTERS}"
    have "1 \<le> unat ?q" "unat ?q \<le> 125" using valid r
      by (auto simp: validate_request_OK validate_address_quantity_request_def validate_address_quantity_OK_iff [simplified])
    then show "\<exists>vals. length vals = unat ?q \<and>
         decode_register_response (Some resp) ?f 125 (Some x) ?q (Some vs) = (MODBUS_RTU_OK, Some (adu_data req ! 0), Some (overwrite 0 vals vs))"
      using r s transact_result [OF t] by (intro accepted_register_response_decodes) auto
  next
    assume r: "res = MODBUS_RTU_TRANSACTION_EXCEPTION_RESPONSE"
    have "is_legal_request_function ?f"
      using l by (auto simp: validate_length_OK Let_def is_legal_request_function_def)
    then show "modbus_rtu_decode_exception_response (Some resp) (Some x) (Some y) (Some z)
      = (MODBUS_RTU_OK, Some (adu_data req ! 0), Some ?f, Some (adu_data resp ! 2))"
      using s r transact_result [OF t] by (intro accepted_exception_decodes) auto
  }
qed

theorem transaction_result_decodes_witness:
  "\<exists>vals. length vals = 1 \<and>
     decode_register_response
       (snd (modbus_rtu_transact (\<lambda>ctx req n buf t. (MODBUS_RTU_RS485_PORT_RESULT_OK, [1, 3, 2, 0x12, 0x34, 0xB5, 0x33], 7))
          (Some \<lparr>ch_context = ()\<rparr>) (Some \<lparr>adu_length = 8, adu_data = [1, 3, 0, 0, 0, 1, 0x84, 0x0A]\<rparr>) 100
          (Some \<lparr>adu_length = 0, adu_data = []\<rparr>))) MODBUS_FC_READ_HOLDING_REGISTERS 125 (Some 0) 1 (Some [0])
     = (MODBUS_RTU_OK, Some 1, Some (overwrite 0 vals [0]))"
proof -
  let ?req = "\<lparr>adu_length = 8, adu_data = [1, 3, 0, 0, 0, 1, 0x84, 0x0A]\<rparr>"
  let ?resp = "\<lparr>adu_length = 7, adu_data = [1, 3, 2, 0x12, 0x34, 0xB5, 0x33]\<rparr>"
  have v: "modbus_rtu_validate_request (Some ?req) = MODBUS_RTU_OK" by code_simp
  have t: "modbus_rtu_transact (\<lambda>ctx req n buf t. (MODBUS_RTU_RS485_PORT_RESULT_OK, [1, 3, 2, 0x12, 0x34, 0xB5, 0x33], 7))
      (Some \<lparr>ch_context = ()\<rparr>) (Some ?req) 100 (Some \<lparr>adu_length = 0, adu_data = []\<rparr>)
    = (MODBUS_RTU_TRANSACTION_OK, Some ?resp)" by code_simp
  have q: "read_u16_be [1, 3, 0, 0, 0, 1, 0x84, 0x0A] 4 = 1" by code_simp
  show ?thesis
    using transaction_result_decodes [OF v t, of 0 "[]" "[0]" 0 0] by (simp add: t q)
qed


end
