(* ===== verification/ADU_Pool.thy ===== *)
theory ADU_Pool
  imports Modbus_RTU
begin

text \<open>
  Model of \<open>app/Modbus/src/modbus_rtu_adu_pool.c\<close>: six ADUs handed out to the TCP server and the
  collector. A pointer into \<open>pool_adus\<close> is its index. The pool mutex makes every operation one
  atomic step, so the interleavings of the tasks are the sequences of these steps.
  The locale \<open>adu_allocator\<close> states what a client may rely on; its lemmas about sequences of
  operations are inherited by the model through the interpretation \<open>pool\<close>.
\<close>

abbreviation "MODBUS_RTU_ADU_POOL_CAPACITY \<equiv> (6 :: nat)"

record adu_pool =
  pool_adus :: "modbus_rtu_adu_t list"
  pool_available :: "bool list"

definition modbus_rtu_adu_pool_init :: "adu_pool \<Rightarrow> adu_pool" where
  "modbus_rtu_adu_pool_init p =
     foldl (\<lambda>p i. p\<lparr>pool_available := (pool_available p)[i := True],
                   pool_adus := (pool_adus p)[i := (pool_adus p ! i)\<lparr>adu_length := 0\<rparr>]\<rparr>)
       p [0..<MODBUS_RTU_ADU_POOL_CAPACITY]"

text \<open>The search loop from index \<open>i\<close>, with \<open>n\<close> slots left to look at.\<close>

fun allocate_from :: "nat \<Rightarrow> nat \<Rightarrow> adu_pool \<Rightarrow> nat option \<times> adu_pool" where
  "allocate_from 0 i p = (None, p)"
| "allocate_from (Suc n) i p =
     (if pool_available p ! i then (Some i, p\<lparr>pool_available := (pool_available p)[i := False]\<rparr>)
      else allocate_from n (Suc i) p)"

definition modbus_rtu_adu_pool_allocate :: "adu_pool \<Rightarrow> nat option \<times> adu_pool" where
  "modbus_rtu_adu_pool_allocate p = allocate_from MODBUS_RTU_ADU_POOL_CAPACITY 0 p"

definition modbus_rtu_adu_pool_release :: "nat \<Rightarrow> adu_pool \<Rightarrow> adu_pool" where
  "modbus_rtu_adu_pool_release i p =
     p\<lparr>pool_adus := (pool_adus p)[i := (pool_adus p ! i)\<lparr>adu_length := 0\<rparr>],
       pool_available := (pool_available p)[i := True]\<rparr>"

text \<open>What the holder of an ADU does between the two calls: it writes through its pointer.\<close>

definition adu_write :: "nat \<Rightarrow> modbus_rtu_adu_t \<Rightarrow> adu_pool \<Rightarrow> adu_pool" where
  "adu_write i a p = p\<lparr>pool_adus := (pool_adus p)[i := a]\<rparr>"

section \<open>Invariant\<close>

definition pool_wf :: "adu_pool \<Rightarrow> bool" where
  "pool_wf p \<longleftrightarrow> length (pool_adus p) = MODBUS_RTU_ADU_POOL_CAPACITY \<and>
     length (pool_available p) = MODBUS_RTU_ADU_POOL_CAPACITY \<and> (\<forall>a \<in> set (pool_adus p). adu_wf a)"

definition free_adus :: "adu_pool \<Rightarrow> nat set" where
  "free_adus p = {i. i < MODBUS_RTU_ADU_POOL_CAPACITY \<and> pool_available p ! i}"

text \<open>A free ADU is empty: nobody but its last holder wrote to it, and \<open>release\<close> cleared its length.\<close>

definition pool_inv :: "adu_pool \<Rightarrow> bool" where
  "pool_inv p \<longleftrightarrow> pool_wf p \<and> (\<forall>i \<in> free_adus p. adu_length (pool_adus p ! i) = 0)"

section \<open>The allocator contract\<close>

datatype pool_op = Allocate | Release nat | Write nat modbus_rtu_adu_t

locale adu_allocator =
  fixes alloc :: "'p \<Rightarrow> nat option \<times> 'p" and release :: "nat \<Rightarrow> 'p \<Rightarrow> 'p"
    and store :: "nat \<Rightarrow> modbus_rtu_adu_t \<Rightarrow> 'p \<Rightarrow> 'p"
    and inv :: "'p \<Rightarrow> bool" and free :: "'p \<Rightarrow> nat set" and all :: "nat set"
  assumes free_subset: "inv p \<Longrightarrow> free p \<subseteq> all"
    and alloc_Some: "inv p \<Longrightarrow> alloc p = (Some i, p') \<Longrightarrow> i \<in> free p \<and> free p' = free p - {i} \<and> inv p'"
    and alloc_None: "inv p \<Longrightarrow> alloc p = (None, p') \<Longrightarrow> free p = {} \<and> p' = p"
    and release_free: "inv p \<Longrightarrow> i \<in> all \<Longrightarrow> inv (release i p) \<and> free (release i p) = insert i (free p)"
    and store_free: "inv p \<Longrightarrow> i \<in> all - free p \<Longrightarrow> adu_wf a \<Longrightarrow> inv (store i a p) \<and> free (store i a p) = free p"
begin

text \<open>
  Running a sequence of operations with the set of ADUs the tasks hold. A task releases and writes
  only what it holds; an operation that breaks this rule ends the run.
\<close>

fun run_ops :: "pool_op list \<Rightarrow> 'p \<Rightarrow> nat set \<Rightarrow> ('p \<times> nat set) option" where
  "run_ops [] p held = Some (p, held)"
| "run_ops (Allocate # ops) p held =
     (case alloc p of (None, p') \<Rightarrow> run_ops ops p' held | (Some i, p') \<Rightarrow> run_ops ops p' (insert i held))"
| "run_ops (Release i # ops) p held = (if i \<in> held then run_ops ops (release i p) (held - {i}) else None)"
| "run_ops (Write i a # ops) p held = (if i \<in> held \<and> adu_wf a then run_ops ops (store i a p) held else None)"

lemma run_ops_partition:
  "run_ops ops p held = Some (p', held') \<Longrightarrow> inv p \<Longrightarrow> held = all - free p \<Longrightarrow>
   inv p' \<and> held' = all - free p'"
proof (induction ops arbitrary: p held)
  case (Cons x ops)
  show ?case
  proof (cases x)
    case Allocate
    obtain r q where a: "alloc p = (r, q)" by fastforce
    show ?thesis
    proof (cases r)
      case None
      then have "q = p" using alloc_None [of p q] a Cons.prems by simp
      then show ?thesis using Cons.IH [of p held] Cons.prems a Allocate None by simp
    next
      case (Some i)
      then have "i \<in> free p" "free q = free p - {i}" "inv q"
        using alloc_Some [of p i q] a Cons.prems by simp_all
      moreover from this have "insert i held = all - free q"
        using free_subset [of p] Cons.prems by auto
      ultimately show ?thesis using Cons.IH [of q "insert i held"] Cons.prems a Allocate Some by simp
    qed
  next
    case (Release i)
    then have i: "i \<in> held" using Cons.prems by (simp split: if_splits)
    then have "inv (release i p)" "free (release i p) = insert i (free p)"
      using release_free [of p i] Cons.prems by auto
    moreover from this have "held - {i} = all - free (release i p)" using Cons.prems by auto
    ultimately show ?thesis using Cons.IH [of "release i p" "held - {i}"] Cons.prems Release i by simp
  next
    case (Write i a)
    then have i: "i \<in> held" "adu_wf a" using Cons.prems by (simp_all split: if_splits)
    then have "inv (store i a p)" "free (store i a p) = free p"
      using store_free [of p i a] Cons.prems by auto
    then show ?thesis using Cons.IH [of "store i a p" held] Cons.prems Write i by simp
  qed
qed simp

lemma next_allocation:
  assumes "run_ops ops p held = Some (p', held')" "inv p" "held = all - free p"
  shows "(case fst (alloc p') of None \<Rightarrow> held' = all | Some i \<Rightarrow> i \<in> all \<and> i \<notin> held')"
proof -
  have q: "inv p'" "held' = all - free p'" using run_ops_partition [OF assms] by simp_all
  obtain r p'' where a: "alloc p' = (r, p'')" by fastforce
  show ?thesis
    using q alloc_None [of p' p''] alloc_Some [of p' _ p''] free_subset [of p'] a by (cases r) auto
qed

end

section \<open>The model meets the contract\<close>

lemma allocate_from_cases:
  assumes "allocate_from n i p = (r, p')"
  shows "(case r of
            None \<Rightarrow> p' = p \<and> (\<forall>k. i \<le> k \<and> k < i + n \<longrightarrow> \<not> pool_available p ! k)
          | Some k \<Rightarrow> i \<le> k \<and> k < i + n \<and> pool_available p ! k \<and>
                      p' = p\<lparr>pool_available := (pool_available p)[k := False]\<rparr>)"
  using assms
proof (induction n arbitrary: i)
  case (Suc n)
  show ?case
  proof (cases "pool_available p ! i")
    case False
    then have "allocate_from n (Suc i) p = (r, p')" using Suc.prems by simp
    from Suc.IH [OF this] False show ?thesis
      by (auto split: option.splits) (metis le_antisym not_less_eq_eq)
  qed (use Suc.prems in auto)
qed auto

interpretation pool: adu_allocator modbus_rtu_adu_pool_allocate modbus_rtu_adu_pool_release adu_write
  pool_inv free_adus "{0..<6}"
proof
  fix p i p'
  assume p: "pool_inv p" and a: "modbus_rtu_adu_pool_allocate p = (Some i, p')"
  from allocate_from_cases [OF a [unfolded modbus_rtu_adu_pool_allocate_def]]
  show "i \<in> free_adus p \<and> free_adus p' = free_adus p - {i} \<and> pool_inv p'"
    using p by (auto simp: free_adus_def pool_inv_def pool_wf_def nth_list_update)
next
  fix p p'
  assume p: "pool_inv p" and a: "modbus_rtu_adu_pool_allocate p = (None, p')"
  from allocate_from_cases [OF a [unfolded modbus_rtu_adu_pool_allocate_def]]
  show "free_adus p = {} \<and> p' = p" by (auto simp: free_adus_def)
next
  fix p and i :: nat
  assume "pool_inv p" "i \<in> {0..<6}"
  then show "pool_inv (modbus_rtu_adu_pool_release i p) \<and>
      free_adus (modbus_rtu_adu_pool_release i p) = insert i (free_adus p)"
    by (auto simp: pool_inv_def pool_wf_def free_adus_def modbus_rtu_adu_pool_release_def nth_list_update
        adu_wf_def dest!: set_update_subset_insert [THEN subsetD])
next
  fix p i a
  assume "pool_inv p" "i \<in> {0..<6} - free_adus p" "adu_wf a"
  then show "pool_inv (adu_write i a p) \<and> free_adus (adu_write i a p) = free_adus p"
    by (auto simp: pool_inv_def pool_wf_def free_adus_def adu_write_def nth_list_update
        dest!: set_update_subset_insert [THEN subsetD])
qed (auto simp: free_adus_def)

lemma pool_init:
  assumes "pool_wf p"
  shows "pool_inv (modbus_rtu_adu_pool_init p)" "free_adus (modbus_rtu_adu_pool_init p) = {0..<6}"
proof -
  obtain a b c d e f where p: "pool_adus p = [a, b, c, d, e, f]"
    using assms by (auto simp: pool_wf_def numeral_eq_Suc length_Suc_conv)
  obtain a' b' c' d' e' f' where q: "pool_available p = [a', b', c', d', e', f']"
    using assms by (auto simp: pool_wf_def numeral_eq_Suc length_Suc_conv)
  have i: "modbus_rtu_adu_pool_init p = p\<lparr>pool_available := replicate 6 True,
      pool_adus := map (\<lambda>a. a\<lparr>adu_length := 0\<rparr>) (pool_adus p)\<rparr>"
    using p q by (simp add: modbus_rtu_adu_pool_init_def upt_rec numeral_eq_Suc)
  show "pool_inv (modbus_rtu_adu_pool_init p)" "free_adus (modbus_rtu_adu_pool_init p) = {0..<6}"
    using assms unfolding i by (auto simp: pool_inv_def pool_wf_def free_adus_def adu_wf_def)
qed

text \<open>
  ADU ownership: after initialisation and any sequence of pool operations in which tasks release
  and write only what they hold, the held and the free ADUs partition the six of the pool; the next
  allocation hands out an ADU no task holds, with length zero, and fails only when all six are held.
\<close>

theorem adu_pool_ownership:
  assumes "pool_wf p"
    and "pool.run_ops ops (modbus_rtu_adu_pool_init p) {} = Some (p', held)"
  shows "held \<union> free_adus p' = {0..<6} \<and> held \<inter> free_adus p' = {} \<and>
    (case fst (modbus_rtu_adu_pool_allocate p') of
       None \<Rightarrow> held = {0..<6}
     | Some i \<Rightarrow> i < 6 \<and> i \<notin> held \<and> adu_length (pool_adus p' ! i) = 0)"
proof -
  let ?p0 = "modbus_rtu_adu_pool_init p"
  have e: "{} = {0..<6} - free_adus ?p0" using pool_init(2) [OF assms(1)] by simp
  note inv0 = pool_init(1) [OF assms(1)]
  have q: "pool_inv p'" "held = {0..<6} - free_adus p'"
    using pool.run_ops_partition [OF assms(2) inv0 e] by simp_all
  obtain r p'' where a: "modbus_rtu_adu_pool_allocate p' = (r, p'')" by fastforce
  have "adu_length (pool_adus p' ! i) = 0" if "r = Some i" for i
    using pool.alloc_Some [OF q(1) a [unfolded that]] q(1) by (simp add: pool_inv_def)
  then show ?thesis
    using q pool.next_allocation [OF assms(2) inv0 e] pool.free_subset [OF q(1)] a
    by (auto split: option.splits)
qed

theorem adu_pool_ownership_witness:
  "\<exists>p' held. pool.run_ops [Allocate, Allocate, Release 0, Allocate]
      (modbus_rtu_adu_pool_init \<lparr>pool_adus = replicate 6 \<lparr>adu_length = 9, adu_data = replicate 256 0\<rparr>,
        pool_available = replicate 6 False\<rparr>) {} = Some (p', held) \<and>
    held \<union> free_adus p' = {0..<6} \<and> held \<inter> free_adus p' = {}"
proof -
  let ?p = "\<lparr>pool_adus = replicate 6 \<lparr>adu_length = 9, adu_data = replicate 256 0\<rparr>,
        pool_available = replicate 6 False\<rparr>"
  let ?ops = "[Allocate, Allocate, Release 0, Allocate]"
  have wf: "pool_wf ?p" by (simp add: pool_wf_def adu_wf_def)
  obtain p' held where r: "pool.run_ops ?ops (modbus_rtu_adu_pool_init ?p) {} = Some (p', held)"
    by (simp add: modbus_rtu_adu_pool_init_def upt_rec numeral_eq_Suc
        modbus_rtu_adu_pool_allocate_def modbus_rtu_adu_pool_release_def)
  from adu_pool_ownership [OF wf r] r show ?thesis by blast
qed

end
