(* ===== verification/RTU_Scheduler.thy ===== *)
theory RTU_Scheduler
  imports ADU_Pool
begin

text \<open>
  Model of \<open>app/Modbus/src/modbus_rtu_transaction_scheduler.c\<close>: one task takes requests from a
  high-priority and a low-priority queue, runs each on the RS485 bus and answers on the response
  queue of the same priority.
  The FreeRTOS objects the task uses are the record \<open>rtos\<close>: queues are FIFO lists with a capacity,
  and a send to a member of the queue set also appends the member's handle to the set, as FreeRTOS
  does. One iteration of the task loop is one step: a send by another task while the task blocks or
  drains the queue set has the effect of a send before the step, because the drain continues until
  the set is empty, and a send after the drain that of a send after the step.
\<close>

section \<open>Data\<close>

record modbus_rtu_transaction_scheduler_request_t =
  rq_token :: u32
  rq_response_timeout_ms :: u32
  rq_rtu_adu :: nat

record modbus_rtu_transaction_scheduler_response_t =
  rs_token :: u32
  rs_result :: modbus_rtu_transaction_result_t
  rs_rtu_adu :: nat

datatype modbus_rtu_transaction_scheduler_priority_t =
    MODBUS_RTU_TRANSACTION_SCHEDULER_PRIORITY_HIGH
  | MODBUS_RTU_TRANSACTION_SCHEDULER_PRIORITY_LOW

type_synonym QueueHandle_t = nat
type_synonym request_t = modbus_rtu_transaction_scheduler_request_t
type_synonym response_t = modbus_rtu_transaction_scheduler_response_t

record 'ctx modbus_rtu_transaction_scheduler_t =
  rtu_channel :: "'ctx modbus_rtu_channel_t ptr"
  hp_request_queue :: "QueueHandle_t ptr"
  hp_response_queue :: "QueueHandle_t ptr"
  lp_request_queue :: "QueueHandle_t ptr"
  lp_response_queue :: "QueueHandle_t ptr"
  request_queue_set :: "unit ptr"
  consecutive_high_request_count :: u8
  task_handle :: "unit ptr"

record rtos =
  request_queues :: "QueueHandle_t \<Rightarrow> request_t list"
  response_queues :: "QueueHandle_t \<Rightarrow> response_t list"
  queue_capacity :: "QueueHandle_t \<Rightarrow> nat"
  queue_set :: "(nat \<times> QueueHandle_t list) option"
  set_pending :: "QueueHandle_t list"
  watchdog_events :: u32

abbreviation "MODBUS_RTU_TRANSACTION_SCHEDULER_MAX_CONSECUTIVE_HIGH_REQUESTS \<equiv> (2 :: u8)"

section \<open>The FreeRTOS calls\<close>

definition xQueueSend_request :: "QueueHandle_t \<Rightarrow> request_t \<Rightarrow> rtos \<Rightarrow> bool \<times> rtos" where
  "xQueueSend_request h r k =
     (if length (request_queues k h) < queue_capacity k h
      then (True, k\<lparr>request_queues := (request_queues k)(h := request_queues k h @ [r]),
                    set_pending := set_pending k @ [h]\<rparr>)
      else (False, k))"

text \<open>A receive without waiting; the item is left as it is when the queue is empty.\<close>

definition xQueueReceive_request :: "QueueHandle_t ptr \<Rightarrow> request_t \<Rightarrow> rtos \<Rightarrow> request_t \<times> rtos" where
  "xQueueReceive_request p r k =
     (case p of
        None \<Rightarrow> (r, k)
      | Some h \<Rightarrow> (case request_queues k h of
            [] \<Rightarrow> (r, k)
          | x # xs \<Rightarrow> (x, k\<lparr>request_queues := (request_queues k)(h := xs)\<rparr>)))"

definition xQueueSend_response :: "QueueHandle_t \<Rightarrow> response_t \<Rightarrow> rtos \<Rightarrow> rtos" where
  "xQueueSend_response h r k =
     k\<lparr>response_queues := (response_queues k)(h := response_queues k h @ [r])\<rparr>"

text \<open>A queue joins the set only when it is empty and not yet a member.\<close>

definition xQueueAddToSet :: "QueueHandle_t ptr \<Rightarrow> rtos \<Rightarrow> bool \<times> rtos" where
  "xQueueAddToSet p k =
     (case (p, queue_set k) of
        (Some h, Some (n, ms)) \<Rightarrow>
          if h \<in> set ms \<or> request_queues k h \<noteq> [] then (False, k)
          else (True, k\<lparr>queue_set := Some (n, ms @ [h])\<rparr>)
      | _ \<Rightarrow> (False, k))"

definition xQueueRemoveFromSet :: "QueueHandle_t ptr \<Rightarrow> rtos \<Rightarrow> rtos" where
  "xQueueRemoveFromSet p k =
     (case (p, queue_set k) of
        (Some h, Some (n, ms)) \<Rightarrow> k\<lparr>queue_set := Some (n, removeAll h ms)\<rparr>
      | _ \<Rightarrow> k)"

definition uxQueueSpacesAvailable :: "QueueHandle_t ptr \<Rightarrow> rtos \<Rightarrow> nat" where
  "uxQueueSpacesAvailable p k =
     (case p of None \<Rightarrow> 0 | Some h \<Rightarrow> queue_capacity k h - length (request_queues k h))"

definition watchdog_report :: "u32 \<Rightarrow> rtos \<Rightarrow> rtos" where
  "watchdog_report task_bit k = k\<lparr>watchdog_events := watchdog_events k OR task_bit\<rparr>"

abbreviation "WATCHDOG_EVENT_RTU_SCHEDULER \<equiv> (1 :: u32)"

section \<open>Selecting the next transaction\<close>

text \<open>The \<open>while\<close> loop over \<open>xQueueSelectFromSet\<close>, which pops the set until it is empty.\<close>

fun count_selected :: "QueueHandle_t ptr \<Rightarrow> QueueHandle_t list \<Rightarrow> u32 \<Rightarrow> u32 \<Rightarrow> u32 \<times> u32" where
  "count_selected hp [] high low = (high, low)"
| "count_selected hp (q # qs) high low =
     (if Some q = hp then count_selected hp qs (high + 1) low
      else count_selected hp qs high (low + 1))"

definition select_available_request_queues ::
  "'ctx modbus_rtu_transaction_scheduler_t \<Rightarrow> rtos \<Rightarrow> u32 \<Rightarrow> u32 \<Rightarrow> rtos \<times> u32 \<times> u32" where
  "select_available_request_queues s k high low =
     (let (high', low') = count_selected (hp_request_queue s) (set_pending k) high low
      in (k\<lparr>set_pending := []\<rparr>, high', low'))"

definition receive_next_transaction ::
  "'ctx modbus_rtu_transaction_scheduler_t \<Rightarrow> rtos \<Rightarrow> request_t \<Rightarrow> u32 \<Rightarrow> u32 \<Rightarrow>
   QueueHandle_t ptr \<times> 'ctx modbus_rtu_transaction_scheduler_t \<times> rtos \<times> request_t \<times> u32 \<times> u32" where
  "receive_next_transaction s k request high low =
     (let (k1, high1, low1) = select_available_request_queues s k high low in
      if high1 = 0 \<and> low1 = 0 then (None, s, k1, request, high1, low1)
      else if high1 > 0 \<and>
          (consecutive_high_request_count s < MODBUS_RTU_TRANSACTION_SCHEDULER_MAX_CONSECUTIVE_HIGH_REQUESTS \<or>
           low1 = 0)
      then let s' = (if consecutive_high_request_count s < 255
                     then s\<lparr>consecutive_high_request_count := consecutive_high_request_count s + 1\<rparr> else s);
               (r, k2) = xQueueReceive_request (hp_request_queue s) request k1
           in (hp_response_queue s, s', k2, r, high1 - 1, low1)
      else let s' = s\<lparr>consecutive_high_request_count := 0\<rparr>;
               (r, k2) = xQueueReceive_request (lp_request_queue s) request k1
           in (lp_response_queue s, s', k2, r, high1, low1 - 1))"

section \<open>The task\<close>

text \<open>The task's state: the scheduler object, the kernel, the ADUs and the two counters kept across iterations.\<close>

record 'ctx sched_system =
  sched :: "'ctx modbus_rtu_transaction_scheduler_t"
  kernel :: rtos
  adus :: adu_pool
  selected_high_request_count :: u32
  selected_low_request_count :: u32

text \<open>
  One iteration of the loop. \<open>temporary_response\<close> and \<open>request0\<close> are the stack cells with whatever
  they held; the result also says whether a recovery delay follows.
\<close>

definition transaction_scheduler_iteration ::
  "'ctx rs485_transceive \<Rightarrow> modbus_rtu_adu_t \<Rightarrow> request_t \<Rightarrow> 'ctx sched_system \<Rightarrow> bool \<times> 'ctx sched_system" where
  "transaction_scheduler_iteration transceive temporary_response request0 sys =
     (case receive_next_transaction (sched sys) (watchdog_report WATCHDOG_EVENT_RTU_SCHEDULER (kernel sys)) request0
             (selected_high_request_count sys) (selected_low_request_count sys) of
        (response_queue, s, k, request, high, low) \<Rightarrow>
          let sys1 = sys\<lparr>sched := s, kernel := k, selected_high_request_count := high,
                         selected_low_request_count := low\<rparr> in
          (case response_queue of
             None \<Rightarrow> (False, sys1)
           | Some rq \<Rightarrow>
               let adu = pool_adus (adus sys) ! rq_rtu_adu request;
                   (result, tmp) = modbus_rtu_transact transceive (rtu_channel s) (Some adu)
                                     (rq_response_timeout_ms request) (Some temporary_response);
                   t = the tmp;
                   response = \<lparr>rs_token = rq_token request, rs_result = result, rs_rtu_adu = rq_rtu_adu request\<rparr>;
                   adu' = (if result = MODBUS_RTU_TRANSACTION_OK \<or>
                              result = MODBUS_RTU_TRANSACTION_EXCEPTION_RESPONSE
                           then \<lparr>adu_length = adu_length t,
                                 adu_data = overwrite 0 (take (unat (adu_length t)) (adu_data t)) (adu_data adu)\<rparr>
                           else adu)
               in (result = MODBUS_RTU_TRANSACTION_ADAPTER_IO_ERROR,
                   sys1\<lparr>kernel := xQueueSend_response rq response k,
                        adus := adu_write (rq_rtu_adu request) adu' (adus sys)\<rparr>)))"

section \<open>Set-up\<close>

definition modbus_rtu_transaction_scheduler_init ::
  "'ctx modbus_rtu_transaction_scheduler_t \<Rightarrow> 'ctx modbus_rtu_channel_t ptr \<Rightarrow> 'ctx modbus_rtu_transaction_scheduler_t" where
  "modbus_rtu_transaction_scheduler_init s channel =
     s\<lparr>rtu_channel := channel, hp_request_queue := None, hp_response_queue := None,
       lp_request_queue := None, lp_response_queue := None, request_queue_set := None,
       task_handle := None, consecutive_high_request_count := 0\<rparr>"

definition modbus_rtu_transaction_scheduler_bind_queue ::
  "'ctx modbus_rtu_transaction_scheduler_t \<Rightarrow> modbus_rtu_transaction_scheduler_priority_t \<Rightarrow>
   QueueHandle_t ptr \<Rightarrow> QueueHandle_t ptr \<Rightarrow> 'ctx modbus_rtu_transaction_scheduler_t" where
  "modbus_rtu_transaction_scheduler_bind_queue s priority request_queue response_queue =
     (case priority of
        MODBUS_RTU_TRANSACTION_SCHEDULER_PRIORITY_HIGH \<Rightarrow>
          s\<lparr>hp_request_queue := request_queue, hp_response_queue := response_queue\<rparr>
      | MODBUS_RTU_TRANSACTION_SCHEDULER_PRIORITY_LOW \<Rightarrow>
          s\<lparr>lp_request_queue := request_queue, lp_response_queue := response_queue\<rparr>)"

text \<open>\<open>set_created\<close> and \<open>task_created\<close> are the outcomes of the two allocations.\<close>

definition modbus_rtu_transaction_scheduler_start ::
  "bool \<Rightarrow> bool \<Rightarrow> 'ctx modbus_rtu_transaction_scheduler_t \<Rightarrow> rtos \<Rightarrow>
   'ctx modbus_rtu_transaction_scheduler_t \<times> rtos" where
  "modbus_rtu_transaction_scheduler_start set_created task_created s k =
     (let request_queue_set_length =
            uxQueueSpacesAvailable (hp_request_queue s) k + uxQueueSpacesAvailable (lp_request_queue s) k in
      if \<not> set_created then (s\<lparr>request_queue_set := None\<rparr>, k)
      else let s1 = s\<lparr>request_queue_set := Some ()\<rparr>;
               k1 = k\<lparr>queue_set := Some (request_queue_set_length, []), set_pending := []\<rparr>;
               (ok1, k2) = xQueueAddToSet (hp_request_queue s) k1 in
        if \<not> ok1 then (s1\<lparr>request_queue_set := None\<rparr>, k2\<lparr>queue_set := None\<rparr>)
        else let (ok2, k3) = xQueueAddToSet (lp_request_queue s) k2 in
          if \<not> ok2
          then (s1\<lparr>request_queue_set := None\<rparr>,
                (xQueueRemoveFromSet (hp_request_queue s) k3)\<lparr>queue_set := None\<rparr>)
          else let s2 = s1\<lparr>task_handle := (if task_created then Some () else None)\<rparr> in
            if task_handle s2 = None
            then (s2\<lparr>request_queue_set := None\<rparr>,
                  (xQueueRemoveFromSet (lp_request_queue s)
                     (xQueueRemoveFromSet (hp_request_queue s) k3))\<lparr>queue_set := None\<rparr>)
            else (s2, k3))"


section \<open>Abstract specification\<close>

text \<open>
  What the scheduler promises, without queue sets and counters: two FIFO queues and the number of
  high-priority requests (counted up to two) served since the last low-priority one.
\<close>

record sched_spec =
  spec_high :: "request_t list"
  spec_low :: "request_t list"
  spec_credit :: nat

definition spec_serve :: "sched_spec \<Rightarrow> (modbus_rtu_transaction_scheduler_priority_t \<times> request_t \<times> sched_spec) option" where
  "spec_serve a =
     (case (spec_high a, spec_low a) of
        ([], []) \<Rightarrow> None
      | (r # rs, []) \<Rightarrow>
          Some (MODBUS_RTU_TRANSACTION_SCHEDULER_PRIORITY_HIGH, r,
                a\<lparr>spec_high := rs, spec_credit := min 2 (spec_credit a + 1)\<rparr>)
      | ([], q # qs) \<Rightarrow>
          Some (MODBUS_RTU_TRANSACTION_SCHEDULER_PRIORITY_LOW, q, a\<lparr>spec_low := qs, spec_credit := 0\<rparr>)
      | (r # rs, q # qs) \<Rightarrow>
          if spec_credit a < 2
          then Some (MODBUS_RTU_TRANSACTION_SCHEDULER_PRIORITY_HIGH, r,
                     a\<lparr>spec_high := rs, spec_credit := min 2 (spec_credit a + 1)\<rparr>)
          else Some (MODBUS_RTU_TRANSACTION_SCHEDULER_PRIORITY_LOW, q, a\<lparr>spec_low := qs, spec_credit := 0\<rparr>))"

text \<open>The queues the scheduler was bound to, and the abstraction of its state.\<close>

record bound_queues =
  hq :: QueueHandle_t
  hr :: QueueHandle_t
  lq :: QueueHandle_t
  lr :: QueueHandle_t

definition sched_abs :: "bound_queues \<Rightarrow> 'ctx sched_system \<Rightarrow> sched_spec" where
  "sched_abs b sys =
     \<lparr>spec_high = request_queues (kernel sys) (hq b), spec_low = request_queues (kernel sys) (lq b),
      spec_credit = min 2 (unat (consecutive_high_request_count (sched sys)))\<rparr>"

text \<open>
  The invariant of the running task: every queued request is accounted for exactly once, either by
  a handle still in the queue set or by the counter of its priority.
\<close>

definition sched_inv :: "bound_queues \<Rightarrow> 'ctx sched_system \<Rightarrow> bool" where
  "sched_inv b sys \<longleftrightarrow>
     hp_request_queue (sched sys) = Some (hq b) \<and> lp_request_queue (sched sys) = Some (lq b) \<and>
     hp_response_queue (sched sys) = Some (hr b) \<and> lp_response_queue (sched sys) = Some (lr b) \<and>
     hq b \<noteq> lq b \<and> hr b \<noteq> lr b \<and> set (set_pending (kernel sys)) \<subseteq> {hq b, lq b} \<and>
     unat (selected_high_request_count sys) + count_list (set_pending (kernel sys)) (hq b)
       = length (request_queues (kernel sys) (hq b)) \<and>
     unat (selected_low_request_count sys) + count_list (set_pending (kernel sys)) (lq b)
       = length (request_queues (kernel sys) (lq b)) \<and>
     length (request_queues (kernel sys) (hq b)) \<le> queue_capacity (kernel sys) (hq b) \<and>
     length (request_queues (kernel sys) (lq b)) \<le> queue_capacity (kernel sys) (lq b) \<and>
     queue_capacity (kernel sys) (hq b) < 2 ^ 32 \<and> queue_capacity (kernel sys) (lq b) < 2 ^ 32"

section \<open>Refinement\<close>

lemma count_selected_unat:
  assumes "set qs \<subseteq> {h, l}" "h \<noteq> l" "unat a + count_list qs h < 2 ^ 32" "unat b + count_list qs l < 2 ^ 32"
    "count_selected (Some h) qs a b = (a', b')"
  shows "unat a' = unat a + count_list qs h \<and> unat b' = unat b + count_list qs l"
  using assms
proof (induction qs arbitrary: a b)
  case (Cons q qs)
  show ?case
  proof (cases "q = h")
    case True
    have "unat (a + 1) = unat a + 1"
      using Cons.prems(3) True by (subst unat_plus_small) simp_all
    then show ?thesis using Cons.IH [of "a + 1" b] Cons.prems True by simp
  next
    case False
    then have "q = l" using Cons.prems by simp
    moreover from this have "unat (b + 1) = unat b + 1"
      using Cons.prems(4) by (subst unat_plus_small) simp_all
    ultimately show ?thesis using Cons.IH [of a "b + 1"] Cons.prems False by simp
  qed
qed simp

lemma select_counts:
  assumes "sched_inv b sys"
    "select_available_request_queues (sched sys) (kernel sys) (selected_high_request_count sys)
       (selected_low_request_count sys) = (k, high, low)"
  shows "k = (kernel sys)\<lparr>set_pending := []\<rparr>"
    "unat high = length (request_queues (kernel sys) (hq b))"
    "unat low = length (request_queues (kernel sys) (lq b))"
proof -
  from assms(2) show "k = (kernel sys)\<lparr>set_pending := []\<rparr>"
    by (simp add: select_available_request_queues_def Let_def split: prod.splits)
  have "count_selected (Some (hq b)) (set_pending (kernel sys)) (selected_high_request_count sys)
       (selected_low_request_count sys) = (high, low)"
    using assms by (auto simp: select_available_request_queues_def sched_inv_def Let_def split: prod.splits)
  from count_selected_unat [OF _ _ _ _ this, of "lq b"] assms(1)
  show "unat high = length (request_queues (kernel sys) (hq b))"
    "unat low = length (request_queues (kernel sys) (lq b))"
    by (simp_all add: sched_inv_def)
qed

lemma unat_zero_length: "unat w = length xs \<Longrightarrow> w = 0 \<longleftrightarrow> xs = []"
  by (metis length_0_conv unat_eq_0)

lemma unat_pred: "0 < unat w \<Longrightarrow> unat (w - 1) = unat w - 1" for w :: "'a::len word"
  by (simp add: unat_sub word_le_nat_alt)

text \<open>The credit the specification keeps is the counter cut at two; saturation at 255 does not show.\<close>

lemma credit_increment:
  "min 2 (unat (if c < 255 then c + 1 else c :: u8)) = min 2 (min 2 (unat c) + 1)"
proof (cases "c < 255")
  case True
  then have "unat (c + 1) = unat c + 1"
    by (subst unat_plus_small) (simp_all add: word_less_nat_alt)
  then show ?thesis using True by simp
next
  case False
  then show ?thesis by (simp add: word_less_nat_alt)
qed

text \<open>What one call of \<open>receive_next_transaction\<close> does, in terms of the specification.\<close>

lemma receive_next_refines:
  assumes inv: "sched_inv b sys"
    and r: "receive_next_transaction (sched sys) (kernel sys) request0 (selected_high_request_count sys)
      (selected_low_request_count sys) = (rq, s, k, request, high, low)"
    and sys': "sys' = sys\<lparr>sched := s, kernel := k, selected_high_request_count := high, selected_low_request_count := low\<rparr>"
  shows "sched_inv b sys' \<and> response_queues k = response_queues (kernel sys) \<and> rtu_channel s = rtu_channel (sched sys) \<and>
    (case spec_serve (sched_abs b sys) of
       None \<Rightarrow> rq = None \<and> sched_abs b sys' = sched_abs b sys
     | Some (prio, x, a) \<Rightarrow>
         rq = Some (if prio = MODBUS_RTU_TRANSACTION_SCHEDULER_PRIORITY_HIGH then hr b else lr b) \<and>
         request = x \<and> sched_abs b sys' = a)"
proof -
  let ?H = "request_queues (kernel sys) (hq b)" and ?L = "request_queues (kernel sys) (lq b)"
  obtain k1 h1 l1 where sel: "select_available_request_queues (sched sys) (kernel sys)
      (selected_high_request_count sys) (selected_low_request_count sys) = (k1, h1, l1)"
    by (metis prod_cases3)
  note c = select_counts [OF inv sel]
  note z = unat_zero_length [OF c(2)] unat_zero_length [OF c(3)]
  have hpos: "0 < h1 \<longleftrightarrow> ?H \<noteq> []" using z(1) by (simp add: word_gt_0)
  have cr: "consecutive_high_request_count (sched sys) < 2 \<longleftrightarrow>
      min 2 (unat (consecutive_high_request_count (sched sys))) < 2"
    by (simp add: word_less_nat_alt min_def)
  note rd = r [unfolded receive_next_transaction_def Let_def sel split]
  show ?thesis
  proof (cases "?H = [] \<and> ?L = []")
    case True
    then show ?thesis
      using rd z c(1) inv sel c(2,3) sys'
      by (auto simp: spec_serve_def sched_abs_def sched_inv_def)
  next
    case ne: False
    show ?thesis
    proof (cases "?H \<noteq> [] \<and> (consecutive_high_request_count (sched sys) < 2 \<or> ?L = [])")
      case True
      then obtain x xs where H: "?H = x # xs" by (cases ?H) auto
      have h: "unat (h1 - 1) = length xs" using c(2) H by (simp add: unat_pred)
      have eqs: "rq = hp_response_queue (sched sys)" "request = x" "high = h1 - 1" "low = l1"
        "k = (kernel sys)\<lparr>set_pending := [], request_queues := (request_queues (kernel sys))(hq b := xs)\<rparr>"
        "s = (sched sys)\<lparr>consecutive_high_request_count :=
           (if consecutive_high_request_count (sched sys) < 255
            then consecutive_high_request_count (sched sys) + 1 else consecutive_high_request_count (sched sys))\<rparr>"
        using rd z hpos True H c(1) inv
        by (auto simp: xQueueReceive_request_def sched_inv_def split: if_splits)
      have "spec_serve (sched_abs b sys) = Some (MODBUS_RTU_TRANSACTION_SCHEDULER_PRIORITY_HIGH, x,
          (sched_abs b sys)\<lparr>spec_high := xs, spec_credit := min 2 (spec_credit (sched_abs b sys) + 1)\<rparr>)"
        using True H cr by (auto simp: spec_serve_def sched_abs_def split: list.splits)
      moreover have "sched_inv b sys'"
        using inv H h c(3) by (simp add: sys' eqs sched_inv_def)
      ultimately show ?thesis
        using inv credit_increment [of "consecutive_high_request_count (sched sys)"]
        by (simp add: sys' eqs sched_abs_def sched_inv_def)
    next
      case False
      then obtain x xs where L: "?L = x # xs" using ne by (cases ?L) auto
      have l: "unat (l1 - 1) = length xs" using c(3) L by (simp add: unat_pred)
      have eqs: "rq = lp_response_queue (sched sys)" "request = x" "high = h1" "low = l1 - 1"
        "k = (kernel sys)\<lparr>set_pending := [], request_queues := (request_queues (kernel sys))(lq b := xs)\<rparr>"
        "s = (sched sys)\<lparr>consecutive_high_request_count := 0\<rparr>"
        using rd z hpos False L c(1) inv
        by (auto simp: xQueueReceive_request_def sched_inv_def split: if_splits)
      have "spec_serve (sched_abs b sys) = Some (MODBUS_RTU_TRANSACTION_SCHEDULER_PRIORITY_LOW, x,
          (sched_abs b sys)\<lparr>spec_low := xs, spec_credit := 0\<rparr>)"
        using False L cr by (auto simp: spec_serve_def sched_abs_def split: list.splits)
      moreover have "sched_inv b sys'"
        using inv L l c(2) by (simp add: sys' eqs sched_inv_def)
      ultimately show ?thesis
        using inv by (simp add: sys' eqs sched_abs_def sched_inv_def)
    qed
  qed
qed


lemma iteration_step_raw:
  assumes inv: "sched_inv b sys"
    and it: "transaction_scheduler_iteration transceive tmp request0 sys = (delay, sys')"
  shows "sched_inv b sys' \<and>
    (case spec_serve (sched_abs b sys) of
       None \<Rightarrow> sched_abs b sys' = sched_abs b sys \<and> adus sys' = adus sys \<and>
         response_queues (kernel sys') = response_queues (kernel sys) \<and> \<not> delay
     | Some (prio, r, a) \<Rightarrow>
         sched_abs b sys' = a \<and>
         (let q = (if prio = MODBUS_RTU_TRANSACTION_SCHEDULER_PRIORITY_HIGH then hr b else lr b);
              adu = pool_adus (adus sys) ! rq_rtu_adu r;
              (result, t) = modbus_rtu_transact transceive (rtu_channel (sched sys)) (Some adu)
                              (rq_response_timeout_ms r) (Some tmp)
          in response_queues (kernel sys') = (response_queues (kernel sys))
               (q := response_queues (kernel sys) q @
                  [\<lparr>rs_token = rq_token r, rs_result = result, rs_rtu_adu = rq_rtu_adu r\<rparr>]) \<and>
             (delay \<longleftrightarrow> result = MODBUS_RTU_TRANSACTION_ADAPTER_IO_ERROR) \<and>
             adus sys' = adu_write (rq_rtu_adu r)
               (if result = MODBUS_RTU_TRANSACTION_OK \<or> result = MODBUS_RTU_TRANSACTION_EXCEPTION_RESPONSE
                then \<lparr>adu_length = adu_length (the t),
                      adu_data = overwrite 0 (take (unat (adu_length (the t))) (adu_data (the t))) (adu_data adu)\<rparr>
                else adu) (adus sys)))"
proof -
  let ?k0 = "watchdog_report WATCHDOG_EVENT_RTU_SCHEDULER (kernel sys)"
  let ?sys0 = "sys\<lparr>kernel := ?k0\<rparr>"
  have inv0: "sched_inv b ?sys0" and abs0: "sched_abs b ?sys0 = sched_abs b sys"
    using inv by (simp_all add: sched_inv_def sched_abs_def watchdog_report_def)
  obtain rq s k request high low where r: "receive_next_transaction (sched sys) ?k0 request0
      (selected_high_request_count sys) (selected_low_request_count sys) = (rq, s, k, request, high, low)"
    by (metis prod_cases6)
  let ?s1 = "sys\<lparr>sched := s, kernel := k, selected_high_request_count := high, selected_low_request_count := low\<rparr>"
  have rk: "response_queues ?k0 = response_queues (kernel sys)" by (simp add: watchdog_report_def)
  have f: "sched_inv b ?s1 \<and> response_queues k = response_queues (kernel sys) \<and> rtu_channel s = rtu_channel (sched sys) \<and>
    (case spec_serve (sched_abs b sys) of
       None \<Rightarrow> rq = None \<and> sched_abs b ?s1 = sched_abs b sys
     | Some (prio, x, a) \<Rightarrow>
         rq = Some (if prio = MODBUS_RTU_TRANSACTION_SCHEDULER_PRIORITY_HIGH then hr b else lr b) \<and>
         request = x \<and> sched_abs b ?s1 = a)"
    using receive_next_refines [OF inv0, of request0 rq s k request high low ?s1, unfolded abs0] r
    by (simp add: rk)
  have upd: "sched_inv b (?s1\<lparr>kernel := xQueueSend_response q x k, adus := p\<rparr>)"
    "sched_abs b (?s1\<lparr>kernel := xQueueSend_response q x k, adus := p\<rparr>) = sched_abs b ?s1" for q x p
    using f by (simp_all add: sched_inv_def sched_abs_def xQueueSend_response_def)
  show ?thesis
  proof (cases "spec_serve (sched_abs b sys)")
    case None
    then show ?thesis
      using f it by (auto simp: transaction_scheduler_iteration_def r)
  next
    case (Some y)
    then obtain prio x a where y: "spec_serve (sched_abs b sys) = Some (prio, x, a)"
      by (metis prod_cases3)
    then show ?thesis
      using f it upd
      by (auto simp: transaction_scheduler_iteration_def r Let_def xQueueSend_response_def split: prod.splits)
  qed
qed


lemma iteration_step:
  assumes "sched_inv b sys"
  shows "sched_inv b (snd (transaction_scheduler_iteration tr tmp request0 sys)) \<and>
    (case spec_serve (sched_abs b sys) of
       None \<Rightarrow> sched_abs b (snd (transaction_scheduler_iteration tr tmp request0 sys)) = sched_abs b sys
     | Some (prio, r, a) \<Rightarrow> sched_abs b (snd (transaction_scheduler_iteration tr tmp request0 sys)) = a)"
  using iteration_step_raw [OF assms prod.collapse [symmetric], of tr tmp request0]
  by (auto split: option.splits)

text \<open>
  C10. One iteration of the scheduler task refines the specification: from a state where every queued
  request is accounted for, it serves exactly the request the specification chooses (none when both
  queues are empty), removes it from the head of its queue, keeps the accounting, and puts one
  response with the token and the ADU of that request on the response queue of its priority; the ADU
  is replaced by the slave's answer only when the transaction ended with one.
\<close>

theorem iteration_refines:
  assumes inv: "sched_inv b sys"
    and it: "transaction_scheduler_iteration transceive tmp request0 sys = (delay, sys')"
  shows "sched_inv b sys' \<and>
    (case spec_serve (sched_abs b sys) of
       None \<Rightarrow> sched_abs b sys' = sched_abs b sys \<and> adus sys' = adus sys \<and>
         response_queues (kernel sys') = response_queues (kernel sys) \<and> \<not> delay
     | Some (prio, r, a) \<Rightarrow>
         sched_abs b sys' = a \<and>
         (let q = (if prio = MODBUS_RTU_TRANSACTION_SCHEDULER_PRIORITY_HIGH then hr b else lr b);
              adu = pool_adus (adus sys) ! rq_rtu_adu r;
              (result, t) = modbus_rtu_transact transceive (rtu_channel (sched sys)) (Some adu)
                              (rq_response_timeout_ms r) (Some tmp)
          in response_queues (kernel sys') = (response_queues (kernel sys))
               (q := response_queues (kernel sys) q @
                  [\<lparr>rs_token = rq_token r, rs_result = result, rs_rtu_adu = rq_rtu_adu r\<rparr>]) \<and>
             (delay \<longleftrightarrow> result = MODBUS_RTU_TRANSACTION_ADAPTER_IO_ERROR) \<and>
             adus sys' = adu_write (rq_rtu_adu r)
               (if result = MODBUS_RTU_TRANSACTION_OK \<or> result = MODBUS_RTU_TRANSACTION_EXCEPTION_RESPONSE
                then \<lparr>adu_length = adu_length (the t),
                      adu_data = overwrite 0 (take (unat (adu_length (the t))) (adu_data (the t))) (adu_data adu)\<rparr>
                else adu) (adus sys)))"
  using assms by (rule iteration_step_raw)

text \<open>Steps of the whole system: another task sends a request, or the scheduler task iterates.\<close>

datatype 'ctx sched_event =
    Send_Request modbus_rtu_transaction_scheduler_priority_t request_t
  | Iterate "'ctx rs485_transceive" modbus_rtu_adu_t request_t

definition send_request ::
  "modbus_rtu_transaction_scheduler_priority_t \<Rightarrow> request_t \<Rightarrow> 'ctx sched_system \<Rightarrow> 'ctx sched_system" where
  "send_request prio r sys =
     (case (if prio = MODBUS_RTU_TRANSACTION_SCHEDULER_PRIORITY_HIGH
            then hp_request_queue (sched sys) else lp_request_queue (sched sys)) of
        None \<Rightarrow> sys
      | Some h \<Rightarrow> sys\<lparr>kernel := snd (xQueueSend_request h r (kernel sys))\<rparr>)"

text \<open>The priority an iteration serves, read off the response queue it answers on.\<close>

definition served_priority :: "request_t \<Rightarrow> 'ctx sched_system \<Rightarrow> modbus_rtu_transaction_scheduler_priority_t list" where
  "served_priority request0 sys =
     (case fst (receive_next_transaction (sched sys) (kernel sys) request0
                  (selected_high_request_count sys) (selected_low_request_count sys)) of
        None \<Rightarrow> []
      | Some q \<Rightarrow> [if Some q = hp_response_queue (sched sys)
                   then MODBUS_RTU_TRANSACTION_SCHEDULER_PRIORITY_HIGH
                   else MODBUS_RTU_TRANSACTION_SCHEDULER_PRIORITY_LOW])"

fun run_events :: "'ctx sched_event list \<Rightarrow> 'ctx sched_system \<Rightarrow>
  modbus_rtu_transaction_scheduler_priority_t list \<times> 'ctx sched_system" where
  "run_events [] sys = ([], sys)"
| "run_events (Send_Request prio r # es) sys = run_events es (send_request prio r sys)"
| "run_events (Iterate tr tmp request0 # es) sys =
     (let (ps, sys') = run_events es (snd (transaction_scheduler_iteration tr tmp request0 sys))
      in (served_priority request0 sys @ ps, sys'))"

fun iterations :: "'ctx sched_event list \<Rightarrow> nat" where
  "iterations [] = 0"
| "iterations (Send_Request prio r # es) = iterations es"
| "iterations (Iterate tr tmp request0 # es) = Suc (iterations es)"

lemma send_request_inv:
  assumes "sched_inv b sys"
  shows "sched_inv b (send_request prio r sys)"
    "spec_credit (sched_abs b (send_request prio r sys)) = spec_credit (sched_abs b sys)"
    "spec_high (sched_abs b sys) \<noteq> [] \<Longrightarrow> spec_high (sched_abs b (send_request prio r sys)) \<noteq> []"
    "spec_low (sched_abs b sys) \<noteq> [] \<Longrightarrow> spec_low (sched_abs b (send_request prio r sys)) \<noteq> []"
  using assms
  by (auto simp: send_request_def sched_inv_def sched_abs_def xQueueSend_request_def)

lemma served_priority_spec:
  assumes "sched_inv b sys"
  shows "served_priority request0 sys =
    (case spec_serve (sched_abs b sys) of None \<Rightarrow> [] | Some (prio, r, a) \<Rightarrow> [prio])"
proof -
  obtain rq s k request high low where r: "receive_next_transaction (sched sys) (kernel sys) request0
      (selected_high_request_count sys) (selected_low_request_count sys) = (rq, s, k, request, high, low)"
    by (metis prod_cases6)
  have "hp_response_queue (sched sys) = Some (hr b)" "hr b \<noteq> lr b" using assms by (simp_all add: sched_inv_def)
  then show ?thesis
    using receive_next_refines [OF assms r refl]
    by (auto simp: served_priority_def r split: option.splits if_splits
        intro: modbus_rtu_transaction_scheduler_priority_t.exhaust)
qed

lemma iterate_abs:
  assumes "sched_inv b sys"
  shows "sched_inv b (snd (transaction_scheduler_iteration tr tmp request0 sys))"
    "sched_abs b (snd (transaction_scheduler_iteration tr tmp request0 sys)) =
      (case spec_serve (sched_abs b sys) of None \<Rightarrow> sched_abs b sys | Some (prio, r, a) \<Rightarrow> a)"
  using iteration_step [OF assms, of tr tmp request0]
  by (auto split: option.splits)

lemma low_served_within:
  "sched_inv b sys \<Longrightarrow> spec_low (sched_abs b sys) \<noteq> [] \<Longrightarrow>
   3 \<le> iterations es + spec_credit (sched_abs b sys) \<Longrightarrow>
   MODBUS_RTU_TRANSACTION_SCHEDULER_PRIORITY_LOW \<in> set (fst (run_events es sys))"
proof (induction es arbitrary: sys)
  case Nil
  have "spec_credit (sched_abs b sys) \<le> 2" by (simp add: sched_abs_def)
  then show ?case using Nil by simp
next
  case (Cons e es)
  show ?case
  proof (cases e)
    case (Send_Request prio r)
    then show ?thesis using Cons send_request_inv [OF Cons.prems(1)] by simp
  next
    case (Iterate tr tmp request0)
    let ?n = "snd (transaction_scheduler_iteration tr tmp request0 sys)"
    obtain q qs where L: "spec_low (sched_abs b sys) = q # qs" using Cons.prems(2) by (cases "spec_low (sched_abs b sys)") auto
    show ?thesis
    proof (cases "spec_high (sched_abs b sys) \<noteq> [] \<and> spec_credit (sched_abs b sys) < 2")
      case True
      then obtain r rs where H: "spec_high (sched_abs b sys) = r # rs" by (cases "spec_high (sched_abs b sys)") auto
      have "sched_abs b ?n = (sched_abs b sys)\<lparr>spec_high := rs, spec_credit := min 2 (spec_credit (sched_abs b sys) + 1)\<rparr>"
        using iterate_abs(2) [OF Cons.prems(1)] H L True by (simp add: spec_serve_def)
      then have "MODBUS_RTU_TRANSACTION_SCHEDULER_PRIORITY_LOW \<in> set (fst (run_events es ?n))"
        using Cons.prems True Iterate L by (intro Cons.IH) (simp_all add: iterate_abs(1))
      then show ?thesis using Iterate by (simp add: case_prod_beta)
    next
      case False
      then have "served_priority request0 sys = [MODBUS_RTU_TRANSACTION_SCHEDULER_PRIORITY_LOW]"
        using L by (auto simp: served_priority_spec [OF Cons.prems(1)] spec_serve_def split: list.splits)
      then show ?thesis using Iterate by (simp add: case_prod_beta)
    qed
  qed
qed

lemma high_served_within:
  "sched_inv b sys \<Longrightarrow> spec_high (sched_abs b sys) \<noteq> [] \<Longrightarrow>
   (if spec_credit (sched_abs b sys) < 2 then 1 else 2) \<le> iterations es \<Longrightarrow>
   MODBUS_RTU_TRANSACTION_SCHEDULER_PRIORITY_HIGH \<in> set (fst (run_events es sys))"
proof (induction es arbitrary: sys)
  case (Cons e es)
  show ?case
  proof (cases e)
    case (Send_Request prio r)
    then show ?thesis using Cons send_request_inv [OF Cons.prems(1)] by simp
  next
    case (Iterate tr tmp request0)
    let ?n = "snd (transaction_scheduler_iteration tr tmp request0 sys)"
    obtain r rs where H: "spec_high (sched_abs b sys) = r # rs" using Cons.prems(2) by (cases "spec_high (sched_abs b sys)") auto
    show ?thesis
    proof (cases "spec_credit (sched_abs b sys) < 2 \<or> spec_low (sched_abs b sys) = []")
      case True
      then have "served_priority request0 sys = [MODBUS_RTU_TRANSACTION_SCHEDULER_PRIORITY_HIGH]"
        using H by (auto simp: served_priority_spec [OF Cons.prems(1)] spec_serve_def split: list.splits)
      then show ?thesis using Iterate by (simp add: case_prod_beta)
    next
      case False
      then obtain q qs where L: "spec_low (sched_abs b sys) = q # qs" by (cases "spec_low (sched_abs b sys)") auto
      have "sched_abs b ?n = (sched_abs b sys)\<lparr>spec_low := qs, spec_credit := 0\<rparr>"
        using iterate_abs(2) [OF Cons.prems(1)] H L False by (simp add: spec_serve_def)
      then have "MODBUS_RTU_TRANSACTION_SCHEDULER_PRIORITY_HIGH \<in> set (fst (run_events es ?n))"
        using Cons.prems False Iterate H by (intro Cons.IH) (simp_all add: iterate_abs(1))
      then show ?thesis using Iterate by (simp add: case_prod_beta)
    qed
  qed
qed (simp split: if_splits)

text \<open>
  C19. Bounded waiting: whatever requests other tasks send meanwhile, a waiting low-priority request
  is followed by a low-priority service within three iterations of the task, and a waiting
  high-priority one by a high-priority service within two.
\<close>

theorem scheduler_bounded_waiting:
  assumes "sched_inv b sys"
  shows "(request_queues (kernel sys) (lq b) \<noteq> [] \<and> 3 \<le> iterations es \<longrightarrow>
       MODBUS_RTU_TRANSACTION_SCHEDULER_PRIORITY_LOW \<in> set (fst (run_events es sys))) \<and>
    (request_queues (kernel sys) (hq b) \<noteq> [] \<and> 2 \<le> iterations es \<longrightarrow>
       MODBUS_RTU_TRANSACTION_SCHEDULER_PRIORITY_HIGH \<in> set (fst (run_events es sys)))"
  using low_served_within [OF assms, of es] high_served_within [OF assms, of es]
  by (auto simp: sched_abs_def)

theorem scheduler_bounded_waiting_witness:
  "MODBUS_RTU_TRANSACTION_SCHEDULER_PRIORITY_LOW \<in> set (fst (run_events
     (replicate 3 (Iterate (\<lambda>ctx req n buf t. (MODBUS_RTU_RS485_PORT_RESULT_SLAVE_TIMEOUT, buf, 0))
        \<lparr>adu_length = 0, adu_data = []\<rparr> \<lparr>rq_token = 0, rq_response_timeout_ms = 0, rq_rtu_adu = 0\<rparr>))
     \<lparr>sched = \<lparr>rtu_channel = Some \<lparr>ch_context = ()\<rparr>, hp_request_queue = Some 0, hp_response_queue = Some 1,
         lp_request_queue = Some 2, lp_response_queue = Some 3, request_queue_set = Some (),
         consecutive_high_request_count = 0, task_handle = Some ()\<rparr>,
      kernel = \<lparr>request_queues = (\<lambda>q. if q = 0 \<or> q = 2 then [\<lparr>rq_token = 0, rq_response_timeout_ms = 5, rq_rtu_adu = 0\<rparr>] else []),
         response_queues = (\<lambda>q. []), queue_capacity = (\<lambda>q. 1), queue_set = Some (2, [0, 2]), set_pending = [0, 2], watchdog_events = 0\<rparr>,
      adus = \<lparr>pool_adus = [], pool_available = []\<rparr>,
      selected_high_request_count = 0, selected_low_request_count = 0\<rparr>))"
  by (rule scheduler_bounded_waiting [where b = "\<lparr>hq = 0, hr = 1, lq = 2, lr = 3\<rparr>", THEN conjunct1, THEN mp])
     (simp_all add: sched_inv_def numeral_3_eq_3)

section \<open>Memory safety of the response copy\<close>

lemma accepted_response_length:
  assumes "modbus_rtu_validate_request (Some req) = MODBUS_RTU_OK" "response_check req resp = res"
    "res = MODBUS_RTU_TRANSACTION_OK \<or> res = MODBUS_RTU_TRANSACTION_EXCEPTION_RESPONSE"
  shows "unat (adu_length resp) \<le> 255"
proof -
  let ?f = "adu_data req ! 1" and ?q = "read_u16_be (adu_data req) 4"
  have v: "validate_request_length (Some req) = MODBUS_RTU_OK" using assms(1) by (simp add: validate_request_OK)
  note a = response_check_accepts [OF assms(2,3)]
  show ?thesis
  proof (cases "res = MODBUS_RTU_TRANSACTION_OK \<and> ?f \<in> {MODBUS_FC_READ_COILS, MODBUS_FC_READ_DISCRETE_INPUTS,
      MODBUS_FC_READ_HOLDING_REGISTERS, MODBUS_FC_READ_INPUT_REGISTERS}")
    case True
    then have l: "unat (adu_length resp) = 5 + unat (adu_data resp ! 2)"
      using a by (auto simp: response_length_check_def Let_def split: if_splits)
    have "unat (adu_data resp ! 2) \<le> 250"
    proof (cases "?f \<in> {MODBUS_FC_READ_COILS, MODBUS_FC_READ_DISCRETE_INPUTS}")
      case True
      then have "unat ?q \<le> 2000" using assms(1)
        by (auto simp: validate_request_OK validate_address_quantity_request_def validate_address_quantity_OK_iff [simplified])
      then have "(unat ?q + 7) div 8 \<le> 250" by linarith
      moreover have "adu_data resp ! 2 = ucast (bit_byte_count ?q)"
        using a True assms(3) \<open>res = _ \<and> _\<close> by (auto simp: response_data_check_def Let_def split: if_splits)
      ultimately show ?thesis by (simp add: unsigned_ucast_eq unat_bit_byte_count take_bit_nat_eq_self)
    next
      case False
      then have "unat ?q \<le> 125" using assms(1) \<open>res = _ \<and> _\<close>
        by (auto simp: validate_request_OK validate_address_quantity_request_def validate_address_quantity_OK_iff [simplified])
      moreover have "?q = ucast (adu_data resp ! 2) div 2" "(ucast (adu_data resp ! 2) :: u16) mod 2 = 0"
        using a False \<open>res = _ \<and> _\<close> by (auto simp: response_data_check_def Let_def split: if_splits)
      then have "unat (adu_data resp ! 2) div 2 = unat ?q" "unat (ucast (adu_data resp ! 2) mod 2 :: u16) = 0"
        by (simp_all add: unat_div)
      then have "unat (adu_data resp ! 2) = 2 * unat ?q"
        by (simp add: unat_mod) presburger
      ultimately show ?thesis by linarith
    qed
    then show ?thesis using l by linarith
  next
    case False
    then have w: "res = MODBUS_RTU_TRANSACTION_OK \<Longrightarrow> ?f \<in> {MODBUS_FC_WRITE_SINGLE_COIL, MODBUS_FC_WRITE_SINGLE_REGISTER,
        MODBUS_FC_WRITE_MULTIPLE_COILS, MODBUS_FC_WRITE_MULTIPLE_REGISTERS}"
      using v by (auto simp: validate_length_OK Let_def)
    have "is_legal_request_function ?f" using v by (auto simp: validate_length_OK Let_def is_legal_request_function_def)
    then have "?f OR 0x80 > 0x80" by (rule exception_function_roundtrip)
    then have "res \<noteq> MODBUS_RTU_TRANSACTION_OK \<Longrightarrow> adu_data resp ! 1 > 0x80" using a by simp
    then have "adu_data resp ! 1 \<notin> {MODBUS_FC_READ_COILS, MODBUS_FC_READ_DISCRETE_INPUTS,
      MODBUS_FC_READ_HOLDING_REGISTERS, MODBUS_FC_READ_INPUT_REGISTERS}"
      using w a by (cases "res = MODBUS_RTU_TRANSACTION_OK") auto
    then have "unat (adu_length resp) = 8 \<or> unat (adu_length resp) = 5"
      using a by (auto simp: response_length_check_def Let_def split: if_splits)
    then show ?thesis by auto
  qed
qed


lemma transact_good_length:
  assumes "modbus_rtu_transact transceive ch (Some req) timeout (Some tmp) = (res, t)"
    "modbus_rtu_validate_request (Some req) = MODBUS_RTU_OK"
    "res = MODBUS_RTU_TRANSACTION_OK \<or> res = MODBUS_RTU_TRANSACTION_EXCEPTION_RESPONSE"
  shows "unat (adu_length (the t)) \<le> 255"
proof -
  obtain c where c: "ch = Some c" using assms(1,3) by (cases ch) (auto simp: modbus_rtu_transact_def)
  then obtain t' where t: "t = Some t'" using assms(1,3)
    by (auto simp: modbus_rtu_transact_def Let_def split: if_splits prod.splits modbus_rtu_rs485_port_result_t.splits)
  show ?thesis
    using accepted_response_length [OF assms(2) transact_result [OF assms(1) [unfolded c t] assms(3)] assms(3)]
    by (simp add: t)
qed

lemma pool_wf_write: "pool_wf p \<Longrightarrow> adu_wf a \<Longrightarrow> pool_wf (adu_write i a p)"
  by (auto simp: pool_wf_def adu_write_def dest!: set_update_subset_insert [THEN subsetD])

lemma spec_serve_member:
  "spec_serve a = Some (prio, r, a') \<Longrightarrow> r \<in> set (spec_high a) \<union> set (spec_low a)"
  by (auto simp: spec_serve_def split: list.splits if_splits)

text \<open>
  The copy of a slave's answer into the requester's ADU stays inside its 256-byte array: when
  the queued requests hold validated frames in ADUs of the pool, then after any iteration, whatever
  length the RS485 port reported, every ADU of the pool still has its size, and an ADU that was
  changed carries at most 255 bytes.
\<close>

theorem response_copy_in_bounds:
  assumes inv: "sched_inv b sys" and wf: "pool_wf (adus sys)"
    and valid: "\<forall>r \<in> set (request_queues (kernel sys) (hq b)) \<union> set (request_queues (kernel sys) (lq b)).
      rq_rtu_adu r < 6 \<and> modbus_rtu_validate_request (Some (pool_adus (adus sys) ! rq_rtu_adu r)) = MODBUS_RTU_OK"
    and it: "transaction_scheduler_iteration transceive tmp request0 sys = (delay, sys')"
  shows "pool_wf (adus sys') \<and>
    (\<forall>i < 6. pool_adus (adus sys') ! i \<noteq> pool_adus (adus sys) ! i \<longrightarrow>
       unat (adu_length (pool_adus (adus sys') ! i)) \<le> 255)"
proof (cases "spec_serve (sched_abs b sys)")
  case None
  then show ?thesis using iteration_step_raw [OF inv it] wf by simp
next
  case (Some y)
  then obtain prio r a where y: "spec_serve (sched_abs b sys) = Some (prio, r, a)"
    by (metis prod_cases3)
  let ?adu = "pool_adus (adus sys) ! rq_rtu_adu r"
  have r: "rq_rtu_adu r < 6" "modbus_rtu_validate_request (Some ?adu) = MODBUS_RTU_OK"
    using spec_serve_member [OF y] valid by (auto simp: sched_abs_def)
  then have adu: "adu_wf ?adu" using wf by (simp add: pool_wf_def)
  obtain res t where tr: "modbus_rtu_transact transceive (rtu_channel (sched sys)) (Some ?adu)
      (rq_response_timeout_ms r) (Some tmp) = (res, t)" by fastforce
  let ?good = "res = MODBUS_RTU_TRANSACTION_OK \<or> res = MODBUS_RTU_TRANSACTION_EXCEPTION_RESPONSE"
  let ?adu' = "if ?good then \<lparr>adu_length = adu_length (the t),
      adu_data = overwrite 0 (take (unat (adu_length (the t))) (adu_data (the t))) (adu_data ?adu)\<rparr> else ?adu"
  have w: "adus sys' = adu_write (rq_rtu_adu r) ?adu' (adus sys)"
    using iteration_step_raw [OF inv it] y tr by (simp add: Let_def)
  have l: "unat (adu_length (the t)) \<le> 255" if ?good
    using transact_good_length [OF tr r(2) that] .
  then have "adu_wf ?adu'" using adu by (auto simp: adu_wf_def overwrite_def)
  then show ?thesis
    using wf l r(1) by (auto simp: w pool_wf_write) (auto simp: adu_write_def nth_list_update pool_wf_def split: if_splits)
qed


section \<open>Example state\<close>

text \<open>One validated request queued at each priority, as after the first sends of the two clients.\<close>

definition example_adu :: modbus_rtu_adu_t where
  "example_adu = \<lparr>adu_length = 8, adu_data = [1, 3, 0, 0, 0, 1, 0x84, 0x0A] @ replicate 248 0\<rparr>"

definition example_system :: "unit sched_system" where
  "example_system =
     \<lparr>sched = \<lparr>rtu_channel = Some \<lparr>ch_context = ()\<rparr>, hp_request_queue = Some 0, hp_response_queue = Some 1,
         lp_request_queue = Some 2, lp_response_queue = Some 3, request_queue_set = Some (),
         consecutive_high_request_count = 0, task_handle = Some ()\<rparr>,
      kernel = \<lparr>request_queues =
           (\<lambda>q. if q = 0 then [\<lparr>rq_token = 7, rq_response_timeout_ms = 5, rq_rtu_adu = 0\<rparr>]
                else if q = 2 then [\<lparr>rq_token = 9, rq_response_timeout_ms = 5, rq_rtu_adu = 1\<rparr>] else []),
         response_queues = (\<lambda>q. []), queue_capacity = (\<lambda>q. 1), queue_set = Some (2, [0, 2]), set_pending = [0, 2], watchdog_events = 0\<rparr>,
      adus = \<lparr>pool_adus = replicate 6 example_adu, pool_available = [False, False, True, True, True, True]\<rparr>,
      selected_high_request_count = 0, selected_low_request_count = 0\<rparr>"

definition example_queues :: bound_queues where
  "example_queues = \<lparr>hq = 0, hr = 1, lq = 2, lr = 3\<rparr>"

definition example_port :: "unit rs485_transceive" where
  "example_port ctx req n buf t = (MODBUS_RTU_RS485_PORT_RESULT_OK, [1, 3, 2, 0x12, 0x34, 0xB5, 0x33], 7)"

lemma example_inv: "sched_inv example_queues example_system"
  by (simp add: sched_inv_def example_queues_def example_system_def)

theorem iteration_refines_witness:
  "\<exists>delay sys'. transaction_scheduler_iteration example_port example_adu
       \<lparr>rq_token = 0, rq_response_timeout_ms = 0, rq_rtu_adu = 0\<rparr> example_system = (delay, sys') \<and>
     sched_inv example_queues sys' \<and> request_queues (kernel sys') 0 = [] \<and>
     map rs_token (response_queues (kernel sys') 1) = [7]"
proof -
  obtain delay sys' where it: "transaction_scheduler_iteration example_port example_adu
      \<lparr>rq_token = 0, rq_response_timeout_ms = 0, rq_rtu_adu = 0\<rparr> example_system = (delay, sys')" by fastforce
  have a: "sched_abs example_queues example_system = \<lparr>spec_high = [\<lparr>rq_token = 7, rq_response_timeout_ms = 5, rq_rtu_adu = 0\<rparr>],
      spec_low = [\<lparr>rq_token = 9, rq_response_timeout_ms = 5, rq_rtu_adu = 1\<rparr>], spec_credit = 0\<rparr>"
    by (simp add: sched_abs_def example_queues_def example_system_def)
  have r: "response_queues (kernel example_system) = (\<lambda>q. [])" by (simp add: example_system_def)
  have sp: "spec_serve (sched_abs example_queues example_system) = Some (MODBUS_RTU_TRANSACTION_SCHEDULER_PRIORITY_HIGH,
      \<lparr>rq_token = 7, rq_response_timeout_ms = 5, rq_rtu_adu = 0\<rparr>,
      \<lparr>spec_high = [], spec_low = [\<lparr>rq_token = 9, rq_response_timeout_ms = 5, rq_rtu_adu = 1\<rparr>], spec_credit = 1\<rparr>)"
    by (simp add: a spec_serve_def)
  have "sched_inv example_queues sys'" "spec_high (sched_abs example_queues sys') = []"
    "map rs_token (response_queues (kernel sys') (hr example_queues)) = [7]"
    using iteration_refines [OF example_inv it] by (simp_all add: sp r Let_def case_prod_beta)
  then show ?thesis using it by (simp add: sched_abs_def example_queues_def)
qed

theorem response_copy_in_bounds_witness:
  "pool_wf (adus (snd (transaction_scheduler_iteration example_port example_adu
     \<lparr>rq_token = 0, rq_response_timeout_ms = 0, rq_rtu_adu = 0\<rparr> example_system)))"
proof (rule response_copy_in_bounds [OF example_inv _ _ prod.collapse [symmetric], THEN conjunct1])
  show "pool_wf (adus example_system)" by (simp add: example_system_def pool_wf_def adu_wf_def example_adu_def)
  have "modbus_rtu_validate_request (Some example_adu) = MODBUS_RTU_OK" by code_simp
  then show "\<forall>r \<in> set (request_queues (kernel example_system) (hq example_queues)) \<union>
      set (request_queues (kernel example_system) (lq example_queues)). rq_rtu_adu r < 6 \<and>
      modbus_rtu_validate_request (Some (pool_adus (adus example_system) ! rq_rtu_adu r)) = MODBUS_RTU_OK"
    by (simp add: example_system_def example_queues_def)
qed

section \<open>Start-up\<close>

text \<open>
  Starting the scheduler is all or nothing: after init and binding of two distinct empty
  queues, whichever of the two allocations fails, either the task runs on a queue set of both request
  queues, the invariant of the task holds and the set has room for every pending handle of any later
  state, or neither a task nor a queue set is left behind.
\<close>

theorem scheduler_start_all_or_nothing:
  fixes b :: bound_queues and k :: rtos
  assumes q: "hq b \<noteq> lq b" "hr b \<noteq> lr b" "request_queues k (hq b) = []" "request_queues k (lq b) = []"
    "queue_set k = None" "queue_capacity k (hq b) < 2 ^ 32" "queue_capacity k (lq b) < 2 ^ 32"
    and s: "s = modbus_rtu_transaction_scheduler_bind_queue
        (modbus_rtu_transaction_scheduler_bind_queue (modbus_rtu_transaction_scheduler_init s0 ch)
          MODBUS_RTU_TRANSACTION_SCHEDULER_PRIORITY_HIGH (Some (hq b)) (Some (hr b)))
          MODBUS_RTU_TRANSACTION_SCHEDULER_PRIORITY_LOW (Some (lq b)) (Some (lr b))"
    and start: "modbus_rtu_transaction_scheduler_start set_created task_created s k = (s', k')"
  shows "if set_created \<and> task_created
    then task_handle s' = Some () \<and> request_queue_set s' = Some () \<and>
      sched_inv b \<lparr>sched = s', kernel = k', adus = p, selected_high_request_count = 0, selected_low_request_count = 0\<rparr> \<and>
      (\<exists>n. queue_set k' = Some (n, [hq b, lq b]) \<and>
         (\<forall>sys. sched_inv b sys \<and> queue_capacity (kernel (sys :: 'ctx sched_system)) = queue_capacity k' \<longrightarrow>
            length (set_pending (kernel sys)) \<le> n))
    else task_handle s' = None \<and> request_queue_set s' = None \<and> queue_set k' = None"
proof -
  have len: "length xs = count_list xs a + count_list xs c" if "set xs \<subseteq> {a, c}" "a \<noteq> c" for xs :: "nat list" and a c
    using that by (induction xs) auto
  have "length (set_pending (kernel sys)) \<le> queue_capacity k (hq b) + queue_capacity k (lq b)"
    if "sched_inv b sys" "queue_capacity (kernel sys) = queue_capacity k" for sys :: "'ctx sched_system"
    using that len [of "set_pending (kernel sys)" "hq b" "lq b"] by (auto simp: sched_inv_def)
  then show ?thesis
    using q start
    by (auto simp: s modbus_rtu_transaction_scheduler_start_def modbus_rtu_transaction_scheduler_init_def
        modbus_rtu_transaction_scheduler_bind_queue_def Let_def xQueueAddToSet_def xQueueRemoveFromSet_def
        uxQueueSpacesAvailable_def sched_inv_def split: if_splits)
qed

theorem scheduler_start_all_or_nothing_witness:
  "task_handle (fst (modbus_rtu_transaction_scheduler_start True False
     (modbus_rtu_transaction_scheduler_bind_queue
        (modbus_rtu_transaction_scheduler_bind_queue
           (modbus_rtu_transaction_scheduler_init (sched example_system) (Some \<lparr>ch_context = ()\<rparr>))
           MODBUS_RTU_TRANSACTION_SCHEDULER_PRIORITY_HIGH (Some (hq example_queues)) (Some (hr example_queues)))
        MODBUS_RTU_TRANSACTION_SCHEDULER_PRIORITY_LOW (Some (lq example_queues)) (Some (lr example_queues)))
     \<lparr>request_queues = (\<lambda>q. []), response_queues = (\<lambda>q. []), queue_capacity = (\<lambda>q. 1),
      queue_set = None, set_pending = [], watchdog_events = 0\<rparr>)) = None"
proof -
  let ?k = "\<lparr>request_queues = (\<lambda>q. []), response_queues = (\<lambda>q. []), queue_capacity = (\<lambda>q. 1),
      queue_set = None, set_pending = [], watchdog_events = 0\<rparr> :: rtos"
  have "hq example_queues \<noteq> lq example_queues" "hr example_queues \<noteq> lr example_queues" by (simp_all add: example_queues_def)
  from scheduler_start_all_or_nothing [where set_created = True and task_created = False and k = ?k
      and ?s0.0 = "sched example_system" and ch = "Some \<lparr>ch_context = ()\<rparr>",
      OF this _ _ _ _ _ refl prod.collapse [symmetric]]
  show ?thesis by simp
qed

end
