(* ===== verification/Modbus_TCP_Server.thy ===== *)
theory Modbus_TCP_Server
  imports RTU_Scheduler
begin

text \<open>
  Model of \<open>app/Modbus/src/modbus_tcp_server.c\<close>: up to four TCP clients, each a small state machine, served by one
  task that selects on their sockets, hands requests to the scheduler's high-priority queue and forwards the responses.

  A turn of the task loop is one step. What the socket calls return in that turn is a \<open>tcp_io\<close>: each client
  makes at most one \<open>recv\<close> or \<open>send\<close> per turn, so these are functions of the client's index. The queues and
  the ADU pool are those of the scheduler's model; \<open>open_sockets\<close> and \<open>tcp_out\<close> record the descriptors that are open and
  the bytes given to the TCP stack, \<open>issued\<close> counts the tokens handed out.
\<close>

section \<open>Data\<close>

datatype modbus_tcp_server_result_t =
    MODBUS_TCP_SERVER_OK
  | MODBUS_TCP_SERVER_INVALID_ARGUMENT
  | MODBUS_TCP_SERVER_INVALID_STATE
  | MODBUS_TCP_SERVER_TASK_CREATE_FAILED

datatype modbus_tcp_server_state_t =
    MODBUS_TCP_SERVER_STATE_UNINITIALIZED
  | MODBUS_TCP_SERVER_STATE_RUNNING
  | MODBUS_TCP_SERVER_STATE_FAILED

datatype modbus_tcp_server_client_state_t =
    MODBUS_TCP_SERVER_CLIENT_STATE_RECEIVING_TCP_REQUEST
  | MODBUS_TCP_SERVER_CLIENT_STATE_WAITING_FOR_RTU_SUBMIT
  | MODBUS_TCP_SERVER_CLIENT_STATE_WAITING_FOR_RTU_RESPONSE
  | MODBUS_TCP_SERVER_CLIENT_STATE_SENDING_TCP_RESPONSE

record modbus_tcp_server_config_t =
  cfg_request_queue :: "QueueHandle_t ptr"
  cfg_response_queue :: "QueueHandle_t ptr"
  cfg_listen_port :: u16
  cfg_response_timeout_ms :: u32
  cfg_task_name :: "unit ptr"
  cfg_task_priority :: u32
  cfg_task_stack :: "unit ptr"
  cfg_task_stack_depth :: u32
  cfg_task_buffer :: "unit ptr"

text \<open>The embedded \<open>rtu_request\<close> is the three fields that start with \<open>rtu_\<close>.\<close>

record modbus_tcp_server_client_t =
  socket :: int
  client_state :: modbus_tcp_server_client_state_t
  recv_buffer :: "u8 list"
  recv_count :: nat
  last_recv_time :: u32
  rtu_token :: u32
  rtu_response_timeout_ms :: u32
  rtu_adu :: "nat ptr"
  send_buffer :: "u8 list"
  send_length :: nat
  send_offset :: nat
  send_start_time_ms :: u32

record modbus_tcp_server_t =
  server_state :: modbus_tcp_server_state_t
  listener_port :: u16
  response_timeout_ms :: u32
  request_queue :: "QueueHandle_t ptr"
  response_queue :: "QueueHandle_t ptr"
  tcp_task_handle :: "unit ptr"
  available_token :: u32
  read_sockets :: "int list"
  write_sockets :: "int list"
  server_socket :: int
  clients :: "modbus_tcp_server_client_t list"

record tcp_world =
  server :: modbus_tcp_server_t
  kern :: rtos
  tcp_pool :: adu_pool
  open_sockets :: "int list"
  tcp_out :: "(int \<times> u8 list) list"
  issued :: nat

abbreviation "MODBUS_TCP_SERVER_MAX_CLIENTS \<equiv> (4 :: nat)"
abbreviation "MODBUS_TCP_ADU_MAX_LENGTH \<equiv> (260 :: nat)"
abbreviation "MODBUS_TCP_ADU_MBAP_HEADER_LENGTH \<equiv> (7 :: nat)"
abbreviation "MODBUS_TCP_MIN_MBAP_LENGTH \<equiv> (2 :: u16)"
abbreviation "MODBUS_TCP_MAX_MBAP_LENGTH \<equiv> (254 :: u16)"
abbreviation "MODBUS_TCP_READ_TIMEOUT_MS \<equiv> (5000 :: u32)"
abbreviation "MODBUS_TCP_WRITE_TIMEOUT_MS \<equiv> (5000 :: u32)"
abbreviation "MODBUS_TCP_RESPONSE_TIMEOUT_MIN_MS \<equiv> (50 :: u32)"
abbreviation "MODBUS_TCP_RESPONSE_TIMEOUT_MAX_MS \<equiv> (60000 :: u32)"
abbreviation "configMAX_PRIORITIES \<equiv> (56 :: u32)"
abbreviation "WATCHDOG_EVENT_MODBUS_TCP \<equiv> (4 :: u32)"
abbreviation "MODBUS_EXCEPTION_CODE_ILLEGAL_FUNCTION \<equiv> (0x01 :: u8)"
abbreviation "MODBUS_EXCEPTION_CODE_ILLEGAL_DATA_ADDRESS \<equiv> (0x02 :: u8)"
abbreviation "MODBUS_EXCEPTION_CODE_ILLEGAL_DATA_VALUE \<equiv> (0x03 :: u8)"
abbreviation "MODBUS_EXCEPTION_CODE_SERVER_DEVICE_FAILURE \<equiv> (0x04 :: u8)"
abbreviation "MODBUS_EXCEPTION_CODE_GATEWAY_PATH_UNAVAILABLE \<equiv> (0x0A :: u8)"
abbreviation "MODBUS_EXCEPTION_CODE_GATEWAY_TARGET_FAILED_TO_RESPONSE \<equiv> (0x0B :: u8)"

section \<open>The environment of one turn\<close>

text \<open>A failed call says whether its error is only that the call would block. \<open>Received []\<close> is the end of the stream.\<close>

datatype recv_outcome = Received "u8 list" | Recv_Failed bool
datatype send_outcome = Sent nat | Send_Failed bool
datatype select_outcome = Select_Ready | Select_EINTR | Select_EBADF | Select_Error

record tcp_io =
  now_ms :: "nat \<Rightarrow> nat \<Rightarrow> u32"
  select_result :: select_outcome
  selected :: "int \<Rightarrow> bool"
  listener_is_bad :: bool
  client_is_bad :: "nat \<Rightarrow> bool"
  accept_result :: int
  accept_configured :: bool
  recv_result :: "nat \<Rightarrow> recv_outcome"
  send_result :: "nat \<Rightarrow> send_outcome"
  listener_socket :: int
  listener_ready :: bool

section \<open>Clients\<close>

definition upd_client :: "nat \<Rightarrow> modbus_tcp_server_client_t \<Rightarrow> tcp_world \<Rightarrow> tcp_world" where
  "upd_client i c w = w\<lparr>server := (server w)\<lparr>clients := (clients (server w))[i := c]\<rparr>\<rparr>"

definition close_socket :: "int \<Rightarrow> tcp_world \<Rightarrow> tcp_world" where
  "close_socket fd w = w\<lparr>open_sockets := remove1 fd (open_sockets w)\<rparr>"

definition server_get_available_token :: "modbus_tcp_server_t \<Rightarrow> u32 \<times> modbus_tcp_server_t" where
  "server_get_available_token s = (available_token s, s\<lparr>available_token := available_token s + 1\<rparr>)"

text \<open>The search for a free client: the index of the first without a socket, or the number of clients.\<close>

definition free_client :: "modbus_tcp_server_client_t list \<Rightarrow> nat" where
  "free_client cs = length (takeWhile (\<lambda>c. \<not> socket c < 0) cs)"

definition server_accept :: "tcp_io \<Rightarrow> tcp_world \<Rightarrow> tcp_world" where
  "server_accept io w =
     (let accepted_socket = accept_result io in
      if accepted_socket < 0 then w
      else let w1 = w\<lparr>open_sockets := accepted_socket # open_sockets w\<rparr>;
               client_index = free_client (clients (server w1))
           in if client_index = MODBUS_TCP_SERVER_MAX_CLIENTS then close_socket accepted_socket w1
              else if \<not> accept_configured io then close_socket accepted_socket w1
              else upd_client client_index
                     ((clients (server w1) ! client_index)\<lparr>socket := accepted_socket,
                        client_state := MODBUS_TCP_SERVER_CLIENT_STATE_RECEIVING_TCP_REQUEST, recv_count := 0\<rparr>) w1)"

definition client_close :: "nat \<Rightarrow> tcp_world \<Rightarrow> tcp_world" where
  "client_close i w =
     (let c = clients (server w) ! i;
          (c1, w1) = (if client_state c = MODBUS_TCP_SERVER_CLIENT_STATE_WAITING_FOR_RTU_SUBMIT
                      then case rtu_adu c of
                             Some a \<Rightarrow> (c\<lparr>rtu_adu := None\<rparr>, w\<lparr>tcp_pool := modbus_rtu_adu_pool_release a (tcp_pool w)\<rparr>)
                           | None \<Rightarrow> (c, w)
                      else (c, w));
          (c2, w2) = (if socket c1 \<ge> 0 then (c1\<lparr>socket := - 1\<rparr>, close_socket (socket c1) w1) else (c1, w1))
      in upd_client i c2 w2)"

definition client_set_send_exception_response :: "u8 \<Rightarrow> u32 \<Rightarrow> modbus_tcp_server_client_t \<Rightarrow> modbus_tcp_server_client_t" where
  "client_set_send_exception_response exception_code now c =
     (let b0 = write_u16_be (send_buffer c) 0 (read_u16_be (recv_buffer c) 0);
          b1 = write_u16_be b0 2 0x0000;
          b2 = write_u16_be b1 4 0x0003;
          b3 = b2[6 := recv_buffer c ! 6, 7 := (recv_buffer c ! 7) OR 0x80, 8 := exception_code]
      in c\<lparr>send_length := 9, send_offset := 0, send_buffer := b3, send_start_time_ms := now,
           client_state := MODBUS_TCP_SERVER_CLIENT_STATE_SENDING_TCP_RESPONSE\<rparr>)"

definition get_protocol_id :: "u8 list \<Rightarrow> u16" where
  "get_protocol_id buffer = read_u16_be buffer 2"

definition get_length_field :: "u8 list \<Rightarrow> u16" where
  "get_length_field buffer = read_u16_be buffer 4"

text \<open>The RTU frame of a complete TCP request, written into an ADU of the pool.\<close>

definition compose_rtu :: "u8 list \<Rightarrow> modbus_rtu_adu_t \<Rightarrow> modbus_rtu_adu_t" where
  "compose_rtu buffer adu =
     (let a = adu\<lparr>adu_length := get_length_field buffer + 2,
                  adu_data := overwrite 0 (take (unat (get_length_field buffer)) (drop 6 buffer)) (adu_data adu)\<rparr>;
          crc = calculate_crc (adu_data a) (adu_length a - 2)
      in a\<lparr>adu_data := (adu_data a)[unat (adu_length a) - 1 := ucast (drop_bit 8 crc), unat (adu_length a) - 2 := ucast crc]\<rparr>)"

definition validation_exception_code :: "modbus_rtu_result_t \<Rightarrow> u8" where
  "validation_exception_code validate_result =
     (case validate_result of
        MODBUS_RTU_OK \<Rightarrow> 0x00
      | MODBUS_RTU_FUNCTION_UNSUPPORTED \<Rightarrow> MODBUS_EXCEPTION_CODE_ILLEGAL_FUNCTION
      | MODBUS_RTU_SLAVE_ADDRESS_INVALID \<Rightarrow> MODBUS_EXCEPTION_CODE_GATEWAY_PATH_UNAVAILABLE
      | MODBUS_RTU_ADDRESS_RANGE_INVALID \<Rightarrow> MODBUS_EXCEPTION_CODE_ILLEGAL_DATA_ADDRESS
      | MODBUS_RTU_BYTE_COUNT_INVALID \<Rightarrow> MODBUS_EXCEPTION_CODE_ILLEGAL_DATA_VALUE
      | MODBUS_RTU_VALUE_INVALID \<Rightarrow> MODBUS_EXCEPTION_CODE_ILLEGAL_DATA_VALUE
      | MODBUS_RTU_QUANTITY_INVALID \<Rightarrow> MODBUS_EXCEPTION_CODE_ILLEGAL_DATA_VALUE
      | MODBUS_RTU_LENGTH_INVALID \<Rightarrow> MODBUS_EXCEPTION_CODE_ILLEGAL_DATA_VALUE
      | _ \<Rightarrow> MODBUS_EXCEPTION_CODE_SERVER_DEVICE_FAILURE)"

text \<open>What happens when the last byte of a request has arrived.\<close>

definition client_request_complete :: "tcp_io \<Rightarrow> nat \<Rightarrow> tcp_world \<Rightarrow> tcp_world" where
  "client_request_complete io i w =
     (let c = clients (server w) ! i in
      case modbus_rtu_adu_pool_allocate (tcp_pool w) of
        (None, p) \<Rightarrow>
          upd_client i (client_set_send_exception_response MODBUS_EXCEPTION_CODE_SERVER_DEVICE_FAILURE (now_ms io i 1) c) (w\<lparr>tcp_pool := p\<rparr>)
      | (Some a, p) \<Rightarrow>
          let adu = compose_rtu (recv_buffer c) (pool_adus p ! a);
              p1 = adu_write a adu p;
              exception_code = validation_exception_code (modbus_rtu_validate_request (Some adu))
          in if exception_code \<noteq> 0x00
             then upd_client i (client_set_send_exception_response exception_code (now_ms io i 1) c)
                    (w\<lparr>tcp_pool := modbus_rtu_adu_pool_release a p1\<rparr>)
             else let (token, s) = server_get_available_token (server w)
                  in upd_client i (c\<lparr>rtu_response_timeout_ms := response_timeout_ms s, rtu_adu := Some a, rtu_token := token,
                         client_state := MODBUS_TCP_SERVER_CLIENT_STATE_WAITING_FOR_RTU_SUBMIT\<rparr>)
                       (w\<lparr>tcp_pool := p1, server := s, issued := issued w + 1\<rparr>))"

definition client_recv_tcp_request :: "tcp_io \<Rightarrow> nat \<Rightarrow> tcp_world \<Rightarrow> tcp_world" where
  "client_recv_tcp_request io i w =
     (let c = clients (server w) ! i in
      if socket c \<notin> set (read_sockets (server w))
      then (if recv_count c \<ge> 1 \<and> now_ms io i 0 - last_recv_time c > MODBUS_TCP_READ_TIMEOUT_MS then client_close i w else w)
      else
        let last_recv_count = recv_count c;
            max_bytes = (if last_recv_count < MODBUS_TCP_ADU_MBAP_HEADER_LENGTH
                         then MODBUS_TCP_ADU_MBAP_HEADER_LENGTH - last_recv_count
                         else unat (get_length_field (recv_buffer c)) + 6 - last_recv_count)
        in case recv_result io i of
             Recv_Failed would_block \<Rightarrow> if \<not> would_block then client_close i w else w
           | Received bytes \<Rightarrow>
               let received = take max_bytes bytes in
               if received = [] then client_close i w
               else
                 let c1 = c\<lparr>recv_buffer := overwrite last_recv_count received (recv_buffer c), last_recv_time := now_ms io i 0,
                            recv_count := last_recv_count + length received\<rparr>;
                     w1 = upd_client i c1 w;
                     mbap_length = get_length_field (recv_buffer c1)
                 in if last_recv_count < MODBUS_TCP_ADU_MBAP_HEADER_LENGTH \<and> recv_count c1 \<ge> MODBUS_TCP_ADU_MBAP_HEADER_LENGTH
                    then (if mbap_length > MODBUS_TCP_MAX_MBAP_LENGTH \<or> mbap_length < MODBUS_TCP_MIN_MBAP_LENGTH \<or>
                             get_protocol_id (recv_buffer c1) \<noteq> 0x00
                          then client_close i w1 else w1)
                    else if recv_count c1 \<ge> MODBUS_TCP_ADU_MBAP_HEADER_LENGTH \<and>
                            recv_count c1 = unat mbap_length + MODBUS_TCP_ADU_MBAP_HEADER_LENGTH - 1
                    then client_request_complete io i w1
                    else w1)"

definition client_submit_rtu_request :: "nat \<Rightarrow> tcp_world \<Rightarrow> tcp_world" where
  "client_submit_rtu_request i w =
     (let c = clients (server w) ! i in
      case xQueueSend_request (the (request_queue (server w)))
             \<lparr>rq_token = rtu_token c, rq_response_timeout_ms = rtu_response_timeout_ms c, rq_rtu_adu = the (rtu_adu c)\<rparr> (kern w) of
        (sent, k) \<Rightarrow>
          if \<not> sent then w
          else upd_client i (c\<lparr>client_state := MODBUS_TCP_SERVER_CLIENT_STATE_WAITING_FOR_RTU_RESPONSE, rtu_adu := None\<rparr>) (w\<lparr>kern := k\<rparr>))"

definition transaction_exception_code :: "modbus_rtu_transaction_result_t \<Rightarrow> u8" where
  "transaction_exception_code result =
     (case result of
        MODBUS_RTU_TRANSACTION_OK \<Rightarrow> 0x00
      | MODBUS_RTU_TRANSACTION_EXCEPTION_RESPONSE \<Rightarrow> 0x00
      | MODBUS_RTU_TRANSACTION_ADAPTER_IO_ERROR \<Rightarrow> MODBUS_EXCEPTION_CODE_GATEWAY_PATH_UNAVAILABLE
      | MODBUS_RTU_TRANSACTION_RESPONSE_TIMEOUT \<Rightarrow> MODBUS_EXCEPTION_CODE_GATEWAY_TARGET_FAILED_TO_RESPONSE
      | MODBUS_RTU_TRANSACTION_RESPONSE_LENGTH_INVALID \<Rightarrow> MODBUS_EXCEPTION_CODE_GATEWAY_TARGET_FAILED_TO_RESPONSE
      | MODBUS_RTU_TRANSACTION_RESPONSE_CRC_INVALID \<Rightarrow> MODBUS_EXCEPTION_CODE_GATEWAY_TARGET_FAILED_TO_RESPONSE
      | MODBUS_RTU_TRANSACTION_RESPONSE_SLAVE_ADDRESS_MISMATCH \<Rightarrow> MODBUS_EXCEPTION_CODE_GATEWAY_TARGET_FAILED_TO_RESPONSE
      | MODBUS_RTU_TRANSACTION_RESPONSE_FUNCTION_MISMATCH \<Rightarrow> MODBUS_EXCEPTION_CODE_GATEWAY_TARGET_FAILED_TO_RESPONSE
      | MODBUS_RTU_TRANSACTION_RESPONSE_FUNCTION_INVALID \<Rightarrow> MODBUS_EXCEPTION_CODE_GATEWAY_TARGET_FAILED_TO_RESPONSE
      | MODBUS_RTU_TRANSACTION_RESPONSE_DATA_MISMATCH \<Rightarrow> MODBUS_EXCEPTION_CODE_GATEWAY_TARGET_FAILED_TO_RESPONSE
      | MODBUS_RTU_TRANSACTION_RESPONSE_DATA_INVALID \<Rightarrow> MODBUS_EXCEPTION_CODE_GATEWAY_TARGET_FAILED_TO_RESPONSE
      | _ \<Rightarrow> MODBUS_EXCEPTION_CODE_SERVER_DEVICE_FAILURE)"

text \<open>Forwarding a response: the MBAP header of the request with the new length, then the RTU frame without its checksum.\<close>

definition forward_response :: "modbus_rtu_adu_t \<Rightarrow> u32 \<Rightarrow> modbus_tcp_server_client_t \<Rightarrow> modbus_tcp_server_client_t" where
  "forward_response adu now c =
     (let n = unat (adu_length adu) - 2;
          b0 = write_u16_be (send_buffer c) 0 (read_u16_be (recv_buffer c) 0);
          b1 = write_u16_be b0 2 0x0000;
          b2 = write_u16_be b1 4 (adu_length adu - 2);
          b3 = overwrite 6 (take n (adu_data adu)) b2
      in c\<lparr>send_length := n + 6, send_offset := 0, send_buffer := b3, send_start_time_ms := now,
           client_state := MODBUS_TCP_SERVER_CLIENT_STATE_SENDING_TCP_RESPONSE\<rparr>)"

definition pop_response :: "tcp_world \<Rightarrow> tcp_world" where
  "pop_response w =
     (let q = the (response_queue (server w)) in
      w\<lparr>kern := (kern w)\<lparr>response_queues := (response_queues (kern w))(q := tl (response_queues (kern w) q))\<rparr>\<rparr>)"

definition client_recv_rtu_response :: "tcp_io \<Rightarrow> nat \<Rightarrow> tcp_world \<Rightarrow> tcp_world" where
  "client_recv_rtu_response io i w =
     (let c = clients (server w) ! i in
      case response_queues (kern w) (the (response_queue (server w))) of
        [] \<Rightarrow> w
      | response # _ \<Rightarrow>
          if rs_token response \<noteq> rtu_token c then w
          else let w1 = pop_response w;
                   exception_code = transaction_exception_code (rs_result response);
                   c1 = (if exception_code \<noteq> 0x00
                         then client_set_send_exception_response exception_code (now_ms io i 0) c
                         else forward_response (pool_adus (tcp_pool w) ! rs_rtu_adu response) (now_ms io i 0) c)
               in upd_client i c1 (w1\<lparr>tcp_pool := modbus_rtu_adu_pool_release (rs_rtu_adu response) (tcp_pool w1)\<rparr>))"

definition client_send_tcp_response :: "tcp_io \<Rightarrow> nat \<Rightarrow> tcp_world \<Rightarrow> tcp_world" where
  "client_send_tcp_response io i w =
     (let c = clients (server w) ! i in
      if socket c \<notin> set (write_sockets (server w))
      then (if now_ms io i 0 - send_start_time_ms c \<ge> MODBUS_TCP_WRITE_TIMEOUT_MS then client_close i w else w)
      else case send_result io i of
             Send_Failed would_block \<Rightarrow> if \<not> would_block then client_close i w else w
           | Sent n \<Rightarrow>
               let sent = min n (send_length c - send_offset c) in
               if sent = 0 then w
               else let w1 = w\<lparr>tcp_out := tcp_out w @ [(socket c, take sent (drop (send_offset c) (send_buffer c)))]\<rparr>;
                        c1 = c\<lparr>send_offset := send_offset c + sent\<rparr>
                    in upd_client i
                         (if send_offset c1 = send_length c1
                          then c1\<lparr>client_state := MODBUS_TCP_SERVER_CLIENT_STATE_RECEIVING_TCP_REQUEST, recv_count := 0\<rparr>
                          else c1) w1)"

definition client_update :: "tcp_io \<Rightarrow> nat \<Rightarrow> tcp_world \<Rightarrow> tcp_world" where
  "client_update io i w =
     (let c = clients (server w) ! i in
      if socket c < 0 then w
      else case client_state c of
             MODBUS_TCP_SERVER_CLIENT_STATE_RECEIVING_TCP_REQUEST \<Rightarrow> client_recv_tcp_request io i w
           | MODBUS_TCP_SERVER_CLIENT_STATE_WAITING_FOR_RTU_SUBMIT \<Rightarrow> client_submit_rtu_request i w
           | MODBUS_TCP_SERVER_CLIENT_STATE_WAITING_FOR_RTU_RESPONSE \<Rightarrow> client_recv_rtu_response io i w
           | MODBUS_TCP_SERVER_CLIENT_STATE_SENDING_TCP_RESPONSE \<Rightarrow> client_send_tcp_response io i w)"

definition clients_update :: "tcp_io \<Rightarrow> tcp_world \<Rightarrow> tcp_world" where
  "clients_update io w = fold (client_update io) [0..<MODBUS_TCP_SERVER_MAX_CLIENTS] w"

section \<open>The task\<close>

definition client_should_receive :: "modbus_tcp_server_client_t \<Rightarrow> bool" where
  "client_should_receive c \<longleftrightarrow> socket c \<ge> 0 \<and> client_state c = MODBUS_TCP_SERVER_CLIENT_STATE_RECEIVING_TCP_REQUEST"

definition client_should_send :: "modbus_tcp_server_client_t \<Rightarrow> bool" where
  "client_should_send c \<longleftrightarrow> socket c \<ge> 0 \<and> client_state c = MODBUS_TCP_SERVER_CLIENT_STATE_SENDING_TCP_RESPONSE"

text \<open>The descriptor sets, and what \<open>select\<close> leaves of them.\<close>

definition select_sockets :: "tcp_io \<Rightarrow> modbus_tcp_server_t \<Rightarrow> modbus_tcp_server_t" where
  "select_sockets io s =
     s\<lparr>read_sockets := filter (selected io) (server_socket s # map socket (filter client_should_receive (clients s))),
       write_sockets := filter (selected io) (map socket (filter client_should_send (clients s)))\<rparr>"

definition clean_expired_response :: "tcp_world \<Rightarrow> tcp_world" where
  "clean_expired_response w =
     (case response_queues (kern w) (the (response_queue (server w))) of
        [] \<Rightarrow> w
      | response # _ \<Rightarrow>
          if \<exists>c \<in> set (clients (server w)). socket c \<ge> 0 \<and>
               client_state c = MODBUS_TCP_SERVER_CLIENT_STATE_WAITING_FOR_RTU_RESPONSE \<and> rtu_token c = rs_token response
          then w
          else let w1 = pop_response w
               in w1\<lparr>tcp_pool := modbus_rtu_adu_pool_release (rs_rtu_adu response) (tcp_pool w1)\<rparr>)"

definition close_client_if_open :: "nat \<Rightarrow> tcp_world \<Rightarrow> tcp_world" where
  "close_client_if_open i w = (if socket (clients (server w) ! i) \<ge> 0 then client_close i w else w)"

definition close_client_if_bad :: "tcp_io \<Rightarrow> nat \<Rightarrow> tcp_world \<Rightarrow> tcp_world" where
  "close_client_if_bad io i w =
     (let s = server w; fd = socket (clients s ! i) in
      if fd < 0 then w
      else if fd \<notin> set (read_sockets s) \<and> fd \<notin> set (write_sockets s) then w
      else if client_is_bad io i then client_close i w else w)"

definition server_socket_fail :: "tcp_world \<Rightarrow> tcp_world" where
  "server_socket_fail w =
     (if server_socket (server w) \<noteq> - 1
      then (close_socket (server_socket (server w)) w)\<lparr>server := (server w)\<lparr>server_socket := - 1\<rparr>\<rparr> else w)"

definition serve_sockets :: "tcp_io \<Rightarrow> tcp_world \<Rightarrow> tcp_world" where
  "serve_sockets io w =
     clean_expired_response (clients_update io
       (if server_socket (server w) \<in> set (read_sockets (server w)) then server_accept io w else w))"

text \<open>The places of \<open>tcp_task\<close>: opening the listening socket, and the select loop.\<close>

datatype tcp_place = Opening | Selecting

definition open_listener :: "tcp_io \<Rightarrow> tcp_world \<Rightarrow> tcp_place \<times> tcp_world" where
  "open_listener io w =
     (let fd = listener_socket io;
          w1 = w\<lparr>server := (server w)\<lparr>server_socket := fd\<rparr>, open_sockets := (if fd < 0 then open_sockets w else fd # open_sockets w)\<rparr>
      in if fd < 0 then (Opening, server_socket_fail w1)
         else if \<not> listener_ready io then (Opening, server_socket_fail w1)
         else (Selecting, w1))"

definition tcp_iteration :: "tcp_io \<Rightarrow> tcp_world \<Rightarrow> tcp_place \<times> tcp_world" where
  "tcp_iteration io w =
     (let w1 = w\<lparr>kern := watchdog_report WATCHDOG_EVENT_MODBUS_TCP (kern w), server := select_sockets io (server w)\<rparr> in
      case select_result io of
        Select_EINTR \<Rightarrow> (Selecting, w1)
      | Select_EBADF \<Rightarrow>
          if listener_is_bad io
          then (Opening, server_socket_fail (fold close_client_if_open [0..<MODBUS_TCP_SERVER_MAX_CLIENTS] w1))
          else (Selecting, serve_sockets io (fold (close_client_if_bad io) [0..<MODBUS_TCP_SERVER_MAX_CLIENTS] w1))
      | Select_Error \<Rightarrow> (Selecting, clean_expired_response w1)
      | Select_Ready \<Rightarrow> (Selecting, serve_sockets io w1))"

fun tcp_task :: "tcp_io \<Rightarrow> tcp_place \<times> tcp_world \<Rightarrow> tcp_place \<times> tcp_world" where
  "tcp_task io (Opening, w) = open_listener io w"
| "tcp_task io (Selecting, w) = tcp_iteration io w"

text \<open>Initialisation; \<open>task_created\<close> is the outcome of the task creation.\<close>

definition zero_client :: modbus_tcp_server_client_t where
  "zero_client = \<lparr>socket = 0, client_state = MODBUS_TCP_SERVER_CLIENT_STATE_RECEIVING_TCP_REQUEST,
     recv_buffer = replicate MODBUS_TCP_ADU_MAX_LENGTH 0, recv_count = 0, last_recv_time = 0, rtu_token = 0,
     rtu_response_timeout_ms = 0, rtu_adu = None, send_buffer = replicate MODBUS_TCP_ADU_MAX_LENGTH 0, send_length = 0,
     send_offset = 0, send_start_time_ms = 0\<rparr>"

definition modbus_tcp_server_init ::
  "bool \<Rightarrow> modbus_tcp_server_t ptr \<Rightarrow> modbus_tcp_server_config_t ptr \<Rightarrow> modbus_tcp_server_result_t \<times> modbus_tcp_server_t ptr" where
  "modbus_tcp_server_init task_created p config =
     (case (p, config) of
        (Some s, Some cfg) \<Rightarrow>
          if server_state s \<noteq> MODBUS_TCP_SERVER_STATE_UNINITIALIZED then (MODBUS_TCP_SERVER_INVALID_STATE, p)
          else if cfg_request_queue cfg = None \<or> cfg_response_queue cfg = None \<or> cfg_listen_port cfg = 0 \<or>
                  cfg_response_timeout_ms cfg < MODBUS_TCP_RESPONSE_TIMEOUT_MIN_MS \<or>
                  cfg_response_timeout_ms cfg > MODBUS_TCP_RESPONSE_TIMEOUT_MAX_MS \<or>
                  cfg_task_name cfg = None \<or> cfg_task_stack cfg = None \<or> cfg_task_stack_depth cfg = 0 \<or>
                  cfg_task_buffer cfg = None \<or> cfg_task_priority cfg \<ge> configMAX_PRIORITIES
          then (MODBUS_TCP_SERVER_INVALID_ARGUMENT, p)
          else let s1 = \<lparr>server_state = MODBUS_TCP_SERVER_STATE_UNINITIALIZED, listener_port = cfg_listen_port cfg,
                         response_timeout_ms = cfg_response_timeout_ms cfg, request_queue = cfg_request_queue cfg,
                         response_queue = cfg_response_queue cfg, tcp_task_handle = None, available_token = 0,
                         read_sockets = [], write_sockets = [], server_socket = - 1,
                         clients = replicate MODBUS_TCP_SERVER_MAX_CLIENTS (zero_client\<lparr>socket := - 1\<rparr>)\<rparr>
               in if \<not> task_created
                  then (MODBUS_TCP_SERVER_TASK_CREATE_FAILED,
                        Some (s1\<lparr>request_queue := None, response_queue := None, server_state := MODBUS_TCP_SERVER_STATE_FAILED\<rparr>))
                  else (MODBUS_TCP_SERVER_OK,
                        Some (s1\<lparr>tcp_task_handle := Some (), server_state := MODBUS_TCP_SERVER_STATE_RUNNING\<rparr>))
      | _ \<Rightarrow> (MODBUS_TCP_SERVER_INVALID_ARGUMENT, p))"

end
