(* ===== verification/Modbus_TCP_Invariant.thy ===== *)
theory Modbus_TCP_Invariant
  imports Modbus_TCP_Server "HOL-Library.Multiset"
begin

text \<open>
  What the TCP server promises. \<open>tcp_inv\<close> says who holds which ADU and which token, and what is in every buffer;
  \<open>tcp_event\<close> is an abstract server whose seven kinds of event each keep it. The theory \<open>Modbus_TCP_Operations\<close>
  shows that every operation of the code is a sequence of these events.
\<close>

section \<open>Requests and replies\<close>

text \<open>A TCP frame that echoes the transaction id at the start of \<open>buffer\<close> and carries \<open>pdu\<close>, unit id first.\<close>

definition mbap :: "u8 list \<Rightarrow> u8 list \<Rightarrow> u8 list" where
  "mbap buffer pdu = take 2 buffer @ [0, 0, byte_at 1 (of_nat (length pdu) :: u16), byte_at 0 (of_nat (length pdu) :: u16)] @ pdu"

text \<open>The unit id and the PDU of the request in the receive buffer.\<close>

definition request_pdu_of :: "u8 list \<Rightarrow> u8 list" where
  "request_pdu_of buffer = take (unat (get_length_field buffer)) (drop 6 buffer)"

definition header_ok :: "u8 list \<Rightarrow> bool" where
  "header_ok buffer \<longleftrightarrow> get_length_field buffer \<le> MODBUS_TCP_MAX_MBAP_LENGTH \<and>
     MODBUS_TCP_MIN_MBAP_LENGTH \<le> get_length_field buffer \<and> get_protocol_id buffer = 0"

text \<open>
  A reply to the request in \<open>buffer\<close>: an exception, or the bytes of an RTU response that the transaction
  accepted for an RTU request with exactly the bytes of this TCP request.
\<close>

definition reply_for :: "u8 list \<Rightarrow> u8 list \<Rightarrow> bool" where
  "reply_for buffer bytes \<longleftrightarrow>
     (\<exists>code. bytes = mbap buffer [buffer ! 6, (buffer ! 7) OR 0x80, code]) \<or>
     (\<exists>req resp. modbus_rtu_validate_request (Some req) = MODBUS_RTU_OK \<and> adu_body req = request_pdu_of buffer \<and>
        response_check req resp \<in> {MODBUS_RTU_TRANSACTION_OK, MODBUS_RTU_TRANSACTION_EXCEPTION_RESPONSE} \<and>
        bytes = mbap buffer (adu_body resp))"

definition live :: "modbus_tcp_server_client_t \<Rightarrow> modbus_tcp_server_client_state_t \<Rightarrow> bool" where
  "live c st \<longleftrightarrow> socket c \<ge> 0 \<and> client_state c = st"

abbreviation "receiving \<equiv> MODBUS_TCP_SERVER_CLIENT_STATE_RECEIVING_TCP_REQUEST"
abbreviation "submitting \<equiv> MODBUS_TCP_SERVER_CLIENT_STATE_WAITING_FOR_RTU_SUBMIT"
abbreviation "waiting \<equiv> MODBUS_TCP_SERVER_CLIENT_STATE_WAITING_FOR_RTU_RESPONSE"
abbreviation "sending \<equiv> MODBUS_TCP_SERVER_CLIENT_STATE_SENDING_TCP_RESPONSE"

definition client_ok :: "modbus_tcp_server_client_t \<Rightarrow> bool" where
  "client_ok c \<longleftrightarrow> length (recv_buffer c) = MODBUS_TCP_ADU_MAX_LENGTH \<and> length (send_buffer c) = MODBUS_TCP_ADU_MAX_LENGTH \<and>
     (rtu_adu c \<noteq> None \<longleftrightarrow> live c submitting) \<and>
     (live c receiving \<longrightarrow> recv_count c < MODBUS_TCP_ADU_MBAP_HEADER_LENGTH \<or>
        header_ok (recv_buffer c) \<and> recv_count c < unat (get_length_field (recv_buffer c)) + 6) \<and>
     (live c submitting \<or> live c waiting \<or> live c sending \<longrightarrow>
        header_ok (recv_buffer c) \<and> recv_count c = unat (get_length_field (recv_buffer c)) + 6) \<and>
     (live c sending \<longrightarrow> send_offset c < send_length c \<and> send_length c \<le> MODBUS_TCP_ADU_MAX_LENGTH)"

definition reply_ok :: "modbus_tcp_server_client_t \<Rightarrow> bool" where
  "reply_ok c \<longleftrightarrow> (live c sending \<longrightarrow> reply_for (recv_buffer c) (take (send_length c) (send_buffer c)))"

section \<open>The invariant\<close>

text \<open>The ADUs the server and its queues hold: those of clients about to submit, and those in the two queues.\<close>

definition client_adus :: "modbus_tcp_server_client_t list \<Rightarrow> nat list" where
  "client_adus cs = concat (map (\<lambda>c. case rtu_adu c of None \<Rightarrow> [] | Some a \<Rightarrow> [a]) cs)"

definition requests_of :: "QueueHandle_t \<Rightarrow> tcp_world \<Rightarrow> request_t list" where
  "requests_of tq w = request_queues (kern w) tq"

definition responses_of :: "QueueHandle_t \<Rightarrow> tcp_world \<Rightarrow> response_t list" where
  "responses_of tr w = response_queues (kern w) tr"

definition owned :: "QueueHandle_t \<Rightarrow> QueueHandle_t \<Rightarrow> tcp_world \<Rightarrow> nat list" where
  "owned tq tr w = client_adus (clients (server w)) @ map rq_rtu_adu (requests_of tq w) @ map rs_rtu_adu (responses_of tr w)"

text \<open>The tokens that name a request on its way: of clients about to submit, and in the two queues.\<close>

definition submit_tokens :: "modbus_tcp_server_client_t list \<Rightarrow> u32 list" where
  "submit_tokens cs = map rtu_token (filter (\<lambda>c. live c submitting) cs)"

definition wait_tokens :: "modbus_tcp_server_client_t list \<Rightarrow> u32 list" where
  "wait_tokens cs = map rtu_token (filter (\<lambda>c. live c waiting) cs)"

definition queue_tokens :: "QueueHandle_t \<Rightarrow> QueueHandle_t \<Rightarrow> tcp_world \<Rightarrow> u32 list" where
  "queue_tokens tq tr w = map rq_token (requests_of tq w) @ map rs_token (responses_of tr w)"

definition adu_of :: "tcp_world \<Rightarrow> nat \<Rightarrow> modbus_rtu_adu_t" where
  "adu_of w a = pool_adus (tcp_pool w) ! a"

definition good_result :: "modbus_rtu_transaction_result_t \<Rightarrow> bool" where
  "good_result r \<longleftrightarrow> r = MODBUS_RTU_TRANSACTION_OK \<or> r = MODBUS_RTU_TRANSACTION_EXCEPTION_RESPONSE"

text \<open>What the entries of the queues are: validated requests, and responses accepted for one.\<close>

definition request_entry_ok :: "tcp_world \<Rightarrow> request_t \<Rightarrow> bool" where
  "request_entry_ok w q \<longleftrightarrow> modbus_rtu_validate_request (Some (adu_of w (rq_rtu_adu q))) = MODBUS_RTU_OK"

definition response_entry_ok :: "tcp_world \<Rightarrow> response_t \<Rightarrow> bool" where
  "response_entry_ok w r \<longleftrightarrow> (good_result (rs_result r) \<longrightarrow>
     4 \<le> unat (adu_length (adu_of w (rs_rtu_adu r))) \<and> unat (adu_length (adu_of w (rs_rtu_adu r))) \<le> 255)"

definition shape_inv :: "QueueHandle_t \<Rightarrow> QueueHandle_t \<Rightarrow> tcp_world \<Rightarrow> bool" where
  "shape_inv tq tr w \<longleftrightarrow> request_queue (server w) = Some tq \<and> response_queue (server w) = Some tr \<and>
     length (clients (server w)) = MODBUS_TCP_SERVER_MAX_CLIENTS \<and> list_all client_ok (clients (server w)) \<and>
     pool_inv (tcp_pool w) \<and> distinct (owned tq tr w) \<and> set (owned tq tr w) \<subseteq> {0..<6} - free_adus (tcp_pool w) \<and>
     list_all (request_entry_ok w) (requests_of tq w) \<and> list_all (response_entry_ok w) (responses_of tr w) \<and>
     list_all (\<lambda>c. live c submitting \<longrightarrow> modbus_rtu_validate_request (Some (adu_of w (the (rtu_adu c)))) = MODBUS_RTU_OK \<and>
        adu_body (adu_of w (the (rtu_adu c))) = request_pdu_of (recv_buffer c)) (clients (server w))"

text \<open>
  While fewer than \<open>2 ^ 32\<close> requests have been accepted, tokens are unique: no two requests on their way share one,
  and each waiting client has its request in exactly one of the two queues, with the bytes it sent.
\<close>

definition request_of_client :: "tcp_world \<Rightarrow> modbus_tcp_server_client_t \<Rightarrow> request_t \<Rightarrow> bool" where
  "request_of_client w c q \<longleftrightarrow> adu_body (adu_of w (rq_rtu_adu q)) = request_pdu_of (recv_buffer c)"

definition response_of_client :: "tcp_world \<Rightarrow> modbus_tcp_server_client_t \<Rightarrow> response_t \<Rightarrow> bool" where
  "response_of_client w c r \<longleftrightarrow> (good_result (rs_result r) \<longrightarrow>
     (\<exists>req. modbus_rtu_validate_request (Some req) = MODBUS_RTU_OK \<and> adu_body req = request_pdu_of (recv_buffer c) \<and>
        response_check req (adu_of w (rs_rtu_adu r)) = rs_result r))"

definition token_inv :: "QueueHandle_t \<Rightarrow> QueueHandle_t \<Rightarrow> tcp_world \<Rightarrow> bool" where
  "token_inv tq tr w \<longleftrightarrow>
     list_all (\<lambda>t. unat t < issued w) (submit_tokens (clients (server w)) @ queue_tokens tq tr w) \<and>
     available_token (server w) = of_nat (issued w) \<and>
     distinct (submit_tokens (clients (server w)) @ queue_tokens tq tr w) \<and> distinct (wait_tokens (clients (server w))) \<and>
     set (wait_tokens (clients (server w))) \<subseteq> set (queue_tokens tq tr w) \<and>
     list_all (\<lambda>c. live c waiting \<longrightarrow>
        list_all (\<lambda>q. rq_token q = rtu_token c \<longrightarrow> request_of_client w c q) (requests_of tq w) \<and>
        list_all (\<lambda>r. rs_token r = rtu_token c \<longrightarrow> response_of_client w c r) (responses_of tr w)) (clients (server w)) \<and>
     list_all reply_ok (clients (server w))"

definition tcp_inv :: "QueueHandle_t \<Rightarrow> QueueHandle_t \<Rightarrow> tcp_world \<Rightarrow> bool" where
  "tcp_inv tq tr w \<longleftrightarrow> shape_inv tq tr w \<and> (issued w \<le> 2 ^ 32 \<longrightarrow> token_inv tq tr w)"

section \<open>The abstract server\<close>

text \<open>
  What the server does to the things that can go wrong, as a transition system: every operation of the code is a
  sequence of these events, and each event keeps the invariant.
\<close>

definition frame_ok :: "tcp_world \<Rightarrow> tcp_world \<Rightarrow> bool" where
  "frame_ok w w' \<longleftrightarrow> request_queue (server w') = request_queue (server w) \<and> response_queue (server w') = response_queue (server w)"

text \<open>The pool changes only in ADUs nobody holds.\<close>

definition pool_kept :: "tcp_world \<Rightarrow> tcp_world \<Rightarrow> bool" where
  "pool_kept w w' \<longleftrightarrow> pool_inv (tcp_pool w') \<and> free_adus (tcp_pool w') = free_adus (tcp_pool w) \<and>
     (\<forall>a. a < 6 \<and> a \<notin> free_adus (tcp_pool w) \<longrightarrow> adu_of w' a = adu_of w a)"

inductive tcp_event :: "QueueHandle_t \<Rightarrow> QueueHandle_t \<Rightarrow> tcp_world \<Rightarrow> tcp_world \<Rightarrow> bool" for tq tr where
  server_changed: "frame_ok w w' \<Longrightarrow> clients (server w') = clients (server w) \<Longrightarrow> requests_of tq w' = requests_of tq w \<Longrightarrow>
    responses_of tr w' = responses_of tr w \<Longrightarrow> available_token (server w') = available_token (server w) \<Longrightarrow>
    issued w' = issued w \<Longrightarrow> tcp_pool w' = tcp_pool w \<Longrightarrow> tcp_event tq tr w w'"
| client_changed: "frame_ok w w' \<Longrightarrow> clients (server w) = xs @ c # ys \<Longrightarrow> clients (server w') = xs @ c' # ys \<Longrightarrow>
    requests_of tq w' = requests_of tq w \<Longrightarrow> responses_of tr w' = responses_of tr w \<Longrightarrow>
    available_token (server w') = available_token (server w) \<Longrightarrow> issued w' = issued w \<Longrightarrow> pool_kept w w' \<Longrightarrow>
    rtu_adu c = None \<Longrightarrow> client_ok c' \<Longrightarrow> \<not> live c' submitting \<Longrightarrow> \<not> live c' waiting \<Longrightarrow>
    (reply_ok c \<Longrightarrow> reply_ok c') \<Longrightarrow> tcp_event tq tr w w'"
| client_aborted: "frame_ok w w' \<Longrightarrow> clients (server w) = xs @ c # ys \<Longrightarrow> clients (server w') = xs @ c' # ys \<Longrightarrow>
    requests_of tq w' = requests_of tq w \<Longrightarrow> responses_of tr w' = responses_of tr w \<Longrightarrow>
    available_token (server w') = available_token (server w) \<Longrightarrow> issued w' = issued w \<Longrightarrow> rtu_adu c = Some a \<Longrightarrow>
    tcp_pool w' = modbus_rtu_adu_pool_release a (tcp_pool w) \<Longrightarrow> client_ok c' \<Longrightarrow> socket c' < 0 \<Longrightarrow> tcp_event tq tr w w'"
| request_accepted: "frame_ok w w' \<Longrightarrow> clients (server w) = xs @ c # ys \<Longrightarrow> clients (server w') = xs @ c' # ys \<Longrightarrow>
    requests_of tq w' = requests_of tq w \<Longrightarrow> responses_of tr w' = responses_of tr w \<Longrightarrow>
    available_token (server w') = available_token (server w) + 1 \<Longrightarrow> issued w' = issued w + 1 \<Longrightarrow>
    rtu_adu c = None \<Longrightarrow> \<not> live c submitting \<Longrightarrow> client_ok c' \<Longrightarrow> live c' submitting \<Longrightarrow> rtu_adu c' = Some a \<Longrightarrow>
    rtu_token c' = available_token (server w) \<Longrightarrow> a \<in> free_adus (tcp_pool w) \<Longrightarrow> pool_inv (tcp_pool w') \<Longrightarrow>
    free_adus (tcp_pool w') = free_adus (tcp_pool w) - {a} \<Longrightarrow>
    (\<And>a'. a' < 6 \<Longrightarrow> a' \<notin> free_adus (tcp_pool w) \<Longrightarrow> adu_of w' a' = adu_of w a') \<Longrightarrow>
    modbus_rtu_validate_request (Some (adu_of w' a)) = MODBUS_RTU_OK \<Longrightarrow>
    adu_body (adu_of w' a) = request_pdu_of (recv_buffer c') \<Longrightarrow> tcp_event tq tr w w'"
| request_submitted: "frame_ok w w' \<Longrightarrow> clients (server w) = xs @ c # ys \<Longrightarrow> clients (server w') = xs @ c' # ys \<Longrightarrow>
    requests_of tq w' = requests_of tq w @ [q] \<Longrightarrow> responses_of tr w' = responses_of tr w \<Longrightarrow>
    available_token (server w') = available_token (server w) \<Longrightarrow> issued w' = issued w \<Longrightarrow> tcp_pool w' = tcp_pool w \<Longrightarrow>
    rtu_adu c = Some (rq_rtu_adu q) \<Longrightarrow> rq_token q = rtu_token c \<Longrightarrow>
    c' = c\<lparr>client_state := waiting, rtu_adu := None\<rparr> \<Longrightarrow> tcp_event tq tr w w'"
| response_taken: "frame_ok w w' \<Longrightarrow> clients (server w) = xs @ c # ys \<Longrightarrow> clients (server w') = xs @ c' # ys \<Longrightarrow>
    requests_of tq w' = requests_of tq w \<Longrightarrow> responses_of tr w = r # responses_of tr w' \<Longrightarrow>
    available_token (server w') = available_token (server w) \<Longrightarrow> issued w' = issued w \<Longrightarrow>
    tcp_pool w' = modbus_rtu_adu_pool_release (rs_rtu_adu r) (tcp_pool w) \<Longrightarrow> live c waiting \<Longrightarrow> rs_token r = rtu_token c \<Longrightarrow>
    client_ok c' \<Longrightarrow> live c' sending \<Longrightarrow> (response_of_client w c r \<Longrightarrow> reply_ok c') \<Longrightarrow> tcp_event tq tr w w'"
| response_dropped: "frame_ok w w' \<Longrightarrow> clients (server w') = clients (server w) \<Longrightarrow> requests_of tq w' = requests_of tq w \<Longrightarrow>
    responses_of tr w = r # responses_of tr w' \<Longrightarrow> available_token (server w') = available_token (server w) \<Longrightarrow>
    issued w' = issued w \<Longrightarrow> tcp_pool w' = modbus_rtu_adu_pool_release (rs_rtu_adu r) (tcp_pool w) \<Longrightarrow>
    rs_token r \<notin> set (wait_tokens (clients (server w))) \<Longrightarrow> tcp_event tq tr w w'"

lemma client_adus_append [simp]:
  "client_adus [] = []" "client_adus (c # cs) = (case rtu_adu c of None \<Rightarrow> [] | Some a \<Rightarrow> [a]) @ client_adus cs"
  "client_adus (xs @ ys) = client_adus xs @ client_adus ys"
  by (simp_all add: client_adus_def)

lemma tokens_append [simp]:
  "submit_tokens [] = []" "submit_tokens (c # cs) = (if live c submitting then [rtu_token c] else []) @ submit_tokens cs"
  "submit_tokens (xs @ ys) = submit_tokens xs @ submit_tokens ys"
  "wait_tokens [] = []" "wait_tokens (c # cs) = (if live c waiting then [rtu_token c] else []) @ wait_tokens cs"
  "wait_tokens (xs @ ys) = wait_tokens xs @ wait_tokens ys"
  by (simp_all add: submit_tokens_def wait_tokens_def)

text \<open>Effects of the pool operations on what the queues and clients hold.\<close>

lemma release_inv:
  assumes "pool_inv p" "a < 6"
  shows "pool_inv (modbus_rtu_adu_pool_release a p)" "free_adus (modbus_rtu_adu_pool_release a p) = insert a (free_adus p)"
  using pool.release_free [OF assms(1), of a] assms(2) by auto

lemma release_other: "b \<noteq> a \<Longrightarrow> pool_adus (modbus_rtu_adu_pool_release a p) ! b = pool_adus p ! b"
  by (simp add: modbus_rtu_adu_pool_release_def)

text \<open>The entries and clients only look at the ADUs they own.\<close>

lemma owned_kept:
  assumes "\<And>a. a \<in> set (owned tq tr w) \<Longrightarrow> adu_of w' a = adu_of w a"
  shows "q \<in> set (requests_of tq w) \<Longrightarrow> request_entry_ok w' q = request_entry_ok w q"
    "r \<in> set (responses_of tr w) \<Longrightarrow> response_entry_ok w' r = response_entry_ok w r"
    "q \<in> set (requests_of tq w) \<Longrightarrow> request_of_client w' c q = request_of_client w c q"
    "r \<in> set (responses_of tr w) \<Longrightarrow> response_of_client w' c r = response_of_client w c r"
    "d \<in> set (clients (server w)) \<Longrightarrow> rtu_adu d = Some a \<Longrightarrow> adu_of w' a = adu_of w a"
proof -
  have q: "adu_of w' (rq_rtu_adu q) = adu_of w (rq_rtu_adu q)" if "q \<in> set (requests_of tq w)" for q
    using that by (intro assms) (simp add: owned_def)
  have r: "adu_of w' (rs_rtu_adu r) = adu_of w (rs_rtu_adu r)" if "r \<in> set (responses_of tr w)" for r
    using that by (intro assms) (simp add: owned_def)
  show "q \<in> set (requests_of tq w) \<Longrightarrow> request_entry_ok w' q = request_entry_ok w q"
    "r \<in> set (responses_of tr w) \<Longrightarrow> response_entry_ok w' r = response_entry_ok w r"
    "q \<in> set (requests_of tq w) \<Longrightarrow> request_of_client w' c q = request_of_client w c q"
    "r \<in> set (responses_of tr w) \<Longrightarrow> response_of_client w' c r = response_of_client w c r"
    using q r by (simp_all add: request_entry_ok_def response_entry_ok_def request_of_client_def response_of_client_def)
  show "d \<in> set (clients (server w)) \<Longrightarrow> rtu_adu d = Some a \<Longrightarrow> adu_of w' a = adu_of w a"
    by (intro assms) (auto simp: owned_def client_adus_def intro!: bexI [of _ d])
qed

definition submit_ok :: "tcp_world \<Rightarrow> modbus_tcp_server_client_t \<Rightarrow> bool" where
  "submit_ok w c \<longleftrightarrow> (live c submitting \<longrightarrow> modbus_rtu_validate_request (Some (adu_of w (the (rtu_adu c)))) = MODBUS_RTU_OK \<and>
     adu_body (adu_of w (the (rtu_adu c))) = request_pdu_of (recv_buffer c))"

lemma shape_inv_iff: "shape_inv tq tr w \<longleftrightarrow> request_queue (server w) = Some tq \<and> response_queue (server w) = Some tr \<and>
     length (clients (server w)) = 4 \<and> list_all client_ok (clients (server w)) \<and>
     pool_inv (tcp_pool w) \<and> distinct (owned tq tr w) \<and> set (owned tq tr w) \<subseteq> {0..<6} - free_adus (tcp_pool w) \<and>
     list_all (request_entry_ok w) (requests_of tq w) \<and> list_all (response_entry_ok w) (responses_of tr w) \<and>
     list_all (submit_ok w) (clients (server w))"
  by (simp add: shape_inv_def submit_ok_def [abs_def])

lemma kept_list_all:
  assumes k: "\<And>a. a \<in> set (owned tq tr w) \<Longrightarrow> adu_of w' a = adu_of w a"
  shows "list_all (request_entry_ok w') (requests_of tq w) = list_all (request_entry_ok w) (requests_of tq w)"
    "list_all (response_entry_ok w') (responses_of tr w) = list_all (response_entry_ok w) (responses_of tr w)"
    "set cs \<subseteq> set (clients (server w)) \<Longrightarrow> list_all client_ok cs \<Longrightarrow> list_all (submit_ok w') cs = list_all (submit_ok w) cs"
proof -
  note o = owned_kept [where w' = w' and w = w, OF k]
  show "list_all (request_entry_ok w') (requests_of tq w) = list_all (request_entry_ok w) (requests_of tq w)"
    "list_all (response_entry_ok w') (responses_of tr w) = list_all (response_entry_ok w) (responses_of tr w)"
    using o(1,2) by (auto simp: list_all_iff)
  assume cs: "set cs \<subseteq> set (clients (server w))" "list_all client_ok cs"
  have "submit_ok w' c = submit_ok w c" if c: "c \<in> set cs" for c
  proof (cases "live c submitting")
    case True
    then obtain a where a: "rtu_adu c = Some a" using cs(2) c by (auto simp: list_all_iff client_ok_def)
    have "adu_of w' a = adu_of w a" by (rule owned_kept(5) [where w' = w' and w = w, OF k _ a]) (use cs(1) c in auto)
    then show ?thesis by (simp add: submit_ok_def a)
  qed (simp add: submit_ok_def)
  then show "list_all (submit_ok w') cs = list_all (submit_ok w) cs" by (simp add: list_all_iff)
qed

lemma release_step:
  assumes i: "shape_inv tq tr w" and p: "tcp_pool w' = modbus_rtu_adu_pool_release a (tcp_pool w)"
    and o: "set (owned tq tr w) = insert a (set (owned tq tr w'))" "a \<notin> set (owned tq tr w')"
  shows "pool_inv (tcp_pool w')" "set (owned tq tr w') \<subseteq> {0..<6} - free_adus (tcp_pool w')"
    "b \<in> set (owned tq tr w') \<Longrightarrow> adu_of w b = adu_of w' b"
proof -
  have "pool_inv (tcp_pool w)" "a < 6" using i o(1) by (auto simp: shape_inv_iff)
  note r = release_inv [OF this]
  show "pool_inv (tcp_pool w')" "set (owned tq tr w') \<subseteq> {0..<6} - free_adus (tcp_pool w')"
    using i o r p by (auto simp: shape_inv_iff)
  assume "b \<in> set (owned tq tr w')"
  then have "b \<noteq> a" using o(2) by auto
  then show "adu_of w b = adu_of w' b" using p by (simp add: adu_of_def release_other)
qed

lemma event_shape:
  assumes e: "tcp_event tq tr w w'" and i: "shape_inv tq tr w"
  shows "shape_inv tq tr w'"
  using e
proof cases
  case server_changed
  then show ?thesis using i
    by (simp add: shape_inv_iff frame_ok_def owned_def request_entry_ok_def [abs_def] response_entry_ok_def [abs_def] adu_of_def
        submit_ok_def [abs_def])
next
  case (client_changed xs c ys c')
  have k: "adu_of w' a = adu_of w a" if "a \<in> set (owned tq tr w)" for a
    using that i client_changed(8) by (auto simp: shape_inv_iff pool_kept_def)
  have "rtu_adu c' = None" using client_changed(10,11) by (auto simp: client_ok_def)
  then have o: "owned tq tr w' = owned tq tr w" using client_changed by (simp add: owned_def)
  have s: "list_all (submit_ok w') xs" "list_all (submit_ok w') ys"
    using kept_list_all(3) [where w' = w' and w = w, OF k] i client_changed(2) by (auto simp: shape_inv_iff)
  show ?thesis
    using i client_changed o s kept_list_all(1,2) [where w' = w' and w = w, OF k]
    by (auto simp: shape_inv_iff frame_ok_def pool_kept_def submit_ok_def)
next
  case (client_aborted xs c ys c' a)
  have n: "rtu_adu c' = None" using client_aborted(10,11) by (auto simp: client_ok_def live_def)
  have d: "set (owned tq tr w) = insert a (set (owned tq tr w'))" "a \<notin> set (owned tq tr w')" "distinct (owned tq tr w')"
    using i client_aborted(2,3,4,5,8) n by (auto simp: shape_inv_iff owned_def)
  note r = release_step [OF i client_aborted(9) d(1,2)]
  note k = kept_list_all [where w = w' and w' = w and tq = tq and tr = tr, OF r(3)]
  have q: "list_all (request_entry_ok w') (requests_of tq w')" "list_all (response_entry_ok w') (responses_of tr w')"
    using i k(1,2) client_aborted(4,5) by (auto simp: shape_inv_iff)
  have sb: "list_all (submit_ok w') xs" "list_all (submit_ok w') ys"
    using i k(3) [of "xs @ ys"] client_aborted(2,3) by (auto simp: shape_inv_iff)
  show ?thesis
    using i client_aborted d(3) r(1,2) q sb
    by (auto simp: shape_inv_iff frame_ok_def submit_ok_def live_def)
next
  case (request_accepted xs c ys c' a)
  have k: "adu_of w' b = adu_of w b" if "b \<in> set (owned tq tr w)" for b
    using that i request_accepted(17) by (auto simp: shape_inv_iff)
  have s: "list_all (submit_ok w') xs" "list_all (submit_ok w') ys"
    using kept_list_all(3) [where w' = w' and w = w, OF k] i request_accepted(2) by (auto simp: shape_inv_iff)
  have sub: "free_adus (tcp_pool w) \<subseteq> {0..<6}" using i pool.free_subset [of "tcp_pool w"] by (simp add: shape_inv_iff)
  have "a \<notin> set (owned tq tr w)" using i request_accepted(14) by (auto simp: shape_inv_iff)
  then have o: "distinct (owned tq tr w')" "set (owned tq tr w') = insert a (set (owned tq tr w))"
    using i request_accepted(2-5,8,12) by (auto simp: shape_inv_iff owned_def)
  have "set (owned tq tr w') \<subseteq> {0..<6} - free_adus (tcp_pool w')"
    using o(2) i sub request_accepted(14,16) by (auto simp: shape_inv_iff)
  then show ?thesis
    using i request_accepted o(1) s kept_list_all(1,2) [where w' = w' and w = w, OF k]
    by (auto simp: shape_inv_iff frame_ok_def submit_ok_def)
next
  case (request_submitted xs c ys c' q)
  have l: "live c submitting" using i request_submitted(2,9) by (auto simp: shape_inv_iff client_ok_def)
  have ok: "client_ok c'" using i request_submitted(2) l by (auto simp: shape_inv_iff client_ok_def live_def request_submitted(11))
  have n: "rtu_adu c' = None" by (simp add: request_submitted(11))
  have m: "mset (owned tq tr w') = mset (owned tq tr w)"
    using request_submitted(2-5,9) n by (simp add: owned_def)
  have o: "distinct (owned tq tr w')" "set (owned tq tr w') = set (owned tq tr w)"
    using i mset_eq_imp_distinct_iff [OF m] mset_eq_setD [OF m] by (simp_all add: shape_inv_iff)
  have k: "adu_of w' b = adu_of w b" for b by (simp add: adu_of_def request_submitted(8))
  have "submit_ok w c" using i request_submitted(2) by (simp add: shape_inv_iff)
  then have "request_entry_ok w' q" using l request_submitted(9) by (simp add: submit_ok_def request_entry_ok_def k)
  moreover have "\<not> live c' submitting" by (simp add: request_submitted(11) live_def)
  ultimately show ?thesis
    using i request_submitted(1-8) ok o kept_list_all [where w' = w' and w = w, OF k]
    by (auto simp: shape_inv_iff frame_ok_def submit_ok_def k list_all_iff request_entry_ok_def response_entry_ok_def)
next
  case (response_taken xs c ys c' r)
  have n: "rtu_adu c = None" "rtu_adu c' = None"
    using i response_taken(2,9,11,12) by (auto simp: shape_inv_iff client_ok_def live_def)
  have d: "set (owned tq tr w) = insert (rs_rtu_adu r) (set (owned tq tr w'))" "rs_rtu_adu r \<notin> set (owned tq tr w')"
    "distinct (owned tq tr w')"
    using i response_taken(2-5) n by (auto simp: shape_inv_iff owned_def)
  note r = release_step [OF i response_taken(8) d(1,2)]
  note k = kept_list_all [where w = w' and w' = w and tq = tq and tr = tr, OF r(3)]
  have q: "list_all (request_entry_ok w') (requests_of tq w')" "list_all (response_entry_ok w') (responses_of tr w')"
    using i k(1,2) response_taken(4,5) by (auto simp: shape_inv_iff)
  have sb: "list_all (submit_ok w') xs" "list_all (submit_ok w') ys"
    using i k(3) [of "xs @ ys"] response_taken(2,3) by (auto simp: shape_inv_iff)
  show ?thesis
    using i response_taken d(3) r(1,2) q sb
    by (auto simp: shape_inv_iff frame_ok_def submit_ok_def live_def)
next
  case (response_dropped r)
  have d: "set (owned tq tr w) = insert (rs_rtu_adu r) (set (owned tq tr w'))" "rs_rtu_adu r \<notin> set (owned tq tr w')"
    "distinct (owned tq tr w')"
    using i response_dropped(2-4) by (auto simp: shape_inv_iff owned_def)
  note r = release_step [OF i response_dropped(7) d(1,2)]
  note k = kept_list_all [where w = w' and w' = w and tq = tq and tr = tr, OF r(3)]
  have q: "list_all (request_entry_ok w') (requests_of tq w')" "list_all (response_entry_ok w') (responses_of tr w')"
    using i k(1,2) response_dropped(3,4) by (auto simp: shape_inv_iff)
  have sb: "list_all (submit_ok w') (clients (server w))"
    using i k(3) [of "clients (server w)"] response_dropped(2) by (auto simp: shape_inv_iff)
  show ?thesis
    using i response_dropped d(3) r(1,2) q sb
    by (auto simp: shape_inv_iff frame_ok_def)
qed

definition waiting_ok :: "QueueHandle_t \<Rightarrow> QueueHandle_t \<Rightarrow> tcp_world \<Rightarrow> modbus_tcp_server_client_t \<Rightarrow> bool" where
  "waiting_ok tq tr w c \<longleftrightarrow> (live c waiting \<longrightarrow>
     (\<forall>q \<in> set (requests_of tq w). rq_token q = rtu_token c \<longrightarrow> request_of_client w c q) \<and>
     (\<forall>r \<in> set (responses_of tr w). rs_token r = rtu_token c \<longrightarrow> response_of_client w c r))"

lemma token_inv_iff: "token_inv tq tr w \<longleftrightarrow>
     (\<forall>t \<in> set (submit_tokens (clients (server w)) @ queue_tokens tq tr w). unat t < issued w) \<and>
     available_token (server w) = of_nat (issued w) \<and>
     distinct (submit_tokens (clients (server w)) @ queue_tokens tq tr w) \<and> distinct (wait_tokens (clients (server w))) \<and>
     set (wait_tokens (clients (server w))) \<subseteq> set (queue_tokens tq tr w) \<and>
     list_all (waiting_ok tq tr w) (clients (server w)) \<and> list_all reply_ok (clients (server w))"
  by (simp add: token_inv_def waiting_ok_def [abs_def] list_all_iff)

text \<open>A client's claim on the queues depends only on the entries that are left and on their ADUs.\<close>

lemma waiting_ok_mono:
  assumes "waiting_ok tq tr w c" "set (requests_of tq w') \<subseteq> set (requests_of tq w)" "set (responses_of tr w') \<subseteq> set (responses_of tr w)"
    and "\<And>a. a \<in> set (owned tq tr w') \<Longrightarrow> adu_of w a = adu_of w' a"
  shows "waiting_ok tq tr w' c"
proof -
  have "request_of_client w c q = request_of_client w' c q" if "q \<in> set (requests_of tq w')" for q
    by (rule owned_kept(3) [where w = w' and w' = w, OF assms(4) that])
  moreover have "response_of_client w c r = response_of_client w' c r" if "r \<in> set (responses_of tr w')" for r
    by (rule owned_kept(4) [where w = w' and w' = w, OF assms(4) that])
  ultimately show ?thesis using assms(1-3) by (auto simp: waiting_ok_def)
qed

lemma event_tokens:
  assumes e: "tcp_event tq tr w w'" and i: "shape_inv tq tr w" and t: "token_inv tq tr w" and n: "issued w' \<le> 2 ^ 32"
  shows "token_inv tq tr w'"
  using e
proof cases
  case server_changed
  have "waiting_ok tq tr w' c" if "waiting_ok tq tr w c" for c
    by (rule waiting_ok_mono [OF that]) (simp_all add: server_changed adu_of_def)
  then show ?thesis using t server_changed by (auto simp: token_inv_iff queue_tokens_def list_all_iff)
next
  case (client_changed xs c ys c')
  have c: "\<not> live c submitting" using i client_changed(2,9) by (auto simp: shape_inv_iff client_ok_def)
  have c': "rtu_adu c' = None" using client_changed(10,11) by (auto simp: client_ok_def)
  have o: "owned tq tr w' = owned tq tr w" using client_changed c' by (simp add: owned_def)
  have k: "adu_of w a = adu_of w' a" if "a \<in> set (owned tq tr w')" for a
    using that i client_changed(8) by (auto simp: shape_inv_iff pool_kept_def o)
  have m: "waiting_ok tq tr w' d" if "waiting_ok tq tr w d" for d
    by (rule waiting_ok_mono [OF that _ _ k]) (simp_all add: client_changed)
  have "waiting_ok tq tr w' c'" using client_changed(12) by (simp add: waiting_ok_def)
  then show ?thesis using t client_changed(2-7,11-13) c m
    by (auto simp: token_inv_iff queue_tokens_def list_all_iff)
next
  case (client_aborted xs c ys c' a)
  have c: "live c submitting" using i client_aborted(2,8) by (auto simp: shape_inv_iff client_ok_def)
  have c': "\<not> live c' st" for st using client_aborted(11) by (simp add: live_def)
  then have n': "rtu_adu c' = None" using client_aborted(10) by (auto simp: client_ok_def)
  have d: "set (owned tq tr w) = insert a (set (owned tq tr w'))" "a \<notin> set (owned tq tr w')"
    using i client_aborted(2,3,4,5,8) n' by (auto simp: shape_inv_iff owned_def)
  have m: "waiting_ok tq tr w' d" if "waiting_ok tq tr w d" for d
    by (rule waiting_ok_mono [OF that _ _ release_step(3) [OF i client_aborted(9) d]]) (simp_all add: client_aborted)
  show ?thesis using t client_aborted(2-7) c c' m
    by (auto simp: token_inv_iff queue_tokens_def list_all_iff waiting_ok_def [of _ _ _ c'] reply_ok_def [of c'] live_def)
next
  case (request_accepted xs c ys c' a)
  let ?t = "available_token (server w)"
  have iss: "issued w < 2 ^ 32" using n request_accepted(7) by simp
  have ut: "unat ?t = issued w" using t iss by (simp add: token_inv_iff unat_of_nat take_bit_nat_eq_self)
  have new: "?t \<notin> set (submit_tokens (clients (server w)) @ queue_tokens tq tr w)"
    using t ut by (force simp: token_inv_iff)
  have k: "adu_of w b = adu_of w' b" if "b \<in> set (owned tq tr w)" for b
    using that i request_accepted(17) by (auto simp: shape_inv_iff)
  have m: "waiting_ok tq tr w' d" if "waiting_ok tq tr w d" for d
  proof -
    have "request_of_client w d q = request_of_client w' d q" if "q \<in> set (requests_of tq w)" for q
      by (rule owned_kept(3) [where w = w and w' = w', OF k [symmetric] that, symmetric])
    moreover have "response_of_client w d r = response_of_client w' d r" if "r \<in> set (responses_of tr w)" for r
      by (rule owned_kept(4) [where w = w and w' = w', OF k [symmetric] that, symmetric])
    ultimately show ?thesis using that by (auto simp: waiting_ok_def request_accepted(4,5))
  qed
  have nw: "\<not> live c' waiting" "\<not> live c' sending" using request_accepted(11) by (simp_all add: live_def)
  have qt: "queue_tokens tq tr w' = queue_tokens tq tr w" by (simp add: queue_tokens_def request_accepted(4,5))
  have av: "available_token (server w') = of_nat (issued w')" using t request_accepted(6,7) by (simp add: token_inv_iff)
  have bound: "\<forall>t \<in> set (submit_tokens (clients (server w')) @ queue_tokens tq tr w'). unat t < issued w'"
    using t ut request_accepted(2,3,7,11,13) qt by (auto simp: token_inv_iff less_Suc_eq)
  have dis: "distinct (submit_tokens (clients (server w')) @ queue_tokens tq tr w')"
    using t new request_accepted(2,3,9,11,13) qt by (auto simp: token_inv_iff)
  show ?thesis using t request_accepted(2,3) nw m av bound dis qt
    by (auto simp: token_inv_iff list_all_iff waiting_ok_def [of _ _ _ c'] reply_ok_def [of c'])
next
  case (request_submitted xs c ys c' q)
  have l: "live c submitting" using i request_submitted(2,9) by (auto simp: shape_inv_iff client_ok_def)
  have c': "live c' waiting" "\<not> live c' submitting" "\<not> live c' sending" "rtu_token c' = rtu_token c" "recv_buffer c' = recv_buffer c"
    using l by (simp_all add: request_submitted(11) live_def)
  have k: "adu_of w' b = adu_of w b" for b by (simp add: adu_of_def request_submitted(8))
  have rq: "request_of_client w' d = request_of_client w d" "response_of_client w' d = response_of_client w d" for d
    by (simp_all add: request_of_client_def [abs_def] response_of_client_def [abs_def] k)
  have "submit_ok w c" using i request_submitted(2) by (simp add: shape_inv_iff)
  then have own: "request_of_client w c' q" using l request_submitted(9) by (simp add: submit_ok_def request_of_client_def c'(5))
  have fresh: "rtu_token c \<notin> set (queue_tokens tq tr w)" using t request_submitted(2) l by (auto simp: token_inv_iff)
  have w': "waiting_ok tq tr w' c'"
  proof -
    have "rq_token p \<noteq> rtu_token c" if "p \<in> set (requests_of tq w)" for p
      using fresh imageI [OF that, of rq_token] by (auto simp: queue_tokens_def)
    moreover have "rs_token p \<noteq> rtu_token c" if "p \<in> set (responses_of tr w)" for p
      using fresh imageI [OF that, of rs_token] by (auto simp: queue_tokens_def)
    ultimately show ?thesis using own by (auto simp: waiting_ok_def request_submitted(4,5) rq c'(4))
  qed
  have m: "waiting_ok tq tr w' d" if d: "d \<in> set xs \<union> set ys" "waiting_ok tq tr w d" for d
  proof (cases "live d waiting")
    case True
    then have "rtu_token d \<in> set (queue_tokens tq tr w)"
      using t d(1) request_submitted(2) by (auto simp: token_inv_iff wait_tokens_def)
    then have "rq_token q \<noteq> rtu_token d" using fresh request_submitted(10) by auto
    then show ?thesis using d(2) by (auto simp: waiting_ok_def request_submitted(4,5) rq)
  qed (simp add: waiting_ok_def)
  have qt: "set (queue_tokens tq tr w') = insert (rtu_token c) (set (queue_tokens tq tr w))"
    by (auto simp: queue_tokens_def request_submitted(4,5,10))
  have ms: "mset (submit_tokens (clients (server w')) @ queue_tokens tq tr w') = mset (submit_tokens (clients (server w)) @ queue_tokens tq tr w)"
    using l c' by (simp add: queue_tokens_def request_submitted(2-5,10))
  have dis: "distinct (submit_tokens (clients (server w')) @ queue_tokens tq tr w')"
    "set (submit_tokens (clients (server w')) @ queue_tokens tq tr w') = set (submit_tokens (clients (server w)) @ queue_tokens tq tr w)"
    using t mset_eq_imp_distinct_iff [OF ms] mset_eq_setD [OF ms] by (simp_all add: token_inv_iff)
  have nw: "\<not> live c waiting" using l by (simp add: live_def)
  have wt: "set (wait_tokens (clients (server w'))) = insert (rtu_token c) (set (wait_tokens (clients (server w))))"
    "distinct (wait_tokens (clients (server w')))"
    using t fresh c' nw by (auto simp: request_submitted(2,3) token_inv_iff)
  have cl: "list_all (waiting_ok tq tr w') (clients (server w'))" "list_all reply_ok (clients (server w'))"
    using t m w' c' by (auto simp: request_submitted(2,3) token_inv_iff list_all_iff reply_ok_def [of c'])
  show ?thesis using t dis wt cl qt request_submitted(6,7) unfolding token_inv_iff by auto
next
  case (response_taken xs c ys c' r)
  have l: "\<not> live c submitting" "\<not> live c' submitting" "\<not> live c' waiting" using response_taken(9,12) by (simp_all add: live_def)
  have n': "rtu_adu c = None" "rtu_adu c' = None"
    using i l response_taken(2,11) by (auto simp: shape_inv_iff client_ok_def)
  have d: "set (owned tq tr w) = insert (rs_rtu_adu r) (set (owned tq tr w'))" "rs_rtu_adu r \<notin> set (owned tq tr w')"
    using i response_taken(2-5) n' by (auto simp: shape_inv_iff owned_def)
  have m: "waiting_ok tq tr w' d" if "waiting_ok tq tr w d" for d
    by (rule waiting_ok_mono [OF that _ _ release_step(3) [OF i response_taken(8) d]]) (auto simp: response_taken(4,5))
  have "waiting_ok tq tr w c" using t response_taken(2) by (simp add: token_inv_iff)
  then have "response_of_client w c r" using response_taken(5,9,10) by (auto simp: waiting_ok_def)
  then have rp: "reply_ok c'" by (rule response_taken(13))
  have q: "mset (queue_tokens tq tr w) = add_mset (rtu_token c) (mset (queue_tokens tq tr w'))"
    by (simp add: queue_tokens_def response_taken(4,5,10))
  have qs: "set (queue_tokens tq tr w) = insert (rtu_token c) (set (queue_tokens tq tr w'))"
    by (auto simp: queue_tokens_def response_taken(4,5,10))
  have dis: "distinct (submit_tokens (clients (server w')) @ queue_tokens tq tr w')"
    using t l by (auto simp: token_inv_iff queue_tokens_def response_taken(2-5))
  have wt: "set (wait_tokens (clients (server w'))) \<subseteq> set (queue_tokens tq tr w')" "distinct (wait_tokens (clients (server w')))"
    using t qs l response_taken(9) by (auto simp: token_inv_iff response_taken(2,3))
  show ?thesis using t dis wt m rp l qs response_taken(6,7)
    by (auto simp: token_inv_iff response_taken(2,3) list_all_iff waiting_ok_def [of _ _ _ c'])
next
  case (response_dropped r)
  have d: "set (owned tq tr w) = insert (rs_rtu_adu r) (set (owned tq tr w'))" "rs_rtu_adu r \<notin> set (owned tq tr w')"
    using i response_dropped(2-4) by (auto simp: shape_inv_iff owned_def)
  have m: "waiting_ok tq tr w' d" if "waiting_ok tq tr w d" for d
    by (rule waiting_ok_mono [OF that _ _ release_step(3) [OF i response_dropped(7) d]]) (auto simp: response_dropped(3,4))
  have qs: "set (queue_tokens tq tr w) = insert (rs_token r) (set (queue_tokens tq tr w'))"
    by (auto simp: queue_tokens_def response_dropped(3,4))
  have dis: "distinct (submit_tokens (clients (server w')) @ queue_tokens tq tr w')"
    using t by (auto simp: token_inv_iff queue_tokens_def response_dropped(2-4))
  show ?thesis using t dis m qs response_dropped(2,5,6,8)
    by (auto simp: token_inv_iff list_all_iff)
qed

lemma event_inv: "tcp_event tq tr w w' \<Longrightarrow> tcp_inv tq tr w \<Longrightarrow> tcp_inv tq tr w'"
proof -
  assume e: "tcp_event tq tr w w'" and i: "tcp_inv tq tr w"
  have "issued w \<le> issued w'" using e by cases auto
  then show "tcp_inv tq tr w'" using event_shape [OF e] event_tokens [OF e] i by (auto simp: tcp_inv_def)
qed

end
