(* ===== verification/Modbus_TCP_Operations.thy ===== *)
theory Modbus_TCP_Operations
  imports Modbus_TCP_Invariant
begin

text \<open>
  Every operation of the TCP server's task is a sequence of the abstract events of \<open>Modbus_TCP_Invariant\<close>: first
  the frames the operations build, then each operation on a client, then a whole turn of the task.
\<close>

section \<open>Frames\<close>

lemma byte_at_small [simp]:
  "byte_at (Suc 0) (3 :: u16) = 0" "byte_at 0 (3 :: u16) = 3" "byte_at k (0 :: u16) = 0"
  by (simp_all add: byte_at_def)

lemma write_be_overwrite:
  "i + 2 \<le> length b \<Longrightarrow> write_u16_be b i v = overwrite i [byte_at 1 v, byte_at 0 v] b"
  by (rule nth_equalityI) (auto simp: nth_write_u16_be nth_overwrite less_Suc_eq numeral_2_eq_2)

lemma write_header:
  assumes "6 \<le> length b"
  shows "write_u16_be (write_u16_be (write_u16_be b 0 v) 2 p) 4 n =
    overwrite 0 [byte_at 1 v, byte_at 0 v, byte_at 1 p, byte_at 0 p, byte_at 1 n, byte_at 0 n] b"
  using assms by (simp add: write_be_overwrite overwrite_def numeral_eq_Suc)

lemma update_overwrite:
  "length ys = n \<Longrightarrow> n < length b \<Longrightarrow> (overwrite 0 ys b)[n := y] = overwrite 0 (ys @ [y]) b"
  by (simp add: overwrite_def list_update_append Cons_nth_drop_Suc [symmetric])

lemma take_2_be: "2 \<le> length b \<Longrightarrow> take 2 b = [byte_at 1 (read_u16_be b 0), byte_at 0 (read_u16_be b 0)]"
  by (cases b; cases "tl b") (auto simp: read_u16_be_join byte_simps [simplified])

lemma exception_reply:
  assumes "length (recv_buffer c) = 260" "length (send_buffer c) = 260"
  shows "take 9 (send_buffer (client_set_send_exception_response e now c)) =
    mbap (recv_buffer c) [recv_buffer c ! 6, (recv_buffer c ! 7) OR 0x80, e]"
proof -
  let ?b = "send_buffer c" and ?v = "read_u16_be (recv_buffer c) 0"
  let ?h = "[byte_at 1 ?v, byte_at 0 ?v, 0, 0, 0, 3 :: u8]"
  have "send_buffer (client_set_send_exception_response e now c) =
      overwrite 0 (((?h @ [recv_buffer c ! 6]) @ [(recv_buffer c ! 7) OR 0x80]) @ [e]) ?b"
    using assms(2) update_overwrite [of ?h 6 ?b] update_overwrite [of "?h @ [recv_buffer c ! 6]" 7 ?b]
      update_overwrite [of "(?h @ [recv_buffer c ! 6]) @ [(recv_buffer c ! 7) OR 0x80]" 8 ?b]
    by (simp add: client_set_send_exception_response_def Let_def write_header)
  then show ?thesis using assms(1) by (simp add: mbap_def take_2_be overwrite_def)
qed

lemma exception_client [simp]:
  "send_length (client_set_send_exception_response e now c) = 9" "send_offset (client_set_send_exception_response e now c) = 0"
  "recv_buffer (client_set_send_exception_response e now c) = recv_buffer c"
  "recv_count (client_set_send_exception_response e now c) = recv_count c"
  "socket (client_set_send_exception_response e now c) = socket c"
  "rtu_adu (client_set_send_exception_response e now c) = rtu_adu c"
  "client_state (client_set_send_exception_response e now c) = sending"
  "length (send_buffer (client_set_send_exception_response e now c)) = length (send_buffer c)"
  by (simp_all add: client_set_send_exception_response_def Let_def)

lemma forward_client [simp]:
  "send_length (forward_response adu now c) = unat (adu_length adu) - 2 + 6" "send_offset (forward_response adu now c) = 0"
  "recv_buffer (forward_response adu now c) = recv_buffer c" "recv_count (forward_response adu now c) = recv_count c"
  "socket (forward_response adu now c) = socket c" "rtu_adu (forward_response adu now c) = rtu_adu c"
  "client_state (forward_response adu now c) = sending"
  by (simp_all add: forward_response_def Let_def)

lemma forwarded_reply:
  assumes "length (recv_buffer c) = 260" "length (send_buffer c) = 260" "adu_wf adu"
    "4 \<le> unat (adu_length adu)" "unat (adu_length adu) \<le> 255"
  shows "take (send_length (forward_response adu now c)) (send_buffer (forward_response adu now c)) =
      mbap (recv_buffer c) (adu_body adu)"
    "length (send_buffer (forward_response adu now c)) = 260"
proof -
  let ?n = "unat (adu_length adu) - 2"
  have n: "unat (adu_length adu - 2) = ?n" "adu_length adu - 2 = of_nat ?n" "length (adu_body adu) = ?n"
    using assms(3-5) by (simp_all add: unat_length_minus_2 adu_body_def adu_wf_def)
  let ?v = "read_u16_be (recv_buffer c) 0"
  let ?h = "[byte_at 1 ?v, byte_at 0 ?v, 0, 0, byte_at 1 (of_nat ?n :: u16), byte_at 0 (of_nat ?n :: u16)]"
  have "send_buffer (forward_response adu now c) = overwrite 6 (adu_body adu) (overwrite 0 ?h (send_buffer c))"
    using assms(2) by (simp add: forward_response_def Let_def write_header n(2) adu_body_def)
  also have "\<dots> = overwrite 0 (?h @ adu_body adu) (send_buffer c)"
    using overwrite_append [of 0 ?h "send_buffer c" "adu_body adu"] assms(2) by (simp add: numeral_nat)
  finally have b: "send_buffer (forward_response adu now c) = overwrite 0 (?h @ adu_body adu) (send_buffer c)" .
  show "length (send_buffer (forward_response adu now c)) = 260" using assms(2,5) n(3) unfolding b by simp
  have l: "send_length (forward_response adu now c) = length (?h @ adu_body adu)" using n(3) by simp
  have "take (send_length (forward_response adu now c)) (send_buffer (forward_response adu now c)) = ?h @ adu_body adu"
    unfolding b l by (rule take_overwrite_0)
  then show "take (send_length (forward_response adu now c)) (send_buffer (forward_response adu now c)) =
      mbap (recv_buffer c) (adu_body adu)"
    using assms(1) n(3) by (simp add: mbap_def take_2_be)
qed

lemma header_bounds: "header_ok b \<Longrightarrow> 2 \<le> unat (get_length_field b) \<and> unat (get_length_field b) \<le> 254"
  by (simp add: header_ok_def word_le_nat_alt)

lemma compose_rtu_spec:
  assumes "length b = 260" "header_ok b" "adu_wf adu"
  shows "adu_body (compose_rtu b adu) = request_pdu_of b" "adu_wf (compose_rtu b adu)"
    "unat (adu_length (compose_rtu b adu)) = unat (get_length_field b) + 2" "has_valid_crc (compose_rtu b adu)"
proof -
  let ?n = "unat (get_length_field b)"
  let ?a = "adu\<lparr>adu_length := get_length_field b + 2, adu_data := overwrite 0 (request_pdu_of b) (adu_data adu)\<rparr>"
  have n: "2 \<le> ?n" "?n \<le> 254" using header_bounds [OF assms(2)] by simp_all
  have l: "unat (adu_length ?a) = ?n + 2" using n by (simp add: unat_plus_small)
  have p: "length (request_pdu_of b) = ?n" using n assms(1) by (simp add: request_pdu_of_def)
  have c: "compose_rtu b adu = finalize_encoded_rtu ?a"
    using l by (simp add: compose_rtu_def finalize_encoded_rtu_def Let_def request_pdu_of_def list_update_swap)
  have w: "length (adu_data ?a) = 256" using p n assms(3) by (simp add: adu_wf_def)
  show "unat (adu_length (compose_rtu b adu)) = ?n + 2" using l by (simp add: c)
  show "adu_wf (compose_rtu b adu)" using w by (simp add: c adu_wf_def)
  show "adu_body (compose_rtu b adu) = request_pdu_of b"
    using l take_overwrite_0 [of "request_pdu_of b" "adu_data adu"] 
    unfolding c finalize_body by (simp add: adu_body_def p [symmetric])
  show "has_valid_crc (compose_rtu b adu)" unfolding c by (rule finalize_has_valid_crc) (use l w n in simp_all)
qed
section \<open>Operations as events\<close>

text \<open>The steps of one operation: any sequence of events.\<close>

abbreviation tcp_steps :: "QueueHandle_t \<Rightarrow> QueueHandle_t \<Rightarrow> tcp_world \<Rightarrow> tcp_world \<Rightarrow> bool" where
  "tcp_steps tq tr \<equiv> (tcp_event tq tr)\<^sup>*\<^sup>*"

lemma steps_shape: "tcp_steps tq tr w w' \<Longrightarrow> shape_inv tq tr w \<Longrightarrow> shape_inv tq tr w'"
  by (induction rule: rtranclp_induct) (auto intro: event_shape)

lemma steps_inv: "tcp_steps tq tr w w' \<Longrightarrow> tcp_inv tq tr w \<Longrightarrow> tcp_inv tq tr w'"
  by (induction rule: rtranclp_induct) (auto intro: event_inv)

lemma client_split:
  assumes "shape_inv tq tr w" "i < 4"
  shows "clients (server w) = take i (clients (server w)) @ clients (server w) ! i # drop (Suc i) (clients (server w))"
    "clients (server (upd_client i c' w)) = take i (clients (server w)) @ c' # drop (Suc i) (clients (server w))"
    "client_ok (clients (server w) ! i)"
  using assms by (auto simp: shape_inv_iff id_take_nth_drop [symmetric] upd_client_def upd_conv_take_nth_drop list_all_length)

lemma upd_client_simps [simp]:
  "request_queue (server (upd_client i c w)) = request_queue (server w)"
  "response_queue (server (upd_client i c w)) = response_queue (server w)"
  "available_token (server (upd_client i c w)) = available_token (server w)"
  "requests_of tq (upd_client i c w) = requests_of tq w" "responses_of tr (upd_client i c w) = responses_of tr w"
  "issued (upd_client i c w) = issued w" "tcp_pool (upd_client i c w) = tcp_pool w" "kern (upd_client i c w) = kern w"
  "read_sockets (server (upd_client i c w)) = read_sockets (server w)"
  "write_sockets (server (upd_client i c w)) = write_sockets (server w)"
  "response_timeout_ms (server (upd_client i c w)) = response_timeout_ms (server w)"
  "open_sockets (upd_client i c w) = open_sockets w" "server_socket (server (upd_client i c w)) = server_socket (server w)"
  "tcp_out (upd_client i c w) = tcp_out w" "adu_of (upd_client i c w) = adu_of w"
  by (simp_all add: upd_client_def requests_of_def responses_of_def adu_of_def [abs_def])

lemma pool_kept_same: "shape_inv tq tr w \<Longrightarrow> tcp_pool w' = tcp_pool w \<Longrightarrow> pool_kept w w'"
  by (simp add: pool_kept_def shape_inv_iff adu_of_def)

text \<open>Two worlds that agree on everything the invariant reads, the client at \<open>i\<close> apart.\<close>

definition same_but :: "nat \<Rightarrow> QueueHandle_t \<Rightarrow> QueueHandle_t \<Rightarrow> tcp_world \<Rightarrow> tcp_world \<Rightarrow> bool" where
  "same_but i tq tr w w1 \<longleftrightarrow> frame_ok w w1 \<and> available_token (server w1) = available_token (server w) \<and> issued w1 = issued w \<and>
     requests_of tq w1 = requests_of tq w \<and> responses_of tr w1 = responses_of tr w \<and>
     (\<exists>c. clients (server w1) = (clients (server w))[i := c])"

lemma upd_client_split:
  assumes "shape_inv tq tr w" "i < 4" "same_but i tq tr w w1"
  shows "clients (server (upd_client i c' w1)) = take i (clients (server w)) @ c' # drop (Suc i) (clients (server w))"
  using assms by (auto simp: same_but_def upd_client_def shape_inv_iff upd_conv_take_nth_drop)

lemma client_step:
  assumes "shape_inv tq tr w" "i < 4" "same_but i tq tr w w1" "pool_kept w w1"
    "\<not> live (clients (server w) ! i) submitting" "client_ok c'" "\<not> live c' submitting" "\<not> live c' waiting"
    "reply_ok (clients (server w) ! i) \<Longrightarrow> reply_ok c'"
  shows "tcp_event tq tr w (upd_client i c' w1)"
proof -
  note s = client_split [OF assms(1,2)]
  have "rtu_adu (clients (server w) ! i) = None" using s(3) assms(5) by (auto simp: client_ok_def)
  moreover have "pool_kept w (upd_client i c' w1)" using assms(4) by (simp add: pool_kept_def)
  moreover have "frame_ok w (upd_client i c' w1)" using assms(3) by (simp add: same_but_def frame_ok_def)
  ultimately show ?thesis using assms(3)
    by (intro client_changed [OF _ s(1) upd_client_split [OF assms(1-3)]] assms(6-9)) (auto simp: same_but_def)
qed

lemma client_close_step:
  assumes "shape_inv tq tr w" "i < 4" "same_but i tq tr w w1" "tcp_pool w1 = tcp_pool w" "c = clients (server w1) ! i"
    "length (recv_buffer c) = 260" "length (send_buffer c) = 260"
    "client_state c = client_state (clients (server w) ! i)" "rtu_adu c = rtu_adu (clients (server w) ! i)"
    "socket c = socket (clients (server w) ! i)"
  shows "tcp_event tq tr w (client_close i w1)"
proof -
  note s = client_split [OF assms(1,2)]
  let ?c = "clients (server w) ! i"
  show ?thesis
  proof (cases "rtu_adu ?c")
    case None
    let ?c' = "if socket c \<ge> 0 then c\<lparr>socket := - 1\<rparr> else c" and ?w1 = "if socket c \<ge> 0 then close_socket (socket c) w1 else w1"
    have e: "client_close i w1 = upd_client i ?c' ?w1"
      using assms(5,9) None by (auto simp: client_close_def Let_def)
    have ns: "\<not> live ?c submitting" using s(3) None by (auto simp: client_ok_def)
    have nl: "\<not> live ?c' st" for st by (simp add: live_def)
    show ?thesis unfolding e
      by (rule client_step [OF assms(1,2) _ _ ns])
        (use assms nl None in \<open>auto simp: same_but_def frame_ok_def close_socket_def requests_of_def responses_of_def client_ok_def
           reply_ok_def intro!: pool_kept_same [OF assms(1)]\<close>)
  next
    case (Some a)
    then have l: "live ?c submitting" using s(3) by (auto simp: client_ok_def)
    let ?c' = "c\<lparr>rtu_adu := None, socket := - 1\<rparr>"
    let ?w1 = "close_socket (socket c) (w1\<lparr>tcp_pool := modbus_rtu_adu_pool_release a (tcp_pool w1)\<rparr>)"
    have e: "client_close i w1 = upd_client i ?c' ?w1"
      using assms(5,8-10) l Some by (auto simp: client_close_def Let_def live_def)
    have sb: "same_but i tq tr w ?w1"
      using assms(3) by (auto simp: same_but_def frame_ok_def close_socket_def requests_of_def responses_of_def)
    have p: "tcp_pool ?w1 = modbus_rtu_adu_pool_release a (tcp_pool w)" by (simp add: close_socket_def assms(4))
    have ok: "client_ok ?c'" using assms(6,7) by (simp add: client_ok_def live_def)
    show ?thesis unfolding e
      by (rule client_aborted [OF _ s(1) upd_client_split [OF assms(1,2) sb] _ _ _ _ Some])
        (use sb p ok in \<open>auto simp: same_but_def frame_ok_def\<close>)
  qed
qed
lemma same_but_refl [simp]: "same_but i tq tr w w"
  by (simp add: same_but_def frame_ok_def) (metis list_update_id)

lemma same_but_upd [simp]: "same_but i tq tr w (upd_client i c w)"
  by (auto simp: same_but_def frame_ok_def upd_client_def requests_of_def responses_of_def)

lemma same_but_pool [simp]: "same_but i tq tr w (w1\<lparr>tcp_pool := p\<rparr>) = same_but i tq tr w w1"
  by (simp add: same_but_def frame_ok_def requests_of_def responses_of_def)

lemma same_but_out [simp]: "same_but i tq tr w (w1\<lparr>tcp_out := p\<rparr>) = same_but i tq tr w w1"
  by (simp add: same_but_def frame_ok_def requests_of_def responses_of_def)

lemma same_but_sockets [simp]: "same_but i tq tr w (w1\<lparr>open_sockets := p\<rparr>) = same_but i tq tr w w1"
  by (simp add: same_but_def frame_ok_def requests_of_def responses_of_def)

lemma validation_code_zero: "validation_exception_code r = 0 \<longleftrightarrow> r = MODBUS_RTU_OK"
  by (cases r) (simp_all add: validation_exception_code_def)

lemma transaction_code_zero: "transaction_exception_code r = 0 \<longleftrightarrow> good_result r"
  by (cases r) (simp_all add: transaction_exception_code_def good_result_def)

lemma alloc_adus: "modbus_rtu_adu_pool_allocate p = (r, p') \<Longrightarrow> pool_adus p' = pool_adus p"
  using allocate_from_cases [of 6 0 p r p'] by (auto simp: modbus_rtu_adu_pool_allocate_def split: option.splits)

lemma exception_client_ok:
  assumes "length (recv_buffer c) = 260" "length (send_buffer c) = 260" "header_ok (recv_buffer c)"
    "recv_count c = unat (get_length_field (recv_buffer c)) + 6" "rtu_adu c = None"
  shows "client_ok (client_set_send_exception_response e now c)" "reply_ok (client_set_send_exception_response e now c)"
  using assms exception_reply [OF assms(1,2)] by (auto simp: client_ok_def reply_ok_def reply_for_def live_def)

lemma request_complete_step:
  assumes i: "shape_inv tq tr w" "i < 4" and s: "\<not> live (clients (server w) ! i) submitting"
    and c: "length (recv_buffer c) = 260" "length (send_buffer c) = 260" "header_ok (recv_buffer c)"
      "recv_count c = unat (get_length_field (recv_buffer c)) + 6" "rtu_adu c = None" "socket c \<ge> 0"
  shows "tcp_event tq tr w (client_request_complete io i (upd_client i c w))"
proof -
  let ?w1 = "upd_client i c w" and ?e = "\<lambda>e. client_set_send_exception_response e (now_ms io i 1) c"
  have p: "pool_inv (tcp_pool w)" and cl: "clients (server ?w1) ! i = c" and n: "rtu_adu (clients (server w) ! i) = None"
    using i s client_split(3) [OF i] by (auto simp: shape_inv_iff upd_client_def client_ok_def)
  note ex = exception_client_ok [OF c(1-5)]
  have nl: "\<not> live (?e e) submitting" "\<not> live (?e e) waiting" for e by (simp_all add: live_def)
  obtain r q where a: "modbus_rtu_adu_pool_allocate (tcp_pool w) = (r, q)" by fastforce
  show ?thesis
  proof (cases r)
    case None
    have e: "client_request_complete io i ?w1 = upd_client i (?e MODBUS_EXCEPTION_CODE_SERVER_DEVICE_FAILURE) (?w1\<lparr>tcp_pool := q\<rparr>)"
      using a None cl by (simp add: client_request_complete_def Let_def)
    have "pool_kept w (?w1\<lparr>tcp_pool := q\<rparr>)" using pool.alloc_None [OF p] a None by (simp add: pool_kept_same [OF i(1)])
    then show ?thesis unfolding e by (intro client_step [OF i _ _ s ex(1) nl ex(2)]) simp_all
  next
    case (Some k)
    note al = pool.alloc_Some [OF p a [unfolded Some]]
    have k6: "k < 6" using al pool.free_subset [OF p] by auto
    let ?adu = "compose_rtu (recv_buffer c) (pool_adus q ! k)"
    let ?p1 = "adu_write k ?adu q"
    have wf: "adu_wf (pool_adus q ! k)" using al k6 by (auto simp: pool_inv_def pool_wf_def)
    note co = compose_rtu_spec [OF c(1,3) wf]
    have st: "pool_inv ?p1" "free_adus ?p1 = free_adus (tcp_pool w) - {k}"
      using pool.store_free [of q k ?adu] al k6 co(2) by auto
    have len: "k < length (pool_adus q)" using al k6 by (simp add: pool_inv_def pool_wf_def)
    have ad: "pool_adus ?p1 ! k = ?adu" "\<And>b. b \<noteq> k \<Longrightarrow> pool_adus ?p1 ! b = pool_adus (tcp_pool w) ! b"
      using len alloc_adus [OF a] by (simp_all add: adu_write_def)
    let ?code = "validation_exception_code (modbus_rtu_validate_request (Some ?adu))"
    show ?thesis
    proof (cases "?code = 0")
      case False
      let ?p2 = "modbus_rtu_adu_pool_release k ?p1"
      have e: "client_request_complete io i ?w1 = upd_client i (?e ?code) (?w1\<lparr>tcp_pool := ?p2\<rparr>)"
        using a Some cl False by (simp add: client_request_complete_def Let_def)
      note rel = release_inv [OF st(1) k6]
      have "free_adus ?p2 = free_adus (tcp_pool w)" using rel(2) st(2) conjunct1 [OF al] by (simp add: insert_absorb)
      moreover have "pool_adus ?p2 ! b = pool_adus (tcp_pool w) ! b" if "b \<notin> free_adus (tcp_pool w)" for b
      proof -
        have "b \<noteq> k" using that conjunct1 [OF al] by auto
        then show ?thesis by (simp add: release_other ad(2))
      qed
      ultimately have "pool_kept w (?w1\<lparr>tcp_pool := ?p2\<rparr>)" using rel(1) by (simp add: pool_kept_def adu_of_def)
      then show ?thesis unfolding e by (intro client_step [OF i _ _ s ex(1) nl ex(2)]) simp_all
    next
      case True
      let ?s = "(server ?w1)\<lparr>available_token := available_token (server w) + 1\<rparr>"
      let ?c' = "c\<lparr>rtu_response_timeout_ms := response_timeout_ms (server w), rtu_adu := Some k,
        rtu_token := available_token (server w), client_state := submitting\<rparr>"
      let ?w2 = "?w1\<lparr>tcp_pool := ?p1, server := ?s, issued := issued w + 1\<rparr>"
      have e: "client_request_complete io i ?w1 = upd_client i ?c' ?w2"
        using a Some cl True by (simp add: client_request_complete_def Let_def server_get_available_token_def)
      have cs: "clients (server (upd_client i ?c' ?w2)) = take i (clients (server w)) @ ?c' # drop (Suc i) (clients (server w))"
        using i by (simp add: upd_client_def shape_inv_iff upd_conv_take_nth_drop)
      have ok: "client_ok ?c'" "live ?c' submitting" using c by (auto simp: client_ok_def live_def)
      have v: "modbus_rtu_validate_request (Some ?adu) = MODBUS_RTU_OK" using True by (simp add: validation_code_zero)
      have ad': "adu_of (upd_client i ?c' ?w2) k = ?adu" using ad(1) by (simp add: adu_of_def)
      show ?thesis unfolding e
      proof (rule request_accepted [OF _ client_split(1) [OF i] cs _ _ _ _ n s ok, where a = k])
        show "adu_of (upd_client i ?c' ?w2) b = adu_of w b" if "b \<notin> free_adus (tcp_pool w)" for b
        proof -
          have "b \<noteq> k" using that al by auto
          then show ?thesis using ad(2) by (simp add: adu_of_def)
        qed
        show "adu_body (adu_of (upd_client i ?c' ?w2) k) = request_pdu_of (recv_buffer ?c')" unfolding ad' using co(1) by simp
        show "modbus_rtu_validate_request (Some (adu_of (upd_client i ?c' ?w2) k)) = MODBUS_RTU_OK" unfolding ad' by (rule v)
      qed (use al st in \<open>simp_all add: frame_ok_def requests_of_def responses_of_def\<close>)
    qed
  qed
qed

lemma header_overwrite:
  assumes "6 \<le> k" "k + length ys \<le> 260" "length b = 260"
  shows "get_length_field (overwrite k ys b) = get_length_field b" "header_ok (overwrite k ys b) = header_ok b"
proof -
  have "read_u16_be (overwrite k ys b) 2 = read_u16_be b 2" "read_u16_be (overwrite k ys b) 4 = read_u16_be b 4"
    using assms by (simp_all add: read_u16_be_join nth_overwrite)
  then show "get_length_field (overwrite k ys b) = get_length_field b" "header_ok (overwrite k ys b) = header_ok b"
    by (simp_all add: header_ok_def get_length_field_def get_protocol_id_def)
qed
lemma header_bad: "(get_length_field b > MODBUS_TCP_MAX_MBAP_LENGTH \<or> get_length_field b < MODBUS_TCP_MIN_MBAP_LENGTH \<or>
    get_protocol_id b \<noteq> 0) = (\<not> header_ok b)"
  by (auto simp: header_ok_def not_le)

lemma recv_step:
  assumes i: "shape_inv tq tr w" "i < 4" and l: "live (clients (server w) ! i) receiving"
  shows "client_recv_tcp_request io i w = w \<or> tcp_event tq tr w (client_recv_tcp_request io i w)"
proof -
  let ?c = "clients (server w) ! i"
  let ?n = "recv_count ?c" and ?len = "unat (get_length_field (recv_buffer ?c))"
  have ok: "client_ok ?c" using client_split(3) [OF i] .
  have c: "length (recv_buffer ?c) = 260" "length (send_buffer ?c) = 260" "rtu_adu ?c = None" "socket ?c \<ge> 0"
    "client_state ?c = receiving" "?n < 7 \<or> header_ok (recv_buffer ?c) \<and> ?n < ?len + 6"
    using ok l by (auto simp: client_ok_def live_def)
  have ns: "\<not> live ?c submitting" using l by (simp add: live_def)
  have close: "tcp_event tq tr w (client_close i w)"
    using ok by (intro client_close_step [OF i]) (simp_all add: client_ok_def)
  define m where "m = (if ?n < 7 then 7 - ?n else ?len + 6 - ?n)"
  show ?thesis
  proof (cases "socket ?c \<notin> set (read_sockets (server w)) \<or> recv_result io i = Recv_Failed True \<or> recv_result io i = Recv_Failed False \<or>
      recv_result io i = Received []")
    case True
    then show ?thesis using close by (auto simp: client_recv_tcp_request_def Let_def)
  next
    case False
    then obtain bytes where r: "socket ?c \<in> set (read_sockets (server w))" "recv_result io i = Received bytes" "bytes \<noteq> []"
      by (cases "recv_result io i") auto
    define ys where "ys = take m bytes"
    have m0: "0 < m" and mb: "?n + m \<le> 260" using c(6) header_bounds [of "recv_buffer ?c"] by (auto simp: m_def)
    have ys: "ys \<noteq> []" "length ys \<le> m" using m0 r(3) by (simp_all add: ys_def)
    let ?c1 = "?c\<lparr>recv_buffer := overwrite ?n ys (recv_buffer ?c), last_recv_time := now_ms io i 0, recv_count := ?n + length ys\<rparr>"
    let ?w1 = "upd_client i ?c1 w"
    have b1: "length (recv_buffer ?c1) = 260" using c(1) ys(2) mb by simp
    have cl: "clients (server ?w1) ! i = ?c1" using i by (simp add: upd_client_def shape_inv_iff)
    have hdr: "get_length_field (recv_buffer ?c1) = get_length_field (recv_buffer ?c)"
      "header_ok (recv_buffer ?c1) = header_ok (recv_buffer ?c)" if "7 \<le> ?n"
      using that header_overwrite [of ?n ys "recv_buffer ?c"] ys(2) mb c(1) by simp_all
    have upd: "tcp_event tq tr w ?w1" if "client_ok ?c1"
      by (rule client_step [OF i same_but_refl _ ns that])
        (use c(5) in \<open>simp_all add: live_def reply_ok_def pool_kept_same [OF i(1)]\<close>)
    have close1: "tcp_event tq tr w (client_close i ?w1)"
      by (rule client_close_step [OF i same_but_upd, where c = ?c1]) (use cl b1 c in simp_all)
    have e: "client_recv_tcp_request io i w =
       (if ?n < 7 \<and> recv_count ?c1 \<ge> 7
        then if header_ok (recv_buffer ?c1) then ?w1 else client_close i ?w1
        else if recv_count ?c1 \<ge> 7 \<and> recv_count ?c1 = unat (get_length_field (recv_buffer ?c1)) + 7 - 1
        then client_request_complete io i ?w1 else ?w1)"
      unfolding client_recv_tcp_request_def Let_def r(2) recv_outcome.case m_def [symmetric] ys_def [symmetric] header_bad
      using r(1) ys(1) by simp
    show ?thesis
    proof (cases "?n < 7")
      case True
      then have n7: "?n + length ys \<le> 7" using ys(2) by (simp add: m_def split: if_splits)
      show ?thesis
      proof (cases "?n + length ys = 7")
        case T7: True
        show ?thesis
        proof (cases "header_ok (recv_buffer ?c1)")
          case h: True
          have "client_ok ?c1" using b1 c h T7 header_bounds [OF h] by (auto simp: client_ok_def live_def)
          then show ?thesis using upd h T7 True unfolding e by simp
        next
          case False
          then show ?thesis using close1 T7 True unfolding e by simp
        qed
      next
        case False
        then have "recv_count ?c1 < 7" using n7 by simp
        moreover from this have "client_ok ?c1" using b1 c by (auto simp: client_ok_def live_def)
        ultimately show ?thesis using upd unfolding e by simp
      qed
    next
      case False
      then have h: "header_ok (recv_buffer ?c1)" and le: "?n + length ys \<le> ?len + 6" "7 \<le> ?n"
        using c(6) hdr(2) ys(2) by (auto simp: m_def)
      show ?thesis
      proof (cases "?n + length ys = ?len + 6")
        case True
        have rc: "tcp_event tq tr w (client_request_complete io i ?w1)"
          by (rule request_complete_step [OF i ns]) (use b1 c h True hdr(1) [OF le(2)] in simp_all)
        have "client_recv_tcp_request io i w = client_request_complete io i ?w1"
          unfolding e using True le(2) hdr(1) [OF le(2)] by simp
        then show ?thesis using rc by simp
      next
        case False
        then have "client_ok ?c1" using b1 c h le hdr(1) [OF le(2)] by (auto simp: client_ok_def live_def)
        moreover have "client_recv_tcp_request io i w = ?w1"
          unfolding e using False le(2) hdr(1) [OF le(2)] by simp
        ultimately show ?thesis using upd by simp
      qed
    qed
  qed
qed
lemma submit_step:
  assumes i: "shape_inv tq tr w" "i < 4" and l: "live (clients (server w) ! i) submitting"
  shows "client_submit_rtu_request i w = w \<or> tcp_event tq tr w (client_submit_rtu_request i w)"
proof -
  let ?c = "clients (server w) ! i" and ?k = "kern w"
  have ok: "client_ok ?c" using client_split(3) [OF i] .
  obtain a where a: "rtu_adu ?c = Some a" using ok l by (auto simp: client_ok_def)
  have rq: "request_queue (server w) = Some tq" using i(1) by (simp add: shape_inv_iff)
  let ?q = "\<lparr>rq_token = rtu_token ?c, rq_response_timeout_ms = rtu_response_timeout_ms ?c, rq_rtu_adu = a\<rparr>"
  let ?c' = "?c\<lparr>client_state := waiting, rtu_adu := None\<rparr>"
  show ?thesis
  proof (cases "length (request_queues ?k tq) < queue_capacity ?k tq")
    case True
    let ?k' = "?k\<lparr>request_queues := (request_queues ?k)(tq := request_queues ?k tq @ [?q]), set_pending := set_pending ?k @ [tq]\<rparr>"
    have e: "client_submit_rtu_request i w = upd_client i ?c' (w\<lparr>kern := ?k'\<rparr>)"
      using True a rq by (simp add: client_submit_rtu_request_def Let_def xQueueSend_request_def)
    have cs: "clients (server (upd_client i ?c' (w\<lparr>kern := ?k'\<rparr>))) = take i (clients (server w)) @ ?c' # drop (Suc i) (clients (server w))"
      using i by (simp add: upd_client_def shape_inv_iff upd_conv_take_nth_drop)
    have "tcp_event tq tr w (client_submit_rtu_request i w)" unfolding e
      by (rule request_submitted [OF _ client_split(1) [OF i] cs, where q = ?q])
        (use a in \<open>simp_all add: frame_ok_def requests_of_def responses_of_def\<close>)
    then show ?thesis by simp
  next
    case False
    then show ?thesis using a rq by (simp add: client_submit_rtu_request_def Let_def xQueueSend_request_def)
  qed
qed

text \<open>What a response leaves in the send buffer.\<close>

lemma response_client_ok:
  assumes c: "client_ok c" "live c waiting" and r: "response_entry_ok w r" and p: "pool_inv (tcp_pool w)" "rs_rtu_adu r < 6"
    and c': "c' = (if transaction_exception_code (rs_result r) \<noteq> 0
      then client_set_send_exception_response (transaction_exception_code (rs_result r)) now c
      else forward_response (adu_of w (rs_rtu_adu r)) now c)"
  shows "client_ok c'" "live c' sending" "response_of_client w c r \<Longrightarrow> reply_ok c'"
proof -
  have len: "length (recv_buffer c) = 260" "length (send_buffer c) = 260" "header_ok (recv_buffer c)"
    "recv_count c = unat (get_length_field (recv_buffer c)) + 6" "rtu_adu c = None" "socket c \<ge> 0"
    using c by (auto simp: client_ok_def live_def)
  note ex = exception_client_ok [OF len(1-5)]
  have wf: "adu_wf (adu_of w (rs_rtu_adu r))" using p by (auto simp: pool_inv_def pool_wf_def adu_of_def)
  show "live c' sending" using len(6) by (simp add: c' live_def)
  show "client_ok c'"
  proof (cases "good_result (rs_result r)")
    case True
    then have b: "4 \<le> unat (adu_length (adu_of w (rs_rtu_adu r)))" "unat (adu_length (adu_of w (rs_rtu_adu r))) \<le> 255"
      using r by (simp_all add: response_entry_ok_def)
    show ?thesis using True b len forwarded_reply(2) [OF len(1,2) wf b]
      by (auto simp: c' transaction_code_zero client_ok_def live_def)
  qed (simp add: c' transaction_code_zero ex(1))
  show "reply_ok c'" if o: "response_of_client w c r"
  proof (cases "good_result (rs_result r)")
    case True
    then have b: "4 \<le> unat (adu_length (adu_of w (rs_rtu_adu r)))" "unat (adu_length (adu_of w (rs_rtu_adu r))) \<le> 255"
      using r by (simp_all add: response_entry_ok_def)
    from True o obtain req where "modbus_rtu_validate_request (Some req) = MODBUS_RTU_OK"
      "adu_body req = request_pdu_of (recv_buffer c)" "response_check req (adu_of w (rs_rtu_adu r)) = rs_result r"
      by (auto simp: response_of_client_def)
    then have "reply_for (recv_buffer c) (mbap (recv_buffer c) (adu_body (adu_of w (rs_rtu_adu r))))"
      unfolding reply_for_def using True by (intro disjI2 exI [of _ req] exI [of _ "adu_of w (rs_rtu_adu r)"]) (auto simp: good_result_def)
    then show ?thesis using True forwarded_reply(1) [OF len(1,2) wf b] by (simp add: c' transaction_code_zero reply_ok_def)
  qed (simp add: c' transaction_code_zero ex(2))
qed

lemma receive_response_step:
  assumes i: "shape_inv tq tr w" "i < 4" and l: "live (clients (server w) ! i) waiting"
  shows "client_recv_rtu_response io i w = w \<or> tcp_event tq tr w (client_recv_rtu_response io i w)"
proof -
  let ?c = "clients (server w) ! i"
  have rq: "response_queue (server w) = Some tr" using i(1) by (simp add: shape_inv_iff)
  show ?thesis
  proof (cases "responses_of tr w")
    case Nil
    then show ?thesis using rq by (simp add: client_recv_rtu_response_def Let_def responses_of_def)
  next
    case (Cons r rs)
    show ?thesis
    proof (cases "rs_token r = rtu_token ?c")
      case False
      then show ?thesis using Cons rq by (simp add: client_recv_rtu_response_def Let_def responses_of_def)
    next
      case True
      let ?w1 = "pop_response w" and ?p = "modbus_rtu_adu_pool_release (rs_rtu_adu r) (tcp_pool w)"
      define c' where "c' = (if transaction_exception_code (rs_result r) \<noteq> 0
        then client_set_send_exception_response (transaction_exception_code (rs_result r)) (now_ms io i 0) ?c
        else forward_response (adu_of w (rs_rtu_adu r)) (now_ms io i 0) ?c)"
      have w1: "server ?w1 = server w" "tcp_pool ?w1 = tcp_pool w" "issued ?w1 = issued w" "requests_of tq ?w1 = requests_of tq w"
        "responses_of tr ?w1 = rs"
        using Cons rq by (simp_all add: pop_response_def Let_def responses_of_def requests_of_def)
      have e: "client_recv_rtu_response io i w = upd_client i c' (?w1\<lparr>tcp_pool := ?p\<rparr>)"
        using True Cons rq w1(2) by (simp add: client_recv_rtu_response_def Let_def responses_of_def c'_def adu_of_def)
      have cs: "clients (server (upd_client i c' (?w1\<lparr>tcp_pool := ?p\<rparr>))) = take i (clients (server w)) @ c' # drop (Suc i) (clients (server w))"
        using i by (simp add: upd_client_def w1 shape_inv_iff upd_conv_take_nth_drop)
      have r: "response_entry_ok w r" "pool_inv (tcp_pool w)" "rs_rtu_adu r < 6"
        using i(1) Cons by (auto simp: shape_inv_iff owned_def)
      note ro = response_client_ok [OF client_split(3) [OF i] l r c'_def]
      have "tcp_event tq tr w (client_recv_rtu_response io i w)" unfolding e
        by (rule response_taken [OF _ client_split(1) [OF i] cs _ _ _ _ _ l True ro])
          (use w1 Cons in \<open>simp_all add: frame_ok_def requests_of_def responses_of_def\<close>)
      then show ?thesis by simp
    qed
  qed
qed

lemma send_step:
  assumes i: "shape_inv tq tr w" "i < 4" and l: "live (clients (server w) ! i) sending"
  shows "client_send_tcp_response io i w = w \<or> tcp_event tq tr w (client_send_tcp_response io i w)"
proof -
  let ?c = "clients (server w) ! i"
  have ok: "client_ok ?c" using client_split(3) [OF i] .
  have ns: "\<not> live ?c submitting" using l by (simp add: live_def)
  have close: "tcp_event tq tr w (client_close i w)"
    using ok by (intro client_close_step [OF i]) (simp_all add: client_ok_def)
  let ?n = "send_length ?c - send_offset ?c"
  show ?thesis
  proof (cases "\<exists>n. socket ?c \<in> set (write_sockets (server w)) \<and> send_result io i = Sent n \<and> min n ?n \<noteq> 0")
    case False
    then show ?thesis using close
      by (auto simp: client_send_tcp_response_def Let_def split: send_outcome.splits)
  next
    case True
    then obtain n where n: "socket ?c \<in> set (write_sockets (server w))" "send_result io i = Sent n" "min n ?n \<noteq> 0" by auto
    let ?w1 = "w\<lparr>tcp_out := tcp_out w @ [(socket ?c, take (min n ?n) (drop (send_offset ?c) (send_buffer ?c)))]\<rparr>"
    let ?c1 = "?c\<lparr>send_offset := send_offset ?c + min n ?n\<rparr>"
    let ?c' = "if send_offset ?c1 = send_length ?c1 then ?c1\<lparr>client_state := receiving, recv_count := 0\<rparr> else ?c1"
    have e: "client_send_tcp_response io i w = upd_client i ?c' ?w1"
      using n(1,2) unfolding client_send_tcp_response_def Let_def n(2) send_outcome.case if_not_P [OF n(3)] by simp
    have "client_ok ?c'" "\<not> live ?c' submitting" "\<not> live ?c' waiting" "reply_ok ?c \<Longrightarrow> reply_ok ?c'"
      using ok l by (auto simp: client_ok_def live_def reply_ok_def)
    then have "tcp_event tq tr w (client_send_tcp_response io i w)" unfolding e
      by (intro client_step [OF i _ _ ns]) (simp_all add: pool_kept_same [OF i(1)])
    then show ?thesis by simp
  qed
qed

lemma update_step:
  assumes "shape_inv tq tr w" "i < 4"
  shows "client_update io i w = w \<or> tcp_event tq tr w (client_update io i w)"
  using recv_step [OF assms, of io] submit_step [OF assms] receive_response_step [OF assms, of io] send_step [OF assms, of io]
  by (cases "socket (clients (server w) ! i) < 0"; cases "client_state (clients (server w) ! i)")
    (simp_all add: client_update_def Let_def live_def)
section \<open>The task\<close>

lemma steps_of_step: "w' = w \<or> tcp_event tq tr w w' \<Longrightarrow> tcp_steps tq tr w w'"
  by auto

lemma fold_steps:
  assumes "\<And>i w. i < 4 \<Longrightarrow> shape_inv tq tr w \<Longrightarrow> f i w = w \<or> tcp_event tq tr w (f i w)" "shape_inv tq tr w"
    "n \<le> 4"
  shows "tcp_steps tq tr w (fold f [0..<n] w)"
  using assms(3)
proof (induction n)
  case (Suc n)
  then have "tcp_steps tq tr w (fold f [0..<n] w)" by simp
  moreover from this have "shape_inv tq tr (fold f [0..<n] w)" by (rule steps_shape) (rule assms(2))
  then have "tcp_steps tq tr (fold f [0..<n] w) (f n (fold f [0..<n] w))"
    using Suc.prems by (intro steps_of_step assms(1)) simp_all
  ultimately show ?case by (simp add: rtranclp_trans)
qed simp

lemma server_step:
  assumes "shape_inv tq tr w" "frame_ok w w'" "clients (server w') = clients (server w)" "kern w' = kern w \<or> kern w' = watchdog_report e (kern w)"
    "available_token (server w') = available_token (server w)" "issued w' = issued w" "tcp_pool w' = tcp_pool w"
  shows "tcp_event tq tr w w'"
  by (rule server_changed) (use assms in \<open>auto simp: requests_of_def responses_of_def watchdog_report_def\<close>)

lemma free_client_spec:
  assumes "free_client cs \<noteq> length cs"
  shows "free_client cs < length cs" "socket (cs ! free_client cs) < 0"
proof -
  show l: "free_client cs < length cs"
    using assms length_takeWhile_le [of "\<lambda>c. \<not> socket c < 0" cs] by (auto simp: free_client_def)
  show "socket (cs ! free_client cs) < 0" using l nth_length_takeWhile [of "\<lambda>c. \<not> socket c < 0" cs] by (simp add: free_client_def)
qed

lemma accept_step:
  assumes i: "shape_inv tq tr w"
  shows "server_accept io w = w \<or> tcp_event tq tr w (server_accept io w)"
proof -
  let ?fd = "accept_result io" and ?k = "free_client (clients (server w))"
  let ?w1 = "w\<lparr>open_sockets := ?fd # open_sockets w\<rparr>"
  have e: "server_accept io w = (if ?fd < 0 then w else if ?k = 4 \<or> \<not> accept_configured io then close_socket ?fd ?w1
      else upd_client ?k ((clients (server w) ! ?k)\<lparr>socket := ?fd, client_state := receiving, recv_count := 0\<rparr>) ?w1)"
    by (simp add: server_accept_def Let_def)
  show ?thesis
  proof (cases "?fd < 0 \<or> ?k = 4 \<or> \<not> accept_configured io")
    case True
    have "tcp_event tq tr w (close_socket ?fd ?w1)"
      by (rule server_step [OF i]) (simp_all add: frame_ok_def close_socket_def)
    then show ?thesis using True unfolding e by auto
  next
    case False
    let ?c = "clients (server w) ! ?k"
    let ?c' = "?c\<lparr>socket := ?fd, client_state := receiving, recv_count := 0\<rparr>"
    have k: "?k < 4" "socket ?c < 0" using False free_client_spec [of "clients (server w)"] i by (auto simp: shape_inv_iff)
    have nl: "\<not> live ?c st" for st using k(2) by (simp add: live_def)
    then have "client_ok ?c'" using client_split(3) [OF i k(1)] False by (auto simp: client_ok_def live_def)
    then have "tcp_event tq tr w (upd_client ?k ?c' ?w1)"
      by (intro client_step [OF i k(1) _ _ nl]) (simp_all add: pool_kept_same [OF i] live_def reply_ok_def)
    then show ?thesis using False unfolding e by auto
  qed
qed

lemma live_waiting_token:
  "t \<in> set (wait_tokens cs) \<longleftrightarrow> (\<exists>c \<in> set cs. live c waiting \<and> rtu_token c = t)"
  by (auto simp: wait_tokens_def)

lemma clean_step:
  assumes i: "shape_inv tq tr w"
  shows "clean_expired_response w = w \<or> tcp_event tq tr w (clean_expired_response w)"
proof -
  have rq: "response_queue (server w) = Some tr" using i by (simp add: shape_inv_iff)
  show ?thesis
  proof (cases "responses_of tr w")
    case Nil
    then show ?thesis using rq by (simp add: clean_expired_response_def responses_of_def)
  next
    case (Cons r rs)
    show ?thesis
    proof (cases "rs_token r \<in> set (wait_tokens (clients (server w)))")
      case True
      then show ?thesis using Cons rq
        by (simp add: clean_expired_response_def responses_of_def live_waiting_token) (auto simp: live_def)
    next
      case False
      let ?w' = "(pop_response w)\<lparr>tcp_pool := modbus_rtu_adu_pool_release (rs_rtu_adu r) (tcp_pool w)\<rparr>"
      have e: "clean_expired_response w = ?w'"
        using Cons rq False
        by (auto simp: clean_expired_response_def responses_of_def live_waiting_token live_def Let_def pop_response_def)
      have "tcp_event tq tr w ?w'"
        by (rule response_dropped [OF _ _ _ _ _ _ _ False])
          (use Cons rq in \<open>simp_all add: pop_response_def Let_def frame_ok_def requests_of_def responses_of_def\<close>)
      then show ?thesis unfolding e by simp
    qed
  qed
qed

lemma close_step:
  assumes "shape_inv tq tr w" "i < 4"
  shows "tcp_event tq tr w (client_close i w)"
  using client_split(3) [OF assms] by (intro client_close_step [OF assms]) (simp_all add: client_ok_def)

lemma close_if_step:
  assumes "i < 4" "shape_inv tq tr w"
  shows "close_client_if_open i w = w \<or> tcp_event tq tr w (close_client_if_open i w)"
    "close_client_if_bad io i w = w \<or> tcp_event tq tr w (close_client_if_bad io i w)"
  using close_step [OF assms(2,1)] by (auto simp: close_client_if_open_def close_client_if_bad_def Let_def)

lemma fail_step:
  assumes "shape_inv tq tr w"
  shows "tcp_event tq tr w (server_socket_fail w)"
  by (rule server_step [OF assms]) (simp_all add: server_socket_fail_def close_socket_def frame_ok_def)

lemma serve_steps:
  assumes i: "shape_inv tq tr w"
  shows "tcp_steps tq tr w (serve_sockets io w)"
proof -
  let ?w1 = "if server_socket (server w) \<in> set (read_sockets (server w)) then server_accept io w else w"
  have 1: "tcp_steps tq tr w ?w1" using accept_step [OF i, of io] by auto
  have 2: "tcp_steps tq tr ?w1 (clients_update io ?w1)" unfolding clients_update_def
    by (rule fold_steps [OF update_step steps_shape [OF 1 i]]) simp_all
  have "shape_inv tq tr (clients_update io ?w1)" by (rule steps_shape [OF 2 steps_shape [OF 1 i]])
  from rtranclp_trans [OF rtranclp_trans [OF 1 2] steps_of_step [OF clean_step [OF this]]]
  show ?thesis by (simp only: serve_sockets_def)
qed

lemma iteration_steps:
  assumes i: "shape_inv tq tr w"
  shows "tcp_steps tq tr w (snd (tcp_iteration io w))"
proof -
  let ?w1 = "w\<lparr>kern := watchdog_report WATCHDOG_EVENT_MODBUS_TCP (kern w), server := select_sockets io (server w)\<rparr>"
  have 1: "tcp_steps tq tr w ?w1"
    by (rule r_into_rtranclp, rule server_step [OF i, where e = WATCHDOG_EVENT_MODBUS_TCP]) (simp_all add: frame_ok_def select_sockets_def)
  have i1: "shape_inv tq tr ?w1" by (rule steps_shape [OF 1 i])
  have f: "tcp_steps tq tr ?w1 (fold close_client_if_open [0..<4] ?w1)"
    "tcp_steps tq tr ?w1 (fold (close_client_if_bad io) [0..<4] ?w1)"
    by (rule fold_steps [OF close_if_step(1) i1], simp_all) (rule fold_steps [OF close_if_step(2) i1], simp_all)
  note fi = steps_shape [OF f(1) i1] steps_shape [OF f(2) i1]
  note 2 = rtranclp_trans [OF f(1) r_into_rtranclp [of "tcp_event tq tr", OF fail_step [OF fi(1)]]] rtranclp_trans [OF f(2) serve_steps [OF fi(2), of io]]
    steps_of_step [OF clean_step [OF i1]] serve_steps [OF i1, of io]
  show ?thesis
  proof (cases "select_result io")
    case Select_EBADF
    then show ?thesis using rtranclp_trans [OF 1 2(1)] rtranclp_trans [OF 1 2(2)]
      by (simp only: tcp_iteration_def Let_def select_outcome.case split: if_split) simp
  qed (use 1 rtranclp_trans [OF 1 2(3)] rtranclp_trans [OF 1 2(4)] in \<open>simp_all only: tcp_iteration_def Let_def select_outcome.case snd_conv\<close>)
qed

lemma task_steps:
  assumes i: "shape_inv tq tr w"
  shows "tcp_steps tq tr w (snd (tcp_task io (pl, w)))"
proof (cases pl)
  case Opening
  let ?fd = "listener_socket io"
  let ?w1 = "w\<lparr>server := (server w)\<lparr>server_socket := ?fd\<rparr>, open_sockets := (if ?fd < 0 then open_sockets w else ?fd # open_sockets w)\<rparr>"
  have 1: "tcp_steps tq tr w ?w1" by (rule r_into_rtranclp, rule server_step [OF i]) (simp_all add: frame_ok_def)
  have 2: "tcp_steps tq tr w (server_socket_fail ?w1)"
    by (rule rtranclp.rtrancl_into_rtrancl [OF 1 fail_step [OF steps_shape [OF 1 i]]])
  have "snd (tcp_task io (pl, w)) = ?w1 \<or> snd (tcp_task io (pl, w)) = server_socket_fail ?w1"
    by (simp add: Opening open_listener_def Let_def)
  then show ?thesis using 1 2 by auto
qed (simp add: iteration_steps [OF i])
section \<open>The ADUs of others\<close>

text \<open>The ADUs that are out of the pool but not the server's: those the collector holds.\<close>

definition held :: "QueueHandle_t \<Rightarrow> QueueHandle_t \<Rightarrow> tcp_world \<Rightarrow> nat set" where
  "held tq tr w = {0..<6} - free_adus (tcp_pool w) - set (owned tq tr w)"

lemma event_held:
  assumes e: "tcp_event tq tr w w'" and i: "shape_inv tq tr w"
  shows "held tq tr w' = held tq tr w \<and> (\<forall>a \<in> held tq tr w. adu_of w' a = adu_of w a)"
proof -
  have p: "pool_inv (tcp_pool w)" and o6: "set (owned tq tr w) \<subseteq> {0..<6}" and di: "distinct (owned tq tr w)"
    using i by (auto simp: shape_inv_iff)
  have release: ?thesis
    if q: "tcp_pool w' = modbus_rtu_adu_pool_release a (tcp_pool w)" "mset (owned tq tr w) = add_mset a (mset (owned tq tr w'))" for a
  proof -
    have s: "set (owned tq tr w) = insert a (set (owned tq tr w'))" "a \<notin> set (owned tq tr w')"
      using mset_eq_setD [of "owned tq tr w" "a # owned tq tr w'"] di q(2)
        mset_eq_imp_distinct_iff [of "owned tq tr w" "a # owned tq tr w'"] by simp_all
    have "a < 6" using s(1) o6 by auto
    from release_inv(2) [OF p this] s show ?thesis by (auto simp: held_def adu_of_def q(1) release_other)
  qed
  from e show ?thesis
  proof cases
    case server_changed
    then show ?thesis by (simp add: held_def owned_def adu_of_def)
  next
    case (client_changed xs c ys c')
    then have "rtu_adu c' = None" by (auto simp: client_ok_def)
    then have "owned tq tr w' = owned tq tr w" using client_changed by (simp add: owned_def)
    then show ?thesis using client_changed(8) by (auto simp: held_def pool_kept_def)
  next
    case (client_aborted xs c ys c' a)
    have "rtu_adu c' = None" using client_aborted(10,11) by (auto simp: client_ok_def live_def)
    then show ?thesis using client_aborted by (intro release [of a]) (simp_all add: owned_def)
  next
    case (request_accepted xs c ys c' a)
    have "set (owned tq tr w') = insert a (set (owned tq tr w))" using request_accepted by (auto simp: owned_def)
    then show ?thesis using request_accepted(14,16,17) by (auto simp: held_def)
  next
    case (request_submitted xs c ys c' q)
    have "set (owned tq tr w') = set (owned tq tr w)" using request_submitted by (auto simp: owned_def)
    then show ?thesis by (simp add: held_def adu_of_def request_submitted(8))
  next
    case (response_taken xs c ys c' r)
    have "rtu_adu c = None" "rtu_adu c' = None" using i response_taken(2,9,11,12) by (auto simp: shape_inv_iff client_ok_def live_def)
    then show ?thesis using response_taken by (intro release [of "rs_rtu_adu r"]) (simp_all add: owned_def)
  next
    case (response_dropped r)
    then show ?thesis by (intro release [of "rs_rtu_adu r"]) (simp_all add: owned_def)
  qed
qed

lemma steps_held:
  "tcp_steps tq tr w w' \<Longrightarrow> shape_inv tq tr w \<Longrightarrow> held tq tr w' = held tq tr w \<and> (\<forall>a \<in> held tq tr w. adu_of w' a = adu_of w a)"
proof (induction rule: rtranclp_induct)
  case (step y z)
  then show ?case using event_held [OF step.hyps(2) steps_shape [OF step.hyps(1) step.prems]] by auto
qed simp

end
