(* ===== verification/Modbus_Collector.thy ===== *)
theory Modbus_Collector
  imports Configuration RTU_Scheduler
begin

text \<open>
  Model of \<open>app/Modbus/src/modbus_collector_codec.c\<close> and \<open>app/Modbus/src/modbus_collector.c\<close>: one task polls the
  configured points through the scheduler's low-priority queue and publishes each value as a decimal text.
  The log and the calls of the publisher are recorded as lists; the publisher's answer and the tick counts come
  with each step.
\<close>

section \<open>Codec\<close>

datatype modbus_collector_codec_result_t =
    MODBUS_COLLECTOR_CODEC_OK
  | MODBUS_COLLECTOR_CODEC_INVALID_ARGUMENT
  | MODBUS_COLLECTOR_CODEC_SOURCE_INVALID
  | MODBUS_COLLECTOR_CODEC_DATA_TYPE_INVALID
  | MODBUS_COLLECTOR_CODEC_RTU_ERROR
  | MODBUS_COLLECTOR_CODEC_SLAVE_MISMATCH
  | MODBUS_COLLECTOR_CODEC_PAYLOAD_CAPACITY_INSUFFICIENT
  | MODBUS_COLLECTOR_CODEC_FORMAT_ERROR

abbreviation "MODBUS_COLLECTOR_PAYLOAD_CAPACITY \<equiv> (7 :: nat)"
abbreviation "MODBUS_COLLECTOR_QUANTITY \<equiv> (1 :: u16)"

definition point_has_valid_slave :: "configuration_collection_point_t \<Rightarrow> bool" where
  "point_has_valid_slave point \<longleftrightarrow> slave_address point \<ge> 1 \<and> slave_address point \<le> 247"

definition encode_request_for_source ::
  "configuration_collection_point_t \<Rightarrow> modbus_rtu_adu_t \<Rightarrow> modbus_collector_codec_result_t \<times> modbus_rtu_adu_t" where
  "encode_request_for_source point request =
     (let encoded = (\<lambda>(result, adu). (if result \<noteq> MODBUS_RTU_OK then MODBUS_COLLECTOR_CODEC_RTU_ERROR else MODBUS_COLLECTOR_CODEC_OK, the adu));
          a = slave_address point; n = point_address point
      in if point_source point = CONFIGURATION_COLLECTION_SOURCE_COIL
         then encoded (modbus_rtu_read_coils_encode_request (Some request) a n MODBUS_COLLECTOR_QUANTITY)
         else if point_source point = CONFIGURATION_COLLECTION_SOURCE_DISCRETE_INPUT
         then encoded (modbus_rtu_read_discrete_inputs_encode_request (Some request) a n MODBUS_COLLECTOR_QUANTITY)
         else if point_source point = CONFIGURATION_COLLECTION_SOURCE_HOLDING_REGISTER
         then encoded (modbus_rtu_read_holding_registers_encode_request (Some request) a n MODBUS_COLLECTOR_QUANTITY)
         else if point_source point = CONFIGURATION_COLLECTION_SOURCE_INPUT_REGISTER
         then encoded (modbus_rtu_read_input_registers_encode_request (Some request) a n MODBUS_COLLECTOR_QUANTITY)
         else (MODBUS_COLLECTOR_CODEC_SOURCE_INVALID, request))"

text \<open>What \<open>snprintf\<close> prints for \<open>%u\<close> and \<open>%d\<close>, in ASCII.\<close>

fun decimal :: "nat \<Rightarrow> u8 list" where
  "decimal n = (if n < 10 then [of_nat (48 + n)] else decimal (n div 10) @ [of_nat (48 + n mod 10)])"

declare decimal.simps [simp del]

definition signed_decimal :: "int \<Rightarrow> u8 list" where
  "signed_decimal i = (if i < 0 then 45 # decimal (nat (- i)) else decimal (nat i))"

text \<open>
  The text goes into \<open>output\<close> with its NUL when it fits; \<open>snprintf\<close> cannot fail here, so the branch on a negative
  length is not reached.
\<close>

definition format_register_value ::
  "u16 \<Rightarrow> u8 \<Rightarrow> u8 list \<Rightarrow> nat \<Rightarrow> modbus_collector_codec_result_t \<times> u8 list \<times> u16" where
  "format_register_value v data_type output output_capacity =
     (let formatted = (if data_type = CONFIGURATION_DATA_TYPE_UINT16 then decimal (unat v) else signed_decimal (sint v))
      in if length formatted \<ge> output_capacity
         then (MODBUS_COLLECTOR_CODEC_PAYLOAD_CAPACITY_INSUFFICIENT,
               overwrite 0 (take (output_capacity - 1) formatted @ [0]) output, 0)
         else (MODBUS_COLLECTOR_CODEC_OK, overwrite 0 (formatted @ [0]) output, of_nat (length formatted)))"

text \<open>The stack cells \<open>slave_address\<close> and \<open>value\<close> are read only after the decoder has written them.\<close>

definition decode_bit ::
  "configuration_collection_point_t \<Rightarrow> modbus_rtu_adu_t \<Rightarrow> modbus_collector_codec_result_t \<times> bool" where
  "decode_bit point response =
     (case (if point_source point = CONFIGURATION_COLLECTION_SOURCE_COIL
            then modbus_rtu_read_coils_decode_response (Some response) (Some 0) MODBUS_COLLECTOR_QUANTITY (Some [False])
            else modbus_rtu_read_discrete_inputs_decode_response (Some response) (Some 0) MODBUS_COLLECTOR_QUANTITY (Some [False])) of
        (result, s, v) \<Rightarrow>
          if result \<noteq> MODBUS_RTU_OK then (MODBUS_COLLECTOR_CODEC_RTU_ERROR, False)
          else if the s \<noteq> slave_address point then (MODBUS_COLLECTOR_CODEC_SLAVE_MISMATCH, False)
          else (MODBUS_COLLECTOR_CODEC_OK, hd (the v)))"

definition decode_register ::
  "configuration_collection_point_t \<Rightarrow> modbus_rtu_adu_t \<Rightarrow> modbus_collector_codec_result_t \<times> u16" where
  "decode_register point response =
     (if point_data_type point \<noteq> CONFIGURATION_DATA_TYPE_UINT16 \<and> point_data_type point \<noteq> CONFIGURATION_DATA_TYPE_INT16
      then (MODBUS_COLLECTOR_CODEC_DATA_TYPE_INVALID, 0)
      else case (if point_source point = CONFIGURATION_COLLECTION_SOURCE_HOLDING_REGISTER
                 then modbus_rtu_read_holding_registers_decode_response (Some response) (Some 0) MODBUS_COLLECTOR_QUANTITY (Some [0])
                 else modbus_rtu_read_input_registers_decode_response (Some response) (Some 0) MODBUS_COLLECTOR_QUANTITY (Some [0])) of
        (result, s, v) \<Rightarrow>
          if result \<noteq> MODBUS_RTU_OK then (MODBUS_COLLECTOR_CODEC_RTU_ERROR, 0)
          else if the s \<noteq> slave_address point then (MODBUS_COLLECTOR_CODEC_SLAVE_MISMATCH, 0)
          else (MODBUS_COLLECTOR_CODEC_OK, hd (the v)))"

definition modbus_collector_codec_encode_request ::
  "configuration_collection_point_t ptr \<Rightarrow> modbus_rtu_adu_t ptr \<Rightarrow> modbus_collector_codec_result_t \<times> modbus_rtu_adu_t ptr" where
  "modbus_collector_codec_encode_request point request =
     (case (point, request) of
        (Some pt, Some adu) \<Rightarrow>
          if \<not> point_has_valid_slave pt then (MODBUS_COLLECTOR_CODEC_INVALID_ARGUMENT, request)
          else (case encode_request_for_source pt adu of (result, adu') \<Rightarrow> (result, Some adu'))
      | _ \<Rightarrow> (MODBUS_COLLECTOR_CODEC_INVALID_ARGUMENT, request))"

text \<open>The scalar that is published, formatted in the local buffer with its length.\<close>

definition decode_scalar ::
  "configuration_collection_point_t \<Rightarrow> modbus_rtu_adu_t \<Rightarrow> modbus_collector_codec_result_t \<times> u8 list \<times> u16" where
  "decode_scalar pt response =
     (let formatted = replicate MODBUS_COLLECTOR_PAYLOAD_CAPACITY 0 in
      if point_source pt = CONFIGURATION_COLLECTION_SOURCE_COIL \<or> point_source pt = CONFIGURATION_COLLECTION_SOURCE_DISCRETE_INPUT
      then (case decode_bit pt response of (result, v) \<Rightarrow>
              if result \<noteq> MODBUS_COLLECTOR_CODEC_OK then (result, formatted, 0)
              else (MODBUS_COLLECTOR_CODEC_OK, formatted[0 := if v then 49 else 48], 1))
      else if point_source pt = CONFIGURATION_COLLECTION_SOURCE_HOLDING_REGISTER \<or>
              point_source pt = CONFIGURATION_COLLECTION_SOURCE_INPUT_REGISTER
      then (case decode_register pt response of (result, v) \<Rightarrow>
              if result \<noteq> MODBUS_COLLECTOR_CODEC_OK then (result, formatted, 0)
              else format_register_value v (point_data_type pt) formatted MODBUS_COLLECTOR_PAYLOAD_CAPACITY)
      else (MODBUS_COLLECTOR_CODEC_SOURCE_INVALID, formatted, 0))"

definition modbus_collector_codec_decode_response ::
  "configuration_collection_point_t ptr \<Rightarrow> modbus_rtu_adu_t ptr \<Rightarrow> u8 list ptr \<Rightarrow> u16 \<Rightarrow> u16 ptr \<Rightarrow>
   modbus_collector_codec_result_t \<times> u8 list ptr \<times> u16 ptr" where
  "modbus_collector_codec_decode_response point response payload payload_capacity payload_length =
     (case (point, response, payload, payload_length) of
        (Some pt, Some adu, Some buffer, Some _) \<Rightarrow>
          if payload_capacity = 0 then (MODBUS_COLLECTOR_CODEC_INVALID_ARGUMENT, payload, payload_length)
          else if \<not> point_has_valid_slave pt then (MODBUS_COLLECTOR_CODEC_INVALID_ARGUMENT, payload, payload_length)
          else (case decode_scalar pt adu of (result, formatted, formatted_length) \<Rightarrow>
            if result \<noteq> MODBUS_COLLECTOR_CODEC_OK then (result, payload, payload_length)
            else if payload_capacity \<le> formatted_length
            then (MODBUS_COLLECTOR_CODEC_PAYLOAD_CAPACITY_INSUFFICIENT, payload, payload_length)
            else (MODBUS_COLLECTOR_CODEC_OK,
                  Some ((overwrite 0 (take (unat formatted_length) formatted) buffer)[unat formatted_length := 0]),
                  Some formatted_length))
      | _ \<Rightarrow> (MODBUS_COLLECTOR_CODEC_INVALID_ARGUMENT, payload, payload_length))"
section \<open>Collector\<close>

datatype modbus_collector_state_t =
    MODBUS_COLLECTOR_STATE_UNINITIALIZED
  | MODBUS_COLLECTOR_STATE_DISABLED
  | MODBUS_COLLECTOR_STATE_RUNNING
  | MODBUS_COLLECTOR_STATE_FAILED

datatype modbus_collector_result_t =
    MODBUS_COLLECTOR_OK
  | MODBUS_COLLECTOR_DISABLED
  | MODBUS_COLLECTOR_INVALID_ARGUMENT
  | MODBUS_COLLECTOR_INVALID_STATE
  | MODBUS_COLLECTOR_TASK_CREATE_FAILED

datatype modbus_collector_failure_t =
    MODBUS_COLLECTOR_FAILURE_ADU_UNAVAILABLE
  | MODBUS_COLLECTOR_FAILURE_ENCODE
  | MODBUS_COLLECTOR_FAILURE_REQUEST_QUEUE
  | MODBUS_COLLECTOR_FAILURE_RESPONSE_TOKEN
  | MODBUS_COLLECTOR_FAILURE_TRANSACTION
  | MODBUS_COLLECTOR_FAILURE_DECODE
  | MODBUS_COLLECTOR_FAILURE_PUBLISH

record modbus_collector_config_t =
  ccfg_collection :: "configuration_collection_t ptr"
  ccfg_request_queue :: "QueueHandle_t ptr"
  ccfg_response_queue :: "QueueHandle_t ptr"
  ccfg_task_name :: "unit ptr"
  ccfg_task_priority :: u32
  ccfg_task_stack :: "unit ptr"
  ccfg_task_stack_depth :: u32
  ccfg_task_buffer :: "unit ptr"

record modbus_collector_t =
  collector_collection :: "configuration_collection_t ptr"
  collector_request_queue :: "QueueHandle_t ptr"
  collector_response_queue :: "QueueHandle_t ptr"
  next_deadline :: "u32 list"
  publish_context_indices :: "u8 list"
  next_token :: u32
  collector_task_handle :: "unit ptr"
  collector_state :: modbus_collector_state_t

abbreviation "MODBUS_COLLECTOR_TICK_HALF_RANGE \<equiv> (0x80000000 :: u32)"
abbreviation "MODBUS_COLLECTOR_WATCHDOG_INTERVAL_MS \<equiv> (1000 :: u32)"
abbreviation "WATCHDOG_EVENT_COLLECTOR \<equiv> (2 :: u32)"
abbreviation "collector_configMAX_PRIORITIES \<equiv> (56 :: u32)"

text \<open>One call of \<open>mqtt_publisher_publish\<close>; \<open>pub_context\<close> is what the completion callback reads through its pointer.\<close>

record publication =
  pub_topic :: "u8 list"
  pub_payload :: "u8 list"
  pub_qos :: u8
  pub_retain :: u8
  pub_context :: u8

record collector_world =
  collector :: modbus_collector_t
  collector_kern :: rtos
  collector_pool :: adu_pool
  published :: "publication list"
  logged :: "(u8 \<times> modbus_collector_failure_t) list"

definition log_point_failure :: "u8 \<Rightarrow> modbus_collector_failure_t \<Rightarrow> collector_world \<Rightarrow> collector_world" where
  "log_point_failure point_index failure w = w\<lparr>logged := logged w @ [(point_index, failure)]\<rparr>"

text \<open>The tick rate is 1000 Hz; the product is taken at the 32 bits of \<open>TickType_t\<close>.\<close>

definition interval_to_ticks :: "u32 \<Rightarrow> u32" where
  "interval_to_ticks interval_ms = (let ticks = interval_ms * 1000 div 1000 in if ticks = 0 then 1 else ticks)"

definition deadline_is_reached :: "u32 \<Rightarrow> u32 \<Rightarrow> bool" where
  "deadline_is_reached now deadline \<longleftrightarrow> now - deadline < MODBUS_COLLECTOR_TICK_HALF_RANGE"

definition deadline_is_before :: "u32 \<Rightarrow> u32 \<Rightarrow> bool" where
  "deadline_is_before left right \<longleftrightarrow> left \<noteq> right \<and> right - left < MODBUS_COLLECTOR_TICK_HALF_RANGE"

definition collection_of :: "modbus_collector_t \<Rightarrow> configuration_collection_t" where
  "collection_of c = the (collector_collection c)"

definition point_at :: "modbus_collector_t \<Rightarrow> u8 \<Rightarrow> configuration_collection_point_t" where
  "point_at c i = points (collection_of c) ! unat i"

definition select_earliest_point :: "modbus_collector_t \<Rightarrow> u8" where
  "select_earliest_point c =
     foldl (\<lambda>selected i. if deadline_is_before (next_deadline c ! i) (next_deadline c ! unat selected) then of_nat i else selected)
       0 [1..<unat (point_count (collection_of c))]"

definition advance_deadline :: "u8 \<Rightarrow> u32 \<Rightarrow> modbus_collector_t \<Rightarrow> modbus_collector_t" where
  "advance_deadline point_index now c =
     (let deadline = next_deadline c ! unat point_index;
          interval = interval_to_ticks (poll_interval_ms (point_at c point_index));
          elapsed = now - deadline;
          periods = elapsed div interval + 1
      in c\<lparr>next_deadline := (next_deadline c)[unat point_index := deadline + periods * interval]\<rparr>)"

text \<open>\<open>accepted\<close> is whether the publisher accepts the message; \<open>payload0\<close> and \<open>length0\<close> are the stack cells.\<close>

definition publish_value ::
  "bool \<Rightarrow> u8 \<Rightarrow> u8 list \<Rightarrow> u16 \<Rightarrow> collector_world \<Rightarrow> collector_world" where
  "publish_value accepted point_index payload payload_length w =
     (let point = point_at (collector w) point_index;
          w1 = w\<lparr>published := published w @ [\<lparr>
            pub_topic = take (unat (text_length (point_topic point))) (text_bytes (point_topic point)),
            pub_payload = take (unat payload_length) payload, pub_qos = point_qos point, pub_retain = 0,
            pub_context = publish_context_indices (collector w) ! unat point_index\<rparr>]\<rparr>
      in if accepted then w1 else log_point_failure point_index MODBUS_COLLECTOR_FAILURE_PUBLISH w1)"

definition process_response ::
  "bool \<Rightarrow> u8 list \<Rightarrow> u16 \<Rightarrow> u8 \<Rightarrow> u32 \<Rightarrow> response_t \<Rightarrow> collector_world \<Rightarrow> collector_world" where
  "process_response accepted payload0 length0 point_index expected_token response w =
     (let w1 =
        (if rs_token response \<noteq> expected_token then log_point_failure point_index MODBUS_COLLECTOR_FAILURE_RESPONSE_TOKEN w
         else if rs_result response \<noteq> MODBUS_RTU_TRANSACTION_OK
         then log_point_failure point_index MODBUS_COLLECTOR_FAILURE_TRANSACTION w
         else case modbus_collector_codec_decode_response (Some (point_at (collector w) point_index))
                     (Some (pool_adus (collector_pool w) ! rs_rtu_adu response)) (Some payload0)
                     (of_nat MODBUS_COLLECTOR_PAYLOAD_CAPACITY) (Some length0) of
                (codec_result, payload, payload_length) \<Rightarrow>
                  if codec_result \<noteq> MODBUS_COLLECTOR_CODEC_OK
                  then log_point_failure point_index MODBUS_COLLECTOR_FAILURE_DECODE w
                  else publish_value accepted point_index (the payload) (the payload_length) w)
      in w1\<lparr>collector_pool := modbus_rtu_adu_pool_release (rs_rtu_adu response) (collector_pool w1)\<rparr>)"

text \<open>
  The places of the task: choosing a point, with an ADU to submit, and waiting for the response. The task blocks
  only between these, and the pool and the queues are touched once in each.
\<close>

datatype collector_place = Scheduling | Submitting u8 nat | Awaiting u8 u32

text \<open>What the environment gives in a step: the tick count when a point is chosen and when it is done, and the above.\<close>

record collector_io =
  tick_now :: u32
  tick_done :: u32
  publish_accepted :: bool
  payload_cell :: "u8 list"
  payload_length_cell :: u16

definition finish_point :: "collector_io \<Rightarrow> u8 \<Rightarrow> collector_world \<Rightarrow> collector_place \<times> collector_world" where
  "finish_point io point_index w = (Scheduling, w\<lparr>collector := advance_deadline point_index (tick_done io) (collector w)\<rparr>)"

definition begin_point :: "collector_io \<Rightarrow> u8 \<Rightarrow> collector_world \<Rightarrow> collector_place \<times> collector_world" where
  "begin_point io point_index w =
     (case modbus_rtu_adu_pool_allocate (collector_pool w) of
        (None, p) \<Rightarrow> finish_point io point_index (log_point_failure point_index MODBUS_COLLECTOR_FAILURE_ADU_UNAVAILABLE (w\<lparr>collector_pool := p\<rparr>))
      | (Some a, p) \<Rightarrow> (Submitting point_index a, w\<lparr>collector_pool := p\<rparr>))"

definition submit_point :: "collector_io \<Rightarrow> u8 \<Rightarrow> nat \<Rightarrow> collector_world \<Rightarrow> collector_place \<times> collector_world" where
  "submit_point io point_index a w =
     (let point = point_at (collector w) point_index;
          (codec_result, adu) = modbus_collector_codec_encode_request (Some point) (Some (pool_adus (collector_pool w) ! a));
          w1 = w\<lparr>collector_pool := adu_write a (the adu) (collector_pool w)\<rparr>;
          released = (\<lambda>v. v\<lparr>collector_pool := modbus_rtu_adu_pool_release a (collector_pool v)\<rparr>)
      in if codec_result \<noteq> MODBUS_COLLECTOR_CODEC_OK
         then finish_point io point_index (released (log_point_failure point_index MODBUS_COLLECTOR_FAILURE_ENCODE w1))
         else let token = next_token (collector w1);
                  w2 = w1\<lparr>collector := (collector w1)\<lparr>next_token := token + 1\<rparr>\<rparr>;
                  request = \<lparr>rq_token = token, rq_response_timeout_ms = ucast (point_first_byte_timeout_ms point), rq_rtu_adu = a\<rparr>;
                  (sent, k) = xQueueSend_request (the (collector_request_queue (collector w2))) request (collector_kern w2)
              in if \<not> sent
                 then finish_point io point_index (released (log_point_failure point_index MODBUS_COLLECTOR_FAILURE_REQUEST_QUEUE w2))
                 else (Awaiting point_index token, w2\<lparr>collector_kern := k\<rparr>))"

definition await_response :: "collector_io \<Rightarrow> u8 \<Rightarrow> u32 \<Rightarrow> collector_world \<Rightarrow> collector_place \<times> collector_world" where
  "await_response io point_index token w =
     (let q = the (collector_response_queue (collector w)); k = collector_kern w in
      case response_queues k q of
        [] \<Rightarrow> (Awaiting point_index token, w\<lparr>collector_kern := watchdog_report WATCHDOG_EVENT_COLLECTOR k\<rparr>)
      | response # rest \<Rightarrow>
          finish_point io point_index
            (process_response (publish_accepted io) (payload_cell io) (payload_length_cell io) point_index token response
              (w\<lparr>collector_kern := k\<lparr>response_queues := (response_queues k)(q := rest)\<rparr>\<rparr>)))"

fun collector_task :: "collector_io \<Rightarrow> collector_place \<times> collector_world \<Rightarrow> collector_place \<times> collector_world" where
  "collector_task io (Scheduling, w) =
     (let w1 = w\<lparr>collector_kern := watchdog_report WATCHDOG_EVENT_COLLECTOR (collector_kern w)\<rparr> in
      if point_count (collection_of (collector w1)) = 0 then (Scheduling, w1)
      else let point_index = select_earliest_point (collector w1);
               deadline = next_deadline (collector w1) ! unat point_index
           in if \<not> deadline_is_reached (tick_now io) deadline then (Scheduling, w1)
              else begin_point io point_index w1)"
| "collector_task io (Submitting point_index a, w) = submit_point io point_index a w"
| "collector_task io (Awaiting point_index token, w) = await_response io point_index token w"

text \<open>What the task does before its loop.\<close>

definition collector_task_start :: "u32 \<Rightarrow> modbus_collector_t \<Rightarrow> modbus_collector_t" where
  "collector_task_start initial_deadline c =
     c\<lparr>next_deadline := foldl (\<lambda>ds i. ds[i := initial_deadline]) (next_deadline c) [0..<unat (point_count (collection_of c))]\<rparr>"

definition config_is_valid :: "modbus_collector_config_t \<Rightarrow> configuration_collection_t \<Rightarrow> bool" where
  "config_is_valid config coll \<longleftrightarrow>
     \<not> (ccfg_request_queue config = None \<or> ccfg_response_queue config = None \<or> ccfg_task_name config = None \<or>
        ccfg_task_stack config = None \<or> ccfg_task_stack_depth config = 0 \<or> ccfg_task_buffer config = None \<or>
        ccfg_task_priority config \<ge> collector_configMAX_PRIORITIES \<or>
        point_count coll > of_nat CONFIGURATION_COLLECTION_POINT_MAX_COUNT) \<and>
     (\<forall>i < unat (point_count coll). interval_to_ticks (poll_interval_ms (points coll ! i)) < MODBUS_COLLECTOR_TICK_HALF_RANGE)"

definition modbus_collector_init ::
  "bool \<Rightarrow> modbus_collector_t ptr \<Rightarrow> modbus_collector_config_t ptr \<Rightarrow> modbus_collector_result_t \<times> modbus_collector_t ptr" where
  "modbus_collector_init task_created p config =
     (case (p, config) of
        (Some c, Some cfg) \<Rightarrow>
          (case ccfg_collection cfg of
             None \<Rightarrow> (MODBUS_COLLECTOR_INVALID_ARGUMENT, p)
           | Some coll \<Rightarrow>
               if collector_state c \<noteq> MODBUS_COLLECTOR_STATE_UNINITIALIZED then (MODBUS_COLLECTOR_INVALID_STATE, p)
               else let c1 = c\<lparr>collector_collection := Some coll, collector_request_queue := None, collector_response_queue := None,
                          next_token := 0, collector_task_handle := None\<rparr>
                    in if point_count coll = 0
                       then (MODBUS_COLLECTOR_DISABLED, Some (c1\<lparr>collector_state := MODBUS_COLLECTOR_STATE_DISABLED\<rparr>))
                       else if \<not> config_is_valid cfg coll
                       then (MODBUS_COLLECTOR_INVALID_ARGUMENT, Some (c1\<lparr>collector_state := MODBUS_COLLECTOR_STATE_FAILED\<rparr>))
                       else let c2 = c1\<lparr>collector_request_queue := ccfg_request_queue cfg, collector_response_queue := ccfg_response_queue cfg,
                                  publish_context_indices := foldl (\<lambda>xs i. xs[i := of_nat i]) (publish_context_indices c1)
                                    [0..<unat (point_count coll)]\<rparr>
                            in if \<not> task_created
                               then (MODBUS_COLLECTOR_TASK_CREATE_FAILED,
                                     Some (c2\<lparr>collector_state := MODBUS_COLLECTOR_STATE_FAILED, collector_request_queue := None,
                                              collector_response_queue := None\<rparr>))
                               else (MODBUS_COLLECTOR_OK,
                                     Some (c2\<lparr>collector_task_handle := Some (), collector_state := MODBUS_COLLECTOR_STATE_RUNNING\<rparr>)))
      | _ \<Rightarrow> (MODBUS_COLLECTOR_INVALID_ARGUMENT, p))"
section \<open>The decimal text\<close>

definition decimal_value :: "u8 list \<Rightarrow> nat" where
  "decimal_value xs = foldl (\<lambda>n d. 10 * n + (unat d - 48)) 0 xs"

definition signed_value :: "u8 list \<Rightarrow> int" where
  "signed_value xs = (case xs of x # ys \<Rightarrow> if x = 45 then - int (decimal_value ys) else int (decimal_value xs) | [] \<Rightarrow> 0)"

lemma unat_digit: "n < 10 \<Longrightarrow> unat (of_nat (48 + n) :: u8) = 48 + n"
  by (rule unat_of_nat_u8) simp

lemma decimal_spec:
  "decimal_value (decimal n) = n" "list_all (\<lambda>d. 48 \<le> unat d \<and> unat d \<le> 57) (decimal n)" "decimal n \<noteq> []"
proof (induction n rule: decimal.induct)
  case (1 n)
  have v: "decimal_value (xs @ [d]) = 10 * decimal_value xs + (unat d - 48)" for xs d by (simp add: decimal_value_def)
  show "decimal_value (decimal n) = n"
  proof (cases "n < 10")
    case True
    then show ?thesis using unat_digit [of n] by (subst decimal.simps) (simp add: decimal_value_def del: of_nat_add)
  next
    case False
    then show ?thesis using 1(1) unat_digit [of "n mod 10"] by (subst decimal.simps) (simp add: v del: of_nat_add)
  qed
  show "list_all (\<lambda>d. 48 \<le> unat d \<and> unat d \<le> 57) (decimal n)"
    using 1(2) unat_digit [of "n mod 10"] unat_digit [of n] less_Suc_eq_le [of "n mod 10" 9] by (subst decimal.simps) (simp del: of_nat_add)
  show "decimal n \<noteq> []" by (subst decimal.simps) simp
qed

lemma decimal_length: "0 < k \<Longrightarrow> n < 10 ^ k \<Longrightarrow> length (decimal n) \<le> k"
proof (induction k arbitrary: n)
  case (Suc k)
  show ?case
  proof (cases "n < 10")
    case False
    then have "0 < k" using Suc.prems by (cases k) auto
    moreover have "n div 10 < 10 ^ k" using Suc.prems by (simp add: less_mult_imp_div_less ac_simps)
    ultimately have "length (decimal (n div 10)) \<le> k" by (rule Suc.IH)
    then show ?thesis using False by (subst decimal.simps) simp
  qed (subst decimal.simps, simp)
qed simp

lemma signed_decimal_spec:
  "signed_value (signed_decimal i) = i" "- 100000 < i \<Longrightarrow> i < 100000 \<Longrightarrow> length (signed_decimal i) \<le> 6"
proof -
  have h: "hd (decimal n) \<noteq> 45" for n
    using decimal_spec(2,3) [of n] by (cases "decimal n") (auto simp: word_unat_eq_iff)
  show "signed_value (signed_decimal i) = i"
    using h [of "nat i"] decimal_spec(3) [of "nat i"] decimal_spec(1) [of "nat i"] decimal_spec(1) [of "nat (- i)"]
    by (cases "decimal (nat i)") (auto simp: signed_value_def signed_decimal_def)
  show "length (signed_decimal i) \<le> 6" if "- 100000 < i" "i < 100000"
  proof -
    have "nat i < 10 ^ 5" "nat (- i) < 10 ^ 5" using that by (simp_all add: nat_less_iff)
    then have "length (decimal (nat i)) \<le> 5" "length (decimal (nat (- i))) \<le> 5" by (auto intro: decimal_length)
    then show ?thesis by (simp add: signed_decimal_def)
  qed
qed

text \<open>What a point publishes for a response: the first bit, or the first register as its data type says.\<close>

definition scalar_text :: "configuration_collection_point_t \<Rightarrow> modbus_rtu_adu_t \<Rightarrow> u8 list" where
  "scalar_text pt resp =
     (if point_source pt = CONFIGURATION_COLLECTION_SOURCE_COIL \<or> point_source pt = CONFIGURATION_COLLECTION_SOURCE_DISCRETE_INPUT
      then [if bit (adu_data resp ! 3) 0 then 49 else 48]
      else if point_data_type pt = CONFIGURATION_DATA_TYPE_UINT16 then decimal (unat (read_u16_be (adu_data resp) 3))
      else signed_decimal (sint (read_u16_be (adu_data resp) 3)))"

definition scalar_value :: "configuration_collection_point_t \<Rightarrow> modbus_rtu_adu_t \<Rightarrow> int" where
  "scalar_value pt resp =
     (if point_source pt = CONFIGURATION_COLLECTION_SOURCE_COIL \<or> point_source pt = CONFIGURATION_COLLECTION_SOURCE_DISCRETE_INPUT
      then of_bool (bit (adu_data resp ! 3) 0)
      else if point_data_type pt = CONFIGURATION_DATA_TYPE_UINT16 then uint (read_u16_be (adu_data resp) 3)
      else sint (read_u16_be (adu_data resp) 3))"

lemma scalar_text_spec: "signed_value (scalar_text pt resp) = scalar_value pt resp" "length (scalar_text pt resp) \<le> 6" "scalar_text pt resp \<noteq> []"
proof -
  have u: "signed_value (decimal n) = int n" for n
    using signed_decimal_spec(1) [of "int n"] by (simp add: signed_decimal_def)
  show "signed_value (scalar_text pt resp) = scalar_value pt resp"
    by (simp add: scalar_text_def scalar_value_def u signed_decimal_spec(1)) (simp add: signed_value_def decimal_value_def)
  have "unat (read_u16_be (adu_data resp) 3) < 100000" using unat_u16_less by (rule less_trans) simp
  moreover have "- 100000 < sint (v :: u16)" "sint v < 100000" for v using sint_greater_eq [of v] sint_less [of v] by simp_all
  ultimately show "length (scalar_text pt resp) \<le> 6"
    using decimal_length [of 5 "unat (read_u16_be (adu_data resp) 3)"] signed_decimal_spec(2) [of "sint (read_u16_be (adu_data resp) 3)"]
    by (simp add: scalar_text_def)
  show "scalar_text pt resp \<noteq> []" by (simp add: scalar_text_def decimal_spec(3) signed_decimal_def)
qed

section \<open>The codec\<close>

definition source_function :: "configuration_collection_point_t \<Rightarrow> u8" where
  "source_function pt =
     (if point_source pt = CONFIGURATION_COLLECTION_SOURCE_COIL then MODBUS_FC_READ_COILS
      else if point_source pt = CONFIGURATION_COLLECTION_SOURCE_DISCRETE_INPUT then MODBUS_FC_READ_DISCRETE_INPUTS
      else if point_source pt = CONFIGURATION_COLLECTION_SOURCE_HOLDING_REGISTER then MODBUS_FC_READ_HOLDING_REGISTERS
      else MODBUS_FC_READ_INPUT_REGISTERS)"

lemma valid_point:
  assumes "collection_point_is_valid pt"
  shows "slave_address_is_routable (slave_address pt)" "point_has_valid_slave pt" "unat (point_source pt) \<le> 3"
    "1000 \<le> unat (poll_interval_ms pt)" "unat (poll_interval_ms pt) \<le> 3600000" "0 < unat (point_first_byte_timeout_ms pt)"
    "2 \<le> point_source pt \<Longrightarrow> point_data_type pt = CONFIGURATION_DATA_TYPE_UINT16 \<or> point_data_type pt = CONFIGURATION_DATA_TYPE_INT16"
  using assms
  by (auto simp: collection_point_is_valid_def slave_address_is_routable_iff point_has_valid_slave_def word_le_nat_alt word_less_nat_alt
      word_unat_eq_iff split: if_splits)

lemma encode_point:
  assumes v: "collection_point_is_valid pt" and wf: "adu_wf adu"
  shows "\<exists>req. modbus_collector_codec_encode_request (Some pt) (Some adu) = (MODBUS_COLLECTOR_CODEC_OK, Some req) \<and>
    is_read_request (slave_address pt) (source_function pt) (point_address pt) 1 req \<and> modbus_rtu_validate_request (Some req) = MODBUS_RTU_OK"
proof -
  note p = valid_point [OF v]
  have o: "\<exists>req. encode_address_quantity_request (Some adu) (slave_address pt) f mx (point_address pt) 1 = (MODBUS_RTU_OK, Some req) \<and>
      is_read_request (slave_address pt) f (point_address pt) 1 req \<and> modbus_rtu_validate_request (Some req) = MODBUS_RTU_OK"
    if f: "(f, mx) \<in> {(MODBUS_FC_READ_COILS, 2000), (MODBUS_FC_READ_DISCRETE_INPUTS, 2000),
                (MODBUS_FC_READ_HOLDING_REGISTERS, 125), (MODBUS_FC_READ_INPUT_REGISTERS, 125)}" for f mx
  proof -
    obtain r q where e: "encode_address_quantity_request (Some adu) (slave_address pt) f mx (point_address pt) 1 = (r, q)" by fastforce
    have "1 \<le> unat mx" "unat (point_address pt) + 1 \<le> 65536" using f unat_u16_less [of "point_address pt"] less_Suc_eq_le [of "unat (point_address pt)" 65535] by auto
    then show ?thesis using encode_read_request_correct [OF wf e f] p(1) e
      by (auto simp: slave_address_is_routable_iff split: if_splits)
  qed
  have "point_source pt = 0 \<or> point_source pt = 1 \<or> point_source pt = 2 \<or> point_source pt = 3"
    using p(3) by (auto simp: word_unat_eq_iff)
  then show ?thesis
    using o [of MODBUS_FC_READ_COILS 2000] o [of MODBUS_FC_READ_DISCRETE_INPUTS 2000] o [of MODBUS_FC_READ_HOLDING_REGISTERS 125]
      o [of MODBUS_FC_READ_INPUT_REGISTERS 125] p(2)
    by (auto simp: modbus_collector_codec_encode_request_def encode_request_for_source_def Let_def source_function_def
        modbus_rtu_read_coils_encode_request_def modbus_rtu_read_discrete_inputs_encode_request_def
        modbus_rtu_read_holding_registers_encode_request_def modbus_rtu_read_input_registers_encode_request_def)
qed
lemma accepted_bit_value:
  assumes r: "is_read_request s f st 1 req" "slave_address_is_routable s" "f = MODBUS_FC_READ_COILS \<or> f = MODBUS_FC_READ_DISCRETE_INPUTS"
    and ok: "response_check req resp = MODBUS_RTU_TRANSACTION_OK"
  shows "decode_bit_response (Some resp) f 2000 (Some 0) 1 (Some [False]) = (MODBUS_RTU_OK, Some s, Some [bit (adu_data resp ! 3) 0])"
proof -
  obtain vals where "decode_bit_response (Some resp) f 2000 (Some 0) 1 (Some [False]) = (MODBUS_RTU_OK, Some s, Some (overwrite 0 vals [False]))"
    using accepted_bit_response_decodes [OF r(3) _ _ _ r(2) _ _ ok, of 1 0 "[False]"] r(1) by (auto simp: is_read_request_def)
  then show ?thesis
    by (auto simp: decode_bit_response_def Let_def overwrite_def and_one_nonzero_iff split: if_splits)
qed

lemma accepted_register_value:
  assumes r: "is_read_request s f st 1 req" "slave_address_is_routable s"
      "f = MODBUS_FC_READ_HOLDING_REGISTERS \<or> f = MODBUS_FC_READ_INPUT_REGISTERS"
    and ok: "response_check req resp = MODBUS_RTU_TRANSACTION_OK"
  shows "decode_register_response (Some resp) f 125 (Some 0) 1 (Some [0]) = (MODBUS_RTU_OK, Some s, Some [read_u16_be (adu_data resp) 3])"
proof -
  obtain vals where "decode_register_response (Some resp) f 125 (Some 0) 1 (Some [0]) = (MODBUS_RTU_OK, Some s, Some (overwrite 0 vals [0]))"
    using accepted_register_response_decodes [OF r(3) _ _ _ r(2) _ _ ok, of 1 0 "[0]"] r(1) by (auto simp: is_read_request_def)
  moreover from this have "ucast (adu_data resp ! 2) div 2 = (1 :: u16)"
    by (auto simp: decode_register_response_def Let_def split: if_splits)
  ultimately show ?thesis
    by (auto simp: decode_register_response_def Let_def overwrite_def split: if_splits)
qed

lemma decode_scalar_accepted:
  assumes v: "collection_point_is_valid pt" and r: "is_read_request (slave_address pt) (source_function pt) (point_address pt) 1 req"
    and ok: "response_check req resp = MODBUS_RTU_TRANSACTION_OK"
  shows "\<exists>rest. decode_scalar pt resp = (MODBUS_COLLECTOR_CODEC_OK, scalar_text pt resp @ rest, of_nat (length (scalar_text pt resp)))"
proof -
  note p = valid_point [OF v]
  have cases: "point_source pt = 0 \<or> point_source pt = 1 \<or> point_source pt = 2 \<or> point_source pt = 3"
    using p(3) by (auto simp: word_unat_eq_iff)
  show ?thesis
  proof (cases "point_source pt = 0 \<or> point_source pt = 1")
    case True
    then have "decode_bit pt resp = (MODBUS_COLLECTOR_CODEC_OK, bit (adu_data resp ! 3) 0)"
      using accepted_bit_value [OF r p(1) _ ok]
      by (auto simp: decode_bit_def source_function_def modbus_rtu_read_coils_decode_response_def
          modbus_rtu_read_discrete_inputs_decode_response_def)
    then show ?thesis using True
      by (auto simp: decode_scalar_def Let_def scalar_text_def numeral_eq_Suc)
  next
    case False
    then have s: "point_source pt = 2 \<or> point_source pt = 3" using cases by simp
    then have dt: "point_data_type pt = 0 \<or> point_data_type pt = 1" using p(7) by auto
    have "decode_register pt resp = (MODBUS_COLLECTOR_CODEC_OK, read_u16_be (adu_data resp) 3)"
      using accepted_register_value [OF r p(1) _ ok] s dt
      by (auto simp: decode_register_def source_function_def modbus_rtu_read_holding_registers_decode_response_def
          modbus_rtu_read_input_registers_decode_response_def)
    moreover have "length (scalar_text pt resp) < 7" using scalar_text_spec(2) [of pt resp] by simp
    ultimately show ?thesis using False s dt
      by (auto simp: decode_scalar_def Let_def format_register_value_def scalar_text_def overwrite_def)
  qed
qed

lemma decode_accepted:
  assumes "collection_point_is_valid pt" "is_read_request (slave_address pt) (source_function pt) (point_address pt) 1 req"
    "response_check req resp = MODBUS_RTU_TRANSACTION_OK" "length payload0 = 7"
  shows "\<exists>payload. modbus_collector_codec_decode_response (Some pt) (Some resp) (Some payload0) 7 (Some length0) =
      (MODBUS_COLLECTOR_CODEC_OK, Some payload, Some (of_nat (length (scalar_text pt resp)))) \<and>
    take (length (scalar_text pt resp) + 1) payload = scalar_text pt resp @ [0]"
proof -
  let ?t = "scalar_text pt resp"
  obtain rest where d: "decode_scalar pt resp = (MODBUS_COLLECTOR_CODEC_OK, ?t @ rest, of_nat (length ?t))"
    using decode_scalar_accepted [OF assms(1-3)] by blast
  have l: "length ?t \<le> 6" by (rule scalar_text_spec(2))
  then have u: "unat (of_nat (length ?t) :: u16) = length ?t" by (intro unat_of_nat_u16) simp
  then have n: "\<not> 7 \<le> (of_nat (length ?t) :: u16)" using l by (simp add: word_le_nat_alt)
  show ?thesis
    using valid_point(2) [OF assms(1)] d n u l assms(4)
    by (simp add: modbus_collector_codec_decode_response_def overwrite_def list_update_append Cons_nth_drop_Suc [symmetric])
qed
section \<open>Deadlines\<close>

lemma unat_interval:
  assumes "1000 \<le> unat ms" "unat ms \<le> 3600000"
  shows "interval_to_ticks ms = ms"
proof -
  have m: "unat (ms * 1000) = unat ms * 1000" using assms by (subst unat_mult_lem [THEN iffD1]) simp_all
  have "unat (ms * 1000 div 1000) = unat ms" by (simp add: unat_div m)
  then have "ms * 1000 div 1000 = ms" by (simp only: word_unat_eq_iff)
  moreover have "ms \<noteq> 0" using assms by auto
  ultimately show ?thesis by (simp add: interval_to_ticks_def)
qed

lemma sub_split: "unat (a - b) \<le> unat (c - b) \<Longrightarrow> unat (c - a) = unat (c - b) - unat (a - b)" for a b c :: u32
proof -
  assume "unat (a - b) \<le> unat (c - b)"
  then have "unat ((c - b) - (a - b)) = unat (c - b) - unat (a - b)" by (intro unat_sub) (simp add: word_le_nat_alt)
  moreover have "(c - b) - (a - b) = c - a" by (simp add: algebra_simps)
  ultimately show ?thesis by simp
qed

lemma unat_minus_eq: "x \<noteq> 0 \<Longrightarrow> unat (- x) = 2 ^ 32 - unat x" for x :: u32
proof -
  assume "x \<noteq> 0"
  then have "0 < unat x" by (simp add: unat_gt_0)
  moreover have "(unat x + unat (- x)) mod 4294967296 = 0" using unat_word_ariths(1) [of x "- x"] by simp
  moreover have "unat x < 4294967296" "unat (- x) < 4294967296" by (rule less_le_trans [OF unsigned_less], simp)+
  moreover from calculation(2) obtain k where "unat x + unat (- x) = 4294967296 * k" by (auto simp: mod_eq_0_iff_dvd elim: dvdE)
  ultimately have "unat x + unat (- x) = 4294967296 * k" "0 < k" "k < 2" by (cases k; linarith)+
  then show ?thesis by (simp add: less_2_cases_iff)
qed

text \<open>The arithmetic of \<open>advance_deadline\<close>, with the interval already in ticks.\<close>

lemma next_period:
  fixes now deadline interval :: u32
  assumes "unat (now - deadline) < 2 ^ 31" "0 < unat interval" "unat interval < 2 ^ 31"
  defines "d' \<equiv> deadline + ((now - deadline) div interval + 1) * interval"
  shows "0 < unat (d' - now) \<and> unat (d' - now) \<le> unat interval \<and> unat (d' - deadline) mod unat interval = 0"
proof -
  let ?e = "unat (now - deadline)" and ?n = "unat interval"
  let ?p = "?e div ?n + 1"
  have b: "?p * ?n \<le> ?e + ?n" "?e < ?p * ?n" using assms(2)
    by (simp_all add: dividend_less_div_times add.commute)
  have p: "unat ((now - deadline) div interval + 1) = ?p"
    using assms(1) le_less_trans [OF div_le_dividend [of ?e ?n] assms(1)] by (subst unat_plus_small) (simp_all add: unat_div)
  have u: "unat (((now - deadline) div interval + 1) * interval) = ?p * ?n"
  proof -
    have "?e + ?n < 2 ^ 32" using assms(1,3) by simp
    then have "?p * ?n < 2 ^ 32" by (rule le_less_trans [OF b(1)])
    then show ?thesis using unat_mult_lem [of "(now - deadline) div interval + 1" interval] by (simp only: p) simp
  qed
  have d: "unat (d' - deadline) = ?p * ?n" by (simp add: d'_def u)
  then have "unat (d' - now) = ?p * ?n - ?e" using sub_split [of now deadline d'] b(2) by simp
  moreover have "?p * ?n - ?e \<le> ?n" "0 < ?p * ?n - ?e" using b by linarith+
  ultimately show ?thesis using d by simp
qed

text \<open>
  C34. Advancing a point's deadline after it was handled follows the specification: for every point a
  configuration accepts, the interval in ticks is exactly its poll interval, the new deadline is the first
  one after the current tick that is a whole number of intervals after the old one (the time base never
  drifts and missed periods are dropped), it is not yet reached, and no other deadline moves; all of it
  modulo the wrap of the tick counter.
\<close>

theorem advance_deadline_exact:
  assumes "collection_point_is_valid (point_at c i)" "unat i < length (next_deadline c)"
    and "deadline_is_reached now (next_deadline c ! unat i)"
  shows "let d = next_deadline c ! unat i; n = unat (poll_interval_ms (point_at c i));
      ds = next_deadline (advance_deadline i now c); d' = ds ! unat i in
    0 < unat (d' - now) \<and> unat (d' - now) \<le> n \<and> unat (d' - d) mod n = 0 \<and> \<not> deadline_is_reached now d' \<and>
    length ds = length (next_deadline c) \<and> (\<forall>j < length ds. j \<noteq> unat i \<longrightarrow> ds ! j = next_deadline c ! j)"
proof -
  let ?d = "next_deadline c ! unat i" and ?n = "poll_interval_ms (point_at c i)"
  let ?d' = "?d + ((now - ?d) div ?n + 1) * ?n"
  have n: "1000 \<le> unat ?n" "unat ?n \<le> 3600000" using valid_point(4,5) [OF assms(1)] by simp_all
  have e: "next_deadline (advance_deadline i now c) = (next_deadline c)[unat i := ?d']"
    by (simp add: advance_deadline_def Let_def unat_interval [OF n])
  have "unat (now - ?d) < 2 ^ 31" using assms(3) by (simp add: deadline_is_reached_def word_less_nat_alt)
  from next_period [OF this, of ?n] n
  have r: "0 < unat (?d' - now)" "unat (?d' - now) \<le> unat ?n" "unat (?d' - ?d) mod unat ?n = 0" by simp_all
  have "unat (now - ?d') = 2 ^ 32 - unat (?d' - now)"
    using r(1) unat_minus_eq [of "?d' - now"] by fastforce
  then have "\<not> deadline_is_reached now ?d'" using r(2) n by (simp add: deadline_is_reached_def word_less_nat_alt)
  then show ?thesis using r assms(2) by (simp add: e Let_def)
qed

text \<open>Comparison of deadlines that lie in one half of the tick range after \<open>b\<close>.\<close>

lemma before_iff:
  assumes "unat (l - b) < 2 ^ 31" "unat (r - b) < 2 ^ 31"
  shows "deadline_is_before l r \<longleftrightarrow> unat (l - b) < unat (r - b)"
proof (cases "unat (l - b) \<le> unat (r - b)")
  case True
  then have "unat (r - l) = unat (r - b) - unat (l - b)" by (rule sub_split)
  moreover have "l = r \<longleftrightarrow> unat (l - b) = unat (r - b)" by (metis diff_add_cancel word_unat_eq_iff)
  ultimately show ?thesis using assms True by (auto simp: deadline_is_before_def word_less_nat_alt)
next
  case False
  then have s: "unat (l - r) = unat (l - b) - unat (r - b)" by (intro sub_split) simp
  then have "l \<noteq> r" "l - r \<noteq> 0" using False by auto
  then have "unat (r - l) = 2 ^ 32 - unat (l - r)" using unat_minus_eq [of "l - r"] by simp
  then have "\<not> unat (r - l) < 2 ^ 31" using s assms by simp
  then show ?thesis using False by (simp add: deadline_is_before_def word_less_nat_alt)
qed

definition earliest :: "nat \<Rightarrow> (nat \<Rightarrow> nat) \<Rightarrow> nat \<Rightarrow> bool" where
  "earliest n key k \<longleftrightarrow> k < n \<and> (\<forall>j < n. key k \<le> key j) \<and> (\<forall>j < k. key k < key j)"

lemma select_loop:
  assumes "\<And>j. j < n \<Longrightarrow> unat (ds ! j - b) < 2 ^ 31" "n \<le> 256" "0 < n"
  shows "earliest n (\<lambda>j. unat (ds ! j - b))
    (unat (foldl (\<lambda>s i. if deadline_is_before (ds ! i) (ds ! unat s) then of_nat i else s) (0 :: u8) [1..<n]))"
  using assms
proof (induction n)
  case (Suc n)
  let ?f = "\<lambda>s i. if deadline_is_before (ds ! i) (ds ! unat s) then of_nat i else s"
  let ?k = "foldl ?f (0 :: u8) [1..<n]"
  show ?case
  proof (cases "n = 0")
    case False
    then have k: "earliest n (\<lambda>j. unat (ds ! j - b)) (unat ?k)" using Suc by simp
    have e: "foldl ?f 0 [1..<Suc n] = ?f ?k n" using False by simp
    have bf: "deadline_is_before (ds ! n) (ds ! unat ?k) \<longleftrightarrow> unat (ds ! n - b) < unat (ds ! unat ?k - b)"
      by (rule before_iff) (use Suc.prems(1) k in \<open>auto simp: earliest_def\<close>)
    have un: "unat (of_nat n :: u8) = n" using Suc.prems(2) by (intro unat_of_nat_u8) simp
    show ?thesis unfolding e using k bf un
      by (cases "deadline_is_before (ds ! n) (ds ! unat ?k)")
        (auto simp: earliest_def less_Suc_eq intro: less_le_trans le_less_trans order.strict_implies_order)
  qed (simp add: earliest_def)
qed simp

text \<open>
  C35. Which point is handled next: when the deadlines of a collection lie within half of the tick range of
  each other, \<open>select_earliest_point\<close> chooses one with the earliest deadline, the first such in
  configuration order, across the wrap of the tick counter.
\<close>

theorem select_earliest_correct:
  assumes "0 < unat (point_count (collection_of c))"
    and "\<forall>j < unat (point_count (collection_of c)). unat (next_deadline c ! j - base) < 2 ^ 31"
  shows "earliest (unat (point_count (collection_of c))) (\<lambda>j. unat (next_deadline c ! j - base)) (unat (select_earliest_point c))"
  unfolding select_earliest_point_def
  by (rule select_loop) (use assms less_imp_le [OF unat_u8_less [of "point_count (collection_of c)"]] in auto)

definition example_collector :: modbus_collector_t where
  "example_collector = \<lparr>collector_collection = Some \<lparr>point_count = 3, points = replicate 16 (zero_point\<lparr>slave_address := 7, poll_interval_ms := 5000,
        point_first_byte_timeout_ms := 100, point_topic := \<lparr>text_length = 1, text_bytes = 97 # replicate 128 0\<rparr>\<rparr>)\<rparr>,
     collector_request_queue = Some 2, collector_response_queue = Some 3,
     next_deadline = [100, 0xFFFFFFFE, 0xFFFFFFFE] @ replicate 13 0, publish_context_indices = map of_nat [0..<16], next_token = 0,
     collector_task_handle = Some (), collector_state = MODBUS_COLLECTOR_STATE_RUNNING\<rparr>"

lemma example_point: "j < 16 \<Longrightarrow> collection_point_is_valid (points (collection_of example_collector) ! j)"
  "next_deadline example_collector = [100, 0xFFFFFFFE, 0xFFFFFFFE] @ replicate 13 0" "point_count (collection_of example_collector) = 3"
proof -
  have "collection_point_is_valid (zero_point\<lparr>slave_address := 7, poll_interval_ms := 5000,
        point_first_byte_timeout_ms := 100, point_topic := \<lparr>text_length = 1, text_bytes = 97 # replicate 128 0\<rparr>\<rparr>)"
    by code_simp
  then show "collection_point_is_valid (points (collection_of example_collector) ! j)" if "j < 16" using that
    by (simp add: example_collector_def collection_of_def)
  show "next_deadline example_collector = [100, 0xFFFFFFFE, 0xFFFFFFFE] @ replicate 13 0" "point_count (collection_of example_collector) = 3"
    by (simp_all add: example_collector_def collection_of_def)
qed

text \<open>A deadline just before the wrap of the counter, handled after it.\<close>

theorem advance_deadline_exact_witness:
  "0 < unat (next_deadline (advance_deadline 1 9000 example_collector) ! 1 - 9000)"
  using advance_deadline_exact [of example_collector 1 9000] example_point
  by (simp add: point_at_def Let_def deadline_is_reached_def)

theorem select_earliest_correct_witness:
  "earliest 3 (\<lambda>j. unat (next_deadline example_collector ! j - 0xFFFFFF00)) (unat (select_earliest_point example_collector))"
proof -
  have "\<forall>j < 3. unat (next_deadline example_collector ! j - 0xFFFFFF00) < 2 ^ 31"
    by (simp add: example_point(2) numeral_3_eq_3 All_less_Suc)
  then show ?thesis using select_earliest_correct [of example_collector "0xFFFFFF00"] by (simp add: example_point(3))
qed
section \<open>From the request to the payload\<close>

text \<open>
  C36. A point's value survives the way to its payload: for every point a configuration accepts, the request
  is encoded without error and passes the scheduler's validation, and whatever response the transaction
  accepts for it is decoded without error into a NUL-terminated decimal text of at most six characters,
  whose value is the bit, the unsigned or the two's complement register in the response.
\<close>

theorem collected_value_correct:
  assumes "collection_point_is_valid pt" "adu_wf adu" "length payload0 = MODBUS_COLLECTOR_PAYLOAD_CAPACITY"
    and "modbus_collector_codec_encode_request (Some pt) (Some adu) = (encoded, Some req)"
    and "response_check req resp = MODBUS_RTU_TRANSACTION_OK"
  shows "encoded = MODBUS_COLLECTOR_CODEC_OK \<and> modbus_rtu_validate_request (Some req) = MODBUS_RTU_OK \<and>
    (\<exists>payload n. modbus_collector_codec_decode_response (Some pt) (Some resp) (Some payload0) 7 (Some length0) =
        (MODBUS_COLLECTOR_CODEC_OK, Some payload, Some n) \<and>
      unat n \<le> 6 \<and> payload ! unat n = 0 \<and> signed_value (take (unat n) payload) = scalar_value pt resp)"
proof -
  let ?t = "scalar_text pt resp"
  have e: "encoded = MODBUS_COLLECTOR_CODEC_OK" "modbus_rtu_validate_request (Some req) = MODBUS_RTU_OK"
    "is_read_request (slave_address pt) (source_function pt) (point_address pt) 1 req"
    using encode_point [OF assms(1,2)] assms(4) by auto
  obtain payload where p: "modbus_collector_codec_decode_response (Some pt) (Some resp) (Some payload0) 7 (Some length0) =
      (MODBUS_COLLECTOR_CODEC_OK, Some payload, Some (of_nat (length ?t)))" "take (length ?t + 1) payload = ?t @ [0]"
    using decode_accepted [OF assms(1) e(3) assms(5,3)] by blast
  have u: "unat (of_nat (length ?t) :: u16) = length ?t" using scalar_text_spec(2) [of pt resp] by (intro unat_of_nat_u16) simp
  have "take (length ?t) payload = take (length ?t) (take (length ?t + 1) payload)" by (simp only: take_take) simp
  moreover have "payload ! length ?t = take (length ?t + 1) payload ! length ?t" by (rule nth_take [symmetric]) simp
  ultimately have "take (length ?t) payload = ?t" "payload ! length ?t = 0" by (simp_all only: p(2)) simp_all
  then show ?thesis using e p(1) u scalar_text_spec [of pt resp] by auto
qed

theorem collected_value_correct_witness:
  "\<exists>payload n. modbus_collector_codec_decode_response (Some (zero_point\<lparr>slave_address := 1, point_source := 2, poll_interval_ms := 1000,
       point_first_byte_timeout_ms := 100, point_topic := \<lparr>text_length = 1, text_bytes = 97 # replicate 128 0\<rparr>, point_data_type := 1\<rparr>))
     (Some \<lparr>adu_length = 7, adu_data = [1, 3, 2, 0xFF, 0xFE, 0x78, 0x34]\<rparr>) (Some (replicate 7 0)) 7 (Some 0) =
       (MODBUS_COLLECTOR_CODEC_OK, Some payload, Some n) \<and> signed_value (take (unat n) payload) = - 2"
proof -
  let ?pt = "zero_point\<lparr>slave_address := 1, point_source := 2, poll_interval_ms := 1000,
       point_first_byte_timeout_ms := 100, point_topic := \<lparr>text_length = 1, text_bytes = 97 # replicate 128 0\<rparr>, point_data_type := 1\<rparr>"
  let ?resp = "\<lparr>adu_length = 7, adu_data = [1, 3, 2, 0xFF, 0xFE, 0x78, 0x34]\<rparr>"
  let ?adu = "\<lparr>adu_length = 0, adu_data = replicate 256 0\<rparr>"
  have v: "collection_point_is_valid ?pt" by code_simp
  obtain req where e: "modbus_collector_codec_encode_request (Some ?pt) (Some ?adu) = (MODBUS_COLLECTOR_CODEC_OK, Some req)"
    and r: "is_read_request 1 3 0 1 req"
    using encode_point [OF v, of ?adu] by (auto simp: adu_wf_def source_function_def zero_point_def)
  have d: "adu_data req ! 0 = 1" "adu_data req ! 1 = 3" "read_u16_be (adu_data req) 4 = 1" using r by (simp_all add: is_read_request_def)
  have c: "has_valid_crc ?resp" "response_length_check ?resp = None" by code_simp+
  have ok: "response_check req ?resp = MODBUS_RTU_TRANSACTION_OK"
    using c d by (simp add: response_check_def response_data_check_def Let_def)
  have "scalar_value ?pt ?resp = - 2" by code_simp
  then show ?thesis using collected_value_correct [OF v _ _ e ok, of "replicate 7 0" 0] by (auto simp: adu_wf_def)
qed

end
