(* ===== verification/Modbus_Gateway.thy ===== *)
theory Modbus_Gateway
  imports Modbus_TCP_Operations Modbus_Collector Configuration_Meaning
begin

text \<open>
  Model of \<open>app/Modbus/src/modbus_gateway_app.c\<close> and of the three tasks it starts running together: the TCP server and
  the collector submit requests on their own queues, the scheduler answers, and all three share the ADU pool.
  \<open>gateway_step\<close> interleaves their operations in any order; \<open>gateway_inv\<close> holds from the initialisation on.

  The scheduler's iteration is one step at the moment it takes its request. While the transaction really runs, the
  other tasks neither touch the ADU of the request nor the end of the response queue, so their steps commute with it;
  what they may see early is a response in an empty queue, and before it is there they only look and do nothing.
\<close>

section \<open>The copy of an accepted response\<close>

lemma accepted_min_length:
  assumes "response_check req resp = res" "good_result res"
  shows "5 \<le> unat (adu_length resp)"
  using response_check_accepts [OF assms(1)] assms(2)
  by (auto simp: good_result_def response_length_check_def Let_def split: if_splits)

lemma padding_cong:
  assumes "1 \<le> unat q" "\<And>k. k < (unat q + 7) div 8 \<Longrightarrow> d ! k = d' ! k"
  shows "padding_bits_are_zero d q = padding_bits_are_zero d' q"
proof -
  have "unat (q - 1) = unat q - 1" using assms(1) by (simp add: unat_sub word_le_nat_alt)
  then have "unat ((q - 1) div 8) = (unat q - 1) div 8" by (simp add: unat_div)
  moreover have "(unat q - 1) div 8 < (unat q + 7) div 8" using assms(1) by linarith
  ultimately show ?thesis using assms(2) by (simp add: padding_bits_are_zero_def Let_def)
qed

text \<open>A response is judged by the bytes it carries: a copy of exactly these is accepted too.\<close>

lemma accepted_copy:
  assumes v: "modbus_rtu_validate_request (Some req) = MODBUS_RTU_OK"
    and r: "response_check req t = res" "good_result res"
    and a: "adu_length a = adu_length t" "take (unat (adu_length t)) (adu_data a) = take (unat (adu_length t)) (adu_data t)"
      "unat (adu_length t) \<le> length (adu_data t)" "unat (adu_length t) \<le> length (adu_data a)"
  shows "response_check req a = res"
proof -
  let ?n = "unat (adu_length t)" and ?q = "read_u16_be (adu_data req) 4" and ?f = "adu_data req ! 1"
  have n: "5 \<le> ?n" using accepted_min_length [OF r] .
  have nth: "adu_data a ! k = adu_data t ! k" if "k < ?n" for k
    using arg_cong [OF a(2), of "\<lambda>xs. xs ! k"] that by simp
  have d: "adu_data a ! 0 = adu_data t ! 0" "adu_data a ! 1 = adu_data t ! 1" "adu_data a ! 2 = adu_data t ! 2"
    using n nth by simp_all
  have body: "adu_body a = adu_body t"
    using arg_cong [OF a(2), of "take (?n - 2)"] by (simp add: adu_body_def a(1))
  have crc: "has_valid_crc a = has_valid_crc t" using n by (simp add: has_valid_crc_iff a(1) body nth)
  have l: "response_length_check a = response_length_check t"
    by (simp only: response_length_check_def Let_def a(1) d)
  have acc: "response_length_check t = None" "adu_data t ! 1 = ?f \<or> adu_data t ! 1 = ?f OR 0x80"
    "adu_data t ! 1 = ?f OR 0x80 \<or> response_data_check req t = MODBUS_RTU_TRANSACTION_OK"
    using response_check_accepts [OF r(1)] r(2) by (auto simp: good_result_def split: if_splits)
  have data: "response_data_check req a = response_data_check req t" if nx: "adu_data t ! 1 \<noteq> ?f OR 0x80"
  proof -
    have f: "adu_data t ! 1 = ?f" and ok: "response_data_check req t = MODBUS_RTU_TRANSACTION_OK" using acc nx by auto
    consider (bits) "?f = MODBUS_FC_READ_COILS \<or> ?f = MODBUS_FC_READ_DISCRETE_INPUTS"
      | (registers) "?f = MODBUS_FC_READ_HOLDING_REGISTERS \<or> ?f = MODBUS_FC_READ_INPUT_REGISTERS"
      | (writes) "?f = MODBUS_FC_WRITE_SINGLE_COIL \<or> ?f = MODBUS_FC_WRITE_SINGLE_REGISTER \<or>
              ?f = MODBUS_FC_WRITE_MULTIPLE_COILS \<or> ?f = MODBUS_FC_WRITE_MULTIPLE_REGISTERS"
      | (other) "\<not> (?f = MODBUS_FC_READ_COILS \<or> ?f = MODBUS_FC_READ_DISCRETE_INPUTS)"
          "\<not> (?f = MODBUS_FC_READ_HOLDING_REGISTERS \<or> ?f = MODBUS_FC_READ_INPUT_REGISTERS)"
          "\<not> (?f = MODBUS_FC_WRITE_SINGLE_COIL \<or> ?f = MODBUS_FC_WRITE_SINGLE_REGISTER \<or>
              ?f = MODBUS_FC_WRITE_MULTIPLE_COILS \<or> ?f = MODBUS_FC_WRITE_MULTIPLE_REGISTERS)"
      by auto
    then show ?thesis
    proof cases
      case bits
      have q: "1 \<le> unat ?q" "unat ?q \<le> 2000" using v bits
        by (auto simp: validate_request_OK validate_address_quantity_request_def validate_address_quantity_OK_iff [simplified])
      have "adu_data t ! 2 = ucast (bit_byte_count ?q)"
        using ok bits by (auto simp: response_data_check_def Let_def split: if_splits)
      moreover have "(unat ?q + 7) div 8 \<le> 250" using q by linarith
      ultimately have "unat (adu_data t ! 2) = (unat ?q + 7) div 8"
        by (simp add: unsigned_ucast_eq unat_bit_byte_count take_bit_nat_eq_self)
      moreover have "?n = 5 + unat (adu_data t ! 2)"
        using acc(1) f bits by (auto simp: response_length_check_def Let_def split: if_splits)
      ultimately have "drop 3 (adu_data a) ! k = drop 3 (adu_data t) ! k" if "k < (unat ?q + 7) div 8" for k
        using that nth [of "3 + k"] a(3,4) by simp
      from padding_cong [OF q(1) this]
      show ?thesis using bits d by (simp add: response_data_check_def Let_def)
    next
      case registers
      then show ?thesis using d by (auto simp: response_data_check_def Let_def)
    next
      case writes
      then have "?n = 8" using acc(1) f by (auto simp: response_length_check_def Let_def split: if_splits)
      then show ?thesis using writes nth by (auto simp: response_data_check_def Let_def read_u16_be_join)
    next
      case other
      then show ?thesis by (simp add: response_data_check_def Let_def)
    qed
  qed
  show ?thesis using r(1) acc(1) data unfolding response_check_def Let_def a(1) l crc d
    by (cases "adu_data t ! 1 = ?f OR 0x80") (simp_all split: option.splits if_splits)
qed

section \<open>What the TCP task does to the kernel\<close>

text \<open>It sends to its request queue, takes from its response queue and reports to the watchdog; nothing else.\<close>

inductive tcp_kernel :: "QueueHandle_t \<Rightarrow> QueueHandle_t \<Rightarrow> rtos \<Rightarrow> rtos \<Rightarrow> bool" for tq tr where
  kernel_same: "tcp_kernel tq tr k k"
| kernel_send: "tcp_kernel tq tr k (snd (xQueueSend_request tq r k))"
| kernel_receive: "tcp_kernel tq tr k (k\<lparr>response_queues := (response_queues k)(tr := tl (response_queues k tr))\<rparr>)"
| kernel_report: "tcp_kernel tq tr k (watchdog_report e k)"
section \<open>The operations of the TCP task\<close>

text \<open>
  A turn of the task is a sequence of these operations. Each touches the shared queues at most once and only the
  ADUs the server holds, so the tasks interleave at this grain.
\<close>

datatype tcp_op = Op_Select | Op_Open | Op_Fail | Op_Accept | Op_Update nat | Op_Close nat | Op_Close_Bad nat | Op_Clean

definition open_socket :: "tcp_io \<Rightarrow> tcp_world \<Rightarrow> tcp_world" where
  "open_socket io w = w\<lparr>server := (server w)\<lparr>server_socket := listener_socket io\<rparr>,
     open_sockets := (if listener_socket io < 0 then open_sockets w else listener_socket io # open_sockets w)\<rparr>"

definition select_step :: "tcp_io \<Rightarrow> tcp_world \<Rightarrow> tcp_world" where
  "select_step io w = w\<lparr>kern := watchdog_report WATCHDOG_EVENT_MODBUS_TCP (kern w), server := select_sockets io (server w)\<rparr>"

fun run_tcp_op :: "tcp_io \<Rightarrow> tcp_op \<Rightarrow> tcp_world \<Rightarrow> tcp_world" where
  "run_tcp_op io Op_Select w = select_step io w"
| "run_tcp_op io Op_Open w = open_socket io w"
| "run_tcp_op io Op_Fail w = server_socket_fail w"
| "run_tcp_op io Op_Accept w = server_accept io w"
| "run_tcp_op io (Op_Update i) w = (if i < MODBUS_TCP_SERVER_MAX_CLIENTS then client_update io i w else w)"
| "run_tcp_op io (Op_Close i) w = (if i < MODBUS_TCP_SERVER_MAX_CLIENTS then close_client_if_open i w else w)"
| "run_tcp_op io (Op_Close_Bad i) w = (if i < MODBUS_TCP_SERVER_MAX_CLIENTS then close_client_if_bad io i w else w)"
| "run_tcp_op io Op_Clean w = clean_expired_response w"

lemma fold_ops:
  "n \<le> 4 \<Longrightarrow> fold (client_update io) [0..<n] w = fold (run_tcp_op io) (map Op_Update [0..<n]) w"
  "n \<le> 4 \<Longrightarrow> fold close_client_if_open [0..<n] w = fold (run_tcp_op io) (map Op_Close [0..<n]) w"
  "n \<le> 4 \<Longrightarrow> fold (close_client_if_bad io) [0..<n] w = fold (run_tcp_op io) (map Op_Close_Bad [0..<n]) w"
  by (induction n; simp)+

lemma serve_ops: "\<exists>ops. serve_sockets io w = fold (run_tcp_op io) ops w"
  by (rule exI [of _ "(if server_socket (server w) \<in> set (read_sockets (server w)) then [Op_Accept] else []) @
      map Op_Update [0..<4] @ [Op_Clean]"])
    (simp add: serve_sockets_def clients_update_def fold_ops(1) del: upt_Suc upt_rec_numeral)

lemma turn_is_operations: "\<exists>ops. snd (tcp_task io (pl, w)) = fold (run_tcp_op io) ops w"
proof (cases pl)
  case Opening
  have "\<exists>ops. snd (open_listener io w) = fold (run_tcp_op io) ops w"
    by (rule exI [of _ "if listener_socket io < 0 \<or> \<not> listener_ready io then [Op_Open, Op_Fail] else [Op_Open]"])
      (simp add: open_listener_def open_socket_def Let_def)
  then show ?thesis by (simp add: Opening)
next
  case Selecting
  let ?w1 = "select_step io w" and ?bad = "fold (close_client_if_bad io) [0..<4] (select_step io w)"
  obtain s where s: "serve_sockets io ?w1 = fold (run_tcp_op io) s ?w1" using serve_ops by blast
  obtain b where b: "serve_sockets io ?bad = fold (run_tcp_op io) b ?bad" using serve_ops by blast
  have "snd (tcp_iteration io w) = fold (run_tcp_op io)
      (Op_Select # (case select_result io of
         Select_EINTR \<Rightarrow> [] | Select_EBADF \<Rightarrow> if listener_is_bad io then map Op_Close [0..<4] @ [Op_Fail] else map Op_Close_Bad [0..<4] @ b
       | Select_Error \<Rightarrow> [Op_Clean] | Select_Ready \<Rightarrow> s)) w"
    using s b by (simp add: tcp_iteration_def select_step_def [symmetric] fold_ops(2) [where io = io] fold_ops(3) split: select_outcome.splits
        del: upt_Suc upt_rec_numeral)
  then show ?thesis unfolding Selecting tcp_task.simps by blast
qed

lemma op_step:
  assumes i: "shape_inv tq tr w"
  shows "run_tcp_op io op w = w \<or> tcp_event tq tr w (run_tcp_op io op w)"
proof (cases op)
  case Op_Select
  have "tcp_event tq tr w (select_step io w)"
    by (rule server_step [OF i, where e = WATCHDOG_EVENT_MODBUS_TCP]) (simp_all add: frame_ok_def select_sockets_def select_step_def)
  then show ?thesis by (simp add: Op_Select)
next
  case Op_Open
  have "tcp_event tq tr w (open_socket io w)"
    by (rule server_step [OF i]) (simp_all add: frame_ok_def open_socket_def)
  then show ?thesis by (simp add: Op_Open)
qed (use fail_step [OF i] accept_step [OF i] update_step [OF i] close_if_step [OF _ i] clean_step [OF i] in simp_all)

lemma close_kern [simp]: "kern (client_close i w) = kern w"
  by (simp add: client_close_def close_socket_def Let_def split: option.splits)

lemma complete_kern [simp]: "kern (client_request_complete io i w) = kern w"
  by (simp add: client_request_complete_def server_get_available_token_def Let_def split: prod.splits option.splits)

lemma update_kernel:
  assumes "request_queue (server w) = Some tq" "response_queue (server w) = Some tr"
  shows "tcp_kernel tq tr (kern w) (kern (client_update io i w))"
proof -
  let ?c = "clients (server w) ! i"
  have "kern (client_recv_tcp_request io i w) = kern w"
    by (simp add: client_recv_tcp_request_def Let_def split: recv_outcome.splits)
  moreover have "tcp_kernel tq tr (kern w) (kern (client_submit_rtu_request i w))"
  proof -
    let ?q = "\<lparr>rq_token = rtu_token ?c, rq_response_timeout_ms = rtu_response_timeout_ms ?c, rq_rtu_adu = the (rtu_adu ?c)\<rparr>"
    have "kern (client_submit_rtu_request i w) = kern w \<or> kern (client_submit_rtu_request i w) = snd (xQueueSend_request tq ?q (kern w))"
      using assms(1) by (simp add: client_submit_rtu_request_def Let_def split: prod.split)
    then show ?thesis by (auto intro: tcp_kernel.intros)
  qed
  moreover have "kern (client_recv_rtu_response io i w) = kern w \<or>
      kern (client_recv_rtu_response io i w) = (kern w)\<lparr>response_queues := (response_queues (kern w))(tr := tl (response_queues (kern w) tr))\<rparr>"
    using assms(2) by (simp add: client_recv_rtu_response_def pop_response_def Let_def split: list.split)
  moreover have "kern (client_send_tcp_response io i w) = kern w"
    by (simp add: client_send_tcp_response_def Let_def split: send_outcome.splits)
  ultimately show ?thesis
    by (cases "client_state ?c") (auto simp: client_update_def Let_def intro: tcp_kernel.intros)
qed

lemma op_kernel:
  assumes "request_queue (server w) = Some tq" "response_queue (server w) = Some tr"
  shows "tcp_kernel tq tr (kern w) (kern (run_tcp_op io op w))"
proof (cases op)
  case (Op_Update i)
  then show ?thesis using update_kernel [OF assms] by (simp add: kernel_same)
next
  case Op_Clean
  have "kern (clean_expired_response w) = kern w \<or>
      kern (clean_expired_response w) = (kern w)\<lparr>response_queues := (response_queues (kern w))(tr := tl (response_queues (kern w) tr))\<rparr>"
    using assms(2) by (simp add: clean_expired_response_def pop_response_def Let_def split: list.split)
  then show ?thesis unfolding Op_Clean run_tcp_op.simps by (auto intro: tcp_kernel.intros)
qed (auto simp: open_socket_def select_step_def server_socket_fail_def server_accept_def close_socket_def close_client_if_open_def
      close_client_if_bad_def Let_def intro: tcp_kernel.intros)
section \<open>Steps of the other tasks on the server's state\<close>

lemma tcp_inv_frame:
  assumes i: "tcp_inv tq tr w" and s: "server w' = server w" "issued w' = issued w"
    and q: "requests_of tq w' = requests_of tq w" "responses_of tr w' = responses_of tr w"
    and p: "pool_inv (tcp_pool w')" "set (owned tq tr w) \<subseteq> {0..<6} - free_adus (tcp_pool w')"
    and k: "\<And>a. a \<in> set (owned tq tr w) \<Longrightarrow> adu_of w' a = adu_of w a"
  shows "tcp_inv tq tr w'"
proof -
  have o: "owned tq tr w' = owned tq tr w" by (simp add: owned_def s q)
  have sh: "shape_inv tq tr w'"
    using i kept_list_all [where tq = tq and tr = tr and w = w and w' = w', OF k] p o
    by (simp add: tcp_inv_def shape_inv_iff s q)
  have "waiting_ok tq tr w' c" if "waiting_ok tq tr w c" for c
    by (rule waiting_ok_mono [OF that]) (use k in \<open>simp_all add: q o\<close>)
  then have "token_inv tq tr w \<Longrightarrow> token_inv tq tr w'"
    by (auto simp: token_inv_iff queue_tokens_def s q list_all_iff)
  then show ?thesis using i sh by (simp add: tcp_inv_def s)
qed

lemma adu_write_other: "b \<noteq> a \<Longrightarrow> pool_adus (adu_write a x p) ! b = pool_adus p ! b"
  by (simp add: adu_write_def)

lemma adu_write_same: "pool_inv p \<Longrightarrow> a < 6 \<Longrightarrow> pool_adus (adu_write a x p) ! a = x"
  by (simp add: adu_write_def pool_inv_def pool_wf_def)

text \<open>The scheduler serves the request at the head of the server's queue.\<close>

lemma tcp_inv_served:
  assumes i: "tcp_inv tq tr w" and s: "server w' = server w" "issued w' = issued w"
    and q: "requests_of tq w = q # requests_of tq w'" and r: "responses_of tr w' = responses_of tr w @ [r]"
    and t: "rs_token r = rq_token q" "rs_rtu_adu r = rq_rtu_adu q"
    and p: "tcp_pool w' = adu_write (rq_rtu_adu q) adu (tcp_pool w)" "adu_wf adu"
    and g: "good_result (rs_result r) \<Longrightarrow> response_check (adu_of w (rq_rtu_adu q)) adu = rs_result r \<and> unat (adu_length adu) \<le> 255"
  shows "tcp_inv tq tr w'"
proof -
  let ?a = "rq_rtu_adu q"
  have sh: "shape_inv tq tr w" using i by (simp add: tcp_inv_def)
  have a: "?a < 6" "?a \<in> {0..<6} - free_adus (tcp_pool w)" "pool_inv (tcp_pool w)"
    using sh q by (auto simp: shape_inv_iff owned_def)
  have m: "mset (owned tq tr w') = mset (owned tq tr w)" by (simp add: owned_def s q r t)
  have o: "distinct (owned tq tr w')" "set (owned tq tr w') = set (owned tq tr w)"
    using sh mset_eq_imp_distinct_iff [OF m] mset_eq_setD [OF m] by (simp_all add: shape_inv_iff)
  have st: "pool_inv (tcp_pool w')" "free_adus (tcp_pool w') = free_adus (tcp_pool w)"
    using pool.store_free [OF a(3,2) p(2)] by (simp_all add: p(1))
  have new: "adu_of w' ?a = adu" by (simp add: adu_of_def p(1) adu_write_same [OF a(3,1)])
  define rest where "rest = client_adus (clients (server w)) @ map rq_rtu_adu (requests_of tq w') @ map rs_rtu_adu (responses_of tr w)"
  have na: "?a \<notin> set rest" using sh q by (auto simp: shape_inv_iff owned_def rest_def)
  have k: "adu_of w' b = adu_of w b" if "b \<noteq> ?a" for b using that by (simp add: adu_of_def p(1) adu_write_other)
  have kq: "adu_of w' (rq_rtu_adu x) = adu_of w (rq_rtu_adu x)" if "x \<in> set (requests_of tq w')" for x
    using imageI [OF that, of rq_rtu_adu] na by (intro k) (auto simp: rest_def)
  have kr: "adu_of w' (rs_rtu_adu x) = adu_of w (rs_rtu_adu x)" if "x \<in> set (responses_of tr w)" for x
    using imageI [OF that, of rs_rtu_adu] na by (intro k) (auto simp: rest_def)
  have kc: "adu_of w' b = adu_of w b" if "c \<in> set (clients (server w))" "rtu_adu c = Some b" for c b
    using that na by (intro k) (auto simp: rest_def client_adus_def)
  have re: "response_entry_ok w' r"
    using g accepted_min_length [of "adu_of w ?a" adu] by (auto simp: response_entry_ok_def t(2) new)
  have "submit_ok w' c" if c: "c \<in> set (clients (server w))" "submit_ok w c" for c
  proof (cases "live c submitting")
    case True
    then obtain b where "rtu_adu c = Some b" using sh c(1) by (auto simp: shape_inv_iff list_all_iff client_ok_def)
    then show ?thesis using c kc by (simp add: submit_ok_def)
  qed (simp add: submit_ok_def)
  then have sh': "shape_inv tq tr w'"
    using sh o st re kq kr unfolding shape_inv_iff s r
    by (auto simp: list_all_iff request_entry_ok_def response_entry_ok_def q)
  have wt: "waiting_ok tq tr w' c" if c: "waiting_ok tq tr w c" for c
  proof -
    have "response_of_client w' c r" if "live c waiting" "rs_token r = rtu_token c"
    proof -
      have "request_of_client w c q" "request_entry_ok w q" using c that q t sh by (auto simp: waiting_ok_def shape_inv_iff)
      then show ?thesis using g by (auto simp: response_of_client_def request_of_client_def request_entry_ok_def t(2) new)
    qed
    then show ?thesis using c kq kr
      by (auto simp: waiting_ok_def q r request_of_client_def response_of_client_def)
  qed
  have qm: "mset (queue_tokens tq tr w') = mset (queue_tokens tq tr w)" by (simp add: queue_tokens_def q r t)
  have "mset (submit_tokens (clients (server w)) @ queue_tokens tq tr w') = mset (submit_tokens (clients (server w)) @ queue_tokens tq tr w)"
    by (simp add: qm)
  note qs = mset_eq_imp_distinct_iff [OF this] mset_eq_setD [OF this] mset_eq_setD [OF qm]
  have "token_inv tq tr w \<Longrightarrow> token_inv tq tr w'"
    using wt unfolding token_inv_iff s qs by (auto simp: list_all_iff)
  then show ?thesis using i sh' by (simp add: tcp_inv_def s)
qed
section \<open>The gateway\<close>

text \<open>The three tasks with what they share: the kernel's queues and the ADU pool.\<close>

record 'ctx gateway =
  gw_kernel :: rtos
  gw_pool :: adu_pool
  gw_tcp :: tcp_world
  gw_place :: collector_place
  gw_collector :: collector_world
  gw_scheduler :: "'ctx sched_system"

text \<open>What each task sees, and its step written back.\<close>

definition tcp_view :: "'ctx gateway \<Rightarrow> tcp_world" where
  "tcp_view g = (gw_tcp g)\<lparr>kern := gw_kernel g, tcp_pool := gw_pool g\<rparr>"

definition collector_view :: "'ctx gateway \<Rightarrow> collector_world" where
  "collector_view g = (gw_collector g)\<lparr>collector_kern := gw_kernel g, collector_pool := gw_pool g\<rparr>"

definition scheduler_view :: "'ctx gateway \<Rightarrow> 'ctx sched_system" where
  "scheduler_view g = (gw_scheduler g)\<lparr>kernel := gw_kernel g, adus := gw_pool g\<rparr>"

definition put_tcp :: "tcp_world \<Rightarrow> 'ctx gateway \<Rightarrow> 'ctx gateway" where
  "put_tcp w g = g\<lparr>gw_tcp := w, gw_kernel := kern w, gw_pool := tcp_pool w\<rparr>"

definition put_collector :: "collector_place \<times> collector_world \<Rightarrow> 'ctx gateway \<Rightarrow> 'ctx gateway" where
  "put_collector s g = g\<lparr>gw_place := fst s, gw_collector := snd s, gw_kernel := collector_kern (snd s), gw_pool := collector_pool (snd s)\<rparr>"

definition put_scheduler :: "'ctx sched_system \<Rightarrow> 'ctx gateway \<Rightarrow> 'ctx gateway" where
  "put_scheduler s g = g\<lparr>gw_scheduler := s, gw_kernel := kernel s, gw_pool := adus s\<rparr>"

text \<open>
  The steps of the gateway. The RS485 port may return anything into the 256-byte buffer it is given. The collector's
  task exists only when its initialisation reported that it runs.
\<close>

inductive gateway_step :: "'ctx gateway \<Rightarrow> 'ctx gateway \<Rightarrow> bool" where
  tcp_operates: "gateway_step g (put_tcp (run_tcp_op io op (tcp_view g)) g)"
| scheduler_iterates: "(\<And>ctx req n buf t r buf' m. transceive ctx req n buf t = (r, buf', m) \<Longrightarrow> length buf = 256 \<Longrightarrow> length buf' = 256) \<Longrightarrow>
    task_handle (sched (gw_scheduler g)) = Some () \<Longrightarrow> adu_wf tmp \<Longrightarrow> transaction_scheduler_iteration transceive tmp request0 (scheduler_view g) = (delay, s) \<Longrightarrow>
    gateway_step g (put_scheduler s g)"
| collector_turns: "collector_state (collector (gw_collector g)) = MODBUS_COLLECTOR_STATE_RUNNING \<Longrightarrow>
    length (payload_cell io) = MODBUS_COLLECTOR_PAYLOAD_CAPACITY \<Longrightarrow>
    gateway_step g (put_collector (collector_task io (gw_place g, collector_view g)) g)"

section \<open>The collector's side of the invariant\<close>

definition point_request :: "modbus_collector_t \<Rightarrow> u8 \<Rightarrow> modbus_rtu_adu_t \<Rightarrow> bool" where
  "point_request c i adu \<longleftrightarrow>
     is_read_request (slave_address (point_at c i)) (source_function (point_at c i)) (point_address (point_at c i)) 1 adu"

definition collector_ok :: "bound_queues \<Rightarrow> modbus_collector_t \<Rightarrow> bool" where
  "collector_ok b c \<longleftrightarrow>
     (collector_state c = MODBUS_COLLECTOR_STATE_RUNNING \<longrightarrow>
        collector_request_queue c = Some (lq b) \<and> collector_response_queue c = Some (lr b) \<and>
        (\<forall>i. unat i < unat (point_count (collection_of c)) \<longrightarrow>
           collection_point_is_valid (point_at c i) \<and> publish_context_indices c ! unat i = i))"

text \<open>At most one transaction of the collector is under way, and it is the one the task waits for.\<close>

fun place_ok :: "bound_queues \<Rightarrow> collector_place \<Rightarrow> modbus_collector_t \<Rightarrow> rtos \<Rightarrow> adu_pool \<Rightarrow> bool" where
  "place_ok b Scheduling c k p \<longleftrightarrow> request_queues k (lq b) = [] \<and> response_queues k (lr b) = []"
| "place_ok b (Submitting i a) c k p \<longleftrightarrow> request_queues k (lq b) = [] \<and> response_queues k (lr b) = [] \<and>
     unat i < unat (point_count (collection_of c))"
| "place_ok b (Awaiting i t) c k p \<longleftrightarrow> unat i < unat (point_count (collection_of c)) \<and>
     ((\<exists>q. request_queues k (lq b) = [q] \<and> response_queues k (lr b) = [] \<and> rq_token q = t \<and>
         point_request c i (pool_adus p ! rq_rtu_adu q)) \<or>
      (\<exists>r. request_queues k (lq b) = [] \<and> response_queues k (lr b) = [r] \<and> rs_token r = t \<and>
         (rs_result r = MODBUS_RTU_TRANSACTION_OK \<longrightarrow>
            (\<exists>req. point_request c i req \<and> response_check req (pool_adus p ! rs_rtu_adu r) = MODBUS_RTU_TRANSACTION_OK))))"

fun collector_adus :: "bound_queues \<Rightarrow> collector_place \<Rightarrow> rtos \<Rightarrow> nat list" where
  "collector_adus b (Submitting i a) k = [a]"
| "collector_adus b Scheduling k = []"
| "collector_adus b (Awaiting i t) k = map rq_rtu_adu (request_queues k (lq b)) @ map rs_rtu_adu (response_queues k (lr b))"

definition publication_ok :: "modbus_collector_t \<Rightarrow> publication \<Rightarrow> bool" where
  "publication_ok c m \<longleftrightarrow>
     (let pt = point_at c (pub_context m) in
      unat (pub_context m) < unat (point_count (collection_of c)) \<and> pub_qos m = point_qos pt \<and> pub_retain m = 0 \<and>
      pub_topic m = take (unat (text_length (point_topic pt))) (text_bytes (point_topic pt)) \<and>
      (\<exists>req resp. point_request c (pub_context m) req \<and> response_check req resp = MODBUS_RTU_TRANSACTION_OK \<and>
         signed_value (pub_payload m) = scalar_value pt resp))"

definition trace_ok :: "collector_world \<Rightarrow> bool" where
  "trace_ok w \<longleftrightarrow> (\<forall>m \<in> set (published w). publication_ok (collector w) m) \<and>
     snd ` set (logged w) \<subseteq> {MODBUS_COLLECTOR_FAILURE_ADU_UNAVAILABLE, MODBUS_COLLECTOR_FAILURE_TRANSACTION,
       MODBUS_COLLECTOR_FAILURE_PUBLISH}"

definition gateway_inv :: "bound_queues \<Rightarrow> 'ctx gateway \<Rightarrow> bool" where
  "gateway_inv b g \<longleftrightarrow> sched_inv b (scheduler_view g) \<and> tcp_inv (hq b) (hr b) (tcp_view g) \<and>
     held (hq b) (hr b) (tcp_view g) = set (collector_adus b (gw_place g) (gw_kernel g)) \<and>
     collector_ok b (collector (gw_collector g)) \<and>
     place_ok b (gw_place g) (collector (gw_collector g)) (gw_kernel g) (gw_pool g) \<and> trace_ok (gw_collector g) \<and>
     1 \<le> queue_capacity (gw_kernel g) (lq b) \<and>
     (gw_place g \<noteq> Scheduling \<longrightarrow> collector_state (collector (gw_collector g)) = MODBUS_COLLECTOR_STATE_RUNNING)"

section \<open>Operations of the server keep the invariant\<close>

lemma tcp_kernel_queues:
  assumes "tcp_kernel (hq b) (hr b) k k'" "hq b \<noteq> lq b" "hr b \<noteq> lr b"
  shows "request_queues k' (lq b) = request_queues k (lq b)" "response_queues k' (lr b) = response_queues k (lr b)"
    "queue_capacity k' = queue_capacity k"
  using assms by (auto elim!: tcp_kernel.cases simp: xQueueSend_request_def watchdog_report_def)

lemma tcp_kernel_sched:
  assumes "tcp_kernel (hq b) (hr b) (kernel s) k'" "sched_inv b s"
  shows "sched_inv b (s\<lparr>kernel := k'\<rparr>)"
  using assms by cases (auto simp: sched_inv_def xQueueSend_request_def watchdog_report_def)

lemma place_ok_cong:
  assumes "request_queues k' (lq b) = request_queues k (lq b)" "response_queues k' (lr b) = response_queues k (lr b)"
    "\<And>a. a \<in> set (collector_adus b pl k) \<Longrightarrow> pool_adus p' ! a = pool_adus p ! a"
  shows "place_ok b pl c k p \<Longrightarrow> place_ok b pl c k' p'" "collector_adus b pl k' = collector_adus b pl k"
proof -
  show "collector_adus b pl k' = collector_adus b pl k" using assms(1,2) by (cases pl) simp_all
  show "place_ok b pl c k p \<Longrightarrow> place_ok b pl c k' p'"
    using assms by (cases pl) auto
qed

lemma tcp_step_inv:
  assumes i: "gateway_inv b g"
  shows "gateway_inv b (put_tcp (run_tcp_op io op (tcp_view g)) g)"
proof -
  let ?w = "tcp_view g" and ?g' = "put_tcp (run_tcp_op io op (tcp_view g)) g"
  let ?w' = "run_tcp_op io op ?w"
  have ti: "tcp_inv (hq b) (hr b) ?w" and si: "sched_inv b (scheduler_view g)" using i by (simp_all add: gateway_inv_def)
  have sh: "shape_inv (hq b) (hr b) ?w" using ti by (simp add: tcp_inv_def)
  have ne: "hq b \<noteq> lq b" "hr b \<noteq> lr b" using si by (simp_all add: sched_inv_def)
  have steps: "tcp_steps (hq b) (hr b) ?w ?w'" using op_step [OF sh, of io op] by auto
  have v: "tcp_view ?g' = ?w'" by (simp add: tcp_view_def put_tcp_def)
  have k: "tcp_kernel (hq b) (hr b) (gw_kernel g) (kern ?w')"
    using op_kernel [of ?w "hq b" "hr b" io op] sh by (simp add: shape_inv_iff) (simp add: tcp_view_def)
  note q = tcp_kernel_queues [OF k ne]
  have hd: "held (hq b) (hr b) ?w' = held (hq b) (hr b) ?w" "\<And>a. a \<in> held (hq b) (hr b) ?w \<Longrightarrow> adu_of ?w' a = adu_of ?w a"
    using steps_held [OF steps sh] by auto
  have he: "held (hq b) (hr b) ?w = set (collector_adus b (gw_place g) (gw_kernel g))" using i by (simp add: gateway_inv_def)
  have ka: "pool_adus (tcp_pool ?w') ! a = pool_adus (gw_pool g) ! a" if "a \<in> set (collector_adus b (gw_place g) (gw_kernel g))" for a
    using hd(2) [of a] that by (simp add: he adu_of_def) (simp add: tcp_view_def)
  note pl = place_ok_cong [where pl = "gw_place g", OF q(1,2) ka]
  have kv: "kernel (scheduler_view g) = gw_kernel g" by (simp add: scheduler_view_def)
  have "sched_inv b ((scheduler_view g)\<lparr>kernel := kern ?w'\<rparr>)" by (rule tcp_kernel_sched [OF _ si]) (simp add: kv k)
  then have "sched_inv b (scheduler_view ?g')" by (simp add: scheduler_view_def put_tcp_def sched_inv_def)
  moreover have "tcp_inv (hq b) (hr b) (tcp_view ?g')" unfolding v by (rule steps_inv [OF steps ti])
  moreover have "held (hq b) (hr b) (tcp_view ?g') = set (collector_adus b (gw_place ?g') (gw_kernel ?g'))"
    unfolding v hd(1) he by (simp add: put_tcp_def pl(2))
  moreover have "place_ok b (gw_place ?g') (collector (gw_collector ?g')) (gw_kernel ?g') (gw_pool ?g')"
    using i by (simp add: put_tcp_def gateway_inv_def pl(1))
  ultimately show ?thesis using i q(3) by (simp add: gateway_inv_def) (simp add: put_tcp_def)
qed
section \<open>Iterations of the scheduler keep the invariant\<close>

lemma receive_capacity:
  "receive_next_transaction s k request high low = (rq, s', k', request', high', low') \<Longrightarrow> queue_capacity k' = queue_capacity k"
  by (auto simp: receive_next_transaction_def select_available_request_queues_def xQueueReceive_request_def Let_def
      split: prod.splits if_splits option.splits list.splits)

lemma iteration_capacity:
  assumes "transaction_scheduler_iteration transceive tmp request0 sys = (delay, s)"
  shows "queue_capacity (kernel s) = queue_capacity (kernel sys)"
proof -
  obtain rq s1 k request high low where r: "receive_next_transaction (sched sys) (watchdog_report WATCHDOG_EVENT_RTU_SCHEDULER (kernel sys))
      request0 (selected_high_request_count sys) (selected_low_request_count sys) = (rq, s1, k, request, high, low)"
    by (metis prod_cases6)
  have "queue_capacity k = queue_capacity (kernel sys)" using receive_capacity [OF r] by (simp add: watchdog_report_def)
  then show ?thesis using assms
    by (auto simp: transaction_scheduler_iteration_def r Let_def xQueueSend_response_def split: prod.splits option.splits)
qed

lemma spec_serve_cases:
  "spec_serve a = Some (prio, r, a') \<Longrightarrow>
     prio = MODBUS_RTU_TRANSACTION_SCHEDULER_PRIORITY_HIGH \<and> spec_high a = r # spec_high a' \<and> spec_low a' = spec_low a \<or>
     prio = MODBUS_RTU_TRANSACTION_SCHEDULER_PRIORITY_LOW \<and> spec_low a = r # spec_low a' \<and> spec_high a' = spec_high a"
  by (auto simp: spec_serve_def split: list.splits if_splits)

text \<open>What the iteration leaves in the ADU it served.\<close>

definition served_adu :: "modbus_rtu_transaction_result_t \<Rightarrow> modbus_rtu_adu_t ptr \<Rightarrow> modbus_rtu_adu_t \<Rightarrow> modbus_rtu_adu_t" where
  "served_adu res t adu =
     (if res = MODBUS_RTU_TRANSACTION_OK \<or> res = MODBUS_RTU_TRANSACTION_EXCEPTION_RESPONSE
      then \<lparr>adu_length = adu_length (the t),
            adu_data = overwrite 0 (take (unat (adu_length (the t))) (adu_data (the t))) (adu_data adu)\<rparr>
      else adu)"

lemma served_adu_accepted:
  assumes port: "\<And>ctx req n buf t r buf' m. transceive ctx req n buf t = (r, buf', m) \<Longrightarrow> length buf = 256 \<Longrightarrow> length buf' = 256"
    and w: "adu_wf tmp" "adu_wf adu" and v: "modbus_rtu_validate_request (Some adu) = MODBUS_RTU_OK"
    and t: "modbus_rtu_transact transceive ch (Some adu) timeout (Some tmp) = (res, t)"
  shows "adu_wf (served_adu res t adu)"
    "good_result res \<Longrightarrow> response_check adu (served_adu res t adu) = res \<and> unat (adu_length (served_adu res t adu)) \<le> 255"
proof -
  have g: "response_check adu (the t) = res \<and> unat (adu_length (the t)) \<le> 255 \<and> length (adu_data (the t)) = 256" if gr: "good_result res"
  proof -
    obtain c where c: "ch = Some c" using t gr by (cases ch) (auto simp: modbus_rtu_transact_def good_result_def)
    obtain r buf' m where p: "transceive (ch_context c) (adu_data adu) (adu_length adu) (adu_data tmp) timeout = (r, buf', m)"
      by (metis prod_cases3)
    have "length buf' = 256" using port [OF p] w(1) by (simp add: adu_wf_def)
    then obtain t' where t': "t = Some t'" "length (adu_data t') = 256" using t gr c p
      by (auto simp: modbus_rtu_transact_def good_result_def Let_def split: if_splits modbus_rtu_rs485_port_result_t.splits)
    show ?thesis using transact_result [OF t [unfolded c t'(1)]] transact_good_length [OF t v] gr t' by (simp add: good_result_def)
  qed
  show "adu_wf (served_adu res t adu)" using g w(2) by (auto simp: served_adu_def adu_wf_def good_result_def)
  assume r: "good_result res"
  note gr = g [OF r]
  let ?n = "unat (adu_length (the t))"
  have l: "length (take ?n (adu_data (the t))) = ?n" using gr by simp
  have d: "served_adu res t adu = \<lparr>adu_length = adu_length (the t), adu_data = overwrite 0 (take ?n (adu_data (the t))) (adu_data adu)\<rparr>"
    using r by (simp add: served_adu_def good_result_def)
  have "take ?n (overwrite 0 (take ?n (adu_data (the t))) (adu_data adu)) = take ?n (adu_data (the t))"
    using take_overwrite_0 [of "take ?n (adu_data (the t))" "adu_data adu"] unfolding l .
  then have "response_check adu (served_adu res t adu) = res"
    unfolding d by (intro accepted_copy [OF v conjunct1 [OF gr] r]) (use gr w(2) in \<open>simp_all add: adu_wf_def\<close>)
  then show "response_check adu (served_adu res t adu) = res \<and> unat (adu_length (served_adu res t adu)) \<le> 255"
    using gr by (simp add: d)
qed

lemma point_request_valid:
  assumes "collection_point_is_valid (point_at c i)" "point_request c i adu"
  shows "modbus_rtu_validate_request (Some adu) = MODBUS_RTU_OK" "adu_wf adu"
proof -
  have wf: "adu_wf \<lparr>adu_length = 0, adu_data = replicate 256 0\<rparr>" by (simp add: adu_wf_def)
  obtain req where "modbus_rtu_validate_request (Some req) = MODBUS_RTU_OK"
    "is_read_request (slave_address (point_at c i)) (source_function (point_at c i)) (point_address (point_at c i)) 1 req"
    using encode_point [OF assms(1) wf] by blast
  moreover have "slave_address_is_routable (slave_address (point_at c i))" by (rule valid_point(1) [OF assms(1)])
  moreover have "source_function (point_at c i) \<in> {MODBUS_FC_READ_COILS, MODBUS_FC_READ_DISCRETE_INPUTS,
      MODBUS_FC_READ_HOLDING_REGISTERS, MODBUS_FC_READ_INPUT_REGISTERS}" by (simp add: source_function_def)
  ultimately show "modbus_rtu_validate_request (Some adu) = MODBUS_RTU_OK" "adu_wf adu"
    using assms(2) read_request_validates [of _ "source_function (point_at c i)"] 
    by (auto simp: point_request_def is_read_request_def read_request_validates)
qed

lemma scheduler_step_inv:
  assumes i: "gateway_inv b g"
    and port: "\<And>ctx req n buf t r buf' m. transceive ctx req n buf t = (r, buf', m) \<Longrightarrow> length buf = 256 \<Longrightarrow> length buf' = 256"
    and tmp: "adu_wf tmp" and it: "transaction_scheduler_iteration transceive tmp request0 (scheduler_view g) = (delay, s)"
  shows "gateway_inv b (put_scheduler s g)"
proof -
  let ?sys = "scheduler_view g" and ?g' = "put_scheduler s g" and ?w = "tcp_view g" and ?k = "gw_kernel g" and ?c = "collector (gw_collector g)"
  let ?w' = "tcp_view ?g'"
  have si: "sched_inv b ?sys" and ti: "tcp_inv (hq b) (hr b) ?w" and he: "held (hq b) (hr b) ?w = set (collector_adus b (gw_place g) ?k)"
    and co: "collector_ok b ?c" and pl: "place_ok b (gw_place g) ?c ?k (gw_pool g)"
    and run: "gw_place g \<noteq> Scheduling \<Longrightarrow> collector_state ?c = MODBUS_COLLECTOR_STATE_RUNNING"
    using i by (simp_all add: gateway_inv_def)
  have sh: "shape_inv (hq b) (hr b) ?w" using ti by (simp add: tcp_inv_def)
  have ne: "hq b \<noteq> lq b" "hr b \<noteq> lr b" using si by (simp_all add: sched_inv_def)
  have kv [simp]: "kernel ?sys = ?k" "adus ?sys = gw_pool g" by (simp_all add: scheduler_view_def)
  have cap: "queue_capacity (kernel s) = queue_capacity ?k" using iteration_capacity [OF it] by simp
  note raw = iteration_step_raw [OF si it, simplified]
  have w': "server ?w' = server ?w" "issued ?w' = issued ?w" "tcp_pool ?w' = adus s" "tcp_pool ?w = gw_pool g"
    "requests_of (hq b) ?w' = request_queues (kernel s) (hq b)" "requests_of (hq b) ?w = request_queues ?k (hq b)"
    "responses_of (hr b) ?w' = response_queues (kernel s) (hr b)" "responses_of (hr b) ?w = response_queues ?k (hr b)"
    by (simp_all add: tcp_view_def put_scheduler_def requests_of_def responses_of_def)
  have g': "scheduler_view ?g' = s" "gw_place ?g' = gw_place g" "gw_collector ?g' = gw_collector g" "gw_kernel ?g' = kernel s"
    "gw_pool ?g' = adus s"
    by (simp_all add: put_scheduler_def scheduler_view_def)
  have si': "sched_inv b s" using raw by simp
  have goal: ?thesis
    if "tcp_inv (hq b) (hr b) ?w'" "held (hq b) (hr b) ?w' = set (collector_adus b (gw_place g) (kernel s))"
      "place_ok b (gw_place g) ?c (kernel s) (adus s)"
    using i that si' cap by (simp add: gateway_inv_def g')
  show ?thesis
  proof (cases "spec_serve (sched_abs b ?sys)")
    case None
    then have q: "request_queues (kernel s) (hq b) = request_queues ?k (hq b)" "request_queues (kernel s) (lq b) = request_queues ?k (lq b)"
      "response_queues (kernel s) = response_queues ?k" "adus s = gw_pool g"
      using raw by (auto simp: sched_abs_def)
    have o: "owned (hq b) (hr b) ?w' = owned (hq b) (hr b) ?w" by (simp add: owned_def w' q)
    have "tcp_inv (hq b) (hr b) ?w'"
      by (rule tcp_inv_frame [OF ti]) (use sh in \<open>simp_all add: w' q adu_of_def shape_inv_iff\<close>)
    then show ?thesis
      using he pl place_ok_cong [of "kernel s" b ?k "gw_place g" "gw_pool g" "gw_pool g"] o
      by (intro goal) (simp_all add: held_def w' q)
  next
    case (Some y)
    then obtain prio r a where y: "spec_serve (sched_abs b ?sys) = Some (prio, r, a)" by (metis prod_cases3)
    let ?a = "rq_rtu_adu r" and ?adu = "pool_adus (gw_pool g) ! rq_rtu_adu r"
    obtain res t where tr: "modbus_rtu_transact transceive (rtu_channel (sched ?sys)) (Some ?adu)
      (rq_response_timeout_ms r) (Some tmp) = (res, t)" by fastforce
    let ?resp = "\<lparr>rs_token = rq_token r, rs_result = res, rs_rtu_adu = rq_rtu_adu r\<rparr>"
    let ?q = "if prio = MODBUS_RTU_TRANSACTION_SCHEDULER_PRIORITY_HIGH then hr b else lr b"
    have st: "sched_abs b s = a" "response_queues (kernel s) = (response_queues ?k)(?q := response_queues ?k ?q @ [?resp])"
      "adus s = adu_write ?a (served_adu res t ?adu) (gw_pool g)"
      using raw by (simp_all add: y tr Let_def served_adu_def)
    have pi: "pool_inv (gw_pool g)" using sh by (simp add: shape_inv_iff w')
    consider (high) "prio = MODBUS_RTU_TRANSACTION_SCHEDULER_PRIORITY_HIGH" "request_queues ?k (hq b) = r # request_queues (kernel s) (hq b)"
        "request_queues (kernel s) (lq b) = request_queues ?k (lq b)"
      | (low) "prio = MODBUS_RTU_TRANSACTION_SCHEDULER_PRIORITY_LOW" "request_queues ?k (lq b) = r # request_queues (kernel s) (lq b)"
        "request_queues (kernel s) (hq b) = request_queues ?k (hq b)"
      using spec_serve_cases [OF y] st(1) by (auto simp: sched_abs_def)
    then show ?thesis
    proof cases
      case high
      have o: "?a \<in> set (owned (hq b) (hr b) ?w)" by (simp add: owned_def w' high(2))
      then have a6: "?a < 6" using sh by (auto simp: shape_inv_iff)
      have v: "modbus_rtu_validate_request (Some ?adu) = MODBUS_RTU_OK" "adu_wf ?adu"
        using sh pi a6 by (auto simp: shape_inv_iff request_entry_ok_def adu_of_def w' high(2) pool_inv_def pool_wf_def)
      note sa = served_adu_accepted [OF port tmp v(2,1) tr]
      have "tcp_inv (hq b) (hr b) ?w'"
        by (rule tcp_inv_served [OF ti, where q = r and r = ?resp and adu = "served_adu res t ?adu"])
          (use sa high st(2,3) in \<open>simp_all add: w' adu_of_def\<close>)
      moreover have fr: "free_adus (adus s) = free_adus (gw_pool g)"
        using pool.store_free [OF pi, of ?a "served_adu res t ?adu"] o sh sa(1) by (auto simp: st(3) shape_inv_iff w')
      moreover have "set (owned (hq b) (hr b) ?w') = set (owned (hq b) (hr b) ?w)"
        using high st(2) by (auto simp: owned_def w')
      moreover have "response_queues (kernel s) (lr b) = response_queues ?k (lr b)" using high(1) st(2) ne(2) by simp
      moreover have "pool_adus (adus s) ! d = pool_adus (gw_pool g) ! d" if "d \<in> set (collector_adus b (gw_place g) ?k)" for d
      proof -
        have "d \<noteq> ?a" using that o he by (auto simp: held_def)
        then show ?thesis by (simp add: st(3) adu_write_other)
      qed
      ultimately show ?thesis
        using he pl place_ok_cong [of "kernel s" b ?k "gw_place g" "adus s" "gw_pool g"] high(3)
        by (intro goal) (simp_all add: held_def w')
    next
      case low
      obtain p tk where pk: "gw_place g = Awaiting p tk" "unat p < unat (point_count (collection_of ?c))"
        "request_queues (kernel s) (lq b) = []" "response_queues ?k (lr b) = []" "rq_token r = tk" "point_request ?c p ?adu"
        using pl low(2) by (cases "gw_place g") auto
      have a: "?a \<in> held (hq b) (hr b) ?w" using he by (simp add: pk(1) low(2))
      have vp: "collection_point_is_valid (point_at ?c p)" using co run pk(1,2) by (simp add: collector_ok_def)
      note v = point_request_valid [OF vp pk(6)]
      note sa = served_adu_accepted [OF port tmp v(2,1) tr]
      have a2: "?a \<in> {0..<6} - free_adus (gw_pool g)" using a by (simp add: held_def w')
      note sf = pool.store_free [OF pi a2 sa(1)]
      have o: "set (owned (hq b) (hr b) ?w') = set (owned (hq b) (hr b) ?w)" using low st(2) ne by (simp add: owned_def w')
      have ti': "tcp_inv (hq b) (hr b) ?w'"
      proof (rule tcp_inv_frame [OF ti w'(1,2)])
        show "adu_of ?w' d = adu_of ?w d" if "d \<in> set (owned (hq b) (hr b) ?w)" for d
        proof -
          have "d \<noteq> ?a" using that a by (auto simp: held_def)
          then show ?thesis by (simp add: adu_of_def w' st(3) adu_write_other)
        qed
      qed (use low st sf sh ne in \<open>simp_all add: w' shape_inv_iff\<close>)
      have "place_ok b (gw_place g) ?c (kernel s) (adus s)"
        using pk sa(2) low(1) st a2 by (auto simp: adu_write_same [OF pi] good_result_def)
      moreover have "held (hq b) (hr b) ?w' = set (collector_adus b (gw_place g) (kernel s))"
        using he sf o low(1) by (simp add: held_def w' st(3) pk(1) low(2)) (simp add: st(2) low(1) pk(3,4))
      ultimately show ?thesis using ti' by (intro goal)
    qed
  qed
qed
section \<open>Steps of the collector keep the invariant\<close>

text \<open>What the collector does to the kernel: it sends to its request queue, takes from its response queue and reports.\<close>

inductive collector_kernel :: "bound_queues \<Rightarrow> rtos \<Rightarrow> rtos \<Rightarrow> bool" for b where
  collector_same: "collector_kernel b k k"
| collector_report: "collector_kernel b k (watchdog_report e k)"
| collector_send: "collector_kernel b k (snd (xQueueSend_request (lq b) q k))"
| collector_receive: "collector_kernel b k (k\<lparr>response_queues := (response_queues k)(lr b := rs)\<rparr>)"

lemma collector_kernel_queues:
  assumes "collector_kernel b k k'" "hq b \<noteq> lq b" "hr b \<noteq> lr b"
  shows "request_queues k' (hq b) = request_queues k (hq b)" "response_queues k' (hr b) = response_queues k (hr b)"
    "queue_capacity k' = queue_capacity k"
  using assms by (auto elim!: collector_kernel.cases simp: xQueueSend_request_def watchdog_report_def)

lemma collector_kernel_sched:
  assumes "collector_kernel b (kernel s) k'" "sched_inv b s"
  shows "sched_inv b (s\<lparr>kernel := k'\<rparr>)"
  using assms by cases (auto simp: sched_inv_def xQueueSend_request_def watchdog_report_def)

lemma collector_frame:
  assumes i: "gateway_inv b g" and k: "collector_kernel b (gw_kernel g) (collector_kern w)"
    and p: "pool_inv (collector_pool w)" "set (owned (hq b) (hr b) (tcp_view g)) \<subseteq> {0..<6} - free_adus (collector_pool w)"
    and ad: "\<And>a. a \<in> set (owned (hq b) (hr b) (tcp_view g)) \<Longrightarrow> pool_adus (collector_pool w) ! a = pool_adus (gw_pool g) ! a"
    and he: "{0..<6} - free_adus (collector_pool w) - set (owned (hq b) (hr b) (tcp_view g)) = set (collector_adus b pl (collector_kern w))"
    and c: "collector_ok b (collector w)" "place_ok b pl (collector w) (collector_kern w) (collector_pool w)" "trace_ok w"
      "collector_state (collector w) = MODBUS_COLLECTOR_STATE_RUNNING"
  shows "gateway_inv b (put_collector (pl, w) g)"
proof -
  let ?g' = "put_collector (pl, w) g" and ?v = "tcp_view g"
  let ?v' = "tcp_view ?g'"
  have si: "sched_inv b (scheduler_view g)" using i by (simp add: gateway_inv_def)
  have "hq b \<noteq> lq b" "hr b \<noteq> lr b" using si by (simp_all add: sched_inv_def)
  note kq = collector_kernel_queues [OF k this]
  have v: "server ?v' = server ?v" "issued ?v' = issued ?v" "tcp_pool ?v' = collector_pool w"
    "requests_of (hq b) ?v' = requests_of (hq b) ?v" "responses_of (hr b) ?v' = responses_of (hr b) ?v"
    using kq by (simp_all add: tcp_view_def put_collector_def requests_of_def responses_of_def)
  have "tcp_inv (hq b) (hr b) ?v'"
    by (rule tcp_inv_frame [where w = ?v]) (use i p ad in \<open>simp_all add: gateway_inv_def v adu_of_def\<close>, simp add: tcp_view_def)
  moreover have "held (hq b) (hr b) ?v' = set (collector_adus b pl (collector_kern w))"
    using he by (simp add: held_def v owned_def)
  moreover have "sched_inv b ((scheduler_view g)\<lparr>kernel := collector_kern w\<rparr>)"
    by (rule collector_kernel_sched [OF _ si]) (use k in \<open>simp add: scheduler_view_def\<close>)
  then have "sched_inv b (scheduler_view ?g')" by (simp add: scheduler_view_def put_collector_def sched_inv_def)
  ultimately show ?thesis using i c kq
    by (simp add: gateway_inv_def) (simp add: put_collector_def)
qed

lemma select_bound:
  "unat (point_count (collection_of c)) \<noteq> 0 \<Longrightarrow> unat (select_earliest_point c) < unat (point_count (collection_of c))"
proof -
  have "n \<noteq> 0 \<Longrightarrow> n \<le> 255 \<Longrightarrow> unat (foldl (\<lambda>s i. if deadline_is_before (next_deadline c ! i) (next_deadline c ! unat s) then of_nat i else s)
      (0 :: u8) [1..<n]) < n" for n
  proof (induction n)
    case (Suc n)
    then show ?case by (cases "n = 0") (auto simp: unat_of_nat_u8 less_Suc_eq)
  qed simp
  moreover have "unat (point_count (collection_of c)) \<le> 255" using unat_u8_less [of "point_count (collection_of c)"] by linarith
  ultimately show "unat (point_count (collection_of c)) \<noteq> 0 \<Longrightarrow>
      unat (select_earliest_point c) < unat (point_count (collection_of c))"
    by (simp add: select_earliest_point_def)
qed

lemma advance_simps [simp]:
  "collection_of (advance_deadline i t c) = collection_of c" "collector_state (advance_deadline i t c) = collector_state c"
  "collector_ok b (advance_deadline i t c) = collector_ok b c" "point_at (advance_deadline i t c) = point_at c"
  "publication_ok (advance_deadline i t c) = publication_ok c" "point_request (advance_deadline i t c) = point_request c"
proof -
  show 1: "collection_of (advance_deadline i t c) = collection_of c" "collector_state (advance_deadline i t c) = collector_state c"
    by (simp_all add: advance_deadline_def Let_def collection_of_def)
  show 2: "point_at (advance_deadline i t c) = point_at c" by (simp add: point_at_def [abs_def] 1)
  show "collector_ok b (advance_deadline i t c) = collector_ok b c"
    by (simp add: collector_ok_def 1 2) (simp add: advance_deadline_def Let_def)
  show 3: "point_request (advance_deadline i t c) = point_request c" by (simp add: point_request_def [abs_def] 2)
  show "publication_ok (advance_deadline i t c) = publication_ok c" by (simp add: publication_ok_def [abs_def] 1 2 3 Let_def)
qed

lemma token_simps [simp]:
  "collection_of (c\<lparr>next_token := t\<rparr>) = collection_of c" "point_at (c\<lparr>next_token := t\<rparr>) = point_at c"
  "collector_ok b (c\<lparr>next_token := t\<rparr>) = collector_ok b c" "publication_ok (c\<lparr>next_token := t\<rparr>) = publication_ok c"
  "point_request (c\<lparr>next_token := t\<rparr>) = point_request c"
  by (simp_all add: collection_of_def point_at_def [abs_def] collector_ok_def publication_ok_def [abs_def] point_request_def [abs_def] Let_def)

lemma advance_world:
  "c = collector w \<Longrightarrow> trace_ok (w\<lparr>collector := advance_deadline i t c\<rparr>) = trace_ok w"
  by (simp_all add: trace_ok_def)

lemma trace_kept [simp]:
  "trace_ok (w\<lparr>collector_pool := p\<rparr>) = trace_ok w" "trace_ok (w\<lparr>collector_kern := k\<rparr>) = trace_ok w"
  "trace_ok (w\<lparr>collector := (collector w)\<lparr>next_token := t\<rparr>\<rparr>) = trace_ok w"
  "trace_ok (log_point_failure i f w) \<longleftrightarrow> trace_ok w \<and> f \<in> {MODBUS_COLLECTOR_FAILURE_ADU_UNAVAILABLE,
     MODBUS_COLLECTOR_FAILURE_TRANSACTION, MODBUS_COLLECTOR_FAILURE_PUBLISH}"
  by (auto simp: trace_ok_def log_point_failure_def)

lemma log_simps [simp]:
  "collector (log_point_failure i f w) = collector w" "collector_kern (log_point_failure i f w) = collector_kern w"
  "collector_pool (log_point_failure i f w) = collector_pool w" "published (log_point_failure i f w) = published w"
  by (simp_all add: log_point_failure_def)

lemma view_simps [simp]:
  "collector (collector_view g) = collector (gw_collector g)" "collector_kern (collector_view g) = gw_kernel g"
  "collector_pool (collector_view g) = gw_pool g" "trace_ok (collector_view g) = trace_ok (gw_collector g)"
  by (simp_all add: collector_view_def trace_ok_def)

lemma gateway_facts:
  assumes "gateway_inv b g"
  shows "pool_inv (gw_pool g)" "set (owned (hq b) (hr b) (tcp_view g)) \<subseteq> {0..<6} - free_adus (gw_pool g)"
    "{0..<6} - free_adus (gw_pool g) - set (owned (hq b) (hr b) (tcp_view g)) = set (collector_adus b (gw_place g) (gw_kernel g))"
    "hq b \<noteq> lq b" "hr b \<noteq> lr b"
proof -
  have t: "tcp_pool (tcp_view g) = gw_pool g" by (simp add: tcp_view_def)
  show "pool_inv (gw_pool g)" "set (owned (hq b) (hr b) (tcp_view g)) \<subseteq> {0..<6} - free_adus (gw_pool g)"
    "{0..<6} - free_adus (gw_pool g) - set (owned (hq b) (hr b) (tcp_view g)) = set (collector_adus b (gw_place g) (gw_kernel g))"
    "hq b \<noteq> lq b" "hr b \<noteq> lr b"
    using assms by (auto simp: gateway_inv_def tcp_inv_def shape_inv_iff held_def t sched_inv_def)
qed

text \<open>Choosing a point, and taking an ADU for it.\<close>

lemma schedule_step_inv:
  assumes i: "gateway_inv b g" and r: "collector_state (collector (gw_collector g)) = MODBUS_COLLECTOR_STATE_RUNNING"
    and pl: "gw_place g = Scheduling"
  shows "gateway_inv b (put_collector (collector_task io (gw_place g, collector_view g)) g)"
proof -
  let ?w1 = "(collector_view g)\<lparr>collector_kern := watchdog_report WATCHDOG_EVENT_COLLECTOR (gw_kernel g)\<rparr>"
  let ?p = "select_earliest_point (collector (gw_collector g))" and ?c = "collector (gw_collector g)"
  note f = gateway_facts [OF i]
  have q: "request_queues (gw_kernel g) (lq b) = []" "response_queues (gw_kernel g) (lr b) = []"
    using i pl by (simp_all add: gateway_inv_def)
  have wq: "request_queues (watchdog_report e k) = request_queues k" "response_queues (watchdog_report e k) = response_queues k" for e k
    by (simp_all add: watchdog_report_def)
  have idle: "gateway_inv b (put_collector (Scheduling, w) g)"
    if "collector_kern w = collector_kern ?w1" "collector_pool w = gw_pool g" "collector_ok b (collector w)" "trace_ok w"
      "collector_state (collector w) = MODBUS_COLLECTOR_STATE_RUNNING" for w
    by (rule collector_frame [OF i]) (use that f q pl collector_kernel.intros(2) in \<open>simp_all add: wq\<close>)
  have co: "collector_ok b ?c" "trace_ok (gw_collector g)" using i by (simp_all add: gateway_inv_def)
  have e: "collector_task io (gw_place g, collector_view g) =
      (if point_count (collection_of ?c) = 0 \<or> \<not> deadline_is_reached (tick_now io) (next_deadline ?c ! unat ?p)
       then (Scheduling, ?w1) else begin_point io ?p ?w1)"
    by (simp add: pl Let_def)
  show ?thesis
  proof (cases "point_count (collection_of ?c) = 0 \<or> \<not> deadline_is_reached (tick_now io) (next_deadline ?c ! unat ?p)")
    case True
    have "gateway_inv b (put_collector (Scheduling, ?w1) g)" by (rule idle) (use co r in simp_all)
    then show ?thesis using True by (simp only: e if_True)
  next
    case False
    then have n: "unat ?p < unat (point_count (collection_of ?c))" by (intro select_bound) (simp add: unat_eq_0)
    obtain x p where al: "modbus_rtu_adu_pool_allocate (gw_pool g) = (x, p)" by fastforce
    have "gateway_inv b (put_collector (begin_point io ?p ?w1) g)"
    proof (cases x)
      case None
      then have "p = gw_pool g" using pool.alloc_None [OF f(1)] al by simp
      moreover have bp: "begin_point io ?p ?w1 = finish_point io ?p (log_point_failure ?p MODBUS_COLLECTOR_FAILURE_ADU_UNAVAILABLE
          (?w1\<lparr>collector_pool := p\<rparr>))"
        using al None by (simp add: begin_point_def)
      ultimately show ?thesis unfolding bp finish_point_def
        by (intro idle) (use co r in \<open>simp_all add: advance_world\<close>)
    next
      case (Some a)
      note as = pool.alloc_Some [OF f(1) al [unfolded Some]]
      have bp: "begin_point io ?p ?w1 = (Submitting ?p a, ?w1\<lparr>collector_pool := p\<rparr>)" using al Some by (simp add: begin_point_def)
      have a6: "a < 6" using as pool.free_subset [OF f(1)] by auto
      show ?thesis unfolding bp
        by (rule collector_frame [OF i])
          (use as a6 f co r q n collector_kernel.intros(2) alloc_adus [OF al] pl in \<open>simp_all add: wq\<close>, auto)
    qed
    then show ?thesis using False by (simp only: e if_False)
  qed
qed
lemma submit_step_inv:
  assumes i: "gateway_inv b g" and r: "collector_state (collector (gw_collector g)) = MODBUS_COLLECTOR_STATE_RUNNING"
    and pl: "gw_place g = Submitting n a"
  shows "gateway_inv b (put_collector (collector_task io (gw_place g, collector_view g)) g)"
proof -
  let ?c = "collector (gw_collector g)" and ?k = "gw_kernel g"
  note f = gateway_facts [OF i]
  have q: "request_queues ?k (lq b) = []" "response_queues ?k (lr b) = []" "unat n < unat (point_count (collection_of ?c))"
    "1 \<le> queue_capacity ?k (lq b)" "collector_ok b ?c" "trace_ok (gw_collector g)"
    using i pl by (simp_all add: gateway_inv_def)
  have a: "a \<in> {0..<6} - free_adus (gw_pool g)" "a \<notin> set (owned (hq b) (hr b) (tcp_view g))" using f(3) by (auto simp: pl)
  have v: "collection_point_is_valid (point_at ?c n)" "collector_request_queue ?c = Some (lq b)"
    using q(3,5) r by (simp_all add: collector_ok_def)
  have wf: "adu_wf (pool_adus (gw_pool g) ! a)" using f(1) a(1) by (auto simp: pool_inv_def pool_wf_def)
  obtain req where e: "modbus_collector_codec_encode_request (Some (point_at ?c n)) (Some (pool_adus (gw_pool g) ! a)) =
      (MODBUS_COLLECTOR_CODEC_OK, Some req)" "point_request ?c n req"
    using encode_point [OF v(1) wf] by (auto simp: point_request_def)
  let ?p = "adu_write a req (gw_pool g)"
  let ?q = "\<lparr>rq_token = next_token ?c, rq_response_timeout_ms = ucast (point_first_byte_timeout_ms (point_at ?c n)), rq_rtu_adu = a\<rparr>"
  let ?k' = "snd (xQueueSend_request (lq b) ?q ?k)"
  let ?w' = "(collector_view g)\<lparr>collector_pool := ?p, collector := ?c\<lparr>next_token := next_token ?c + 1\<rparr>, collector_kern := ?k'\<rparr>"
  have s: "collector_task io (gw_place g, collector_view g) = (Awaiting n (next_token ?c), ?w')"
    using e(1) v(2) q(1,4) by (simp add: pl submit_point_def Let_def xQueueSend_request_def)
  have st: "pool_inv ?p" "free_adus ?p = free_adus (gw_pool g)"
    using pool.store_free [OF f(1) a(1) point_request_valid(2) [OF v(1) e(2)]] by simp_all
  have k': "request_queues ?k' (lq b) = [?q]" "response_queues ?k' (lr b) = []"
    using q by (simp_all add: xQueueSend_request_def)
  have tr: "trace_ok ?w'"
    using q(6) by (simp add: trace_ok_def collector_view_def)
  show ?thesis unfolding s
  proof (rule collector_frame [OF i _ _ _ _ _ _ _ tr])
    show "pool_adus (collector_pool ?w') ! d = pool_adus (gw_pool g) ! d" if "d \<in> set (owned (hq b) (hr b) (tcp_view g))" for d
    proof -
      have "d \<noteq> a" using that a(2) by auto
      then show ?thesis by (simp add: adu_write_other)
    qed
    show "collector_kernel b ?k (collector_kern ?w')" by (simp add: collector_send)
    show "{0..<6} - free_adus (collector_pool ?w') - set (owned (hq b) (hr b) (tcp_view g)) =
        set (collector_adus b (Awaiting n (next_token ?c)) (collector_kern ?w'))"
      using f(3) by (simp add: st(2) k' pl)
    show "place_ok b (Awaiting n (next_token ?c)) (collector ?w') (collector_kern ?w') (collector_pool ?w')"
      using q(3) e(2) a(1) k' by (simp add: adu_write_same [OF f(1)])
  qed (use st f q(5) r in simp_all)
qed

lemma publish_point:
  assumes v: "collection_point_is_valid (point_at (collector w) n)" "publish_context_indices (collector w) ! unat n = n"
      "unat n < unat (point_count (collection_of (collector w)))"
    and r: "point_request (collector w) n req" "response_check req (pool_adus (collector_pool w) ! rs_rtu_adu r) = MODBUS_RTU_TRANSACTION_OK"
    and c: "rs_token r = t" "rs_result r = MODBUS_RTU_TRANSACTION_OK" "length cell = 7" and tr: "trace_ok w"
  shows "trace_ok (process_response accepted cell cell_length n t r w)"
proof -
  let ?pt = "point_at (collector w) n" and ?resp = "pool_adus (collector_pool w) ! rs_rtu_adu r"
  let ?t = "scalar_text ?pt ?resp"
  obtain payload where p: "modbus_collector_codec_decode_response (Some ?pt) (Some ?resp) (Some cell) 7 (Some cell_length) =
      (MODBUS_COLLECTOR_CODEC_OK, Some payload, Some (of_nat (length ?t)))" "take (length ?t + 1) payload = ?t @ [0]"
    using decode_accepted [OF v(1) r(1) [unfolded point_request_def] r(2) c(3)] by blast
  have u: "unat (of_nat (length ?t) :: u16) = length ?t" using scalar_text_spec(2) [of ?pt ?resp] by (intro unat_of_nat_u16) simp
  have "take (length ?t) payload = take (length ?t) (take (length ?t + 1) payload)" by (simp only: take_take) simp
  then have "take (length ?t) payload = ?t" by (simp only: p(2)) simp
  then have "signed_value (take (unat (of_nat (length ?t) :: u16)) payload) = scalar_value ?pt ?resp"
    by (simp add: u scalar_text_spec(1))
  then have "trace_ok (publish_value accepted n payload (of_nat (length ?t)) w)"
    using tr v(2,3) r by (auto simp: publish_value_def Let_def trace_ok_def publication_ok_def log_point_failure_def)
  then show ?thesis using p(1) c(1,2) by (simp add: process_response_def Let_def)
qed

lemma process_frame:
  "collector (process_response accepted cell cell_length n t r w) = collector w"
  "collector_kern (process_response accepted cell cell_length n t r w) = collector_kern w"
  "collector_pool (process_response accepted cell cell_length n t r w) = modbus_rtu_adu_pool_release (rs_rtu_adu r) (collector_pool w)"
  by (simp_all add: process_response_def publish_value_def Let_def split: prod.split)

lemma await_step_inv:
  assumes i: "gateway_inv b g" and r: "collector_state (collector (gw_collector g)) = MODBUS_COLLECTOR_STATE_RUNNING"
    and pl: "gw_place g = Awaiting n t" and cell: "length (payload_cell io) = 7"
  shows "gateway_inv b (put_collector (collector_task io (gw_place g, collector_view g)) g)"
proof -
  let ?c = "collector (gw_collector g)" and ?k = "gw_kernel g"
  note f = gateway_facts [OF i]
  have po: "place_ok b (Awaiting n t) ?c ?k (gw_pool g)" and co: "collector_ok b ?c" and tr: "trace_ok (gw_collector g)"
    using i pl by (simp_all add: gateway_inv_def)
  have v: "collection_point_is_valid (point_at ?c n)" "publish_context_indices ?c ! unat n = n" "unat n < unat (point_count (collection_of ?c))"
    "collector_response_queue ?c = Some (lr b)"
    using po co r by (simp_all add: collector_ok_def)
  show ?thesis
  proof (cases "response_queues ?k (lr b)")
    case Nil
    let ?w' = "(collector_view g)\<lparr>collector_kern := watchdog_report WATCHDOG_EVENT_COLLECTOR ?k\<rparr>"
    have s: "collector_task io (gw_place g, collector_view g) = (Awaiting n t, ?w')"
      using Nil v(4) by (simp add: pl await_response_def Let_def)
    have wq: "request_queues (watchdog_report e k) = request_queues k" "response_queues (watchdog_report e k) = response_queues k" for e k
      by (simp_all add: watchdog_report_def)
    show ?thesis unfolding s
      by (rule collector_frame [OF i]) (use f po co tr r pl collector_kernel.intros(2) in \<open>simp_all add: wq\<close>)
  next
    case (Cons x rest)
    then have x: "rest = []" "request_queues ?k (lq b) = []" "rs_token x = t"
      "rs_result x = MODBUS_RTU_TRANSACTION_OK \<Longrightarrow> \<exists>req. point_request ?c n req \<and>
         response_check req (pool_adus (gw_pool g) ! rs_rtu_adu x) = MODBUS_RTU_TRANSACTION_OK"
      using po by auto
    let ?k' = "?k\<lparr>response_queues := (response_queues ?k)(lr b := [])\<rparr>"
    let ?w1 = "(collector_view g)\<lparr>collector_kern := ?k'\<rparr>"
    let ?w2 = "process_response (publish_accepted io) (payload_cell io) (payload_length_cell io) n t x ?w1"
    let ?w' = "?w2\<lparr>collector := advance_deadline n (tick_done io) ?c\<rparr>"
    have s: "collector_task io (gw_place g, collector_view g) = (Scheduling, ?w')"
      using Cons x(1) v(4) by (simp add: pl await_response_def finish_point_def Let_def process_frame)
    have a: "rs_rtu_adu x < 6" "{0..<6} - free_adus (gw_pool g) - set (owned (hq b) (hr b) (tcp_view g)) = {rs_rtu_adu x}"
      using f(3) x(1,2) Cons by (auto simp: pl)
    note rel = release_inv [OF f(1) a(1)]
    have "trace_ok ?w2"
    proof (cases "rs_result x = MODBUS_RTU_TRANSACTION_OK")
      case True
      then obtain req where "point_request ?c n req" "response_check req (pool_adus (gw_pool g) ! rs_rtu_adu x) = MODBUS_RTU_TRANSACTION_OK"
        using x(4) by blast
      then show ?thesis using v tr x(3) True cell by (intro publish_point) simp_all
    next
      case False
      then show ?thesis using tr x(3) by (simp add: process_response_def Let_def)
    qed
    then have tr': "trace_ok ?w'" by (simp add: advance_world process_frame)
    show ?thesis unfolding s
    proof (rule collector_frame [OF i _ _ _ _ _ _ _ tr'])
      show "pool_adus (collector_pool ?w') ! d = pool_adus (gw_pool g) ! d" if "d \<in> set (owned (hq b) (hr b) (tcp_view g))" for d
      proof -
        have "d \<noteq> rs_rtu_adu x" using that a(2) by auto
        then show ?thesis by (simp add: process_frame release_other)
      qed
      show "collector_kernel b ?k (collector_kern ?w')" by (simp add: process_frame collector_receive)
      show "set (owned (hq b) (hr b) (tcp_view g)) \<subseteq> {0..<6} - free_adus (collector_pool ?w')"
        using f(2) a(2) rel(2) by (auto simp: process_frame)
      show "{0..<6} - free_adus (collector_pool ?w') - set (owned (hq b) (hr b) (tcp_view g)) =
          set (collector_adus b Scheduling (collector_kern ?w'))"
        using a(2) by (simp add: process_frame rel(2)) blast
    qed (use rel(1) x(2) co r in \<open>simp_all add: process_frame\<close>)
  qed
qed

theorem gateway_step_inv: "gateway_step g g' \<Longrightarrow> gateway_inv b g \<Longrightarrow> gateway_inv b g'"
proof (induction rule: gateway_step.induct)
  case (tcp_operates g io op)
  then show ?case by (rule tcp_step_inv)
next
  case (scheduler_iterates transceive tmp request0 g delay s)
  show ?case by (rule scheduler_step_inv [OF scheduler_iterates(5,1,3,4)])
next
  case (collector_turns g io)
  then show ?case
    using schedule_step_inv [OF collector_turns(3,1)] submit_step_inv [OF collector_turns(3,1)] await_step_inv [OF collector_turns(3,1)]
    by (cases "gw_place g") simp_all
qed

lemma gateway_reachable_inv: "gateway_step\<^sup>*\<^sup>* g g' \<Longrightarrow> gateway_inv b g \<Longrightarrow> gateway_inv b g'"
  by (induction rule: rtranclp_induct) (auto intro: gateway_step_inv)
section \<open>Initialisation\<close>

text \<open>
  \<open>modbus_gateway_app_init\<close>: the static objects it starts from, and which of the creations succeed. The four static
  queue buffers are the handles 0 to 3. The RS485 port is not modelled here; \<open>None\<close> is the call of \<open>Error_Handler\<close>.
\<close>

record app_objects =
  app_kernel :: rtos
  app_pool :: adu_pool
  app_channel :: "unit modbus_rtu_channel_t"
  app_scheduler :: "unit modbus_rtu_transaction_scheduler_t"
  app_collector :: modbus_collector_t
  app_tcp_server :: modbus_tcp_server_t

record app_outcomes =
  queues_created :: bool
  queue_set_created :: bool
  scheduler_task_created :: bool
  collector_task_created :: bool
  tcp_task_created :: bool
  collector_start_tick :: u32

definition gateway_queues :: bound_queues where
  "gateway_queues = \<lparr>hq = 0, hr = 1, lq = 2, lr = 3\<rparr>"

definition create_queues :: "rtos \<Rightarrow> rtos" where
  "create_queues k =
     k\<lparr>request_queues := (request_queues k)(hq gateway_queues := [], lq gateway_queues := []),
       response_queues := (response_queues k)(hr gateway_queues := [], lr gateway_queues := []),
       queue_capacity := (queue_capacity k)(hq gateway_queues := 1, hr gateway_queues := 1, lq gateway_queues := 1, lr gateway_queues := 1)\<rparr>"

definition modbus_gateway_app_init :: "app_outcomes \<Rightarrow> app_objects \<Rightarrow> configuration_t ptr \<Rightarrow> unit gateway option" where
  "modbus_gateway_app_init out objects active_configuration =
     (case active_configuration of
        None \<Rightarrow> None
      | Some cfg \<Rightarrow>
          let p = modbus_rtu_adu_pool_init (app_pool objects);
              (channel_result, ch) = modbus_rtu_channel_init (Some (app_channel objects)) ()
          in if channel_result \<noteq> MODBUS_RTU_CHANNEL_OK then None
          else let s = modbus_rtu_transaction_scheduler_init (app_scheduler objects) ch; k = create_queues (app_kernel objects) in
          if \<not> queues_created out then None
          else let s1 = modbus_rtu_transaction_scheduler_bind_queue s MODBUS_RTU_TRANSACTION_SCHEDULER_PRIORITY_HIGH
                          (Some (hq gateway_queues)) (Some (hr gateway_queues));
                   s2 = modbus_rtu_transaction_scheduler_bind_queue s1 MODBUS_RTU_TRANSACTION_SCHEDULER_PRIORITY_LOW
                          (Some (lq gateway_queues)) (Some (lr gateway_queues));
                   (s3, k1) = modbus_rtu_transaction_scheduler_start (queue_set_created out) (scheduler_task_created out) s2 k;
                   (collector_result, c) = modbus_collector_init (collector_task_created out) (Some (app_collector objects))
                     (Some \<lparr>ccfg_collection = Some (collection cfg), ccfg_request_queue = Some (lq gateway_queues),
                        ccfg_response_queue = Some (lr gateway_queues), ccfg_task_name = Some (), ccfg_task_priority = 21,
                        ccfg_task_stack = Some (), ccfg_task_stack_depth = 384, ccfg_task_buffer = Some ()\<rparr>)
               in if collector_result \<noteq> MODBUS_COLLECTOR_OK \<and> collector_result \<noteq> MODBUS_COLLECTOR_DISABLED then None
                  else let (tcp_result, t) = modbus_tcp_server_init (tcp_task_created out) (Some (app_tcp_server objects))
                         (Some \<lparr>cfg_request_queue = Some (hq gateway_queues), cfg_response_queue = Some (hr gateway_queues),
                            cfg_listen_port = listen_port cfg, cfg_response_timeout_ms = ucast (rtu_first_byte_timeout_ms (rtu cfg)),
                            cfg_task_name = Some (), cfg_task_priority = 22, cfg_task_stack = Some (), cfg_task_stack_depth = 512,
                            cfg_task_buffer = Some ()\<rparr>)
                       in if tcp_result \<noteq> MODBUS_TCP_SERVER_OK then None
                          else Some \<lparr>gw_kernel = k1, gw_pool = p,
                            gw_tcp = \<lparr>server = the t, kern = k1, tcp_pool = p, open_sockets = [], tcp_out = [], issued = 0\<rparr>,
                            gw_place = Scheduling,
                            gw_collector = \<lparr>collector = collector_task_start (collector_start_tick out) (the c), collector_kern = k1,
                              collector_pool = p, published = [], logged = []\<rparr>,
                            gw_scheduler = \<lparr>sched = s3, kernel = k1, adus = p, selected_high_request_count = 0,
                              selected_low_request_count = 0\<rparr>\<rparr>)"

text \<open>The objects as the C runtime leaves them: zero-initialised.\<close>

definition objects_zeroed :: "app_objects \<Rightarrow> bool" where
  "objects_zeroed o' \<longleftrightarrow> pool_wf (app_pool o') \<and> set_pending (app_kernel o') = [] \<and> queue_set (app_kernel o') = None \<and>
     collector_state (app_collector o') = MODBUS_COLLECTOR_STATE_UNINITIALIZED \<and>
     length (publish_context_indices (app_collector o')) = 16 \<and>
     server_state (app_tcp_server o') = MODBUS_TCP_SERVER_STATE_UNINITIALIZED"

lemma publish_indices:
  "n \<le> length xs \<Longrightarrow> n \<le> 256 \<Longrightarrow> i < n \<Longrightarrow> foldl (\<lambda>xs i. xs[i := of_nat i]) xs [0..<n] ! i = of_nat i"
  "length (foldl (\<lambda>xs i. xs[i := of_nat i]) xs [0..<n]) = length xs"
proof -
  show l: "length (foldl (\<lambda>xs i. xs[i := of_nat i]) xs [0..<n]) = length xs" for n by (induction n) simp_all
  show "n \<le> length xs \<Longrightarrow> n \<le> 256 \<Longrightarrow> i < n \<Longrightarrow> foldl (\<lambda>xs i. xs[i := of_nat i]) xs [0..<n] ! i = of_nat i"
    by (induction n) (auto simp: nth_list_update l less_Suc_eq)
qed

lemma start_kernel:
  assumes "modbus_rtu_transaction_scheduler_start a b s k = (s', k')"
  shows "request_queues k' = request_queues k" "response_queues k' = response_queues k" "queue_capacity k' = queue_capacity k"
    "hp_request_queue s' = hp_request_queue s" "lp_request_queue s' = lp_request_queue s"
    "hp_response_queue s' = hp_response_queue s" "lp_response_queue s' = lp_response_queue s"
    "set_pending k = [] \<Longrightarrow> set_pending k' = []"
  using assms
  by (auto simp: modbus_rtu_transaction_scheduler_start_def xQueueAddToSet_def xQueueRemoveFromSet_def Let_def
      split: prod.splits if_splits option.splits)

lemma collector_started:
  assumes "configuration_validate tls (Some cfg) = CONFIGURATION_VALIDATION_OK" "length (publish_context_indices c0) = 16"
    "collector_state c0 = MODBUS_COLLECTOR_STATE_UNINITIALIZED"
    "modbus_collector_init created (Some c0) (Some \<lparr>ccfg_collection = Some (collection cfg), ccfg_request_queue = Some (lq b),
       ccfg_response_queue = Some (lr b), ccfg_task_name = Some (), ccfg_task_priority = prio,
       ccfg_task_stack = Some (), ccfg_task_stack_depth = depth, ccfg_task_buffer = Some ()\<rparr>) = (res, Some c)"
    "res = MODBUS_COLLECTOR_OK \<or> res = MODBUS_COLLECTOR_DISABLED"
  shows "collector_ok b (collector_task_start tick c)"
proof -
  have p: "unat (point_count (collection cfg)) \<le> 16" "collection_point_is_valid (points (collection cfg) ! i)"
    if "i < unat (point_count (collection cfg))" for i
    using assms(1) that by (auto simp: validate_OK collection_points_are_valid_def Let_def list_all_iff)
  have "collector_state c = MODBUS_COLLECTOR_STATE_RUNNING \<Longrightarrow>
      collector_collection c = Some (collection cfg) \<and> collector_request_queue c = Some (lq b) \<and> collector_response_queue c = Some (lr b) \<and>
      publish_context_indices c = foldl (\<lambda>xs i. xs[i := of_nat i]) (publish_context_indices c0) [0..<unat (point_count (collection cfg))]"
    using assms(3-5) by (auto simp: modbus_collector_init_def Let_def split: if_splits)
  then show ?thesis
    using p publish_indices(1) [of "unat (point_count (collection cfg))" "publish_context_indices c0"] assms(2)
    by (fastforce simp: collector_ok_def collector_task_start_def collection_of_def point_at_def)
qed
lemma server_started:
  assumes "server_state s0 = MODBUS_TCP_SERVER_STATE_UNINITIALIZED"
    "modbus_tcp_server_init created (Some s0) (Some cfg) = (MODBUS_TCP_SERVER_OK, Some s)"
  shows "request_queue s = cfg_request_queue cfg" "response_queue s = cfg_response_queue cfg" "available_token s = 0"
    "clients s = replicate 4 (zero_client\<lparr>socket := - 1\<rparr>)"
  using assms by (auto simp: modbus_tcp_server_init_def Let_def split: if_splits)

lemma closed_clients:
  "client_ok (zero_client\<lparr>socket := - 1\<rparr>)" "reply_ok (zero_client\<lparr>socket := - 1\<rparr>)" "\<not> live (zero_client\<lparr>socket := - 1\<rparr>) st"
  "client_adus (replicate n (zero_client\<lparr>socket := - 1\<rparr>)) = []" "submit_tokens (replicate n (zero_client\<lparr>socket := - 1\<rparr>)) = []"
  "wait_tokens (replicate n (zero_client\<lparr>socket := - 1\<rparr>)) = []"
proof -
  show l: "\<not> live (zero_client\<lparr>socket := - 1\<rparr>) st" for st by (simp add: live_def)
  show "client_ok (zero_client\<lparr>socket := - 1\<rparr>)" "reply_ok (zero_client\<lparr>socket := - 1\<rparr>)"
    using l by (simp_all add: client_ok_def reply_ok_def zero_client_def del: replicate.simps)
  show "client_adus (replicate n (zero_client\<lparr>socket := - 1\<rparr>)) = []" "submit_tokens (replicate n (zero_client\<lparr>socket := - 1\<rparr>)) = []"
    "wait_tokens (replicate n (zero_client\<lparr>socket := - 1\<rparr>)) = []"
    using l by (induction n) (simp_all add: zero_client_def)
qed

lemma tcp_inv_started:
  assumes "pool_inv p" "free_adus p = {0..<6}" "request_queues k tq = []" "response_queues k tr = []"
    "request_queue s = Some tq" "response_queue s = Some tr" "available_token s = 0"
    "clients s = replicate 4 (zero_client\<lparr>socket := - 1\<rparr>)"
  shows "tcp_inv tq tr \<lparr>server = s, kern = k, tcp_pool = p, open_sockets = os, tcp_out = out, issued = 0\<rparr>"
    (is "tcp_inv tq tr ?w")
proof -
  have o: "owned tq tr ?w = []" "queue_tokens tq tr ?w = []" "requests_of tq ?w = []" "responses_of tr ?w = []"
    using assms(3,4,8) by (simp_all add: owned_def queue_tokens_def requests_of_def responses_of_def closed_clients(4))
  have "list_all (submit_ok ?w) (clients s)" "list_all client_ok (clients s)" "list_all reply_ok (clients s)" "list_all (waiting_ok tq tr ?w) (clients s)"
    using closed_clients(1-3) unfolding assms(8) by (simp_all add: list_all_iff submit_ok_def waiting_ok_def)
  then show ?thesis
    using assms o closed_clients(5,6) unfolding tcp_inv_def shape_inv_iff token_inv_iff by simp
qed

lemma inits_keep_object:
  "\<exists>cr c. modbus_collector_init created (Some c0) ccfg = (cr, Some c)"
  "\<exists>tr t. modbus_tcp_server_init created (Some t0) tcfg = (tr, Some t)"
proof -
  have "snd (modbus_collector_init created (Some c0) ccfg) \<noteq> None" "snd (modbus_tcp_server_init created (Some t0) tcfg) \<noteq> None"
    by (auto simp: modbus_collector_init_def modbus_tcp_server_init_def Let_def split: option.splits)
  then show "\<exists>cr c. modbus_collector_init created (Some c0) ccfg = (cr, Some c)"
    "\<exists>tr t. modbus_tcp_server_init created (Some t0) tcfg = (tr, Some t)"
    by (metis prod.collapse option.exhaust)+
qed

lemma app_init_inv:
  assumes v: "configuration_validate tls (Some cfg) = CONFIGURATION_VALIDATION_OK" and z: "objects_zeroed objects"
    and g: "modbus_gateway_app_init out objects (Some cfg) = Some g"
  shows "gateway_inv gateway_queues g"
proof -
  let ?b = gateway_queues and ?p = "modbus_rtu_adu_pool_init (app_pool objects)" and ?k = "create_queues (app_kernel objects)"
  define s2 where "s2 = modbus_rtu_transaction_scheduler_bind_queue (modbus_rtu_transaction_scheduler_bind_queue
      (modbus_rtu_transaction_scheduler_init (app_scheduler objects) (snd (modbus_rtu_channel_init (Some (app_channel objects)) ())))
        MODBUS_RTU_TRANSACTION_SCHEDULER_PRIORITY_HIGH (Some (hq ?b)) (Some (hr ?b)))
        MODBUS_RTU_TRANSACTION_SCHEDULER_PRIORITY_LOW (Some (lq ?b)) (Some (lr ?b))"
  obtain s3 k1 where st: "modbus_rtu_transaction_scheduler_start (queue_set_created out) (scheduler_task_created out) s2 ?k = (s3, k1)"
    by fastforce
  let ?cc = "\<lparr>ccfg_collection = Some (collection cfg), ccfg_request_queue = Some (lq ?b), ccfg_response_queue = Some (lr ?b),
      ccfg_task_name = Some (), ccfg_task_priority = 21, ccfg_task_stack = Some (), ccfg_task_stack_depth = 384, ccfg_task_buffer = Some ()\<rparr>"
  let ?tc = "\<lparr>cfg_request_queue = Some (hq ?b), cfg_response_queue = Some (hr ?b), cfg_listen_port = listen_port cfg,
      cfg_response_timeout_ms = ucast (rtu_first_byte_timeout_ms (rtu cfg)), cfg_task_name = Some (), cfg_task_priority = 22,
      cfg_task_stack = Some (), cfg_task_stack_depth = 512, cfg_task_buffer = Some ()\<rparr>"
  obtain cr c where ci: "modbus_collector_init (collector_task_created out) (Some (app_collector objects)) (Some ?cc) = (cr, Some c)"
    using inits_keep_object(1) by blast
  obtain tr t where ti: "modbus_tcp_server_init (tcp_task_created out) (Some (app_tcp_server objects)) (Some ?tc) = (tr, Some t)"
    using inits_keep_object(2) by blast
  have ok: "cr = MODBUS_COLLECTOR_OK \<or> cr = MODBUS_COLLECTOR_DISABLED" "tr = MODBUS_TCP_SERVER_OK" and
    ge: "g = \<lparr>gw_kernel = k1, gw_pool = ?p, gw_tcp = \<lparr>server = t, kern = k1, tcp_pool = ?p, open_sockets = [], tcp_out = [], issued = 0\<rparr>,
      gw_place = Scheduling, gw_collector = \<lparr>collector = collector_task_start (collector_start_tick out) c, collector_kern = k1,
        collector_pool = ?p, published = [], logged = []\<rparr>,
      gw_scheduler = \<lparr>sched = s3, kernel = k1, adus = ?p, selected_high_request_count = 0, selected_low_request_count = 0\<rparr>\<rparr>"
    using g ci ti st
    by (auto simp: modbus_gateway_app_init_def Let_def s2_def modbus_rtu_channel_init_def split: if_splits)
  note sk = start_kernel [OF st]
  have k: "request_queues k1 (hq ?b) = []" "request_queues k1 (lq ?b) = []" "response_queues k1 (hr ?b) = []" "response_queues k1 (lr ?b) = []"
    "queue_capacity k1 (hq ?b) = 1" "queue_capacity k1 (lq ?b) = 1" "set_pending k1 = []"
    using sk z by (simp_all add: create_queues_def gateway_queues_def objects_zeroed_def)
  have s3: "hp_request_queue s3 = Some (hq ?b)" "lp_request_queue s3 = Some (lq ?b)" "hp_response_queue s3 = Some (hr ?b)" "lp_response_queue s3 = Some (lr ?b)"
    by (simp_all add: sk s2_def modbus_rtu_transaction_scheduler_bind_queue_def)
  have pool: "pool_inv ?p" "free_adus ?p = {0..<6}" using pool_init [of "app_pool objects"] z by (simp_all add: objects_zeroed_def)
  have ts: "server_state (app_tcp_server objects) = MODBUS_TCP_SERVER_STATE_UNINITIALIZED" using z by (simp add: objects_zeroed_def)
  note tt = server_started [OF ts ti [unfolded ok(2)]]
  have inv: "tcp_inv (hq ?b) (hr ?b) (tcp_view g)"
    unfolding tcp_view_def ge using tcp_inv_started [OF pool k(1,3), of t] tt by simp
  have "owned (hq ?b) (hr ?b) (tcp_view g) = []"
    using k(1,3) tt(4) by (simp add: owned_def tcp_view_def ge requests_of_def responses_of_def closed_clients(4))
  then have "held (hq ?b) (hr ?b) (tcp_view g) = {}" using pool(2) by (simp add: held_def tcp_view_def ge)
  moreover have "collector_ok ?b (collector_task_start (collector_start_tick out) c)"
    by (rule collector_started [OF v _ _ ci ok(1)]) (use z in \<open>simp_all add: objects_zeroed_def\<close>)
  moreover have "sched_inv ?b (scheduler_view g)" using k s3 by (simp add: scheduler_view_def ge sched_inv_def) (simp add: gateway_queues_def)
  ultimately show ?thesis using inv k by (simp add: gateway_inv_def) (simp add: ge trace_ok_def)
qed

end
