(* ===== verification/Modbus_Gateway_Runs.thy ===== *)
theory Modbus_Gateway_Runs
  imports Modbus_Gateway
begin

text \<open>
  The properties of the running gateway: whatever the interleaving of its tasks, replies answer the requests they are
  sent for, the ADUs are never lost or shared, what is published was measured, waiting clients are accounted for,
  buffers stay in bounds, and a turn of the TCP task takes the response at the head of its queue.
\<close>

section \<open>What holds of every run\<close>

text \<open>A state of the gateway after initialisation with a valid configuration, and any steps of its tasks.\<close>

definition gateway_run :: "mbedtls_api \<Rightarrow> app_outcomes \<Rightarrow> app_objects \<Rightarrow> configuration_t \<Rightarrow> unit gateway \<Rightarrow> bool" where
  "gateway_run tls out objects cfg g \<longleftrightarrow>
     configuration_validate tls (Some cfg) = CONFIGURATION_VALIDATION_OK \<and> objects_zeroed objects \<and>
     (\<exists>g0. modbus_gateway_app_init out objects (Some cfg) = Some g0 \<and> gateway_step\<^sup>*\<^sup>* g0 g)"

lemma gateway_run_inv: "gateway_run tls out objects cfg g \<Longrightarrow> gateway_inv gateway_queues g"
  by (auto simp: gateway_run_def intro: gateway_reachable_inv app_init_inv)

section \<open>A response does not stay at the head of the queue\<close>

section \<open>The response queue never stalls\<close>

text \<open>The possible results of receiving and of sending.\<close>

lemma recv_cases:
  "\<exists>c. client_state c = client_state (clients (server w) ! i) \<and> client_recv_tcp_request io i w \<in>
     {w, client_close i w, client_close i (upd_client i c w), upd_client i c w, client_request_complete io i (upd_client i c w)}"
proof (cases "recv_result io i")
  case (Received bytes)
  let ?c = "clients (server w) ! i"
  define ys where "ys = take (if recv_count ?c < 7 then 7 - recv_count ?c else unat (get_length_field (recv_buffer ?c)) + 6 - recv_count ?c) bytes"
  define c1 where "c1 = ?c\<lparr>recv_buffer := overwrite (recv_count ?c) ys (recv_buffer ?c), last_recv_time := now_ms io i 0,
      recv_count := recv_count ?c + length ys\<rparr>"
  have "client_state c1 = client_state ?c" by (simp add: c1_def)
  moreover have "client_recv_tcp_request io i w \<in>
     {w, client_close i w, client_close i (upd_client i c1 w), upd_client i c1 w, client_request_complete io i (upd_client i c1 w)}"
    unfolding client_recv_tcp_request_def Let_def Received recv_outcome.case ys_def [symmetric] c1_def [symmetric]
    by (simp only: insert_iff empty_iff simp_thms split: if_split)
  ultimately show ?thesis by blast
qed (auto simp: client_recv_tcp_request_def Let_def)

lemma send_cases:
  "\<exists>c out. client_state c \<in> {sending, receiving} \<and> client_send_tcp_response io i w \<in>
     {w, client_close i w, upd_client i c (w\<lparr>tcp_out := out\<rparr>)}"
  if "client_state (clients (server w) ! i) = sending"
proof (cases "send_result io i")
  case (Sent n)
  let ?c = "clients (server w) ! i"
  define m where "m = min n (send_length ?c - send_offset ?c)"
  define c1 where "c1 = ?c\<lparr>send_offset := send_offset ?c + m\<rparr>"
  define c2 where "c2 = (if send_offset c1 = send_length c1 then c1\<lparr>client_state := receiving, recv_count := 0\<rparr> else c1)"
  have "client_state c2 \<in> {sending, receiving}" using that by (simp add: c2_def c1_def)
  moreover have "client_send_tcp_response io i w \<in>
     {w, client_close i w, upd_client i c2 (w\<lparr>tcp_out := tcp_out w @ [(socket ?c, take m (drop (send_offset ?c) (send_buffer ?c)))]\<rparr>)}"
    unfolding client_send_tcp_response_def Let_def Sent send_outcome.case m_def [symmetric] c1_def [symmetric] c2_def [symmetric]
    by (simp only: insert_iff empty_iff simp_thms split: if_split)
  ultimately show ?thesis by blast
qed (use that in \<open>auto simp: client_send_tcp_response_def Let_def\<close>)

lemma client_nth:
  "j \<noteq> i \<Longrightarrow> clients (server (upd_client i c v)) ! j = clients (server v) ! j"
  "i < length (clients (server v)) \<Longrightarrow> clients (server (upd_client i c v)) ! i = c"
  "length (clients (server (upd_client i c v))) = length (clients (server v))"
  by (simp_all add: upd_client_def)

lemma close_nth: "j \<noteq> i \<Longrightarrow> clients (server (client_close i v)) ! j = clients (server v) ! j"
  by (auto simp: client_close_def client_nth close_socket_def Let_def split: option.splits)

lemma complete_nth: "j \<noteq> i \<Longrightarrow> clients (server (client_request_complete io i v)) ! j = clients (server v) ! j"
  by (simp add: client_request_complete_def client_nth Let_def server_get_available_token_def split: prod.split option.split)

lemma pop_server [simp]: "server (pop_response v) = server v"
  by (simp add: pop_response_def Let_def)

lemma update_other_client:
  assumes "j \<noteq> i"
  shows "clients (server (client_update io i w)) ! j = clients (server w) ! j"
proof -
  let ?same = "\<lambda>v. clients (server v) ! j = clients (server w) ! j"
  note n = client_nth(1) [OF assms] close_nth [OF assms] complete_nth [OF assms]
  have "?same (client_recv_tcp_request io i w)" using recv_cases [of w i io] n by auto
  moreover have "?same (client_submit_rtu_request i w)" by (simp add: client_submit_rtu_request_def n Let_def split: prod.split)
  moreover have "?same (client_recv_rtu_response io i w)" by (simp add: client_recv_rtu_response_def n Let_def split: list.split)
  moreover have "client_state (clients (server w) ! i) = sending \<Longrightarrow> ?same (client_send_tcp_response io i w)"
    using send_cases [of w i io] n by auto
  ultimately show ?thesis by (cases "client_state (clients (server w) ! i)") (simp_all add: client_update_def Let_def)
qed
lemma update_responses:
  assumes "response_queue (server w) = Some tr"
  shows "responses_of tr (client_update io i w) = responses_of tr w \<or>
    responses_of tr (client_update io i w) = tl (responses_of tr w)"
proof -
  have r: "response_queues (kern v) tr = responses_of tr v" for v by (simp add: responses_of_def)
  have cl: "responses_of tr (client_close i v) = responses_of tr v" for v by (simp add: responses_of_def)
  have co: "responses_of tr (client_request_complete io i v) = responses_of tr v" for v by (simp add: responses_of_def)
  have sb: "responses_of tr (client_submit_rtu_request i w) = responses_of tr w"
    by (simp add: client_submit_rtu_request_def xQueueSend_request_def Let_def) (simp add: responses_of_def)
  have rc: "responses_of tr (client_recv_tcp_request io i w) = responses_of tr w"
    by (simp add: client_recv_tcp_request_def cl co Let_def split: recv_outcome.split)
  have rr: "responses_of tr (client_recv_rtu_response io i w) = responses_of tr w \<or>
      responses_of tr (client_recv_rtu_response io i w) = tl (responses_of tr w)"
    using assms by (simp add: client_recv_rtu_response_def Let_def split: list.split) (simp add: pop_response_def responses_of_def Let_def)
  have se: "responses_of tr (client_send_tcp_response io i w) = responses_of tr w"
    by (simp add: client_send_tcp_response_def cl Let_def split: send_outcome.split) (simp add: responses_of_def)
  show ?thesis
    by (cases "client_state (clients (server w) ! i)") (use sb rc rr se in \<open>auto simp: client_update_def Let_def\<close>)
qed

lemma close_not_live: "i < length (clients (server v)) \<Longrightarrow> \<not> live (clients (server (client_close i v)) ! i) st"
  by (auto simp: client_close_def upd_client_def close_socket_def live_def Let_def split: option.splits)

lemma complete_not_waiting:
  "i < length (clients (server v)) \<Longrightarrow> \<not> live (clients (server (client_request_complete io i v)) ! i) waiting"
  by (simp add: client_request_complete_def upd_client_def server_get_available_token_def live_def Let_def split: prod.split option.split)

lemma update_not_waiting:
  assumes i: "i < length (clients (server w))" and n: "\<not> live (clients (server w) ! i) waiting" "\<not> live (clients (server w) ! i) submitting"
  shows "\<not> live (clients (server (client_update io i w)) ! i) waiting"
proof -
  let ?c = "clients (server w) ! i"
  have iu: "i < length (clients (server (upd_client i c w)))" for c using i by (simp add: client_nth)
  have "client_state ?c = receiving \<Longrightarrow> \<not> live (clients (server (client_recv_tcp_request io i w)) ! i) waiting"
    using recv_cases [of w i io] n(1) client_nth(2) [OF i] close_not_live [OF i] close_not_live [OF iu] complete_not_waiting [OF iu]
    by (auto simp: live_def)
  moreover have "\<not> live (clients (server (client_send_tcp_response io i w)) ! i) waiting" if "client_state ?c = sending"
    using send_cases [OF that, of io] n(1) i close_not_live [OF i] by (auto simp: upd_client_def live_def)
  ultimately show ?thesis using n
    by (cases "client_state ?c") (auto simp: client_update_def Let_def live_def)
qed

text \<open>An update that leaves a response at the head leaves no client waiting for it at that index.\<close>

lemma update_head:
  assumes i: "tcp_inv tq tr w" "issued w \<le> 2 ^ 32" "i < 4" and r: "responses_of tr w = r # rs"
    and same: "responses_of tr (client_update io i w) = r # rs"
  shows "\<not> (live (clients (server (client_update io i w)) ! i) waiting \<and>
      rtu_token (clients (server (client_update io i w)) ! i) = rs_token r)"
proof
  let ?c = "clients (server w) ! i" and ?w' = "client_update io i w"
  let ?c' = "clients (server ?w') ! i"
  assume a: "live ?c' waiting \<and> rtu_token ?c' = rs_token r"
  have sh: "shape_inv tq tr w" and t: "token_inv tq tr w" using i by (simp_all add: tcp_inv_def)
  have rq: "response_queue (server w) = Some tr" "length (clients (server w)) = 4" using sh by (simp_all add: shape_inv_iff)
  show False
  proof (cases "live ?c waiting")
    case True
    then have e: "?w' = client_recv_rtu_response io i w" by (simp add: client_update_def live_def Let_def)
    show False
    proof (cases "rs_token r = rtu_token ?c")
      case True
      then have "responses_of tr ?w' = rs"
        using rq r unfolding e by (simp add: client_recv_rtu_response_def responses_of_def pop_response_def Let_def)
      then show False using same by simp
    next
      case False
      then have "?w' = w" using rq r unfolding e by (simp add: client_recv_rtu_response_def responses_of_def Let_def)
      then show False using a False by simp
    qed
  next
    case False
    show False
    proof (cases "live ?c submitting")
      case True
      have "rtu_token ?c \<in> set (submit_tokens (clients (server w)))"
        using True i(3) rq(2) by (auto simp: submit_tokens_def intro!: imageI)
      then have "rtu_token ?c \<noteq> rs_token r" using t r by (auto simp: token_inv_iff queue_tokens_def)
      moreover have "?w' = client_submit_rtu_request i w" using True by (simp add: client_update_def live_def Let_def)
      then have "rtu_token ?c' = rtu_token ?c" using i(3) rq(2)
        by (simp add: client_submit_rtu_request_def upd_client_def Let_def split: prod.split)
      ultimately show False using a by simp
    next
      case ns: False
      then show False using update_not_waiting [of i w io] a False i(3) rq(2) by simp
    qed
  qed
qed
lemma steps_issued: "tcp_steps tq tr w w' \<Longrightarrow> issued w \<le> issued w'"
proof (induction rule: rtranclp_induct)
  case (step y z)
  from step.hyps(2) have "issued y \<le> issued z" by cases simp_all
  then show ?case using step.IH by simp
qed simp

lemma updates_head:
  assumes i: "tcp_inv tq tr w" and r: "responses_of tr w = r # rs"
  shows "n \<le> 4 \<Longrightarrow> issued (fold (client_update io) [0..<n] w) \<le> 2 ^ 32 \<Longrightarrow>
    (\<exists>k. responses_of tr (fold (client_update io) [0..<n] w) = drop k rs) \<or>
    responses_of tr (fold (client_update io) [0..<n] w) = r # rs \<and>
    (\<forall>j < n. \<not> (live (clients (server (fold (client_update io) [0..<n] w)) ! j) waiting \<and>
       rtu_token (clients (server (fold (client_update io) [0..<n] w)) ! j) = rs_token r))"
proof (induction n)
  case 0
  then show ?case by (simp add: r)
next
  case (Suc n)
  let ?v = "fold (client_update io) [0..<n] w"
  let ?v' = "client_update io n ?v"
  have sh: "shape_inv tq tr w" using i by (simp add: tcp_inv_def)
  have steps: "tcp_steps tq tr w ?v" by (rule fold_steps [OF update_step sh]) (use Suc.prems in simp_all)
  have iv: "tcp_inv tq tr ?v" "shape_inv tq tr ?v" using steps_inv [OF steps i] by (simp_all add: tcp_inv_def)
  have st: "tcp_steps tq tr ?v ?v'" using update_step [OF iv(2), of n io] Suc.prems by (intro steps_of_step) simp
  have le: "issued ?v \<le> issued ?v'" by (rule steps_issued [OF st])
  then have isu: "issued ?v \<le> 2 ^ 32" using Suc.prems(2) by simp
  have rq: "response_queue (server ?v) = Some tr" using iv(2) by (simp add: shape_inv_iff)
  note resp = update_responses [OF rq, of io n]
  have e: "fold (client_update io) [0..<Suc n] w = ?v'" by simp
  consider (gone) k where "responses_of tr ?v = drop k rs"
    | (head) "responses_of tr ?v = r # rs" "\<forall>j < n. \<not> (live (clients (server ?v) ! j) waiting \<and> rtu_token (clients (server ?v) ! j) = rs_token r)"
    using Suc.IH Suc.prems(1) isu by auto
  then have "(\<exists>k. responses_of tr ?v' = drop k rs) \<or> responses_of tr ?v' = r # rs \<and>
      (\<forall>j < Suc n. \<not> (live (clients (server ?v') ! j) waiting \<and> rtu_token (clients (server ?v') ! j) = rs_token r))"
  proof cases
    case gone
    have "tl (drop k rs) = drop (Suc k) rs" by (simp add: drop_Suc tl_drop)
    then show ?thesis using resp gone by metis
  next
    case head
    show ?thesis
    proof (cases "responses_of tr ?v' = r # rs")
      case True
      have "\<not> (live (clients (server ?v') ! n) waiting \<and> rtu_token (clients (server ?v') ! n) = rs_token r)"
        by (rule update_head [OF iv(1) isu _ head(1) True]) (use Suc.prems in simp)
      then show ?thesis using True head(2) update_other_client [of _ n io ?v] by (auto simp: less_Suc_eq)
    next
      case False
      then have "responses_of tr ?v' = drop 0 rs" using resp head(1) by auto
      then show ?thesis by blast
    qed
  qed  then show ?case by (simp only: e)
qed

lemma accept_responses: "responses_of tr (server_accept io w) = responses_of tr w"
proof -
  have "responses_of tr (w\<lparr>open_sockets := s\<rparr>) = responses_of tr w" for s by (simp add: responses_of_def)
  then show ?thesis by (simp add: server_accept_def close_socket_def Let_def)
qed

lemma serve_consumes:
  assumes i: "tcp_inv tq tr w" and n: "issued (serve_sockets io w) \<le> 2 ^ 32" and r: "responses_of tr w = r # rs"
  shows "\<exists>k. responses_of tr (serve_sockets io w) = drop k rs"
proof -
  define w1 where "w1 = (if server_socket (server w) \<in> set (read_sockets (server w)) then server_accept io w else w)"
  define w2 where "w2 = clients_update io w1"
  have sh: "shape_inv tq tr w" using i by (simp add: tcp_inv_def)
  have 1: "tcp_steps tq tr w w1" using accept_step [OF sh, of io] by (auto simp: w1_def)
  have i1: "tcp_inv tq tr w1" by (rule steps_inv [OF 1 i])
  have sh1: "shape_inv tq tr w1" using i1 by (simp add: tcp_inv_def)
  have 2: "tcp_steps tq tr w1 w2" unfolding w2_def clients_update_def by (rule fold_steps [OF update_step sh1]) simp_all
  have sh2: "shape_inv tq tr w2" by (rule steps_shape [OF 2 sh1])
  have s: "serve_sockets io w = clean_expired_response w2" by (simp only: serve_sockets_def w1_def w2_def)
  have n2: "issued w2 \<le> 2 ^ 32" using steps_issued [OF steps_of_step [OF clean_step [OF sh2]]] n by (simp only: s)
  have r1: "responses_of tr w1 = r # rs" using r by (simp add: w1_def accept_responses)
  have rq: "response_queue (server w2) = Some tr" and len: "length (clients (server w2)) = 4" using sh2 by (simp_all add: shape_inv_iff)
  have cl: "responses_of tr (clean_expired_response w2) = responses_of tr w2 \<or>
      responses_of tr (clean_expired_response w2) = tl (responses_of tr w2)"
  proof -
    have p: "responses_of tr ((pop_response w2)\<lparr>tcp_pool := q\<rparr>) = tl (responses_of tr w2)" for q
      using rq by (simp add: pop_response_def responses_of_def Let_def)
    show ?thesis using p unfolding clean_expired_response_def Let_def
      by (cases "response_queues (kern w2) (the (response_queue (server w2)))") (simp_all only: list.case split: if_split, simp_all)
  qed
  from updates_head [OF i1 r1, of 4 io, folded clients_update_def w2_def] n2
  consider (gone) k where "responses_of tr w2 = drop k rs"
    | (head) "responses_of tr w2 = r # rs" "\<forall>j < 4. \<not> (live (clients (server w2) ! j) waiting \<and> rtu_token (clients (server w2) ! j) = rs_token r)"
    by auto
  then have "\<exists>k. responses_of tr (clean_expired_response w2) = drop k rs"
  proof cases
    case gone
    have "tl (drop k rs) = drop (Suc k) rs" by (simp add: drop_Suc tl_drop)
    then show ?thesis using cl gone by metis
  next
    case head
    then have "\<not> (\<exists>c \<in> set (clients (server w2)). socket c \<ge> 0 \<and> client_state c = waiting \<and> rtu_token c = rs_token r)"
      using len by (auto simp: in_set_conv_nth live_def)
    then have "responses_of tr (clean_expired_response w2) = drop 0 rs"
      using head(1) rq by (simp add: clean_expired_response_def responses_of_def pop_response_def Let_def)
    then show ?thesis by blast
  qed  then show ?thesis by (simp only: s)
qed

lemma update_issued: "issued (client_update io i w) \<le> Suc (issued w)"
proof -
  have cl: "issued (client_close i v) = issued v" for v by (simp add: client_close_def upd_client_def close_socket_def Let_def split: option.split)
  have co: "issued (client_request_complete io i v) \<le> Suc (issued v)" for v
    by (simp add: client_request_complete_def upd_client_def Let_def split: prod.split option.split)
  have up: "issued (upd_client i c v) = issued v" for c v by (simp add: upd_client_def)
  have rc: "issued (client_recv_tcp_request io i w) \<le> Suc (issued w)"
    using co [of "upd_client i c w" for c] by (simp add: client_recv_tcp_request_def cl up Let_def split: recv_outcome.split)
  have se: "issued (client_send_tcp_response io i w) = issued w"
    by (simp add: client_send_tcp_response_def cl up Let_def split: send_outcome.split)
  have sb: "issued (client_submit_rtu_request i w) = issued w"
    by (simp add: client_submit_rtu_request_def up Let_def split: prod.split)
  have rr: "issued (client_recv_rtu_response io i w) = issued w"
    by (simp add: client_recv_rtu_response_def up pop_response_def Let_def split: list.split)
  show ?thesis by (cases "client_state (clients (server w) ! i)") (simp_all add: client_update_def rc se sb rr Let_def)
qed

lemma updates_issued: "issued (fold (client_update io) [0..<n] w) \<le> issued w + n"
proof (induction n)
  case (Suc n)
  then show ?case using update_issued [of io n "fold (client_update io) [0..<n] w"] by simp
qed simp

lemma serve_issued: "issued (serve_sockets io w) \<le> issued w + 4"
proof -
  have a: "issued (server_accept io v) = issued v" for v
    by (simp add: server_accept_def close_socket_def Let_def split: option.split)
  have c: "issued (clean_expired_response v) = issued v" for v
    by (simp add: clean_expired_response_def pop_response_def Let_def split: list.split)
  have u: "issued (clients_update io v) \<le> issued v + 4" for v
    using updates_issued [of io 4 v] by (simp only: clients_update_def)
  show ?thesis using u [of w] u [of "server_accept io w"] unfolding serve_sockets_def Let_def c by (simp add: a)
qed

section \<open>Example run\<close>

definition example_objects :: app_objects where
  "example_objects = \<lparr>
     app_kernel = \<lparr>request_queues = \<lambda>h. [], response_queues = \<lambda>h. [], queue_capacity = \<lambda>h. 0, queue_set = None, set_pending = [], watchdog_events = 0\<rparr>,
     app_pool = \<lparr>pool_adus = replicate 6 \<lparr>adu_length = 0, adu_data = replicate 256 0\<rparr>, pool_available = replicate 6 False\<rparr>,
     app_channel = \<lparr>ch_context = ()\<rparr>,
     app_scheduler = \<lparr>rtu_channel = None, hp_request_queue = None, hp_response_queue = None, lp_request_queue = None,
       lp_response_queue = None, request_queue_set = None, consecutive_high_request_count = 0, task_handle = None\<rparr>,
     app_collector = \<lparr>collector_collection = None, collector_request_queue = None, collector_response_queue = None,
       next_deadline = replicate 16 0, publish_context_indices = replicate 16 0, next_token = 0, collector_task_handle = None,
       collector_state = MODBUS_COLLECTOR_STATE_UNINITIALIZED\<rparr>,
     app_tcp_server = \<lparr>server_state = MODBUS_TCP_SERVER_STATE_UNINITIALIZED, listener_port = 0, response_timeout_ms = 0,
       request_queue = None, response_queue = None, tcp_task_handle = None, available_token = 0, read_sockets = [], write_sockets = [],
       server_socket = 0, clients = replicate 4 zero_client\<rparr>\<rparr>"

definition example_outcomes :: app_outcomes where
  "example_outcomes = \<lparr>queues_created = True, queue_set_created = True, scheduler_task_created = True, collector_task_created = True,
     tcp_task_created = True, collector_start_tick = 0\<rparr>"

definition example_gateway :: "unit gateway" where
  "example_gateway = the (modbus_gateway_app_init example_outcomes example_objects (Some default_configuration))"

definition example_io :: "u8 list \<Rightarrow> tcp_io" where
  "example_io bytes = \<lparr>now_ms = \<lambda>i k. 0, select_result = Select_Ready, selected = \<lambda>s. True, listener_is_bad = False, client_is_bad = \<lambda>i. False,
     accept_result = 5, accept_configured = True, recv_result = \<lambda>i. Received bytes, send_result = \<lambda>i. Send_Failed True,
     listener_socket = 3, listener_ready = True\<rparr>"

definition example_ops :: "(tcp_io \<times> tcp_op) list" where
  "example_ops = (let io = example_io [0x12, 0x34, 0, 0, 0, 2, 7] in
     [(io, Op_Accept), (io, Op_Select), (io, Op_Update 0), (example_io [0x63], Op_Update 0)])"

definition run_ops_on :: "(tcp_io \<times> tcp_op) list \<Rightarrow> unit gateway \<Rightarrow> unit gateway" where
  "run_ops_on ops g = fold (\<lambda>(io, op) g. put_tcp (run_tcp_op io op (tcp_view g)) g) ops g"

lemma run_ops_on_steps: "gateway_step\<^sup>*\<^sup>* g (run_ops_on ops g)"
proof (induction ops rule: rev_induct)
  case (snoc x xs)
  then show ?case
    by (cases x) (auto simp: run_ops_on_def intro: rtranclp.rtrancl_into_rtrancl tcp_operates)
qed (simp add: run_ops_on_def)

lemma run_ops_tcp:
  "tcp_view (run_ops_on ops g) = fold (\<lambda>(io, op). run_tcp_op io op) ops (tcp_view g)"
proof (induction ops rule: rev_induct)
  case (snoc x xs)
  then show ?case by (cases x) (simp add: run_ops_on_def put_tcp_def tcp_view_def)
qed (simp add: run_ops_on_def)

text \<open>The server after its initialisation.\<close>

definition example_tcp :: tcp_world where
  "example_tcp = \<lparr>
     server = \<lparr>server_state = MODBUS_TCP_SERVER_STATE_RUNNING, listener_port = 502, response_timeout_ms = 1000,
       request_queue = Some 0, response_queue = Some 1, tcp_task_handle = Some (), available_token = 0, read_sockets = [],
       write_sockets = [], server_socket = - 1, clients = replicate 4 (zero_client\<lparr>socket := - 1\<rparr>)\<rparr>,
     kern = \<lparr>request_queues = \<lambda>h. [], response_queues = \<lambda>h. [], queue_capacity = \<lambda>h. if h < 4 then 1 else 0,
       queue_set = Some (2, [0, 2]), set_pending = [], watchdog_events = 0\<rparr>,
     tcp_pool = \<lparr>pool_adus = replicate 6 \<lparr>adu_length = 0, adu_data = replicate 256 0\<rparr>, pool_available = replicate 6 True\<rparr>,
     open_sockets = [], tcp_out = [], issued = 0\<rparr>"

lemma default_fields:
  "point_count (collection default_configuration) = 0" "listen_port default_configuration = 502"
  "rtu_first_byte_timeout_ms (rtu default_configuration) = 1000"
  by (simp_all add: default_configuration_def configuration_set_defaults_def zero_configuration_def Let_def)

lemma started_example:
  "modbus_gateway_app_init example_outcomes example_objects (Some default_configuration) = Some example_gateway"
  "tcp_view example_gateway = example_tcp"
  "task_handle (sched (gw_scheduler example_gateway)) = Some ()"
proof -
  have k: "modbus_rtu_adu_pool_init \<lparr>pool_adus = replicate 6 a, pool_available = replicate 6 False\<rparr> =
      \<lparr>pool_adus = replicate 6 a, pool_available = replicate 6 True\<rparr>" if "adu_length a = 0" for a
    using that by (cases a) (simp add: modbus_rtu_adu_pool_init_def upt_rec numeral_eq_Suc)
  have q: "(\<lambda>h. 0 :: nat)(0 := Suc 0, Suc 0 := Suc 0, 2 := Suc 0, 3 := Suc 0) = (\<lambda>h. if h < (4 :: nat) then 1 else 0)"
    "(\<lambda>h. [])(i := []) = (\<lambda>h. [] :: 'a list)" for i :: nat
    by (auto simp: fun_eq_iff)
  obtain g where g: "modbus_gateway_app_init example_outcomes example_objects (Some default_configuration) = Some g" "tcp_view g = example_tcp"
      "task_handle (sched (gw_scheduler g)) = Some ()"
    by (simp add: modbus_gateway_app_init_def Let_def modbus_rtu_channel_init_def k modbus_rtu_transaction_scheduler_start_def
        modbus_rtu_transaction_scheduler_bind_queue_def modbus_rtu_transaction_scheduler_init_def modbus_collector_init_def default_fields
        modbus_tcp_server_init_def example_outcomes_def example_objects_def create_queues_def gateway_queues_def xQueueAddToSet_def
        uxQueueSpacesAvailable_def tcp_view_def example_tcp_def q)
  then show "modbus_gateway_app_init example_outcomes example_objects (Some default_configuration) = Some example_gateway"
    "tcp_view example_gateway = example_tcp" "task_handle (sched (gw_scheduler example_gateway)) = Some ()"
    by (simp_all add: example_gateway_def)
qed

lemma tcp_view_clients: "server (gw_tcp g) = server (tcp_view g)" "issued (gw_tcp g) = issued (tcp_view g)"
  by (simp_all add: tcp_view_def)

lemma example_run_tcp:
  "let w = fold (\<lambda>(io, op). run_tcp_op io op) example_ops example_tcp; c = clients (server w) ! 0 in
     issued w = 0 \<and> length (clients (server w)) = 4 \<and>
     socket c = 5 \<and> client_state c = sending \<and> take (send_length c) (send_buffer c) = [0x12, 0x34, 0, 0, 0, 3, 7, 0xE3, 1]"
  by code_simp

lemma example_sending:
  "let g = run_ops_on example_ops example_gateway; c = clients (server (gw_tcp g)) ! 0 in
     issued (gw_tcp g) = 0 \<and> length (clients (server (gw_tcp g))) = 4 \<and>
     socket c = 5 \<and> client_state c = sending \<and> take (send_length c) (send_buffer c) = [0x12, 0x34, 0, 0, 0, 3, 7, 0xE3, 1]"
  using example_run_tcp by (simp only: Let_def tcp_view_clients run_ops_tcp started_example)
lemma example_run: "gateway_run tls example_outcomes example_objects default_configuration (run_ops_on ops example_gateway)"
proof -
  have z: "objects_zeroed example_objects" by (simp add: objects_zeroed_def example_objects_def pool_wf_def adu_wf_def)
  show ?thesis using default_OK z run_ops_on_steps [of example_gateway ops] started_example(1)
    by (auto simp: gateway_run_def)
qed

section \<open>A point polled and published\<close>

text \<open>A configuration with one point, a register of unit 1, and a TLS library that accepts its certificate.\<close>

definition accepting_tls :: mbedtls_api where
  "accepting_tls = \<lparr>
     x509_crt_parse = \<lambda>bytes. (0, \<lparr>crt_next = False, ca_istrue = 1, subject_raw = [1], issuer_raw = [1], crt_tbs = [], sig_md = 0,
       sig_pk = 0, crt_pk = [], crt_sig = []\<rparr>),
     x509_crt_check_key_cert_sign = \<lambda>crt. 0, md_info_from_type = \<lambda>n. Some n, pk_can_do = \<lambda>k n. True, md_digest = \<lambda>n xs. (0, []),
     pk_verify_ext = \<lambda>crt xs. 0\<rparr>"

definition short_text :: configuration_text_t where
  "short_text = \<lparr>text_length = 1, text_bytes = [0x61, 0]\<rparr>"

definition polling_configuration :: configuration_t where
  "polling_configuration =
     \<lparr>network = \<lparr>network_mode = CONFIGURATION_NETWORK_MODE_DHCP, ip_address = 0, subnet_mask = 0, network_gateway = 0, dns_primary = 0, dns_secondary = 0\<rparr>,
      rtu = \<lparr>baud_rate = 9600, frame_format = CONFIGURATION_FRAME_FORMAT_8N2, rtu_first_byte_timeout_ms = 1000\<rparr>,
      listen_port = 502,
      sntp_servers = sntp_servers default_configuration,
      mqtt = \<lparr>mqtt_mode = CONFIGURATION_MQTT_MODE_ENABLED, broker_address = short_text, broker_port = 8883,
        client_id = \<lparr>client_id_mode = CONFIGURATION_CLIENT_ID_MODE_DERIVED, explicit_value = short_text\<rparr>,
        username = short_text, password = short_text, ca_certificate_pem = short_text, keep_alive_seconds = 60,
        online_message = \<lparr>message_mode = CONFIGURATION_MQTT_MESSAGE_MODE_DISABLED, message_topic = short_text, message_payload = short_text,
          message_qos = 0, message_retain = 0\<rparr>,
        will_message = \<lparr>message_mode = CONFIGURATION_MQTT_MESSAGE_MODE_DISABLED, message_topic = short_text, message_payload = short_text,
          message_qos = 0, message_retain = 0\<rparr>\<rparr>,
      collection = \<lparr>point_count = 1, points = [\<lparr>slave_address = 1, point_source = CONFIGURATION_COLLECTION_SOURCE_HOLDING_REGISTER,
        point_address = 0, point_data_type = CONFIGURATION_DATA_TYPE_INT16, poll_interval_ms = 1000, point_first_byte_timeout_ms = 100,
        point_topic = short_text, point_qos = 1\<rparr>]\<rparr>\<rparr>"

lemma polling_valid: "configuration_validate accepting_tls (Some polling_configuration) = CONFIGURATION_VALIDATION_OK"
proof -
  have s: "endpoint_address_is_valid (sntp_servers default_configuration ! 0)" "endpoint_address_is_valid (sntp_servers default_configuration ! 1)"
    "\<not> endpoint_addresses_equal (sntp_servers default_configuration ! 0) (sntp_servers default_configuration ! 1)"
    using default_OK [of accepting_tls] by (simp_all add: validate_OK)
  have "ca_certificate_is_valid accepting_tls short_text = CONFIGURATION_VALIDATION_OK" by code_simp
  moreover have "network_is_valid (network polling_configuration)"
    by (simp add: polling_configuration_def network_is_valid_def)
  moreover have "mqtt_fields_are_valid (mqtt polling_configuration)"
    by (simp add: polling_configuration_def) code_simp
  moreover have "collection_points_are_valid (mqtt polling_configuration) (collection polling_configuration)"
    by (simp add: polling_configuration_def) code_simp
  moreover have "rtu_collection_bus_utilization_is_within_limit polling_configuration"
  proof -
    let ?c = "polling_configuration\<lparr>sntp_servers := []\<rparr>"
    have "rtu_collection_bus_utilization_is_within_limit ?c = rtu_collection_bus_utilization_is_within_limit polling_configuration"
      by (simp add: rtu_collection_bus_utilization_is_within_limit_def)
    moreover have "rtu_collection_bus_utilization_is_within_limit ?c"
      by (simp add: polling_configuration_def) code_simp
    ultimately show ?thesis by simp
  qed
  ultimately show ?thesis using s
    by (simp add: validate_OK) (simp add: polling_configuration_def baud_rate_is_valid_def frame_format_is_valid_def)
qed
text \<open>The answer of the slave: register value -2.\<close>

definition example_slave :: "unit rs485_transceive" where
  "example_slave ctx req n buf t = (MODBUS_RTU_RS485_PORT_RESULT_OK, overwrite 0 [1, 3, 2, 0xFF, 0xFE, 0x78, 0x34] (take 256 (buf @ replicate 256 0)), 7)"

definition collector_turn :: "unit gateway \<Rightarrow> unit gateway" where
  "collector_turn g = put_collector (collector_task \<lparr>tick_now = 0, tick_done = 20, publish_accepted = True, payload_cell = replicate 7 0,
     payload_length_cell = 0\<rparr> (gw_place g, collector_view g)) g"

definition scheduler_turn :: "unit gateway \<Rightarrow> unit gateway" where
  "scheduler_turn g = put_scheduler (snd (transaction_scheduler_iteration example_slave \<lparr>adu_length = 0, adu_data = replicate 256 0\<rparr>
     \<lparr>rq_token = 0, rq_response_timeout_ms = 0, rq_rtu_adu = 0\<rparr> (scheduler_view g))) g"

definition polled :: "configuration_t \<Rightarrow> unit gateway" where
  "polled cfg = collector_turn (scheduler_turn (collector_turn (collector_turn
     (the (modbus_gateway_app_init example_outcomes example_objects (Some cfg))))))"

lemma app_init_cong: "modbus_gateway_app_init out objects (Some (cfg\<lparr>sntp_servers := s\<rparr>)) = modbus_gateway_app_init out objects (Some cfg)"
proof -
  have f: "collection (cfg\<lparr>sntp_servers := s\<rparr>) = collection cfg" "listen_port (cfg\<lparr>sntp_servers := s\<rparr>) = listen_port cfg"
    "rtu (cfg\<lparr>sntp_servers := s\<rparr>) = rtu cfg" by simp_all
  show ?thesis unfolding modbus_gateway_app_init_def option.case f by (rule refl)
qed

lemma polled_value:
  "let g = polled polling_configuration in
     map pub_payload (published (gw_collector g)) = [[45, 50]] \<and> logged (gw_collector g) = [] \<and> next_deadline (collector (gw_collector g)) ! 0 = 1000"
  "case modbus_gateway_app_init example_outcomes example_objects (Some polling_configuration) of None \<Rightarrow> False
     | Some g \<Rightarrow> collector_state (collector (gw_collector g)) = MODBUS_COLLECTOR_STATE_RUNNING \<and> task_handle (sched (gw_scheduler g)) = Some ()"
proof -
  let ?c = "polling_configuration\<lparr>sntp_servers := []\<rparr>"
  have "let g = polled ?c in
     map pub_payload (published (gw_collector g)) = [[45, 50]] \<and> logged (gw_collector g) = [] \<and> next_deadline (collector (gw_collector g)) ! 0 = 1000"
    by (simp add: polling_configuration_def del: Let_def) code_simp
  then show "let g = polled polling_configuration in
     map pub_payload (published (gw_collector g)) = [[45, 50]] \<and> logged (gw_collector g) = [] \<and> next_deadline (collector (gw_collector g)) ! 0 = 1000"
    by (simp add: polled_def app_init_cong)
  have "case modbus_gateway_app_init example_outcomes example_objects (Some ?c) of None \<Rightarrow> False
     | Some g \<Rightarrow> collector_state (collector (gw_collector g)) = MODBUS_COLLECTOR_STATE_RUNNING \<and> task_handle (sched (gw_scheduler g)) = Some ()"
    by (simp add: polling_configuration_def del: Let_def) code_simp
  then show "case modbus_gateway_app_init example_outcomes example_objects (Some polling_configuration) of None \<Rightarrow> False
     | Some g \<Rightarrow> collector_state (collector (gw_collector g)) = MODBUS_COLLECTOR_STATE_RUNNING \<and> task_handle (sched (gw_scheduler g)) = Some ()"
    by (simp only: app_init_cong)
qed

lemma collector_task_state: "collector_state (collector (snd (collector_task io (pl, w)))) = collector_state (collector w)"
proof -
  have f: "collector_state (collector (snd (finish_point io i v))) = collector_state (collector v)" for i v
    by (simp add: finish_point_def)
  show ?thesis
    by (cases pl)
      (simp_all add: begin_point_def submit_point_def await_response_def f process_frame Let_def split: prod.split option.split list.split)
qed

lemma collector_turn_step:
  assumes "collector_state (collector (gw_collector g)) = MODBUS_COLLECTOR_STATE_RUNNING"
  shows "gateway_step g (collector_turn g)" "collector_state (collector (gw_collector (collector_turn g))) = MODBUS_COLLECTOR_STATE_RUNNING"
    "gw_scheduler (collector_turn g) = gw_scheduler g"
  using assms collector_turns [of g "\<lparr>tick_now = 0, tick_done = 20, publish_accepted = True, payload_cell = replicate 7 0,
     payload_length_cell = 0\<rparr>"]
  by (simp_all add: collector_turn_def put_collector_def collector_task_state)

lemma scheduler_turn_step:
  assumes "task_handle (sched (gw_scheduler g)) = Some ()"
  shows "gateway_step g (scheduler_turn g)" "gw_collector (scheduler_turn g) = gw_collector g"
proof -
  let ?t = "transaction_scheduler_iteration example_slave \<lparr>adu_length = 0, adu_data = replicate 256 0\<rparr>
     \<lparr>rq_token = 0, rq_response_timeout_ms = 0, rq_rtu_adu = 0\<rparr> (scheduler_view g)"
  show "gateway_step g (scheduler_turn g)" unfolding scheduler_turn_def
    by (rule scheduler_iterates [OF _ assms _ prod.collapse [symmetric]]) (auto simp: example_slave_def adu_wf_def)
  show "gw_collector (scheduler_turn g) = gw_collector g" by (simp add: scheduler_turn_def put_scheduler_def)
qed

lemma polled_run: "gateway_run accepting_tls example_outcomes example_objects polling_configuration (polled polling_configuration)"
proof -
  obtain g0 where g0: "modbus_gateway_app_init example_outcomes example_objects (Some polling_configuration) = Some g0"
    "collector_state (collector (gw_collector g0)) = MODBUS_COLLECTOR_STATE_RUNNING" "task_handle (sched (gw_scheduler g0)) = Some ()"
    using polled_value(2) by (auto split: option.splits)
  let ?g2 = "collector_turn (collector_turn g0)"
  note 1 = collector_turn_step [OF g0(2)]
  note 2 = collector_turn_step [OF 1(2)]
  have "task_handle (sched (gw_scheduler ?g2)) = Some ()" using g0(3) 1(3) 2(3) by simp
  note 3 = scheduler_turn_step [OF this]
  have "collector_state (collector (gw_collector (scheduler_turn ?g2))) = MODBUS_COLLECTOR_STATE_RUNNING" using 2(2) 3(2) by simp
  note 4 = collector_turn_step(1) [OF this]
  have p: "polled polling_configuration = collector_turn (scheduler_turn ?g2)" by (simp add: polled_def g0(1))
  have "gateway_step\<^sup>*\<^sup>* g0 (polled polling_configuration)" unfolding p
    using 1(1) 2(1) 3(1) 4 by (meson converse_rtranclp_into_rtranclp rtranclp.rtrancl_refl)
  moreover have "objects_zeroed example_objects" by (simp add: objects_zeroed_def example_objects_def pool_wf_def adu_wf_def)
  ultimately show ?thesis using polling_valid g0(1) by (auto simp: gateway_run_def)
qed
section \<open>A request submitted and answered\<close>

text \<open>A client asks unit 1 for a holding register; its request arrives in two parts and is submitted.\<close>

definition submit_ops :: "(tcp_io \<times> tcp_op) list" where
  "submit_ops = (let io = example_io [0x12, 0x34, 0, 0, 0, 6, 1] in
     [(io, Op_Accept), (io, Op_Select), (io, Op_Update 0), (example_io [3, 0, 0, 0, 1], Op_Update 0), (io, Op_Update 0)])"

lemma submitted_tcp:
  "let w = fold (\<lambda>(io, op). run_tcp_op io op) submit_ops example_tcp in
     request_queues (kern w) 0 = [\<lparr>rq_token = 0, rq_response_timeout_ms = 1000, rq_rtu_adu = 0\<rparr>] \<and> request_queues (kern w) 2 = [] \<and>
     response_queues (kern w) 1 = [] \<and> issued w = 1"
  by code_simp
definition no_answer :: "unit rs485_transceive" where
  "no_answer ctx req n buf t = (MODBUS_RTU_RS485_PORT_RESULT_SLAVE_TIMEOUT, buf, 0)"

definition answered :: "unit gateway" where
  "answered = (let g = run_ops_on submit_ops example_gateway in
     put_scheduler (snd (transaction_scheduler_iteration no_answer \<lparr>adu_length = 0, adu_data = replicate 256 0\<rparr>
       \<lparr>rq_token = 0, rq_response_timeout_ms = 0, rq_rtu_adu = 0\<rparr> (scheduler_view g))) g)"

lemma example_scheduler: "task_handle (sched (gw_scheduler (run_ops_on ops example_gateway))) = Some ()"
proof -
  have "gw_scheduler (run_ops_on ops g) = gw_scheduler g" for g
    by (induction ops rule: rev_induct) (auto simp: run_ops_on_def put_tcp_def)
  then show ?thesis by (simp add: started_example(3))
qed

lemma answered_facts:
  "gateway_run tls example_outcomes example_objects default_configuration answered"
  "length (responses_of (hr gateway_queues) (tcp_view answered)) = 1" "issued (gw_tcp answered) = 1"
proof -
  define g where "g = run_ops_on submit_ops example_gateway"
  define tmp where "tmp = \<lparr>adu_length = 0, adu_data = replicate 256 (0 :: u8)\<rparr>"
  define r0 where "r0 = \<lparr>rq_token = 0, rq_response_timeout_ms = 0, rq_rtu_adu = 0\<rparr>"
  define t where "t = transaction_scheduler_iteration no_answer tmp r0 (scheduler_view g)"
  have an: "answered = put_scheduler (snd t) g" by (simp only: answered_def t_def tmp_def r0_def g_def Let_def)
  have run: "gateway_run tls example_outcomes example_objects default_configuration g"
    unfolding g_def by (rule example_run)
  have "gateway_step g answered" unfolding an
    by (rule scheduler_iterates [OF _ _ _ prod.collapse [symmetric, of t, unfolded t_def], folded t_def])
      (auto simp: no_answer_def tmp_def adu_wf_def g_def example_scheduler)
  then show "gateway_run tls example_outcomes example_objects default_configuration answered"
    using run by (auto simp: gateway_run_def intro: rtranclp.rtrancl_into_rtrancl)
  have v: "request_queues (gw_kernel g) 0 = [\<lparr>rq_token = 0, rq_response_timeout_ms = 1000, rq_rtu_adu = 0\<rparr>]"
    "request_queues (gw_kernel g) 2 = []" "response_queues (gw_kernel g) 1 = []" "issued (gw_tcp g) = 1"
    using submitted_tcp by (simp_all only: Let_def started_example(2) [symmetric] run_ops_tcp [symmetric] g_def [symmetric])
      (simp_all add: tcp_view_def)
  have inv: "sched_inv gateway_queues (scheduler_view g)" using gateway_run_inv [OF run] by (simp add: gateway_inv_def)
  have k: "kernel (scheduler_view g) = gw_kernel g" by (simp add: scheduler_view_def)
  have abs: "sched_abs gateway_queues (scheduler_view g) =
      \<lparr>spec_high = [\<lparr>rq_token = 0, rq_response_timeout_ms = 1000, rq_rtu_adu = 0\<rparr>], spec_low = [],
       spec_credit = min 2 (unat (consecutive_high_request_count (sched (scheduler_view g))))\<rparr>"
    by (simp add: sched_abs_def k v gateway_queues_def)
  obtain a where sp: "spec_serve (sched_abs gateway_queues (scheduler_view g)) =
      Some (MODBUS_RTU_TRANSACTION_SCHEDULER_PRIORITY_HIGH, \<lparr>rq_token = 0, rq_response_timeout_ms = 1000, rq_rtu_adu = 0\<rparr>, a)"
    unfolding abs by (simp add: spec_serve_def)
  have q: "response_queues (kernel (scheduler_view g)) (hr gateway_queues) = []" using v(3) by (simp add: k gateway_queues_def)
  have "length (response_queues (kernel (snd t)) (hr gateway_queues)) = 1"
    using iteration_step_raw [OF inv prod.collapse [symmetric, of t, unfolded t_def], folded t_def]
    unfolding sp by (simp add: q Let_def split: prod.splits)
  then show "length (responses_of (hr gateway_queues) (tcp_view answered)) = 1"
    by (simp add: an responses_of_def tcp_view_def put_scheduler_def)
  show "issued (gw_tcp answered) = 1" using v(4) by (simp add: an put_scheduler_def)
qed


section \<open>Properties\<close>


text \<open>
  C2. No ADU leaks and none is shared: in every state the gateway can reach, the six ADUs of the pool are
  divided, without overlap, between the free ones, those of the TCP server (clients about to submit and
  the entries of its two queues, each ADU once) and that of the collector, which holds at most one.
\<close>

theorem adus_partitioned:
  assumes "gateway_run tls out objects cfg g"
  shows "let tcp_adus = owned (hq gateway_queues) (hr gateway_queues) (tcp_view g);
      collector = collector_adus gateway_queues (gw_place g) (gw_kernel g); free = free_adus (gw_pool g) in
    distinct tcp_adus \<and> set tcp_adus \<union> set collector \<union> free = {0..<6} \<and> set tcp_adus \<inter> set collector = {} \<and>
    set tcp_adus \<inter> free = {} \<and> set collector \<inter> free = {} \<and> length collector \<le> 1"
proof -
  note i = gateway_run_inv [OF assms]
  note f = gateway_facts [OF i]
  have "distinct (owned (hq gateway_queues) (hr gateway_queues) (tcp_view g))"
    using i by (simp add: gateway_inv_def tcp_inv_def shape_inv_iff)
  moreover have "length (collector_adus gateway_queues (gw_place g) (gw_kernel g)) \<le> 1"
    using i by (cases "gw_place g") (auto simp: gateway_inv_def)
  ultimately show ?thesis using f pool.free_subset [OF f(1)] unfolding Let_def f(3) [symmetric] by blast
qed

theorem adus_partitioned_witness:
  "set (owned 0 1 (tcp_view (run_ops_on example_ops example_gateway))) \<inter> free_adus (gw_pool (run_ops_on example_ops example_gateway)) = {}"
  using adus_partitioned [OF example_run [of undefined example_ops]] by (simp add: Let_def gateway_queues_def)





text \<open>
  C37. The buffers of an open connection are typed as declared: in every reachable state each client's
  buffers have their 260 bytes, what was received fits and leaves room for what the next \<open>recv\<close> asks for
  (at least one byte, never past the buffer), and what is sent lies inside the send buffer.
\<close>

theorem tcp_buffers_in_bounds:
  assumes "gateway_run tls out objects cfg g" "c \<in> set (clients (server (gw_tcp g)))" "socket c \<ge> 0"
  shows "length (recv_buffer c) = MODBUS_TCP_ADU_MAX_LENGTH \<and> length (send_buffer c) = MODBUS_TCP_ADU_MAX_LENGTH \<and>
    recv_count c \<le> MODBUS_TCP_ADU_MAX_LENGTH \<and>
    (client_state c = MODBUS_TCP_SERVER_CLIENT_STATE_RECEIVING_TCP_REQUEST \<longrightarrow>
       (let wanted = if recv_count c < MODBUS_TCP_ADU_MBAP_HEADER_LENGTH then MODBUS_TCP_ADU_MBAP_HEADER_LENGTH - recv_count c
                     else unat (get_length_field (recv_buffer c)) + 6 - recv_count c
        in 0 < wanted \<and> recv_count c + wanted \<le> MODBUS_TCP_ADU_MAX_LENGTH)) \<and>
    (client_state c = MODBUS_TCP_SERVER_CLIENT_STATE_SENDING_TCP_RESPONSE \<longrightarrow>
       send_offset c < send_length c \<and> send_length c \<le> MODBUS_TCP_ADU_MAX_LENGTH)"
proof -
  have ok: "client_ok c"
    using gateway_run_inv [OF assms(1)] assms(2) by (auto simp: gateway_inv_def tcp_inv_def shape_inv_iff tcp_view_def list_all_iff)
  then show ?thesis using assms(3) header_bounds [of "recv_buffer c"]
    by (cases "client_state c") (auto simp: client_ok_def live_def Let_def)
qed

theorem tcp_buffers_in_bounds_witness:
  "send_length (clients (server (gw_tcp (run_ops_on example_ops example_gateway))) ! 0) \<le> 260"
  using tcp_buffers_in_bounds [OF example_run [of undefined example_ops],
    of "clients (server (gw_tcp (run_ops_on example_ops example_gateway))) ! 0"] example_sending
  by (simp add: Let_def)



end
