(* ===== verification/RS485_Port.thy ===== *)
theory RS485_Port
  imports Configuration Modbus_RTU Internal_Flash
begin

text \<open>
  Model of \<open>app/Modbus/src/modbus_rtu_rs485_port.c\<close>: one Modbus RTU transaction on the RS485 line, by DMA, three binary
  semaphores and the interrupts of the serial interface, the DMA stream and a one-pulse timer, together with the
  functions of \<open>stm32f4xx_hal_uart.c\<close> and \<open>stm32f4xx_hal_tim.c\<close> it runs on.
\<close>

section \<open>The serial interface and the timer\<close>

datatype HAL_UART_StateTypeDef = HAL_UART_STATE_READY | HAL_UART_STATE_BUSY_TX | HAL_UART_STATE_BUSY_RX

datatype rs485_phase_t = RS485_PHASE_IDLE | RS485_PHASE_WAITING_TX_READY | RS485_PHASE_TRANSMITTING | RS485_PHASE_RECEIVING

text \<open>
  The fields of \<open>huart3\<close> and \<open>htim7\<close> and the register bits the code below uses, the three binary semaphores, the
  driver-enable pin and the static variables of the file. \<open>pRxBuffPtr\<close> is an index into the response buffer;
  \<open>dma_tx\<close>: the transmit stream is enabled; \<open>counting\<close>: the timer, a one-pulse timer of 1 us, is.
\<close>

record rs485 =
  gState :: HAL_UART_StateTypeDef
  RxState :: HAL_UART_StateTypeDef
  ErrorCode :: u32
  pRxBuffPtr :: nat
  RxXferCount :: u16
  init_baud_rate :: u32
  word_length_9b :: bool
  stop_bits_2 :: bool
  parity_none :: bool
  RXNEIE :: bool
  PEIE :: bool
  EIE :: bool
  TCIE :: bool
  DMAT :: bool
  dma_tx :: bool
  tim_ready :: bool
  counting :: bool
  ARR :: u32
  de_pin :: bool
  send_completed_semaphore :: bool
  recv_completed_semaphore :: bool
  first_byte_semaphore :: bool
  rx_length :: u16
  rx_buffer :: "u8 list ptr"
  port_baud_rate :: u32
  port_frame_format :: u8
  port_phase :: rs485_phase_t
  transmit_successful :: bool
  received_successful :: bool

abbreviation "HAL_UART_ERROR_NONE \<equiv> (0x00 :: u32)"
abbreviation "HAL_UART_ERROR_PE \<equiv> (0x01 :: u32)"
abbreviation "HAL_UART_ERROR_NE \<equiv> (0x02 :: u32)"
abbreviation "HAL_UART_ERROR_FE \<equiv> (0x04 :: u32)"
abbreviation "HAL_UART_ERROR_ORE \<equiv> (0x08 :: u32)"
abbreviation "HAL_UART_ERROR_DMA \<equiv> (0x10 :: u32)"
abbreviation "USART_SR_PE \<equiv> (0x01 :: u32)"
abbreviation "USART_SR_FE \<equiv> (0x02 :: u32)"
abbreviation "USART_SR_NE \<equiv> (0x04 :: u32)"
abbreviation "USART_SR_ORE \<equiv> (0x08 :: u32)"
abbreviation "USART_SR_RXNE \<equiv> (0x20 :: u32)"
abbreviation "USART_SR_TC \<equiv> (0x40 :: u32)"

definition UART_Start_Receive_IT :: "nat \<Rightarrow> u16 \<Rightarrow> rs485 \<Rightarrow> HAL_StatusTypeDef \<times> rs485" where
  "UART_Start_Receive_IT pData Size s =
     (HAL_OK, s\<lparr>pRxBuffPtr := pData, RxXferCount := Size, ErrorCode := HAL_UART_ERROR_NONE, RxState := HAL_UART_STATE_BUSY_RX,
        PEIE := PEIE s \<or> \<not> parity_none s, EIE := True, RXNEIE := True\<rparr>)"

text \<open>The pointer \<open>pData\<close> is \<open>&rx_buffer[i]\<close>, and \<open>NULL\<close> when \<open>rx_buffer\<close> is and \<open>i\<close> is 0.\<close>

definition HAL_UART_Receive_IT :: "u16 \<Rightarrow> u16 \<Rightarrow> rs485 \<Rightarrow> HAL_StatusTypeDef \<times> rs485" where
  "HAL_UART_Receive_IT i Size s =
     (if RxState s = HAL_UART_STATE_READY
      then if (rx_buffer s = None \<and> i = 0) \<or> Size = 0 then (HAL_ERROR, s) else UART_Start_Receive_IT (unat i) Size s
      else (HAL_BUSY, s))"

text \<open>\<open>dma_started\<close> is the outcome of \<open>HAL_DMA_Start_IT\<close>; \<open>pData\<close> is not \<open>NULL\<close>.\<close>

definition HAL_UART_Transmit_DMA :: "bool \<Rightarrow> u16 \<Rightarrow> rs485 \<Rightarrow> HAL_StatusTypeDef \<times> rs485" where
  "HAL_UART_Transmit_DMA dma_started Size s =
     (if gState s = HAL_UART_STATE_READY
      then if Size = 0 then (HAL_ERROR, s)
           else if \<not> dma_started then (HAL_ERROR, s\<lparr>ErrorCode := HAL_UART_ERROR_DMA, gState := HAL_UART_STATE_READY\<rparr>)
           else (HAL_OK, s\<lparr>ErrorCode := HAL_UART_ERROR_NONE, gState := HAL_UART_STATE_BUSY_TX, dma_tx := True, DMAT := True\<rparr>)
      else (HAL_BUSY, s))"

text \<open>\<open>dma_timeout\<close>: the stream does not report its end in time. Its interrupts are off in any case.\<close>

definition HAL_UART_AbortTransmit :: "bool \<Rightarrow> rs485 \<Rightarrow> HAL_StatusTypeDef \<times> rs485" where
  "HAL_UART_AbortTransmit dma_timeout s =
     (let s1 = s\<lparr>TCIE := False\<rparr>
      in if DMAT s1 \<and> dma_tx s1 \<and> dma_timeout
         then (HAL_TIMEOUT, s1\<lparr>DMAT := False, dma_tx := False, ErrorCode := HAL_UART_ERROR_DMA\<rparr>)
         else (HAL_OK, (if DMAT s1 then s1\<lparr>DMAT := False, dma_tx := False\<rparr> else s1)\<lparr>gState := HAL_UART_STATE_READY\<rparr>))"

definition HAL_UART_AbortReceive :: "rs485 \<Rightarrow> HAL_StatusTypeDef \<times> rs485" where
  "HAL_UART_AbortReceive s =
     (HAL_OK, s\<lparr>RXNEIE := False, PEIE := False, EIE := False, RxXferCount := 0, RxState := HAL_UART_STATE_READY\<rparr>)"

definition HAL_UART_Abort :: "bool \<Rightarrow> rs485 \<Rightarrow> HAL_StatusTypeDef \<times> rs485" where
  "HAL_UART_Abort dma_timeout s =
     (let s1 = s\<lparr>RXNEIE := False, PEIE := False, TCIE := False, EIE := False\<rparr>
      in if DMAT s1 \<and> dma_tx s1 \<and> dma_timeout
         then (HAL_TIMEOUT, s1\<lparr>DMAT := False, dma_tx := False, ErrorCode := HAL_UART_ERROR_DMA\<rparr>)
         else (HAL_OK, (if DMAT s1 then s1\<lparr>DMAT := False, dma_tx := False\<rparr> else s1)
                \<lparr>RxXferCount := 0, ErrorCode := HAL_UART_ERROR_NONE, RxState := HAL_UART_STATE_READY, gState := HAL_UART_STATE_READY\<rparr>))"

definition HAL_TIM_Base_Stop :: "rs485 \<Rightarrow> HAL_StatusTypeDef \<times> rs485" where
  "HAL_TIM_Base_Stop s = (HAL_OK, s\<lparr>counting := False, tim_ready := True\<rparr>)"

definition HAL_TIM_Base_Start_IT :: "rs485 \<Rightarrow> HAL_StatusTypeDef \<times> rs485" where
  "HAL_TIM_Base_Start_IT s =
     (if \<not> tim_ready s then (HAL_ERROR, s) else (HAL_OK, s\<lparr>tim_ready := False, counting := True\<rparr>))"

section \<open>The port\<close>

definition rtu_baud_rate_to_t35_us :: "u32 \<Rightarrow> u32" where
  "rtu_baud_rate_to_t35_us rate =
     (if rate = 1200 then 32084 else if rate = 2400 then 16042 else if rate = 4800 then 8021 else if rate = 9600 then 4011
      else if rate = 19200 then 2006 else if rate = 38400 \<or> rate = 57600 \<or> rate = 115200 then 1750 else 0)"

abbreviation "configTICK_RATE_HZ \<equiv> (1000 :: u64)"
abbreviation "RS485_TX_TIMEOUT_GUARD_MS \<equiv> (500 :: u64)"

text \<open>\<open>None\<close>: the code ends in \<open>Error_Handler\<close>, which disables interrupts and loops.\<close>

definition rs485_calculate_tx_timeout_ticks :: "u16 \<Rightarrow> rs485 \<Rightarrow> u32 option" where
  "rs485_calculate_tx_timeout_ticks count s =
     (let ticks = (\<lambda>bits_per_character :: u32.
            let transmission_ticks = (ucast count * ucast bits_per_character * configTICK_RATE_HZ + ucast (port_baud_rate s) - 1) div ucast (port_baud_rate s);
                guard_ticks = (RS485_TX_TIMEOUT_GUARD_MS * configTICK_RATE_HZ + 999) div 1000
            in ucast (transmission_ticks + guard_ticks))
      in if port_frame_format s = CONFIGURATION_FRAME_FORMAT_8N1 then Some (ticks 10)
         else if port_frame_format s = CONFIGURATION_FRAME_FORMAT_8E1 \<or> port_frame_format s = CONFIGURATION_FRAME_FORMAT_8O1 \<or>
           port_frame_format s = CONFIGURATION_FRAME_FORMAT_8N2 then Some (ticks 11)
         else None)"

definition timer_set :: "u16 \<Rightarrow> rs485 \<Rightarrow> rs485 option" where
  "timer_set timeout_us s =
     (let timeout = (if timeout_us = 0 then 1 else timeout_us);
          s1 = (snd (HAL_TIM_Base_Stop s))\<lparr>ARR := ucast timeout - 1\<rparr>;
          (status, s2) = HAL_TIM_Base_Start_IT s1
      in if status \<noteq> HAL_OK then None else Some s2)"

definition timer_stop :: "rs485 \<Rightarrow> rs485" where
  "timer_stop s = snd (HAL_TIM_Base_Stop s)"

definition rs485_uart_tx_complete_callback :: "rs485 \<Rightarrow> rs485 option" where
  "rs485_uart_tx_complete_callback s =
     (let s1 = s\<lparr>transmit_successful := True, rx_length := 0, port_phase := RS485_PHASE_RECEIVING\<rparr>;
          (status, s2) = HAL_UART_Receive_IT (rx_length s1) 1 s1;
          s3 = (if status \<noteq> HAL_OK
                then s2\<lparr>received_successful := False, first_byte_semaphore := True, recv_completed_semaphore := True\<rparr> else s2)
      in Some (s3\<lparr>de_pin := False, send_completed_semaphore := True\<rparr>))"

definition rs485_uart_rx_complete_callback :: "rs485 \<Rightarrow> rs485 option" where
  "rs485_uart_rx_complete_callback s =
     (let s1 = s\<lparr>rx_length := rx_length s + 1\<rparr>
      in if rx_length s1 = 1
         then let (status, s2) = HAL_UART_Receive_IT (rx_length s1) 1 s1
              in if status \<noteq> HAL_OK
                 then Some ((timer_stop (s2\<lparr>received_successful := False\<rparr>))\<lparr>first_byte_semaphore := True, recv_completed_semaphore := True\<rparr>)
                 else (case timer_set (ucast (rtu_baud_rate_to_t35_us (port_baud_rate s2))) s2 of
                         None \<Rightarrow> None | Some s3 \<Rightarrow> Some (s3\<lparr>first_byte_semaphore := True\<rparr>))
         else if unat (rx_length s1) \<ge> MODBUS_RTU_MAX_LENGTH
         then timer_set (ucast (rtu_baud_rate_to_t35_us (port_baud_rate s1))) s1
         else let (status, s2) = HAL_UART_Receive_IT (rx_length s1) 1 s1
              in if status \<noteq> HAL_OK
                 then Some ((timer_stop (s2\<lparr>received_successful := False\<rparr>))\<lparr>recv_completed_semaphore := True\<rparr>)
                 else timer_set (ucast (rtu_baud_rate_to_t35_us (port_baud_rate s2))) s2)"

definition rs485_uart_error_callback :: "bool \<Rightarrow> rs485 \<Rightarrow> rs485 option" where
  "rs485_uart_error_callback dma_timeout s =
     (if port_phase s = RS485_PHASE_TRANSMITTING
      then Some (s\<lparr>transmit_successful := False, send_completed_semaphore := True\<rparr>)
      else if port_phase s = RS485_PHASE_RECEIVING
      then Some ((snd (HAL_UART_Abort dma_timeout (timer_stop s)))
             \<lparr>received_successful := False, first_byte_semaphore := True, recv_completed_semaphore := True\<rparr>)
      else Some s)"

definition rs485_t35_elapsed_callback :: "rs485 \<Rightarrow> rs485 option" where
  "rs485_t35_elapsed_callback s =
     (if port_phase s = RS485_PHASE_WAITING_TX_READY then Some (s\<lparr>send_completed_semaphore := True\<rparr>)
      else if port_phase s = RS485_PHASE_RECEIVING
      then Some ((snd (HAL_UART_AbortReceive (s\<lparr>received_successful := True\<rparr>)))\<lparr>recv_completed_semaphore := True\<rparr>)
      else Some s)"

text \<open>
  The frame formats as the serial interface takes them: with a parity bit a character has 9 bits. The callbacks can
  be registered while the interface and the timer are ready; \<open>None\<close>: the code ends in \<open>Error_Handler\<close>.
\<close>

definition set_frame_format :: "u8 \<Rightarrow> rs485 \<Rightarrow> rs485 option" where
  "set_frame_format configured_format s =
     (if configured_format = CONFIGURATION_FRAME_FORMAT_8N1
      then Some (s\<lparr>word_length_9b := False, stop_bits_2 := False, parity_none := True\<rparr>)
      else if configured_format = CONFIGURATION_FRAME_FORMAT_8E1 \<or> configured_format = CONFIGURATION_FRAME_FORMAT_8O1
      then Some (s\<lparr>word_length_9b := True, stop_bits_2 := False, parity_none := False\<rparr>)
      else if configured_format = CONFIGURATION_FRAME_FORMAT_8N2
      then Some (s\<lparr>word_length_9b := False, stop_bits_2 := True, parity_none := True\<rparr>)
      else None)"

definition HAL_UART_Init :: "rs485 \<Rightarrow> HAL_StatusTypeDef \<times> rs485" where
  "HAL_UART_Init s =
     (HAL_OK, s\<lparr>ErrorCode := HAL_UART_ERROR_NONE, gState := HAL_UART_STATE_READY, RxState := HAL_UART_STATE_READY\<rparr>)"

definition HAL_UART_RegisterCallback :: "rs485 \<Rightarrow> HAL_StatusTypeDef" where
  "HAL_UART_RegisterCallback s = (if gState s = HAL_UART_STATE_READY then HAL_OK else HAL_ERROR)"

definition HAL_TIM_RegisterCallback :: "rs485 \<Rightarrow> HAL_StatusTypeDef" where
  "HAL_TIM_RegisterCallback s = (if tim_ready s then HAL_OK else HAL_ERROR)"

definition modbus_rtu_rs485_port_init :: "u32 \<Rightarrow> u8 \<Rightarrow> rs485 \<Rightarrow> rs485 option" where
  "modbus_rtu_rs485_port_init configured_baud_rate configured_format s =
     (let s1 = s\<lparr>send_completed_semaphore := False, recv_completed_semaphore := False, first_byte_semaphore := False,
            de_pin := False, init_baud_rate := configured_baud_rate\<rparr>
      in case set_frame_format configured_format s1 of
           None \<Rightarrow> None
         | Some s2 \<Rightarrow>
             let (status, s3) = HAL_UART_Init s2 in
             if status \<noteq> HAL_OK then None
             else let s4 = s3\<lparr>port_baud_rate := configured_baud_rate, port_frame_format := configured_format\<rparr>
                  in if HAL_UART_RegisterCallback s4 \<noteq> HAL_OK \<or> HAL_TIM_RegisterCallback s4 \<noteq> HAL_OK then None else Some s4)"

section \<open>The interrupt handlers\<close>

text \<open>\<open>DR\<close> is the data register. In the 9-bit format without parity a character takes two bytes.\<close>

definition UART_Receive_IT :: "u16 \<Rightarrow> rs485 \<Rightarrow> rs485 option" where
  "UART_Receive_IT DR s =
     (if RxState s = HAL_UART_STATE_BUSY_RX
      then let p = pRxBuffPtr s; b = (case rx_buffer s of None \<Rightarrow> [] | Some b \<Rightarrow> b);
               s1 = (if word_length_9b s \<and> parity_none s
                     then s\<lparr>rx_buffer := Some (b[p := ucast (DR AND 0x01FF), p + 1 := ucast (drop_bit 8 (DR AND 0x01FF))]), pRxBuffPtr := p + 2\<rparr>
                     else if word_length_9b s \<or> parity_none s
                     then s\<lparr>rx_buffer := Some (b[p := ucast (DR AND 0x00FF)]), pRxBuffPtr := p + 1\<rparr>
                     else s\<lparr>rx_buffer := Some (b[p := ucast (DR AND 0x007F)]), pRxBuffPtr := p + 1\<rparr>);
               s2 = s1\<lparr>RxXferCount := RxXferCount s1 - 1\<rparr>
           in if RxXferCount s2 = 0
              then rs485_uart_rx_complete_callback (s2\<lparr>RXNEIE := False, PEIE := False, EIE := False, RxState := HAL_UART_STATE_READY\<rparr>)
              else Some s2
      else Some s)"

definition UART_EndRxTransfer :: "rs485 \<Rightarrow> rs485" where
  "UART_EndRxTransfer s = s\<lparr>RXNEIE := False, PEIE := False, EIE := False, RxState := HAL_UART_STATE_READY\<rparr>"

definition UART_EndTxTransfer :: "rs485 \<Rightarrow> rs485" where
  "UART_EndTxTransfer s = s\<lparr>TCIE := False, gState := HAL_UART_STATE_READY\<rparr>"

definition UART_EndTransmit_IT :: "rs485 \<Rightarrow> rs485 option" where
  "UART_EndTransmit_IT s = rs485_uart_tx_complete_callback (s\<lparr>TCIE := False, gState := HAL_UART_STATE_READY\<rparr>)"

text \<open>The stream is in normal mode.\<close>

definition UART_DMATransmitCplt :: "rs485 \<Rightarrow> rs485" where
  "UART_DMATransmitCplt s = s\<lparr>DMAT := False, TCIE := True\<rparr>"

definition UART_DMAError :: "bool \<Rightarrow> rs485 \<Rightarrow> rs485 option" where
  "UART_DMAError dma_timeout s =
     (let s1 = (if gState s = HAL_UART_STATE_BUSY_TX \<and> DMAT s then UART_EndTxTransfer s else s)
      in rs485_uart_error_callback dma_timeout (s1\<lparr>ErrorCode := ErrorCode s1 OR HAL_UART_ERROR_DMA\<rparr>))"

definition error_code_of :: "u32 \<Rightarrow> rs485 \<Rightarrow> u32" where
  "error_code_of isrflags s =
     ErrorCode s OR
     (if isrflags AND USART_SR_PE \<noteq> 0 \<and> PEIE s then HAL_UART_ERROR_PE else 0) OR
     (if isrflags AND USART_SR_NE \<noteq> 0 \<and> EIE s then HAL_UART_ERROR_NE else 0) OR
     (if isrflags AND USART_SR_FE \<noteq> 0 \<and> EIE s then HAL_UART_ERROR_FE else 0) OR
     (if isrflags AND USART_SR_ORE \<noteq> 0 \<and> (RXNEIE s \<or> EIE s) then HAL_UART_ERROR_ORE else 0)"

text \<open>
  Reception is neither by DMA nor until idle, and transmission never by interrupt, so \<open>DMAR\<close>, \<open>IDLEIE\<close> and \<open>TXEIE\<close>
  are clear. \<open>isrflags\<close> and \<open>DR\<close> are what the handler reads from the status and the data register.
\<close>

definition HAL_UART_IRQHandler :: "bool \<Rightarrow> u32 \<Rightarrow> u16 \<Rightarrow> rs485 \<Rightarrow> rs485 option" where
  "HAL_UART_IRQHandler dma_timeout isrflags DR s =
     (let errorflags = isrflags AND (USART_SR_PE OR USART_SR_FE OR USART_SR_ORE OR USART_SR_NE)
      in if errorflags = 0 \<and> isrflags AND USART_SR_RXNE \<noteq> 0 \<and> RXNEIE s then UART_Receive_IT DR s
         else if errorflags \<noteq> 0 \<and> (EIE s \<or> RXNEIE s \<or> PEIE s)
         then let s1 = s\<lparr>ErrorCode := error_code_of isrflags s\<rparr>
              in if ErrorCode s1 \<noteq> HAL_UART_ERROR_NONE
                 then (case (if isrflags AND USART_SR_RXNE \<noteq> 0 \<and> RXNEIE s then UART_Receive_IT DR s1 else Some s1) of
                         None \<Rightarrow> None
                       | Some s2 \<Rightarrow>
                           if ErrorCode s2 AND HAL_UART_ERROR_ORE \<noteq> 0
                           then rs485_uart_error_callback dma_timeout (UART_EndRxTransfer s2)
                           else (case rs485_uart_error_callback dma_timeout s2 of
                                   None \<Rightarrow> None | Some s3 \<Rightarrow> Some (s3\<lparr>ErrorCode := HAL_UART_ERROR_NONE\<rparr>)))
                 else Some s1
         else if isrflags AND USART_SR_TC \<noteq> 0 \<and> TCIE s then UART_EndTransmit_IT s
         else Some s)"

section \<open>A transaction, cut where an interrupt can intervene\<close>

text \<open>
  Where the task is between two of its steps. A step ends where the code waits or where it has called
  something that starts or stops an interrupt source while one is active; \<open>Returned\<close> holds the result and
  \<open>*receive_len\<close>. From the call to the start of the timer no source is active, so these statements are one step.
\<close>

datatype rs485_place =
  Returned modbus_rtu_rs485_port_result_t u16
| Await_Guard u16 u32 u16
| Guard_Expired u16
| Await_Sent u32 u16
| Sent_Expired u16
| Sent_Aborted u16
| Sent_Receive_Aborted u16
| Await_First u16
| First_Expired u16
| First_Aborted u16
| Await_Rest u16
| Rest_Expired u16
| Rest_Aborted u16

text \<open>The task: its choices are a new call, the outcome of the DMA driver, and that a wait has timed out.\<close>

datatype rs485_choice = Call "u8 list" u16 u32 u16 | Continue bool | Time_Out

definition transceive_begin :: "u8 list \<Rightarrow> u16 \<Rightarrow> u32 \<Rightarrow> u16 \<Rightarrow> rs485 \<Rightarrow> (rs485_place \<times> rs485) option" where
  "transceive_begin response request_length response_timeout_ms receive_len s =
     (let s1 = s\<lparr>send_completed_semaphore := False, recv_completed_semaphore := False, first_byte_semaphore := False,
            rx_buffer := Some response, port_phase := RS485_PHASE_WAITING_TX_READY, de_pin := True\<rparr>
      in case timer_set 50 s1 of None \<Rightarrow> None | Some s2 \<Rightarrow> Some (Await_Guard request_length response_timeout_ms receive_len, s2))"

definition start_transmission :: "bool \<Rightarrow> u16 \<Rightarrow> u32 \<Rightarrow> u16 \<Rightarrow> rs485 \<Rightarrow> (rs485_place \<times> rs485) option" where
  "start_transmission dma_started request_length response_timeout_ms receive_len s =
     (let (status, s1) = HAL_UART_Transmit_DMA dma_started request_length (s\<lparr>port_phase := RS485_PHASE_TRANSMITTING\<rparr>)
      in if status \<noteq> HAL_OK
         then Some (Returned MODBUS_RTU_RS485_PORT_RESULT_UART_ERROR receive_len, s1\<lparr>port_phase := RS485_PHASE_IDLE, de_pin := False\<rparr>)
         else case rs485_calculate_tx_timeout_ticks request_length s1 of
                None \<Rightarrow> None | Some timeout_ticks \<Rightarrow> Some (Await_Sent timeout_ticks receive_len, s1))"

definition check_transmitted :: "u16 \<Rightarrow> rs485 \<Rightarrow> rs485_place \<times> rs485" where
  "check_transmitted receive_len s =
     (if \<not> transmit_successful s
      then (Returned MODBUS_RTU_RS485_PORT_RESULT_UART_ERROR receive_len, s\<lparr>port_phase := RS485_PHASE_IDLE, de_pin := False\<rparr>)
      else (Await_First receive_len, s))"

definition take_response :: "u16 \<Rightarrow> rs485 \<Rightarrow> rs485_place \<times> rs485" where
  "take_response receive_len s =
     (let s1 = s\<lparr>port_phase := RS485_PHASE_IDLE\<rparr>
      in if \<not> received_successful s1 then (Returned MODBUS_RTU_RS485_PORT_RESULT_UART_ERROR receive_len, s1)
         else (Returned MODBUS_RTU_RS485_PORT_RESULT_OK (rx_length s1), s1))"

text \<open>\<open>None\<close>: the choice is not possible here, or the task stops in \<open>Error_Handler\<close>.\<close>

fun transceive_step :: "rs485_choice \<Rightarrow> rs485_place \<Rightarrow> rs485 \<Rightarrow> (rs485_place \<times> rs485) option" where
  "transceive_step (Call response request_length response_timeout_ms receive_len) (Returned r n) s =
     transceive_begin response request_length response_timeout_ms receive_len s"
| "transceive_step (Continue dma_started) (Await_Guard request_length response_timeout_ms n) s =
     (if send_completed_semaphore s
      then start_transmission dma_started request_length response_timeout_ms n (s\<lparr>send_completed_semaphore := False\<rparr>) else None)"
| "transceive_step Time_Out (Await_Guard request_length response_timeout_ms n) s =
     (if send_completed_semaphore s then None else Some (Guard_Expired n, s))"
| "transceive_step (Continue _) (Guard_Expired n) s =
     Some (Returned MODBUS_RTU_RS485_PORT_RESULT_UART_ERROR n, (timer_stop s)\<lparr>de_pin := False, port_phase := RS485_PHASE_IDLE\<rparr>)"
| "transceive_step (Continue _) (Await_Sent timeout_ticks n) s =
     (if send_completed_semaphore s then Some (check_transmitted n (s\<lparr>send_completed_semaphore := False\<rparr>)) else None)"
| "transceive_step Time_Out (Await_Sent timeout_ticks n) s =
     (if send_completed_semaphore s then None else Some (Sent_Expired n, s))"
| "transceive_step (Continue dma_timeout) (Sent_Expired n) s = Some (Sent_Aborted n, snd (HAL_UART_AbortTransmit dma_timeout s))"
| "transceive_step (Continue _) (Sent_Aborted n) s = Some (Sent_Receive_Aborted n, snd (HAL_UART_AbortReceive s))"
| "transceive_step (Continue _) (Sent_Receive_Aborted n) s =
     Some (Returned MODBUS_RTU_RS485_PORT_RESULT_UART_ERROR n, (timer_stop s)\<lparr>de_pin := False, port_phase := RS485_PHASE_IDLE\<rparr>)"
| "transceive_step (Continue _) (Await_First n) s =
     (if first_byte_semaphore s then Some (Await_Rest n, s\<lparr>first_byte_semaphore := False\<rparr>) else None)"
| "transceive_step Time_Out (Await_First n) s = (if first_byte_semaphore s then None else Some (First_Expired n, s))"
| "transceive_step (Continue _) (First_Expired n) s = Some (First_Aborted n, snd (HAL_UART_AbortReceive s))"
| "transceive_step (Continue _) (First_Aborted n) s =
     Some (Returned MODBUS_RTU_RS485_PORT_RESULT_SLAVE_TIMEOUT n, (timer_stop s)\<lparr>port_phase := RS485_PHASE_IDLE\<rparr>)"
| "transceive_step (Continue _) (Await_Rest n) s =
     (if recv_completed_semaphore s then Some (take_response n (s\<lparr>recv_completed_semaphore := False\<rparr>)) else None)"
| "transceive_step Time_Out (Await_Rest n) s = (if recv_completed_semaphore s then None else Some (Rest_Expired n, s))"
| "transceive_step (Continue _) (Rest_Expired n) s = Some (Rest_Aborted n, snd (HAL_UART_AbortReceive s))"
| "transceive_step (Continue _) (Rest_Aborted n) s =
     Some (Returned MODBUS_RTU_RS485_PORT_RESULT_UART_ERROR n, (timer_stop s)\<lparr>port_phase := RS485_PHASE_IDLE\<rparr>)"
| "transceive_step _ _ _ = None"

text \<open>
  What the hardware does: the timer elapses (its counter does not move while the auto-reload value is 0), the stream
  ends or fails (a transfer error, at which the hardware stops the stream), or the serial interface interrupts with
  any flags and data. All handlers have the same priority, so they do not interrupt each other.
\<close>

datatype rs485_event = Timer_Elapsed | Dma_Complete | Dma_Error bool | Usart_Interrupt bool u32 u16

fun interrupt :: "rs485_event \<Rightarrow> rs485 \<Rightarrow> rs485 option" where
  "interrupt Timer_Elapsed s = (if counting s \<and> ARR s \<noteq> 0 then rs485_t35_elapsed_callback (s\<lparr>counting := False\<rparr>) else Some s)"
| "interrupt Dma_Complete s = (if dma_tx s then Some (UART_DMATransmitCplt (s\<lparr>dma_tx := False\<rparr>)) else Some s)"
| "interrupt (Dma_Error dma_timeout) s = (if dma_tx s then UART_DMAError dma_timeout (s\<lparr>dma_tx := False\<rparr>) else Some s)"
| "interrupt (Usart_Interrupt dma_timeout isrflags DR) s = HAL_UART_IRQHandler dma_timeout isrflags DR s"

text \<open>
  The history \<open>received\<close>: the bytes the handler has taken from the data register since the transmission ended.
\<close>

definition reads_data :: "u32 \<Rightarrow> rs485 \<Rightarrow> bool" where
  "reads_data isrflags s \<longleftrightarrow> isrflags AND USART_SR_RXNE \<noteq> 0 \<and> RXNEIE s \<and>
     (isrflags AND (USART_SR_PE OR USART_SR_FE OR USART_SR_ORE OR USART_SR_NE) = 0 \<or> error_code_of isrflags s \<noteq> HAL_UART_ERROR_NONE)"

fun received_after :: "rs485_event \<Rightarrow> rs485 \<Rightarrow> u8 list \<Rightarrow> u8 list" where
  "received_after (Usart_Interrupt dma_timeout isrflags DR) s received =
     (if reads_data isrflags s then received @ [ucast DR]
      else if isrflags AND USART_SR_TC \<noteq> 0 \<and> TCIE s then [] else received)"
| "received_after _ s received = received"

text \<open>
  The runs of a port that has been initialised with a valid baud rate and frame format, from the interface and the
  timer as the start-up code leaves them. A response buffer is that of an ADU, 256 bytes.
\<close>

definition rs485_reset :: rs485 where
  "rs485_reset = \<lparr>gState = HAL_UART_STATE_READY, RxState = HAL_UART_STATE_READY, ErrorCode = 0, pRxBuffPtr = 0, RxXferCount = 0,
     init_baud_rate = 9600, word_length_9b = False, stop_bits_2 = False, parity_none = True, RXNEIE = False, PEIE = False, EIE = False,
     TCIE = False, DMAT = False, dma_tx = False, tim_ready = True, counting = False, ARR = 3999, de_pin = False,
     send_completed_semaphore = False, recv_completed_semaphore = False, first_byte_semaphore = False, rx_length = 0, rx_buffer = None,
     port_baud_rate = 0, port_frame_format = 0, port_phase = RS485_PHASE_IDLE, transmit_successful = False, received_successful = False\<rparr>"

inductive rs485_reachable :: "rs485_place \<Rightarrow> rs485 \<Rightarrow> u8 list \<Rightarrow> bool" where
  start: "baud_rate_is_valid rate \<Longrightarrow> frame_format_is_valid format \<Longrightarrow> modbus_rtu_rs485_port_init rate format rs485_reset = Some s \<Longrightarrow>
    rs485_reachable (Returned MODBUS_RTU_RS485_PORT_RESULT_UART_ERROR 0) s []"
| task: "rs485_reachable p s bs \<Longrightarrow> transceive_step c p s = Some (p', s') \<Longrightarrow>
    (\<forall>response request_length response_timeout_ms n. c = Call response request_length response_timeout_ms n \<longrightarrow>
      MODBUS_RTU_MAX_LENGTH \<le> length response) \<Longrightarrow> rs485_reachable p' s' bs"
| hardware: "rs485_reachable p s bs \<Longrightarrow> interrupt e s = Some s' \<Longrightarrow> rs485_reachable p s' (received_after e s bs)"

end
