(* ===== verification/RS485_Port_Runs.thy ===== *)
theory RS485_Port_Runs
  imports RS485_Port
begin

text \<open>
  The invariant of the RS485 port over all interleavings of its task and its interrupts, and what it says of the line, of
  the bytes received, of the end of a transaction and of its timing.
\<close>

section \<open>What holds between two steps\<close>

definition reception_off :: "rs485 \<Rightarrow> bool" where
  "reception_off s \<longleftrightarrow> \<not> RXNEIE s \<and> \<not> PEIE s \<and> \<not> EIE s \<and> RxState s = HAL_UART_STATE_READY"

definition transmission_off :: "rs485 \<Rightarrow> bool" where
  "transmission_off s \<longleftrightarrow> \<not> dma_tx s \<and> \<not> TCIE s"

text \<open>The formats the initialisation can set.\<close>

definition format_ok :: "rs485 \<Rightarrow> bool" where
  "format_ok s \<longleftrightarrow> (word_length_9b s \<longleftrightarrow> \<not> parity_none s) \<and> frame_format_is_valid (port_frame_format s)"

definition has_buffer :: "rs485 \<Rightarrow> bool" where
  "has_buffer s \<longleftrightarrow> (\<exists>b. rx_buffer s = Some b \<and> MODBUS_RTU_MAX_LENGTH \<le> length b)"

text \<open>The buffer starts with the bytes received so far, and there are \<open>rx_length\<close> of them.\<close>

definition buffered :: "rs485 \<Rightarrow> u8 list \<Rightarrow> bool" where
  "buffered s bs \<longleftrightarrow> has_buffer s \<and> take (length bs) (the (rx_buffer s)) = bs \<and> unat (rx_length s) = length bs \<and>
     length bs \<le> MODBUS_RTU_MAX_LENGTH"

definition listening :: "rs485 \<Rightarrow> u8 list \<Rightarrow> bool" where
  "listening s bs \<longleftrightarrow> RXNEIE s \<and> EIE s \<and> RxState s = HAL_UART_STATE_BUSY_RX \<and> RxXferCount s = 1 \<and> pRxBuffPtr s = length bs \<and>
     length bs < MODBUS_RTU_MAX_LENGTH \<and> \<not> recv_completed_semaphore s \<and> (counting s \<longleftrightarrow> bs \<noteq> [])"

text \<open>
  The bus belongs to the slave: the next byte is awaited, or the buffer is full and only the silence is, or the response has
  ended, by silence or by an error.
\<close>

definition receiving :: "rs485 \<Rightarrow> u8 list \<Rightarrow> bool" where
  "receiving s bs \<longleftrightarrow> format_ok s \<and> buffered s bs \<and> transmission_off s \<and> \<not> de_pin s \<and> port_phase s = RS485_PHASE_RECEIVING \<and>
     (listening s bs \<or>
      (reception_off s \<and> counting s \<and> length bs = MODBUS_RTU_MAX_LENGTH \<and> \<not> recv_completed_semaphore s) \<or>
      (reception_off s \<and> \<not> counting s \<and> recv_completed_semaphore s \<and> (received_successful s \<longrightarrow> bs \<noteq> [])))"

definition guarding :: "rs485 \<Rightarrow> bool" where
  "guarding s \<longleftrightarrow> format_ok s \<and> has_buffer s \<and> reception_off s \<and> transmission_off s \<and> de_pin s \<and>
     port_phase s = RS485_PHASE_WAITING_TX_READY \<and> (send_completed_semaphore s \<longrightarrow> \<not> counting s)"

text \<open>The request is on the line, or the stream has failed.\<close>

definition transmitting :: "rs485 \<Rightarrow> bool" where
  "transmitting s \<longleftrightarrow> format_ok s \<and> has_buffer s \<and> reception_off s \<and> \<not> counting s \<and> de_pin s \<and> port_phase s = RS485_PHASE_TRANSMITTING \<and>
     (dma_tx s \<or> TCIE s \<longrightarrow> \<not> send_completed_semaphore s \<and> \<not> recv_completed_semaphore s) \<and> (dma_tx s \<longrightarrow> DMAT s \<and> \<not> TCIE s) \<and>
     (send_completed_semaphore s \<longrightarrow> \<not> transmit_successful s)"

definition stopped :: "rs485 \<Rightarrow> bool" where
  "stopped s \<longleftrightarrow> format_ok s \<and> has_buffer s \<and> reception_off s \<and> transmission_off s \<and>
     (port_phase s = RS485_PHASE_TRANSMITTING \<and> \<not> counting s \<or> port_phase s = RS485_PHASE_RECEIVING \<and> \<not> de_pin s)"

definition silent :: "rs485 \<Rightarrow> bool" where
  "silent s \<longleftrightarrow> reception_off s \<and> transmission_off s \<and> \<not> counting s"

fun rs485_inv :: "rs485_place \<Rightarrow> rs485 \<Rightarrow> u8 list \<Rightarrow> bool" where
  "rs485_inv (Returned r n) s bs \<longleftrightarrow> format_ok s \<and> silent s \<and> \<not> de_pin s \<and> port_phase s = RS485_PHASE_IDLE \<and>
     (r = MODBUS_RTU_RS485_PORT_RESULT_OK \<longrightarrow> buffered s bs \<and> n = rx_length s \<and> bs \<noteq> [])"
| "rs485_inv (Await_Guard request_length t n) s bs \<longleftrightarrow> guarding s \<and> \<not> recv_completed_semaphore s"
| "rs485_inv (Guard_Expired n) s bs \<longleftrightarrow> guarding s"
| "rs485_inv (Await_Sent t n) s bs \<longleftrightarrow> transmitting s \<or> receiving s bs \<and> transmit_successful s"
| "rs485_inv (Sent_Expired n) s bs \<longleftrightarrow> transmitting s \<or> receiving s bs"
| "rs485_inv (Sent_Aborted n) s bs \<longleftrightarrow> stopped s \<or> receiving s bs"
| "rs485_inv (Sent_Receive_Aborted n) s bs \<longleftrightarrow> stopped s"
| "rs485_inv (Await_First n) s bs \<longleftrightarrow> receiving s bs"
| "rs485_inv (First_Expired n) s bs \<longleftrightarrow> receiving s bs"
| "rs485_inv (First_Aborted n) s bs \<longleftrightarrow> stopped s \<and> \<not> de_pin s"
| "rs485_inv (Await_Rest n) s bs \<longleftrightarrow> receiving s bs"
| "rs485_inv (Rest_Expired n) s bs \<longleftrightarrow> receiving s bs"
| "rs485_inv (Rest_Aborted n) s bs \<longleftrightarrow> stopped s \<and> \<not> de_pin s"

lemmas rs485_states = reception_off_def transmission_off_def format_ok_def has_buffer_def guarding_def transmitting_def stopped_def silent_def

lemma timer_set_starts: "timer_set t s = Some (s\<lparr>counting := True, tim_ready := False, ARR := ucast (if t = 0 then 1 else t) - 1\<rparr>)"
  by (simp add: timer_set_def HAL_TIM_Base_Stop_def HAL_TIM_Base_Start_IT_def Let_def)

lemma timer_stop_stops: "timer_stop s = s\<lparr>counting := False, tim_ready := True\<rparr>"
  by (simp add: timer_stop_def HAL_TIM_Base_Stop_def)

section \<open>The handlers keep it\<close>

text \<open>The next byte is awaited: nothing in the way the code arms the receiver can fail.\<close>

lemma armed:
  assumes "reception_off s" "has_buffer s"
  shows "HAL_UART_Receive_IT i 1 s = (HAL_OK, s\<lparr>pRxBuffPtr := unat i, RxXferCount := 1, ErrorCode := HAL_UART_ERROR_NONE,
    RxState := HAL_UART_STATE_BUSY_RX, PEIE := \<not> parity_none s, EIE := True, RXNEIE := True\<rparr>)"
  using assms by (auto simp: HAL_UART_Receive_IT_def UART_Start_Receive_IT_def reception_off_def has_buffer_def)

lemma byte_received:
  assumes s: "format_ok s" "reception_off s" "transmission_off s" "\<not> de_pin s" "port_phase s = RS485_PHASE_RECEIVING" "\<not> recv_completed_semaphore s"
    and b: "has_buffer s" "take (length bs) (the (rx_buffer s)) = bs" "unat (rx_length s) + 1 = length bs" "length bs \<le> MODBUS_RTU_MAX_LENGTH"
  obtains s' where "rs485_uart_rx_complete_callback s = Some s'" "receiving s' bs" "transmit_successful s' = transmit_successful s"
proof -
  have l: "unat (rx_length s + 1) = length bs" using b(3,4) by (simp add: unat_plus_small)
  have one: "rx_length s + 1 = 1 \<longleftrightarrow> length bs = 1" using l by (metis unat_1 word_unat_eq_iff)
  have r: "reception_off (s\<lparr>rx_length := rx_length s + 1\<rparr>)" "has_buffer (s\<lparr>rx_length := rx_length s + 1\<rparr>)"
    using s(2) b(1) by (simp_all add: reception_off_def has_buffer_def)
  define s1 where "s1 = s\<lparr>rx_length := rx_length s + 1\<rparr>"
  define s2 where "s2 = s1\<lparr>pRxBuffPtr := length bs, RxXferCount := 1, ErrorCode := HAL_UART_ERROR_NONE,
    RxState := HAL_UART_STATE_BUSY_RX, PEIE := \<not> parity_none s, EIE := True, RXNEIE := True\<rparr>"
  define t35 where "t35 = (ucast (rtu_baud_rate_to_t35_us (port_baud_rate s)) :: u16)"
  define timed where "timed = (\<lambda>x :: rs485. x\<lparr>counting := True, tim_ready := False, ARR := ucast (if t35 = 0 then 1 else t35) - 1\<rparr>)"
  have a: "HAL_UART_Receive_IT (rx_length s1) 1 s1 = (HAL_OK, s2)"
    using armed [OF r] by (simp add: s1_def s2_def l)
  have t: "timer_set t35 x = Some (timed x)" for x by (simp add: timer_set_starts timed_def)
  have f: "rs485_uart_rx_complete_callback s =
      (if length bs = 1 then Some ((timed s2)\<lparr>first_byte_semaphore := True\<rparr>)
       else if length bs \<ge> 256 then Some (timed s1) else Some (timed s2))"
    unfolding rs485_uart_rx_complete_callback_def Let_def s1_def [symmetric] a prod.case
    using one l by (simp add: s1_def s2_def t t35_def [symmetric])
  have d: "buffered s1 bs" "format_ok s1" "transmission_off s1" "\<not> de_pin s1" "port_phase s1 = RS485_PHASE_RECEIVING" "\<not> recv_completed_semaphore s1"
    "reception_off s1" "transmit_successful s1 = transmit_successful s"
    using s b l by (simp_all add: s1_def buffered_def rs485_states)
  have ne: "bs \<noteq> []" using b(3) by auto
  have k: "receiving (timed s2) bs" "receiving ((timed s2)\<lparr>first_byte_semaphore := True\<rparr>) bs" if "length bs < 256"
    using that d ne by (simp_all add: receiving_def listening_def s2_def timed_def buffered_def rs485_states)
  have full: "receiving (timed s1) bs" if "length bs \<ge> 256"
    using that b(4) d by (simp add: receiving_def timed_def buffered_def rs485_states)
  have u: "transmit_successful (timed s2) = transmit_successful s" "transmit_successful (timed s1) = transmit_successful s"
    by (simp_all add: timed_def s1_def s2_def)
  consider "length bs \<ge> 256" | "length bs = 1" | "length bs \<noteq> 1" "length bs < 256" by linarith
  then show thesis
  proof cases
    case 1
    then have "rs485_uart_rx_complete_callback s = Some (timed s1)" unfolding f by (simp only: if_True) simp
    then show ?thesis by (rule that) (rule full [OF 1], rule u)
  next
    case 2
    then have "rs485_uart_rx_complete_callback s = Some ((timed s2)\<lparr>first_byte_semaphore := True\<rparr>)" unfolding f by (simp only: simp_thms if_True)
    then show ?thesis by (rule that) (use 2 k u in simp_all)
  next
    case 3
    then have "rs485_uart_rx_complete_callback s = Some (timed s2)" unfolding f by (simp only: if_False not_le [symmetric])
    then show ?thesis by (rule that) (use 3 k u in simp_all)
  qed
qed

lemma error_ends_reception:
  assumes "format_ok s" "buffered s bs" "transmission_off s" "\<not> de_pin s" "port_phase s = RS485_PHASE_RECEIVING"
  obtains s' where "rs485_uart_error_callback q s = Some s'" "receiving s' bs" "transmit_successful s' = transmit_successful s"
    "receiving (s'\<lparr>ErrorCode := e\<rparr>) bs"
proof -
  define s' where "s' = (snd (HAL_UART_Abort q (timer_stop s)))
    \<lparr>received_successful := False, first_byte_semaphore := True, recv_completed_semaphore := True\<rparr>"
  have f: "rs485_uart_error_callback q s = Some s'" using assms(5) by (simp add: rs485_uart_error_callback_def s'_def)
  have "\<not> dma_tx s" using assms(3) by (simp add: transmission_off_def)
  then have "receiving s' bs" "transmit_successful s' = transmit_successful s" "receiving (s'\<lparr>ErrorCode := e\<rparr>) bs"
    using assms by (simp_all add: s'_def HAL_UART_Abort_def timer_stop_stops Let_def receiving_def buffered_def rs485_states)
  then show thesis using that [OF f] by blast
qed

lemma silence_ends_reception:
  assumes "receiving s bs" "counting s"
  obtains s' where "rs485_t35_elapsed_callback (s\<lparr>counting := False\<rparr>) = Some s'" "receiving s' bs" "transmit_successful s' = transmit_successful s"
proof -
  define s' where "s' = (snd (HAL_UART_AbortReceive (s\<lparr>counting := False, received_successful := True\<rparr>)))\<lparr>recv_completed_semaphore := True\<rparr>"
  have f: "rs485_t35_elapsed_callback (s\<lparr>counting := False\<rparr>) = Some s'"
    using assms(1) by (simp add: rs485_t35_elapsed_callback_def s'_def receiving_def)
  have "receiving s' bs" "transmit_successful s' = transmit_successful s"
    using assms by (auto simp: s'_def HAL_UART_AbortReceive_def receiving_def listening_def buffered_def rs485_states)
  then show thesis using that [OF f] by blast
qed

lemma transmission_ends:
  assumes "transmitting s" "TCIE s"
  obtains s' where "UART_EndTransmit_IT s = Some s'" "receiving s' []" "transmit_successful s'"
proof -
  define s1 where "s1 = s\<lparr>TCIE := False, gState := HAL_UART_STATE_READY, transmit_successful := True, rx_length := 0, port_phase := RS485_PHASE_RECEIVING\<rparr>"
  have r: "reception_off s1" "has_buffer s1" using assms by (simp_all add: s1_def rs485_states)
  have s1: "format_ok s1" "transmission_off s1" "\<not> counting s1" "\<not> recv_completed_semaphore s1" "port_phase s1 = RS485_PHASE_RECEIVING" "rx_length s1 = 0"
    "transmit_successful s1"
    using assms by (auto simp: s1_def rs485_states)
  define s2 where "s2 = s1\<lparr>pRxBuffPtr := unat (0 :: u16), RxXferCount := 1, ErrorCode := HAL_UART_ERROR_NONE,
    RxState := HAL_UART_STATE_BUSY_RX, PEIE := \<not> parity_none s1, EIE := True, RXNEIE := True\<rparr>"
  have a: "HAL_UART_Receive_IT 0 1 s1 = (HAL_OK, s2)" unfolding s2_def by (rule armed [OF r])
  have "rx_length (s\<lparr>TCIE := False, gState := HAL_UART_STATE_READY\<rparr>\<lparr>transmit_successful := True, rx_length := 0, port_phase := RS485_PHASE_RECEIVING\<rparr>) = 0"
    by simp
  then have f: "UART_EndTransmit_IT s = Some (s2\<lparr>de_pin := False, send_completed_semaphore := True\<rparr>)"
    unfolding UART_EndTransmit_IT_def rs485_uart_tx_complete_callback_def Let_def s1_def [symmetric] s1(6) a by simp
  have "receiving (s2\<lparr>de_pin := False, send_completed_semaphore := True\<rparr>) []"
    using s1 r by (simp add: receiving_def listening_def s2_def buffered_def rs485_states)
  moreover have "transmit_successful (s2\<lparr>de_pin := False, send_completed_semaphore := True\<rparr>)" using s1(7) by (simp add: s2_def)
  ultimately show thesis using that [OF f] by blast
qed

text \<open>The byte is stored at the index the receiver was armed with, inside the buffer.\<close>

lemma listening_byte:
  assumes "receiving s bs" "RXNEIE s"
  obtains s' where "UART_Receive_IT DR s = Some s'" "receiving s' (bs @ [ucast DR])" "transmit_successful s' = transmit_successful s"
proof -
  have l: "listening s bs" and s: "format_ok s" "buffered s bs" "transmission_off s" "\<not> de_pin s" "port_phase s = RS485_PHASE_RECEIVING"
    using assms by (auto simp: receiving_def reception_off_def)
  obtain b where b: "rx_buffer s = Some b" "256 \<le> length b" "take (length bs) b = bs" using s(2) by (auto simp: buffered_def has_buffer_def)
  have w: "word_length_9b s \<and> parity_none s \<longleftrightarrow> False" "word_length_9b s \<or> parity_none s" using s(1) by (auto simp: format_ok_def)
  have ff: "0x00FF = (mask 8 :: u16)" by (simp add: mask_eq_exp_minus_1)
  have m: "ucast (DR AND 0x00FF) = (ucast DR :: u8)" unfolding ff by (rule bit_word_eqI) (auto simp: bit_simps)
  define s1 where "s1 = s\<lparr>rx_buffer := Some (b[length bs := ucast DR]), pRxBuffPtr := length bs + 1, RxXferCount := 0,
    RXNEIE := False, PEIE := False, EIE := False, RxState := HAL_UART_STATE_READY\<rparr>"
  have f: "UART_Receive_IT DR s = rs485_uart_rx_complete_callback s1"
    using l w(2) unfolding UART_Receive_IT_def Let_def w(1) by (simp add: listening_def b m s1_def)
  have "length bs < length b" using l b(2) by (simp add: listening_def)
  then have t: "take (length (bs @ [ucast DR])) (b[length bs := ucast DR]) = bs @ [ucast DR]"
    using b(3) by (simp add: take_Suc_conv_app_nth)
  have "format_ok s1" "reception_off s1" "transmission_off s1" "\<not> de_pin s1" "port_phase s1 = RS485_PHASE_RECEIVING" "\<not> recv_completed_semaphore s1"
    "has_buffer s1" "unat (rx_length s1) + 1 = length (bs @ [ucast DR])" "length (bs @ [ucast DR]) \<le> MODBUS_RTU_MAX_LENGTH"
    using s l b(2) by (simp_all add: s1_def rs485_states listening_def buffered_def)
  moreover have "take (length (bs @ [ucast DR])) (the (rx_buffer s1)) = bs @ [ucast DR]" using t by (simp add: s1_def)
  moreover have "transmit_successful s1 = transmit_successful s" by (simp add: s1_def)
  ultimately show thesis using byte_received [of s1 "bs @ [ucast DR]"] that unfolding f by metis
qed

lemma receiving_weakens:
  assumes "receiving s bs"
  shows "format_ok s" "buffered s bs" "transmission_off s" "\<not> de_pin s" "port_phase s = RS485_PHASE_RECEIVING" "\<not> TCIE s" "\<not> dma_tx s"
    "receiving (s\<lparr>ErrorCode := e\<rparr>) bs" "RXNEIE s \<or> EIE s \<or> PEIE s \<longleftrightarrow> RXNEIE s"
  using assms by (auto simp: receiving_def transmission_off_def format_ok_def buffered_def has_buffer_def listening_def reception_off_def)

lemma usart_while_off:
  assumes "reception_off s" "\<not> TCIE s"
  shows "HAL_UART_IRQHandler q isrflags DR s = Some s" "received_after (Usart_Interrupt q isrflags DR) s bs = bs"
  using assms by (simp_all add: HAL_UART_IRQHandler_def reception_off_def Let_def reads_data_def)

lemma usart_while_receiving:
  assumes s: "receiving s bs"
  obtains s' where "HAL_UART_IRQHandler q isrflags DR s = Some s'" "receiving s' (received_after (Usart_Interrupt q isrflags DR) s bs)"
    "transmit_successful s' = transmit_successful s"
proof -
  define flags where "flags = isrflags AND (USART_SR_PE OR USART_SR_FE OR USART_SR_ORE OR USART_SR_NE)"
  define byte where "byte \<longleftrightarrow> isrflags AND USART_SR_RXNE \<noteq> 0 \<and> RXNEIE s"
  define s1 where "s1 = s\<lparr>ErrorCode := error_code_of isrflags s\<rparr>"
  note w = receiving_weakens [OF s]
  have s1: "receiving s1 bs" "transmit_successful s1 = transmit_successful s" "RXNEIE s1 = RXNEIE s" "ErrorCode s1 = error_code_of isrflags s"
    using w(8) by (simp_all add: s1_def)
  have rd: "reads_data isrflags s \<longleftrightarrow> byte \<and> (flags = 0 \<or> error_code_of isrflags s \<noteq> 0)"
    by (auto simp: reads_data_def byte_def flags_def)
  have h: "HAL_UART_IRQHandler q isrflags DR s =
      (if flags = 0 \<and> byte then UART_Receive_IT DR s
       else if flags \<noteq> 0 \<and> (RXNEIE s \<or> EIE s \<or> PEIE s)
       then if ErrorCode s1 \<noteq> 0
            then (case (if byte then UART_Receive_IT DR s1 else Some s1) of
                    None \<Rightarrow> None
                  | Some s2 \<Rightarrow>
                      if ErrorCode s2 AND HAL_UART_ERROR_ORE \<noteq> 0 then rs485_uart_error_callback q (UART_EndRxTransfer s2)
                      else (case rs485_uart_error_callback q s2 of None \<Rightarrow> None | Some s3 \<Rightarrow> Some (s3\<lparr>ErrorCode := HAL_UART_ERROR_NONE\<rparr>)))
            else Some s1
       else Some s)"
    using w(6) unfolding HAL_UART_IRQHandler_def Let_def s1_def [symmetric] flags_def [symmetric] byte_def by (simp add: disj_ac)
  have a: "received_after (Usart_Interrupt q isrflags DR) s bs = (if reads_data isrflags s then bs @ [ucast DR] else bs)"
    using w(6) by simp
  consider "flags = 0" "byte" | "flags \<noteq> 0" "RXNEIE s" "ErrorCode s1 \<noteq> 0" | "flags \<noteq> 0" "RXNEIE s" "ErrorCode s1 = 0"
    | "\<not> (flags = 0 \<and> byte)" "\<not> (flags \<noteq> 0 \<and> RXNEIE s)" by blast
  then show thesis
  proof cases
    case 1
    then obtain s' where "UART_Receive_IT DR s = Some s'" "receiving s' (bs @ [ucast DR])" "transmit_successful s' = transmit_successful s"
      using listening_byte [OF s] by (auto simp: byte_def)
    then show ?thesis using that [of s'] 1 unfolding h a rd by simp
  next
    case 2
    obtain s2 where s2: "(if byte then UART_Receive_IT DR s1 else Some s1) = Some s2" "receiving s2 (if byte then bs @ [ucast DR] else bs)"
      "transmit_successful s2 = transmit_successful s"
    proof (cases byte)
      case True
      then show ?thesis using listening_byte [OF s1(1)] that s1(2,3) byte_def by (metis (full_types))
    next
      case False
      then show ?thesis using that [of s1] s1 by simp
    qed
    let ?bs = "if byte then bs @ [ucast DR] else bs"
    note w2 = receiving_weakens [OF s2(2)]
    have e: "received_after (Usart_Interrupt q isrflags DR) s bs = ?bs" using 2 s1(4) unfolding a rd by simp
    show ?thesis
    proof (cases "ErrorCode s2 AND HAL_UART_ERROR_ORE \<noteq> 0")
      case True
      have "format_ok (UART_EndRxTransfer s2)" "buffered (UART_EndRxTransfer s2) ?bs" "transmission_off (UART_EndRxTransfer s2)"
        "\<not> de_pin (UART_EndRxTransfer s2)" "port_phase (UART_EndRxTransfer s2) = RS485_PHASE_RECEIVING"
        "transmit_successful (UART_EndRxTransfer s2) = transmit_successful s"
        using w2 s2(3) by (simp_all add: UART_EndRxTransfer_def format_ok_def buffered_def has_buffer_def transmission_off_def)
      then obtain s3 where "rs485_uart_error_callback q (UART_EndRxTransfer s2) = Some s3" "receiving s3 ?bs"
        "transmit_successful s3 = transmit_successful s" using error_ends_reception by metis
      then show ?thesis using that [of s3] 2 True s2(1) unfolding h e by simp
    next
      case False
      obtain s3 where "rs485_uart_error_callback q s2 = Some s3" "receiving (s3\<lparr>ErrorCode := 0\<rparr>) ?bs"
        "transmit_successful s3 = transmit_successful s2" using error_ends_reception [OF w2(1-5), of q 0] by metis
      then show ?thesis using that [of "s3\<lparr>ErrorCode := 0\<rparr>"] 2 False s2(1,3) unfolding h e by simp
    qed
  next
    case 3
    then show ?thesis using that [of s1] s1 unfolding h a rd by simp
  next
    case 4
    then have "\<not> reads_data isrflags s" unfolding rd byte_def by auto
    then show ?thesis using that [of s] s 4 w(9) unfolding h a by auto
  qed
qed

section \<open>The hardware keeps the invariant\<close>

lemma hardware_receiving:
  assumes s: "receiving s bs" and e: "interrupt e s = Some s'"
  shows "receiving s' (received_after e s bs)" "transmit_successful s' = transmit_successful s"
proof -
  have "receiving s' (received_after e s bs) \<and> transmit_successful s' = transmit_successful s"
  proof (cases e)
    case Timer_Elapsed
    show ?thesis
    proof (cases "counting s \<and> ARR s \<noteq> 0")
      case True
      then obtain t where "rs485_t35_elapsed_callback (s\<lparr>counting := False\<rparr>) = Some t" "receiving t bs" "transmit_successful t = transmit_successful s"
        using silence_ends_reception [OF s] by blast
      then show ?thesis using e True Timer_Elapsed by simp
    next
      case False
      then show ?thesis using e s Timer_Elapsed by auto
    qed
  next
    case (Usart_Interrupt q isrflags DR)
    then show ?thesis using e usart_while_receiving [OF s, of q isrflags DR] by (metis interrupt.simps(4) option.inject)
  qed (use e s receiving_weakens(7) [OF s] in simp_all)
  then show "receiving s' (received_after e s bs)" "transmit_successful s' = transmit_successful s" by simp_all
qed

lemma hardware_transmitting:
  assumes s: "transmitting s" and e: "interrupt e s = Some s'"
  shows "transmitting s' \<or> receiving s' (received_after e s bs) \<and> transmit_successful s'"
proof (cases e)
  case Timer_Elapsed
  then show ?thesis using e s by (simp add: transmitting_def)
next
  case Dma_Complete
  then show ?thesis using e s by (auto simp: UART_DMATransmitCplt_def rs485_states split: if_splits)
next
  case (Dma_Error q)
  then show ?thesis using e s
    by (auto simp: UART_DMAError_def rs485_uart_error_callback_def UART_EndTxTransfer_def rs485_states Let_def split: if_splits)
next
  case (Usart_Interrupt q isrflags DR)
  have off: "\<not> RXNEIE s" "\<not> EIE s" "\<not> PEIE s" using s by (simp_all add: rs485_states)
  show ?thesis
  proof (cases "isrflags AND USART_SR_TC \<noteq> 0 \<and> TCIE s")
    case True
    then obtain t where "UART_EndTransmit_IT s = Some t" "receiving t []" "transmit_successful t" using transmission_ends [OF s] by blast
    then show ?thesis using e off True Usart_Interrupt by (simp add: HAL_UART_IRQHandler_def Let_def reads_data_def)
  next
    case False
    then show ?thesis using e off s Usart_Interrupt by (simp add: HAL_UART_IRQHandler_def Let_def split: if_splits)
  qed
qed

text \<open>With the serial interface off only the timer has anything to say.\<close>

lemma hardware_off:
  assumes "reception_off s" "transmission_off s" "interrupt e s = Some s'"
  shows "received_after e s bs = bs"
    "s' = s \<or> counting s \<and> rs485_t35_elapsed_callback (s\<lparr>counting := False\<rparr>) = Some s'"
proof -
  have t: "\<not> TCIE s" "\<not> dma_tx s" using assms(2) by (simp_all add: transmission_off_def)
  show "received_after e s bs = bs" by (cases e) (use usart_while_off(2) [OF assms(1) t(1)] in simp_all)
  show "s' = s \<or> counting s \<and> rs485_t35_elapsed_callback (s\<lparr>counting := False\<rparr>) = Some s'"
  proof (cases e)
    case (Usart_Interrupt q isrflags DR)
    then show ?thesis using usart_while_off(1) [OF assms(1) t(1)] assms(3) by simp
  qed (use assms(3) t(2) in \<open>auto split: if_splits\<close>)
qed

lemma hardware_guarding:
  assumes "guarding s" "interrupt e s = Some s'"
  shows "guarding s'" "recv_completed_semaphore s' = recv_completed_semaphore s"
  using hardware_off(2) [OF _ _ assms(2)] assms(1)
  by (auto simp: rs485_t35_elapsed_callback_def rs485_states)

lemma hardware_stopped:
  assumes "stopped s" "interrupt e s = Some s'"
  shows "stopped s'" "de_pin s' = de_pin s"
  using hardware_off(2) [OF _ _ assms(2)] assms(1)
  by (auto simp: rs485_t35_elapsed_callback_def HAL_UART_AbortReceive_def rs485_states)

lemma hardware_silent:
  assumes "silent s" "interrupt e s = Some s'"
  shows "s' = s" "received_after e s bs = bs"
  using hardware_off [OF _ _ assms(2)] assms(1) by (auto simp: silent_def)

lemma hardware_keeps_inv:
  assumes "rs485_inv p s bs" "interrupt e s = Some s'"
  shows "rs485_inv p s' (received_after e s bs)"
proof (cases p)
  case (Returned r n)
  then show ?thesis using assms hardware_silent(1) [of s e s'] hardware_silent(2) [of s e s'] by auto
next
  case (Await_Sent t n)
  then show ?thesis using assms hardware_transmitting hardware_receiving by auto
next
  case (Sent_Expired n)
  then show ?thesis using assms hardware_transmitting hardware_receiving(1) by auto
next
  case (Sent_Aborted n)
  then show ?thesis using assms hardware_stopped(1) hardware_receiving(1) by auto
qed (use assms hardware_stopped hardware_guarding hardware_receiving(1) in auto)

section \<open>The task keeps the invariant\<close>

lemma receiving_taken [simp]:
  "receiving (s\<lparr>send_completed_semaphore := b\<rparr>) bs = receiving s bs"
  "receiving (s\<lparr>first_byte_semaphore := b\<rparr>) bs = receiving s bs"
  by (simp_all add: receiving_def listening_def buffered_def rs485_states)

lemma receiving_aborted:
  assumes "receiving s bs"
  shows "stopped (snd (HAL_UART_AbortReceive s))" "\<not> de_pin (snd (HAL_UART_AbortReceive s))"
  using assms by (auto simp: HAL_UART_AbortReceive_def receiving_def buffered_def rs485_states)

lemma aborted_transmission:
  "transmitting s \<Longrightarrow> stopped (snd (HAL_UART_AbortTransmit q s))"
  "receiving s bs \<Longrightarrow> receiving (snd (HAL_UART_AbortTransmit q s)) bs"
  by (auto simp: HAL_UART_AbortTransmit_def Let_def rs485_states)
    (simp_all add: receiving_def listening_def buffered_def rs485_states)

lemma stopped_stops:
  assumes "stopped s"
  shows "silent ((timer_stop s)\<lparr>de_pin := d, port_phase := p\<rparr>)" "format_ok ((timer_stop s)\<lparr>de_pin := d, port_phase := p\<rparr>)"
    "silent ((timer_stop s)\<lparr>port_phase := p\<rparr>)" "format_ok ((timer_stop s)\<lparr>port_phase := p\<rparr>)"
    "de_pin ((timer_stop s)\<lparr>port_phase := p\<rparr>) = de_pin s"
  using assms by (simp_all add: timer_stop_stops rs485_states)

lemma guarding_stops:
  assumes "guarding s"
  shows "silent ((timer_stop s)\<lparr>de_pin := d, port_phase := p\<rparr>)" "format_ok ((timer_stop s)\<lparr>de_pin := d, port_phase := p\<rparr>)"
  using assms by (simp_all add: timer_stop_stops rs485_states)

lemma taken_response:
  assumes "receiving s bs" "recv_completed_semaphore s"
  shows "rs485_inv (fst (take_response n (s\<lparr>recv_completed_semaphore := False\<rparr>))) (snd (take_response n (s\<lparr>recv_completed_semaphore := False\<rparr>))) bs"
  using assms by (auto simp: take_response_def Let_def receiving_def listening_def buffered_def rs485_states)

lemma task_keeps_inv:
  assumes "rs485_inv p s bs" "transceive_step c p s = Some (p', s')"
    and "\<And>response request_length response_timeout_ms n. c = Call response request_length response_timeout_ms n \<Longrightarrow>
      MODBUS_RTU_MAX_LENGTH \<le> length response"
  shows "rs485_inv p' s' bs"
  using assms
proof (induction c p s rule: transceive_step.induct)
  case (1 response request_length t n' r n s)
  then show ?case by (auto simp: transceive_begin_def Let_def timer_set_starts rs485_states)
next
  case (2 q request_length t n s)
  then show ?case
    by (auto simp: start_transmission_def HAL_UART_Transmit_DMA_def Let_def rs485_states split: if_splits option.splits)
next
  case (5 q t n s)
  then have "transmitting s \<and> \<not> transmit_successful s \<or> receiving s bs \<and> transmit_successful s" "send_completed_semaphore s"
    by (auto simp: transmitting_def split: if_splits)
  then show ?case using 5(2)
    by (auto simp: check_transmitted_def transmitting_def silent_def format_ok_def reception_off_def transmission_off_def)
next
  case (7 q n s)
  then show ?case
    by (auto simp: aborted_transmission)
next
  case (8 q n s)
  then show ?case using receiving_aborted [of s bs]
    by (auto simp: HAL_UART_AbortReceive_def stopped_def format_ok_def has_buffer_def reception_off_def transmission_off_def)
next
  case (14 q n s)
  then show ?case using taken_response [of s bs n] by (auto split: if_splits)
qed (auto simp: stopped_stops guarding_stops receiving_aborted split: if_splits)

definition character_bits :: "rs485 \<Rightarrow> nat" where
  "character_bits s = 1 + (if word_length_9b s then 9 else 8) + (if stop_bits_2 s then 2 else 1)"

lemma frame_format_set:
  assumes "set_frame_format format s = Some s'"
  shows "word_length_9b s' \<longleftrightarrow> \<not> parity_none s'"
    "character_bits s' = (if format = CONFIGURATION_FRAME_FORMAT_8N1 then 10 else 11)"
    "\<exists>w b q. s' = s\<lparr>word_length_9b := w, stop_bits_2 := b, parity_none := q\<rparr>"
proof -
  consider "s' = s\<lparr>word_length_9b := False, stop_bits_2 := False, parity_none := True\<rparr>" "format = CONFIGURATION_FRAME_FORMAT_8N1"
    | "s' = s\<lparr>word_length_9b := True, stop_bits_2 := False, parity_none := False\<rparr>" "format \<noteq> CONFIGURATION_FRAME_FORMAT_8N1"
    | "s' = s\<lparr>word_length_9b := False, stop_bits_2 := True, parity_none := True\<rparr>" "format \<noteq> CONFIGURATION_FRAME_FORMAT_8N1"
    using assms unfolding set_frame_format_def by (auto split: if_splits)
  note c = this
  show "word_length_9b s' \<longleftrightarrow> \<not> parity_none s'" by (rule c) simp_all
  show "character_bits s' = (if format = CONFIGURATION_FRAME_FORMAT_8N1 then 10 else 11)" by (rule c) (simp_all add: character_bits_def)
  show "\<exists>w b q. s' = s\<lparr>word_length_9b := w, stop_bits_2 := b, parity_none := q\<rparr>" by (rule c) blast+
qed

lemma port_initialised:
  assumes "modbus_rtu_rs485_port_init rate format rs485_reset = Some s"
  shows "word_length_9b s \<longleftrightarrow> \<not> parity_none s" "character_bits s = (if format = CONFIGURATION_FRAME_FORMAT_8N1 then 10 else 11)"
    "port_baud_rate s = rate" "port_frame_format s = format" "silent s" "\<not> de_pin s" "port_phase s = RS485_PHASE_IDLE"
proof -
  obtain s2 where f: "set_frame_format format (rs485_reset\<lparr>send_completed_semaphore := False, recv_completed_semaphore := False,
      first_byte_semaphore := False, de_pin := False, init_baud_rate := rate\<rparr>) = Some s2"
    using assms by (auto simp: modbus_rtu_rs485_port_init_def Let_def split: option.splits)
  define s4 where "s4 = (snd (HAL_UART_Init s2))\<lparr>port_baud_rate := rate, port_frame_format := format\<rparr>"
  have s: "s = s4"
    using assms by (simp add: modbus_rtu_rs485_port_init_def Let_def f HAL_UART_Init_def s4_def split: if_splits)
  obtain w b q where s2: "s2 = rs485_reset\<lparr>send_completed_semaphore := False, recv_completed_semaphore := False,
      first_byte_semaphore := False, de_pin := False, init_baud_rate := rate\<rparr>\<lparr>word_length_9b := w, stop_bits_2 := b, parity_none := q\<rparr>"
    using frame_format_set(3) [OF f] by blast
  show "word_length_9b s \<longleftrightarrow> \<not> parity_none s" "character_bits s = (if format = CONFIGURATION_FRAME_FORMAT_8N1 then 10 else 11)"
    using frame_format_set(1,2) [OF f] by (simp_all add: s s4_def HAL_UART_Init_def character_bits_def)
  show "port_baud_rate s = rate" "port_frame_format s = format" by (simp_all add: s s4_def)
  show "silent s" "\<not> de_pin s" "port_phase s = RS485_PHASE_IDLE"
    unfolding s s4_def s2 by (simp_all add: HAL_UART_Init_def rs485_reset_def rs485_states)
qed

lemma rs485_reachable_inv: "rs485_reachable p s bs \<Longrightarrow> rs485_inv p s bs"
proof (induction rule: rs485_reachable.induct)
  case (start rate format s)
  have "format_ok s" using port_initialised(1,4) [OF start(3)] start(2) by (simp add: format_ok_def)
  then show ?case using port_initialised(5-7) [OF start(3)] by simp
next
  case (task p s bs c p' s')
  show ?case by (rule task_keeps_inv [OF task.IH task.hyps(2)]) (use task.hyps(3) in blast)
next
  case (hardware p s bs e s')
  show ?case by (rule hardware_keeps_inv [OF hardware.IH hardware.hyps(2)])
qed

definition half_duplex :: "rs485 \<Rightarrow> bool" where
  "half_duplex s \<longleftrightarrow> (dma_tx s \<or> TCIE s \<longrightarrow> de_pin s \<and> \<not> RXNEIE s) \<and>
     (RXNEIE s \<longrightarrow> \<not> de_pin s \<and> RxXferCount s = 1 \<and> (\<exists>b. rx_buffer s = Some b \<and> pRxBuffPtr s < length b))"

lemma receiving_half_duplex: "receiving s bs \<Longrightarrow> half_duplex s"
  unfolding receiving_def half_duplex_def by (auto simp: listening_def buffered_def has_buffer_def transmission_off_def reception_off_def)

lemma transmitting_half_duplex: "transmitting s \<Longrightarrow> half_duplex s"
  by (simp add: transmitting_def half_duplex_def reception_off_def)

lemma half_duplex_off:
  "silent s \<Longrightarrow> half_duplex s" "guarding s \<Longrightarrow> half_duplex s" "stopped s \<Longrightarrow> half_duplex s"
  by (simp_all add: silent_def guarding_def stopped_def half_duplex_def reception_off_def transmission_off_def)

text \<open>
  C20. The bus is half duplex and the port keeps it so, however interrupts and task interleave and whichever hardware calls
  fail: while the request is sent the driver is enabled and nothing is received, while a response is received the driver
  is off, every byte is stored inside the response buffer, and when the call returns, the driver is off, the timer is
  stopped and no interrupt is enabled, so that nothing of one transaction can reach the next.
\<close>

theorem rs485_half_duplex:
  assumes "rs485_reachable p s bs"
  shows "(dma_tx s \<or> TCIE s \<longrightarrow> de_pin s \<and> \<not> RXNEIE s) \<and>
    (RXNEIE s \<longrightarrow> \<not> de_pin s \<and> RxXferCount s = 1 \<and> (\<exists>b. rx_buffer s = Some b \<and> pRxBuffPtr s < length b)) \<and>
    (\<forall>r n. p = Returned r n \<longrightarrow> silent s \<and> \<not> de_pin s \<and> port_phase s = RS485_PHASE_IDLE)"
proof -
  have i: "rs485_inv p s bs" by (rule rs485_reachable_inv [OF assms])
  have "half_duplex s" using i by (cases p) (auto simp: half_duplex_off receiving_half_duplex transmitting_half_duplex)
  moreover have "silent s \<and> \<not> de_pin s \<and> port_phase s = RS485_PHASE_IDLE" if "p = Returned r n" for r n
    using i that by simp
  ultimately show ?thesis by (simp add: half_duplex_def)
qed

text \<open>
  C22. What a successful call hands out is what the slave sent: \<open>*receive_len\<close> is the number of bytes taken from the line
  since the end of the request, between 1 and 256, and the response buffer starts with exactly these bytes.
\<close>

theorem rs485_response_delivered:
  assumes "rs485_reachable (Returned MODBUS_RTU_RS485_PORT_RESULT_OK n) s bs"
  shows "unat n = length bs \<and> 1 \<le> length bs \<and> length bs \<le> 256 \<and> (\<exists>b. rx_buffer s = Some b \<and> take (length bs) b = bs)"
  using rs485_reachable_inv [OF assms] by (auto simp: buffered_def has_buffer_def Suc_le_eq)

text \<open>The steps of the task left until it returns.\<close>

fun steps_left :: "rs485_place \<Rightarrow> nat" where
  "steps_left (Returned r n) = 0"
| "steps_left (Await_Guard request_length t n) = 7"
| "steps_left (Guard_Expired n) = 1"
| "steps_left (Await_Sent t n) = 6"
| "steps_left (Sent_Expired n) = 3"
| "steps_left (Sent_Aborted n) = 2"
| "steps_left (Sent_Receive_Aborted n) = 1"
| "steps_left (Await_First n) = 5"
| "steps_left (First_Expired n) = 2"
| "steps_left (First_Aborted n) = 1"
| "steps_left (Await_Rest n) = 4"
| "steps_left (Rest_Expired n) = 2"
| "steps_left (Rest_Aborted n) = 1"

lemma next_step:
  assumes "rs485_inv p s bs" "\<And>r n. p \<noteq> Returned r n"
  obtains c p' s' where "transceive_step c p s = Some (p', s')"
proof -
  have "\<exists>c p' s'. transceive_step c p s = Some (p', s')"
  proof (cases p)
    case (Await_Guard m t n)
    have "frame_format_is_valid (port_frame_format s)" using assms(1) Await_Guard by (simp add: guarding_def format_ok_def)
    then have "\<exists>p' s'. start_transmission True m t n (s\<lparr>send_completed_semaphore := False\<rparr>) = Some (p', s')"
      by (auto simp: start_transmission_def HAL_UART_Transmit_DMA_def rs485_calculate_tx_timeout_ticks_def frame_format_is_valid_def Let_def)
    then show ?thesis using Await_Guard
      by (cases "send_completed_semaphore s") (metis transceive_step.simps(2), metis transceive_step.simps(3))
  next
    case (Await_Sent t n)
    then show ?thesis
      by (cases "send_completed_semaphore s") (metis transceive_step.simps(5) surj_pair, metis transceive_step.simps(6))
  next
    case (Await_First n)
    then show ?thesis by (cases "first_byte_semaphore s") (metis transceive_step.simps(10), metis transceive_step.simps(11))
  next
    case (Await_Rest n)
    then show ?thesis
      by (cases "recv_completed_semaphore s") (metis transceive_step.simps(14) surj_pair, metis transceive_step.simps(15))
  qed (use assms(2) in \<open>auto intro!: exI [of _ "Continue True"]\<close>)
  then show thesis using that by blast
qed

lemma hardware_never_stops:
  assumes "rs485_inv p s bs"
  shows "interrupt e s \<noteq> None"
proof -
  have t: "rs485_t35_elapsed_callback x \<noteq> None" for x by (simp add: rs485_t35_elapsed_callback_def)
  have d: "UART_DMAError q x \<noteq> None" for q x by (simp add: UART_DMAError_def rs485_uart_error_callback_def Let_def)
  have off: "HAL_UART_IRQHandler q f b s \<noteq> None" if "reception_off s" "transmission_off s" for q f b
    using usart_while_off(1) that by (auto simp: transmission_off_def)
  have rx: "HAL_UART_IRQHandler q f b s \<noteq> None" if "receiving s bs" for q f b
    using usart_while_receiving [OF that] by (metis option.distinct(1))
  have tx: "HAL_UART_IRQHandler q f b s \<noteq> None" if "transmitting s" for q f b
  proof (cases "TCIE s")
    case True
    then have "UART_EndTransmit_IT s \<noteq> None" using transmission_ends [OF that] by (metis option.distinct(1))
    then show ?thesis using that by (simp add: HAL_UART_IRQHandler_def transmitting_def reception_off_def Let_def)
  next
    case False
    then show ?thesis using usart_while_off(1) that by (simp add: transmitting_def)
  qed
  have "HAL_UART_IRQHandler q f b s \<noteq> None" for q f b
    using assms off rx tx by (cases p) (auto simp: silent_def guarding_def stopped_def)
  then show ?thesis by (cases e) (use t d in auto)
qed

text \<open>
  C40. A transaction always ends: in every reachable state the next interrupt is handled without ending in
  \<open>Error_Handler\<close> and leaves the task where it is; inside a call the task can always go on, at a wait because it is
  signalled or because its time is over, and every step it takes brings it nearer to the return, which is at most
  seven steps away.
\<close>

theorem rs485_transaction_ends:
  assumes "rs485_reachable p s bs"
  shows "interrupt e s \<noteq> None \<and> steps_left p \<le> 7 \<and>
    (steps_left p \<noteq> 0 \<longrightarrow> (\<exists>c p' s'. transceive_step c p s = Some (p', s'))) \<and>
    (\<forall>c p' s'. steps_left p \<noteq> 0 \<and> transceive_step c p s = Some (p', s') \<longrightarrow> steps_left p' < steps_left p)"
proof -
  note i = rs485_reachable_inv [OF assms]
  have "\<exists>c p' s'. transceive_step c p s = Some (p', s')" if "steps_left p \<noteq> 0"
    using next_step [OF i] that by (metis steps_left.simps(1))
  moreover have "steps_left p' < steps_left p" if "steps_left p \<noteq> 0" "transceive_step c p s = Some (p', s')" for c p' s'
    using that by (induction c p s rule: transceive_step.induct)
      (auto simp: start_transmission_def check_transmitted_def take_response_def Let_def split: if_splits option.splits prod.splits)
  moreover have "steps_left p \<le> 7" by (cases p) simp_all
  ultimately show ?thesis using hardware_never_stops [OF i] by blast
qed

text \<open>Runs, for concrete examples.\<close>

fun rs485_run :: "(rs485_choice + rs485_event) list \<Rightarrow> rs485_place \<times> rs485 \<times> u8 list \<Rightarrow> (rs485_place \<times> rs485 \<times> u8 list) option" where
  "rs485_run [] x = Some x"
| "rs485_run (Inl c # xs) (p, s, bs) =
     (if (case c of Call response request_length t n \<Rightarrow> MODBUS_RTU_MAX_LENGTH \<le> length response | _ \<Rightarrow> True)
      then case transceive_step c p s of None \<Rightarrow> None | Some (p', s') \<Rightarrow> rs485_run xs (p', s', bs) else None)"
| "rs485_run (Inr e # xs) (p, s, bs) =
     (case interrupt e s of None \<Rightarrow> None | Some s' \<Rightarrow> rs485_run xs (p, s', received_after e s bs))"

lemma rs485_run_reachable:
  "rs485_run xs (p, s, bs) = Some (p', s', bs') \<Longrightarrow> rs485_reachable p s bs \<Longrightarrow> rs485_reachable p' s' bs'"
proof (induction xs arbitrary: p s bs)
  case (Cons x xs)
  show ?case
  proof (cases x)
    case (Inl c)
    then obtain q t where "transceive_step c p s = Some (q, t)" and r: "rs485_run xs (q, t, bs) = Some (p', s', bs')"
      and "case c of Call response request_length t n \<Rightarrow> MODBUS_RTU_MAX_LENGTH \<le> length response | _ \<Rightarrow> True"
      using Cons.prems(1) by (auto split: if_splits option.splits)
    then have "rs485_reachable q t bs" by (intro task [OF Cons.prems(2)]) auto
    then show ?thesis by (rule Cons.IH [OF r])
  next
    case (Inr e)
    then obtain t where "interrupt e s = Some t" and r: "rs485_run xs (p, t, received_after e s bs) = Some (p', s', bs')"
      using Cons.prems(1) by (auto split: option.splits)
    then have "rs485_reachable p t (received_after e s bs)" by (intro hardware [OF Cons.prems(2)])
    then show ?thesis by (rule Cons.IH [OF r])
  qed
qed simp

definition initialised :: rs485 where
  "initialised = (case modbus_rtu_rs485_port_init 9600 CONFIGURATION_FRAME_FORMAT_8N2 rs485_reset of None \<Rightarrow> rs485_reset | Some s \<Rightarrow> s)"

definition after :: "(rs485_choice + rs485_event) list \<Rightarrow> (rs485_place \<times> rs485 \<times> u8 list) option" where
  "after xs = rs485_run xs (Returned MODBUS_RTU_RS485_PORT_RESULT_UART_ERROR 0, initialised, [])"

lemma after_reachable: "after xs = Some (p, s, bs) \<Longrightarrow> rs485_reachable p s bs"
proof -
  have "modbus_rtu_rs485_port_init 9600 CONFIGURATION_FRAME_FORMAT_8N2 rs485_reset = Some initialised" by code_simp
  moreover have "baud_rate_is_valid 9600" "frame_format_is_valid CONFIGURATION_FRAME_FORMAT_8N2" by code_simp+
  ultimately have "rs485_reachable (Returned MODBUS_RTU_RS485_PORT_RESULT_UART_ERROR 0) initialised []" using start by blast
  then show "after xs = Some (p, s, bs) \<Longrightarrow> rs485_reachable p s bs" unfolding after_def by (rule rs485_run_reachable [rotated])
qed

text \<open>A request is sent and a response of two bytes received.\<close>

definition request_sent :: "(rs485_choice + rs485_event) list" where
  "request_sent = [Inl (Call (replicate 256 0) 8 1000 0), Inr Timer_Elapsed, Inl (Continue True), Inr Dma_Complete,
     Inr (Usart_Interrupt False USART_SR_TC 0), Inl (Continue True)]"

definition response_received :: "(rs485_choice + rs485_event) list" where
  "response_received = [Inr (Usart_Interrupt False USART_SR_RXNE 0x01), Inl (Continue True), Inr (Usart_Interrupt False USART_SR_RXNE 0x83),
     Inr Timer_Elapsed, Inl (Continue True)]"

lemma example_transaction:
  "case after request_sent of Some (p, s, bs) \<Rightarrow> p = Await_First 0 \<and> RXNEIE s | None \<Rightarrow> False"
  "case after (request_sent @ response_received) of Some (p, s, bs) \<Rightarrow> p = Returned MODBUS_RTU_RS485_PORT_RESULT_OK 2 \<and> bs = [0x01, 0x83] | None \<Rightarrow> False"
  by code_simp+

theorem rs485_half_duplex_witness: "\<exists>p s bs. after request_sent = Some (p, s, bs) \<and> RXNEIE s \<and> \<not> de_pin s"
proof -
  obtain p s bs where s: "after request_sent = Some (p, s, bs)" "RXNEIE s" using example_transaction(1) by (auto split: option.splits prod.splits)
  then show ?thesis using rs485_half_duplex [OF after_reachable [OF s(1)]] by blast
qed

theorem rs485_response_delivered_witness:
  "\<exists>s b. after (request_sent @ response_received) = Some (Returned MODBUS_RTU_RS485_PORT_RESULT_OK 2, s, [0x01, 0x83]) \<and>
    rx_buffer s = Some b \<and> take 2 b = [0x01, 0x83]"
proof -
  obtain s where s: "after (request_sent @ response_received) = Some (Returned MODBUS_RTU_RS485_PORT_RESULT_OK 2, s, [0x01, 0x83])"
    using example_transaction(2) by (auto split: option.splits prod.splits)
  then show ?thesis using rs485_response_delivered [OF after_reachable [OF s]] by (auto simp: numeral_2_eq_2)
qed

theorem rs485_transaction_ends_witness: "\<exists>p s bs. after request_sent = Some (p, s, bs) \<and> interrupt Timer_Elapsed s \<noteq> None"
proof -
  obtain p s bs where s: "after request_sent = Some (p, s, bs)" using example_transaction(1) by (auto split: option.splits prod.splits)
  then show ?thesis using rs485_transaction_ends [OF after_reachable [OF s], of Timer_Elapsed] by blast
qed

lemma tx_ticks:
  fixes count :: u16 and rate bits :: u32
  assumes "1200 \<le> unat rate" "bits = 10 \<or> bits = 11"
  shows "unat (ucast ((ucast count * ucast bits * configTICK_RATE_HZ + ucast rate - 1) div ucast rate +
      (RS485_TX_TIMEOUT_GUARD_MS * configTICK_RATE_HZ + 999) div 1000) :: u32) = 500 + cdiv (unat count * unat bits * 1000) (unat rate)"
proof -
  have c: "unat count < 65536" using unsigned_less [of count, where 'a = nat] by simp
  have b: "unat bits \<le> 11" using assms(2) by auto
  have r: "unat rate < 4294967296" using unsigned_less [of rate, where 'a = nat] by simp
  define m where "m = unat count * unat bits"
  have "m \<le> 65535 * 11" unfolding m_def using c b by (intro mult_le_mono) linarith+
  then have m: "m * 1000 \<le> 720885000" by simp
  have u: "unat (ucast count :: u64) = unat count" "unat (ucast bits :: u64) = unat bits" "unat (ucast rate :: u64) = unat rate"
    by (rule unat_ucast_upcast_gen, simp)+
  have m1: "unat (ucast count * ucast bits :: u64) = m" unfolding unat_word_ariths u m_def [symmetric] using m by simp
  have m2: "unat (ucast count * ucast bits * 1000 :: u64) = m * 1000" unfolding unat_word_ariths(2) [of "ucast count * ucast bits"] m1 using m by simp
  have m3: "unat (ucast count * ucast bits * 1000 + ucast rate :: u64) = m * 1000 + unat rate" unfolding unat_word_ariths(1) m2 u using m r by simp
  have m4: "unat (ucast count * ucast bits * 1000 + ucast rate - 1 :: u64) = m * 1000 + unat rate - 1"
    using assms(1) m3 by (subst unat_sub) (simp_all add: word_le_nat_alt)
  have d: "unat ((ucast count * ucast bits * 1000 + ucast rate - 1) div ucast rate :: u64) = cdiv (m * 1000) (unat rate)"
    by (simp only: unat_div m4 u cdiv_def)
  have le: "cdiv (m * 1000) (unat rate) \<le> 720885000 + 1"
  proof -
    have "cdiv (m * 1000) (unat rate) \<le> (m * 1000 + unat rate) div unat rate" unfolding cdiv_def by (intro div_le_mono) simp
    also have "\<dots> = m * 1000 div unat rate + 1" using assms(1) by (subst div_add_self2) simp_all
    also have "\<dots> \<le> m * 1000 + 1" by simp
    finally show ?thesis using m by linarith
  qed
  have g: "(RS485_TX_TIMEOUT_GUARD_MS * configTICK_RATE_HZ + 999) div 1000 = 500" by code_simp
  have s: "unat ((ucast count * ucast bits * 1000 + ucast rate - 1) div ucast rate + 500 :: u64) = cdiv (m * 1000) (unat rate) + 500"
    unfolding unat_word_ariths(1) d using le by simp
  have "unat (ucast ((ucast count * ucast bits * 1000 + ucast rate - 1) div ucast rate + 500 :: u64) :: u32) = cdiv (m * 1000) (unat rate) + 500"
    using le s by (simp add: unsigned_ucast_eq take_bit_eq_mod)
  then show ?thesis unfolding g m_def by simp
qed

text \<open>
  The timing of the port: the silence that ends a frame is that of 3.5 characters of 11 bits as the configuration module
  computes it, and the timer is set to exactly that many microseconds; the time allowed for sending is the time the
  characters of the configured format take, rounded up to milliseconds, and 500 ms.
\<close>

theorem rs485_port_timing:
  assumes "baud_rate_is_valid rate" "frame_format_is_valid format" "modbus_rtu_rs485_port_init rate format rs485_reset = Some s"
  shows "rtu_baud_rate_to_t35_us rate = rtu_t35_us rate 11 \<and>
    (\<exists>s'. timer_set (ucast (rtu_baud_rate_to_t35_us rate)) s = Some s' \<and> unat (ARR s') + 1 = t35_spec (unat rate) 11) \<and>
    (\<exists>t. rs485_calculate_tx_timeout_ticks count s = Some t \<and>
      unat t = 500 + cdiv (unat count * character_bits s * 1000) (unat rate))"
proof -
  have rates: "rate = 1200 \<or> rate = 2400 \<or> rate = 4800 \<or> rate = 9600 \<or> rate = 19200 \<or> rate = 38400 \<or> rate = 57600 \<or> rate = 115200"
    using assms(1) by (simp add: baud_rate_is_valid_def)
  have t: "rtu_baud_rate_to_t35_us rate = rtu_t35_us rate 11"
    using rates by (elim disjE) (simp, code_simp)+
  have "unat (rtu_t35_us rate 11) = t35_spec (unat rate) 11"
    using rtu_t35_us_exact [OF assms(1), of 11] by simp
  moreover have "unat (ucast (if ucast x = (0 :: u16) then 1 else ucast x :: u16) - 1 :: u32) + 1 = unat x" if "x = rtu_baud_rate_to_t35_us rate" for x :: u32
    using rates unfolding that by (elim disjE) (simp_all add: rtu_baud_rate_to_t35_us_def)
  ultimately have a: "unat (ARR s') + 1 = t35_spec (unat rate) 11" if "timer_set (ucast (rtu_baud_rate_to_t35_us rate)) s = Some s'" for s'
    using that unfolding timer_set_starts t by auto
  have r: "1200 \<le> unat rate" using rates by auto
  note p = port_initialised [OF assms(3)]
  have "\<exists>t. rs485_calculate_tx_timeout_ticks count s = Some t \<and> unat t = 500 + cdiv (unat count * character_bits s * 1000) (unat rate)"
  proof (cases "format = CONFIGURATION_FRAME_FORMAT_8N1")
    case True
    then show ?thesis using tx_ticks [OF r, of 10 count] by (simp add: rs485_calculate_tx_timeout_ticks_def Let_def p(2-4))
  next
    case False
    then show ?thesis using tx_ticks [OF r, of 11 count] assms(2)
      by (auto simp: rs485_calculate_tx_timeout_ticks_def Let_def p(2-4) frame_format_is_valid_def)
  qed
  then show ?thesis using t a by (simp add: timer_set_starts)
qed

theorem rs485_port_timing_witness:
  "modbus_rtu_rs485_port_init 9600 CONFIGURATION_FRAME_FORMAT_8N2 rs485_reset = Some initialised \<and>
   (\<exists>t. rs485_calculate_tx_timeout_ticks 8 initialised = Some t \<and> unat t = 510)"
proof -
  have v: "baud_rate_is_valid 9600" "frame_format_is_valid CONFIGURATION_FRAME_FORMAT_8N2"
    "modbus_rtu_rs485_port_init 9600 CONFIGURATION_FRAME_FORMAT_8N2 rs485_reset = Some initialised" "character_bits initialised = 11" by code_simp+
  have "cdiv (8 * 11 * 1000) 9600 = 10" by (simp add: cdiv_def)
  then show ?thesis using rs485_port_timing [OF v(1-3), of 8] v(3,4) by simp
qed

end
