(* ===== verification/SNTP_Calendar.thy ===== *)
theory SNTP_Calendar
  imports Gateway_Prelude
begin

text \<open>
  The calendar conversions of \<open>app/SNTP/src/sntp_service.c\<close>, \<open>sntp_service_gmtime_r\<close> and \<open>sntp_service_mktime\<close>, against
  the Gregorian calendar in closed form. \<open>time_t\<close> has 32 bits without a sign.
\<close>

section \<open>Calendar\<close>

record tm =
  tm_sec :: int
  tm_min :: int
  tm_hour :: int
  tm_mday :: int
  tm_mon :: int
  tm_year :: int
  tm_wday :: int
  tm_yday :: int
  tm_isdst :: int

definition sntp_service_days_per_month :: "u32 list" where
  "sntp_service_days_per_month = [31, 28, 31, 30, 31, 30, 31, 31, 30, 31, 30, 31]"

definition sntp_service_is_leap_year :: "u32 \<Rightarrow> bool" where
  "sntp_service_is_leap_year year \<longleftrightarrow> year mod 4 = 0 \<and> (year mod 100 \<noteq> 0 \<or> year mod 400 = 0)"

definition sntp_service_get_days_in_month :: "u32 \<Rightarrow> u32 \<Rightarrow> u32" where
  "sntp_service_get_days_in_month year month =
     (let days_in_month = sntp_service_days_per_month ! unat month
      in if month = 1 \<and> sntp_service_is_leap_year year then days_in_month + 1 else days_in_month)"

text \<open>The two loops of \<open>sntp_service_gmtime_r\<close>: what is left of the days, and the year or month reached.\<close>

function year_loop :: "u32 \<Rightarrow> u32 \<Rightarrow> u32 \<times> u32" where
  "year_loop day_of_year year =
     (let days_in_year = (if sntp_service_is_leap_year year then 366 else 365)
      in if day_of_year < days_in_year then (day_of_year, year) else year_loop (day_of_year - days_in_year) (year + 1))"
  by auto
termination
proof (relation "measure (\<lambda>(day, year). unat day)", simp, unfold in_measure split)
  fix day year x :: u32
  assume "x = (if sntp_service_is_leap_year year then 366 else 365)" "\<not> day < x"
  then have x: "0 < unat x" "x \<le> day" by (auto split: if_splits)
  then have "unat x \<le> unat day" by (simp add: word_le_nat_alt)
  then show "unat (day - x) < unat day" using x by (simp add: unat_sub)
qed

function month_loop :: "u32 \<Rightarrow> u32 \<Rightarrow> u32 \<Rightarrow> u32 \<times> u32" where
  "month_loop year month day_of_year =
     (if month < 12
      then let days_in_month = sntp_service_get_days_in_month year month
           in if day_of_year < days_in_month then (month, day_of_year)
              else month_loop year (month + 1) (day_of_year - days_in_month)
      else (month, day_of_year))"
  by auto
termination
proof (relation "measure (\<lambda>(year, month, day). 12 - unat month)", simp, unfold in_measure split)
  fix month :: u32
  assume "month < 12"
  then have "unat month < 12" by (simp add: word_less_nat_alt)
  then show "12 - unat (month + 1) < 12 - unat month" by (simp add: unat_plus_small)
qed

declare year_loop.simps [simp del] month_loop.simps [simp del]

text \<open>Returned are what the function's result points to (\<open>None\<close> for \<open>NULL\<close>) and the cell \<open>result\<close>.\<close>

definition sntp_service_gmtime_r :: "u32 ptr \<Rightarrow> tm ptr \<Rightarrow> tm ptr \<times> tm ptr" where
  "sntp_service_gmtime_r timer result =
     (case (timer, result) of
        (Some t, Some _) \<Rightarrow>
          let s1 = t div 60; s2 = s1 div 60; days_since_epoch = s2 div 24;
              (day_of_year, year) = year_loop days_since_epoch 1970;
              (month, day_of_month) = month_loop year 0 day_of_year
          in if month = 12 then (None, result)
             else let calendar_time = \<lparr>tm_sec = uint (t mod 60), tm_min = uint (s1 mod 60), tm_hour = uint (s2 mod 24),
                        tm_mday = uint day_of_month + 1, tm_mon = uint month, tm_year = uint (year - 1900),
                        tm_wday = uint ((days_since_epoch + 4) mod 7), tm_yday = uint day_of_year, tm_isdst = 0\<rparr>
                  in (Some calendar_time, Some calendar_time)
      | _ \<Rightarrow> (None, result))"

abbreviation "time_error \<equiv> (0xFFFFFFFF :: u32)"

definition sntp_service_mktime :: "tm ptr \<Rightarrow> u32 \<times> tm ptr" where
  "sntp_service_mktime p =
     (case p of
        None \<Rightarrow> (time_error, p)
      | Some c \<Rightarrow>
          if tm_year c < 70 \<or> tm_year c > 206 \<or> tm_mon c < 0 \<or> tm_mon c > 11 \<or> tm_hour c < 0 \<or> tm_hour c > 23 \<or>
             tm_min c < 0 \<or> tm_min c > 59 \<or> tm_sec c < 0 \<or> tm_sec c > 59 then (time_error, p)
          else let year = of_int (tm_year c) + 1900; month = of_int (tm_mon c);
                   days_in_month = sntp_service_get_days_in_month year month
               in if tm_mday c < 1 \<or> of_int (tm_mday c) > days_in_month then (time_error, p)
                  else let days_since_epoch = fold (\<lambda>y d. d + (if sntp_service_is_leap_year (of_nat y) then 366 else 365))
                             [1970..<unat year] (0 :: u32);
                           day_of_year = fold (\<lambda>m d. d + sntp_service_get_days_in_month year (of_nat m))
                             [0..<unat month] (of_int (tm_mday c) - 1);
                           total_days = days_since_epoch + day_of_year;
                           total_seconds = (ucast total_days :: u64) * 86400 + ucast (of_int (tm_hour c) * 3600 :: u32) +
                             ucast (of_int (tm_min c) * 60 :: u32) + ucast (of_int (tm_sec c) :: u32)
                       in if total_seconds \<ge> 0xFFFFFFFF then (time_error, p)
                          else (ucast total_seconds,
                                Some (c\<lparr>tm_wday := uint ((total_days + 4) mod 7), tm_yday := uint day_of_year, tm_isdst := 0\<rparr>)))"

section \<open>The calendar in closed form\<close>

definition leap :: "nat \<Rightarrow> bool" where
  "leap y \<longleftrightarrow> 4 dvd y \<and> (\<not> 100 dvd y \<or> 400 dvd y)"

definition leaps_until :: "nat \<Rightarrow> nat" where
  "leaps_until n = n div 4 + n div 400 - n div 100"

definition year_length :: "nat \<Rightarrow> nat" where
  "year_length y = (if leap y then 366 else 365)"

definition month_length :: "nat \<Rightarrow> nat \<Rightarrow> nat" where
  "month_length y m = [31, 28, 31, 30, 31, 30, 31, 31, 30, 31, 30, 31] ! m + (if m = 1 \<and> leap y then 1 else 0)"

text \<open>The days from 1970-01-01 to the first of January, and from there to the first of a month (counted from 0).\<close>

definition epoch_days :: "nat \<Rightarrow> nat" where
  "epoch_days y = 365 * (y - 1970) + leaps_until (y - 1) - leaps_until 1969"

definition days_before_month :: "nat \<Rightarrow> nat \<Rightarrow> nat" where
  "days_before_month y m = [0, 31, 59, 90, 120, 151, 181, 212, 243, 273, 304, 334] ! m + (if 1 < m \<and> leap y then 1 else 0)"

definition valid_tm :: "tm \<Rightarrow> bool" where
  "valid_tm c \<longleftrightarrow> 70 \<le> tm_year c \<and> 0 \<le> tm_mon c \<and> tm_mon c \<le> 11 \<and> 1 \<le> tm_mday c \<and>
     tm_mday c \<le> int (month_length (nat (tm_year c + 1900)) (nat (tm_mon c))) \<and>
     0 \<le> tm_hour c \<and> tm_hour c \<le> 23 \<and> 0 \<le> tm_min c \<and> tm_min c \<le> 59 \<and> 0 \<le> tm_sec c \<and> tm_sec c \<le> 59"

definition year_day :: "tm \<Rightarrow> nat" where
  "year_day c = days_before_month (nat (tm_year c + 1900)) (nat (tm_mon c)) + nat (tm_mday c) - 1"

definition day_number :: "tm \<Rightarrow> nat" where
  "day_number c = epoch_days (nat (tm_year c + 1900)) + year_day c"

definition seconds_of :: "tm \<Rightarrow> nat" where
  "seconds_of c = 86400 * day_number c + 3600 * nat (tm_hour c) + 60 * nat (tm_min c) + nat (tm_sec c)"

lemma leap_word: "sntp_service_is_leap_year year \<longleftrightarrow> leap (unat year)"
proof -
  have "year mod k = 0 \<longleftrightarrow> unat k dvd unat year" for k :: u32
    by (metis dvd_eq_mod_eq_0 unat_eq_zero unat_mod)
  then show ?thesis by (simp add: sntp_service_is_leap_year_def leap_def)
qed

lemma div_Suc_dvd: "Suc n div k = n div k + (if k dvd Suc n then 1 else 0)"
  by (simp add: div_Suc dvd_eq_mod_eq_0)

lemma leaps_until_Suc: "leaps_until (Suc n) = leaps_until n + (if leap (Suc n) then 1 else 0)"
proof -
  define a b c where "a = (4 dvd Suc n)" and "b = (100 dvd Suc n)" and "c = (400 dvd Suc n)"
  define p q r where "p = n div 4" and "q = n div 100" and "r = n div 400"
  have h: "b \<Longrightarrow> a" "c \<Longrightarrow> b" unfolding a_def b_def c_def
    by (rule dvd_trans [of 4 100]; simp) (rule dvd_trans [of 100 400]; simp)
  have "q \<le> p" unfolding p_def q_def by (rule div_le_mono2) auto
  moreover have "leaps_until (Suc n) = p + (if a then 1 else 0) + (r + (if c then 1 else 0)) - (q + (if b then 1 else 0))"
    by (simp only: leaps_until_def div_Suc_dvd a_def b_def c_def p_def q_def r_def)
  moreover have "leaps_until n = p + r - q" by (simp only: leaps_until_def p_def q_def r_def)
  moreover have "leap (Suc n) = (a \<and> (\<not> b \<or> c))" by (simp only: leap_def a_def b_def c_def)
  ultimately show ?thesis using h by (cases a; cases b; cases c) simp_all
qed

lemma leaps_until_mono: "n \<le> m \<Longrightarrow> leaps_until n \<le> leaps_until m"
  by (rule lift_Suc_mono_le [of leaps_until]) (simp_all add: leaps_until_Suc)

lemma leaps_until_base: "1970 \<le> y \<Longrightarrow> leaps_until 1969 \<le> leaps_until (y - 1)"
  by (rule leaps_until_mono) simp

lemma epoch_days_Suc:
  assumes "1970 \<le> y"
  shows "epoch_days (Suc y) = epoch_days y + year_length y"
proof -
  define a b where "a = leaps_until 1969" and "b = leaps_until (y - 1)"
  have y: "Suc (y - 1) = y" using assms by simp
  have "leaps_until y = b + (if leap y then 1 else 0)" using leaps_until_Suc [of "y - 1"] by (simp only: y b_def)
  moreover have "a \<le> b" using leaps_until_base [OF assms] by (simp only: a_def b_def)
  moreover have "Suc y - 1970 = Suc (y - 1970)" using assms by simp
  ultimately show ?thesis
    unfolding epoch_days_def year_length_def diff_Suc_1 a_def [symmetric] b_def [symmetric]
    by (cases "leap y"; simp only: if_True if_False mult_Suc_right; linarith)
qed

lemma epoch_days_1970 [simp]: "epoch_days 1970 = 0" by (simp add: epoch_days_def)

lemma epoch_days_mono:
  assumes "1970 \<le> y" "y \<le> z"
  shows "epoch_days y \<le> epoch_days z"
  using assms(2) by (induction z rule: dec_induct) (use assms(1) in \<open>simp_all add: epoch_days_Suc\<close>)

lemma epoch_days_ge: "1970 \<le> y \<Longrightarrow> 365 * (y - 1970) \<le> epoch_days y"
  using leaps_until_base [of y] unfolding epoch_days_def by linarith

lemma month_cases: "m < 12 \<Longrightarrow> m \<in> {0, 1, 2, 3, 4, 5, 6, 7, 8, 9, 10, 11}" for m :: nat
  unfolding insert_iff empty_iff by presburger

lemma days_before_Suc:
  assumes "m < 11"
  shows "days_before_month y (Suc m) = days_before_month y m + month_length y m"
proof -
  have "m \<in> {0, 1, 2, 3, 4, 5, 6, 7, 8, 9, 10}" using month_cases [of m] assms by auto
  then show ?thesis by (auto simp: days_before_month_def month_length_def)
qed

lemma days_before_11: "days_before_month y 11 + month_length y 11 = year_length y"
  by (simp add: days_before_month_def month_length_def year_length_def)

lemma days_before_0 [simp]: "days_before_month y 0 = 0" by (simp add: days_before_month_def)

lemma month_length_bounds:
  assumes "m < 12"
  shows "28 \<le> month_length y m" "month_length y m \<le> 31"
proof -
  have "m \<in> {0, 1, 2, 3, 4, 5, 6, 7, 8, 9, 10, 11}" by (rule month_cases [OF assms])
  then show "28 \<le> month_length y m" "month_length y m \<le> 31" by (auto simp: month_length_def)
qed

lemma days_before_within:
  assumes "m < 12"
  shows "days_before_month y m + month_length y m \<le> year_length y"
proof -
  have "m \<in> {0, 1, 2, 3, 4, 5, 6, 7, 8, 9, 10, 11}" by (rule month_cases [OF assms])
  then show ?thesis by (auto simp: days_before_month_def month_length_def year_length_def)
qed

lemma days_in_month_word:
  assumes "unat month < 12"
  shows "unat (sntp_service_get_days_in_month year month) = month_length (unat year) (unat month)"
proof -
  have m: "unat month \<in> {0, 1, 2, 3, 4, 5, 6, 7, 8, 9, 10, 11}" by (rule month_cases [OF assms])
  have "month = 1 \<longleftrightarrow> unat month = 1" by (metis unat_1 word_unat_eq_iff)
  then show ?thesis using m
    by (auto simp: sntp_service_get_days_in_month_def sntp_service_days_per_month_def month_length_def leap_word)
qed
lemma year_loop_exact:
  assumes "year_loop day year = (day', year')" "1970 \<le> unat year" "unat year + unat day < 2 ^ 32"
  shows "unat year \<le> unat year' \<and> unat day' < year_length (unat year') \<and>
    epoch_days (unat year') + unat day' = epoch_days (unat year) + unat day"
  using assms
proof (induction day year rule: year_loop.induct)
  case (1 day year)
  define n where "n = (if sntp_service_is_leap_year year then 366 else 365 :: u32)"
  have n: "unat n = year_length (unat year)" by (simp add: n_def year_length_def leap_word)
  show ?case
  proof (cases "day < n")
    case True
    then show ?thesis using 1(2) n by (subst (asm) year_loop.simps) (simp add: n_def word_less_nat_alt)
  next
    case False
    then have le: "unat n \<le> unat day" by (simp add: word_less_nat_alt)
    have "0 < unat n" by (simp add: n year_length_def)
    then have y: "unat (year + 1) = Suc (unat year)" using 1(4) le by (simp add: unat_plus_small)
    have d: "unat (day - n) = unat day - unat n" using le by (simp add: unat_sub word_le_nat_alt)
    have e: "year_loop (day - n) (year + 1) = (day', year')"
      using 1(2) False by (subst (asm) year_loop.simps) (simp add: n_def)
    have "unat (year + 1) \<le> unat year' \<and> unat day' < year_length (unat year') \<and>
        epoch_days (unat year') + unat day' = epoch_days (unat (year + 1)) + unat (day - n)"
      using 1(1) [OF refl] False e 1(3,4) le y d \<open>0 < unat n\<close> by (simp add: n_def)
    then show ?thesis using epoch_days_Suc [OF 1(3)] le by (simp add: y d n)
  qed
qed

lemma month_loop_exact:
  assumes "month_loop year month day = (month', day')" "unat month < 12"
    and "days_before_month (unat year) (unat month) + unat day < year_length (unat year)"
  shows "unat month' < 12 \<and> unat day' < month_length (unat year) (unat month') \<and>
    days_before_month (unat year) (unat month') + unat day' = days_before_month (unat year) (unat month) + unat day"
  using assms
proof (induction year month day rule: month_loop.induct)
  case (1 year month day)
  define n where "n = sntp_service_get_days_in_month year month"
  have n: "unat n = month_length (unat year) (unat month)" by (simp add: n_def days_in_month_word 1(3))
  have m: "month < 12" using 1(3) by (simp add: word_less_nat_alt)
  show ?case
  proof (cases "day < n")
    case True
    then show ?thesis using 1(2,3) n m by (subst (asm) month_loop.simps) (simp add: n_def [symmetric] word_less_nat_alt)
  next
    case False
    then have le: "unat n \<le> unat day" by (simp add: word_less_nat_alt)
    have ne: "unat month \<noteq> 11" using 1(4) le days_before_11 [of "unat year"] by (auto simp: n)
    have y: "unat (month + 1) = Suc (unat month)" using 1(3) by (simp add: unat_plus_small)
    have d: "unat (day - n) = unat day - unat n" using le by (simp add: unat_sub word_le_nat_alt)
    have e: "month_loop year (month + 1) (day - n) = (month', day')"
      using 1(2) False m by (subst (asm) month_loop.simps) (simp add: n_def [symmetric])
    have s: "days_before_month (unat year) (Suc (unat month)) = days_before_month (unat year) (unat month) + unat n"
      using days_before_Suc [of "unat month"] 1(3) ne by (simp add: n)
    have "\<not> day < sntp_service_get_days_in_month year month" using False by (simp add: n_def)
    from 1(1) [OF m refl this] e 1(3,4) ne le show ?thesis by (simp add: y d s n_def [symmetric])
  qed
qed

lemma tm_days:
  fixes year month d :: u32
  assumes "unat year \<le> 2106" "1970 \<le> unat year" "unat month < 12" "unat d < month_length (unat year) (unat month)"
  shows "nat (uint (year - 1900) + 1900) = unat year" "70 \<le> uint (year - 1900)" "nat (uint d + 1) = Suc (unat d)"
    "nat (uint month) = unat month" "uint d + 1 \<le> int (month_length (unat year) (unat month))" "uint month \<le> 11"
proof -
  have "1900 \<le> year" using assms(2) by (simp add: word_le_nat_alt)
  then have "unat (year - 1900) = unat year - 1900" by (simp add: unat_sub)
  then have "uint (year - 1900) = int (unat year) - 1900" using assms(2) by (simp only: uint_nat)
  moreover have "1970 \<le> uint year" using assms(2) by (metis of_nat_le_iff of_nat_numeral uint_nat)
  ultimately show "nat (uint (year - 1900) + 1900) = unat year" "70 \<le> uint (year - 1900)" by simp_all
  show "nat (uint d + 1) = Suc (unat d)" "nat (uint month) = unat month" by (simp_all add: nat_add_distrib)
  show "uint d + 1 \<le> int (month_length (unat year) (unat month))" "uint month \<le> 11" using assms(3,4) unfolding uint_nat by linarith+
qed
lemma split_seconds:
  fixes t :: nat
  shows "86400 * (t div 60 div 60 div 24) + 3600 * (t div 60 div 60 mod 24) + 60 * (t div 60 mod 60) + t mod 60 = t"
proof -
  define a b where "a = t div 60" and "b = a div 60"
  have "60 * a + t mod 60 = t" "60 * b + a mod 60 = a" "24 * (b div 24) + b mod 24 = b"
    by (simp_all only: a_def b_def mult_div_mod_eq)
  then show ?thesis unfolding a_def [symmetric] b_def [symmetric] by linarith
qed

text \<open>What \<open>sntp_service_gmtime_r\<close> computes.\<close>

lemma gmtime_exact:
  obtains c where "sntp_service_gmtime_r (Some t) (Some c0) = (Some c, Some c)" "valid_tm c" "seconds_of c = unat t"
    "tm_year c \<le> 206" "tm_wday c = int ((day_number c + 4) mod 7)" "tm_yday c = int (year_day c)" "tm_isdst c = 0"
proof -
  define days where "days = t div 60 div 60 div 24"
  obtain yd year where y: "year_loop days 1970 = (yd, year)" by fastforce
  obtain month d where m: "month_loop year 0 yd = (month, d)" by fastforce
  have days: "unat days = unat t div 60 div 60 div 24" by (simp add: days_def unat_div)
  have "unat t < 4294967296" using unsigned_less [of t, where 'a = nat] by simp
  then have small: "unat days \<le> 49710" unfolding days by (simp add: div_mult2_eq [symmetric] less_Suc_eq_le [symmetric] div_less_iff_less_mult)
  have Y: "1970 \<le> unat year" "unat yd < year_length (unat year)" "epoch_days (unat year) + unat yd = unat days"
    using year_loop_exact [OF y] small by simp_all
  have "365 * (unat year - 1970) \<le> 49710" using epoch_days_ge [OF Y(1)] Y(3) small by linarith
  then have yr: "unat year \<le> 2106" by linarith
  have M: "unat month < 12" "unat d < month_length (unat year) (unat month)" "days_before_month (unat year) (unat month) + unat d = unat yd"
    using month_loop_exact [OF m] Y(2) by simp_all
  define c where "c = \<lparr>tm_sec = uint (t mod 60), tm_min = uint (t div 60 mod 60), tm_hour = uint (t div 60 div 60 mod 24),
    tm_mday = uint d + 1, tm_mon = uint month, tm_year = uint (year - 1900),
    tm_wday = uint ((days + 4) mod 7), tm_yday = uint yd, tm_isdst = 0\<rparr>"
  note D = tm_days [OF yr Y(1) M(1,2)]
  have e: "sntp_service_gmtime_r (Some t) (Some c0) = (Some c, Some c)"
    using M(1) by (auto simp: sntp_service_gmtime_r_def Let_def days_def [symmetric] y m c_def)
  have "uint (t mod 60) < 60" "uint (t div 60 mod 60) < 60" "uint (t div 60 div 60 mod 24) < 24" by (simp_all add: uint_mod)
  then have v: "valid_tm c" using D by (simp add: valid_tm_def c_def)
  have yd: "year_day c = unat yd" using D M(3) by (simp add: year_day_def c_def)
  have dn: "day_number c = unat days" using D Y(3) yd by (simp add: day_number_def) (simp add: c_def)
  have "seconds_of c = 86400 * unat days + 3600 * (unat t div 60 div 60 mod 24) + 60 * (unat t div 60 mod 60) + unat t mod 60"
    unfolding seconds_of_def dn by (simp add: c_def unat_mod unat_div)
  then have s: "seconds_of c = unat t" by (simp only: days split_seconds)
  have "unat (days + 4) = unat days + 4" using small by (simp add: unat_plus_small)
  then have "unat ((days + 4) mod 7) = (day_number c + 4) mod 7" by (simp add: dn unat_mod)
  moreover have "tm_wday c = uint ((days + 4) mod 7)" by (simp add: c_def)
  ultimately have w: "tm_wday c = int ((day_number c + 4) mod 7)" by (simp only: uint_nat)
  have "uint (year - 1900) \<le> 206"
  proof -
    have "1900 \<le> year" using Y(1) by (simp add: word_le_nat_alt)
    then have "unat (year - 1900) = unat year - 1900" by (simp add: unat_sub)
    then show ?thesis using yr unfolding uint_nat by linarith
  qed
  then show thesis using that [OF e v s _ w] by (simp add: yd) (simp add: c_def)
qed

lemma fold_years:
  "1970 \<le> n \<Longrightarrow> n < 2 ^ 32 \<Longrightarrow>
   fold (\<lambda>y d. d + (if sntp_service_is_leap_year (of_nat y) then 366 else 365)) [1970..<n] (0 :: u32) = of_nat (epoch_days n)"
proof (induction n rule: dec_induct)
  case (step n)
  then have "sntp_service_is_leap_year (of_nat n) = leap n" by (simp add: leap_word unat_of_nat take_bit_nat_eq_self)
  then show ?case using step by (simp add: epoch_days_Suc year_length_def)
qed simp

lemma fold_months:
  "n < 12 \<Longrightarrow> fold (\<lambda>m d. d + sntp_service_get_days_in_month year (of_nat m)) [0..<n] (k :: u32) = of_nat (days_before_month (unat year) n) + k"
proof (induction n)
  case (Suc n)
  then have u: "unat (of_nat n :: u32) = n" by (simp add: unat_of_nat take_bit_nat_eq_self)
  have "unat (of_nat n :: u32) < 12" using Suc.prems by (simp only: u)
  from days_in_month_word [OF this, of year]
  have a: "unat (sntp_service_get_days_in_month year (of_nat n)) = month_length (unat year) n" by (simp only: u)
  have "sntp_service_get_days_in_month year (of_nat n) = of_nat (unat (sntp_service_get_days_in_month year (of_nat n)))" by simp
  then have "sntp_service_get_days_in_month year (of_nat n) = of_nat (month_length (unat year) n)" by (simp only: a)
  then show ?case using Suc by (simp add: days_before_Suc)
qed simp
text \<open>What \<open>sntp_service_mktime\<close> accepts and returns.\<close>

lemma days_before_month_le: "m < 12 \<Longrightarrow> days_before_month y m \<le> 335"
  using month_cases [of m] by (auto simp: days_before_month_def)

lemma ucast_of_nat_u64: "n < 2 ^ 32 \<Longrightarrow> (ucast (of_nat n :: u32) :: u64) = of_nat n"
  by (simp add: word_unat_eq_iff unat_of_nat take_bit_nat_eq_self unsigned_ucast_eq)

lemma ucast_of_nat_u32: "(ucast (of_nat n :: u64) :: u32) = of_nat n"
  by (simp add: word_unat_eq_iff unat_of_nat unsigned_ucast_eq take_bit_eq_mod mod_mod_cancel)

lemma of_int_field: "0 \<le> k \<Longrightarrow> of_int k = (of_nat (nat k) :: u32)"
  by simp

lemma unat_of_nat_u32: "n < 2 ^ 32 \<Longrightarrow> unat (of_nat n :: u32) = n"
  by (simp add: unat_of_nat take_bit_nat_eq_self)

lemma mktime_exact:
  assumes "tm_mday c < 2 ^ 31"
  shows "sntp_service_mktime (Some c) =
     (if valid_tm c \<and> tm_year c \<le> 206 \<and> seconds_of c < 2 ^ 32 - 1
      then (of_nat (seconds_of c), Some (c\<lparr>tm_wday := int ((day_number c + 4) mod 7), tm_yday := int (year_day c), tm_isdst := 0\<rparr>))
      else (time_error, Some c))"
proof (cases "70 \<le> tm_year c \<and> tm_year c \<le> 206 \<and> 0 \<le> tm_mon c \<and> tm_mon c \<le> 11 \<and> 0 \<le> tm_hour c \<and> tm_hour c \<le> 23 \<and>
    0 \<le> tm_min c \<and> tm_min c \<le> 59 \<and> 0 \<le> tm_sec c \<and> tm_sec c \<le> 59 \<and> 1 \<le> tm_mday c")
  case False
  then show ?thesis by (auto simp: sntp_service_mktime_def valid_tm_def)
next
  case True
  define y m where "y = nat (tm_year c + 1900)" and "m = nat (tm_mon c)"
  define year month where "year = (of_int (tm_year c) + 1900 :: u32)" and "month = (of_int (tm_mon c) :: u32)"
  have ym: "1970 \<le> y" "y \<le> 2106" "m < 12" using True by (auto simp: y_def m_def)
  have "year = of_nat y" "month = of_nat m" using True by (simp_all add: year_def month_def y_def m_def)
  then have yw: "unat year = y" "unat month = m" using ym by (simp_all add: unat_of_nat take_bit_nat_eq_self)
  have dl: "unat (sntp_service_get_days_in_month year month) = month_length y m"
    using days_in_month_word [of month year] ym(3) yw by simp
  show ?thesis
  proof (cases "tm_mday c \<le> int (month_length y m)")
    case False
    have "0 \<le> tm_mday c" using True by simp
    then have "unat (of_int (tm_mday c) :: u32) = nat (tm_mday c)"
      unfolding of_int_field [OF \<open>0 \<le> tm_mday c\<close>] by (intro unat_of_nat_u32) (use assms in simp)
    then have "of_int (tm_mday c) > sntp_service_get_days_in_month year month"
      using False dl True unfolding word_less_nat_alt by linarith
    then show ?thesis using True False
      by (simp add: sntp_service_mktime_def valid_tm_def Let_def year_def [symmetric] month_def [symmetric] y_def [symmetric] m_def [symmetric])
  next
    case mday: True
    define d where "d = nat (tm_mday c)"
    have d: "1 \<le> d" "d \<le> month_length y m" "(of_int (tm_mday c) :: u32) = of_nat d"
      unfolding d_def using True mday by (linarith, linarith, intro of_int_field) simp
    have ml: "month_length y m \<le> 31" by (rule month_length_bounds(2) [OF ym(3)])
    then have nd: "\<not> (of_int (tm_mday c) > sntp_service_get_days_in_month year month)"
      using dl d(2) by (simp add: d(3) word_less_nat_alt unat_of_nat_u32)
    have v: "valid_tm c" using True mday by (simp add: valid_tm_def y_def m_def)
    have yd: "year_day c = days_before_month y m + (d - 1)" using d(1) by (simp add: year_day_def y_def m_def d_def)
    have dn: "day_number c = epoch_days y + year_day c" by (simp add: day_number_def y_def)
    have "epoch_days 2106 = 49673" by (simp add: epoch_days_def leaps_until_def)
    then have "epoch_days y \<le> 49673" using epoch_days_mono [OF ym(1,2)] by simp
    then have bound: "year_day c \<le> 365" "day_number c \<le> 50038"
      using days_before_month_le [OF ym(3), of y] d(2) ml by (simp_all add: dn yd)
    define days where "days = fold (\<lambda>y d. d + (if sntp_service_is_leap_year (of_nat y) then 366 else 365)) [1970..<y] (0 :: u32)"
    define day where "day = fold (\<lambda>m d. d + sntp_service_get_days_in_month year (of_nat m)) [0..<m] (of_int (tm_mday c) - 1)"
    have "day = of_nat (days_before_month y m) + (of_nat d - 1)" unfolding day_def fold_months [OF ym(3)] by (simp only: yw d(3))
    moreover have "(of_nat d - 1 :: u32) = of_nat (d - 1)" using d(1) by (simp add: of_nat_diff)
    ultimately have day: "day = of_nat (year_day c)" by (simp only: yd of_nat_add)
    have "days = of_nat (epoch_days y)" unfolding days_def by (rule fold_years) (use ym in simp_all)
    then have total: "days + day = of_nat (day_number c)" by (simp only: day dn of_nat_add)
    define h mi se where "h = nat (tm_hour c)" and "mi = nat (tm_min c)" and "se = nat (tm_sec c)"
    have f: "h \<le> 23" "mi \<le> 59" "se \<le> 59" "(of_int (tm_hour c) :: u32) = of_nat h" "(of_int (tm_min c) :: u32) = of_nat mi"
      "(of_int (tm_sec c) :: u32) = of_nat se"
      unfolding h_def mi_def se_def using True by (linarith, linarith, linarith, (intro of_int_field; simp)+)
    have "(of_nat h * 3600 :: u32) = of_nat (h * 3600)" "(of_nat mi * 60 :: u32) = of_nat (mi * 60)" by simp_all
    moreover have "seconds_of c = day_number c * 86400 + h * 3600 + mi * 60 + se" by (simp add: seconds_of_def h_def mi_def se_def)
    ultimately have ts: "(ucast (days + day) :: u64) * 86400 + ucast (of_int (tm_hour c) * 3600 :: u32) +
        ucast (of_int (tm_min c) * 60 :: u32) + ucast (of_int (tm_sec c) :: u32) = of_nat (seconds_of c)"
      using bound(2) f(1-3) by (simp add: f(4-6) total ucast_of_nat_u64 del: of_nat_mult of_nat_add) simp
    have "seconds_of c \<le> 86400 * 50038 + 3600 * 23 + 60 * 59 + 59"
      using bound(2) f(1-3) unfolding seconds_of_def h_def mi_def se_def by linarith
    then have "unat (of_nat (seconds_of c) :: u64) = seconds_of c" by (simp add: unat_of_nat take_bit_nat_eq_self)
    then have big: "(of_nat (seconds_of c) :: u64) \<ge> 0xFFFFFFFF \<longleftrightarrow> \<not> seconds_of c < 2 ^ 32 - 1"
      by (simp add: word_le_nat_alt not_less)
    have w: "uint ((days + day + 4) mod 7) = int ((day_number c + 4) mod 7)" "uint day = int (year_day c)"
    proof -
      have "unat (days + day + 4) = day_number c + 4" using bound(2) by (simp add: total unat_plus_small unat_of_nat_u32)
      then have "unat ((days + day + 4) mod 7) = (day_number c + 4) mod 7" by (simp add: unat_mod)
      then show "uint ((days + day + 4) mod 7) = int ((day_number c + 4) mod 7)" by (simp only: uint_nat)
      have "year_day c < 2 ^ 32" using bound(1) by simp
      then show "uint day = int (year_day c)" by (simp only: uint_nat day unat_of_nat_u32)
    qed
    have "sntp_service_mktime (Some c) = (if (of_nat (seconds_of c) :: u64) \<ge> 0xFFFFFFFF then (time_error, Some c)
        else (ucast (of_nat (seconds_of c) :: u64), Some (c\<lparr>tm_wday := int ((day_number c + 4) mod 7), tm_yday := int (year_day c), tm_isdst := 0\<rparr>)))"
      using True mday nd d(1) unfolding ts [symmetric] w [symmetric]
      by (simp add: sntp_service_mktime_def Let_def year_def [symmetric] month_def [symmetric] yw days_def [symmetric] day_def [symmetric])
    then show ?thesis using v True by (simp only: big ucast_of_nat_u32) simp
  qed
qed
section \<open>The calendar is a bijection\<close>

lemma year_day_less:
  assumes "valid_tm c"
  shows "year_day c < year_length (nat (tm_year c + 1900))"
  using days_before_within [of "nat (tm_mon c)" "nat (tm_year c + 1900)"] assms
  by (simp add: valid_tm_def year_day_def nat_less_iff) linarith

lemma valid_year: "valid_tm c \<Longrightarrow> 1970 \<le> nat (tm_year c + 1900)"
  unfolding valid_tm_def by linarith

lemma epoch_days_le_iff:
  assumes "valid_tm c" "1970 \<le> y"
  shows "epoch_days y \<le> day_number c \<longleftrightarrow> y \<le> nat (tm_year c + 1900)"
proof
  let ?y = "nat (tm_year c + 1900)"
  note y = valid_year [OF assms(1)]
  show "y \<le> ?y" if "epoch_days y \<le> day_number c"
  proof (rule ccontr)
    assume "\<not> y \<le> ?y"
    then have "epoch_days (Suc ?y) \<le> epoch_days y" using y by (intro epoch_days_mono) simp_all
    then show False using that year_day_less [OF assms(1)] epoch_days_Suc [OF y] by (simp add: day_number_def)
  qed
  show "epoch_days y \<le> day_number c" if "y \<le> ?y"
    using epoch_days_mono [OF assms(2) that] by (simp add: day_number_def)
qed

lemma days_before_mono:
  assumes "m < n" "n < 12"
  shows "days_before_month y m + month_length y m \<le> days_before_month y n"
proof -
  have "Suc m \<le> n" using assms(1) by simp
  then show ?thesis using assms(2)
  proof (induction n rule: dec_induct)
    case base
    then show ?case by (simp add: days_before_Suc)
  next
    case (step k)
    then show ?case by (simp add: days_before_Suc)
  qed
qed

text \<open>The fields of a valid time are determined by its seconds.\<close>

lemma seconds_of_inject:
  assumes v: "valid_tm c" "valid_tm c'" and e: "seconds_of c = seconds_of c'"
  shows "tm_sec c = tm_sec c'" "tm_min c = tm_min c'" "tm_hour c = tm_hour c'" "tm_mday c = tm_mday c'" "tm_mon c = tm_mon c'"
    "tm_year c = tm_year c'"
proof -
  define s m h :: "tm \<Rightarrow> nat" where "s x = nat (tm_sec x)" and "m x = nat (tm_min x)" and "h x = nat (tm_hour x)" for x
  have b: "s x < 60" "m x < 60" "h x < 24" if "valid_tm x" for x
    using that by (auto simp: valid_tm_def s_def m_def h_def)
  have nn: "0 \<le> tm_sec x" "0 \<le> tm_min x" "0 \<le> tm_hour x" "0 \<le> tm_year x + 1900" "0 \<le> tm_mon x" "1 \<le> tm_mday x" if "valid_tm x" for x
    using that by (simp_all add: valid_tm_def)
  have q: "seconds_of x = 60 * (60 * (24 * day_number x + h x) + m x) + s x" for x
    by (simp add: seconds_of_def s_def m_def h_def)
  have 1: "60 * (24 * day_number c + h c) + m c = 60 * (24 * day_number c' + h c') + m c'" "s c = s c'"
    using radix_inject [OF e [unfolded q] b(1) [OF v(1)] b(1) [OF v(2)]] by simp_all
  have 2: "24 * day_number c + h c = 24 * day_number c' + h c'" "m c = m c'"
    using radix_inject [OF 1(1) b(2) [OF v(1)] b(2) [OF v(2)]] by simp_all
  have 3: "day_number c = day_number c'" "h c = h c'"
    using radix_inject [OF 2(1) b(3) [OF v(1)] b(3) [OF v(2)]] by simp_all
  show "tm_sec c = tm_sec c'" "tm_min c = tm_min c'" "tm_hour c = tm_hour c'"
    using 1(2) 2(2) 3(2) nn [OF v(1)] nn [OF v(2)] by (simp_all add: s_def m_def h_def)
  define y :: "tm \<Rightarrow> nat" where "y x = nat (tm_year x + 1900)" for x
  have le: "1970 \<le> y x" "epoch_days (y x) \<le> day_number x" if "valid_tm x" for x
    using valid_year [OF that] by (simp_all add: y_def day_number_def)
  have "y c \<le> y c'" "y c' \<le> y c"
    using epoch_days_le_iff [OF v(2) le(1) [OF v(1)]] epoch_days_le_iff [OF v(1) le(1) [OF v(2)]] le(2) [OF v(1)] le(2) [OF v(2)] 3(1)
    by (simp_all add: y_def)
  then have y: "y c = y c'" by simp
  then show "tm_year c = tm_year c'" using nn(4) [OF v(1)] nn(4) [OF v(2)] by (simp add: y_def)
  define mo d :: "tm \<Rightarrow> nat" where "mo x = nat (tm_mon x)" and "d x = nat (tm_mday x) - 1" for x
  have md: "mo x < 12" "d x < month_length (y x) (mo x)" if "valid_tm x" for x
    using that by (auto simp: valid_tm_def mo_def d_def y_def nat_le_iff)
  have "year_day x = days_before_month (y x) (mo x) + d x" if "valid_tm x" for x
    using nn(6) [OF that] by (simp add: year_day_def y_def mo_def d_def)
  then have yd: "days_before_month (y c) (mo c) + d c = days_before_month (y c) (mo c') + d c'"
    using 3(1) v y by (simp add: day_number_def y_def [symmetric])
  have "\<not> mo c < mo c'" "\<not> mo c' < mo c"
    using days_before_mono [of "mo c" "mo c'" "y c"] days_before_mono [of "mo c'" "mo c" "y c"] md [OF v(1)] md [OF v(2)] yd y
    by auto
  then have m: "mo c = mo c'" by simp
  then show "tm_mon c = tm_mon c'" using nn(5) [OF v(1)] nn(5) [OF v(2)] by (simp add: mo_def)
  have "d c = d c'" using yd m by simp
  then show "tm_mday c = tm_mday c'" using nn(6) [OF v(1)] nn(6) [OF v(2)] by (simp add: d_def)
qed
section \<open>Properties\<close>

text \<open>
  C21. The calendar conversions are inverse to each other: every second count a 32-bit clock can hold (but the
  error value) becomes a valid date and time whose closed-form count, with the Gregorian leap years, is that count,
  with the right day of the week and of the year, and converting back returns it; every valid date and time from
  1970 to 2106 within that range is what converting its own count gives.
\<close>

theorem calendar_roundtrip:
  assumes "t \<noteq> time_error" "valid_tm c" "tm_year c \<le> 206" "seconds_of c < 2 ^ 32 - 1"
  shows "(case sntp_service_gmtime_r (Some t) (Some c0) of
      (Some g, _) \<Rightarrow> valid_tm g \<and> seconds_of g = unat t \<and> tm_wday g = int ((day_number g + 4) mod 7) \<and>
        tm_yday g = int (year_day g) \<and> sntp_service_mktime (Some g) = (t, Some g)
    | (None, _) \<Rightarrow> False) \<and>
    (case sntp_service_mktime (Some c) of
      (u, Some m) \<Rightarrow> unat u = seconds_of c \<and> sntp_service_gmtime_r (Some u) (Some c0) = (Some m, Some m)
    | (_, None) \<Rightarrow> False)"
proof -
  obtain g where g: "sntp_service_gmtime_r (Some t) (Some c0) = (Some g, Some g)" "valid_tm g" "seconds_of g = unat t"
    "tm_year g \<le> 206" "tm_wday g = int ((day_number g + 4) mod 7)" "tm_yday g = int (year_day g)" "tm_isdst g = 0"
    by (rule gmtime_exact)
  have "unat t \<noteq> 2 ^ 32 - 1" using assms(1) by (simp add: word_unat_eq_iff)
  then have lt: "seconds_of g < 2 ^ 32 - 1" using g(3) unsigned_less [of t, where 'a = nat] by simp
  have md: "tm_mday x < 2 ^ 31" if "valid_tm x" for x :: tm
    using that month_length_bounds(2) [of "nat (tm_mon x)" "nat (tm_year x + 1900)"] by (auto simp: valid_tm_def nat_less_iff)
  have "sntp_service_mktime (Some g) = (t, Some g)"
    using mktime_exact [OF md [OF g(2)]] g lt by simp
  moreover have m: "sntp_service_mktime (Some c) = (of_nat (seconds_of c),
      Some (c\<lparr>tm_wday := int ((day_number c + 4) mod 7), tm_yday := int (year_day c), tm_isdst := 0\<rparr>))"
    using mktime_exact [OF md [OF assms(2)]] assms(2-4) by simp
  have u: "unat (of_nat (seconds_of c) :: u32) = seconds_of c" by (rule unat_of_nat_u32) (use assms(4) in simp)
  obtain k where k: "sntp_service_gmtime_r (Some (of_nat (seconds_of c))) (Some c0) = (Some k, Some k)" "valid_tm k"
    "seconds_of k = unat (of_nat (seconds_of c) :: u32)" "tm_wday k = int ((day_number k + 4) mod 7)" "tm_yday k = int (year_day k)" "tm_isdst k = 0"
    by (rule gmtime_exact)
  note f = seconds_of_inject [OF k(2) assms(2) trans [OF k(3) u]]
  have "k = c\<lparr>tm_wday := int ((day_number c + 4) mod 7), tm_yday := int (year_day c), tm_isdst := 0\<rparr>"
    using f k(4-6) by (simp add: day_number_def year_day_def)
  ultimately show ?thesis using g k(1) u by (simp add: m)
qed

definition example_date :: tm where
  "example_date = \<lparr>tm_sec = 56, tm_min = 34, tm_hour = 12, tm_mday = 29, tm_mon = 1, tm_year = 124, tm_wday = 0, tm_yday = 0, tm_isdst = 1\<rparr>"

theorem calendar_roundtrip_witness:
  "sntp_service_gmtime_r (Some 1709210096) (Some example_date) =
     (let m = example_date\<lparr>tm_wday := 4, tm_yday := 59, tm_isdst := 0\<rparr> in (Some m, Some m))"
proof -
  have "valid_tm example_date" "tm_year example_date \<le> 206" "seconds_of example_date < 2 ^ 32 - 1"
    by (simp_all add: example_date_def valid_tm_def seconds_of_def day_number_def year_day_def month_length_def leap_def epoch_days_def
        leaps_until_def days_before_month_def)
  moreover have "sntp_service_mktime (Some example_date) = (1709210096, Some (example_date\<lparr>tm_wday := 4, tm_yday := 59, tm_isdst := 0\<rparr>))"
    by code_simp
  ultimately show ?thesis using calendar_roundtrip [of 0 example_date example_date] by (simp add: Let_def)
qed

end
