(* ===== verification/SNTP_Service.thy ===== *)
theory SNTP_Service
  imports SNTP_Calendar Configuration Internal_Flash
begin

text \<open>
  Model of \<open>app/SNTP/src/sntp_service.c\<close> above its calendar: setting and reading the real-time clock through the four
  functions of \<open>stm32f4xx_hal_rtc.c\<close> it calls, down to the BCD registers, and the set-up of the SNTP client.
\<close>

section \<open>The real-time clock\<close>

text \<open>The registers of the clock; nothing advances them between two calls of the driver.\<close>

record rtc =
  TR :: u32
  DR :: u32
  SSR :: u32
  PRER :: u32

record RTC_TimeTypeDef =
  Hours :: u8
  Minutes :: u8
  Seconds :: u8
  TimeFormat :: u8
  SubSeconds :: u32
  SecondFraction :: u32
  DayLightSaving :: u32
  StoreOperation :: u32

record RTC_DateTypeDef =
  WeekDay :: u8
  Month :: u8
  Date :: u8
  Year :: u8

text \<open>How a call that writes a register ends: the handle is locked, or one of its two waits times out, or it succeeds.\<close>

datatype rtc_outcome = Rtc_Locked | Rtc_Init_Timeout | Rtc_Synchro_Timeout | Rtc_Completed

abbreviation "RTC_TR_RESERVED_MASK \<equiv> (0x007F7F7F :: u32)"
abbreviation "RTC_DR_RESERVED_MASK \<equiv> (0x00FFFF3F :: u32)"

function bcd_loop :: "u8 \<Rightarrow> u32 \<Rightarrow> u8 \<times> u32" where
  "bcd_loop number bcdhigh = (if number \<ge> 10 then bcd_loop (number - 10) (bcdhigh + 1) else (number, bcdhigh))"
  by auto
termination
proof (relation "measure (\<lambda>(number, bcdhigh). unat number)", simp, unfold in_measure split)
  fix number :: u8
  assume ten: "10 \<le> number"
  then have "10 \<le> unat number" by (simp add: word_le_nat_alt)
  then show "unat (number - 10) < unat number" using ten by (simp add: unat_sub)
qed

declare bcd_loop.simps [simp del]

definition RTC_ByteToBcd2 :: "u8 \<Rightarrow> u8" where
  "RTC_ByteToBcd2 number = (case bcd_loop number 0 of (n, bcdhigh) \<Rightarrow> ucast (push_bit 4 bcdhigh) OR n)"

definition RTC_Bcd2ToByte :: "u8 \<Rightarrow> u8" where
  "RTC_Bcd2ToByte number = (let tens = drop_bit 4 ((ucast number :: u32) AND 0xF0) * 10 in ucast (tens + (ucast number AND 0x0F)))"

text \<open>The clock runs in the 24-hour format, so the time format is cleared; binary parameters, as the service uses them.\<close>

definition HAL_RTC_SetTime :: "rtc_outcome \<Rightarrow> RTC_TimeTypeDef \<Rightarrow> rtc \<Rightarrow> HAL_StatusTypeDef \<times> rtc" where
  "HAL_RTC_SetTime q t r =
     (let tmpreg = push_bit 16 (ucast (RTC_ByteToBcd2 (Hours t))) OR push_bit 8 (ucast (RTC_ByteToBcd2 (Minutes t))) OR
            ucast (RTC_ByteToBcd2 (Seconds t)) OR push_bit 22 (ucast (0x00 :: u8));
          written = r\<lparr>TR := tmpreg AND RTC_TR_RESERVED_MASK\<rparr>
      in case q of
           Rtc_Locked \<Rightarrow> (HAL_BUSY, r)
         | Rtc_Init_Timeout \<Rightarrow> (HAL_ERROR, r)
         | Rtc_Synchro_Timeout \<Rightarrow> (HAL_ERROR, written)
         | Rtc_Completed \<Rightarrow> (HAL_OK, written))"

definition HAL_RTC_SetDate :: "rtc_outcome \<Rightarrow> RTC_DateTypeDef \<Rightarrow> rtc \<Rightarrow> HAL_StatusTypeDef \<times> rtc" where
  "HAL_RTC_SetDate q d r =
     (let month = (if Month d AND 0x10 = 0x10 then (Month d AND NOT 0x10) + 0x0A else Month d);
          datetmpreg = push_bit 16 (ucast (RTC_ByteToBcd2 (Year d))) OR push_bit 8 (ucast (RTC_ByteToBcd2 month)) OR
            ucast (RTC_ByteToBcd2 (Date d)) OR push_bit 13 (ucast (WeekDay d));
          written = r\<lparr>DR := datetmpreg AND RTC_DR_RESERVED_MASK\<rparr>
      in case q of
           Rtc_Locked \<Rightarrow> (HAL_BUSY, r)
         | Rtc_Init_Timeout \<Rightarrow> (HAL_ERROR, r)
         | Rtc_Synchro_Timeout \<Rightarrow> (HAL_ERROR, written)
         | Rtc_Completed \<Rightarrow> (HAL_OK, written))"

text \<open>The two fields the call does not write keep the values of the argument.\<close>

definition HAL_RTC_GetTime :: "rtc \<Rightarrow> RTC_TimeTypeDef \<Rightarrow> HAL_StatusTypeDef \<times> RTC_TimeTypeDef" where
  "HAL_RTC_GetTime r t =
     (let tmpreg = TR r AND RTC_TR_RESERVED_MASK
      in (HAL_OK, t\<lparr>SubSeconds := SSR r, SecondFraction := PRER r AND 0x7FFF,
            Hours := RTC_Bcd2ToByte (ucast (drop_bit 16 (tmpreg AND 0x003F0000))),
            Minutes := RTC_Bcd2ToByte (ucast (drop_bit 8 (tmpreg AND 0x00007F00))),
            Seconds := RTC_Bcd2ToByte (ucast (tmpreg AND 0x0000007F)),
            TimeFormat := ucast (drop_bit 22 (tmpreg AND 0x00400000))\<rparr>))"

definition HAL_RTC_GetDate :: "rtc \<Rightarrow> RTC_DateTypeDef \<Rightarrow> HAL_StatusTypeDef \<times> RTC_DateTypeDef" where
  "HAL_RTC_GetDate r d =
     (let datetmpreg = DR r AND RTC_DR_RESERVED_MASK
      in (HAL_OK, d\<lparr>Year := RTC_Bcd2ToByte (ucast (drop_bit 16 (datetmpreg AND 0x00FF0000))),
            Month := RTC_Bcd2ToByte (ucast (drop_bit 8 (datetmpreg AND 0x00001F00))),
            Date := RTC_Bcd2ToByte (ucast (datetmpreg AND 0x0000003F)),
            WeekDay := ucast (drop_bit 13 (datetmpreg AND 0x0000E000))\<rparr>))"
section \<open>The service\<close>

record sntp_service =
  clock :: rtc
  is_synchronized :: bool

definition zero_time :: RTC_TimeTypeDef where
  "zero_time = \<lparr>Hours = 0, Minutes = 0, Seconds = 0, TimeFormat = 0, SubSeconds = 0, SecondFraction = 0, DayLightSaving = 0, StoreOperation = 0\<rparr>"

definition zero_date :: RTC_DateTypeDef where
  "zero_date = \<lparr>WeekDay = 0, Month = 0, Date = 0, Year = 0\<rparr>"

definition sntp_service_is_synchronized :: "sntp_service \<Rightarrow> bool" where
  "sntp_service_is_synchronized s = is_synchronized s"

text \<open>The result and the two output cells. The mutex is free again at the end of every path.\<close>

definition sntp_service_get_time :: "sntp_service \<Rightarrow> bool \<times> u32 \<times> u32" where
  "sntp_service_get_time s =
     (let (time_status, rtc_time) = HAL_RTC_GetTime (clock s) zero_time in
      if time_status \<noteq> HAL_OK then (False, 0, 0)
      else let (date_status, rtc_date) = HAL_RTC_GetDate (clock s) zero_date in
      if date_status \<noteq> HAL_OK then (False, 0, 0)
      else if SubSeconds rtc_time > SecondFraction rtc_time then (False, 0, 0)
      else let calendar_time = \<lparr>tm_sec = uint (Seconds rtc_time), tm_min = uint (Minutes rtc_time), tm_hour = uint (Hours rtc_time),
                 tm_mday = uint (Date rtc_date), tm_mon = uint (Month rtc_date) - 1, tm_year = uint (Year rtc_date) + 100,
                 tm_wday = 0, tm_yday = 0, tm_isdst = - 1\<rparr>;
               current_time = fst (sntp_service_mktime (Some calendar_time))
           in if current_time = time_error then (False, 0, 0)
              else (True, current_time,
                    ucast ((ucast (SecondFraction rtc_time - SubSeconds rtc_time) :: u64) * 1000000 div ucast (SecondFraction rtc_time + 1))))"

text \<open>The clock fields for a calendar time.\<close>

definition rtc_time_of :: "tm \<Rightarrow> RTC_TimeTypeDef" where
  "rtc_time_of c = zero_time\<lparr>Hours := of_int (tm_hour c), Minutes := of_int (tm_min c), Seconds := of_int (tm_sec c),
     DayLightSaving := 0, StoreOperation := 0\<rparr>"

definition rtc_date_of :: "tm \<Rightarrow> RTC_DateTypeDef" where
  "rtc_date_of c = \<lparr>WeekDay = (if tm_wday c = 0 then 7 else of_int (tm_wday c)), Month = of_int (tm_mon c + 1),
     Date = of_int (tm_mday c), Year = of_int (tm_year c - 100)\<rparr>"

text \<open>
  \<open>qs\<close> are the outcomes of the two writes and of the two writes that restore. \<open>strftime\<close> prints 19 characters into
  a buffer of 32, so it does not fail; \<open>c0\<close> is the uninitialised \<open>current_time_val\<close>.
\<close>

definition sntp_service_set_time ::
  "rtc_outcome \<times> rtc_outcome \<times> rtc_outcome \<times> rtc_outcome \<Rightarrow> tm \<Rightarrow> u32 \<Rightarrow> sntp_service \<Rightarrow> sntp_service" where
  "sntp_service_set_time qs c0 unix_seconds s =
     (case sntp_service_gmtime_r (Some unix_seconds) (Some c0) of
        (None, _) \<Rightarrow> s
      | (Some c, _) \<Rightarrow>
          if tm_year c < 100 \<or> tm_year c > 199 then s
          else let (time_outcome, date_outcome, restore_time_outcome, restore_date_outcome) = qs;
                   (get_previous_time_status, previous_rtc_time) = HAL_RTC_GetTime (clock s) zero_time;
                   (get_previous_date_status, previous_rtc_date) =
                     (if get_previous_time_status = HAL_OK then HAL_RTC_GetDate (clock s) zero_date else (HAL_ERROR, zero_date))
               in if get_previous_time_status \<noteq> HAL_OK \<or> get_previous_date_status \<noteq> HAL_OK then s
                  else let (set_time_status, r1) = HAL_RTC_SetTime time_outcome (rtc_time_of c) (clock s);
                           (set_date_status, r2) =
                             (if set_time_status = HAL_OK then HAL_RTC_SetDate date_outcome (rtc_date_of c) r1 else (HAL_ERROR, r1))
                       in if set_time_status \<noteq> HAL_OK \<or> set_date_status \<noteq> HAL_OK
                          then let (restore_time_status, r3) = HAL_RTC_SetTime restore_time_outcome previous_rtc_time r2;
                                   (restore_date_status, r4) = HAL_RTC_SetDate restore_date_outcome previous_rtc_date r3
                               in s\<lparr>clock := r4\<rparr>
                          else s\<lparr>clock := r2, is_synchronized := True\<rparr>)"

text \<open>The calls into the SNTP client of LwIP; without an active configuration the code follows a null pointer (\<open>None\<close>).\<close>

datatype sntp_call = Set_Operating_Mode_Poll | Set_Server_Name nat "u8 list" | Set_Server nat u32 | Sntp_Init

definition sntp_service_init :: "configuration_t ptr \<Rightarrow> sntp_call list option" where
  "sntp_service_init active =
     (case active of
        None \<Rightarrow> None
      | Some configuration \<Rightarrow>
          Some ([Set_Operating_Mode_Poll] @
            map (\<lambda>index. let server = sntp_servers configuration ! index in
                  if endpoint_type server = CONFIGURATION_ENDPOINT_ADDRESS_TYPE_HOSTNAME
                  then Set_Server_Name index (text_bytes (endpoint_hostname server))
                  else Set_Server index (endpoint_ipv4 server)) [0..<2] @ [Sntp_Init]))"

section \<open>Registers and fields\<close>

lemma bits_of_u8: "n < LENGTH(8) \<Longrightarrow> n = 0 \<or> n = 1 \<or> n = 2 \<or> n = 3 \<or> n = 4 \<or> n = 5 \<or> n = 6 \<or> n = (7 :: nat)"
  by simp presburger

definition time_register :: "u8 \<Rightarrow> u8 \<Rightarrow> u8 \<Rightarrow> u32" where
  "time_register x y z = (push_bit 16 (ucast x) OR push_bit 8 (ucast y) OR ucast z OR push_bit 22 (ucast (0x00 :: u8))) AND RTC_TR_RESERVED_MASK"

definition date_register :: "u8 \<Rightarrow> u8 \<Rightarrow> u8 \<Rightarrow> u8 \<Rightarrow> u32" where
  "date_register x y z w = (push_bit 16 (ucast x) OR push_bit 8 (ucast y) OR ucast z OR push_bit 13 (ucast w)) AND RTC_DR_RESERVED_MASK"

lemma time_register_fields:
  shows "ucast (drop_bit 16 ((time_register x y z AND RTC_TR_RESERVED_MASK) AND 0x003F0000)) = x AND 0x3F"
    "ucast (drop_bit 8 ((time_register x y z AND RTC_TR_RESERVED_MASK) AND 0x00007F00)) = y AND 0x7F"
    "ucast ((time_register x y z AND RTC_TR_RESERVED_MASK) AND 0x0000007F) = z AND 0x7F"
  unfolding time_register_def
  by (rule bit_word_eqI; drule bits_of_u8; elim disjE; simp add: bit_simps not_bit_u8)+

lemma date_register_fields:
  shows "ucast (drop_bit 16 ((date_register x (y AND 0x1F) z (w AND 7) AND RTC_DR_RESERVED_MASK) AND 0x00FF0000)) = x"
    "ucast (drop_bit 8 ((date_register x (y AND 0x1F) z (w AND 7) AND RTC_DR_RESERVED_MASK) AND 0x00001F00)) = y AND 0x1F"
    "ucast ((date_register x (y AND 0x1F) z (w AND 7) AND RTC_DR_RESERVED_MASK) AND 0x0000003F) = z AND 0x3F"
    "ucast (drop_bit 13 ((date_register x (y AND 0x1F) z (w AND 7) AND RTC_DR_RESERVED_MASK) AND 0x0000E000)) = w AND 7"
  unfolding date_register_def
  by (rule bit_word_eqI; drule bits_of_u8; elim disjE; simp add: bit_simps not_bit_u8)+

lemma bcd_table:
  "list_all (\<lambda>n. RTC_Bcd2ToByte (RTC_ByteToBcd2 (of_nat n)) = of_nat n) [0..<100]"
  "list_all (\<lambda>n. RTC_ByteToBcd2 (of_nat n) AND 0x7F = RTC_ByteToBcd2 (of_nat n)) [0..<60]"
  "list_all (\<lambda>n. RTC_ByteToBcd2 (of_nat n) AND 0x3F = RTC_ByteToBcd2 (of_nat n)) [0..<32]"
  "list_all (\<lambda>n. RTC_ByteToBcd2 (of_nat n) AND 0x1F = RTC_ByteToBcd2 (of_nat n) \<and> of_nat n AND 0x10 \<noteq> (0x10 :: u8)) [0..<13]"
  "list_all (\<lambda>n. of_nat n AND 7 = (of_nat n :: u8)) [0..<8]"
  by code_simp+

lemma bcd_facts:
  "unat n < 100 \<Longrightarrow> RTC_Bcd2ToByte (RTC_ByteToBcd2 n) = n"
  "unat n < 60 \<Longrightarrow> RTC_ByteToBcd2 n AND 0x7F = RTC_ByteToBcd2 n"
  "unat n < 32 \<Longrightarrow> RTC_ByteToBcd2 n AND 0x3F = RTC_ByteToBcd2 n"
  "unat n < 13 \<Longrightarrow> RTC_ByteToBcd2 n AND 0x1F = RTC_ByteToBcd2 n"
  "unat n < 13 \<Longrightarrow> n AND 0x10 \<noteq> 0x10"
  "unat n < 8 \<Longrightarrow> n AND 7 = n"
  using bcd_table by (auto simp: list_all_iff dest!: bspec [of _ _ "unat n"])
text \<open>The registers of a clock that shows a time and date of its 24-hour, two-digit-year calendar.\<close>

definition time_ok :: "RTC_TimeTypeDef \<Rightarrow> bool" where
  "time_ok t \<longleftrightarrow> unat (Hours t) < 24 \<and> unat (Minutes t) < 60 \<and> unat (Seconds t) < 60"

definition date_ok :: "RTC_DateTypeDef \<Rightarrow> bool" where
  "date_ok d \<longleftrightarrow> unat (Year d) < 100 \<and> unat (Month d) < 13 \<and> unat (Date d) < 32 \<and> unat (WeekDay d) < 8"

definition tr_of :: "RTC_TimeTypeDef \<Rightarrow> u32" where
  "tr_of t = time_register (RTC_ByteToBcd2 (Hours t)) (RTC_ByteToBcd2 (Minutes t)) (RTC_ByteToBcd2 (Seconds t))"

definition dr_of :: "RTC_DateTypeDef \<Rightarrow> u32" where
  "dr_of d = date_register (RTC_ByteToBcd2 (Year d)) (RTC_ByteToBcd2 (Month d)) (RTC_ByteToBcd2 (Date d)) (WeekDay d)"

definition clock_valid :: "rtc \<Rightarrow> bool" where
  "clock_valid r \<longleftrightarrow> (\<exists>t d. time_ok t \<and> date_ok d \<and> TR r = tr_of t \<and> DR r = dr_of d)"

lemma SetTime_writes:
  "HAL_RTC_SetTime q t r = (case q of Rtc_Locked \<Rightarrow> (HAL_BUSY, r) | Rtc_Init_Timeout \<Rightarrow> (HAL_ERROR, r)
     | Rtc_Synchro_Timeout \<Rightarrow> (HAL_ERROR, r\<lparr>TR := tr_of t\<rparr>) | Rtc_Completed \<Rightarrow> (HAL_OK, r\<lparr>TR := tr_of t\<rparr>))"
  by (simp only: HAL_RTC_SetTime_def tr_of_def time_register_def Let_def)

lemma SetDate_writes:
  assumes "date_ok d"
  shows "HAL_RTC_SetDate q d r = (case q of Rtc_Locked \<Rightarrow> (HAL_BUSY, r) | Rtc_Init_Timeout \<Rightarrow> (HAL_ERROR, r)
     | Rtc_Synchro_Timeout \<Rightarrow> (HAL_ERROR, r\<lparr>DR := dr_of d\<rparr>) | Rtc_Completed \<Rightarrow> (HAL_OK, r\<lparr>DR := dr_of d\<rparr>))"
proof -
  have "Month d AND 0x10 \<noteq> 0x10" using assms by (intro bcd_facts(5)) (simp add: date_ok_def)
  then show ?thesis by (simp only: HAL_RTC_SetDate_def dr_of_def date_register_def Let_def if_False)
qed

lemma GetTime_reads:
  assumes "time_ok t" "TR r = tr_of t"
  shows "fst (HAL_RTC_GetTime r u) = HAL_OK" "Hours (snd (HAL_RTC_GetTime r u)) = Hours t"
    "Minutes (snd (HAL_RTC_GetTime r u)) = Minutes t" "Seconds (snd (HAL_RTC_GetTime r u)) = Seconds t"
    "SubSeconds (snd (HAL_RTC_GetTime r u)) = SSR r" "SecondFraction (snd (HAL_RTC_GetTime r u)) = PRER r AND 0x7FFF"
proof -
  have b: "unat (Hours t) < 100" "unat (Hours t) < 32" "unat (Minutes t) < 60" "unat (Minutes t) < 100" "unat (Seconds t) < 60" "unat (Seconds t) < 100"
    using assms(1) by (simp_all add: time_ok_def)
  note f = bcd_facts(1) [OF b(1)] bcd_facts(3) [OF b(2)] bcd_facts(2) [OF b(3)] bcd_facts(1) [OF b(4)] bcd_facts(2) [OF b(5)] bcd_facts(1) [OF b(6)]
  show "fst (HAL_RTC_GetTime r u) = HAL_OK" "Hours (snd (HAL_RTC_GetTime r u)) = Hours t"
    "Minutes (snd (HAL_RTC_GetTime r u)) = Minutes t" "Seconds (snd (HAL_RTC_GetTime r u)) = Seconds t"
    "SubSeconds (snd (HAL_RTC_GetTime r u)) = SSR r" "SecondFraction (snd (HAL_RTC_GetTime r u)) = PRER r AND 0x7FFF"
    unfolding HAL_RTC_GetTime_def Let_def assms(2) tr_of_def time_register_fields f by simp_all
qed

lemma GetDate_reads:
  assumes "date_ok d" "DR r = dr_of d"
  shows "HAL_RTC_GetDate r u = (HAL_OK, d)"
proof -
  have b: "unat (Year d) < 100" "unat (Month d) < 13" "unat (Month d) < 100" "unat (Date d) < 32" "unat (Date d) < 100"
    using assms(1) by (simp_all add: date_ok_def)
  have w: "WeekDay d AND 7 = WeekDay d" by (rule bcd_facts(6)) (use assms(1) in \<open>simp add: date_ok_def\<close>)
  note m = bcd_facts(4) [OF b(2)]
  note f = date_register_fields [of "RTC_ByteToBcd2 (Year d)" "RTC_ByteToBcd2 (Month d)" "RTC_ByteToBcd2 (Date d)" "WeekDay d", unfolded m w]
  show ?thesis
    unfolding HAL_RTC_GetDate_def Let_def assms(2) dr_of_def f bcd_facts(3) [OF b(4)] bcd_facts(1) [OF b(1)] bcd_facts(1) [OF b(3)]
      bcd_facts(1) [OF b(5)] by simp
qed
text \<open>A calendar time of the years 2000 to 2099 in the fields of the clock.\<close>

lemma rtc_fields:
  assumes "valid_tm c" "100 \<le> tm_year c" "tm_year c \<le> 199" "0 \<le> tm_wday c" "tm_wday c \<le> 6"
  shows "time_ok (rtc_time_of c)" "date_ok (rtc_date_of c)"
    "uint (Hours (rtc_time_of c)) = tm_hour c" "uint (Minutes (rtc_time_of c)) = tm_min c" "uint (Seconds (rtc_time_of c)) = tm_sec c"
    "uint (Year (rtc_date_of c)) + 100 = tm_year c" "uint (Month (rtc_date_of c)) - 1 = tm_mon c" "uint (Date (rtc_date_of c)) = tm_mday c"
proof -
  have md: "tm_mday c \<le> 31" using assms(1) month_length_bounds(2) [of "nat (tm_mon c)" "nat (tm_year c + 1900)"]
    by (auto simp: valid_tm_def nat_less_iff)
  have u: "uint (of_int k :: u8) = k" if "0 \<le> k" "k < 256" for k
    using that by (simp add: uint_word_of_int_eq take_bit_int_eq_self)
  have n: "unat (of_int k :: u8) = nat k" if "0 \<le> k" "k < 256" for k
    using u [OF that] by (metis nat_int uint_nat)
  note v = assms(1) [unfolded valid_tm_def]
  have ym: "unat (of_int (tm_year c - 100) :: u8) < 100" "unat (of_int (tm_mon c + 1) :: u8) < 13"
  proof -
    have "0 \<le> tm_mon c" "tm_mon c \<le> 11" using v by simp_all
    then have "nat (tm_year c - 100) < 100" "nat (tm_mon c + 1) < 13" "0 \<le> tm_mon c + 1" "tm_mon c + 1 < 256"
      "0 \<le> tm_year c - 100" "tm_year c - 100 < 256" using assms(2,3) by linarith+
    then show "unat (of_int (tm_year c - 100) :: u8) < 100" "unat (of_int (tm_mon c + 1) :: u8) < 13" by (simp_all only: n)
  qed
  show "date_ok (rtc_date_of c)"
    using ym v md assms(4,5) by (auto simp: date_ok_def rtc_date_of_def n simp del: of_int_diff of_int_add)
  show "time_ok (rtc_time_of c)" using v by (auto simp: time_ok_def rtc_time_of_def n)
  show "uint (Hours (rtc_time_of c)) = tm_hour c" "uint (Minutes (rtc_time_of c)) = tm_min c" "uint (Seconds (rtc_time_of c)) = tm_sec c"
    using v by (simp_all add: rtc_time_of_def u)
  show "uint (Year (rtc_date_of c)) + 100 = tm_year c" "uint (Month (rtc_date_of c)) - 1 = tm_mon c" "uint (Date (rtc_date_of c)) = tm_mday c"
    using v md assms(2,3) u [of "tm_year c - 100"] u [of "tm_mon c + 1"] u [of "tm_mday c"] by (simp_all add: rtc_date_of_def del: of_int_diff of_int_add)
qed

text \<open>What the service reads from a clock that shows such a time.\<close>

lemma get_time_of_clock:
  assumes "valid_tm c" "100 \<le> tm_year c" "tm_year c \<le> 199" "0 \<le> tm_wday c" "tm_wday c \<le> 6" "seconds_of c < 2 ^ 32 - 1"
    and "TR (clock s) = tr_of (rtc_time_of c)" "DR (clock s) = dr_of (rtc_date_of c)" "SSR (clock s) \<le> PRER (clock s) AND 0x7FFF"
  shows "sntp_service_get_time s = (True, of_nat (seconds_of c),
    ucast ((ucast ((PRER (clock s) AND 0x7FFF) - SSR (clock s)) :: u64) * 1000000 div ucast ((PRER (clock s) AND 0x7FFF) + 1)))"
proof -
  note f = rtc_fields [OF assms(1-5)]
  note t = GetTime_reads [OF f(1) assms(7), where u = zero_time]
  note d = GetDate_reads [OF f(2) assms(8), where u = zero_date]
  define c' where "c' = c\<lparr>tm_wday := 0, tm_yday := 0, tm_isdst := - 1\<rparr>"
  have s': "seconds_of c' = seconds_of c" "valid_tm c'" "tm_year c' \<le> 206"
    using assms(1,3) by (simp_all add: c'_def seconds_of_def day_number_def year_day_def valid_tm_def)
  have "tm_mday c' < 2 ^ 31"
    using assms(1) month_length_bounds(2) [of "nat (tm_mon c)" "nat (tm_year c + 1900)"] by (auto simp: c'_def valid_tm_def nat_less_iff)
  from mktime_exact [OF this] have m: "fst (sntp_service_mktime (Some c')) = of_nat (seconds_of c)"
    using s' assms(6) by simp
  have ne: "(of_nat (seconds_of c) :: u32) \<noteq> time_error"
    using assms(6) by (simp add: word_unat_eq_iff unat_of_nat_u32)
  have "\<lparr>tm_sec = tm_sec c, tm_min = tm_min c, tm_hour = tm_hour c, tm_mday = tm_mday c, tm_mon = tm_mon c, tm_year = tm_year c,
      tm_wday = 0, tm_yday = 0, tm_isdst = - 1\<rparr> = c'" by (simp add: c'_def)
  then show ?thesis
    using t assms(9) by (cases "HAL_RTC_GetTime (clock s) zero_time")
      (simp add: sntp_service_get_time_def d f(3-8) m ne not_less)
qed
text \<open>The years of the clock as bounds on the second count.\<close>

lemma clock_years:
  fixes t :: u32
  assumes "valid_tm c" "seconds_of c = unat t"
  shows "tm_year c < 100 \<or> tm_year c > 199 \<longleftrightarrow> t < 946684800 \<or> t \<ge> 4102444800"
proof -
  define r where "r = 3600 * nat (tm_hour c) + 60 * nat (tm_min c) + nat (tm_sec c)"
  have "nat (tm_hour c) \<le> 23" "nat (tm_min c) \<le> 59" "nat (tm_sec c) \<le> 59" using assms(1) by (auto simp: valid_tm_def)
  then have r: "r < 86400" unfolding r_def by linarith
  have s: "unat t = 86400 * day_number c + r" using assms(2) by (simp add: seconds_of_def r_def)
  have e: "epoch_days 2000 = 10957" "epoch_days 2100 = 47482" by (simp_all add: epoch_days_def leaps_until_def)
  have 1: "10957 \<le> day_number c \<longleftrightarrow> 2000 \<le> nat (tm_year c + 1900)" "47482 \<le> day_number c \<longleftrightarrow> 2100 \<le> nat (tm_year c + 1900)"
    using epoch_days_le_iff [OF assms(1), of 2000] epoch_days_le_iff [OF assms(1), of 2100] by (simp_all add: e)
  have d: "unat t div 86400 = day_number c" using r by (simp add: s)
  have "k \<le> day_number c \<longleftrightarrow> k * 86400 \<le> unat t" for k
    using less_eq_div_iff_mult_less_eq [of 86400 k "unat t"] by (simp add: d)
  from this [of 10957] this [of 47482]
  have 2: "946684800 \<le> unat t \<longleftrightarrow> 10957 \<le> day_number c" "4102444800 \<le> unat t \<longleftrightarrow> 47482 \<le> day_number c" by simp_all
  have "t < 946684800 \<longleftrightarrow> \<not> 946684800 \<le> unat t" "t \<ge> 4102444800 \<longleftrightarrow> 4102444800 \<le> unat t"
    by (simp_all add: word_less_nat_alt word_le_nat_alt not_le)
  then show ?thesis unfolding 2 1 by linarith
qed

lemma get_OK:
  obtains rt rd where "HAL_RTC_GetTime r t = (HAL_OK, rt)" "HAL_RTC_GetDate r d = (HAL_OK, rd)"
  by (simp add: HAL_RTC_GetTime_def HAL_RTC_GetDate_def Let_def)

lemma set_time_cases:
  obtains c where "valid_tm c" "seconds_of c = unat t" "0 \<le> tm_wday c" "tm_wday c \<le> 6" "sntp_service_gmtime_r (Some t) (Some c0) = (Some c, Some c)"
proof -
  obtain c where c: "sntp_service_gmtime_r (Some t) (Some c0) = (Some c, Some c)" "valid_tm c" "seconds_of c = unat t"
    "tm_wday c = int ((day_number c + 4) mod 7)" by (rule gmtime_exact)
  have "(day_number c + 4) mod 7 \<le> 6" by simp
  then have "tm_wday c \<le> 6" unfolding c(4) by linarith
  then show thesis using that [OF c(2,3) _ _ c(1)] c(4) by simp
qed

text \<open>
  C23. A time that was set is the time that is read: when the two register writes complete, setting any second count of
  the years 2000 to 2099 marks the service synchronized, and the next read succeeds with exactly that count, through
  the conversion to calendar fields, the packing into BCD registers and back, with the microseconds of the
  subsecond counter; a count outside these years changes nothing.
\<close>

theorem clock_set_and_read:
  assumes "SSR (clock s) \<le> PRER (clock s) AND 0x7FFF"
  shows "let s' = sntp_service_set_time (Rtc_Completed, Rtc_Completed, q) c0 t s; fraction = PRER (clock s) AND 0x7FFF in
    if t < 946684800 \<or> t \<ge> 4102444800 then s' = s
    else sntp_service_is_synchronized s' \<and>
      sntp_service_get_time s' = (True, t, ucast ((ucast (fraction - SSR (clock s)) :: u64) * 1000000 div ucast (fraction + 1)))"
proof -
  obtain c where c: "valid_tm c" "seconds_of c = unat t" "0 \<le> tm_wday c" "tm_wday c \<le> 6"
    "sntp_service_gmtime_r (Some t) (Some c0) = (Some c, Some c)" by (rule set_time_cases)
  define s' where "s' = sntp_service_set_time (Rtc_Completed, Rtc_Completed, q) c0 t s"
  note range = clock_years [OF c(1,2)]
  show ?thesis
  proof (cases "t < 946684800 \<or> t \<ge> 4102444800")
    case True
    then have "s' = s" using range by (simp add: s'_def sntp_service_set_time_def c(5))
    then show ?thesis using True by (simp add: s'_def [symmetric] Let_def)
  next
    case False
    then have y: "100 \<le> tm_year c" "tm_year c \<le> 199" using range by auto
    note f = rtc_fields [OF c(1) y c(3,4)]
    obtain rt rd where get: "HAL_RTC_GetTime (clock s) zero_time = (HAL_OK, rt)" "HAL_RTC_GetDate (clock s) zero_date = (HAL_OK, rd)"
      by (rule get_OK)
    have s': "s' = s\<lparr>clock := (clock s)\<lparr>TR := tr_of (rtc_time_of c), DR := dr_of (rtc_date_of c)\<rparr>, is_synchronized := True\<rparr>"
      using y by (cases q) (simp add: s'_def sntp_service_set_time_def c(5) get SetTime_writes SetDate_writes [OF f(2)])
    have lt: "seconds_of c < 2 ^ 32 - 1" using False c(2) by (auto simp: word_le_nat_alt word_less_nat_alt)
    have "sntp_service_get_time s' = (True, of_nat (seconds_of c),
        ucast ((ucast ((PRER (clock s') AND 0x7FFF) - SSR (clock s')) :: u64) * 1000000 div ucast ((PRER (clock s') AND 0x7FFF) + 1)))"
      by (rule get_time_of_clock [OF c(1) y c(3,4) lt]) (use assms in \<open>simp_all add: s'\<close>)
    then show ?thesis using False unfolding s'_def [symmetric]
      by (simp add: Let_def sntp_service_is_synchronized_def c(2)) (simp add: s')
  qed
qed
text \<open>The registers after a power-on reset with the prescalers the firmware sets.\<close>

definition reset_clock :: rtc where
  "reset_clock = \<lparr>TR = 0, DR = 0x00002101, SSR = 0xFF, PRER = 0x007F00FF\<rparr>"

theorem clock_set_and_read_witness:
  "sntp_service_get_time (sntp_service_set_time (Rtc_Completed, Rtc_Completed, Rtc_Locked, Rtc_Locked) example_date 1709210096
     \<lparr>clock = reset_clock, is_synchronized = False\<rparr>) = (True, 1709210096, 0)"
  using clock_set_and_read [of "\<lparr>clock = reset_clock, is_synchronized = False\<rparr>" "(Rtc_Locked, Rtc_Locked)" example_date 1709210096]
  by (simp add: reset_clock_def Let_def word_le_nat_alt word_less_nat_alt)

text \<open>
  C38. Setting the time is all or nothing: from a clock that shows a valid time, whatever happens to the four register
  writes, the service is marked synchronized when both writes of a count the clock can show complete; otherwise the call
  does not mark it and, when the two writes that restore complete, every register is as it was before.
\<close>

theorem set_time_all_or_nothing:
  assumes "clock_valid (clock s)"
  shows "let s' = sntp_service_set_time (q1, q2, q3, q4) c0 t s in
    if q1 = Rtc_Completed \<and> q2 = Rtc_Completed \<and> 946684800 \<le> t \<and> t < 4102444800 then is_synchronized s'
    else is_synchronized s' = is_synchronized s \<and> (q3 = Rtc_Completed \<and> q4 = Rtc_Completed \<longrightarrow> clock s' = clock s)"
proof -
  obtain c where c: "valid_tm c" "seconds_of c = unat t" "0 \<le> tm_wday c" "tm_wday c \<le> 6"
    "sntp_service_gmtime_r (Some t) (Some c0) = (Some c, Some c)" by (rule set_time_cases)
  define s' where "s' = sntp_service_set_time (q1, q2, q3, q4) c0 t s"
  have "is_synchronized s' = is_synchronized s \<and> (q3 = Rtc_Completed \<and> q4 = Rtc_Completed \<longrightarrow> clock s' = clock s)"
    if failed: "\<not> (q1 = Rtc_Completed \<and> q2 = Rtc_Completed \<and> 946684800 \<le> t \<and> t < 4102444800)"
  proof (cases "tm_year c < 100 \<or> tm_year c > 199")
    case True
    then show ?thesis by (simp add: s'_def sntp_service_set_time_def c(5))
  next
    case False
    then have y: "100 \<le> tm_year c" "tm_year c \<le> 199" by auto
    note f = rtc_fields [OF c(1) y c(3,4)]
    obtain pt pd where p: "time_ok pt" "date_ok pd" "TR (clock s) = tr_of pt" "DR (clock s) = dr_of pd"
      using assms by (auto simp: clock_valid_def)
    obtain rt rd where get: "HAL_RTC_GetTime (clock s) zero_time = (HAL_OK, rt)" "HAL_RTC_GetDate (clock s) zero_date = (HAL_OK, rd)"
      by (rule get_OK)
    have "tr_of rt = tr_of pt" using GetTime_reads(2-4) [OF p(1,3), of zero_time] by (simp add: get tr_of_def)
    moreover have "rd = pd" using GetDate_reads [OF p(2,4), of zero_date] by (simp add: get)
    ultimately have before: "tr_of rt = TR (clock s)" "dr_of rd = DR (clock s)" "date_ok rd" using p by simp_all
    have "946684800 \<le> t \<and> t < 4102444800" using False clock_years [OF c(1,2)] by auto
    then have "\<not> (q1 = Rtc_Completed \<and> q2 = Rtc_Completed)" using failed by simp
    then show ?thesis
      using y by (cases q1; cases q2; cases q3; cases q4)
        (simp_all add: s'_def sntp_service_set_time_def c(5) get SetTime_writes SetDate_writes [OF f(2)] SetDate_writes [OF before(3)] before(1,2))
  qed
  moreover have "is_synchronized s'" if "q1 = Rtc_Completed \<and> q2 = Rtc_Completed \<and> 946684800 \<le> t \<and> t < 4102444800"
  proof -
    have y: "100 \<le> tm_year c" "tm_year c \<le> 199" using that clock_years [OF c(1,2)] by auto
    note f = rtc_fields [OF c(1) y c(3,4)]
    obtain rt rd where get: "HAL_RTC_GetTime (clock s) zero_time = (HAL_OK, rt)" "HAL_RTC_GetDate (clock s) zero_date = (HAL_OK, rd)"
      by (rule get_OK)
    show ?thesis using that y
      by (simp add: s'_def sntp_service_set_time_def c(5) get SetTime_writes SetDate_writes [OF f(2)])
  qed
  ultimately show ?thesis unfolding s'_def [symmetric] by (simp add: Let_def)
qed

text \<open>The second write fails, and the time is put back.\<close>

theorem set_time_all_or_nothing_witness:
  "sntp_service_set_time (Rtc_Completed, Rtc_Init_Timeout, Rtc_Completed, Rtc_Completed) example_date 1709210096
     \<lparr>clock = reset_clock, is_synchronized = False\<rparr> = \<lparr>clock = reset_clock, is_synchronized = False\<rparr>"
proof -
  have "tr_of zero_time = 0" "dr_of \<lparr>WeekDay = 1, Month = 1, Date = 1, Year = 0\<rparr> = 0x2101" by code_simp+
  then have v: "clock_valid reset_clock"
    unfolding clock_valid_def
    by (intro exI [of _ zero_time] exI [of _ "\<lparr>WeekDay = 1, Month = 1, Date = 1, Year = 0\<rparr>"])
      (simp add: reset_clock_def time_ok_def date_ok_def zero_time_def)
  show ?thesis
    using set_time_all_or_nothing [of "\<lparr>clock = reset_clock, is_synchronized = False\<rparr>" Rtc_Completed Rtc_Init_Timeout Rtc_Completed Rtc_Completed
        example_date 1709210096] v
    by (simp add: Let_def)
qed

end
