(* ===== verification/MQTT_Client_Id.thy ===== *)
theory MQTT_Client_Id
  imports Gateway_Prelude
begin

text \<open>
  Model of the client identifier of \<open>app/MQTT/src/mqtt_publisher.c\<close> derived from the unique id of the device: a base-32
  encoding written character by character through an accumulator that keeps overflowing, and the proof that it
  encodes all 96 bits.
\<close>

section \<open>The derived client identifier\<close>

text \<open>\<open>ABCDEFGHIJKLMNOPQRSTUVWXYZ234567\<close> in ASCII.\<close>

definition alphabet :: "u8 list" where
  "alphabet = map of_nat ([65..<91] @ [50..<56])"

text \<open>The loop state: the accumulator, its bits, and the buffer with the index of its next character.\<close>

function emit_characters :: "u32 \<Rightarrow> u8 \<Rightarrow> u8 list \<Rightarrow> nat \<Rightarrow> u8 \<times> u8 list \<times> nat" where
  "emit_characters accumulator accumulated_bits buffer output_index =
     (if accumulated_bits \<ge> 5
      then let bits = accumulated_bits - 5
           in emit_characters accumulator bits
                (buffer[output_index := alphabet ! unat (drop_bit (unat bits) accumulator AND 0x1F)]) (output_index + 1)
      else (accumulated_bits, buffer, output_index))"
  by auto
termination
proof (relation "measure (\<lambda>(accumulator, bits, buffer, i). unat bits)", simp, unfold in_measure split)
  fix bits x :: u8
  assume five: "5 \<le> bits" and x: "x = bits - 5"
  then have "5 \<le> unat bits" by (simp add: word_le_nat_alt)
  then show "unat x < unat bits" using five unfolding x by (simp add: unat_sub)
qed

declare emit_characters.simps [simp del]

fun encode_bytes :: "u8 list \<Rightarrow> u32 \<Rightarrow> u8 \<Rightarrow> u8 list \<Rightarrow> nat \<Rightarrow> u32 \<times> u8 \<times> u8 list \<times> nat" where
  "encode_bytes [] accumulator accumulated_bits buffer output_index = (accumulator, accumulated_bits, buffer, output_index)"
| "encode_bytes (b # bs) accumulator accumulated_bits buffer output_index =
     (let accumulator1 = push_bit 8 accumulator OR ucast b;
          (bits, buffer1, output_index1) = emit_characters accumulator1 (accumulated_bits + 8) buffer output_index
      in encode_bytes bs accumulator1 bits buffer1 output_index1)"

definition word_bytes :: "u32 \<Rightarrow> u8 list" where
  "word_bytes w = [ucast (drop_bit 24 w), ucast (drop_bit 16 w), ucast (drop_bit 8 w), ucast w]"

definition mqtt_publisher_client_id_from_uid :: "u32 \<Rightarrow> u32 \<Rightarrow> u32 \<Rightarrow> u8 list \<Rightarrow> u8 list" where
  "mqtt_publisher_client_id_from_uid uid_word0 uid_word1 uid_word2 mqtt_derived_client_id =
     (let uid_bytes = concat (map word_bytes [uid_word0, uid_word1, uid_word2]);
          prefix = mqtt_derived_client_id[0 := 83, 1 := 84, 2 := 77];
          (accumulator, accumulated_bits, buffer, output_index) = encode_bytes uid_bytes 0 0 prefix 3;
          (buffer1, output_index1) =
            (if accumulated_bits \<noteq> 0
             then (buffer[output_index := alphabet ! unat (push_bit (unat (5 - accumulated_bits)) accumulator AND 0x1F)], output_index + 1)
             else (buffer, output_index))
      in buffer1[output_index1 := 0])"

section \<open>What it writes\<close>

text \<open>The digits to the base 32 written so far, and the value of bytes and digits.\<close>

definition byte_value :: "u8 list \<Rightarrow> nat" where
  "byte_value = foldl (\<lambda>v b. 256 * v + unat b) 0"

definition digit_value :: "nat list \<Rightarrow> nat" where
  "digit_value = foldl (\<lambda>v d. 32 * v + d) 0"

definition written :: "nat list \<Rightarrow> u8 list" where
  "written ds = [83, 84, 77] @ map (\<lambda>d. alphabet ! d) ds"

lemma digit_value_snoc [simp]: "digit_value (ds @ [d]) = 32 * digit_value ds + d" "digit_value [] = 0"
  by (simp_all add: digit_value_def)

lemma byte_value_snoc [simp]: "byte_value (bs @ [b]) = 256 * byte_value bs + unat b" "byte_value [] = 0"
  by (simp_all add: byte_value_def)

lemma written_snoc: "written (ds @ [d]) = written ds @ [alphabet ! d]" "length (written ds) = 3 + length ds"
  by (simp_all add: written_def)

lemma take_update_next: "i < length xs \<Longrightarrow> take (Suc i) (xs[i := x]) = take i xs @ [x]"
  by (simp add: take_Suc_conv_app_nth)

text \<open>
  The state between two characters: \<open>ds\<close> are written, \<open>k\<close> bits of the accumulator are not, and together they are the
  value \<open>v\<close>.
\<close>

definition emitted :: "nat \<Rightarrow> u32 \<Rightarrow> nat \<Rightarrow> u8 list \<Rightarrow> nat \<Rightarrow> nat list \<Rightarrow> bool" where
  "emitted v accumulator k buffer i ds \<longleftrightarrow>
     v = digit_value ds * 2 ^ k + unat accumulator mod 2 ^ k \<and> (\<forall>d \<in> set ds. d < 32) \<and>
     i = 3 + length ds \<and> length buffer = 24 \<and> take (3 + length ds) buffer = written ds"

lemma five_bits: "unat (drop_bit k a AND 0x1F) = unat a div 2 ^ k mod 32" for a :: u32
proof -
  define x where "x = drop_bit k a"
  have x: "unat x = unat a div 2 ^ k" unfolding x_def unsigned_drop_bit_eq
    using take_bit_nat_eq_self [of "unat a" 32] unsigned_less [of a, where 'a = nat] by (simp add: drop_bit_eq_div)
  have "x AND 0x1F = x mod 32" using take_bit_eq_mask [of 5 x] by (simp add: take_bit_eq_mod mask_eq_exp_minus_1)
  then show ?thesis unfolding x_def [symmetric] by (simp only: unat_mod x) simp
qed

lemma emit_one:
  assumes "emitted v a (k + 5) buffer i ds" "length ds < 20"
  shows "emitted v a k (buffer[i := alphabet ! unat (drop_bit k a AND 0x1F)]) (i + 1) (ds @ [unat a div 2 ^ k mod 32])"
proof -
  have "unat a mod 2 ^ (k + 5) = (unat a div 2 ^ k mod 32) * 2 ^ k + unat a mod 2 ^ k"
    by (simp add: power_add mod_mult2_eq)
  moreover have "digit_value ds * 2 ^ (k + 5) = 32 * digit_value ds * 2 ^ k" by (simp add: power_add)
  ultimately have "v = (32 * digit_value ds + unat a div 2 ^ k mod 32) * 2 ^ k + unat a mod 2 ^ k"
    using assms(1) by (simp add: emitted_def add_mult_distrib)
  moreover have "i < length buffer" using assms by (simp add: emitted_def)
  have w: "take i buffer = written ds" using assms(1) by (simp add: emitted_def)
  from take_update_next [OF \<open>i < length buffer\<close>, of "alphabet ! unat (drop_bit k a AND 0x1F)"]
  have "take (Suc i) (buffer[i := alphabet ! unat (drop_bit k a AND 0x1F)]) = written (ds @ [unat a div 2 ^ k mod 32])"
    by (simp only: five_bits w written_snoc)
  ultimately show ?thesis
    using assms(1) by (simp add: emitted_def)
qed

lemma emit_characters_exact:
  assumes "emit_characters a bits buffer i = (bits', buffer', i')" "emitted v a (unat bits) buffer i ds"
    and "5 * length ds + unat bits \<le> 96"
  obtains ds' where "emitted v a (unat bits') buffer' i' ds'" "unat bits' < 5" "5 * length ds' + unat bits' = 5 * length ds + unat bits"
  using assms
proof (induction a bits buffer i arbitrary: ds thesis rule: emit_characters.induct)
  case (1 a bits buffer i)
  show ?case
  proof (cases "bits \<ge> 5")
    case True
    then have b: "5 \<le> unat bits" "unat (bits - 5) = unat bits - 5" by (simp_all add: word_le_nat_alt unat_sub)
    let ?buffer = "buffer[i := alphabet ! unat (drop_bit (unat (bits - 5)) a AND 0x1F)]"
    let ?ds = "ds @ [unat a div 2 ^ unat (bits - 5) mod 32]"
    have e: "emitted v a (unat (bits - 5)) ?buffer (i + 1) ?ds"
      by (rule emit_one) (use 1(4,5) b in simp_all)
    have r: "emit_characters a (bits - 5) ?buffer (i + 1) = (bits', buffer', i')"
      using 1(3) True by (subst (asm) emit_characters.simps) (simp add: Let_def)
    show thesis
      by (rule 1(1) [OF True refl _ r e]) (use 1(2,5) b in simp_all)
  next
    case False
    then have "bits' = bits" "buffer' = buffer" "i' = i"
      using 1(3) by (subst (asm) emit_characters.simps, simp)+
    moreover have "unat bits < 5" using False by (simp add: word_le_nat_alt)
    ultimately show thesis using 1(2,4) by blast
  qed
qed

lemma push_byte:
  assumes "k < 5"
  shows "unat (push_bit 8 a OR ucast b :: u32) mod 2 ^ (k + 8) = 256 * (unat a mod 2 ^ k) + unat (b :: u8)"
proof -
  have m: "unat x mod 2 ^ n = unat (take_bit n x)" for x :: u32 and n
    unfolding unsigned_take_bit_eq by (simp add: take_bit_eq_mod)
  have "take_bit (k + 8) (push_bit 8 a OR ucast b :: u32) = push_bit 8 (take_bit k a) OR ucast b"
    by (rule bit_word_eqI) (auto simp: bit_simps not_bit_u8 not_le)
  also have "\<dots> = push_bit 8 (take_bit k a) + ucast b"
    by (rule disjunctive_add [symmetric]) (auto simp: bit_simps dest: bit_u8_high)
  finally have "unat (take_bit (k + 8) (push_bit 8 a OR ucast b :: u32)) = unat (push_bit 8 (take_bit k a) + ucast b :: u32)" by simp
  also have "\<dots> = 256 * unat (take_bit k a) + unat b"
  proof -
    have "unat (take_bit k a) < 2 ^ k" unfolding m [symmetric] by simp
    also have "(2 :: nat) ^ k \<le> 2 ^ 4" using assms by (intro power_increasing) simp_all
    finally have s: "unat (take_bit k a) < 16" by simp
    have "unat (push_bit 8 (take_bit k a) :: u32) = 256 * unat (take_bit k a)"
      using s by (simp add: push_bit_eq_mult unat_word_ariths)
    moreover have "256 * unat (take_bit k a) + unat b < 4294967296" using s unat_u8_less [of b] by linarith
    ultimately show ?thesis by (subst unat_plus_small) simp_all
  qed
  finally show ?thesis by (simp only: m)
qed

lemma encode_bytes_exact:
  assumes "encode_bytes bs a bits buffer i = (a', bits', buffer', i')" "emitted v a (unat bits) buffer i ds" "unat bits < 5"
    and "5 * length ds + unat bits + 8 * length bs \<le> 96"
  obtains ds' where "emitted (foldl (\<lambda>v b. 256 * v + unat b) v bs) a' (unat bits') buffer' i' ds'" "unat bits' < 5"
    "5 * length ds' + unat bits' = 5 * length ds + unat bits + 8 * length bs"
  using assms
proof (induction bs arbitrary: a bits buffer i v ds thesis)
  case Nil
  then show ?case by simp
next
  case (Cons b bs)
  define a1 where "a1 = (push_bit 8 a OR ucast b :: u32)"
  obtain bits1 buffer1 i1 where e: "emit_characters a1 (bits + 8) buffer i = (bits1, buffer1, i1)" by (metis prod_cases3)
  have b8: "unat (bits + 8) = unat bits + 8" using Cons.prems(4) by (simp add: unat_plus_small)
  have s: "emitted (256 * v + unat b) a1 (unat (bits + 8)) buffer i ds"
    using Cons.prems(3) push_byte [OF Cons.prems(4), of a b] by (simp add: emitted_def b8 a1_def [symmetric] power_add)
  obtain ds1 where d: "emitted (256 * v + unat b) a1 (unat bits1) buffer1 i1 ds1" "unat bits1 < 5"
      "5 * length ds1 + unat bits1 = 5 * length ds + unat (bits + 8)"
    by (rule emit_characters_exact [OF e s]) (use Cons.prems(5) b8 in simp_all)
  have r: "encode_bytes bs a1 bits1 buffer1 i1 = (a', bits', buffer', i')"
    using Cons.prems(2) by (simp add: Let_def a1_def [symmetric] e)
  show ?case
    by (rule Cons.IH [OF _ r d(1,2)]) (use Cons.prems(1,5) d(3) b8 in simp_all)
qed

definition uid_value :: "u32 \<Rightarrow> u32 \<Rightarrow> u32 \<Rightarrow> nat" where
  "uid_value w0 w1 w2 = (unat w0 * 2 ^ 32 + unat w1) * 2 ^ 32 + unat w2"

lemma word_bytes_value: "foldl (\<lambda>v b. 256 * v + unat b) v (word_bytes w) = v * 2 ^ 32 + unat w"
proof -
  have u: "unat (ucast (drop_bit k w) :: u8) = unat w div 2 ^ k mod 256" for k
  proof -
    have "unat (drop_bit k w) = unat w div 2 ^ k" unfolding unsigned_drop_bit_eq
      using take_bit_nat_eq_self [of "unat w" 32] unsigned_less [of w, where 'a = nat] by (simp add: drop_bit_eq_div)
    then show ?thesis by (simp add: unsigned_ucast_eq take_bit_eq_mod)
  qed
  define n where "n = unat w"
  have "n < 4294967296" using unsigned_less [of w, where 'a = nat] by (simp add: n_def)
  define p q r where "p = n div 256" and "q = p div 256" and "r = q div 256"
  define m0 m1 m2 where "m0 = n mod 256" and "m1 = p mod 256" and "m2 = q mod 256"
  have e: "n = 256 * p + m0" "p = 256 * q + m1" "q = 256 * r + m2"
    unfolding p_def q_def r_def m0_def m1_def m2_def by (simp_all only: mult_div_mod_eq)
  have "r mod 256 = r" using \<open>n < 4294967296\<close> by (simp add: p_def q_def r_def div_mult2_eq [symmetric] div_less_iff_less_mult)
  moreover have "256 * (256 * (256 * (256 * v + r) + m2) + m1) + m0 = v * 4294967296 + (256 * (256 * (256 * r + m2) + m1) + m0)" by simp
  ultimately have "256 * (256 * (256 * (256 * v + r mod 256) + m2) + m1) + m0 = v * 4294967296 + n" using e by (simp only:)
  moreover have "n div 65536 = q" "n div 16777216 = r" by (simp_all add: p_def q_def r_def div_mult2_eq [symmetric])
  ultimately have "256 * (256 * (256 * (256 * v + n div 16777216 mod 256) + n div 65536 mod 256) + n div 256 mod 256) + n mod 256 =
      v * 4294967296 + n" by (simp only: m0_def m1_def m2_def p_def)
  then show ?thesis using u [of 24] u [of 16] u [of 8] u [of 0] by (simp add: word_bytes_def n_def)
qed

lemma alphabet_facts: "length alphabet = 32" "distinct alphabet" "set alphabet \<subseteq> {48..57} \<union> {65..90}"
  by code_simp+

lemma client_id_exact:
  assumes "length buffer = 24"
  obtains ds where "mqtt_publisher_client_id_from_uid w0 w1 w2 buffer = written ds @ [0]" "length ds = 20" "\<forall>d \<in> set ds. d < 32"
    "digit_value ds = 16 * uid_value w0 w1 w2"
proof -
  define bs where "bs = concat (map word_bytes [w0, w1, w2])"
  define prefix where "prefix = buffer[0 := 83, 1 := 84, 2 := 77 :: u8]"
  obtain a bits buffer1 i where e: "encode_bytes bs 0 0 prefix 3 = (a, bits, buffer1, i)" by (metis prod_cases4)
  have "take 3 prefix = [83, 84, 77]"
    using assms by (simp add: prefix_def eval_nat_numeral take_Suc_conv_app_nth)
  then have s: "emitted 0 0 (unat (0 :: u8)) prefix 3 []" using assms by (simp add: emitted_def written_def prefix_def)
  have l: "length bs = 12" by (simp add: bs_def word_bytes_def)
  obtain ds where ds: "emitted (foldl (\<lambda>v b. 256 * v + unat b) 0 bs) a (unat bits) buffer1 i ds" "unat bits < 5"
      "5 * length ds + unat bits = 5 * length ([] :: nat list) + unat (0 :: u8) + 8 * length bs"
    by (rule encode_bytes_exact [OF e s]) (simp_all add: l)
  have n: "length ds = 19" "unat bits = 1" using ds(2,3) l by simp_all presburger+
  have b: "bits = 1" using n(2) by (simp add: word_unat_eq_iff)
  have v: "foldl (\<lambda>v b. 256 * v + unat b) 0 bs = uid_value w0 w1 w2"
    by (simp add: bs_def word_bytes_value uid_value_def)
  define d where "d = unat (push_bit 4 a AND 0x1F)"
  have d: "d = 16 * (unat a mod 2)"
  proof -
    have "unat (push_bit 4 a) = 16 * unat a mod 2 ^ 32" by (simp add: push_bit_eq_mult unat_word_ariths mult.commute)
    then have "d = 16 * unat a mod 2 ^ 32 mod 32" using five_bits [of 0 "push_bit 4 a"] by (simp add: d_def)
    then have "d = 16 * unat a mod (16 * 2)" by (simp add: mod_mod_cancel)
    then show ?thesis by (simp only: mod_mult_mult1)
  qed
  have f: "uid_value w0 w1 w2 = digit_value ds * 2 + unat a mod 2" "\<forall>d \<in> set ds. d < 32" "i = 22" "length buffer1 = 24"
    "take 22 buffer1 = written ds" using ds(1) n by (simp_all add: emitted_def v)
  define buffer2 where "buffer2 = buffer1[22 := alphabet ! d]"
  have t: "take 23 buffer2 = written (ds @ [d])"
    using take_update_next [of 22 buffer1 "alphabet ! d"] f(4,5) by (simp add: buffer2_def written_snoc)
  have "take (Suc 23) (buffer2[23 := 0]) = take 23 buffer2 @ [0]" by (rule take_update_next) (simp add: buffer2_def f(4))
  moreover have "take (Suc 23) (buffer2[23 := 0]) = buffer2[23 := 0]" by (rule take_all) (simp add: buffer2_def f(4))
  ultimately have r: "buffer2[23 := 0] = written (ds @ [d]) @ [0]" by (simp only: t)
  have "mqtt_publisher_client_id_from_uid w0 w1 w2 buffer = buffer2[23 := 0]"
    unfolding mqtt_publisher_client_id_from_uid_def Let_def bs_def [symmetric] prefix_def [symmetric] e prod.case
    by (simp add: b f(3) buffer2_def d_def)
  then show thesis
    using that [of "ds @ [d]"] r n(1) f(1,2) d by (auto simp: less_Suc_eq_le)
qed

lemma uid_value_inject: "uid_value w0 w1 w2 = uid_value v0 v1 v2 \<longleftrightarrow> w0 = v0 \<and> w1 = v1 \<and> w2 = v2"
proof
  have lt: "unat w < 2 ^ 32" for w :: u32 using unsigned_less [of w, where 'a = nat] by simp
  have split: "(x * 2 ^ 32 + unat w) div 2 ^ 32 = x" "(x * 2 ^ 32 + unat w) mod 2 ^ 32 = unat w" for x and w :: u32
    using lt [of w] by simp_all
  assume e: "uid_value w0 w1 w2 = uid_value v0 v1 v2"
  from arg_cong [OF e, of "\<lambda>x. x mod 2 ^ 32"] arg_cong [OF e, of "\<lambda>x. x div 2 ^ 32"]
  have 1: "unat w2 = unat v2" "unat w0 * 2 ^ 32 + unat w1 = unat v0 * 2 ^ 32 + unat v1" unfolding uid_value_def split by simp_all
  from arg_cong [OF 1(2), of "\<lambda>x. x mod 2 ^ 32"] arg_cong [OF 1(2), of "\<lambda>x. x div 2 ^ 32"]
  have "unat w1 = unat v1" "unat w0 = unat v0" unfolding split by simp_all
  then show "w0 = v0 \<and> w1 = v1 \<and> w2 = v2" using 1(1) by (simp add: word_unat_eq_iff)
qed simp

text \<open>
  C39. The derived MQTT client identifier names the device: for every 96-bit unique id it is 23 characters, \<open>STM\<close> and
  upper-case letters and digits (all that MQTT 3.1.1 obliges a broker to accept), with its NUL in a buffer of
  24 bytes, and two devices have the same identifier only if they have the same unique id.
\<close>

theorem derived_client_id_unique:
  assumes "length buffer = 24" "length buffer' = 24"
  shows "let i = mqtt_publisher_client_id_from_uid w0 w1 w2 buffer in
    length i = 24 \<and> take 3 i = [83, 84, 77] \<and> set (take 23 i) \<subseteq> {48..57} \<union> {65..90} \<and> i ! 23 = 0 \<and>
    (i = mqtt_publisher_client_id_from_uid v0 v1 v2 buffer' \<longleftrightarrow> w0 = v0 \<and> w1 = v1 \<and> w2 = v2)"
proof -
  obtain ds where d: "mqtt_publisher_client_id_from_uid w0 w1 w2 buffer = written ds @ [0]" "length ds = 20" "\<forall>d \<in> set ds. d < 32"
    "digit_value ds = 16 * uid_value w0 w1 w2" using client_id_exact [OF assms(1)] .
  obtain es where e: "mqtt_publisher_client_id_from_uid v0 v1 v2 buffer' = written es @ [0]" "length es = 20" "\<forall>d \<in> set es. d < 32"
    "digit_value es = 16 * uid_value v0 v1 v2" using client_id_exact [OF assms(2)] .
  have "written ds = written es \<longleftrightarrow> ds = es"
  proof -
    have "inj_on ((!) alphabet) {..<32}" using alphabet_facts(1,2) by (auto simp: inj_on_def nth_eq_iff_index_eq)
    then have "inj_on ((!) alphabet) (set ds \<union> set es)" by (rule inj_on_subset) (use d(3) e(3) in auto)
    then show ?thesis by (auto simp: written_def dest: map_inj_on)
  qed
  also have "\<dots> \<longleftrightarrow> w0 = v0 \<and> w1 = v1 \<and> w2 = v2"
  proof
    show "w0 = v0 \<and> w1 = v1 \<and> w2 = v2" if "ds = es"
      using that d(4) e(4) uid_value_inject [of w0 w1 w2 v0 v1 v2] by simp
    show "ds = es" if "w0 = v0 \<and> w1 = v1 \<and> w2 = v2"
    proof -
      have v: "digit_value ds = digit_value es" using that d(4) e(4) by simp
      have "length ds = length es" using d(2) e(2) by simp
      then show ?thesis using v d(3) e(3)
      proof (induction ds arbitrary: es rule: rev_induct)
        case (snoc x xs)
        then obtain ys y where es: "es = ys @ [y]" by (cases es rule: rev_cases) auto
        have "32 * digit_value xs + x = 32 * digit_value ys + y" "x < 32" "y < 32" using snoc.prems by (simp_all add: es)
        then have "digit_value xs = digit_value ys" "x = y" using radix_inject [of 32 "digit_value xs" x "digit_value ys" y] by simp_all
        then show ?case using snoc by (simp add: es)
      qed simp
    qed
  qed
  moreover have "set (written ds) \<subseteq> {48..57} \<union> {65..90}"
  proof -
    have "alphabet ! x \<in> {48..57} \<union> {65..90}" if "x \<in> set ds" for x
    proof -
      have "x < length alphabet" using alphabet_facts(1) d(3) that by simp
      then show ?thesis using alphabet_facts(3) nth_mem by blast
    qed
    then have "(!) alphabet ` set ds \<subseteq> {48..57} \<union> {65..90}" by (rule image_subsetI)
    moreover have "{83, 84, 77 :: u8} \<subseteq> {48..57} \<union> {65..90}" by simp
    ultimately show ?thesis by (simp only: written_def set_append set_map list.set Un_insert_left Un_empty_left Un_least insert_subset)
  qed
  moreover have "length (written ds) = 23" by (simp add: written_snoc d(2))
  moreover have "take 3 (written ds) = [83, 84, 77]" by (simp add: written_def)
  ultimately show ?thesis by (simp add: Let_def d(1) e(1) nth_append)
qed

theorem derived_client_id_unique_witness:
  "mqtt_publisher_client_id_from_uid 0 1 2 (replicate 24 0) \<noteq> mqtt_publisher_client_id_from_uid 0 2 1 (replicate 24 0)"
  using derived_client_id_unique [of "replicate 24 0" "replicate 24 0" 0 1 2 0 2 1] by (simp add: Let_def)

end
