(* ===== verification/Spec2Isabelle.thy ===== *)
theory Spec2Isabelle
  imports Configuration_Log Boot_Control Management_Transport Modbus_Gateway_Runs RS485_Port_Runs SNTP_Service MQTT_Client_Id
begin

text \<open>
  Verification of the firmware of a Modbus RTU/TCP gateway (STM32F407, sources under \<open>app/\<close>).

  \<^bold>\<open>The program.\<close> The gateway answers Modbus TCP clients by running their requests on an RS485 bus, polls
  collection points on the same bus for an MQTT broker, and is configured over USB. All bus traffic goes
  through one scheduler task with a high- and a low-priority queue; requests and responses live in a pool
  of six ADUs. The configuration is kept in two slots of an external flash; two program slots in the
  internal flash allow upgrades that can fall back.

  \<^bold>\<open>Theories and what they model.\<close>
  \<^item> \<open>Gateway_Prelude\<close>: machine integers, byte order, C pointers as options, \<open>overwrite\<close> for memcpy into a
    buffer, and the lemmas all theories share; the locale \<open>byte_checksum\<close> for the byte-wise checksums.
  \<^item> \<open>Modbus_Common\<close>, \<open>Modbus_RTU\<close> (\<open>modbus_common.h\<close>, \<open>modbus_rtu.c\<close>): CRC-16, request validation, encoders,
    decoders and the transaction over an arbitrary serial port.
  \<^item> \<open>ADU_Pool\<close>, \<open>RTU_Scheduler\<close> (\<open>modbus_rtu_adu_pool.c\<close>, \<open>modbus_rtu_transaction_scheduler.c\<close>): ownership of
    the ADUs under every interleaving of the tasks (locale \<open>adu_allocator\<close>), and the scheduler as a refinement of
    two FIFO queues.
  \<^item> \<open>Configuration\<close>, \<open>Configuration_Text\<close>, \<open>Configuration_Meaning\<close> (\<open>configuration.c\<close>): the configuration
    object, its validation and comparison; what the text checks accept, as grammars.
  \<^item> \<open>Configuration_Codec\<close> (\<open>configuration_binary_codec.c\<close>): the binary format; locales \<open>field_codec\<close> and
    \<open>object_codec\<close> state what a reader/writer pair promises.
  \<^item> \<open>External_Flash\<close> (\<open>external_flash.c\<close>): the driver on top of a device model of the chip that takes the bytes
    on the SPI bus, with write enable latch, page wrap, operations cut off by a supply failure, and arbitrary outcomes of
    bus, DMA and semaphore calls; locale \<open>crash_store\<close> is its contract.
  \<^item> \<open>Configuration_Service\<close>, \<open>Configuration_Log\<close> (\<open>configuration_service.c\<close>): slot choice, start-up, the
    atomic write and the start-up log.
  \<^item> \<open>Internal_Flash\<close>, \<open>Boot_Control\<close> (\<open>internal_flash.c\<close>, \<open>boot_control.c\<close>): programming over a NOR device
    with failures (locale \<open>nor_store\<close>), and the slot protocol of upgrades.
  \<^item> \<open>Management_Frame\<close> (\<open>management_frame.c\<close>): encoder and streaming parser of the USB protocol; locale
    \<open>stream_parser\<close> makes its result independent of how the stream is cut.
  \<^item> \<open>Management_Transport\<close> (\<open>management_transport.c\<close>): the five requests, the interrupt handlers and the task
    cut at its critical sections, as a step relation.

  \<^item> \<open>Modbus_TCP_Server\<close>, \<open>Modbus_TCP_Invariant\<close>, \<open>Modbus_TCP_Operations\<close> (\<open>modbus_tcp_server.c\<close>): the server with its four
    clients; the invariant on ADUs, tokens, buffers and replies over a small set of events; and that every operation
    of the code is a sequence of these events.
  \<^item> \<open>Modbus_Collector\<close> (\<open>modbus_collector.c\<close>, \<open>modbus_collector_codec.c\<close>): the deadlines of the points over the wrapping
    tick counter, requests, and payloads as decimal text.
  \<^item> \<open>Modbus_Gateway\<close>, \<open>Modbus_Gateway_Runs\<close> (\<open>modbus_gateway_app.c\<close>): server, scheduler and collector over the shared
    queues and ADU pool, interleaved by \<open>gateway_step\<close>; \<open>gateway_inv\<close> is established by the initialisation with any valid
    configuration and kept by every step, and what it means for replies, publications, ADUs and waiting clients.
  \<^item> \<open>RS485_Port\<close>, \<open>RS485_Port_Runs\<close> (\<open>modbus_rtu_rs485_port.c\<close>, and the functions of \<open>stm32f4xx_hal_uart.c\<close> and
    \<open>stm32f4xx_hal_tim.c\<close> under it): the transaction on the line, cut where an interrupt can intervene, against arbitrary
    interrupts and failing driver calls; it is one serial port the transaction of \<open>Modbus_RTU\<close> can run on.
  \<^item> \<open>SNTP_Calendar\<close>, \<open>SNTP_Service\<close> (\<open>sntp_service.c\<close>, \<open>stm32f4xx_hal_rtc.c\<close>): the calendar conversions against a
    closed form of the Gregorian calendar, and the clock down to its BCD registers.
  \<^item> \<open>MQTT_Client_Id\<close> (\<open>mqtt_publisher.c\<close>): the client id derived from the chip id.

  \<^bold>\<open>State.\<close> A C struct is a record with the names of its fields, a file's static variables are one record, an
  enum is a datatype, a pointer that may be \<open>NULL\<close> is an option, an out-parameter is a returned cell, and
  integers keep their width. Hardware and operating system are parameters or small device models whose behaviour
  an arbitrary list of outcomes or an environment record decides, so every theorem holds for all of them.

  \<^bold>\<open>Loops.\<close> Loops over arrays are structural recursion; the parser loop carries its termination proof; the
  polling loops of the flash driver end because the sources bound them, and the model counts the same bound. No fuel
  is used anywhere.

  \<^bold>\<open>Not modelled.\<close> Start-up glue and generated code (\<open>Core/\<close>, \<open>LWIP/\<close>, \<open>MBEDTLS/\<close>, \<open>USB_DEVICE/\<close>),
  vendored libraries (\<open>Middlewares/\<close>, \<open>Drivers/\<close>) apart from the few of their functions the models
  translate, host tools and tests, and the boot loader, whose directory is empty in this repository.
\<close>

end
